(* ===== verification/Rust_Prelude.thy ===== *)
theory Rust_Prelude
  imports Main "HOL-Library.Word"
begin

text \<open>
  Shared ground of the development: the machine types, the result-and-state plumbing and the
  parts of the Rust standard library the modelled sources use (UTF-8 decoding, trimming,
  prefix and substring search, splitting, decimal printing and parsing).

  A Rust \<open>String\<close> is its UTF-8 bytes, and Isabelle's \<open>char\<close> is one byte, so a
  \<open>string\<close> here is the byte content of the Rust string and \<open>length\<close> is Rust's \<open>len\<close>.
  Wire buffers are lists of \<open>8 word\<close>; \<open>as_bytes\<close> and \<open>str_of\<close> convert.
\<close>

unbundle bit_operations_syntax

section \<open>Machine types, collections of simplification rules\<close>

type_synonym u8 = "8 word"
type_synonym u16 = "16 word"
type_synonym u32 = "32 word"
type_synonym u64 = "64 word"
type_synonym bytes = "u8 list"

named_theorems codec_simps \<open>unfolding rules of the wire codec\<close>
named_theorems reader_ok \<open>reader operations keep the reader well-formed\<close>
named_theorems rt \<open>round trips of the wire codec\<close>
named_theorems sess_inv \<open>session operations keep the session invariant\<close>
named_theorems sess_frame \<open>parts of the session an operation leaves alone\<close>

section \<open>Results threaded through a state\<close>

text \<open>
  A fallible, stateful Rust function \<open>fn f(&mut self, ..) -> Result<A, E>\<close> becomes a function
  from the state to an \<open>'e + 'a\<close> and the new state; \<open>and_then\<close> is what the \<open>?\<close> operator does.
\<close>

type_synonym ('s, 'e, 'a) fallible = "'s \<Rightarrow> ('e + 'a) \<times> 's"

definition ok :: "'a \<Rightarrow> ('s, 'e, 'a) fallible" where
  "ok a s = (Inr a, s)"

definition err :: "'e \<Rightarrow> ('s, 'e, 'a) fallible" where
  "err e s = (Inl e, s)"

definition and_then :: "('s, 'e, 'a) fallible \<Rightarrow> ('a \<Rightarrow> ('s, 'e, 'b) fallible) \<Rightarrow> ('s, 'e, 'b) fallible"
  where "and_then m k s = (case m s of (Inl e, s') \<Rightarrow> (Inl e, s') | (Inr a, s') \<Rightarrow> k a s')"

definition map_err :: "('e \<Rightarrow> 'f) \<Rightarrow> ('s, 'e, 'a) fallible \<Rightarrow> ('s, 'f, 'a) fallible" where
  "map_err f m s = (case m s of (Inl e, s') \<Rightarrow> (Inl (f e), s') | (Inr a, s') \<Rightarrow> (Inr a, s'))"

text \<open>A \<open>for _ in 0..count\<close> loop that pushes one decoded element per round.\<close>

fun repeat_n :: "nat \<Rightarrow> ('s, 'e, 'a) fallible \<Rightarrow> ('s, 'e, 'a list) fallible" where
  "repeat_n 0 m = ok []"
| "repeat_n (Suc n) m = and_then m (\<lambda>a. and_then (repeat_n n m) (\<lambda>as. ok (a # as)))"

lemma and_then_ok [simp]: "and_then (ok a) k = k a"
  by (simp add: and_then_def ok_def fun_eq_iff)

lemma and_then_err [simp]: "and_then (err e) k = err e"
  by (simp add: and_then_def err_def fun_eq_iff)

lemma and_then_assoc:
  "and_then (and_then m k) h = and_then m (\<lambda>a. and_then (k a) h)"
  by (simp add: and_then_def fun_eq_iff split: prod.splits sum.splits)

lemma and_then_InrE:
  assumes "and_then m k s = (Inr b, s')"
  obtains a t where "m s = (Inr a, t)" "k a t = (Inr b, s')"
  using assms by (auto simp: and_then_def split: prod.splits sum.splits)

lemma and_then_cong_Inr: "m s = (Inr a, t) \<Longrightarrow> and_then m k s = k a t"
  by (simp add: and_then_def)

lemma and_then_cong_Inl: "m s = (Inl e, t) \<Longrightarrow> and_then m k s = (Inl e, t)"
  by (simp add: and_then_def)

lemma ok_Inr [simp]: "ok a s = (Inr b, s') \<longleftrightarrow> b = a \<and> s' = s"
  by (auto simp: ok_def)

lemma ok_Inl [simp]: "ok a s \<noteq> (Inl b, s')"
  by (auto simp: ok_def)

lemma err_Inr [simp]: "err a s \<noteq> (Inr b, s')"
  by (auto simp: err_def)

text \<open>
  Transfer of a preorder on states (an invariant, or "only moves forward") through the plumbing.
\<close>

definition advances :: "('s \<Rightarrow> 's \<Rightarrow> bool) \<Rightarrow> ('s, 'e, 'a) fallible \<Rightarrow> bool" where
  "advances R m \<longleftrightarrow> (\<forall>s. R s (snd (m s)))"

lemma advances_ok: "reflp R \<Longrightarrow> advances R (ok a)"
  by (simp add: advances_def ok_def reflp_def)

lemma advances_err: "reflp R \<Longrightarrow> advances R (err a)"
  by (simp add: advances_def err_def reflp_def)

lemma advances_and_then:
  assumes "transp R" and m: "advances R m" and k: "\<And>a. advances R (k a)"
  shows "advances R (and_then m k)"
  unfolding advances_def
proof
  fix s
  show "R s (snd (and_then m k s))"
  proof (cases "m s")
    case (Pair r t)
    from m have "R s t" by (metis Pair advances_def snd_conv)
    moreover have "R t (snd (k a t))" for a using k by (simp add: advances_def)
    ultimately show ?thesis
      using \<open>transp R\<close> Pair by (auto simp: and_then_def split: sum.splits dest: transpD)
  qed
qed

lemma advances_repeat_n:
  assumes "reflp R" "transp R" "advances R m"
  shows "advances R (repeat_n n m)"
  using assms
  by (induction n) (auto intro!: advances_and_then advances_ok)

lemma repeat_n_length: "repeat_n n m s = (Inr xs, s') \<Longrightarrow> length xs = n"
  by (induction n arbitrary: s xs) (auto elim!: and_then_InrE)

section \<open>State and loops\<close>

definition gets :: "('s \<Rightarrow> 'a) \<Rightarrow> ('s, 'e, 'a) fallible" where
  "gets f s = (Inr (f s), s)"

definition modify :: "('s \<Rightarrow> 's) \<Rightarrow> ('s, 'e, unit) fallible" where
  "modify f s = (Inr (), f s)"

text \<open>Match on the result of a fallible call instead of returning its error.\<close>

definition attempt :: "('s, 'e, 'a) fallible \<Rightarrow> ('s, 'f, 'e + 'a) fallible" where
  "attempt m s = (case m s of (r, s') \<Rightarrow> (Inr r, s'))"

text \<open>A \<open>for\<close> loop over a list that collects one result per element.\<close>

fun map_m :: "('a \<Rightarrow> ('s, 'e, 'b) fallible) \<Rightarrow> 'a list \<Rightarrow> ('s, 'e, 'b list) fallible" where
  "map_m f [] = ok []"
| "map_m f (x # xs) = and_then (f x) (\<lambda>y. and_then (map_m f xs) (\<lambda>ys. ok (y # ys)))"

text \<open>A \<open>for\<close> loop that carries a value from round to round.\<close>

fun fold_m :: "('b \<Rightarrow> 'a \<Rightarrow> ('s, 'e, 'b) fallible) \<Rightarrow> 'b \<Rightarrow> 'a list \<Rightarrow> ('s, 'e, 'b) fallible" where
  "fold_m f b [] = ok b"
| "fold_m f b (x # xs) = and_then (f b x) (\<lambda>c. fold_m f c xs)"

definition for_each :: "'a list \<Rightarrow> ('a \<Rightarrow> ('s, 'e, unit) fallible) \<Rightarrow> ('s, 'e, unit) fallible" where
  "for_each xs f = fold_m (\<lambda>_. f) () xs"

lemma advances_gets: "reflp R \<Longrightarrow> advances R (gets f)"
  by (simp add: advances_def gets_def reflp_def)

lemma advances_modify: "(\<And>s. R s (f s)) \<Longrightarrow> advances R (modify f)"
  by (simp add: advances_def modify_def)

lemma advances_attempt: "advances R m \<Longrightarrow> advances R (attempt m)"
  by (simp add: advances_def attempt_def case_prod_beta)

lemma advances_map_m:
  assumes "reflp R" "transp R" "\<And>x. advances R (f x)"
  shows "advances R (map_m f xs)"
  using assms by (induction xs) (auto intro!: advances_and_then advances_ok)

lemma advances_fold_m:
  assumes "reflp R" "transp R" "\<And>b x. advances R (f b x)"
  shows "advances R (fold_m f b xs)"
  using assms by (induction xs arbitrary: b) (auto intro!: advances_and_then advances_ok)

lemma advances_for_each:
  assumes "reflp R" "transp R" "\<And>x. advances R (f x)"
  shows "advances R (for_each xs f)"
  unfolding for_each_def using assms by (intro advances_fold_m)

lemma gets_Inr [simp]: "gets f s = (Inr a, s') \<longleftrightarrow> a = f s \<and> s' = s"
  by (auto simp: gets_def)

lemma modify_Inr [simp]: "modify f s = (Inr a, s') \<longleftrightarrow> s' = f s"
  by (auto simp: modify_def)

lemma and_then_gets [simp]: "and_then (gets f) k s = k (f s) s"
  by (simp add: and_then_def gets_def)

lemma and_then_modify [simp]: "and_then (modify f) k s = k () (f s)"
  by (simp add: and_then_def modify_def)

section \<open>Bytes and strings\<close>

definition as_bytes :: "string \<Rightarrow> bytes" where
  "as_bytes s = map of_char s"

definition str_of :: "bytes \<Rightarrow> string" where
  "str_of bs = map (\<lambda>b. char_of (unat b)) bs"

lemma unat_of_char [simp]: "unat (of_char c :: u8) = of_char c"
proof -
  have "(of_char c :: nat) mod 256 = of_char c"
    by (rule of_char_mod_256)
  then have "(of_char c :: nat) < 256"
    by (metis mod_less_divisor zero_less_numeral)
  moreover have "(of_char c :: u8) = of_nat (of_char c)"
    by (simp add: of_nat_of_char)
  ultimately show ?thesis
    by (simp add: unat_of_nat)
qed

lemma of_char_char_of_word [simp]: "(of_char (char_of (unat b)) :: u8) = b"
proof -
  have lt: "unat b < 256"
    using unsigned_less [of b, where ?'a = nat] by simp
  have "(of_char (char_of (unat b)) :: u8) = of_nat (of_char (char_of (unat b)))"
    by (simp only: of_nat_of_char)
  also have "\<dots> = b"
    using lt by (simp add: of_char_of)
  finally show ?thesis .
qed

lemma str_of_as_bytes [simp]: "str_of (as_bytes s) = s"
  by (simp add: str_of_def as_bytes_def comp_def)

lemma as_bytes_str_of [simp]: "as_bytes (str_of b) = b"
  by (simp add: str_of_def as_bytes_def comp_def)

lemma length_as_bytes [simp]: "length (as_bytes s) = length s"
  by (simp add: as_bytes_def)

lemma length_str_of [simp]: "length (str_of s) = length s"
  by (simp add: str_of_def)

lemma as_bytes_append [simp]: "as_bytes (s @ t) = as_bytes s @ as_bytes t"
  by (simp add: as_bytes_def)

end
