(* ===== verification/Rust_Strings.thy ===== *)
theory Rust_Strings
  imports Rust_Prelude
begin

text \<open>
  The string functions of the Rust standard library that the modelled sources call, on the
  byte content of the string: \<open>from_utf8\<close>, \<open>from_utf8_lossy\<close>, \<open>trim\<close> and its one-sided forms
  (Unicode white space), \<open>strip_prefix\<close>, \<open>find\<close>, \<open>contains\<close>, \<open>split\<close>, \<open>rsplit_once\<close>,
  \<open>replace\<close>, \<open>join\<close>, \<open>to_string\<close> of integers and \<open>parse\<close> of unsigned integers.
\<close>

section \<open>UTF-8\<close>

text \<open>
  \<open>utf8_seq\<close> reads one scalar value at the head of the buffer: whether it is a valid sequence,
  and how many bytes it took (for an invalid one, the maximal prefix of a valid sequence, which
  \<open>from_utf8_lossy\<close> replaces by one U+FFFD).
\<close>

definition cont_byte :: "u8 \<Rightarrow> bool" where
  "cont_byte b \<longleftrightarrow> 0x80 \<le> b \<and> b \<le> 0xBF"

definition utf8_width :: "u8 \<Rightarrow> nat" where
  "utf8_width b =
     (if b \<le> 0x7F then 1 else if 0xC2 \<le> b \<and> b \<le> 0xDF then 2
      else if 0xE0 \<le> b \<and> b \<le> 0xEF then 3 else if 0xF0 \<le> b \<and> b \<le> 0xF4 then 4 else 0)"

text \<open>The range of the second byte of a three or four byte sequence.\<close>

definition utf8_second :: "u8 \<Rightarrow> u8 \<Rightarrow> bool" where
  "utf8_second b c =
     (if b = 0xE0 then 0xA0 \<le> c \<and> c \<le> 0xBF else if b = 0xED then 0x80 \<le> c \<and> c \<le> 0x9F
      else if b = 0xF0 then 0x90 \<le> c \<and> c \<le> 0xBF else if b = 0xF4 then 0x80 \<le> c \<and> c \<le> 0x8F
      else cont_byte c)"

definition get_byte :: "bytes \<Rightarrow> nat \<Rightarrow> u8" where
  "get_byte bs i = (if i < length bs then bs ! i else 0)"

definition utf8_seq :: "bytes \<Rightarrow> bool \<times> nat" where
  "utf8_seq bs =
     (let b = get_byte bs 0; w = utf8_width b in
      if w = 1 then (True, 1)
      else if w = 0 then (False, 1)
      else if \<not> utf8_second b (get_byte bs 1) then (False, 1)
      else if w = 2 then (True, 2)
      else if \<not> cont_byte (get_byte bs 2) then (False, 2)
      else if w = 3 then (True, 3)
      else if \<not> cont_byte (get_byte bs 3) then (False, 3)
      else (True, 4))"

lemma utf8_seq_pos: "utf8_seq bs = (v, n) \<Longrightarrow> 0 < n"
  by (auto simp: utf8_seq_def Let_def split: if_splits)

lemma utf8_seq_le: "bs \<noteq> [] \<Longrightarrow> utf8_seq bs = (v, n) \<Longrightarrow> n \<le> length bs"
  by (cases bs) (auto simp: utf8_seq_def Let_def utf8_second_def cont_byte_def Suc_le_eq get_byte_def
        split: if_splits)

definition replacement :: bytes where
  "replacement = [0xEF, 0xBF, 0xBD]"

function utf8_lossy :: "bytes \<Rightarrow> bytes" where
  "utf8_lossy bs =
     (if bs = [] then []
      else case utf8_seq bs of (v, n) \<Rightarrow>
        (if v then take n bs else replacement) @ utf8_lossy (drop n bs))"
  by pat_completeness auto
termination
  by (relation "measure length") (auto dest: utf8_seq_pos [OF sym])

function utf8_valid :: "bytes \<Rightarrow> bool" where
  "utf8_valid bs =
     (if bs = [] then True
      else case utf8_seq bs of (v, n) \<Rightarrow> v \<and> utf8_valid (drop n bs))"
  by pat_completeness auto
termination
  by (relation "measure length") (auto dest: utf8_seq_pos [OF sym])

declare utf8_lossy.simps [simp del] utf8_valid.simps [simp del]

lemma utf8_lossy_Nil [simp]: "utf8_lossy [] = []"
  by (simp add: utf8_lossy.simps)

lemma utf8_valid_Nil [simp]: "utf8_valid []"
  by (simp add: utf8_valid.simps)

lemma utf8_valid_lossy_id: "utf8_valid bs \<Longrightarrow> utf8_lossy bs = bs"
proof (induction bs rule: utf8_lossy.induct)
  case (1 bs)
  show ?case
  proof (cases "bs = []")
    case False
    obtain v n where seq: "utf8_seq bs = (v, n)" by fastforce
    with "1.prems" False have "v" "utf8_valid (drop n bs)"
      by (subst (asm) utf8_valid.simps, simp)+
    moreover from this have "utf8_lossy (drop n bs) = drop n bs"
      using "1.IH" False seq by metis
    ultimately show ?thesis
      using False seq by (subst utf8_lossy.simps) simp
  qed simp
qed

text \<open>Reading a sequence does not look past its own bytes.\<close>

lemma utf8_seq_local:
  assumes "utf8_seq bs = (True, n)" and "\<And>i. i < n \<Longrightarrow> get_byte cs i = get_byte bs i"
  shows "utf8_seq cs = (True, n)"
  using assms(1) assms(2) [of 0] assms(2) [of 1] assms(2) [of 2] assms(2) [of 3]
  by (simp add: utf8_seq_def Let_def split: if_splits)

lemma utf8_seq_append:
  assumes "utf8_seq bs = (True, n)" "n \<le> length bs"
  shows "utf8_seq (take n bs @ cs) = (True, n)"
  by (rule utf8_seq_local [OF assms(1)]) (use assms(2) in \<open>simp add: get_byte_def nth_append\<close>)

lemma utf8_valid_take_append:
  assumes "utf8_seq bs = (True, n)" "bs \<noteq> []" "utf8_valid cs"
  shows "utf8_valid (take n bs @ cs)"
proof -
  have le: "n \<le> length bs" and pos: "0 < n"
    using assms utf8_seq_le utf8_seq_pos by blast+
  then have "take n bs @ cs \<noteq> []" using assms(2) by auto
  moreover have "utf8_seq (take n bs @ cs) = (True, n)"
    by (rule utf8_seq_append [OF assms(1) le])
  ultimately show ?thesis
    using le assms(3) by (subst utf8_valid.simps) simp
qed

lemma utf8_seq_replacement: "utf8_seq (replacement @ cs) = (True, 3)"
  by (simp add: replacement_def utf8_seq_def utf8_width_def utf8_second_def cont_byte_def get_byte_def)

lemma utf8_valid_replacement: "utf8_valid cs \<Longrightarrow> utf8_valid (replacement @ cs)"
  by (subst utf8_valid.simps) (simp add: utf8_seq_replacement, simp add: replacement_def)

theorem utf8_lossy_valid: "utf8_valid (utf8_lossy bs)"
proof (induction bs rule: utf8_lossy.induct)
  case (1 bs)
  show ?case
  proof (cases "bs = []")
    case False
    obtain v n where seq: "utf8_seq bs = (v, n)" by fastforce
    have IH: "utf8_valid (utf8_lossy (drop n bs))"
      using "1.IH" False seq by metis
    have eq: "utf8_lossy bs = (if v then take n bs else replacement) @ utf8_lossy (drop n bs)"
      using False seq by (subst utf8_lossy.simps) simp
    show ?thesis
      using IH seq False
      by (cases v) (simp_all add: eq utf8_valid_take_append utf8_valid_replacement)
  qed simp
qed

lemma utf8_lossy_idem: "utf8_lossy (utf8_lossy bs) = utf8_lossy bs"
  by (rule utf8_valid_lossy_id [OF utf8_lossy_valid])

text \<open>ASCII text is valid, so decoding it changes nothing.\<close>

lemma utf8_seq_ascii: "b \<le> 0x7F \<Longrightarrow> utf8_seq (b # bs) = (True, 1)"
  by (simp add: utf8_seq_def utf8_width_def get_byte_def)

lemma utf8_valid_ascii: "\<forall>b \<in> set bs. b \<le> 0x7F \<Longrightarrow> utf8_valid bs"
  by (induction bs) (simp, subst utf8_valid.simps, simp add: utf8_seq_ascii)

text \<open>\<open>String::from_utf8_lossy\<close> and \<open>std::str::from_utf8(..).ok()\<close>, as strings.\<close>

definition from_utf8_lossy :: "bytes \<Rightarrow> string" where
  "from_utf8_lossy bs = str_of (utf8_lossy bs)"

definition from_utf8 :: "bytes \<Rightarrow> string option" where
  "from_utf8 bs = (if utf8_valid bs then Some (str_of bs) else None)"

definition valid_str :: "string \<Rightarrow> bool" where
  "valid_str s = utf8_valid (as_bytes s)"

lemma valid_str_from_utf8_lossy [simp]: "valid_str (from_utf8_lossy bs)"
  by (simp add: valid_str_def from_utf8_lossy_def utf8_lossy_valid)

lemma from_utf8_lossy_as_bytes: "valid_str s \<Longrightarrow> from_utf8_lossy (as_bytes s) = s"
  by (simp add: valid_str_def from_utf8_lossy_def utf8_valid_lossy_id)

lemma from_utf8_Some_valid: "from_utf8 bs = Some s \<Longrightarrow> valid_str s \<and> as_bytes s = bs"
  by (auto simp: from_utf8_def valid_str_def split: if_splits)

lemma valid_str_ascii: "list_all (\<lambda>c. \<not> digit7 c) s \<Longrightarrow> valid_str s"
proof -
  have "(of_char c :: u8) \<le> 0x7F" if "\<not> digit7 c" for c
  proof -
    have "(of_char c :: nat) \<le> 127"
      using that by (cases c) (simp add: of_bool_def)
    then show ?thesis by (simp add: word_le_nat_alt)
  qed
  then show "list_all (\<lambda>c. \<not> digit7 c) s \<Longrightarrow> valid_str s"
    by (auto simp: valid_str_def list_all_iff as_bytes_def intro!: utf8_valid_ascii)
qed

section \<open>Prefixes, searching, splitting, replacing\<close>

definition starts_with :: "string \<Rightarrow> string \<Rightarrow> bool" where
  "starts_with p s \<longleftrightarrow> take (length p) s = p"

definition ends_with :: "string \<Rightarrow> string \<Rightarrow> bool" where
  "ends_with p s \<longleftrightarrow> length p \<le> length s \<and> drop (length s - length p) s = p"

definition strip_prefix :: "string \<Rightarrow> string \<Rightarrow> string option" where
  "strip_prefix p s = (if starts_with p s then Some (drop (length p) s) else None)"

definition strip_suffix :: "string \<Rightarrow> string \<Rightarrow> string option" where
  "strip_suffix p s = (if ends_with p s then Some (take (length s - length p) s) else None)"

text \<open>\<open>str::find\<close>: the byte index of the first occurrence.\<close>

fun find_sub :: "string \<Rightarrow> string \<Rightarrow> nat option" where
  "find_sub p [] = (if p = [] then Some 0 else None)"
| "find_sub p (c # s) = (if starts_with p (c # s) then Some 0 else map_option Suc (find_sub p s))"

definition contains_sub :: "string \<Rightarrow> string \<Rightarrow> bool" where
  "contains_sub p s \<longleftrightarrow> find_sub p s \<noteq> None"

text \<open>\<open>str::split(c)\<close>: always at least one piece.\<close>

fun split_char :: "char \<Rightarrow> string \<Rightarrow> string list" where
  "split_char c [] = [[]]"
| "split_char c (x # xs) =
     (if x = c then [] # split_char c xs
      else case split_char c xs of [] \<Rightarrow> [[x]] | p # ps \<Rightarrow> (x # p) # ps)"

text \<open>\<open>str::rsplit_once(c)\<close>.\<close>

fun rsplit_once :: "char \<Rightarrow> string \<Rightarrow> (string \<times> string) option" where
  "rsplit_once c [] = None"
| "rsplit_once c (x # xs) =
     (case rsplit_once c xs of
        Some (a, b) \<Rightarrow> Some (x # a, b)
      | None \<Rightarrow> if x = c then Some ([], xs) else None)"

definition replace_char :: "char \<Rightarrow> string \<Rightarrow> string \<Rightarrow> string" where
  "replace_char c r s = concat (map (\<lambda>x. if x = c then r else [x]) s)"

text \<open>\<open>str::replace\<close> with a non-empty pattern: left to right, without overlaps.\<close>

function replace_sub :: "string \<Rightarrow> string \<Rightarrow> string \<Rightarrow> string" where
  "replace_sub p r s =
     (if p = [] \<or> s = [] then s
      else if starts_with p s then r @ replace_sub p r (drop (length p) s)
      else hd s # replace_sub p r (tl s))"
  by pat_completeness auto
termination
  by (relation "measure (\<lambda>(p, r, s). length s)") auto

declare replace_sub.simps [simp del]

fun join_with :: "string \<Rightarrow> string list \<Rightarrow> string" where
  "join_with sep [] = []"
| "join_with sep [x] = x"
| "join_with sep (x # xs) = x @ sep @ join_with sep xs"

lemma starts_with_append [simp]: "starts_with p (p @ s)"
  by (simp add: starts_with_def)

lemma starts_withE: "starts_with p s \<Longrightarrow> \<exists>t. s = p @ t"
  by (metis append_take_drop_id starts_with_def)

lemma strip_prefix_append [simp]: "strip_prefix p (p @ s) = Some s"
  by (simp add: strip_prefix_def)

lemma strip_prefix_SomeD: "strip_prefix p s = Some t \<Longrightarrow> s = p @ t"
  by (auto simp: strip_prefix_def split: if_splits dest: starts_withE)

lemma strip_suffix_SomeD: "strip_suffix p s = Some t \<Longrightarrow> s = t @ p"
  by (metis append_take_drop_id ends_with_def option.distinct(1) option.inject strip_suffix_def)

lemma find_sub_SomeD:
  "find_sub p s = Some i \<Longrightarrow> i \<le> length s \<and> starts_with p (drop i s)"
  by (induction s arbitrary: i) (auto simp: starts_with_def split: if_splits)

lemma contains_sub_iff: "contains_sub p s \<longleftrightarrow> (\<exists>a b. s = a @ p @ b)"
proof
  assume "contains_sub p s"
  then obtain i where "find_sub p s = Some i" by (auto simp: contains_sub_def)
  then have "starts_with p (drop i s)" by (simp add: find_sub_SomeD)
  then obtain t where "drop i s = p @ t" using starts_withE by blast
  then have "s = take i s @ p @ t" by (metis append_take_drop_id)
  then show "\<exists>a b. s = a @ p @ b" by blast
next
  assume "\<exists>a b. s = a @ p @ b"
  then obtain a b where "s = a @ p @ b" by blast
  moreover have "find_sub p (a @ p @ b) \<noteq> None"
  proof (induction a)
    case Nil
    have "starts_with p (p @ b)" by simp
    then show ?case by (cases "p @ b") simp_all
  qed auto
  ultimately show "contains_sub p s" by (simp add: contains_sub_def)
qed

lemma contains_single: "contains_sub [c] s \<longleftrightarrow> c \<in> set s"
  by (auto simp: contains_sub_iff in_set_conv_decomp)

lemma split_char_not_Nil [simp]: "split_char c s \<noteq> []"
  by (induction s) (auto split: list.splits)

lemma split_char_pieces: "p \<in> set (split_char c s) \<Longrightarrow> c \<notin> set p"
  by (induction s arbitrary: p) (auto split: list.splits if_splits)

lemma split_char_join: "join_with [c] (split_char c s) = s"
proof (induction s)
  case (Cons x xs)
  show ?case
  proof (cases "split_char c xs")
    case Nil
    then show ?thesis by simp
  next
    case (Cons p ps)
    with Cons.IH show ?thesis by (cases ps) auto
  qed
qed simp

lemma split_char_none: "c \<notin> set s \<Longrightarrow> split_char c s = [s]"
  by (induction s) auto

lemma rsplit_once_SomeD: "rsplit_once c s = Some (a, b) \<Longrightarrow> s = a @ c # b \<and> c \<notin> set b"
proof (induction s arbitrary: a b)
  case (Cons x xs)
  have none: "rsplit_once c ys = None \<Longrightarrow> c \<notin> set ys" for ys
    by (induction ys) (auto split: option.splits if_splits)
  from Cons show ?case
    by (auto split: option.splits if_splits dest: none)
qed simp

lemma replace_char_none: "c \<notin> set s \<Longrightarrow> replace_char c r s = s"
  by (induction s) (auto simp: replace_char_def)

lemma replace_char_append: "replace_char c r (s @ t) = replace_char c r s @ replace_char c r t"
  by (simp add: replace_char_def)

lemma set_replace_char: "c \<notin> set r \<Longrightarrow> c \<notin> set (replace_char c r s)"
  by (auto simp: replace_char_def)

section \<open>White space\<close>

text \<open>The UTF-8 encodings of the characters with the Unicode property White\_Space.\<close>

definition white_space :: "string list" where
  "white_space =
     map (\<lambda>c. [c]) [CHR 0x20, CHR 0x09, CHR 0x0A, CHR 0x0B, CHR 0x0C, CHR 0x0D]
     @ [[CHR 0xC2, CHR 0x85], [CHR 0xC2, CHR 0xA0], [CHR 0xE1, CHR 0x9A, CHR 0x80]]
     @ map (\<lambda>c. [CHR 0xE2, CHR 0x80, c])
         [CHR 0x80, CHR 0x81, CHR 0x82, CHR 0x83, CHR 0x84, CHR 0x85, CHR 0x86, CHR 0x87,
          CHR 0x88, CHR 0x89, CHR 0x8A, CHR 0xA8, CHR 0xA9, CHR 0xAF]
     @ [[CHR 0xE2, CHR 0x81, CHR 0x9F], [CHR 0xE3, CHR 0x80, CHR 0x80]]"

lemma white_space_nonempty: "w \<in> set white_space \<Longrightarrow> w \<noteq> []"
  by (auto simp: white_space_def)

function trim_start :: "string \<Rightarrow> string" where
  "trim_start s =
     (case find (\<lambda>w. starts_with w s) white_space of
        None \<Rightarrow> s
      | Some w \<Rightarrow> if s = [] then s else trim_start (drop (length w) s))"
  by pat_completeness auto
termination
  by (relation "measure length") (auto simp: find_Some_iff dest!: nth_mem white_space_nonempty)

function trim_end :: "string \<Rightarrow> string" where
  "trim_end s =
     (case find (\<lambda>w. ends_with w s) white_space of
        None \<Rightarrow> s
      | Some w \<Rightarrow> if s = [] then s else trim_end (take (length s - length w) s))"
  by pat_completeness auto
termination
  by (relation "measure length") (auto simp: find_Some_iff dest!: nth_mem white_space_nonempty)

declare trim_start.simps [simp del] trim_end.simps [simp del]

definition trim :: "string \<Rightarrow> string" where
  "trim s = trim_end (trim_start s)"

text \<open>Text with no byte of a white space encoding at its edges is left alone.\<close>

definition solid :: "char \<Rightarrow> bool" where
  "solid c \<longleftrightarrow> c \<notin> set (concat white_space)"

lemma starts_with_hd: "starts_with w s \<Longrightarrow> w \<noteq> [] \<Longrightarrow> s \<noteq> [] \<and> hd s = hd w"
  by (cases w; cases s) (auto simp: starts_with_def)

lemma ends_with_last: "ends_with w s \<Longrightarrow> w \<noteq> [] \<Longrightarrow> s \<noteq> [] \<and> last s = last w"
  by (metis append_take_drop_id ends_with_def last_appendR append_is_Nil_conv)

lemma trim_start_solid: "s = [] \<or> solid (hd s) \<Longrightarrow> trim_start s = s"
proof -
  assume s: "s = [] \<or> solid (hd s)"
  have "\<not> starts_with w s" if w: "w \<in> set white_space" for w
  proof
    assume "starts_with w s"
    then have "s \<noteq> []" "hd s = hd w"
      using starts_with_hd white_space_nonempty [OF w] by blast+
    moreover have "hd w \<in> set (concat white_space)"
      using w white_space_nonempty [OF w] by (auto intro: bexI [of _ w])
    ultimately show False using s by (simp add: solid_def)
  qed
  then have "find (\<lambda>w. starts_with w s) white_space = None"
    by (simp add: find_None_iff)
  then show ?thesis by (subst trim_start.simps) simp
qed

lemma trim_end_solid: "s = [] \<or> solid (last s) \<Longrightarrow> trim_end s = s"
proof -
  assume s: "s = [] \<or> solid (last s)"
  have "\<not> ends_with w s" if w: "w \<in> set white_space" for w
  proof
    assume "ends_with w s"
    then have "s \<noteq> []" "last s = last w"
      using ends_with_last white_space_nonempty [OF w] by blast+
    moreover have "last w \<in> set (concat white_space)"
      using w white_space_nonempty [OF w] by (auto intro: bexI [of _ w])
    ultimately show False using s by (simp add: solid_def)
  qed
  then have "find (\<lambda>w. ends_with w s) white_space = None"
    by (simp add: find_None_iff)
  then show ?thesis by (subst trim_end.simps) simp
qed

section \<open>Decimal integers\<close>

definition digit_char :: "nat \<Rightarrow> char" where
  "digit_char d = char_of (48 + d)"

definition is_ascii_alphabetic :: "char \<Rightarrow> bool" where
  "is_ascii_alphabetic c =
     (let n = (of_char c :: nat) in 65 \<le> n \<and> n \<le> 90 \<or> 97 \<le> n \<and> n \<le> 122)"

definition is_digit :: "char \<Rightarrow> bool" where
  "is_digit c \<longleftrightarrow> 48 \<le> (of_char c :: nat) \<and> (of_char c :: nat) \<le> 57"

definition digit_val :: "char \<Rightarrow> nat" where
  "digit_val c = of_char c - 48"

fun show_nat :: "nat \<Rightarrow> string" where
  "show_nat n = (if n < 10 then [digit_char n] else show_nat (n div 10) @ [digit_char (n mod 10)])"

declare show_nat.simps [simp del]

definition show_int :: "int \<Rightarrow> string" where
  "show_int i = (if i < 0 then ''-'' @ show_nat (nat (- i)) else show_nat (nat i))"

fun digits_value :: "nat \<Rightarrow> string \<Rightarrow> nat option" where
  "digits_value acc [] = Some acc"
| "digits_value acc (c # cs) =
     (if is_digit c then digits_value (acc * 10 + digit_val c) cs else None)"

text \<open>
  \<open>s.parse::<uN>()\<close>: an optional plus sign, at least one digit, digits only, and a value within
  the type (\<open>maxv\<close>); everything else is an error.
\<close>

definition parse_uint :: "nat \<Rightarrow> string \<Rightarrow> nat option" where
  "parse_uint maxv s =
     (let ds = (case s of c # cs \<Rightarrow> if c = CHR ''+'' then cs else s | [] \<Rightarrow> [])
      in if ds = [] then None
         else case digits_value 0 ds of
             None \<Rightarrow> None
           | Some v \<Rightarrow> if v \<le> maxv then Some v else None)"

lemma of_char_digit_char [simp]: "d < 10 \<Longrightarrow> (of_char (digit_char d) :: nat) = 48 + d"
  by (simp add: digit_char_def)

lemma is_digit_digit_char [simp]: "d < 10 \<Longrightarrow> is_digit (digit_char d)"
  by (simp add: is_digit_def)

lemma digit_val_digit_char [simp]: "d < 10 \<Longrightarrow> digit_val (digit_char d) = d"
  by (simp add: digit_val_def)

lemma digits_value_append:
  "digits_value acc (xs @ ys) = Option.bind (digits_value acc xs) (\<lambda>a. digits_value a ys)"
  by (induction xs arbitrary: acc) auto

lemma show_nat_digits: "\<forall>c \<in> set (show_nat n). is_digit c"
proof (induction n rule: show_nat.induct)
  case (1 n)
  then show ?case by (subst show_nat.simps) auto
qed

lemma show_nat_not_Nil [simp]: "show_nat n \<noteq> []"
  by (subst show_nat.simps) simp

lemma digits_value_show_nat: "digits_value 0 (show_nat n) = Some n"
proof (induction n rule: show_nat.induct)
  case (1 n)
  show ?case
  proof (cases "n < 10")
    case True
    then show ?thesis by (subst show_nat.simps) simp
  next
    case False
    with 1 have "digits_value 0 (show_nat (n div 10)) = Some (n div 10)" by simp
    with False show ?thesis
      by (subst show_nat.simps) (simp add: digits_value_append)
  qed
qed

lemma digit_not_plus: "is_digit c \<Longrightarrow> c \<noteq> CHR ''+''"
  by (auto simp: is_digit_def)

lemma parse_show_nat: "n \<le> maxv \<Longrightarrow> parse_uint maxv (show_nat n) = Some n"
proof -
  assume n: "n \<le> maxv"
  obtain c cs where s: "show_nat n = c # cs" by (cases "show_nat n") auto
  then have "is_digit c" using show_nat_digits [of n] by simp
  then have "c \<noteq> CHR ''+''" by (rule digit_not_plus)
  then show ?thesis
    using n s digits_value_show_nat [of n] by (simp add: parse_uint_def)
qed

lemma parse_uint_bound: "parse_uint maxv s = Some n \<Longrightarrow> n \<le> maxv"
  by (auto simp: parse_uint_def Let_def split: if_splits option.splits)

lemma solid_digit: "is_digit c \<Longrightarrow> solid c"
  by (auto simp: solid_def white_space_def is_digit_def)

lemma trim_show_nat: "trim (show_nat n) = show_nat n"
proof -
  have "solid (hd (show_nat n))" "solid (last (show_nat n))"
    using show_nat_digits [of n] by (simp_all add: solid_digit)
  then show ?thesis by (simp add: trim_def trim_start_solid trim_end_solid)
qed

section \<open>Lines of ASCII text\<close>

lemma trim_end_newline: "trim_end (s @ [CHR 0x0A]) = trim_end s"
  by (subst trim_end.simps) (simp add: white_space_def ends_with_def)

lemma trim_end_return: "trim_end (s @ [CHR 0x0D]) = trim_end s"
  by (subst trim_end.simps) (simp add: white_space_def ends_with_def)

lemma trim_start_space: "trim_start (CHR 0x20 # s) = trim_start s"
  by (subst trim_start.simps) (simp add: white_space_def starts_with_def)

lemma trim_space: "trim (CHR 0x20 # s) = trim s"
  by (simp add: trim_def trim_start_space)

lemma digit_ascii: "is_digit c \<Longrightarrow> \<not> digit7 c \<and> c \<noteq> CHR 0x0A"
proof
  assume d: "is_digit c"
  show "\<not> digit7 c"
  proof
    assume "digit7 c"
    then have "128 \<le> (of_char c :: nat)" by (cases c) (simp add: of_bool_def)
    with d show False by (simp add: is_digit_def)
  qed
  show "c \<noteq> CHR 0x0A" using d by (auto simp: is_digit_def)
qed

lemma from_utf8_as_bytes: "valid_str s \<Longrightarrow> from_utf8 (as_bytes s) = Some s"
  by (simp add: from_utf8_def valid_str_def)

lemma as_bytes_newline: "CHR 0x0A \<notin> set s \<Longrightarrow> 10 \<notin> set (as_bytes s)"
proof
  assume "CHR 0x0A \<notin> set s" "(10 :: u8) \<in> set (as_bytes s)"
  then obtain c where c: "c \<in> set s" "(of_char c :: u8) = 10" by (auto simp: as_bytes_def)
  then have "unat (of_char c :: u8) = 10" by simp
  then have "(of_char c :: nat) = of_char (CHR 0x0A)" by simp
  then have "c = CHR 0x0A" by (simp only: of_char_eq_iff)
  with c \<open>CHR 0x0A \<notin> set s\<close> show False by simp
qed

section \<open>ASCII case\<close>

definition ascii_lower :: "char \<Rightarrow> char" where
  "ascii_lower c = (if 65 \<le> (of_char c :: nat) \<and> (of_char c :: nat) \<le> 90 then char_of (of_char c + 32 :: nat) else c)"

definition to_ascii_lowercase :: "string \<Rightarrow> string" where
  "to_ascii_lowercase s = map ascii_lower s"

lemma to_ascii_lowercase_append: "to_ascii_lowercase (s @ t) = to_ascii_lowercase s @ to_ascii_lowercase t"
  by (simp add: to_ascii_lowercase_def)

end
