(* ===== verification/Java_Types.thy ===== *)
theory Java_Types
  imports Rust_Strings
begin

text \<open>
  \<open>crates/types/src/lib.rs\<close>: the structured Java types shared by the bytecode reader and the
  source analysis. Primitive types with their names, boxes and widening order; class identities;
  type references with substitution of type variables by identity; and the metadata records.
\<close>

section \<open>Primitive types\<close>

datatype primitive_type =
  PBoolean | PByte | PShort | PInt | PLong | PChar | PFloat | PDouble

definition from_name :: "string \<Rightarrow> primitive_type option" where
  "from_name name =
     (let n = trim name in
      if n = ''boolean'' then Some PBoolean
      else if n = ''byte'' then Some PByte
      else if n = ''short'' then Some PShort
      else if n = ''int'' then Some PInt
      else if n = ''long'' then Some PLong
      else if n = ''char'' then Some PChar
      else if n = ''float'' then Some PFloat
      else if n = ''double'' then Some PDouble
      else None)"

fun prim_name :: "primitive_type \<Rightarrow> string" where
  "prim_name PBoolean = ''boolean''"
| "prim_name PByte = ''byte''"
| "prim_name PShort = ''short''"
| "prim_name PInt = ''int''"
| "prim_name PLong = ''long''"
| "prim_name PChar = ''char''"
| "prim_name PFloat = ''float''"
| "prim_name PDouble = ''double''"

fun box_fqn :: "primitive_type \<Rightarrow> string" where
  "box_fqn PBoolean = ''java.lang.Boolean''"
| "box_fqn PByte = ''java.lang.Byte''"
| "box_fqn PShort = ''java.lang.Short''"
| "box_fqn PInt = ''java.lang.Integer''"
| "box_fqn PLong = ''java.lang.Long''"
| "box_fqn PChar = ''java.lang.Character''"
| "box_fqn PFloat = ''java.lang.Float''"
| "box_fqn PDouble = ''java.lang.Double''"

definition from_box_fqn :: "string \<Rightarrow> primitive_type option" where
  "from_box_fqn fqn =
     find (\<lambda>p. box_fqn p = fqn) [PBoolean, PByte, PShort, PInt, PLong, PChar, PFloat, PDouble]"

text \<open>JLS 5.1.2, identity excluded.\<close>

fun widens_to :: "primitive_type \<Rightarrow> primitive_type \<Rightarrow> bool" where
  "widens_to PByte t = (t \<in> {PShort, PInt, PLong, PFloat, PDouble})"
| "widens_to PShort t = (t \<in> {PInt, PLong, PFloat, PDouble})"
| "widens_to PChar t = (t \<in> {PInt, PLong, PFloat, PDouble})"
| "widens_to PInt t = (t \<in> {PLong, PFloat, PDouble})"
| "widens_to PLong t = (t \<in> {PFloat, PDouble})"
| "widens_to PFloat t = (t = PDouble)"
| "widens_to _ t = False"

section \<open>Class identities and type references\<close>

datatype type_id = NamedId string | LocalId nat nat

fun as_named :: "type_id \<Rightarrow> string option" where
  "as_named (NamedId s) = Some s"
| "as_named (LocalId d n) = None"

text \<open>A type variable is identified by its declaring owner and index, never by its letter.\<close>

datatype type_variable_id = TypeVariableId (owner: string) (tv_index: nat)

datatype type_ref =
    Primitive primitive_type
  | Void
  | Null
  | Named type_id "type_ref list"
  | Array type_ref
  | Variable type_variable_id
  | Wildcard "type_ref option" "type_ref option"
  | Unknown

definition named :: "string \<Rightarrow> type_ref" where
  "named fqn = Named (NamedId fqn) []"

definition named_with :: "string \<Rightarrow> type_ref list \<Rightarrow> type_ref" where
  "named_with fqn args = Named (NamedId fqn) args"

fun is_reference :: "type_ref \<Rightarrow> bool" where
  "is_reference (Named _ _) = True"
| "is_reference (Array _) = True"
| "is_reference (Variable _) = True"
| "is_reference Null = True"
| "is_reference _ = False"

fun contains_unknown :: "type_ref \<Rightarrow> bool" where
  "contains_unknown Unknown = True"
| "contains_unknown (Named _ args) = list_ex contains_unknown args"
| "contains_unknown (Array e) = contains_unknown e"
| "contains_unknown (Wildcard u l) =
     ((case u of None \<Rightarrow> False | Some x \<Rightarrow> contains_unknown x)
      \<or> (case l of None \<Rightarrow> False | Some x \<Rightarrow> contains_unknown x))"
| "contains_unknown _ = False"

type_synonym type_env = "(type_variable_id \<times> type_ref) list"

text \<open>The first binding of a variable wins; an unbound variable stays as it is.\<close>

fun substitute :: "type_env \<Rightarrow> type_ref \<Rightarrow> type_ref" where
  "substitute env (Variable v) =
     (case find (\<lambda>(k, _). k = v) env of Some (_, t) \<Rightarrow> t | None \<Rightarrow> Variable v)"
| "substitute env (Named i args) = Named i (map (substitute env) args)"
| "substitute env (Array e) = Array (substitute env e)"
| "substitute env (Wildcard u l) =
     Wildcard (case u of None \<Rightarrow> None | Some x \<Rightarrow> Some (substitute env x))
              (case l of None \<Rightarrow> None | Some x \<Rightarrow> Some (substitute env x))"
| "substitute env t = t"

section \<open>Metadata\<close>

datatype access = Public | Protected | Package | Private

datatype class_kind = Class | Interface | Enum | Record | Annotation

datatype type_parameter = TypeParameter (tp_id: type_variable_id) (bounds: "type_ref list")

record class_metadata =
  cm_id :: type_id
  cm_kind :: class_kind
  cm_access :: access
  cm_is_abstract :: bool
  cm_is_static :: bool
  enclosing_class :: "type_id option"
  cm_type_parameters :: "type_parameter list"
  supertypes :: "type_ref list"
  hierarchy_complete :: bool
  constructors_complete :: bool

record member_metadata =
  declaring_class :: type_id
  mm_access :: access
  mm_is_static :: bool
  mm_is_abstract :: bool
  parameters :: "type_ref list option"
  result :: type_ref
  mm_type_parameters :: "type_parameter list"
  is_varargs :: bool

section \<open>Correctness of the primitive types\<close>

lemma from_box_box: "from_box_fqn (box_fqn p) = Some p"
  by (cases p) (simp_all add: from_box_fqn_def)

lemma prim_name_solid: "prim_name p \<noteq> [] \<and> solid (hd (prim_name p)) \<and> solid (last (prim_name p))"
  by (cases p) (simp_all add: solid_def white_space_def)

lemma trim_prim_name: "trim (prim_name p) = prim_name p"
  using prim_name_solid [of p] by (simp add: trim_def trim_start_solid trim_end_solid)

lemma from_name_name: "from_name (prim_name p) = Some p"
  unfolding from_name_def trim_prim_name by (cases p) (simp_all add: Let_def)

lemma from_name_SomeD: "from_name s = Some p \<Longrightarrow> trim s = prim_name p"
  by (auto simp: from_name_def Let_def split: if_splits)

lemma from_box_SomeD: "from_box_fqn s = Some p \<Longrightarrow> s = box_fqn p"
  by (auto simp: from_box_fqn_def find_Some_iff simp del: find.simps)

lemma widens_to_irrefl: "\<not> widens_to p p"
  by (cases p) simp_all

lemma widens_to_trans: "widens_to p q \<Longrightarrow> widens_to q r \<Longrightarrow> widens_to p r"
  by (cases p; cases q) auto

text \<open>
  Widening (with identity) is a partial order on the primitive types, so the library's order
  reasoning applies to assignment conversions.
\<close>

instantiation primitive_type :: order
begin

definition less_eq_primitive_type :: "primitive_type \<Rightarrow> primitive_type \<Rightarrow> bool" where
  "less_eq_primitive_type p q \<longleftrightarrow> p = q \<or> widens_to p q"

definition less_primitive_type :: "primitive_type \<Rightarrow> primitive_type \<Rightarrow> bool" where
  "less_primitive_type p q \<longleftrightarrow> widens_to p q"

instance
  by standard
    (auto simp: less_eq_primitive_type_def less_primitive_type_def widens_to_irrefl
      dest: widens_to_trans)

end

section \<open>Correctness of substitution\<close>

fun type_vars :: "type_ref \<Rightarrow> type_variable_id set" where
  "type_vars (Variable v) = {v}"
| "type_vars (Named _ args) = (\<Union>a \<in> set args. type_vars a)"
| "type_vars (Array e) = type_vars e"
| "type_vars (Wildcard u l) =
     (case u of None \<Rightarrow> {} | Some x \<Rightarrow> type_vars x) \<union> (case l of None \<Rightarrow> {} | Some x \<Rightarrow> type_vars x)"
| "type_vars _ = {}"

lemma find_key_map_of: "find (\<lambda>(k, _). k = v) env = map_option (Pair v) (map_of env v)"
  by (induction env) auto

lemma substitute_Variable:
  "substitute env (Variable v) = (case map_of env v of None \<Rightarrow> Variable v | Some t \<Rightarrow> t)"
  by (auto simp: find_key_map_of split: option.splits)

declare substitute.simps(1) [simp del]
declare substitute_Variable [simp]

lemma substitute_cong:
  assumes "\<And>v. v \<in> type_vars t \<Longrightarrow> map_of env v = map_of env' v"
  shows "substitute env t = substitute env' t"
  using assms by (induction t rule: type_vars.induct) (auto split: option.splits)

lemma substitute_closed: "(\<And>v. v \<in> type_vars t \<Longrightarrow> map_of env v = None) \<Longrightarrow> substitute env t = t"
  by (induction t rule: type_vars.induct) (auto split: option.splits intro!: map_idI)

text \<open>Composition: doing one substitution after another is one substitution.\<close>

definition compose_env :: "type_env \<Rightarrow> type_env \<Rightarrow> type_env" where
  "compose_env e1 e2 = map (\<lambda>(v, t). (v, substitute e2 t)) e1 @ e2"

lemma map_of_map_snd: "map_of (map (\<lambda>(v, t). (v, f t)) e) v = map_option f (map_of e v)"
  by (induction e) auto

lemma map_of_compose:
  "map_of (compose_env e1 e2) v =
     (case map_of e1 v of Some t \<Rightarrow> Some (substitute e2 t) | None \<Rightarrow> map_of e2 v)"
  by (auto simp: compose_env_def map_add_def map_of_map_snd split: option.splits)

lemma substitute_compose: "substitute e2 (substitute e1 t) = substitute (compose_env e1 e2) t"
  by (induction t rule: type_vars.induct) (auto simp: map_of_compose split: option.splits)

lemma substitute_vars:
  "type_vars (substitute env t) =
     (\<Union>v \<in> type_vars t. case map_of env v of None \<Rightarrow> {v} | Some u \<Rightarrow> type_vars u)"
  by (induction t rule: type_vars.induct) (auto split: option.splits)

lemma substitute_unknown:
  "contains_unknown (substitute env t) \<longleftrightarrow>
     contains_unknown t \<or> (\<exists>v \<in> type_vars t. \<exists>u. map_of env v = Some u \<and> contains_unknown u)"
  by (induction t rule: type_vars.induct) (auto simp: list_ex_iff split: option.splits)

section \<open>Properties\<close>

text \<open>
  The keyword and the box name of a primitive type identify it: looking either up gives the
  type back, nothing else is accepted (up to surrounding white space for the keyword), and
  widening is a strict partial order on the types.
\<close>

theorem primitive_names_and_widening:
  "from_name (prim_name p) = Some p \<and> from_box_fqn (box_fqn p) = Some p
   \<and> (from_name s = Some q \<longrightarrow> trim s = prim_name q) \<and> (from_box_fqn s = Some q \<longrightarrow> s = box_fqn q)
   \<and> \<not> widens_to p p \<and> (widens_to p q \<and> widens_to q r \<longrightarrow> widens_to p r)"
  using from_name_name from_box_box from_name_SomeD from_box_SomeD widens_to_irrefl widens_to_trans
  by blast

theorem primitive_names_and_widening_witness:
  "widens_to PByte PInt \<and> widens_to PInt PDouble \<and> widens_to PByte PDouble
   \<and> from_box_fqn ''java.lang.Integer'' = Some PInt"
proof -
  have a: "widens_to PByte PInt" "widens_to PInt PDouble" by simp_all
  then have "widens_to PByte PDouble"
    using primitive_names_and_widening [where p = PByte and q = PInt and r = PDouble] by blast
  moreover have "from_box_fqn (box_fqn PInt) = Some PInt"
    using primitive_names_and_widening by blast
  ultimately show ?thesis using a by simp
qed

text \<open>
  Substitution of type variables by identity: two substitutions in a row are the composed
  one; a type that mentions no bound variable is unchanged; and \<open>Unknown\<close> appears in the result
  only if it was in the type or in what one of its variables is bound to.
\<close>

theorem substitution_laws:
  "substitute e2 (substitute e1 t) = substitute (compose_env e1 e2) t
   \<and> (type_vars t \<inter> dom (map_of e1) = {} \<longrightarrow> substitute e1 t = t)
   \<and> (contains_unknown (substitute e1 t) \<longleftrightarrow>
        contains_unknown t \<or> (\<exists>v \<in> type_vars t. \<exists>u. map_of e1 v = Some u \<and> contains_unknown u))"
proof (intro conjI impI)
  assume "type_vars t \<inter> dom (map_of e1) = {}"
  then show "substitute e1 t = t" by (intro substitute_closed) auto
qed (rule substitute_compose, rule substitute_unknown)

theorem substitution_laws_witness:
  "substitute [(TypeVariableId ''B'' 1, Null)] (Array (Variable (TypeVariableId ''B'' 0)))
     = Array (Variable (TypeVariableId ''B'' 0))"
  using substitution_laws [where t = "Array (Variable (TypeVariableId ''B'' 0))"
      and ?e1.0 = "[(TypeVariableId ''B'' 1, Null)]" and ?e2.0 = "[]"]
  by simp

end
