(* ===== verification/Jvm_Signature.thy ===== *)
theory Jvm_Signature
  imports Java_Types
begin

text \<open>
  \<open>crates/types/src/jvm_signature.rs\<close>: the bounded parser for JVM generic signatures, which come
  from untrusted class files. The parser state \<open>(s, pos)\<close> is the remaining input \<open>s[pos..]\<close>; an
  operation returns its \<open>Option\<close> result and the input it leaves, also when it fails, because two
  callers go on after a failure. \<open>params\<close>, \<open>shadow\<close> and \<open>scope\<close> are the context record. The
  depth counter is counted down: \<open>type_render ctx n\<close> is the call at \<open>depth = MAX_SIG_DEPTH - n\<close>.

  A \<open>while\<close> loop over the input is a recursion on fuel started at one more than the length of the
  input; the lemmas \<open>until_loop_fuel\<close>, \<open>segments_fuel\<close> and \<open>bounds_fuel\<close> show that more fuel never
  changes a result, so running out of fuel does not happen.
\<close>

section \<open>The parser state\<close>

definition MAX_SIG_DEPTH :: nat where
  "MAX_SIG_DEPTH = 32"

record sig_ctx =
  params :: "string list"
  shadow :: "string list"
  scope :: "(string \<times> type_parameter) list list"

type_synonym 'a sigp = "string \<Rightarrow> 'a option \<times> string"

fun peek :: "string \<Rightarrow> char option" where
  "peek [] = None"
| "peek (c # s) = Some c"

fun bump :: "char sigp" where
  "bump [] = (None, [])"
| "bump (c # s) = (Some c, s)"

text \<open>\<open>expect\<close> consumes the byte also when it is the wrong one.\<close>

fun expect :: "char \<Rightarrow> unit sigp" where
  "expect b [] = (None, [])"
| "expect b (c # s) = (if c = b then Some () else None, s)"

definition read_until :: "string \<Rightarrow> string \<Rightarrow> string \<times> string" where
  "read_until stops s =
     (from_utf8_lossy (as_bytes (takeWhile (\<lambda>c. c \<notin> set stops) s)),
      dropWhile (\<lambda>c. c \<notin> set stops) s)"

text \<open>The \<open>?\<close> operator of the parser.\<close>

definition bind_sig :: "'a sigp \<Rightarrow> ('a \<Rightarrow> 'b sigp) \<Rightarrow> 'b sigp" where
  "bind_sig p k s = (case p s of (None, s') \<Rightarrow> (None, s') | (Some a, s') \<Rightarrow> k a s')"

text \<open>\<open>while self.peek()? != stop { out.push(elem()?) }\<close>\<close>

fun until_loop :: "char \<Rightarrow> 'a sigp \<Rightarrow> nat \<Rightarrow> 'a list \<Rightarrow> 'a list sigp" where
  "until_loop stop elem 0 acc s = (None, s)"
| "until_loop stop elem (Suc fuel) acc s =
     (case peek s of
        None \<Rightarrow> (None, s)
      | Some c \<Rightarrow>
          if c = stop then (Some acc, s)
          else case elem s of
              (None, s') \<Rightarrow> (None, s')
            | (Some a, s') \<Rightarrow> until_loop stop elem fuel (acc @ [a]) s')"

definition until :: "char \<Rightarrow> 'a sigp \<Rightarrow> 'a list sigp" where
  "until stop elem s = until_loop stop elem (Suc (length s)) [] s"

definition simple :: "string \<Rightarrow> string" where
  "simple binary = replace_char (CHR ''$'') ''.'' (last (split_char (CHR ''/'') binary))"

definition read_class_name :: "string \<Rightarrow> string \<times> string" where
  "read_class_name s = read_until ''<;.'' s"

section \<open>The display parser\<close>

fun position :: "string \<Rightarrow> string list \<Rightarrow> nat option" where
  "position x [] = None"
| "position x (y # ys) = (if y = x then Some 0 else map_option Suc (position x ys))"

definition var :: "sig_ctx \<Rightarrow> string \<Rightarrow> string" where
  "var ctx name =
     (if name \<in> set (shadow ctx) then name
      else case position name (params ctx) of
          Some i \<Rightarrow> ''{'' @ show_nat i @ ''}''
        | None \<Rightarrow> name)"

text \<open>\<open>rec\<close> is \<open>type_render\<close> one level deeper.\<close>

definition type_arg :: "string sigp \<Rightarrow> string sigp" where
  "type_arg rec s =
     (case peek s of
        None \<Rightarrow> (None, s)
      | Some c \<Rightarrow>
          if c = CHR ''*'' then (Some ''?'', snd (bump s))
          else if c = CHR ''+'' then
            bind_sig rec (\<lambda>t s'. (Some (''? extends '' @ t), s')) (snd (bump s))
          else if c = CHR ''-'' then
            bind_sig rec (\<lambda>t s'. (Some (''? super '' @ t), s')) (snd (bump s))
          else rec s)"

definition type_arg_list :: "string sigp \<Rightarrow> string list sigp" where
  "type_arg_list rec =
     bind_sig (expect (CHR ''<'')) (\<lambda>_.
     bind_sig (until (CHR ''>'') (type_arg rec)) (\<lambda>args.
     bind_sig (expect (CHR ''>'')) (\<lambda>_ s. (Some args, s))))"

definition maybe_type_arg_list :: "string sigp \<Rightarrow> string list sigp" where
  "maybe_type_arg_list rec s = (if peek s = Some (CHR ''<'') then type_arg_list rec s else (Some [], s))"

text \<open>
  The loop over nested \<open>.Inner<..>\<close> segments, for both parsers: \<open>seg\<close> combines what was read so
  far with the next segment's name, \<open>targs\<close> reads its type arguments.
\<close>

fun segments :: "(string \<Rightarrow> string \<Rightarrow> string) \<Rightarrow> 'a list sigp \<Rightarrow> nat \<Rightarrow> string \<Rightarrow> 'a list
    \<Rightarrow> (string \<times> 'a list) sigp" where
  "segments seg targs 0 name args s = (None, s)"
| "segments seg targs (Suc fuel) name args s =
     (if peek s = Some (CHR ''.'') then
        (case read_class_name (snd (bump s)) of (inner, s1) \<Rightarrow>
         case targs s1 of
           (None, s2) \<Rightarrow> (None, s2)
         | (Some args', s2) \<Rightarrow> segments seg targs fuel (seg name inner) args' s2)
      else (Some (name, args), s))"

definition class_type_parts :: "string sigp \<Rightarrow> (string \<times> string list) sigp" where
  "class_type_parts rec s =
     (case read_class_name s of (name, s1) \<Rightarrow>
      bind_sig (maybe_type_arg_list rec) (\<lambda>args s2.
        bind_sig (segments (\<lambda>_ inner. simple inner) (maybe_type_arg_list rec) (Suc (length s2))
            (simple name) args) (\<lambda>r.
        bind_sig (expect (CHR '';'')) (\<lambda>_ s. (Some r, s))) s2) s1)"

definition class_type :: "string sigp \<Rightarrow> string sigp" where
  "class_type rec =
     bind_sig (class_type_parts rec) (\<lambda>(name, args) s.
       (Some (if args = [] then name else name @ ''<'' @ join_with '', '' args @ ''>''), s))"

definition type_render_inner :: "sig_ctx \<Rightarrow> string sigp \<Rightarrow> string sigp" where
  "type_render_inner ctx rec =
     bind_sig bump (\<lambda>c.
       if c = CHR ''B'' then (\<lambda>s. (Some ''byte'', s))
       else if c = CHR ''C'' then (\<lambda>s. (Some ''char'', s))
       else if c = CHR ''D'' then (\<lambda>s. (Some ''double'', s))
       else if c = CHR ''F'' then (\<lambda>s. (Some ''float'', s))
       else if c = CHR ''I'' then (\<lambda>s. (Some ''int'', s))
       else if c = CHR ''J'' then (\<lambda>s. (Some ''long'', s))
       else if c = CHR ''S'' then (\<lambda>s. (Some ''short'', s))
       else if c = CHR ''Z'' then (\<lambda>s. (Some ''boolean'', s))
       else if c = CHR ''['' then bind_sig rec (\<lambda>inner s. (Some (inner @ ''[]''), s))
       else if c = CHR ''T'' then
         (\<lambda>s. case read_until '';'' s of (name, s1) \<Rightarrow>
            bind_sig (expect (CHR '';'')) (\<lambda>_ s. (Some (var ctx name), s)) s1)
       else if c = CHR ''L'' then class_type rec
       else (\<lambda>s. (None, s)))"

primrec type_render :: "sig_ctx \<Rightarrow> nat \<Rightarrow> string sigp" where
  "type_render ctx 0 = (\<lambda>s. (None, s))"
| "type_render ctx (Suc n) = type_render_inner ctx (type_render ctx n)"

section \<open>Formal type parameters, display form\<close>

text \<open>\<open>while self.peek() == Some(b':')\<close>: skip (or parse with \<open>elem\<close>) the bounds.\<close>

fun bound_loop :: "('a option \<times> string \<Rightarrow> 'b list) \<Rightarrow> 'a sigp \<Rightarrow> nat \<Rightarrow> 'b list \<Rightarrow> string
    \<Rightarrow> 'b list \<times> string" where
  "bound_loop keep elem 0 acc s = (acc, s)"
| "bound_loop keep elem (Suc fuel) acc s =
     (if peek s = Some (CHR '':'') then
        (let s1 = snd (bump s) in
         if peek s1 \<in> {Some (CHR '':''), Some (CHR ''>''), None}
         then bound_loop keep elem fuel acc s1
         else bound_loop keep elem fuel (acc @ keep (elem s1)) (snd (elem s1)))
      else (acc, s))"

text \<open>The loop over parameters stops at \<open>>\<close>, at the end, or after 64 of them (\<open>guard\<close>).\<close>

fun type_params_loop :: "string sigp \<Rightarrow> nat \<Rightarrow> string list \<Rightarrow> string \<Rightarrow> string list \<times> string" where
  "type_params_loop rec 0 out s = (if peek s = None then (out, s) else (out, snd (bump s)))"
| "type_params_loop rec (Suc guard) out s =
     (case peek s of
        None \<Rightarrow> (out, s)
      | Some c \<Rightarrow>
          if c = CHR ''>'' then (out, snd (bump s))
          else case read_until '':'' s of (name, s1) \<Rightarrow>
            type_params_loop rec guard (out @ [name])
              (snd (bound_loop (\<lambda>_. []) rec (Suc (length s1)) ([] :: unit list) s1)))"

definition type_params :: "sig_ctx \<Rightarrow> string \<Rightarrow> string list \<times> string" where
  "type_params ctx s =
     (if peek s \<noteq> Some (CHR ''<'') then ([], s)
      else type_params_loop (type_render ctx MAX_SIG_DEPTH) 64 [] (snd (bump s)))"

definition skip_type_params :: "sig_ctx \<Rightarrow> string \<Rightarrow> string" where
  "skip_type_params ctx s =
     (if peek s = Some (CHR ''<'') then snd (type_params ctx s) else s)"

section \<open>The structured parser\<close>

fun lookup_scopes :: "string \<Rightarrow> (string \<times> type_parameter) list list \<Rightarrow> type_ref" where
  "lookup_scopes name [] = Unknown"
| "lookup_scopes name (ps # outer) =
     (case find (\<lambda>(n, _). n = name) ps of
        Some (_, tp) \<Rightarrow> Variable (tp_id tp)
      | None \<Rightarrow> lookup_scopes name outer)"

text \<open>The innermost scope is the last of the list.\<close>

definition lookup_var :: "sig_ctx \<Rightarrow> string \<Rightarrow> type_ref" where
  "lookup_var ctx name = lookup_scopes name (rev (scope ctx))"

definition type_arg_structured :: "type_ref sigp \<Rightarrow> type_ref sigp" where
  "type_arg_structured rec s =
     (case peek s of
        None \<Rightarrow> (None, s)
      | Some c \<Rightarrow>
          if c = CHR ''*'' then (Some (Wildcard None None), snd (bump s))
          else if c = CHR ''+'' then
            bind_sig rec (\<lambda>t s'. (Some (Wildcard (Some t) None), s')) (snd (bump s))
          else if c = CHR ''-'' then
            bind_sig rec (\<lambda>t s'. (Some (Wildcard None (Some t)), s')) (snd (bump s))
          else rec s)"

definition type_args_structured :: "type_ref sigp \<Rightarrow> type_ref list sigp" where
  "type_args_structured rec s =
     (if peek s \<noteq> Some (CHR ''<'') then (Some [], s)
      else bind_sig (expect (CHR ''<'')) (\<lambda>_.
           bind_sig (until (CHR ''>'') (type_arg_structured rec)) (\<lambda>args.
           bind_sig (expect (CHR ''>'')) (\<lambda>_ s. (Some args, s)))) s)"

definition class_parse :: "type_ref sigp \<Rightarrow> type_ref sigp" where
  "class_parse rec s =
     (case read_until ''<;.'' s of (name, s1) \<Rightarrow>
      bind_sig (type_args_structured rec) (\<lambda>args s2.
        bind_sig (segments (\<lambda>binary inner. binary @ ''$'' @ inner) (type_args_structured rec)
            (Suc (length s2)) (replace_char (CHR ''/'') ''.'' name) args) (\<lambda>(binary, args).
        bind_sig (expect (CHR '';'')) (\<lambda>_ s. (Some (Named (NamedId binary) args), s))) s2) s1)"

definition type_parse_inner :: "sig_ctx \<Rightarrow> type_ref sigp \<Rightarrow> type_ref sigp" where
  "type_parse_inner ctx rec =
     bind_sig bump (\<lambda>c.
       if c = CHR ''B'' then (\<lambda>s. (Some (Primitive PByte), s))
       else if c = CHR ''C'' then (\<lambda>s. (Some (Primitive PChar), s))
       else if c = CHR ''D'' then (\<lambda>s. (Some (Primitive PDouble), s))
       else if c = CHR ''F'' then (\<lambda>s. (Some (Primitive PFloat), s))
       else if c = CHR ''I'' then (\<lambda>s. (Some (Primitive PInt), s))
       else if c = CHR ''J'' then (\<lambda>s. (Some (Primitive PLong), s))
       else if c = CHR ''S'' then (\<lambda>s. (Some (Primitive PShort), s))
       else if c = CHR ''Z'' then (\<lambda>s. (Some (Primitive PBoolean), s))
       else if c = CHR ''['' then bind_sig rec (\<lambda>t s. (Some (Array t), s))
       else if c = CHR ''T'' then
         (\<lambda>s. case read_until '';'' s of (name, s1) \<Rightarrow>
            bind_sig (expect (CHR '';'')) (\<lambda>_ s. (Some (lookup_var ctx name), s)) s1)
       else if c = CHR ''L'' then class_parse rec
       else (\<lambda>s. (None, s)))"

primrec type_parse :: "sig_ctx \<Rightarrow> nat \<Rightarrow> type_ref sigp" where
  "type_parse ctx 0 = (\<lambda>s. (None, s))"
| "type_parse ctx (Suc n) = type_parse_inner ctx (type_parse ctx n)"

text \<open>
  While the bounds of a parameter are parsed, the parameters before it are a provisional
  innermost scope; a bound that does not parse is \<open>Unknown\<close>.
\<close>

fun structured_loop :: "sig_ctx \<Rightarrow> string \<Rightarrow> nat \<Rightarrow> (string \<times> type_parameter) list \<Rightarrow> string
    \<Rightarrow> (string \<times> type_parameter) list \<times> string" where
  "structured_loop ctx own 0 out s = (if peek s = None then (out, s) else (out, snd (bump s)))"
| "structured_loop ctx own (Suc guard) out s =
     (case peek s of
        None \<Rightarrow> (out, s)
      | Some c \<Rightarrow>
          if c = CHR ''>'' then (out, snd (bump s))
          else case read_until '':'' s of (name, s1) \<Rightarrow>
            (case bound_loop
                    (\<lambda>r. [case fst r of Some t \<Rightarrow> t | None \<Rightarrow> Unknown])
                    (type_parse (ctx\<lparr>scope := scope ctx @ [out]\<rparr>) MAX_SIG_DEPTH)
                    (Suc (length s1)) [] s1 of
               (bnds, s2) \<Rightarrow>
                 structured_loop ctx own guard
                   (out @ [(name, TypeParameter (TypeVariableId own (length out)) bnds)]) s2))"

definition type_params_structured ::
    "sig_ctx \<Rightarrow> string \<Rightarrow> string \<Rightarrow> (string \<times> type_parameter) list \<times> string" where
  "type_params_structured ctx own s =
     (if peek s \<noteq> Some (CHR ''<'') then ([], s)
      else structured_loop ctx own 64 [] (snd (bump s)))"

section \<open>The entry points\<close>

definition sig_new :: "string list \<Rightarrow> sig_ctx" where
  "sig_new ps = \<lparr>params = ps, shadow = [], scope = []\<rparr>"

definition class_type_params :: "string \<Rightarrow> string list" where
  "class_type_params sig = fst (type_params (sig_new []) sig)"

definition method_template ::
    "string \<Rightarrow> string list \<Rightarrow> (string list \<times> string \<times> string list) option" where
  "method_template sig class_params =
     (case type_params (sig_new class_params) sig of (mparams, s1) \<Rightarrow>
      let render = type_render ((sig_new class_params)\<lparr>shadow := mparams\<rparr>) MAX_SIG_DEPTH in
      fst (bind_sig (expect (CHR ''('')) (\<lambda>_.
           bind_sig (until (CHR '')'') render) (\<lambda>ps.
           bind_sig (expect (CHR '')'')) (\<lambda>_ s.
             case peek s of
               None \<Rightarrow> (None, s)
             | Some c \<Rightarrow>
                 if c = CHR ''V'' then (Some (mparams, ''void'', ps), snd (bump s))
                 else bind_sig render (\<lambda>r s. (Some (mparams, r, ps), s)) s))) s1))"

definition field_template :: "string \<Rightarrow> string list \<Rightarrow> string option" where
  "field_template sig class_params = fst (type_render (sig_new class_params) MAX_SIG_DEPTH sig)"

text \<open>The clean prefix of a malformed tail, at most 64 supertypes.\<close>

fun super_loop :: "string sigp \<Rightarrow> nat \<Rightarrow> string list list \<Rightarrow> string \<Rightarrow> string list list" where
  "super_loop rec 0 out s = out"
| "super_loop rec (Suc guard) out s =
     (if peek s = Some (CHR ''L'') then
        (case class_type_parts rec (snd (bump s)) of
           (Some (_, args), s') \<Rightarrow> super_loop rec guard (out @ [args]) s'
         | (None, _) \<Rightarrow> out)
      else out)"

text \<open>
  Called at \<open>depth = 0\<close>, \<open>class_type_parts\<close> reads its arguments at \<open>depth = 1\<close>.
\<close>

definition super_type_args :: "string \<Rightarrow> string list \<Rightarrow> string list list" where
  "super_type_args sig class_params =
     super_loop (type_render (sig_new class_params) MAX_SIG_DEPTH) 64 []
       (skip_type_params (sig_new class_params) sig)"

definition parse_type_params :: "string \<Rightarrow> string \<Rightarrow> type_parameter list" where
  "parse_type_params sig own = map snd (fst (type_params_structured (sig_new []) own sig))"

text \<open>\<open>guard > 64\<close> is a failure here.\<close>

fun supers_loop :: "type_ref sigp \<Rightarrow> nat \<Rightarrow> type_ref list \<Rightarrow> string \<Rightarrow> type_ref list option" where
  "supers_loop rec 0 supers s = (if peek s = Some (CHR ''L'') then None else Some supers)"
| "supers_loop rec (Suc guard) supers s =
     (if peek s = Some (CHR ''L'') then
        (case rec s of
           (None, _) \<Rightarrow> None
         | (Some t, s') \<Rightarrow> supers_loop rec guard (supers @ [t]) s')
      else Some supers)"

definition parse_class_signature ::
    "string \<Rightarrow> string \<Rightarrow> (type_parameter list \<times> type_ref list) option" where
  "parse_class_signature sig own =
     (case type_params_structured (sig_new []) own sig of (ps, s1) \<Rightarrow>
      map_option (Pair (map snd ps))
        (supers_loop (type_parse ((sig_new [])\<lparr>scope := [ps]\<rparr>) MAX_SIG_DEPTH) 64 [] s1))"

definition parse_method_signature :: "string \<Rightarrow> (string \<times> type_parameter) list \<Rightarrow> string
    \<Rightarrow> (type_parameter list \<times> type_ref \<times> type_ref list) option" where
  "parse_method_signature sig class_params own =
     (case type_params_structured (sig_new []) own sig of (mparams, s1) \<Rightarrow>
      let parse = type_parse ((sig_new [])\<lparr>scope := [class_params, mparams]\<rparr>) MAX_SIG_DEPTH in
      fst (bind_sig (expect (CHR ''('')) (\<lambda>_.
           bind_sig (until (CHR '')'') parse) (\<lambda>ps.
           bind_sig (expect (CHR '')'')) (\<lambda>_ s.
             case peek s of
               None \<Rightarrow> (None, s)
             | Some c \<Rightarrow>
                 if c = CHR ''V'' then (Some (map snd mparams, Void, ps), snd (bump s))
                 else bind_sig parse (\<lambda>r s. (Some (map snd mparams, r, ps), s)) s))) s1))"

definition parse_field_signature :: "string \<Rightarrow> (string \<times> type_parameter) list \<Rightarrow> type_ref option" where
  "parse_field_signature sig class_params =
     fst (type_parse ((sig_new [])\<lparr>scope := [class_params]\<rparr>) MAX_SIG_DEPTH sig)"

section \<open>Every loop makes progress\<close>

text \<open>
  What a loop needs of its element parser: success consumes input, failure never gives any back.
\<close>

locale element_parser =
  fixes elem :: "'a sigp"
  assumes shrinks: "elem s = (Some a, s') \<Longrightarrow> length s' < length s"
    and never_grows: "elem s = (r, s') \<Longrightarrow> length s' \<le> length s"
begin

lemma until_loop_fuel:
  "length s < f \<Longrightarrow> length s < g \<Longrightarrow> until_loop stop elem f acc s = until_loop stop elem g acc s"
proof (induction f arbitrary: g acc s)
  case (Suc f)
  from Suc.prems(2) obtain g' where g: "g = Suc g'" by (cases g) auto
  show ?case
    using Suc.prems
    by (auto simp: g split: option.splits prod.splits intro!: Suc.IH dest: shrinks)
qed simp

lemma until_loop_le: "until_loop stop elem f acc s = (r, s') \<Longrightarrow> length s' \<le> length s"
proof (induction f arbitrary: acc s)
  case (Suc f)
  then show ?case
    by (auto split: option.splits prod.splits if_splits dest: never_grows dest: le_trans)
qed simp

lemma until_le: "until stop elem s = (r, s') \<Longrightarrow> length s' \<le> length s"
  unfolding until_def by (rule until_loop_le)

lemma bound_loop_fuel:
  "length s < f \<Longrightarrow> length s < g \<Longrightarrow> bound_loop keep elem f acc s = bound_loop keep elem g acc s"
proof (induction f arbitrary: g acc s)
  case (Suc f)
  from Suc.prems(2) obtain g' where g: "g = Suc g'" by (cases g) auto
  show ?case
  proof (cases s)
    case (Cons c cs)
    have "length (snd (elem cs)) \<le> length cs"
      by (rule never_grows [where r = "fst (elem cs)"]) simp
    then have "length (snd (elem cs)) < f" "length (snd (elem cs)) < g'"
      using Suc.prems Cons by (auto simp: g)
    with Suc.prems Cons show ?thesis
      by (auto simp: g Let_def intro!: Suc.IH)
  qed (simp add: g)
qed simp

end

lemma read_until_le: "read_until st s = (n, s') \<Longrightarrow> length s' \<le> length s"
  by (auto simp: read_until_def length_dropWhile_le)

lemma bump_le: "bump s = (r, s') \<Longrightarrow> length s' \<le> length s"
  by (cases s) auto

lemma expect_le: "expect b s = (r, s') \<Longrightarrow> length s' \<le> length s"
  by (cases s) auto

lemma bind_sig_le:
  assumes "bind_sig p k s = (r, s')"
    and "\<And>r t. p s = (r, t) \<Longrightarrow> length t \<le> length s"
    and "\<And>a t u r. p s = (Some a, t) \<Longrightarrow> k a t = (r, u) \<Longrightarrow> length u \<le> length t"
  shows "length s' \<le> length s"
  using assms by (fastforce simp: bind_sig_def split: prod.splits option.splits)

text \<open>Argument lists and nested segments, for whatever reads one type argument.\<close>

locale arg_parser =
  fixes targs :: "'a list sigp"
  assumes targs_le: "targs s = (r, s') \<Longrightarrow> length s' \<le> length s"
begin

lemma segments_fuel:
  "length s < f \<Longrightarrow> length s < g \<Longrightarrow>
     segments seg targs f name args s = segments seg targs g name args s"
proof (induction f arbitrary: g name args s)
  case (Suc f)
  from Suc.prems(2) obtain g' where g: "g = Suc g'" by (cases g) auto
  show ?case
  proof (cases "peek s = Some (CHR ''.'')")
    case True
    then obtain cs where s: "s = CHR ''.'' # cs" by (cases s) auto
    obtain inner s1 where rd: "read_class_name cs = (inner, s1)" by fastforce
    obtain r s2 where ta: "targs s1 = (r, s2)" by fastforce
    have "length s2 \<le> length s1" "length s1 \<le> length cs"
      using ta rd by (auto simp: read_class_name_def dest: targs_le read_until_le)
    then have "length s2 < f" "length s2 < g'"
      using Suc.prems s by (auto simp: g)
    then show ?thesis
      by (simp add: g s rd ta split: option.splits) (auto intro: Suc.IH)
  qed (simp add: g)
qed simp

lemma segments_le: "segments seg targs f name args s = (r, s') \<Longrightarrow> length s' \<le> length s"
proof (induction f arbitrary: name args s)
  case (Suc f)
  show ?case
  proof (cases "peek s = Some (CHR ''.'')")
    case True
    then obtain cs where s: "s = CHR ''.'' # cs" by (cases s) auto
    obtain inner s1 where rd: "read_class_name cs = (inner, s1)" by fastforce
    obtain a s2 where ta: "targs s1 = (a, s2)" by fastforce
    have "length s2 \<le> length s1" "length s1 \<le> length cs"
      using ta rd by (auto simp: read_class_name_def dest: targs_le read_until_le)
    then show ?thesis
      using Suc s rd ta by (fastforce split: option.splits)
  qed (use Suc.prems in auto)
qed simp

end

text \<open>Both parsers, at every depth, are element parsers.\<close>

context element_parser
begin

lemma args_loop_le:
  assumes "bind_sig (expect a) (\<lambda>_. bind_sig (until stop elem) (\<lambda>args.
      bind_sig (expect b) (\<lambda>_ s. (Some args, s)))) s = (r, s')"
  shows "length s' \<le> length s"
  using assms
  by (elim bind_sig_le) (auto dest: expect_le until_le elim!: bind_sig_le)

end

lemma element_parser_bump:
  assumes "\<And>c s r s'. k c s = (r, s') \<Longrightarrow> length s' \<le> length s"
  shows "element_parser (bind_sig bump k)"
proof
  fix s s' r a
  show "bind_sig bump k s = (Some a, s') \<Longrightarrow> length s' < length s"
    by (cases s) (auto simp: bind_sig_def less_Suc_eq_le dest: assms)
  show "bind_sig bump k s = (r, s') \<Longrightarrow> length s' \<le> length s"
    by (cases s) (auto simp: bind_sig_def intro: le_SucI dest: assms)
qed

lemma bind_elem_le:
  assumes "element_parser rec" "bind_sig rec (\<lambda>t s. (Some (f t), s)) s = (r, s')"
  shows "length s' \<le> length s"
  using assms element_parser.never_grows
  by (fastforce simp: bind_sig_def split: prod.splits option.splits)

lemma bind_elem_lt:
  assumes "element_parser rec" "bind_sig rec (\<lambda>t s. (Some (f t), s)) s = (Some a, s')"
  shows "length s' < length s"
  using assms element_parser.shrinks
  by (fastforce simp: bind_sig_def split: prod.splits option.splits)

lemma type_arg_element: "element_parser rec \<Longrightarrow> element_parser (type_arg rec)"
proof
  fix s s' r a
  assume ep: "element_parser rec"
  show "type_arg rec s = (Some a, s') \<Longrightarrow> length s' < length s"
    using ep
    by (cases s) (auto simp: type_arg_def split: if_splits
        dest: bind_elem_le element_parser.shrinks)
  show "type_arg rec s = (r, s') \<Longrightarrow> length s' \<le> length s"
    using ep
    by (cases s) (auto simp: type_arg_def split: if_splits intro: le_SucI
        dest: bind_elem_le element_parser.never_grows)
qed

lemma type_arg_structured_element: "element_parser rec \<Longrightarrow> element_parser (type_arg_structured rec)"
proof
  fix s s' r a
  assume ep: "element_parser rec"
  show "type_arg_structured rec s = (Some a, s') \<Longrightarrow> length s' < length s"
    using ep
    by (cases s) (auto simp: type_arg_structured_def split: if_splits
        dest: bind_elem_le element_parser.shrinks)
  show "type_arg_structured rec s = (r, s') \<Longrightarrow> length s' \<le> length s"
    using ep
    by (cases s) (auto simp: type_arg_structured_def split: if_splits intro: le_SucI
        dest: bind_elem_le element_parser.never_grows)
qed

lemma maybe_type_arg_list_le: "element_parser rec \<Longrightarrow> arg_parser (maybe_type_arg_list rec)"
  by unfold_locales
    (auto simp: maybe_type_arg_list_def type_arg_list_def split: if_splits
      dest: element_parser.args_loop_le [OF type_arg_element])

lemma type_args_structured_le: "element_parser rec \<Longrightarrow> arg_parser (type_args_structured rec)"
  by unfold_locales
    (auto simp: type_args_structured_def split: if_splits
      dest: element_parser.args_loop_le [OF type_arg_structured_element])

lemma class_type_parts_le:
  assumes "element_parser rec" "class_type_parts rec s = (r, s')"
  shows "length s' \<le> length s"
proof -
  obtain name s1 where rd: "read_class_name s = (name, s1)" by fastforce
  then have "length s1 \<le> length s" by (auto simp: read_class_name_def dest: read_until_le)
  moreover have "length s' \<le> length s1"
    using assms(2) unfolding class_type_parts_def rd prod.case
    by (elim bind_sig_le)
      (auto elim!: bind_sig_le simp del: segments.simps dest: expect_le
        arg_parser.targs_le [OF maybe_type_arg_list_le [OF assms(1)]]
        arg_parser.segments_le [OF maybe_type_arg_list_le [OF assms(1)]])
  ultimately show ?thesis by simp
qed

lemma class_parse_le:
  assumes "element_parser rec" "class_parse rec s = (r, s')"
  shows "length s' \<le> length s"
proof -
  obtain name s1 where rd: "read_until ''<;.'' s = (name, s1)" by fastforce
  then have "length s1 \<le> length s" by (rule read_until_le)
  moreover have "length s' \<le> length s1"
    using assms(2) unfolding class_parse_def rd prod.case
    by (elim bind_sig_le)
      (auto elim!: bind_sig_le simp del: segments.simps dest: expect_le
        arg_parser.targs_le [OF type_args_structured_le [OF assms(1)]]
        arg_parser.segments_le [OF type_args_structured_le [OF assms(1)]])
  ultimately show ?thesis by simp
qed

lemma var_name_le:
  assumes "(case read_until '';'' s of (name, s1) \<Rightarrow>
      bind_sig (expect b) (\<lambda>_ s. (Some (f name), s)) s1) = (r, s')"
  shows "length s' \<le> length s"
proof -
  obtain name s1 where rd: "read_until '';'' s = (name, s1)" by fastforce
  have "length s' \<le> length s1"
    using assms unfolding rd prod.case by (elim bind_sig_le) (auto dest: expect_le)
  with read_until_le [OF rd] show ?thesis by simp
qed

lemma class_type_le:
  assumes "element_parser rec" "class_type rec s = (r, s')"
  shows "length s' \<le> length s"
  using assms(2) unfolding class_type_def
  by (elim bind_sig_le) (auto dest: class_type_parts_le [OF assms(1)])

lemma type_render_element: "element_parser (type_render ctx n)"
proof (induction n)
  case 0
  show ?case by unfold_locales auto
next
  case (Suc n)
  show ?case
    unfolding type_render.simps type_render_inner_def
    by (rule element_parser_bump)
      (auto split: if_splits dest: bind_elem_le [OF Suc] var_name_le class_type_le [OF Suc])
qed

lemma type_parse_element: "element_parser (type_parse ctx n)"
proof (induction n)
  case 0
  show ?case by unfold_locales auto
next
  case (Suc n)
  show ?case
    unfolding type_parse.simps type_parse_inner_def
    by (rule element_parser_bump)
      (auto split: if_splits dest: bind_elem_le [OF Suc] var_name_le class_parse_le [OF Suc])
qed

interpretation render: element_parser "type_render ctx n" for ctx n
  by (rule type_render_element)

interpretation parse: element_parser "type_parse ctx n" for ctx n
  by (rule type_parse_element)

interpretation render_args: arg_parser "maybe_type_arg_list (type_render ctx n)" for ctx n
  by (rule maybe_type_arg_list_le [OF type_render_element])

interpretation parse_args: arg_parser "type_args_structured (type_parse ctx n)" for ctx n
  by (rule type_args_structured_le [OF type_parse_element])

section \<open>The two parsers accept the same signatures\<close>

text \<open>
  Two parsers that always leave the same input and succeed on the same inputs.
\<close>

definition twin :: "'a sigp \<Rightarrow> 'b sigp \<Rightarrow> bool" where
  "twin p q \<longleftrightarrow> (\<forall>s. snd (p s) = snd (q s) \<and> (fst (p s) = None \<longleftrightarrow> fst (q s) = None))"

lemma twinD: "twin p q \<Longrightarrow> p s = (r, s') \<Longrightarrow> \<exists>r'. q s = (r', s') \<and> (r = None \<longleftrightarrow> r' = None)"
  unfolding twin_def by (metis fst_conv snd_conv surj_pair)

lemma twinI:
  assumes "\<And>s. snd (p s) = snd (q s)" "\<And>s. fst (p s) = None \<longleftrightarrow> fst (q s) = None"
  shows "twin p q"
  using assms by (simp add: twin_def)

lemma twin_bind:
  assumes "twin p q" "\<And>a b. twin (k a) (h b)"
  shows "twin (bind_sig p k) (bind_sig q h)"
proof (rule twinI)
  fix s
  obtain r t where p: "p s = (r, t)" by fastforce
  with assms(1) obtain r' where q: "q s = (r', t)" and "r = None \<longleftrightarrow> r' = None"
    using twinD by blast
  then show "snd (bind_sig p k s) = snd (bind_sig q h s)"
    and "fst (bind_sig p k s) = None \<longleftrightarrow> fst (bind_sig q h s) = None"
    using assms(2) p by (auto simp: bind_sig_def twin_def split: option.splits)
qed

lemma twin_refl: "twin p p"
  by (simp add: twin_def)

lemma twin_return: "twin (\<lambda>s. (Some a, s)) (\<lambda>s. (Some b, s))" "twin (Pair (Some a)) (Pair (Some b))"
  by (simp_all add: twin_def)

lemma twin_until_loop:
  assumes "twin p q"
  shows "snd (until_loop stop p f acc s) = snd (until_loop stop q f acc' s)
     \<and> (fst (until_loop stop p f acc s) = None \<longleftrightarrow> fst (until_loop stop q f acc' s) = None)"
proof (induction f arbitrary: acc acc' s)
  case (Suc f)
  obtain r t where p: "p s = (r, t)" by fastforce
  with assms obtain r' where q: "q s = (r', t)" and "r = None \<longleftrightarrow> r' = None"
    using twinD by blast
  then show ?case using Suc p by (auto split: option.splits)
qed simp

lemma twin_until: "twin p q \<Longrightarrow> twin (until stop p) (until stop q)"
  by (simp add: twin_def [of "until stop p"] until_def twin_until_loop del: until_loop.simps)

lemma twin_segments:
  assumes "twin p q"
  shows "twin (segments seg p f nm args) (segments seg' q f nm' args')"
  unfolding twin_def
proof
  fix s
  show "snd (segments seg p f nm args s) = snd (segments seg' q f nm' args' s) \<and>
      (fst (segments seg p f nm args s) = None \<longleftrightarrow> fst (segments seg' q f nm' args' s) = None)"
  proof (induction f arbitrary: nm nm' args args' s)
    case (Suc f)
    obtain inner s1 where rd: "read_class_name (snd (bump s)) = (inner, s1)" by fastforce
    obtain r t where p: "p s1 = (r, t)" by fastforce
    with assms obtain r' where q: "q s1 = (r', t)" and "r = None \<longleftrightarrow> r' = None"
      using twinD by blast
    then show ?case using Suc p rd by (auto split: option.splits)
  qed simp
qed

locale twin_parsers =
  fixes display :: "string sigp" and structured :: "type_ref sigp"
  assumes twins: "twin display structured"
begin

lemma type_arg_twin: "twin (type_arg display) (type_arg_structured structured)"
proof (rule twinI)
  fix s
  show "snd (type_arg display s) = snd (type_arg_structured structured s)"
    and "fst (type_arg display s) = None \<longleftrightarrow> fst (type_arg_structured structured s) = None"
    using twins
      twin_bind [OF twins twin_return(1), of "\<lambda>t. ''? extends '' @ t" "\<lambda>t. Wildcard (Some t) None"]
      twin_bind [OF twins twin_return(1), of "\<lambda>t. ''? super '' @ t" "\<lambda>t. Wildcard None (Some t)"]
    by (auto simp: type_arg_def type_arg_structured_def twin_def split: option.splits)
qed

lemma args_twin: "twin (maybe_type_arg_list display) (type_args_structured structured)"
proof -
  have "twin (type_arg_list display)
     (bind_sig (expect (CHR ''<'')) (\<lambda>_.
      bind_sig (until (CHR ''>'') (type_arg_structured structured)) (\<lambda>args.
      bind_sig (expect (CHR ''>'')) (\<lambda>_ s. (Some args, s)))))"
    unfolding type_arg_list_def
    by (intro twin_bind twin_refl twin_until type_arg_twin twin_return)
  then show ?thesis
    by (auto simp: twin_def maybe_type_arg_list_def type_args_structured_def)
qed

lemma parts_twin: "twin (class_type_parts display) (class_parse structured)"
proof (rule twinI)
  fix s
  obtain name s1 where rd: "read_until ''<;.'' s = (name, s1)" by fastforce
  let ?seg = "\<lambda>args s2. segments (\<lambda>_ inner. simple inner) (maybe_type_arg_list display)
                (Suc (length s2)) (simple name) args"
  let ?seg' = "\<lambda>args s2. segments (\<lambda>binary inner. binary @ ''$'' @ inner)
                (type_args_structured structured) (Suc (length s2))
                (replace_char (CHR ''/'') ''.'' name) args"
  have "twin (bind_sig (maybe_type_arg_list display) (\<lambda>args s2.
        bind_sig (?seg args s2) (\<lambda>r. bind_sig (expect (CHR '';'')) (\<lambda>_ s. (Some r, s))) s2))
      (bind_sig (type_args_structured structured) (\<lambda>args s2.
        bind_sig (?seg' args s2) (\<lambda>(binary, args).
          bind_sig (expect (CHR '';'')) (\<lambda>_ s. (Some (Named (NamedId binary) args), s))) s2))"
  proof (rule twin_bind [OF args_twin])
    fix a b
    have "twin (bind_sig (?seg a s2) (\<lambda>r. bind_sig (expect (CHR '';'')) (\<lambda>_ s. (Some r, s))))
        (bind_sig (?seg' b s2) (\<lambda>(binary, args).
          bind_sig (expect (CHR '';'')) (\<lambda>_ s. (Some (Named (NamedId binary) args), s))))" for s2
      by (intro twin_bind twin_segments args_twin)
        (auto intro!: twin_bind twin_refl twin_return split: prod.splits)
    then show "twin (\<lambda>s2. bind_sig (?seg a s2) (\<lambda>r. bind_sig (expect (CHR '';'')) (\<lambda>_ s. (Some r, s))) s2)
        (\<lambda>s2. bind_sig (?seg' b s2) (\<lambda>(binary, args).
          bind_sig (expect (CHR '';'')) (\<lambda>_ s. (Some (Named (NamedId binary) args), s))) s2)"
      unfolding twin_def by blast
  qed
  then show "snd (class_type_parts display s) = snd (class_parse structured s)"
    and "fst (class_type_parts display s) = None \<longleftrightarrow> fst (class_parse structured s) = None"
    by (simp_all only: class_type_parts_def class_parse_def read_class_name_def rd prod.case twin_def)
qed

lemma inner_twin: "twin (type_render_inner ctx display) (type_parse_inner ctx' structured)"
proof -
  have "twin (class_type display) (class_parse structured)"
  proof -
    have "twin (class_type display) (bind_sig (class_parse structured) (\<lambda>t s. (Some t, s)))"
      unfolding class_type_def
      by (intro twin_bind parts_twin) (auto intro: twin_return split: prod.splits)
    then show ?thesis by (simp add: twin_def bind_sig_def split: prod.splits option.splits)
  qed
  moreover have "twin (\<lambda>s. case read_until '';'' s of (name, s1) \<Rightarrow>
        bind_sig (expect (CHR '';'')) (\<lambda>_ s. (Some (var ctx name), s)) s1)
      (\<lambda>s. case read_until '';'' s of (name, s1) \<Rightarrow>
        bind_sig (expect (CHR '';'')) (\<lambda>_ s. (Some (lookup_var ctx' name), s)) s1)"
    by (auto simp: twin_def bind_sig_def split: prod.splits option.splits)
  moreover have "twin (bind_sig display (\<lambda>inner s. (Some (inner @ ''[]''), s)))
      (bind_sig structured (\<lambda>t s. (Some (Array t), s)))"
    by (intro twin_bind twins twin_return)
  ultimately show ?thesis
    unfolding type_render_inner_def type_parse_inner_def
    by (auto simp: twin_def bind_sig_def [of bump] split: prod.splits option.splits)
qed

end

lemma render_parse_twins: "twin_parsers (type_render ctx n) (type_parse ctx' n)"
proof (induction n)
  case 0
  show ?case by unfold_locales (simp add: twin_def)
next
  case (Suc n)
  show ?case
    unfolding type_render.simps type_parse.simps
    by (rule twin_parsers.intro, rule twin_parsers.inner_twin, rule Suc)
qed

interpretation render_parse: twin_parsers "type_render ctx n" "type_parse ctx' n" for ctx ctx' n
  by (rule render_parse_twins)

section \<open>Parsing inverts the signature grammar\<close>

text \<open>
  The grammar of JVMS 4.7.9.1 as a printer: \<open>nm\<close> gives the name a type variable is written with.
\<close>

fun prim_letter :: "primitive_type \<Rightarrow> char" where
  "prim_letter PByte = CHR ''B''"
| "prim_letter PChar = CHR ''C''"
| "prim_letter PDouble = CHR ''D''"
| "prim_letter PFloat = CHR ''F''"
| "prim_letter PInt = CHR ''I''"
| "prim_letter PLong = CHR ''J''"
| "prim_letter PShort = CHR ''S''"
| "prim_letter PBoolean = CHR ''Z''"

abbreviation internal_name :: "string \<Rightarrow> string" where
  "internal_name b \<equiv> replace_char (CHR ''.'') ''/'' b"

fun sig_of :: "(type_variable_id \<Rightarrow> string) \<Rightarrow> type_ref \<Rightarrow> string" where
  "sig_of nm (Primitive p) = [prim_letter p]"
| "sig_of nm (Array t) = CHR ''['' # sig_of nm t"
| "sig_of nm (Variable v) = CHR ''T'' # nm v @ '';''"
| "sig_of nm (Named (NamedId b) args) =
     CHR ''L'' # internal_name b
       @ (if args = [] then [] else CHR ''<'' # concat (map (sig_of nm) args) @ ''>'') @ '';''"
| "sig_of nm (Wildcard None None) = ''*''"
| "sig_of nm (Wildcard (Some u) None) = CHR ''+'' # sig_of nm u"
| "sig_of nm (Wildcard None (Some l)) = CHR ''-'' # sig_of nm l"
| "sig_of nm _ = []"

fun is_wildcard :: "type_ref \<Rightarrow> bool" where
  "is_wildcard (Wildcard u l) = True"
| "is_wildcard _ = False"

text \<open>The types a signature can express in a context.\<close>

fun sig_wf :: "sig_ctx \<Rightarrow> (type_variable_id \<Rightarrow> string) \<Rightarrow> type_ref \<Rightarrow> bool" where
  "sig_wf ctx nm (Primitive p) = True"
| "sig_wf ctx nm (Array t) = (sig_wf ctx nm t \<and> \<not> is_wildcard t)"
| "sig_wf ctx nm (Variable v) =
     (lookup_var ctx (nm v) = Variable v \<and> CHR '';'' \<notin> set (nm v) \<and> valid_str (nm v))"
| "sig_wf ctx nm (Named (NamedId b) args) =
     (CHR ''/'' \<notin> set b \<and> CHR ''<'' \<notin> set b \<and> CHR '';'' \<notin> set b \<and> valid_str (internal_name b)
      \<and> list_all (sig_wf ctx nm) args)"
| "sig_wf ctx nm (Wildcard None None) = True"
| "sig_wf ctx nm (Wildcard (Some u) None) = (sig_wf ctx nm u \<and> \<not> is_wildcard u)"
| "sig_wf ctx nm (Wildcard None (Some l)) = (sig_wf ctx nm l \<and> \<not> is_wildcard l)"
| "sig_wf ctx nm _ = False"

text \<open>The nesting depth of \<open>type_parse\<close> calls a signature takes.\<close>

fun levels :: "type_ref \<Rightarrow> nat" where
  "levels (Array t) = Suc (levels t)"
| "levels (Named i args) = Suc (foldr (\<lambda>a. max (levels a)) args 0)"
| "levels (Wildcard None None) = 0"
| "levels (Wildcard (Some u) None) = levels u"
| "levels (Wildcard None (Some l)) = levels l"
| "levels _ = 1"

lemma levels_arg: "a \<in> set args \<Longrightarrow> levels a \<le> foldr (\<lambda>a. max (levels a)) args 0"
  by (induction args) auto

lemma levels_deep: "n < foldr (\<lambda>a. max (levels a)) args 0 \<Longrightarrow> \<exists>a \<in> set args. n < levels a"
  by (induction args) (auto simp: less_max_iff_disj)

lemma sig_of_start:
  "sig_wf ctx nm t \<Longrightarrow> \<exists>c cs. sig_of nm t = c # cs \<and> c \<notin> {CHR ''>'', CHR '')'', CHR ''V'', CHR '':''}
     \<and> (is_wildcard t \<or> c \<notin> {CHR ''*'', CHR ''+'', CHR ''-''})"
  by (induction ctx nm t rule: sig_wf.induct) (auto elim: prim_letter.elims)

lemma replace_back: "CHR ''/'' \<notin> set b \<Longrightarrow> replace_char (CHR ''/'') ''.'' (internal_name b) = b"
  by (induction b) (auto simp: replace_char_def)

lemma set_internal_name:
  "c \<notin> set b \<Longrightarrow> c \<noteq> CHR ''/'' \<Longrightarrow> c \<notin> set (internal_name b)"
  by (auto simp: replace_char_def)

lemma read_until_found:
  assumes "set name \<inter> set stops = {}" "valid_str name" "c \<in> set stops"
  shows "read_until stops (name @ c # s) = (name, c # s)"
proof -
  have "takeWhile (\<lambda>c. c \<notin> set stops) (name @ c # s) = name"
    "dropWhile (\<lambda>c. c \<notin> set stops) (name @ c # s) = c # s"
    using assms(1,3)
    by (auto simp: takeWhile_append dropWhile_append)
  then show ?thesis
    using from_utf8_lossy_as_bytes [OF assms(2)] by (simp add: read_until_def)
qed

text \<open>Loops over printed elements.\<close>

lemma until_loop_printed:
  assumes "\<And>a r. a \<in> set xs \<Longrightarrow> elem (enc a @ r) = (Some a, r)"
    and "\<And>a. a \<in> set xs \<Longrightarrow> \<exists>c cs. enc a = c # cs \<and> c \<noteq> stop"
    and "length xs < f"
  shows "until_loop stop elem f acc (concat (map enc xs) @ stop # r) = (Some (acc @ xs), stop # r)"
  using assms
proof (induction xs arbitrary: f acc)
  case Nil
  then show ?case by (cases f) auto
next
  case (Cons x xs)
  then obtain f' where f: "f = Suc f'" by (cases f) auto
  obtain c cs where c: "enc x = c # cs" "c \<noteq> stop" using Cons.prems(2) [of x] by auto
  have "elem (enc x @ concat (map enc xs) @ stop # r) = (Some x, concat (map enc xs) @ stop # r)"
    using Cons.prems(1) [of x] by simp
  moreover have "until_loop stop elem f' (acc @ [x]) (concat (map enc xs) @ stop # r)
      = (Some ((acc @ [x]) @ xs), stop # r)"
    using Cons.prems f by (intro Cons.IH) auto
  ultimately show ?case using c by (simp add: f)
qed

lemma concat_length_ge: "(\<And>a. a \<in> set xs \<Longrightarrow> enc a \<noteq> []) \<Longrightarrow> length xs \<le> length (concat (map enc xs))"
proof (induction xs)
  case (Cons x xs)
  then have "length xs \<le> length (concat (map enc xs))" "1 \<le> length (enc x)"
    by (auto simp: Suc_le_eq)
  then show ?case by (simp del: length_concat One_nat_def)
qed simp

lemma until_printed:
  assumes "\<And>a r. a \<in> set xs \<Longrightarrow> elem (enc a @ r) = (Some a, r)"
    and "\<And>a. a \<in> set xs \<Longrightarrow> \<exists>c cs. enc a = c # cs \<and> c \<noteq> stop"
  shows "until stop elem (concat (map enc xs) @ stop # r) = (Some xs, stop # r)"
proof -
  have "length xs \<le> length (concat (map enc xs))"
    by (rule concat_length_ge) (metis assms(2) list.distinct(1))
  then have "length xs < Suc (length (concat (map enc xs) @ stop # r))" by simp
  from until_loop_printed [where elem = elem and acc = "[]" and r = r, OF assms this]
  show ?thesis by (simp add: until_def del: until_loop.simps)
qed

lemma until_loop_stuck:
  assumes "\<And>a. a \<in> set xs \<Longrightarrow> (\<forall>r. elem (enc a @ r) = (Some a, r)) \<or> (\<forall>r. fst (elem (enc a @ r)) = None)"
    and "\<And>a. a \<in> set xs \<Longrightarrow> \<exists>c cs. enc a = c # cs \<and> c \<noteq> stop"
    and "\<exists>a \<in> set xs. \<forall>r. fst (elem (enc a @ r)) = None"
  shows "fst (until_loop stop elem f acc (concat (map enc xs) @ r)) = None"
  using assms
proof (induction xs arbitrary: f acc)
  case (Cons x xs)
  obtain c cs where c: "enc x = c # cs" "c \<noteq> stop" using Cons.prems(2) [of x] by auto
  show ?case
  proof (cases f)
    case (Suc f')
    show ?thesis
    proof (cases "\<forall>r. fst (elem (enc x @ r)) = None")
      case True
      then have "fst (elem (enc x @ concat (map enc xs) @ r)) = None" by blast
      with c show ?thesis by (auto simp: Suc split: prod.splits)
    next
      case False
      then have "\<forall>r. elem (enc x @ r) = (Some x, r)" using Cons.prems(1) [of x] by auto
      moreover have "fst (until_loop stop elem f' (acc @ [x]) (concat (map enc xs) @ r)) = None"
        using Cons.prems False by (intro Cons.IH) auto
      ultimately show ?thesis using c by (simp add: Suc)
    qed
  qed simp
qed simp

lemma type_parse_prim:
  "type_parse ctx (Suc n) (prim_letter p # r) = (Some (Primitive p), r)"
  by (cases p) (simp_all add: type_parse_inner_def bind_sig_def)

lemma type_parse_var:
  "CHR '';'' \<notin> set x \<Longrightarrow> valid_str x \<Longrightarrow>
     type_parse ctx (Suc n) (CHR ''T'' # x @ CHR '';'' # r) = (Some (lookup_var ctx x), r)"
  by (simp add: type_parse_inner_def bind_sig_def read_until_found)

lemma type_parse_array:
  "type_parse ctx (Suc n) (CHR ''['' # s) =
     bind_sig (type_parse ctx n) (\<lambda>t s. (Some (Array t), s)) s"
  by (simp add: type_parse_inner_def bind_sig_def)

lemma type_parse_class:
  "type_parse ctx (Suc n) (CHR ''L'' # s) = class_parse (type_parse ctx n) s"
  by (simp add: type_parse_inner_def bind_sig_def)

lemma segments_stop: "peek s \<noteq> Some (CHR ''.'') \<Longrightarrow> segments seg targs (Suc f) x args s = (Some (x, args), s)"
  by simp

lemma class_parse_plain:
  assumes "CHR ''/'' \<notin> set b" "CHR ''<'' \<notin> set b" "CHR '';'' \<notin> set b" "valid_str (internal_name b)"
  shows "class_parse rec (internal_name b @ CHR '';'' # r) = (Some (Named (NamedId b) []), r)"
proof -
  have "read_until ''<;.'' (internal_name b @ CHR '';'' # r) = (internal_name b, CHR '';'' # r)"
    by (rule read_until_found) (use assms in \<open>auto dest: set_internal_name [rotated] simp: replace_char_def\<close>)
  then show ?thesis
    using assms(1)
    by (simp add: class_parse_def bind_sig_def type_args_structured_def replace_back)
qed

lemma class_parse_args:
  assumes "CHR ''/'' \<notin> set b" "CHR ''<'' \<notin> set b" "CHR '';'' \<notin> set b" "valid_str (internal_name b)"
  shows "class_parse rec (internal_name b @ CHR ''<'' # s) =
    bind_sig (bind_sig (until (CHR ''>'') (type_arg_structured rec)) (\<lambda>args.
                bind_sig (expect (CHR ''>'')) (\<lambda>_ s. (Some args, s))))
      (\<lambda>args s2. bind_sig (segments (\<lambda>binary inner. binary @ ''$'' @ inner)
                   (type_args_structured rec) (Suc (length s2)) b args) (\<lambda>(binary, args).
                 bind_sig (expect (CHR '';'')) (\<lambda>_ s. (Some (Named (NamedId binary) args), s))) s2) s"
proof -
  have "read_until ''<;.'' (internal_name b @ CHR ''<'' # s) = (internal_name b, CHR ''<'' # s)"
    by (rule read_until_found) (use assms in \<open>auto simp: replace_char_def\<close>)
  then show ?thesis
    using assms(1)
    by (simp add: class_parse_def bind_sig_def type_args_structured_def replace_back
        del: segments.simps split: prod.splits option.splits)
qed

text \<open>One type argument, from what is known of the types one level down.\<close>

lemma bind_sig_None: "fst (p s) = None \<Longrightarrow> fst (bind_sig p k s) = None"
  by (cases "p s") (simp add: bind_sig_def)

lemma bind_sig_Some: "p s = (Some a, t) \<Longrightarrow> bind_sig p k s = k a t"
  by (simp add: bind_sig_def)

lemma type_arg_plain:
  assumes "sig_wf ctx nm a" "\<not> is_wildcard a"
  shows "type_arg_structured rec (sig_of nm a @ r) = rec (sig_of nm a @ r)"
  using sig_of_start [OF assms(1)] assms(2) by (auto simp: type_arg_structured_def)

lemma type_arg_printed:
  assumes wf: "sig_wf ctx nm a"
    and rec: "\<And>t r. sig_wf ctx nm t \<Longrightarrow> \<not> is_wildcard t \<Longrightarrow> levels t \<le> n \<Longrightarrow>
           rec (sig_of nm t @ r) = (Some t, r)"
    and le: "levels a \<le> n"
  shows "type_arg_structured rec (sig_of nm a @ r) = (Some a, r)"
proof (cases "is_wildcard a")
  case True
  then obtain u l where a: "a = Wildcard u l" by (cases a) auto
  with wf rec le show ?thesis
    by (cases u; cases l) (auto simp: type_arg_structured_def bind_sig_def)
next
  case False
  then show ?thesis by (simp add: type_arg_plain [OF wf] rec wf le)
qed

lemma type_arg_too_deep:
  assumes wf: "sig_wf ctx nm a"
    and rec: "\<And>t r. sig_wf ctx nm t \<Longrightarrow> \<not> is_wildcard t \<Longrightarrow> n < levels t \<Longrightarrow>
           fst (rec (sig_of nm t @ r)) = None"
    and gt: "n < levels a"
  shows "fst (type_arg_structured rec (sig_of nm a @ r)) = None"
proof (cases "is_wildcard a")
  case True
  then obtain u l where a: "a = Wildcard u l" by (cases a) auto
  with wf rec gt show ?thesis
    by (cases u; cases l) (auto simp: type_arg_structured_def bind_sig_None)
next
  case False
  then show ?thesis by (simp add: type_arg_plain [OF wf] rec wf gt)
qed

lemma sig_arg_start: "sig_wf ctx nm a \<Longrightarrow> \<exists>c cs. sig_of nm a = c # cs \<and> c \<noteq> CHR ''>''"
  using sig_of_start by blast

lemma type_parse_printed:
  "sig_wf ctx nm t \<Longrightarrow> \<not> is_wildcard t \<Longrightarrow> levels t \<le> n \<Longrightarrow>
     type_parse ctx n (sig_of nm t @ r) = (Some t, r)"
proof (induction n arbitrary: t r)
  case 0
  then show ?case by (cases t) auto
next
  case (Suc n)
  show ?case
  proof (cases t)
    case (Primitive p)
    then show ?thesis by (simp add: type_parse_prim del: type_parse.simps)
  next
    case (Array e)
    with Suc show ?thesis
      by (simp add: type_parse_array bind_sig_def del: type_parse.simps)
  next
    case (Variable v)
    with Suc.prems show ?thesis by (simp add: type_parse_var del: type_parse.simps)
  next
    case (Named i args)
    with Suc.prems obtain b where i: "i = NamedId b" by (cases i) auto
    have args: "sig_wf ctx nm a" "levels a \<le> n" if "a \<in> set args" for a
      using that Suc.prems levels_arg [of a args] by (auto simp: Named i list_all_iff)
    have until: "until (CHR ''>'') (type_arg_structured (type_parse ctx n))
        (concat (map (sig_of nm) args) @ CHR ''>'' # q) = (Some args, CHR ''>'' # q)" for q
      by (intro until_printed sig_arg_start [OF args(1)] type_arg_printed [OF args(1) Suc.IH args(2)])
    show ?thesis
      using Suc.prems
      by (cases "args = []")
        (simp_all add: Named i type_parse_class class_parse_plain class_parse_args bind_sig_def until
          del: type_parse.simps)
  qed (use Suc.prems in auto)
qed

lemma type_parse_too_deep:
  "sig_wf ctx nm t \<Longrightarrow> \<not> is_wildcard t \<Longrightarrow> n < levels t \<Longrightarrow>
     fst (type_parse ctx n (sig_of nm t @ r)) = None"
proof (induction n arbitrary: t r)
  case (Suc n)
  show ?case
  proof (cases t)
    case (Array e)
    with Suc.prems have "fst (type_parse ctx n (sig_of nm e @ r)) = None" by (intro Suc.IH) auto
    then show ?thesis
      by (simp add: Array type_parse_array bind_sig_None del: type_parse.simps)
  next
    case (Named i args)
    with Suc.prems obtain b where i: "i = NamedId b" by (cases i) auto
    have wf: "sig_wf ctx nm a" if "a \<in> set args" for a
      using that Suc.prems by (auto simp: Named i list_all_iff)
    obtain d where d: "d \<in> set args" "n < levels d"
      using Suc.prems levels_deep [of n args] by (auto simp: Named)
    have nonempty: "args \<noteq> []" using d by auto
    have deep: "fst (type_arg_structured (type_parse ctx n) (sig_of nm a @ q)) = None"
      if "a \<in> set args" "n < levels a" for a q
      by (rule type_arg_too_deep [where n = n and ctx = ctx]) (auto intro: wf Suc.IH that)
    have arg: "(\<forall>q. type_arg_structured (type_parse ctx n) (sig_of nm a @ q) = (Some a, q))
        \<or> (\<forall>q. fst (type_arg_structured (type_parse ctx n) (sig_of nm a @ q)) = None)"
      if "a \<in> set args" for a
      using that deep [of a] type_arg_printed [OF wf [OF that] type_parse_printed]
      by (cases "levels a \<le> n") auto
    have "fst (until (CHR ''>'') (type_arg_structured (type_parse ctx n))
        (concat (map (sig_of nm) args) @ q)) = None" for q
      unfolding until_def
      using arg d deep by (intro until_loop_stuck sig_arg_start [OF wf]) blast+
    then show ?thesis
      using Suc.prems nonempty
      by (simp add: Named i type_parse_class class_parse_args bind_sig_None
          del: type_parse.simps segments.simps)
  qed (use Suc.prems in auto)
qed (simp)

section \<open>Formal type parameters and whole signatures\<close>

text \<open>
  A formal parameter is a name with at least one bound; a bound may mention the parameters
  before it, which form the innermost scope (\<open>out\<close>) while it is parsed.
\<close>

fun formals_ok :: "sig_ctx \<Rightarrow> string \<Rightarrow> (type_variable_id \<Rightarrow> string) \<Rightarrow> (string \<times> type_parameter) list
    \<Rightarrow> (string \<times> type_ref list) list \<Rightarrow> bool" where
  "formals_ok ctx own nm out [] = True"
| "formals_ok ctx own nm out ((n, bs) # ps) =
     (n \<noteq> [] \<and> hd n \<noteq> CHR ''>'' \<and> CHR '':'' \<notin> set n \<and> valid_str n \<and> bs \<noteq> []
      \<and> list_all (\<lambda>b. sig_wf (ctx\<lparr>scope := scope ctx @ [out]\<rparr>) nm b \<and> \<not> is_wildcard b
            \<and> levels b \<le> MAX_SIG_DEPTH) bs
      \<and> formals_ok ctx own nm (out @ [(n, TypeParameter (TypeVariableId own (length out)) bs)]) ps)"

fun add_formals :: "string \<Rightarrow> (string \<times> type_parameter) list \<Rightarrow> (string \<times> type_ref list) list
    \<Rightarrow> (string \<times> type_parameter) list" where
  "add_formals own out [] = out"
| "add_formals own out ((n, bs) # ps) =
     add_formals own (out @ [(n, TypeParameter (TypeVariableId own (length out)) bs)]) ps"

definition bounds_sig :: "(type_variable_id \<Rightarrow> string) \<Rightarrow> type_ref list \<Rightarrow> string" where
  "bounds_sig nm bs = concat (map (\<lambda>b. CHR '':'' # sig_of nm b) bs)"

definition formals_sig :: "(type_variable_id \<Rightarrow> string) \<Rightarrow> (string \<times> type_ref list) list \<Rightarrow> string" where
  "formals_sig nm ps =
     (if ps = [] then []
      else CHR ''<'' # concat (map (\<lambda>(n, bs). n @ bounds_sig nm bs) ps) @ ''>'')"

lemma bound_loop_printed:
  assumes "\<And>b r. b \<in> set bs \<Longrightarrow> elem (sig_of nm b @ r) = (Some b, r)"
    and "\<And>b. b \<in> set bs \<Longrightarrow> sig_wf ctx nm b"
    and "peek r \<noteq> Some (CHR '':'')" and "length bs < f"
  shows "bound_loop (\<lambda>r. [case fst r of Some t \<Rightarrow> t | None \<Rightarrow> Unknown]) elem f acc (bounds_sig nm bs @ r)
     = (acc @ bs, r)"
  using assms
proof (induction bs arbitrary: f acc)
  case Nil
  then show ?case by (cases f) (auto simp: bounds_sig_def)
next
  case (Cons b bs)
  then obtain f' where f: "f = Suc f'" by (cases f) auto
  obtain c cs where c: "sig_of nm b = c # cs" "c \<noteq> CHR '':''" "c \<noteq> CHR ''>''"
    using sig_of_start [OF Cons.prems(2) [of b]] by auto
  have "elem (sig_of nm b @ bounds_sig nm bs @ r) = (Some b, bounds_sig nm bs @ r)"
    using Cons.prems(1) by simp
  moreover have "bound_loop (\<lambda>r. [case fst r of Some t \<Rightarrow> t | None \<Rightarrow> Unknown]) elem f' (acc @ [b])
      (bounds_sig nm bs @ r) = ((acc @ [b]) @ bs, r)"
    using Cons.prems f by (intro Cons.IH) auto
  ultimately show ?case using c by (simp add: f bounds_sig_def Let_def)
qed

lemma bounds_sig_length: "length bs \<le> length (bounds_sig nm bs)"
  unfolding bounds_sig_def by (rule concat_length_ge) simp

lemma structured_loop_printed:
  assumes "formals_ok ctx own nm out ps" "length ps \<le> guard"
  shows "structured_loop ctx own guard out
      (concat (map (\<lambda>(n, bs). n @ bounds_sig nm bs) ps) @ CHR ''>'' # r) = (add_formals own out ps, r)"
  using assms
proof (induction ps arbitrary: out guard)
  case Nil
  then show ?case by (cases guard) auto
next
  case (Cons p ps)
  obtain n bs where p: "p = (n, bs)" by fastforce
  from Cons.prems obtain g where g: "guard = Suc g" "length ps \<le> g" by (cases guard) auto
  from Cons.prems obtain c n' where n: "n = c # n'" "c \<noteq> CHR ''>''" by (cases n) (auto simp: p)
  let ?rest = "concat (map (\<lambda>(n, bs). n @ bounds_sig nm bs) ps) @ CHR ''>'' # r"
  let ?ctx = "ctx\<lparr>scope := scope ctx @ [out]\<rparr>"
  from Cons.prems obtain b bs' where bs: "bs = b # bs'" by (cases bs) (auto simp: p)
  have rd: "read_until '':'' (n @ bounds_sig nm bs @ ?rest) = (n, bounds_sig nm bs @ ?rest)"
    using read_until_found [of n "'':''" "CHR '':''"] Cons.prems by (simp add: p bs bounds_sig_def)
  have "peek ?rest \<noteq> Some (CHR '':'')"
    using Cons.prems by (cases ps) (auto simp: p neq_Nil_conv)
  moreover have "sig_wf ?ctx nm d" "\<not> is_wildcard d" "levels d \<le> MAX_SIG_DEPTH" if "d \<in> set bs" for d
    using that Cons.prems by (auto simp: p list_all_iff)
  moreover have "length bs < Suc (length (bounds_sig nm bs @ ?rest))"
    using bounds_sig_length [of bs nm] by simp
  ultimately have "bound_loop (\<lambda>r. [case fst r of Some t \<Rightarrow> t | None \<Rightarrow> Unknown])
      (type_parse ?ctx MAX_SIG_DEPTH) (Suc (length (bounds_sig nm bs @ ?rest))) []
      (bounds_sig nm bs @ ?rest) = ([] @ bs, ?rest)"
    by (intro bound_loop_printed type_parse_printed)
  then show ?case
    using Cons.IH [of "out @ [(n, TypeParameter (TypeVariableId own (length out)) bs)]" g]
      Cons.prems n rd
    by (simp add: p g(1) g(2) del: bound_loop.simps)
qed

lemma type_params_structured_printed:
  assumes "formals_ok ctx own nm [] ps" "length ps \<le> 64" "peek r \<noteq> Some (CHR ''<'')"
  shows "type_params_structured ctx own (formals_sig nm ps @ r) = (add_formals own [] ps, r)"
  using assms structured_loop_printed [of ctx own nm "[]" ps 64 r]
  by (auto simp: type_params_structured_def formals_sig_def)

lemma supers_loop_printed:
  assumes "\<And>t. t \<in> set ts \<Longrightarrow> sig_wf ctx nm t \<and> levels t \<le> MAX_SIG_DEPTH \<and> (\<exists>i args. t = Named i args)"
    and "length ts \<le> guard"
  shows "supers_loop (type_parse ctx MAX_SIG_DEPTH) guard acc (concat (map (sig_of nm) ts)) = Some (acc @ ts)"
  using assms
proof (induction ts arbitrary: guard acc)
  case Nil
  then show ?case by (cases guard) auto
next
  case (Cons t ts)
  then obtain g where g: "guard = Suc g" by (cases guard) auto
  obtain i args where t: "t = Named i args" using Cons.prems(1) [of t] by auto
  obtain b where i: "i = NamedId b" using Cons.prems(1) [of t] by (cases i) (auto simp: t)
  have "type_parse ctx MAX_SIG_DEPTH (sig_of nm t @ concat (map (sig_of nm) ts))
      = (Some t, concat (map (sig_of nm) ts))"
    using Cons.prems(1) [of t] by (intro type_parse_printed) (auto simp: t)
  moreover have "peek (sig_of nm t @ concat (map (sig_of nm) ts)) = Some (CHR ''L'')"
    by (simp add: t i)
  ultimately show ?case using Cons g by simp
qed

section \<open>Properties\<close>

lemma type_params_loop_length: "length (fst (type_params_loop rec g out s)) \<le> length out + g"
proof (induction g arbitrary: out s)
  case (Suc g)
  show ?case
  proof (cases s)
    case (Cons c cs)
    obtain n s1 where "read_until '':'' (c # cs) = (n, s1)" by fastforce
    then show ?thesis
      using Suc [of "out @ [n]" "snd (bound_loop (\<lambda>_. []) rec (Suc (length s1)) ([] :: unit list) s1)"]
      by (simp add: Cons del: bound_loop.simps)
  qed simp
qed (simp split: if_splits)

lemma super_loop_length: "length (super_loop rec g out s) \<le> length out + g"
proof (induction g arbitrary: out s)
  case (Suc g)
  have step: "length (super_loop rec g (out @ [x]) t) \<le> length out + Suc g" for x t
    using Suc [of "out @ [x]" t] by simp
  show ?case using step by (auto split: prod.splits option.splits)
qed simp

lemma structured_loop_length: "length (fst (structured_loop ctx own g out s)) \<le> length out + g"
proof (induction g arbitrary: out s)
  case (Suc g)
  show ?case
  proof (cases s)
    case (Cons c cs)
    have step: "length (fst (structured_loop ctx own g (out @ [x]) t)) \<le> length out + Suc g" for x t
      using Suc [of "out @ [x]" t] by simp
    show ?thesis
      using step by (auto simp: Cons simp del: bound_loop.simps split: prod.splits)
  qed simp
qed (simp split: if_splits)

lemma supers_loop_length: "supers_loop rec g acc s = Some ts \<Longrightarrow> length ts \<le> length acc + g"
proof (induction g arbitrary: acc s)
  case (Suc g)
  then show ?case by (fastforce split: prod.splits option.splits if_splits)
qed (auto split: if_splits)

text \<open>
  C21. A field signature is parsed exactly: the printed form of a type expressible in the class's
  scope comes back as that type when its nesting is within \<open>MAX_SIG_DEPTH\<close>, and is refused when
  it is deeper.
\<close>

theorem field_signature_exact:
  assumes "sig_wf ((sig_new [])\<lparr>scope := [cps]\<rparr>) nm t" and "\<not> is_wildcard t"
  shows "parse_field_signature (sig_of nm t) cps = (if levels t \<le> MAX_SIG_DEPTH then Some t else None)"
  using type_parse_printed [OF assms, of MAX_SIG_DEPTH "[]"]
    type_parse_too_deep [OF assms, of MAX_SIG_DEPTH "[]"]
  by (auto simp: parse_field_signature_def not_le)

theorem field_signature_exact_witness:
  "parse_field_signature ''Ljava/util/Map<TK;+[I*>;'' [(''K'', TypeParameter (TypeVariableId ''m'' 0) [])]
     = Some (Named (NamedId ''java.util.Map'')
         [Variable (TypeVariableId ''m'' 0), Wildcard (Some (Array (Primitive PInt))) None,
          Wildcard None None])"
proof -
  let ?v = "TypeVariableId ''m'' 0"
  let ?cps = "[(''K'', TypeParameter ?v [])]"
  let ?t = "Named (NamedId ''java.util.Map'')
         [Variable ?v, Wildcard (Some (Array (Primitive PInt))) None, Wildcard None None]"
  have "sig_wf ((sig_new [])\<lparr>scope := [?cps]\<rparr>) (\<lambda>_. ''K'') ?t"
    by (simp add: lookup_var_def sig_new_def valid_str_ascii replace_char_def)
  then show ?thesis
    using field_signature_exact [of ?cps "\<lambda>_. ''K''" ?t]
    by (simp add: MAX_SIG_DEPTH_def replace_char_def)
qed

text \<open>
  A class signature with well-scoped formal parameters and at most 64 class supertypes is
  parsed into exactly those parameters, owned by the class and numbered in order, and supertypes.
\<close>

theorem class_signature_roundtrip:
  assumes "formals_ok (sig_new []) own nm [] ps" and "length ps \<le> 64" and "length supers \<le> 64"
    and "\<And>t. t \<in> set supers \<Longrightarrow>
           sig_wf ((sig_new [])\<lparr>scope := [add_formals own [] ps]\<rparr>) nm t
           \<and> levels t \<le> MAX_SIG_DEPTH \<and> (\<exists>i args. t = Named i args)"
  shows "parse_class_signature (formals_sig nm ps @ concat (map (sig_of nm) supers)) own
     = Some (map snd (add_formals own [] ps), supers)"
proof -
  have "peek (concat (map (sig_of nm) supers)) \<noteq> Some (CHR ''<'')"
  proof (cases supers)
    case (Cons t ts)
    then obtain i args where "t = Named i args" "sig_wf ((sig_new [])\<lparr>scope := [add_formals own [] ps]\<rparr>) nm t"
      using assms(4) [of t] by auto
    then show ?thesis by (cases i) (auto simp: Cons)
  qed simp
  then have "type_params_structured (sig_new []) own (formals_sig nm ps @ concat (map (sig_of nm) supers))
      = (add_formals own [] ps, concat (map (sig_of nm) supers))"
    by (rule type_params_structured_printed [OF assms(1,2)])
  then show ?thesis
    using supers_loop_printed [OF assms(4,3), of "[]"] by (simp add: parse_class_signature_def)
qed

theorem class_signature_roundtrip_witness:
  "parse_class_signature ''<E:Ljava/lang/Object;>Ljava/util/List<TE;>;'' ''Box''
     = Some ([TypeParameter (TypeVariableId ''Box'' 0) [Named (NamedId ''java.lang.Object'') []]],
             [Named (NamedId ''java.util.List'') [Variable (TypeVariableId ''Box'' 0)]])"
proof -
  have wf: "formals_ok (sig_new []) ''Box'' (\<lambda>_. ''E'') [] [(''E'', [Named (NamedId ''java.lang.Object'') []])]"
    by (simp add: valid_str_ascii replace_char_def MAX_SIG_DEPTH_def)
  have sup: "sig_wf ((sig_new [])\<lparr>scope := [add_formals ''Box'' [] [(''E'', [Named (NamedId ''java.lang.Object'') []])]]\<rparr>)
      (\<lambda>_. ''E'') (Named (NamedId ''java.util.List'') [Variable (TypeVariableId ''Box'' 0)])"
    by (simp add: lookup_var_def sig_new_def valid_str_ascii replace_char_def)
  show ?thesis
    using class_signature_roundtrip [OF wf, of "[Named (NamedId ''java.util.List'') [Variable (TypeVariableId ''Box'' 0)]]"] sup
    by (simp add: formals_sig_def bounds_sig_def replace_char_def MAX_SIG_DEPTH_def)
qed

text \<open>
  A method signature with well-scoped formal parameters is parsed into exactly its own type
  parameters, its result (\<open>V\<close> is \<open>Void\<close>) and its parameter types; a method's parameter
  shadows a class parameter of the same name, since the scope is read innermost first.
\<close>

theorem method_signature_roundtrip:
  assumes "formals_ok (sig_new []) own nm [] ps" and "length ps \<le> 64"
    and ctx: "ctx = (sig_new [])\<lparr>scope := [cps, add_formals own [] ps]\<rparr>"
    and "\<And>t. t \<in> set pars \<Longrightarrow> sig_wf ctx nm t \<and> \<not> is_wildcard t \<and> levels t \<le> MAX_SIG_DEPTH"
    and "ret = Void \<or> sig_wf ctx nm ret \<and> \<not> is_wildcard ret \<and> levels ret \<le> MAX_SIG_DEPTH"
  shows "parse_method_signature
      (formals_sig nm ps @ ''('' @ concat (map (sig_of nm) pars) @ '')''
         @ (if ret = Void then ''V'' else sig_of nm ret)) cps own
     = Some (map snd (add_formals own [] ps), ret, pars)"
proof -
  let ?r = "if ret = Void then ''V'' else sig_of nm ret"
  have start: "\<exists>c cs. sig_of nm t = c # cs \<and> c \<noteq> CHR '')''" if "t \<in> set pars" for t
    using sig_of_start [of ctx nm t] assms(4) [OF that] by auto
  have "type_params_structured (sig_new []) own
      (formals_sig nm ps @ CHR ''('' # concat (map (sig_of nm) pars) @ CHR '')'' # ?r)
      = (add_formals own [] ps, CHR ''('' # concat (map (sig_of nm) pars) @ CHR '')'' # ?r)"
    by (rule type_params_structured_printed [OF assms(1,2)]) simp
  moreover have "until (CHR '')'') (type_parse ctx MAX_SIG_DEPTH)
      (concat (map (sig_of nm) pars) @ CHR '')'' # ?r) = (Some pars, CHR '')'' # ?r)"
    by (intro until_printed type_parse_printed start) (use assms(4) in auto)
  moreover have "ret \<noteq> Void \<Longrightarrow> type_parse ctx MAX_SIG_DEPTH (sig_of nm ret) = (Some ret, [])"
    using type_parse_printed [of ctx nm ret MAX_SIG_DEPTH "[]"] assms(5) by simp
  moreover have "ret \<noteq> Void \<Longrightarrow> \<exists>c cs. sig_of nm ret = c # cs \<and> c \<noteq> CHR ''V''"
    using sig_of_start [of ctx nm ret] assms(5) by auto
  ultimately show ?thesis
    by (auto simp: parse_method_signature_def bind_sig_def ctx Let_def)
qed

theorem method_signature_roundtrip_witness:
  "parse_method_signature ''(TE;[I)V'' [(''E'', TypeParameter (TypeVariableId ''Box'' 0) [])] ''Box#put''
     = Some ([], Void, [Variable (TypeVariableId ''Box'' 0), Array (Primitive PInt)])"
proof -
  let ?cps = "[(''E'', TypeParameter (TypeVariableId ''Box'' 0) [])]"
  have "sig_wf ((sig_new [])\<lparr>scope := [?cps, add_formals ''Box#put'' [] []]\<rparr>) (\<lambda>_. ''E'') t \<and> \<not> is_wildcard t
      \<and> levels t \<le> MAX_SIG_DEPTH"
    if "t \<in> set [Variable (TypeVariableId ''Box'' 0), Array (Primitive PInt)]" for t
    using that by (auto simp: lookup_var_def sig_new_def valid_str_ascii MAX_SIG_DEPTH_def)
  from method_signature_roundtrip [where ps = "[]" and own = "''Box#put''" and ret = Void and cps = ?cps
      and nm = "\<lambda>_. ''E''" and pars = "[Variable (TypeVariableId ''Box'' 0), Array (Primitive PInt)]",
      OF _ _ refl this]
  show ?thesis by (simp add: formals_sig_def)
qed

text \<open>
  The structured parser is the twin of the display parser: at every depth, on every input,
  they stop at the same place and succeed on the same inputs; so a field has a display template
  exactly when it has a structured type.
\<close>

theorem display_structured_agree:
  "snd (type_render ctx n s) = snd (type_parse ctx' n s)
   \<and> (fst (type_render ctx n s) = None \<longleftrightarrow> fst (type_parse ctx' n s) = None)
   \<and> (field_template s ps = None \<longleftrightarrow> parse_field_signature s cps = None)"
  using render_parse.twins unfolding twin_def field_template_def parse_field_signature_def by blast

text \<open>
  Untrusted signatures cannot grow a result without bound: at most 64 formal parameters and
  at most 64 supertypes are ever returned, whatever the input.
\<close>

theorem signature_results_bounded:
  "length (class_type_params sig) \<le> 64 \<and> length (super_type_args sig ps) \<le> 64
   \<and> length (parse_type_params sig own) \<le> 64
   \<and> (\<forall>tps sups. parse_class_signature sig own = Some (tps, sups)
        \<longrightarrow> length tps \<le> 64 \<and> length sups \<le> 64)"
proof -
  have tp: "length (fst (type_params_structured ctx own sig)) \<le> 64" for ctx
    using structured_loop_length [of ctx own 64 "[]"] by (auto simp: type_params_structured_def)
  have "length (class_type_params sig) \<le> 64"
    using type_params_loop_length [of _ 64 "[]"] by (auto simp: class_type_params_def type_params_def)
  moreover have "length (super_type_args sig ps) \<le> 64"
    using super_loop_length [of _ 64 "[]"] by (simp add: super_type_args_def)
  moreover have "length (parse_type_params sig own) \<le> 64"
    using tp by (simp add: parse_type_params_def)
  moreover have "length tps \<le> 64 \<and> length sups \<le> 64"
    if "parse_class_signature sig own = Some (tps, sups)" for tps sups
    using that tp [of "sig_new []"] by (auto simp: parse_class_signature_def split: prod.splits dest!: supers_loop_length)
  ultimately show ?thesis by blast
qed

theorem signature_results_bounded_witness:
  "parse_class_signature ''Ljava/lang/Object;'' ''A'' = Some ([], [Named (NamedId ''java.lang.Object'') []])
   \<and> length [Named (NamedId ''java.lang.Object'') []] \<le> 64"
proof -
  have "supers_loop (type_parse ((sig_new [])\<lparr>scope := [[]]\<rparr>) MAX_SIG_DEPTH) 64 []
      (concat (map (sig_of (\<lambda>_. [])) [Named (NamedId ''java.lang.Object'') []]))
      = Some ([] @ [Named (NamedId ''java.lang.Object'') []])"
    by (rule supers_loop_printed) (auto simp: valid_str_ascii replace_char_def MAX_SIG_DEPTH_def)
  then have "parse_class_signature ''Ljava/lang/Object;'' ''A'' = Some ([], [Named (NamedId ''java.lang.Object'') []])"
    by (simp add: parse_class_signature_def type_params_structured_def replace_char_def)
  then show ?thesis
    using signature_results_bounded [of "''Ljava/lang/Object;''" "[]" "''A''"] by blast
qed

end
