(* ===== verification/Jdwp_Codec.thy ===== *)
theory Jdwp_Codec
  imports Rust_Strings
begin

text \<open>
  \<open>crates/debug/src/jdwp/codec.rs\<close> and \<open>commands.rs\<close>: the big-endian JDWP payload reader and
  writer, identifiers of VM-reported size, values, locations and composite events. Everything
  that is read came from the debuggee and is untrusted; a failed read is a \<open>DecodeError\<close> value.

  The reader is the record of the source (buffer and position); a read is a function from the
  reader to a result and the new reader. The writer's buffer is the list of bytes written so far,
  and a writing method is the list of bytes it appends.
\<close>

section \<open>Protocol numbers\<close>

abbreviation VM_SET :: u8 where "VM_SET \<equiv> 1"
abbreviation VM_CLASSES_BY_SIGNATURE :: u8 where "VM_CLASSES_BY_SIGNATURE \<equiv> 2"
abbreviation VM_ALL_CLASSES :: u8 where "VM_ALL_CLASSES \<equiv> 3"
abbreviation VM_ALL_THREADS :: u8 where "VM_ALL_THREADS \<equiv> 4"
abbreviation VM_DISPOSE :: u8 where "VM_DISPOSE \<equiv> 6"
abbreviation VM_ID_SIZES :: u8 where "VM_ID_SIZES \<equiv> 7"
abbreviation VM_SUSPEND :: u8 where "VM_SUSPEND \<equiv> 8"
abbreviation VM_RESUME :: u8 where "VM_RESUME \<equiv> 9"
abbreviation VM_EXIT :: u8 where "VM_EXIT \<equiv> 10"

abbreviation RT_SET :: u8 where "RT_SET \<equiv> 2"
abbreviation RT_SIGNATURE :: u8 where "RT_SIGNATURE \<equiv> 1"
abbreviation RT_FIELDS :: u8 where "RT_FIELDS \<equiv> 4"
abbreviation RT_METHODS :: u8 where "RT_METHODS \<equiv> 5"
abbreviation RT_SOURCE_FILE :: u8 where "RT_SOURCE_FILE \<equiv> 7"

abbreviation CT_SET :: u8 where "CT_SET \<equiv> 3"
abbreviation CT_SUPERCLASS :: u8 where "CT_SUPERCLASS \<equiv> 1"

abbreviation METHOD_SET :: u8 where "METHOD_SET \<equiv> 6"
abbreviation METHOD_LINE_TABLE :: u8 where "METHOD_LINE_TABLE \<equiv> 1"
abbreviation METHOD_VARIABLE_TABLE :: u8 where "METHOD_VARIABLE_TABLE \<equiv> 2"

abbreviation OR_SET :: u8 where "OR_SET \<equiv> 9"
abbreviation OR_REFERENCE_TYPE :: u8 where "OR_REFERENCE_TYPE \<equiv> 1"
abbreviation OR_GET_VALUES :: u8 where "OR_GET_VALUES \<equiv> 2"

abbreviation SR_SET :: u8 where "SR_SET \<equiv> 10"
abbreviation SR_VALUE :: u8 where "SR_VALUE \<equiv> 1"

abbreviation TR_SET :: u8 where "TR_SET \<equiv> 11"
abbreviation TR_NAME :: u8 where "TR_NAME \<equiv> 1"
abbreviation TR_FRAMES :: u8 where "TR_FRAMES \<equiv> 6"
abbreviation TR_FRAME_COUNT :: u8 where "TR_FRAME_COUNT \<equiv> 7"

abbreviation AR_SET :: u8 where "AR_SET \<equiv> 13"
abbreviation AR_LENGTH :: u8 where "AR_LENGTH \<equiv> 1"
abbreviation AR_GET_VALUES :: u8 where "AR_GET_VALUES \<equiv> 2"

abbreviation ER_SET :: u8 where "ER_SET \<equiv> 15"
abbreviation ER_CMD_SET :: u8 where "ER_CMD_SET \<equiv> 1"
abbreviation ER_CMD_CLEAR :: u8 where "ER_CMD_CLEAR \<equiv> 2"

abbreviation SF_SET :: u8 where "SF_SET \<equiv> 16"
abbreviation SF_GET_VALUES :: u8 where "SF_GET_VALUES \<equiv> 1"
abbreviation SF_THIS_OBJECT :: u8 where "SF_THIS_OBJECT \<equiv> 3"

abbreviation EVENT_SET :: u8 where "EVENT_SET \<equiv> 64"
abbreviation EVENT_COMPOSITE :: u8 where "EVENT_COMPOSITE \<equiv> 100"

abbreviation EK_SINGLE_STEP :: u8 where "EK_SINGLE_STEP \<equiv> 1"
abbreviation EK_BREAKPOINT :: u8 where "EK_BREAKPOINT \<equiv> 2"
abbreviation EK_EXCEPTION :: u8 where "EK_EXCEPTION \<equiv> 4"
abbreviation EK_CLASS_PREPARE :: u8 where "EK_CLASS_PREPARE \<equiv> 8"
abbreviation EK_VM_START :: u8 where "EK_VM_START \<equiv> 90"
abbreviation EK_VM_DEATH :: u8 where "EK_VM_DEATH \<equiv> 99"

abbreviation MOD_COUNT :: u8 where "MOD_COUNT \<equiv> 1"
abbreviation MOD_CLASS_MATCH :: u8 where "MOD_CLASS_MATCH \<equiv> 5"
abbreviation MOD_LOCATION_ONLY :: u8 where "MOD_LOCATION_ONLY \<equiv> 7"
abbreviation MOD_EXCEPTION_ONLY :: u8 where "MOD_EXCEPTION_ONLY \<equiv> 8"
abbreviation MOD_STEP :: u8 where "MOD_STEP \<equiv> 10"

abbreviation SUSPEND_NONE :: u8 where "SUSPEND_NONE \<equiv> 0"
abbreviation SUSPEND_ALL :: u8 where "SUSPEND_ALL \<equiv> 2"

abbreviation STEP_SIZE_LINE :: u32 where "STEP_SIZE_LINE \<equiv> 1"
abbreviation STEP_DEPTH_INTO :: u32 where "STEP_DEPTH_INTO \<equiv> 0"
abbreviation STEP_DEPTH_OVER :: u32 where "STEP_DEPTH_OVER \<equiv> 1"
abbreviation STEP_DEPTH_OUT :: u32 where "STEP_DEPTH_OUT \<equiv> 2"

abbreviation ABSENT_INFORMATION :: u16 where "ABSENT_INFORMATION \<equiv> 101"

text \<open>Value tags: the ASCII code of the JNI signature character.\<close>

abbreviation TAG_ARRAY :: u8 where "TAG_ARRAY \<equiv> 91"
abbreviation TAG_BYTE :: u8 where "TAG_BYTE \<equiv> 66"
abbreviation TAG_CHAR :: u8 where "TAG_CHAR \<equiv> 67"
abbreviation TAG_OBJECT :: u8 where "TAG_OBJECT \<equiv> 76"
abbreviation TAG_FLOAT :: u8 where "TAG_FLOAT \<equiv> 70"
abbreviation TAG_DOUBLE :: u8 where "TAG_DOUBLE \<equiv> 68"
abbreviation TAG_INT :: u8 where "TAG_INT \<equiv> 73"
abbreviation TAG_LONG :: u8 where "TAG_LONG \<equiv> 74"
abbreviation TAG_SHORT :: u8 where "TAG_SHORT \<equiv> 83"
abbreviation TAG_VOID :: u8 where "TAG_VOID \<equiv> 86"
abbreviation TAG_BOOLEAN :: u8 where "TAG_BOOLEAN \<equiv> 90"
abbreviation TAG_STRING :: u8 where "TAG_STRING \<equiv> 115"
abbreviation TAG_THREAD :: u8 where "TAG_THREAD \<equiv> 116"
abbreviation TAG_THREAD_GROUP :: u8 where "TAG_THREAD_GROUP \<equiv> 103"
abbreviation TAG_CLASS_LOADER :: u8 where "TAG_CLASS_LOADER \<equiv> 108"
abbreviation TAG_CLASS_OBJECT :: u8 where "TAG_CLASS_OBJECT \<equiv> 99"

section \<open>Data\<close>

definition MAX_PACKET_LEN :: u32 where
  "MAX_PACKET_LEN = 16 * 1024 * 1024"

definition MAX_STRING_LEN :: nat where
  "MAX_STRING_LEN = 64 * 1024"

definition MAX_EVENTS_PER_COMPOSITE :: u32 where
  "MAX_EVENTS_PER_COMPOSITE = 1024"

datatype decode_error = DecodeError string

text \<open>Sizes, in bytes, of the identifiers, as \<open>VirtualMachine.IDSizes\<close> reports them.\<close>

record id_sizes =
  sz_field :: nat
  sz_method :: nat
  sz_object :: nat
  sz_reference_type :: nat
  sz_frame :: nat

definition sizes_valid :: "id_sizes \<Rightarrow> bool" where
  "sizes_valid z =
     list_all (\<lambda>s. 1 \<le> s \<and> s \<le> 8)
       [sz_field z, sz_method z, sz_object z, sz_reference_type z, sz_frame z]"

record location =
  type_tag :: u8
  class_id :: u64
  method_id :: u64
  loc_index :: u64

text \<open>Signed values are the integers they denote; floats are their bit patterns.\<close>

datatype jvalue =
    VVoid
  | VBoolean bool
  | VByte int
  | VChar u16
  | VShort int
  | VInt int
  | VLong int
  | VFloat u32
  | VDouble u64
  | VObject u8 u64

datatype event =
    VmStart u32 u64
  | SingleStep u32 u64 location
  | Breakpoint u32 u64 location
  | Exception u32 u64 location u64 "location option"
  | ClassPrepare u32 u64 u8 u64 string u32
  | VmDeath u32

record event_set =
  suspend_policy :: u8
  events :: "event list"

section \<open>Big-endian numbers\<close>

definition be_nat :: "bytes \<Rightarrow> nat" where
  "be_nat bs = foldl (\<lambda>n b. n * 256 + unat b) 0 bs"

primrec be_bytes :: "nat \<Rightarrow> nat \<Rightarrow> bytes" where
  "be_bytes 0 n = []"
| "be_bytes (Suc k) n = be_bytes k (n div 256) @ [of_nat (n mod 256)]"

definition from_be_bytes :: "bytes \<Rightarrow> 'a::len word" where
  "from_be_bytes bs = of_nat (be_nat bs)"

definition u32_to_be :: "u32 \<Rightarrow> bytes" where
  "u32_to_be v = be_bytes 4 (unat v)"

definition u64_to_be :: "u64 \<Rightarrow> bytes" where
  "u64_to_be v = be_bytes 8 (unat v)"

section \<open>Reader\<close>

record reader =
  buf :: bytes
  pos :: nat

type_synonym 'a read = "(reader, decode_error, 'a) fallible"

definition reader_new :: "bytes \<Rightarrow> reader" where
  "reader_new b = \<lparr>buf = b, pos = 0\<rparr>"

definition remaining :: "reader \<Rightarrow> nat" where
  "remaining r = length (buf r) - pos r"

definition take_bytes :: "nat \<Rightarrow> bytes read" where
  "take_bytes n r =
     (if remaining r < n
      then (Inl (DecodeError (''truncated payload: wanted '' @ show_nat n @ '' bytes, ''
                   @ show_nat (remaining r) @ '' left'')), r)
      else (Inr (take n (drop (pos r) (buf r))), r\<lparr>pos := pos r + n\<rparr>))"

definition read_u8 :: "u8 read" where
  "read_u8 = and_then (take_bytes 1) (\<lambda>b. ok (hd b))"

definition read_u16 :: "u16 read" where
  "read_u16 = and_then (take_bytes 2) (\<lambda>b. ok (from_be_bytes b))"

definition read_u32 :: "u32 read" where
  "read_u32 = and_then (take_bytes 4) (\<lambda>b. ok (from_be_bytes b))"

definition read_u64 :: "u64 read" where
  "read_u64 = and_then (take_bytes 8) (\<lambda>b. ok (from_be_bytes b))"

definition read_id :: "nat \<Rightarrow> u64 read" where
  "read_id n =
     and_then (take_bytes n) (\<lambda>b. ok (foldl (\<lambda>v byte. push_bit 8 v OR ucast byte) 0 b))"

definition read_string :: "string read" where
  "read_string =
     and_then read_u32 (\<lambda>w. let len = unat w in
       if len > MAX_STRING_LEN
       then err (DecodeError (''structural string too long: '' @ show_nat len))
       else and_then (take_bytes len) (\<lambda>b. ok (from_utf8_lossy b)))"

definition read_value_string :: "string read" where
  "read_value_string =
     and_then read_u32 (\<lambda>w. let len = unat w; keep = min len MAX_STRING_LEN in
       and_then (take_bytes keep) (\<lambda>b.
         if len > keep then and_then (take_bytes (len - keep)) (\<lambda>_. ok (from_utf8_lossy b))
         else ok (from_utf8_lossy b)))"

definition read_location :: "id_sizes \<Rightarrow> location read" where
  "read_location z =
     and_then read_u8 (\<lambda>t. and_then (read_id (sz_reference_type z)) (\<lambda>c.
     and_then (read_id (sz_method z)) (\<lambda>m. and_then read_u64 (\<lambda>i.
       ok \<lparr>type_tag = t, class_id = c, method_id = m, loc_index = i\<rparr>))))"

definition object_tags :: "u8 set" where
  "object_tags = {TAG_OBJECT, TAG_STRING, TAG_ARRAY, TAG_THREAD, TAG_THREAD_GROUP,
     TAG_CLASS_LOADER, TAG_CLASS_OBJECT}"

definition read_untagged_value :: "u8 \<Rightarrow> id_sizes \<Rightarrow> jvalue read" where
  "read_untagged_value t z =
     (if t = TAG_VOID then ok VVoid
      else if t = TAG_BOOLEAN then and_then read_u8 (\<lambda>b. ok (VBoolean (b \<noteq> 0)))
      else if t = TAG_BYTE then and_then read_u8 (\<lambda>b. ok (VByte (sint b)))
      else if t = TAG_CHAR then and_then read_u16 (\<lambda>b. ok (VChar b))
      else if t = TAG_SHORT then and_then read_u16 (\<lambda>b. ok (VShort (sint b)))
      else if t = TAG_INT then and_then read_u32 (\<lambda>b. ok (VInt (sint b)))
      else if t = TAG_LONG then and_then read_u64 (\<lambda>b. ok (VLong (sint b)))
      else if t = TAG_FLOAT then and_then read_u32 (\<lambda>b. ok (VFloat b))
      else if t = TAG_DOUBLE then and_then read_u64 (\<lambda>b. ok (VDouble b))
      else if t \<in> object_tags then and_then (read_id (sz_object z)) (\<lambda>i. ok (VObject t i))
      else err (DecodeError (''unknown value tag '' @ show_nat (unat t))))"

definition read_tagged_value :: "id_sizes \<Rightarrow> jvalue read" where
  "read_tagged_value z = and_then read_u8 (\<lambda>t. read_untagged_value t z)"

section \<open>Writer\<close>

definition write_u8 :: "u8 \<Rightarrow> bytes" where
  "write_u8 v = [v]"

definition write_u32 :: "u32 \<Rightarrow> bytes" where
  "write_u32 v = u32_to_be v"

definition write_u64 :: "u64 \<Rightarrow> bytes" where
  "write_u64 v = u64_to_be v"

text \<open>Big-endian, the \<open>size\<close> low-order bytes.\<close>

definition write_id :: "nat \<Rightarrow> u64 \<Rightarrow> bytes" where
  "write_id n v = map (\<lambda>i. ucast (drop_bit (8 * i) v)) (rev [0..<n])"

definition write_string :: "string \<Rightarrow> bytes" where
  "write_string s = write_u32 (of_nat (length s)) @ as_bytes s"

definition write_location :: "id_sizes \<Rightarrow> location \<Rightarrow> bytes" where
  "write_location z loc =
     write_u8 (type_tag loc) @ write_id (sz_reference_type z) (class_id loc)
     @ write_id (sz_method z) (method_id loc) @ write_u64 (loc_index loc)"

section \<open>Replies and events\<close>

text \<open>The \<open>{sizes:?}\<close> rendering of the error is the derived \<open>Debug\<close> output of the record.\<close>

definition show_sizes :: "id_sizes \<Rightarrow> string" where
  "show_sizes z =
     ''IdSizes { field: '' @ show_nat (sz_field z) @ '', method: '' @ show_nat (sz_method z)
     @ '', object: '' @ show_nat (sz_object z) @ '', reference_type: ''
     @ show_nat (sz_reference_type z) @ '', frame: '' @ show_nat (sz_frame z) @ '' }''"

definition parse_id_sizes :: "bytes \<Rightarrow> decode_error + id_sizes" where
  "parse_id_sizes payload =
     fst (and_then read_u32 (\<lambda>f. and_then read_u32 (\<lambda>m. and_then read_u32 (\<lambda>ob.
          and_then read_u32 (\<lambda>rt. and_then read_u32 (\<lambda>fr.
            let z = \<lparr>sz_field = unat f, sz_method = unat m, sz_object = unat ob,
                     sz_reference_type = unat rt, sz_frame = unat fr\<rparr> in
            if sizes_valid z then ok z
            else err (DecodeError (''implausible ID sizes: '' @ show_sizes z))))))) (reader_new payload))"

definition parse_event :: "id_sizes \<Rightarrow> event read" where
  "parse_event z =
     and_then read_u8 (\<lambda>kind. and_then read_u32 (\<lambda>rid.
       if kind = EK_VM_START then and_then (read_id (sz_object z)) (\<lambda>t. ok (VmStart rid t))
       else if kind = EK_SINGLE_STEP then
         and_then (read_id (sz_object z)) (\<lambda>t. and_then (read_location z) (\<lambda>l. ok (SingleStep rid t l)))
       else if kind = EK_BREAKPOINT then
         and_then (read_id (sz_object z)) (\<lambda>t. and_then (read_location z) (\<lambda>l. ok (Breakpoint rid t l)))
       else if kind = EK_EXCEPTION then
         and_then (read_id (sz_object z)) (\<lambda>t. and_then (read_location z) (\<lambda>l.
         and_then read_u8 (\<lambda>_. and_then (read_id (sz_object z)) (\<lambda>ex.
         and_then (read_location z) (\<lambda>cl.
           ok (Exception rid t l ex (if class_id cl \<noteq> 0 then Some cl else None)))))))
       else if kind = EK_CLASS_PREPARE then
         and_then (read_id (sz_object z)) (\<lambda>t. and_then read_u8 (\<lambda>tt.
         and_then (read_id (sz_reference_type z)) (\<lambda>ti. and_then read_string (\<lambda>sig.
         and_then read_u32 (\<lambda>st. ok (ClassPrepare rid t tt ti sig st))))))
       else if kind = EK_VM_DEATH then ok (VmDeath rid)
       else err (DecodeError (''unknown event kind '' @ show_nat (unat kind)))))"

definition parse_composite :: "bytes \<Rightarrow> id_sizes \<Rightarrow> decode_error + event_set" where
  "parse_composite payload z =
     fst (and_then read_u8 (\<lambda>policy. and_then read_u32 (\<lambda>count.
       if count > MAX_EVENTS_PER_COMPOSITE
       then err (DecodeError (''composite event count '' @ show_nat (unat count)))
       else and_then (repeat_n (unat count) (parse_event z)) (\<lambda>evs.
         ok \<lparr>suspend_policy = policy, events = evs\<rparr>))) (reader_new payload))"

section \<open>Reads stay inside the buffer\<close>

text \<open>A read never changes the buffer, never moves back and never runs past the end.\<close>

definition forward :: "reader \<Rightarrow> reader \<Rightarrow> bool" where
  "forward r r' \<longleftrightarrow> buf r' = buf r \<and> pos r \<le> pos r' \<and> (pos r \<le> length (buf r) \<longrightarrow> pos r' \<le> length (buf r))"

lemma reflp_forward: "reflp forward"
  by (simp add: reflp_def forward_def)

lemma transp_forward: "transp forward"
  by (auto simp: transp_def forward_def)

lemmas forward_ok [reader_ok] = advances_ok [OF reflp_forward]
lemmas forward_err [reader_ok] = advances_err [OF reflp_forward]
lemmas forward_then [reader_ok] = advances_and_then [OF transp_forward]
lemmas forward_repeat [reader_ok] = advances_repeat_n [OF reflp_forward transp_forward]

lemma forward_take [reader_ok]: "advances forward (take_bytes n)"
  by (auto simp: advances_def forward_def take_bytes_def remaining_def)

lemma forward_u8 [reader_ok]: "advances forward read_u8"
  unfolding read_u8_def by (intro reader_ok)

lemma forward_u16 [reader_ok]: "advances forward read_u16"
  unfolding read_u16_def by (intro reader_ok)

lemma forward_u32 [reader_ok]: "advances forward read_u32"
  unfolding read_u32_def by (intro reader_ok)

lemma forward_u64 [reader_ok]: "advances forward read_u64"
  unfolding read_u64_def by (intro reader_ok)

lemma forward_id [reader_ok]: "advances forward (read_id n)"
  unfolding read_id_def by (intro reader_ok)

lemma forward_if [reader_ok]:
  "(c \<Longrightarrow> advances forward m) \<Longrightarrow> (\<not> c \<Longrightarrow> advances forward k) \<Longrightarrow> advances forward (if c then m else k)"
  by simp

lemma forward_string [reader_ok]: "advances forward read_string"
  unfolding read_string_def Let_def by (intro reader_ok)

lemma forward_value_string [reader_ok]: "advances forward read_value_string"
  unfolding read_value_string_def Let_def by (intro reader_ok)

lemma forward_location [reader_ok]: "advances forward (read_location z)"
  unfolding read_location_def by (intro reader_ok)

lemma forward_untagged [reader_ok]: "advances forward (read_untagged_value t z)"
  unfolding read_untagged_value_def by (intro reader_ok)

lemma forward_tagged [reader_ok]: "advances forward (read_tagged_value z)"
  unfolding read_tagged_value_def by (intro reader_ok)

lemma forward_event [reader_ok]: "advances forward (parse_event z)"
  unfolding parse_event_def by (intro reader_ok)

section \<open>Big-endian numbers round trip\<close>

lemma be_nat_snoc: "be_nat (bs @ [b]) = be_nat bs * 256 + unat b"
  by (simp add: be_nat_def)

lemma be_nat_Nil [simp]: "be_nat [] = 0"
  by (simp add: be_nat_def)

lemma length_be_bytes [simp]: "length (be_bytes k n) = k"
  by (induction k arbitrary: n) auto

lemma be_nat_bound: "be_nat bs < 256 ^ length bs"
proof (induction bs rule: rev_induct)
  case (snoc b bs)
  have "unat b < 256" using unsigned_less [of b, where ?'a = nat] by simp
  then have "be_nat bs * 256 + unat b < be_nat bs * 256 + 256" by simp
  also have "\<dots> = (be_nat bs + 1) * 256" by simp
  also have "\<dots> \<le> 256 ^ length bs * 256" using snoc by (intro mult_le_mono) auto
  finally show ?case by (simp add: be_nat_snoc mult.commute)
qed simp

lemma be_nat_be_bytes: "be_nat (be_bytes k n) = n mod 256 ^ k"
proof (induction k arbitrary: n)
  case (Suc k)
  have "unat (of_nat (n mod 256) :: u8) = n mod 256"
    by (simp add: unat_of_nat)
  then have "be_nat (be_bytes (Suc k) n) = (n div 256) mod 256 ^ k * 256 + n mod 256"
    using Suc by (simp add: be_nat_snoc)
  also have "\<dots> = n mod 256 ^ Suc k"
    by (simp add: mod_mult2_eq mult.commute)
  finally show ?case .
qed simp

lemma be_bytes_be_nat: "be_bytes (length bs) (be_nat bs) = bs"
proof (induction bs rule: rev_induct)
  case (snoc b bs)
  have lt: "unat b < 256" using unsigned_less [of b, where ?'a = nat] by simp
  then have "(be_nat bs * 256 + unat b) div 256 = be_nat bs"
    and "(be_nat bs * 256 + unat b) mod 256 = unat b" by simp_all
  with snoc show ?case by (simp add: be_nat_snoc)
qed simp

lemma from_be_u16: "length bs = 2 \<Longrightarrow> unat (from_be_bytes bs :: u16) = be_nat bs"
  using be_nat_bound [of bs] by (simp add: from_be_bytes_def unat_of_nat)

lemma from_be_u32: "length bs = 4 \<Longrightarrow> unat (from_be_bytes bs :: u32) = be_nat bs"
  using be_nat_bound [of bs] by (simp add: from_be_bytes_def unat_of_nat)

lemma from_be_u64: "length bs = 8 \<Longrightarrow> unat (from_be_bytes bs :: u64) = be_nat bs"
  using be_nat_bound [of bs] by (simp add: from_be_bytes_def unat_of_nat)

lemma from_be_to_be_u32: "(from_be_bytes (u32_to_be v) :: u32) = v"
proof -
  have "unat v < 256 ^ 4" using unsigned_less [of v, where ?'a = nat] by simp
  then show ?thesis by (simp add: from_be_bytes_def u32_to_be_def be_nat_be_bytes)
qed

lemma from_be_to_be_u64: "(from_be_bytes (u64_to_be v) :: u64) = v"
proof -
  have "unat v < 256 ^ 8" using unsigned_less [of v, where ?'a = nat] by simp
  then show ?thesis by (simp add: from_be_bytes_def u64_to_be_def be_nat_be_bytes)
qed

text \<open>The shifting loop of \<open>Reader::id\<close> computes the big-endian number, the one of \<open>Writer::id\<close> its bytes.\<close>

lemma shift_or_byte: "unat (push_bit 8 (v :: u64) OR ucast (b :: u8)) = (unat v * 256 + unat b) mod 2 ^ 64"
proof -
  have "push_bit 8 v AND ucast b = (0 :: u64)"
    by (rule bit_eqI) (auto simp: bit_simps dest: bit_imp_le_length)
  then have "push_bit 8 v OR ucast b = push_bit 8 v + (ucast b :: u64)"
    by (simp add: disjunctive_add_eq_or)
  also have "\<dots> = of_nat (unat v * 256 + unat b)"
    by (simp add: push_bit_eq_mult)
  finally show ?thesis by (simp only: unat_of_nat) simp
qed

lemma foldl_shift: "unat (foldl (\<lambda>v b. push_bit 8 v OR ucast b) (0 :: u64) bs) = be_nat bs mod 2 ^ 64"
proof (induction bs rule: rev_induct)
  case (snoc b bs)
  have "((x mod m) * 256 + y) mod m = (x * 256 + y) mod m" for x y m :: nat
    by (metis mod_add_left_eq mod_mult_left_eq)
  with snoc show ?case by (simp add: shift_or_byte be_nat_snoc)
qed simp

lemma write_id_be: "write_id n v = be_bytes n (unat v)"
proof -
  have "map (\<lambda>i. ucast (drop_bit (8 * i) v)) (rev [0..<n]) = be_bytes n (unat (v :: u64))" for v
  proof (induction n arbitrary: v)
    case (Suc n)
    have split: "rev [0..<Suc n] = map Suc (rev [0..<n]) @ [0]"
      by (simp add: map_Suc_upt [symmetric] rev_map upt_conv_Cons del: upt_Suc)
    have "unat (drop_bit 8 v) = unat v div 256"
      unfolding unat_drop_bit_eq by (simp add: drop_bit_eq_div)
    moreover have "(ucast v :: u8) = of_nat (unat v mod 256)"
      by (rule word_unat_eq_iff [THEN iffD2]) (simp add: unat_of_nat unsigned_ucast_eq take_bit_eq_mod)
    ultimately show ?case
      using Suc [of "drop_bit 8 v"]
      by (simp add: split comp_def drop_bit_drop_bit add.commute del: upt_Suc)
  qed simp
  then show ?thesis by (simp add: write_id_def)
qed


section \<open>Encodings and the reads that undo them\<close>

text \<open>\<open>reads m bs a\<close>: wherever the reader stands in front of the bytes \<open>bs\<close>, whatever surrounds
  them, \<open>m\<close> returns \<open>a\<close> and consumes exactly those bytes.\<close>

definition reads :: "'a read \<Rightarrow> bytes \<Rightarrow> 'a \<Rightarrow> bool" where
  "reads m bs a \<longleftrightarrow>
     (\<forall>pre post. m \<lparr>buf = pre @ bs @ post, pos = length pre\<rparr>
                 = (Inr a, \<lparr>buf = pre @ bs @ post, pos = length pre + length bs\<rparr>))"

lemma reads_ok [rt]: "reads (ok a) [] a"
  by (simp add: reads_def ok_def)

lemma reads_then [rt]:
  assumes m: "reads m bs a" and k: "reads (k a) cs b"
  shows "reads (and_then m k) (bs @ cs) b"
  unfolding reads_def
proof (intro allI)
  fix pre post
  from m have "m \<lparr>buf = pre @ (bs @ cs) @ post, pos = length pre\<rparr>
      = (Inr a, \<lparr>buf = pre @ (bs @ cs) @ post, pos = length pre + length bs\<rparr>)"
    unfolding reads_def by (metis append_assoc)
  moreover from k have "k a \<lparr>buf = (pre @ bs) @ cs @ post, pos = length (pre @ bs)\<rparr>
      = (Inr b, \<lparr>buf = (pre @ bs) @ cs @ post, pos = length (pre @ bs) + length cs\<rparr>)"
    unfolding reads_def by blast
  ultimately show "and_then m k \<lparr>buf = pre @ (bs @ cs) @ post, pos = length pre\<rparr>
      = (Inr b, \<lparr>buf = pre @ (bs @ cs) @ post, pos = length pre + length (bs @ cs)\<rparr>)"
    by (simp add: and_then_def add.assoc)
qed

lemma reads_then_ok:
  assumes "reads m bs a" "f a = b" shows "reads (and_then m (\<lambda>a. ok (f a))) bs b"
  using reads_then [of m bs a "\<lambda>a. ok (f a)" "[]" b] assms by (simp add: reads_ok)

lemma reads_take [rt]: "n = length bs \<Longrightarrow> reads (take_bytes n) bs bs"
  by (simp add: reads_def take_bytes_def remaining_def)

lemma reads_new: "reads m bs a \<Longrightarrow> fst (m (reader_new (bs @ post))) = Inr a"
  unfolding reads_def reader_new_def by (metis append_Nil list.size(3) fst_conv)

lemma reads_unique:
  assumes "reads m bs a" "reads m cs b" "bs @ x = cs @ y"
  shows "a = b"
  using reads_new [OF assms(1), of x] reads_new [OF assms(2), of y] assms(3) by simp

text \<open>The contract of a codec: what is written is read back, exactly.\<close>

locale wire_codec =
  fixes rd :: "'a read" and wr :: "'a \<Rightarrow> bytes" and fits :: "'a \<Rightarrow> bool"
  assumes read_write: "fits a \<Longrightarrow> reads rd (wr a) a"
begin

lemma prefix_free:
  assumes "fits a" "fits b" "wr a @ x = wr b @ y"
  shows "a = b \<and> x = y"
proof -
  have "a = b" using reads_unique [OF read_write read_write] assms by blast
  with assms(3) show ?thesis by simp
qed

lemma step: "reads (k a) cs b \<Longrightarrow> fits a \<Longrightarrow> reads (and_then rd k) (wr a @ cs) b"
  by (rule reads_then [OF read_write])

lemma final: "f a = b \<Longrightarrow> fits a \<Longrightarrow> reads (and_then rd (\<lambda>a. ok (f a))) (wr a) b"
  by (rule reads_then_ok [OF read_write])

lemma read_write_many: "list_all fits as \<Longrightarrow> reads (repeat_n (length as) rd) (concat (map wr as)) as"
proof (induction as)
  case (Cons a as)
  then have "reads (and_then (repeat_n (length as) rd) (\<lambda>as. ok (a # as))) (concat (map wr as)) (a # as)"
    by (auto intro: reads_then_ok [where f = "(#) a"])
  from step [where k = "\<lambda>a. and_then (repeat_n (length as) rd) (\<lambda>as. ok (a # as))", OF this] Cons.prems
  show ?case by simp
qed (simp add: reads_ok)

lemma decode_encode: "fits a \<Longrightarrow> fst (rd (reader_new (wr a @ post))) = Inr a"
  by (rule reads_new [OF read_write])

end

interpretation u8_codec: wire_codec read_u8 write_u8 "\<lambda>_. True"
  by unfold_locales (auto simp: read_u8_def write_u8_def intro!: reads_then_ok [OF reads_take])

definition u16_to_be :: "u16 \<Rightarrow> bytes" where
  "u16_to_be v = be_bytes 2 (unat v)"

lemma from_be_to_be_u16: "(from_be_bytes (be_bytes 2 (unat v)) :: u16) = v"
proof -
  have "unat v < 256 ^ 2" using unsigned_less [of v, where ?'a = nat] by simp
  then show ?thesis by (simp add: from_be_bytes_def be_nat_be_bytes)
qed

interpretation u16_codec: wire_codec read_u16 u16_to_be "\<lambda>_. True"
  unfolding read_u16_def
  by unfold_locales (rule reads_then_ok [OF reads_take]; simp add: from_be_to_be_u16 u16_to_be_def)

interpretation u32_codec: wire_codec read_u32 write_u32 "\<lambda>_. True"
  unfolding read_u32_def write_u32_def
  by unfold_locales (rule reads_then_ok [OF reads_take]; simp add: from_be_to_be_u32 [unfolded u32_to_be_def] u32_to_be_def)

interpretation u64_codec: wire_codec read_u64 write_u64 "\<lambda>_. True"
  unfolding read_u64_def write_u64_def
  by unfold_locales (rule reads_then_ok [OF reads_take]; simp add: from_be_to_be_u64 [unfolded u64_to_be_def] u64_to_be_def)

definition id_fits :: "nat \<Rightarrow> u64 \<Rightarrow> bool" where
  "id_fits n v = (n \<le> 8 \<and> unat v < 256 ^ n)"

interpretation id_codec: wire_codec "read_id n" "write_id n" "id_fits n" for n
proof
  fix a
  assume fits: "id_fits n a"
  then have "unat (foldl (\<lambda>v byte. push_bit 8 v OR ucast byte) (0 :: u64) (write_id n a)) = unat a"
    using unsigned_less [of a, where ?'a = nat]
    by (simp add: foldl_shift write_id_be be_nat_be_bytes id_fits_def)
  then have "foldl (\<lambda>v byte. push_bit 8 v OR ucast byte) (0 :: u64) (write_id n a) = a"
    by (rule word_unat_eq_iff [THEN iffD2])
  then show "reads (read_id n) (write_id n a) a"
    unfolding read_id_def by (intro reads_then_ok [OF reads_take]) (simp_all add: write_id_be)
qed

definition string_fits :: "string \<Rightarrow> bool" where
  "string_fits s = (valid_str s \<and> length s \<le> MAX_STRING_LEN)"

lemma unat_small_u32: "n \<le> MAX_STRING_LEN \<Longrightarrow> unat (of_nat n :: u32) = n"
  by (simp add: unat_of_nat MAX_STRING_LEN_def)

interpretation string_codec: wire_codec read_string write_string string_fits
proof
  fix s
  assume fits: "string_fits s"
  then have len: "unat (of_nat (length s) :: u32) = length s" "\<not> length s > MAX_STRING_LEN"
    by (simp_all add: string_fits_def unat_small_u32)
  from fits have "reads (and_then (take_bytes (length s)) (\<lambda>b. ok (from_utf8_lossy b))) (as_bytes s) s"
    by (intro reads_then_ok [OF reads_take]) (simp_all add: string_fits_def from_utf8_lossy_as_bytes)
  then show "reads read_string (write_string s) s"
    unfolding read_string_def write_string_def
    by (intro u32_codec.step) (simp_all add: len Let_def)
qed

definition location_fits :: "id_sizes \<Rightarrow> location \<Rightarrow> bool" where
  "location_fits z l = (id_fits (sz_reference_type z) (class_id l) \<and> id_fits (sz_method z) (method_id l))"

lemmas codec_steps =
  u8_codec.step u16_codec.step u32_codec.step u64_codec.step id_codec.step string_codec.step

lemmas codec_finals =
  u8_codec.final u16_codec.final u32_codec.final u64_codec.final id_codec.final string_codec.final

interpretation location_codec: wire_codec "read_location z" "write_location z" "location_fits z" for z
  unfolding read_location_def write_location_def location_fits_def
  by unfold_locales (auto intro!: codec_steps codec_finals)


section \<open>The encodings a VM sends\<close>

text \<open>The JDWP encodings of values and events, the other direction of \<open>tagged_value\<close> and
  \<open>parse_event\<close>: the specification those decoders are held to.\<close>

fun value_tag :: "jvalue \<Rightarrow> u8" where
  "value_tag VVoid = TAG_VOID"
| "value_tag (VBoolean _) = TAG_BOOLEAN"
| "value_tag (VByte _) = TAG_BYTE"
| "value_tag (VChar _) = TAG_CHAR"
| "value_tag (VShort _) = TAG_SHORT"
| "value_tag (VInt _) = TAG_INT"
| "value_tag (VLong _) = TAG_LONG"
| "value_tag (VFloat _) = TAG_FLOAT"
| "value_tag (VDouble _) = TAG_DOUBLE"
| "value_tag (VObject t _) = t"

fun encode_untagged :: "id_sizes \<Rightarrow> jvalue \<Rightarrow> bytes" where
  "encode_untagged z VVoid = []"
| "encode_untagged z (VBoolean b) = write_u8 (if b then 1 else 0)"
| "encode_untagged z (VByte i) = write_u8 (word_of_int i)"
| "encode_untagged z (VChar c) = u16_to_be c"
| "encode_untagged z (VShort i) = u16_to_be (word_of_int i)"
| "encode_untagged z (VInt i) = write_u32 (word_of_int i)"
| "encode_untagged z (VLong i) = write_u64 (word_of_int i)"
| "encode_untagged z (VFloat b) = write_u32 b"
| "encode_untagged z (VDouble b) = write_u64 b"
| "encode_untagged z (VObject _ i) = write_id (sz_object z) i"

fun value_fits :: "id_sizes \<Rightarrow> jvalue \<Rightarrow> bool" where
  "value_fits z (VByte i) = (- (2 ^ 7) \<le> i \<and> i < 2 ^ 7)"
| "value_fits z (VShort i) = (- (2 ^ 15) \<le> i \<and> i < 2 ^ 15)"
| "value_fits z (VInt i) = (- (2 ^ 31) \<le> i \<and> i < 2 ^ 31)"
| "value_fits z (VLong i) = (- (2 ^ 63) \<le> i \<and> i < 2 ^ 63)"
| "value_fits z (VObject t i) = (t \<in> object_tags \<and> id_fits (sz_object z) i)"
| "value_fits z _ = True"

definition encode_value :: "id_sizes \<Rightarrow> jvalue \<Rightarrow> bytes" where
  "encode_value z v = write_u8 (value_tag v) @ encode_untagged z v"

lemma sint_word_of_int:
  assumes "- (2 ^ (LENGTH('a::len) - 1)) \<le> i" "i < 2 ^ (LENGTH('a) - 1)"
  shows "sint (word_of_int i :: 'a word) = i"
  using assms by (simp add: sint_sbintrunc' signed_take_bit_int_eq_self)

lemma reads_untagged:
  "value_fits z v \<Longrightarrow> reads (read_untagged_value (value_tag v) z) (encode_untagged z v) v"
  by (cases "(z, v)" rule: value_fits.cases)
     (auto simp: read_untagged_value_def object_tags_def sint_word_of_int
           intro!: codec_finals reads_ok)

interpretation value_codec: wire_codec "read_tagged_value z" "encode_value z" "value_fits z" for z
  by unfold_locales
     (auto simp: read_tagged_value_def encode_value_def intro!: u8_codec.step reads_untagged)

lemmas more_steps = codec_steps location_codec.step value_codec.step
lemmas more_finals = codec_finals location_codec.final value_codec.final

fun encode_event :: "id_sizes \<Rightarrow> event \<Rightarrow> bytes" where
  "encode_event z (VmStart rid t) =
     write_u8 EK_VM_START @ write_u32 rid @ write_id (sz_object z) t"
| "encode_event z (SingleStep rid t l) =
     write_u8 EK_SINGLE_STEP @ write_u32 rid @ write_id (sz_object z) t @ write_location z l"
| "encode_event z (Breakpoint rid t l) =
     write_u8 EK_BREAKPOINT @ write_u32 rid @ write_id (sz_object z) t @ write_location z l"
| "encode_event z (Exception rid t l ex cl) =
     write_u8 EK_EXCEPTION @ write_u32 rid @ write_id (sz_object z) t @ write_location z l
     @ write_u8 TAG_OBJECT @ write_id (sz_object z) ex
     @ write_location z (case cl of Some c \<Rightarrow> c
         | None \<Rightarrow> \<lparr>type_tag = 0, class_id = 0, method_id = 0, loc_index = 0\<rparr>)"
| "encode_event z (ClassPrepare rid t tt ti sig st) =
     write_u8 EK_CLASS_PREPARE @ write_u32 rid @ write_id (sz_object z) t @ write_u8 tt
     @ write_id (sz_reference_type z) ti @ write_string sig @ write_u32 st"
| "encode_event z (VmDeath rid) = write_u8 EK_VM_DEATH @ write_u32 rid"

fun event_fits :: "id_sizes \<Rightarrow> event \<Rightarrow> bool" where
  "event_fits z (VmStart rid t) = id_fits (sz_object z) t"
| "event_fits z (SingleStep rid t l) = (id_fits (sz_object z) t \<and> location_fits z l)"
| "event_fits z (Breakpoint rid t l) = (id_fits (sz_object z) t \<and> location_fits z l)"
| "event_fits z (Exception rid t l ex cl) =
     (id_fits (sz_object z) t \<and> location_fits z l \<and> id_fits (sz_object z) ex
      \<and> (case cl of None \<Rightarrow> True | Some c \<Rightarrow> location_fits z c \<and> class_id c \<noteq> 0))"
| "event_fits z (ClassPrepare rid t tt ti sig st) =
     (id_fits (sz_object z) t \<and> id_fits (sz_reference_type z) ti \<and> string_fits sig)"
| "event_fits z (VmDeath rid) = True"

lemma no_location_fits:
  "sizes_valid z \<Longrightarrow> location_fits z \<lparr>type_tag = 0, class_id = 0, method_id = 0, loc_index = 0\<rparr>"
  by (simp add: location_fits_def id_fits_def sizes_valid_def)

lemma reads_event: "sizes_valid z \<Longrightarrow> event_fits z e \<Longrightarrow> reads (parse_event z) (encode_event z e) e"
  unfolding parse_event_def
  by (cases e)
     (auto intro!: more_steps more_finals no_location_fits split: option.splits)

interpretation event_codec: wire_codec "parse_event z" "encode_event z" "\<lambda>e. sizes_valid z \<and> event_fits z e" for z
  by unfold_locales (simp add: reads_event)

definition encode_composite :: "id_sizes \<Rightarrow> event_set \<Rightarrow> bytes" where
  "encode_composite z es =
     write_u8 (suspend_policy es) @ write_u32 (of_nat (length (events es)))
     @ concat (map (encode_event z) (events es))"


section \<open>Work is bounded by the payload\<close>

text \<open>A successful read moves the position by at least \<open>n\<close>.\<close>

definition consumes :: "nat \<Rightarrow> 'a read \<Rightarrow> bool" where
  "consumes n m \<longleftrightarrow> (\<forall>r a r'. m r = (Inr a, r') \<longrightarrow> pos r + n \<le> pos r')"

lemma consumes_forward: "advances forward m \<Longrightarrow> consumes 0 m"
  by (auto simp: consumes_def advances_def forward_def) (metis snd_conv)

lemma consumes_take: "consumes n (take_bytes n)"
  by (auto simp: consumes_def take_bytes_def split: if_splits)

lemma consumes_then:
  assumes "consumes n m" "\<And>a. consumes k (h a)"
  shows "consumes (n + k) (and_then m h)"
  unfolding consumes_def
proof (intro allI impI)
  fix r b r'
  assume "and_then m h r = (Inr b, r')"
  then obtain a t where "m r = (Inr a, t)" "h a t = (Inr b, r')" by (rule and_then_InrE)
  with assms show "pos r + (n + k) \<le> pos r'"
    unfolding consumes_def by (metis add.assoc add_le_mono1 le_trans)
qed

lemma consumes_then_forward:
  "consumes n m \<Longrightarrow> (\<And>a. advances forward (h a)) \<Longrightarrow> consumes n (and_then m h)"
  using consumes_then [OF _ consumes_forward, of n m h] by simp

lemma consumes_u8: "consumes 1 read_u8"
  unfolding read_u8_def by (intro consumes_then_forward consumes_take reader_ok)

lemma consumes_u32: "consumes 4 read_u32"
  unfolding read_u32_def by (intro consumes_then_forward consumes_take reader_ok)

lemma consumes_id: "consumes n (read_id n)"
  unfolding read_id_def by (intro consumes_then_forward consumes_take reader_ok)

lemma consumes_repeat: "consumes c m \<Longrightarrow> consumes (c * n) (repeat_n n m)"
proof (induction n)
  case (Suc n)
  have "consumes (c + (c * n + 0)) (repeat_n (Suc n) m)"
    unfolding repeat_n.simps
    by (intro consumes_then Suc.IH Suc.prems consumes_forward reader_ok)
  then show ?case by simp
qed (simp add: consumes_forward reader_ok)

lemma consumes_event: "consumes 5 (parse_event z)"
proof -
  have "consumes (1 + 4) (parse_event z)"
    unfolding parse_event_def
    by (intro consumes_then consumes_u8 consumes_then_forward consumes_u32 reader_ok)
  then show ?thesis by simp
qed

text \<open>The end of a successful read of a whole buffer.\<close>

lemma consumed_within:
  assumes "consumes n m" "advances forward m" "m (reader_new bs) = (Inr a, r')"
  shows "n \<le> length bs"
proof -
  have "n \<le> pos r'" using assms(1,3) by (fastforce simp: consumes_def reader_new_def)
  also have "\<dots> \<le> length bs"
    using assms(2) unfolding advances_def forward_def
    by (metis assms(3) snd_conv reader_new_def reader.simps(1,2) le0)
  finally show ?thesis .
qed

fun event_signature_ok :: "event \<Rightarrow> bool" where
  "event_signature_ok (ClassPrepare _ _ _ _ sig _) = valid_str sig"
| "event_signature_ok _ = True"

lemma read_string_valid: "read_string r = (Inr s, r') \<Longrightarrow> valid_str s"
  unfolding read_string_def Let_def by (auto elim!: and_then_InrE split: if_splits)

lemma parse_event_signature: "parse_event z r = (Inr e, r') \<Longrightarrow> event_signature_ok e"
  unfolding parse_event_def
  by (auto elim!: and_then_InrE split: if_splits simp: read_string_valid)

lemma repeat_n_all:
  assumes "\<And>r a r'. m r = (Inr a, r') \<Longrightarrow> P a"
  shows "repeat_n n m r = (Inr xs, r') \<Longrightarrow> list_all P xs"
  by (induction n arbitrary: r xs) (auto elim!: and_then_InrE dest: assms)

section \<open>Properties of the codec\<close>

lemma parse_encode_composite:
  assumes "sizes_valid z" and "list_all (event_fits z) (events es)"
    and "length (events es) \<le> unat MAX_EVENTS_PER_COMPOSITE"
  shows "parse_composite (encode_composite z es @ post) z = Inr es"
proof -
  let ?n = "length (events es)"
  have small: "?n \<le> 1024" using assms(3) by (simp add: MAX_EVENTS_PER_COMPOSITE_def)
  then have n: "unat (of_nat ?n :: u32) = ?n" by (simp add: unat_of_nat)
  then have le: "\<not> (of_nat ?n :: u32) > MAX_EVENTS_PER_COMPOSITE"
    using assms(3) by (simp add: word_less_nat_alt)
  have many: "reads (repeat_n ?n (parse_event z)) (concat (map (encode_event z) (events es))) (events es)"
    using assms(1,2) by (intro event_codec.read_write_many) (simp add: list_all_iff)
  show ?thesis
    unfolding parse_composite_def encode_composite_def
    by (rule reads_new, intro u8_codec.step u32_codec.step)
       (simp_all add: n le reads_then_ok [OF many])
qed

text \<open>
  Composite event payloads round trip: for valid identifier sizes, the JDWP encoding of any
  event set of at most 1,024 representable events is decoded by \<open>parse_composite\<close> to exactly
  that event set (every event kind, caught and uncaught exceptions included), whatever bytes
  follow it.
\<close>

theorem composite_roundtrip:
  assumes "sizes_valid z" and "list_all (event_fits z) (events es)"
    and "length (events es) \<le> unat MAX_EVENTS_PER_COMPOSITE"
  shows "parse_composite (encode_composite z es @ post) z = Inr es"
  using assms by (rule parse_encode_composite)

lemma composite_roundtrip_witness:
  "parse_composite (encode_composite \<lparr>sz_field = 8, sz_method = 8, sz_object = 8, sz_reference_type = 8, sz_frame = 8\<rparr>
     \<lparr>suspend_policy = SUSPEND_ALL,
      events = [VmStart 0 1, ClassPrepare 7 1 1 42 ''LMain;'' 7,
        Exception 9 1 \<lparr>type_tag = 1, class_id = 42, method_id = 3, loc_index = 17\<rparr> 99 None]\<rparr> @ [1, 2])
     \<lparr>sz_field = 8, sz_method = 8, sz_object = 8, sz_reference_type = 8, sz_frame = 8\<rparr>
   = Inr \<lparr>suspend_policy = SUSPEND_ALL,
      events = [VmStart 0 1, ClassPrepare 7 1 1 42 ''LMain;'' 7,
        Exception 9 1 \<lparr>type_tag = 1, class_id = 42, method_id = 3, loc_index = 17\<rparr> 99 None]\<rparr>"
  by (rule composite_roundtrip)
     (simp_all add: sizes_valid_def id_fits_def location_fits_def string_fits_def valid_str_ascii
        MAX_STRING_LEN_def MAX_EVENTS_PER_COMPOSITE_def)

lemma fst_eqE: assumes "fst p = x" obtains s where "p = (x, s)"
  using assms by (cases p) simp

lemma parse_composite_InrE:
  assumes "parse_composite payload z = Inr es"
  obtains count t u where "\<not> count > MAX_EVENTS_PER_COMPOSITE"
    "and_then read_u8 (\<lambda>_. read_u32) (reader_new payload) = (Inr count, t)"
    "repeat_n (unat count) (parse_event z) t = (Inr (events es), u)"
proof -
  from assms obtain r' where "and_then read_u8 (\<lambda>policy. and_then read_u32 (\<lambda>count.
       if count > MAX_EVENTS_PER_COMPOSITE
       then err (DecodeError (''composite event count '' @ show_nat (unat count)))
       else and_then (repeat_n (unat count) (parse_event z)) (\<lambda>evs.
         ok \<lparr>suspend_policy = policy, events = evs\<rparr>))) (reader_new payload) = (Inr es, r')"
    unfolding parse_composite_def by (rule fst_eqE)
  then obtain policy r1 where 1: "read_u8 (reader_new payload) = (Inr policy, r1)" and
    "and_then read_u32 (\<lambda>count.
       if count > MAX_EVENTS_PER_COMPOSITE
       then err (DecodeError (''composite event count '' @ show_nat (unat count)))
       else and_then (repeat_n (unat count) (parse_event z)) (\<lambda>evs.
         ok \<lparr>suspend_policy = policy, events = evs\<rparr>)) r1 = (Inr es, r')"
    by (rule and_then_InrE)
  from this(2) obtain count r2 where 2: "read_u32 r1 = (Inr count, r2)" and le: "\<not> count > MAX_EVENTS_PER_COMPOSITE"
    and "and_then (repeat_n (unat count) (parse_event z))
           (\<lambda>evs. ok \<lparr>suspend_policy = policy, events = evs\<rparr>) r2 = (Inr es, r')"
    by (rule and_then_InrE) (simp split: if_splits)
  from this(3) obtain evs r3 where "repeat_n (unat count) (parse_event z) r2 = (Inr evs, r3)"
    "es = \<lparr>suspend_policy = policy, events = evs\<rparr>"
    by (rule and_then_InrE) simp
  with 1 2 le show thesis
    by (intro that) (simp_all add: and_then_cong_Inr)
qed

text \<open>
  Decoding an arbitrary, hostile composite payload is bounded: a decoded event set has at
  most 1,024 events, its payload held at least five bytes for every one of them, and every class
  signature in it is well-formed UTF-8, whatever bytes the debuggee sent.
\<close>

theorem composite_bounded:
  assumes "parse_composite payload z = Inr es"
  shows "length (events es) \<le> 1024 \<and> 5 + 5 * length (events es) \<le> length payload
         \<and> list_all event_signature_ok (events es)"
proof -
  from assms obtain count t u where cnt: "\<not> count > MAX_EVENTS_PER_COMPOSITE" and
      hd: "and_then read_u8 (\<lambda>_. read_u32) (reader_new payload) = (Inr count, t)" and
      evs: "repeat_n (unat count) (parse_event z) t = (Inr (events es), u)"
    by (rule parse_composite_InrE)
  have len: "length (events es) = unat count" using evs by (rule repeat_n_length)
  with cnt have le: "length (events es) \<le> 1024"
    by (simp add: MAX_EVENTS_PER_COMPOSITE_def word_less_nat_alt)
  have "consumes ((1 + 4) + 5 * unat count)
      (and_then (and_then read_u8 (\<lambda>_. read_u32)) (\<lambda>_. repeat_n (unat count) (parse_event z)))"
    by (intro consumes_then consumes_u8 consumes_u32 consumes_repeat consumes_event)
  moreover have "advances forward
      (and_then (and_then read_u8 (\<lambda>_. read_u32)) (\<lambda>_. repeat_n (unat count) (parse_event z)))"
    by (intro reader_ok)
  moreover have "and_then (and_then read_u8 (\<lambda>_. read_u32)) (\<lambda>_. repeat_n (unat count) (parse_event z))
      (reader_new payload) = (Inr (events es), u)"
    using hd evs by (simp add: and_then_cong_Inr)
  ultimately have "5 + 5 * length (events es) \<le> length payload"
    using consumed_within [of "(1 + 4) + 5 * unat count"] len by simp
  moreover have "list_all event_signature_ok (events es)"
    by (rule repeat_n_all [OF _ evs]) (rule parse_event_signature)
  ultimately show ?thesis using le by blast
qed

lemma composite_bounded_witness:
  "5 + 5 * length [VmDeath 7] \<le> length (encode_composite
      \<lparr>sz_field = 8, sz_method = 8, sz_object = 8, sz_reference_type = 8, sz_frame = 8\<rparr>
      \<lparr>suspend_policy = SUSPEND_NONE, events = [VmDeath 7]\<rparr>)"
proof -
  let ?z = "\<lparr>sz_field = 8, sz_method = 8, sz_object = 8, sz_reference_type = 8, sz_frame = 8\<rparr>"
  let ?es = "\<lparr>suspend_policy = SUSPEND_NONE, events = [VmDeath 7]\<rparr>"
  have "parse_composite (encode_composite ?z ?es @ []) ?z = Inr ?es"
    by (rule parse_encode_composite)
       (simp_all add: sizes_valid_def MAX_EVENTS_PER_COMPOSITE_def)
  from composite_bounded [OF this] show ?thesis by simp
qed

text \<open>
  \<open>parse_id_sizes\<close> accepts exactly the payloads that start with five big-endian numbers
  between 1 and 8, and returns those numbers: an identifier size the VM reports never makes a
  later identifier read longer than a 64-bit word.
\<close>

theorem id_sizes_exact:
  "parse_id_sizes p = Inr z \<longleftrightarrow>
     length p \<ge> 20 \<and> sizes_valid z \<and>
     z = \<lparr>sz_field = be_nat (take 4 p), sz_method = be_nat (take 4 (drop 4 p)),
          sz_object = be_nat (take 4 (drop 8 p)), sz_reference_type = be_nat (take 4 (drop 12 p)),
          sz_frame = be_nat (take 4 (drop 16 p))\<rparr>"
  by (auto simp: parse_id_sizes_def reader_new_def read_u32_def and_then_def take_bytes_def remaining_def
      ok_def err_def Let_def from_be_u32 split: if_splits)

text \<open>
  \<open>value_string\<close> on any buffer: it fails exactly when the length prefix or the announced
  bytes are not all there; otherwise it returns the (lossy) UTF-8 text of the first 64 KiB of the
  string and leaves the reader just behind the whole string, so that what follows in the packet is
  still read from the right place.
\<close>

theorem value_string_skips_excess:
  "read_value_string \<lparr>buf = bs, pos = p\<rparr> =
     (let len = be_nat (take 4 (drop p bs)) in
      if length bs - p < 4 then (Inl (DecodeError (''truncated payload: wanted '' @ show_nat 4 @ '' bytes, '' @ show_nat (length bs - p) @ '' left'')), \<lparr>buf = bs, pos = p\<rparr>)
      else if length bs - (p + 4) < min len 65536
      then (Inl (DecodeError (''truncated payload: wanted '' @ show_nat (min len 65536) @ '' bytes, ''
              @ show_nat (length bs - (p + 4)) @ '' left'')), \<lparr>buf = bs, pos = p + 4\<rparr>)
      else if length bs - (p + 4) < len
      then (Inl (DecodeError (''truncated payload: wanted '' @ show_nat (len - 65536) @ '' bytes, ''
              @ show_nat (length bs - (p + 4) - 65536) @ '' left'')), \<lparr>buf = bs, pos = p + 4 + 65536\<rparr>)
      else (Inr (from_utf8_lossy (take (min len 65536) (drop (p + 4) bs))), \<lparr>buf = bs, pos = p + 4 + len\<rparr>))"
  by (auto simp: read_value_string_def read_u32_def and_then_def take_bytes_def remaining_def
      ok_def Let_def from_be_u32 MAX_STRING_LEN_def min_def drop_drop add.commute split: if_splits)

end
