(* ===== verification/Jdwp_Client.thy ===== *)
theory Jdwp_Client
  imports Jdwp_Codec
begin

text \<open>
  \<open>crates/debug/src/jdwp/mod.rs\<close>: the JDWP connection and the typed commands over it.

  First the connection: a state machine of concurrent callers of \<open>JdwpClient::command\<close> and the
  one reader task, which share the pending map. One call of \<open>command\<close> is a \<open>call\<close> record; its
  \<open>oneshot\<close> channel is the record's \<open>slot\<close>, and a sender in the pending map is the number of the
  call. Every atomic section of the source (the pending lock is never held over an await) is one
  step. Then the typed commands of \<open>Vm\<close>: each builds its payload with the writer, sends it and
  decodes the reply. What a command returns is up to the debuggee at the other end of the socket,
  so there \<open>command\<close> is a parameter: any function of the set, the command and the payload that may
  change a world state.
\<close>

section \<open>Errors\<close>

text \<open>An \<open>io::Error\<close> is the text it displays as.\<close>

datatype jdwp_error = Io string | Decode decode_error | Code u16 | Closed

fun show_decode_error :: "decode_error \<Rightarrow> string" where
  "show_decode_error (DecodeError m) = ''malformed JDWP data: '' @ m"

fun show_jdwp_error :: "jdwp_error \<Rightarrow> string" where
  "show_jdwp_error (Io e) = ''JDWP I/O error: '' @ e"
| "show_jdwp_error (Decode e) = show_decode_error e"
| "show_jdwp_error (Code c) = ''JDWP error code '' @ show_nat (unat c)"
| "show_jdwp_error Closed = ''JDWP connection closed''"

definition is_absent_information :: "jdwp_error \<Rightarrow> bool" where
  "is_absent_information e = (e = Code ABSENT_INFORMATION)"

section \<open>Packets\<close>

definition HANDSHAKE :: bytes where
  "HANDSHAKE = as_bytes ''JDWP-Handshake''"

definition FLAG_REPLY :: u8 where "FLAG_REPLY = 0x80"

definition HEADER_LEN :: u32 where "HEADER_LEN = 11"

text \<open>The packet \<open>JdwpClient::command\<close> writes; the length addition is the wrapping one of a
  release build.\<close>

definition command_packet :: "u32 \<Rightarrow> u8 \<Rightarrow> u8 \<Rightarrow> bytes \<Rightarrow> bytes" where
  "command_packet cid cset cmd payload =
     u32_to_be (HEADER_LEN + of_nat (length payload)) @ u32_to_be cid @ [0, cset, cmd] @ payload"

text \<open>What the reader task makes of the bytes received so far: it still waits in one of its two
  \<open>read_exact\<close> calls, or finds the length out of bounds, or has a packet.\<close>

datatype incoming = NeedMore | BadLength | Packet u32 u8 u8 u8 bytes bytes

definition next_packet :: "bytes \<Rightarrow> incoming" where
  "next_packet bs =
     (if length bs < 11 then NeedMore
      else let len = from_be_bytes (take 4 bs) :: u32 in
        if \<not> (HEADER_LEN \<le> len \<and> len \<le> MAX_PACKET_LEN) then BadLength
        else let n = unat (len - HEADER_LEN); rest = drop 11 bs in
          if length rest < n then NeedMore
          else Packet (from_be_bytes (take 4 (drop 4 bs))) (bs ! 8) (bs ! 9) (bs ! 10) (take n rest) (drop n rest))"

section \<open>The connection\<close>

text \<open>The capacity of the \<open>mpsc\<close> channel of event payloads; a sender waits while it is full.\<close>

definition EVENT_CHANNEL_CAP :: nat where "EVENT_CHANNEL_CAP = 64"

text \<open>The state of a oneshot channel as its receiver sees it.\<close>

datatype slot = Empty | Sent "jdwp_error + bytes" | SenderDropped

datatype phase = Registered | Awaiting | Returned "jdwp_error + bytes"

record call =
  call_id :: u32
  call_packet :: bytes
  slot_of :: slot
  phase_of :: phase

datatype reader_phase = Reading | Broken | TornDown

record conn =
  pending :: "(u32 \<rightharpoonup> nat) option"
  next_id :: u32
  calls :: "call list"
  written :: "bytes list"
  inbox :: bytes
  eof :: bool
  event_queue :: "bytes list"
  event_taken :: "bytes list"
  event_rx_alive :: bool
  reader_phase :: reader_phase

text \<open>\<open>connect\<close>: the handshake echo must match, then the fresh client state. The echo is the
  first 14 bytes the peer sent; fewer before the end of the stream fail \<open>read_exact\<close>.\<close>

definition connect :: "bytes \<Rightarrow> bool \<Rightarrow> jdwp_error + conn" where
  "connect received at_eof =
     (if length received < 14 then Inl (Io ''early eof'')
      else if take 14 received \<noteq> HANDSHAKE then Inl (Decode (DecodeError ''bad JDWP handshake reply''))
      else Inr \<lparr>pending = Some Map.empty, next_id = 1, calls = [], written = [HANDSHAKE],
                inbox = drop 14 received, eof = at_eof, event_queue = [], event_taken = [], event_rx_alive = True,
                reader_phase = Reading\<rparr>)"

definition set_slot :: "nat \<Rightarrow> slot \<Rightarrow> conn \<Rightarrow> conn" where
  "set_slot n v s = s\<lparr>calls := (calls s)[n := (calls s ! n)\<lparr>slot_of := v\<rparr>]\<rparr>"

definition set_phase :: "nat \<Rightarrow> phase \<Rightarrow> conn \<Rightarrow> conn" where
  "set_phase n v s = s\<lparr>calls := (calls s)[n := (calls s ! n)\<lparr>phase_of := v\<rparr>]\<rparr>"

text \<open>A sender that leaves the map without being used is dropped: its receiver sees that.\<close>

definition drop_sender :: "nat option \<Rightarrow> conn \<Rightarrow> conn" where
  "drop_sender w s = (case w of None \<Rightarrow> s | Some n \<Rightarrow> set_slot n SenderDropped s)"

text \<open>\<open>command\<close> up to the end of the first locked section: take an id, make the channel, register
  the sender; with the map gone, return \<open>Closed\<close> (the sender is dropped).\<close>

definition command_register :: "u8 \<Rightarrow> u8 \<Rightarrow> bytes \<Rightarrow> conn \<Rightarrow> conn" where
  "command_register cset cmd payload s =
     (let cid = next_id s; n = length (calls s);
          c = \<lparr>call_id = cid, call_packet = command_packet cid cset cmd payload,
               slot_of = Empty, phase_of = Registered\<rparr>;
          s1 = s\<lparr>next_id := cid + 1\<rparr>
      in case pending s of
           None \<Rightarrow> s1\<lparr>calls := calls s @ [c\<lparr>slot_of := SenderDropped, phase_of := Returned (Inl Closed)\<rparr>]\<rparr>
         | Some m \<Rightarrow> drop_sender (m cid) (s1\<lparr>calls := calls s @ [c], pending := Some (m(cid \<mapsto> n))\<rparr>))"

text \<open>The write under the writer lock, successful or not.\<close>

definition command_written :: "nat \<Rightarrow> conn \<Rightarrow> conn" where
  "command_written n s = set_phase n Awaiting (s\<lparr>written := written s @ [call_packet (calls s ! n)]\<rparr>)"

definition command_write_failed :: "nat \<Rightarrow> string \<Rightarrow> conn \<Rightarrow> conn" where
  "command_write_failed n e s =
     (let cid = call_id (calls s ! n);
          s1 = (case pending s of None \<Rightarrow> s
                | Some m \<Rightarrow> drop_sender (m cid) (s\<lparr>pending := Some (m(cid := None))\<rparr>))
      in set_phase n (Returned (Inl (Io e))) s1)"

text \<open>\<open>rx.await.unwrap_or(Err(Closed))\<close>, once the channel has something to say.\<close>

definition command_await :: "nat \<Rightarrow> conn \<Rightarrow> conn" where
  "command_await n s =
     (case slot_of (calls s ! n) of
        Empty \<Rightarrow> s
      | Sent r \<Rightarrow> set_phase n (Returned r) s
      | SenderDropped \<Rightarrow> set_phase n (Returned (Inl Closed)) s)"

text \<open>One round of \<open>reader_task\<close>: a reply goes to its waiter; an event payload is queued, or
  breaks the loop when the session is gone; other commands are ignored.\<close>

definition deliver_reply :: "u32 \<Rightarrow> u16 \<Rightarrow> bytes \<Rightarrow> conn \<Rightarrow> conn" where
  "deliver_reply pid error_code payload s =
     (case pending s of None \<Rightarrow> s
      | Some m \<Rightarrow>
        (let s1 = s\<lparr>pending := Some (m(pid := None))\<rparr> in
         case m pid of None \<Rightarrow> s1
         | Some n \<Rightarrow> set_slot n (Sent (if error_code = 0 then Inr payload else Inl (Code error_code))) s1))"

definition reader_round :: "conn \<Rightarrow> conn" where
  "reader_round s =
     (case next_packet (inbox s) of
        NeedMore \<Rightarrow> (if eof s then s\<lparr>reader_phase := Broken\<rparr> else s)
      | BadLength \<Rightarrow> s\<lparr>reader_phase := Broken\<rparr>
      | Packet pid flags h9 h10 payload rest \<Rightarrow>
          if flags AND FLAG_REPLY \<noteq> 0
          then deliver_reply pid (from_be_bytes [h9, h10]) payload (s\<lparr>inbox := rest\<rparr>)
          else if h9 = EVENT_SET \<and> h10 = EVENT_COMPOSITE then
            if \<not> event_rx_alive s then s\<lparr>inbox := rest, reader_phase := Broken\<rparr>
            else if length (event_queue s) \<ge> EVENT_CHANNEL_CAP then s
            else s\<lparr>inbox := rest, event_queue := event_queue s @ [payload]\<rparr>
          else s\<lparr>inbox := rest\<rparr>)"

text \<open>The teardown after the loop: every sender of the map gets \<open>Closed\<close>, the map is gone.\<close>

definition teardown :: "conn \<Rightarrow> conn" where
  "teardown s =
     (case pending s of None \<Rightarrow> s\<lparr>reader_phase := TornDown\<rparr>
      | Some m \<Rightarrow> s\<lparr>pending := None, reader_phase := TornDown,
          calls := map (\<lambda>(n, c). if m (call_id c) = Some n then c\<lparr>slot_of := Sent (Inl Closed)\<rparr> else c)
                       (enumerate 0 (calls s))\<rparr>)"

text \<open>All interleavings of callers, reader task, peer and session.\<close>

inductive conn_step :: "conn \<Rightarrow> conn \<Rightarrow> bool" where
  Register: "conn_step s (command_register cset cmd payload s)"
| Written: "n < length (calls s) \<Longrightarrow> phase_of (calls s ! n) = Registered \<Longrightarrow> conn_step s (command_written n s)"
| WriteFailed: "n < length (calls s) \<Longrightarrow> phase_of (calls s ! n) = Registered
    \<Longrightarrow> conn_step s (command_write_failed n e s)"
| Await: "n < length (calls s) \<Longrightarrow> phase_of (calls s ! n) = Awaiting \<Longrightarrow> conn_step s (command_await n s)"
| Receive: "\<not> eof s \<Longrightarrow> conn_step s (s\<lparr>inbox := inbox s @ chunk, eof := e\<rparr>)"
| Read: "reader_phase s = Reading \<Longrightarrow> conn_step s (reader_round s)"
| Teardown: "reader_phase s = Broken \<Longrightarrow> conn_step s (teardown s)"
| TakeEvent: "event_queue s = p # q \<Longrightarrow> conn_step s (s\<lparr>event_queue := q, event_taken := event_taken s @ [p]\<rparr>)"
| SessionGone: "conn_step s (s\<lparr>event_rx_alive := False\<rparr>)"

inductive conn_reachable :: "conn \<Rightarrow> bool" where
  Connected: "connect received at_eof = Inr s \<Longrightarrow> conn_reachable s"
| Step: "conn_reachable s \<Longrightarrow> conn_step s t \<Longrightarrow> conn_reachable t"

inductive_cases conn_stepE: "conn_step s t"

section \<open>The connection invariant\<close>

text \<open>Every sender in the pending map belongs to an unanswered call with that id, and every
  unanswered call has its sender in the map.\<close>

definition conn_inv :: "conn \<Rightarrow> bool" where
  "conn_inv s \<longleftrightarrow>
     (\<forall>m cid n. pending s = Some m \<and> m cid = Some n \<longrightarrow>
        n < length (calls s) \<and> call_id (calls s ! n) = cid \<and> slot_of (calls s ! n) = Empty) \<and>
     (\<forall>n < length (calls s). slot_of (calls s ! n) = Empty \<longrightarrow>
        (\<exists>m. pending s = Some m \<and> m (call_id (calls s ! n)) = Some n)) \<and>
     (reader_phase s = TornDown \<longrightarrow> pending s = None)"

lemma calls_set_slot [simp]:
  "length (calls (set_slot n v s)) = length (calls s)"
  "pending (set_slot n v s) = pending s" "reader_phase (set_slot n v s) = reader_phase s"
  "calls (set_slot n v s) ! k =
     (if k = n \<and> n < length (calls s) then (calls s ! n)\<lparr>slot_of := v\<rparr> else calls s ! k)"
  by (auto simp: set_slot_def nth_list_update list_update_beyond)

lemma calls_set_phase [simp]:
  "length (calls (set_phase n v s)) = length (calls s)"
  "pending (set_phase n v s) = pending s" "reader_phase (set_phase n v s) = reader_phase s"
  "calls (set_phase n v s) ! k =
     (if k = n \<and> n < length (calls s) then (calls s ! n)\<lparr>phase_of := v\<rparr> else calls s ! k)"
  by (auto simp: set_phase_def nth_list_update list_update_beyond)

lemma conn_inv_mapD:
  "conn_inv s \<Longrightarrow> pending s = Some m \<Longrightarrow> m cid = Some n \<Longrightarrow>
     n < length (calls s) \<and> call_id (calls s ! n) = cid \<and> slot_of (calls s ! n) = Empty"
  unfolding conn_inv_def by blast

lemma conn_inv_emptyD:
  "conn_inv s \<Longrightarrow> n < length (calls s) \<Longrightarrow> slot_of (calls s ! n) = Empty \<Longrightarrow>
     \<exists>m. pending s = Some m \<and> m (call_id (calls s ! n)) = Some n"
  unfolding conn_inv_def by blast

text \<open>Taking a sender out of the map and filling its channel, in whatever way.\<close>

lemma conn_inv_fill:
  assumes inv: "conn_inv s" and m: "pending s = Some m" and v: "v \<noteq> Empty"
  shows "conn_inv (case m cid of None \<Rightarrow> s\<lparr>pending := Some (m(cid := None))\<rparr>
                   | Some n \<Rightarrow> set_slot n v (s\<lparr>pending := Some (m(cid := None))\<rparr>))"
proof (cases "m cid")
  case None
  then have "m(cid := None) = m" by auto
  then have "s\<lparr>pending := Some (m(cid := None))\<rparr> = s" using m by simp
  with None inv show ?thesis by simp
next
  case (Some n)
  note n = conn_inv_mapD [OF inv m Some]
  show ?thesis
    using inv m Some n v unfolding conn_inv_def by (auto simp: fun_upd_def) metis+
qed

lemma conn_inv_phase: "conn_inv s \<Longrightarrow> conn_inv (set_phase n v s)"
  unfolding conn_inv_def by (auto split: if_splits)

lemma conn_inv_append:
  assumes inv: "conn_inv s" and m: "pending s = Some m" and free: "m cid = None"
    and c: "call_id c = cid" "slot_of c = Empty"
  shows "conn_inv (s\<lparr>calls := calls s @ [c], pending := Some (m(cid \<mapsto> length (calls s))), next_id := k\<rparr>)"
  unfolding conn_inv_def
proof (intro conjI allI impI)
  let ?t = "s\<lparr>calls := calls s @ [c], pending := Some (m(cid \<mapsto> length (calls s))), next_id := k\<rparr>"
  fix m' cid' n
  assume "pending ?t = Some m' \<and> m' cid' = Some n"
  then have "(cid' = cid \<and> n = length (calls s)) \<or> (cid' \<noteq> cid \<and> m cid' = Some n)"
    by (auto split: if_splits)
  then show "n < length (calls ?t)" "call_id (calls ?t ! n) = cid'" "slot_of (calls ?t ! n) = Empty"
    using conn_inv_mapD [OF inv m, of cid' n] c by (auto simp: nth_append)
next
  let ?t = "s\<lparr>calls := calls s @ [c], pending := Some (m(cid \<mapsto> length (calls s))), next_id := k\<rparr>"
  fix n
  assume "n < length (calls ?t)" "slot_of (calls ?t ! n) = Empty"
  then show "\<exists>m'. pending ?t = Some m' \<and> m' (call_id (calls ?t ! n)) = Some n"
    using conn_inv_emptyD [OF inv, of n] m free c by (auto simp: nth_append less_Suc_eq)
next
  assume "reader_phase (s\<lparr>calls := calls s @ [c], pending := Some (m(cid \<mapsto> length (calls s))), next_id := k\<rparr>) = TornDown"
  then show "pending (s\<lparr>calls := calls s @ [c], pending := Some (m(cid \<mapsto> length (calls s))), next_id := k\<rparr>) = None"
    using inv m by (simp add: conn_inv_def)
qed

lemma conn_inv_register:
  assumes inv: "conn_inv s" shows "conn_inv (command_register cset cmd payload s)"
proof (cases "pending s")
  case None
  then show ?thesis
    using inv unfolding conn_inv_def command_register_def by (auto simp: Let_def nth_append)
next
  case (Some m)
  let ?c = "\<lparr>call_id = next_id s, call_packet = command_packet (next_id s) cset cmd payload,
               slot_of = Empty, phase_of = Registered\<rparr>"
  let ?t = "case m (next_id s) of None \<Rightarrow> s\<lparr>pending := Some (m(next_id s := None))\<rparr>
                   | Some n \<Rightarrow> set_slot n SenderDropped (s\<lparr>pending := Some (m(next_id s := None))\<rparr>)"
  have t: "conn_inv ?t" by (rule conn_inv_fill [OF inv Some]) simp
  have "command_register cset cmd payload s =
      ?t\<lparr>calls := calls ?t @ [?c], pending := Some ((m(next_id s := None))(next_id s \<mapsto> length (calls ?t))),
         next_id := next_id s + 1\<rparr>"
    using conn_inv_mapD [OF inv Some, of "next_id s"]
    by (auto simp: command_register_def Let_def Some drop_sender_def set_slot_def list_update_append nth_append
        split: option.splits)
  moreover have "pending ?t = Some (m(next_id s := None))" by (simp split: option.splits)
  ultimately show ?thesis
    using conn_inv_append [OF t, of "m(next_id s := None)" "next_id s" ?c] by simp
qed

lemma conn_inv_write_failed: "conn_inv s \<Longrightarrow> conn_inv (command_write_failed n e s)"
  using conn_inv_fill [of s _ SenderDropped "call_id (calls s ! n)"]
  by (auto simp: command_write_failed_def Let_def drop_sender_def intro!: conn_inv_phase split: option.splits)

lemma conn_inv_reply: "conn_inv s \<Longrightarrow> conn_inv (deliver_reply pid ec payload s)"
  using conn_inv_fill [of s _ "Sent (if ec = 0 then Inr payload else Inl (Code ec))" pid]
  by (auto simp: deliver_reply_def Let_def split: option.splits)

lemma conn_inv_frame:
  "conn_inv s \<Longrightarrow> calls t = calls s \<Longrightarrow> pending t = pending s
   \<Longrightarrow> reader_phase t = reader_phase s \<or> reader_phase t \<noteq> TornDown \<Longrightarrow> conn_inv t"
  unfolding conn_inv_def by auto

lemma conn_inv_round: "conn_inv s \<Longrightarrow> conn_inv (reader_round s)"
  unfolding reader_round_def
  by (auto split: incoming.splits intro!: conn_inv_reply elim: conn_inv_frame)

lemma conn_inv_teardown: "conn_inv s \<Longrightarrow> conn_inv (teardown s)"
  by (auto simp: conn_inv_def teardown_def nth_enumerate_eq split: option.splits if_splits)

lemma conn_inv_step: "conn_step s t \<Longrightarrow> conn_inv s \<Longrightarrow> conn_inv t"
proof (induction rule: conn_step.induct)
  case (Await n s)
  then show ?case by (auto simp: command_await_def intro: conn_inv_phase split: slot.splits)
next
  case (Written n s)
  then show ?case by (auto simp: command_written_def intro!: conn_inv_phase elim: conn_inv_frame)
qed (auto intro: conn_inv_register conn_inv_write_failed conn_inv_round conn_inv_teardown elim: conn_inv_frame)

lemma conn_inv_connect: "connect received at_eof = Inr s \<Longrightarrow> conn_inv s"
  by (auto simp: connect_def conn_inv_def split: if_splits)

lemma conn_inv_reachable: "conn_reachable s \<Longrightarrow> conn_inv s"
  by (induction rule: conn_reachable.induct) (auto intro: conn_inv_step conn_inv_connect)

section \<open>Properties of the connection\<close>

lemma set_slot_answer:
  "slot_of (calls (set_slot k v s) ! n) \<noteq> slot_of (calls s ! n) \<Longrightarrow> k = n \<and> n < length (calls s)"
  by (auto split: if_splits)

text \<open>An answer, once in its channel, is never replaced or taken back.\<close>

lemma fill_keeps_answer:
  assumes "conn_inv s" "pending s = Some m" "n < length (calls s)" "slot_of (calls s ! n) \<noteq> Empty"
  shows "slot_of (calls (case m cid of None \<Rightarrow> s\<lparr>pending := x\<rparr>
                   | Some k \<Rightarrow> set_slot k v (s\<lparr>pending := x\<rparr>)) ! n) = slot_of (calls s ! n)"
  using conn_inv_mapD [OF assms(1,2), of cid] assms(3,4) by (auto split: option.splits)

lemma step_calls_grow: "conn_step s t \<Longrightarrow> length (calls s) \<le> length (calls t)"
  by (induction rule: conn_step.induct)
     (auto simp: command_register_def command_written_def command_write_failed_def command_await_def
       reader_round_def deliver_reply_def teardown_def drop_sender_def Let_def
       split: option.splits slot.splits incoming.splits)

lemma step_call_id: "conn_step s t \<Longrightarrow> n < length (calls s) \<Longrightarrow> call_id (calls t ! n) = call_id (calls s ! n)"
  by (induction rule: conn_step.induct)
     (auto simp: command_register_def command_written_def command_write_failed_def command_await_def
       reader_round_def deliver_reply_def teardown_def drop_sender_def Let_def nth_append nth_enumerate_eq
       split: option.splits slot.splits incoming.splits)

definition reply_result :: "u16 \<Rightarrow> bytes \<Rightarrow> jdwp_error + bytes" where
  "reply_result code payload = (if code = 0 then Inr payload else Inl (Code code))"

lemma reply_answers:
  assumes inv: "conn_inv s" and n: "n < length (calls s)"
  shows "slot_of (calls (deliver_reply pid code payload s) ! n) = slot_of (calls s ! n)
         \<or> slot_of (calls s ! n) = Empty \<and> pid = call_id (calls s ! n)
           \<and> slot_of (calls (deliver_reply pid code payload s) ! n) = Sent (reply_result code payload)"
proof (cases "pending s")
  case None
  then show ?thesis by (simp add: deliver_reply_def)
next
  case (Some m)
  then show ?thesis
    using conn_inv_mapD [OF inv Some, of pid]
    by (auto simp: deliver_reply_def Let_def reply_result_def split: option.splits)
qed

lemma round_answers:
  assumes inv: "conn_inv s" and n: "n < length (calls s)"
  shows "slot_of (calls (reader_round s) ! n) = slot_of (calls s ! n)
         \<or> slot_of (calls s ! n) = Empty \<and> (\<exists>flags h9 h10 payload rest.
             next_packet (inbox s) = Packet (call_id (calls s ! n)) flags h9 h10 payload rest
             \<and> flags AND FLAG_REPLY \<noteq> 0
             \<and> slot_of (calls (reader_round s) ! n) = Sent (reply_result (from_be_bytes [h9, h10]) payload))"
proof (cases "next_packet (inbox s)")
  case (Packet pid flags h9 h10 payload rest)
  have "conn_inv (s\<lparr>inbox := rest\<rparr>)" using inv by (rule conn_inv_frame) simp_all
  from reply_answers [OF this, of n pid "from_be_bytes [h9, h10]" payload] n Packet
  show ?thesis by (auto simp: reader_round_def)
qed (auto simp: reader_round_def)

lemma teardown_answers:
  "n < length (calls s) \<Longrightarrow> conn_inv s \<Longrightarrow>
     slot_of (calls (teardown s) ! n)
     = (if slot_of (calls s ! n) = Empty then Sent (Inl Closed) else slot_of (calls s ! n))"
  using conn_inv_emptyD [of s n]
  by (auto simp: teardown_def nth_enumerate_eq dest: conn_inv_mapD split: option.splits)

lemma register_answers:
  assumes inv: "conn_inv s" and n: "n < length (calls s)"
  shows "slot_of (calls (command_register cset cmd payload s) ! n) = slot_of (calls s ! n)
         \<or> slot_of (calls s ! n) = Empty \<and> next_id s = call_id (calls s ! n)
           \<and> slot_of (calls (command_register cset cmd payload s) ! n) = SenderDropped"
proof (cases "pending s")
  case (Some m)
  show ?thesis
  proof (cases "m (next_id s)")
    case None
    then show ?thesis using n Some by (simp add: command_register_def Let_def drop_sender_def nth_append)
  next
    case m: (Some k)
    with conn_inv_mapD [OF inv Some m] n Some show ?thesis
      by (auto simp: command_register_def Let_def drop_sender_def nth_append)
  qed
qed (use n in \<open>simp add: command_register_def Let_def nth_append\<close>)

lemma write_failed_answers:
  assumes inv: "conn_inv s" and n: "n < length (calls s)"
  shows "slot_of (calls (command_write_failed k e s) ! n) = slot_of (calls s ! n)
         \<or> slot_of (calls s ! n) = Empty \<and> call_id (calls s ! k) = call_id (calls s ! n)
           \<and> slot_of (calls (command_write_failed k e s) ! n) = SenderDropped"
proof (cases "pending s")
  case (Some m)
  show ?thesis
  proof (cases "m (call_id (calls s ! k))")
    case None
    then show ?thesis using n Some by (simp add: command_write_failed_def Let_def drop_sender_def)
  next
    case m: (Some j)
    with conn_inv_mapD [OF inv Some m] n Some show ?thesis
      by (auto simp: command_write_failed_def Let_def drop_sender_def)
  qed
qed (use n in \<open>simp add: command_write_failed_def Let_def\<close>)

text \<open>
  C27. Answers go to the call they are for, at most once. A step of the connection leaves the
  channel of an existing call as it is, unless the channel was empty and one of the following
  happened: the reader task took a reply packet carrying this call's id, and the channel now holds
  that packet's payload or error code; the reader task tore the connection down and the channel
  holds \<open>Closed\<close>; or the sender was dropped because a call with the same (wrapped-around) id
  took its place in the pending map or failed to be written.
\<close>

theorem answers_reach_their_call:
  assumes "conn_reachable s" and "conn_step s t" and "n < length (calls s)"
  shows "slot_of (calls t ! n) = slot_of (calls s ! n) \<or>
         slot_of (calls s ! n) = Empty \<and>
         ((\<exists>flags h9 h10 payload rest.
             next_packet (inbox s) = Packet (call_id (calls s ! n)) flags h9 h10 payload rest
             \<and> flags AND FLAG_REPLY \<noteq> 0
             \<and> slot_of (calls t ! n) = Sent (reply_result (from_be_bytes [h9, h10]) payload))
          \<or> reader_phase s = Broken \<and> slot_of (calls t ! n) = Sent (Inl Closed)
          \<or> slot_of (calls t ! n) = SenderDropped
            \<and> (next_id s = call_id (calls s ! n)
               \<or> (\<exists>k e. t = command_write_failed k e s \<and> call_id (calls s ! k) = call_id (calls s ! n))))"
proof -
  have inv: "conn_inv s" using assms(1) by (rule conn_inv_reachable)
  from assms(2) show ?thesis
  proof cases
    case (Register cset cmd payload)
    with register_answers [OF inv assms(3)] show ?thesis by blast
  next
    case (WriteFailed k e)
    with write_failed_answers [OF inv assms(3), of k e] show ?thesis by blast
  next
    case Read
    with round_answers [OF inv assms(3)] show ?thesis by blast
  next
    case Teardown
    with teardown_answers [OF assms(3) inv] show ?thesis by simp
  qed (use assms(3) in \<open>auto simp: command_written_def command_await_def split: slot.splits\<close>)
qed

text \<open>
  C28. No caller of \<open>command\<close> is ever lost: in every reachable state, a call that still waits on
  an empty channel has its sender in the pending map of a reader task that has not finished; so
  once the reader task has torn the connection down, every call that is still waiting returns as
  soon as it is polled, and every new call returns \<open>Closed\<close> at once.
\<close>

theorem no_waiter_lost:
  assumes "conn_reachable s"
  shows "(\<forall>n < length (calls s). slot_of (calls s ! n) = Empty \<longrightarrow>
            reader_phase s \<noteq> TornDown \<and> (\<exists>m. pending s = Some m \<and> m (call_id (calls s ! n)) = Some n))
       \<and> (reader_phase s = TornDown \<longrightarrow>
            (\<forall>n < length (calls s). \<exists>r. phase_of (calls (command_await n s) ! n) = Returned r)
            \<and> phase_of (last (calls (command_register cset cmd payload s))) = Returned (Inl Closed))"
proof -
  have inv: "conn_inv s" using assms by (rule conn_inv_reachable)
  have down: "reader_phase s = TornDown \<Longrightarrow> pending s = None" using inv by (simp add: conn_inv_def)
  have waits: "\<exists>m. pending s = Some m \<and> m (call_id (calls s ! n)) = Some n"
    if "n < length (calls s)" "slot_of (calls s ! n) = Empty" for n
    using conn_inv_emptyD [OF inv that] .
  then have "\<exists>r. phase_of (calls (command_await n s) ! n) = Returned r"
    if "reader_phase s = TornDown" "n < length (calls s)" for n
    using that down by (cases "slot_of (calls s ! n)") (auto simp: command_await_def)
  moreover have "phase_of (last (calls (command_register cset cmd payload s))) = Returned (Inl Closed)"
    if "reader_phase s = TornDown"
    using down [OF that] by (simp add: command_register_def Let_def)
  ultimately show ?thesis using down waits by auto
qed

text \<open>A connection just set up, with one registered call, for the witnesses.\<close>

definition sample_conn :: conn where
  "sample_conn = command_register VM_SET VM_ID_SIZES []
     \<lparr>pending = Some Map.empty, next_id = 1, calls = [], written = [HANDSHAKE], inbox = [], eof = True,
      event_queue = [], event_taken = [], event_rx_alive = True, reader_phase = Reading\<rparr>"

lemma sample_conn_simps [simp]:
  "length (calls sample_conn) = 1" "phase_of (calls sample_conn ! 0) = Registered"
  "slot_of (calls sample_conn ! 0) = Empty" "reader_phase sample_conn = Reading"
  "inbox sample_conn = []" "eof sample_conn" "pending sample_conn = Some [1 \<mapsto> 0]"
  by (simp_all add: sample_conn_def command_register_def Let_def drop_sender_def)

lemma sample_conn_reachable: "conn_reachable sample_conn"
proof -
  have "connect HANDSHAKE True = Inr \<lparr>pending = Some Map.empty, next_id = 1, calls = [],
      written = [HANDSHAKE], inbox = [], eof = True, event_queue = [], event_taken = [],
      event_rx_alive = True, reader_phase = Reading\<rparr>"
    by (simp add: connect_def HANDSHAKE_def)
  from conn_reachable.Step [OF conn_reachable.Connected [OF this] conn_step.Register]
  show ?thesis by (simp add: sample_conn_def)
qed

lemma sample_broken:
  "conn_reachable (reader_round sample_conn)" "reader_phase (reader_round sample_conn) = Broken"
  "calls (reader_round sample_conn) = calls sample_conn"
  using conn_reachable.Step [OF sample_conn_reachable conn_step.Read]
  by (simp_all add: reader_round_def next_packet_def)

lemma answers_reach_their_call_witness:
  "slot_of (calls (teardown (reader_round sample_conn)) ! 0) \<noteq> Sent (Inr [])"
  using answers_reach_their_call [OF sample_broken(1) conn_step.Teardown [OF sample_broken(2)], of 0]
  by (auto simp: sample_broken reader_round_def next_packet_def)

lemma no_waiter_lost_witness:
  "reader_phase (teardown (reader_round sample_conn)) = TornDown
   \<and> (\<exists>r. phase_of (calls (command_await 0 (teardown (reader_round sample_conn))) ! 0) = Returned r)"
proof -
  have down: "reader_phase (teardown (reader_round sample_conn)) = TornDown"
    "length (calls (teardown (reader_round sample_conn))) = 1"
    by (simp_all add: teardown_def reader_round_def next_packet_def)
  with no_waiter_lost [OF conn_reachable.Step [OF sample_broken(1) conn_step.Teardown [OF sample_broken(2)]]]
  show ?thesis by simp
qed

lemma take_u32_to_be [simp]: "take 4 (u32_to_be v @ xs) = u32_to_be v" "drop 4 (u32_to_be v @ xs) = xs"
  by (simp_all add: u32_to_be_def)

lemma length_u32_to_be [simp]: "length (u32_to_be v) = 4"
  by (simp add: u32_to_be_def)

lemma header_length_word:
  assumes "n \<le> 16777205"
  shows "unat (HEADER_LEN + of_nat n) = 11 + n" "unat (HEADER_LEN + of_nat n - HEADER_LEN) = n"
  using assms by (simp_all add: HEADER_LEN_def unat_word_ariths unat_of_nat)

text \<open>
  Framing: the packet \<open>command\<close> writes for a payload of up to 16 MiB less the header is cut
  out of the stream by the framing rule of the other side exactly as it was put in (id, flags,
  command set, command, payload), with the following bytes left for the next packet; and a packet
  that is cut out of a stream at all never has a payload over that bound, whatever its header says.
\<close>

theorem packet_framing:
  "(length payload + 11 \<le> unat MAX_PACKET_LEN \<longrightarrow>
      next_packet (command_packet cid cset cmd payload @ rest) = Packet cid 0 cset cmd payload rest)
   \<and> (next_packet bs = Packet pid flags h9 h10 p rest' \<longrightarrow>
      length p + 11 \<le> unat MAX_PACKET_LEN \<and> length bs = 11 + length p + length rest' \<and> drop (11 + length p) bs = rest')"
proof (intro conjI impI)
  assume "length payload + 11 \<le> unat MAX_PACKET_LEN"
  then have small: "length payload \<le> 16777205" by (simp add: MAX_PACKET_LEN_def)
  let ?bs = "command_packet cid cset cmd payload @ rest"
  let ?len = "HEADER_LEN + of_nat (length payload) :: u32"
  have "take 4 ?bs = u32_to_be ?len" "take 4 (drop 4 ?bs) = u32_to_be cid"
    "drop 11 ?bs = payload @ rest" "?bs ! 8 = 0" "?bs ! 9 = cset" "?bs ! 10 = cmd" "11 \<le> length ?bs"
    by (simp_all add: command_packet_def nth_append)
  moreover have "HEADER_LEN \<le> ?len" "?len \<le> MAX_PACKET_LEN"
    using header_length_word [OF small] small
    by (simp_all add: word_le_nat_alt MAX_PACKET_LEN_def) (simp add: HEADER_LEN_def)
  ultimately show "next_packet ?bs = Packet cid 0 cset cmd payload rest"
    using header_length_word [OF small] by (simp add: next_packet_def from_be_to_be_u32)
next
  assume p: "next_packet bs = Packet pid flags h9 h10 p rest'"
  define len where "len = (from_be_bytes (take 4 bs) :: u32)"
  have len: "HEADER_LEN \<le> len" "len \<le> MAX_PACKET_LEN" and p': "length bs \<ge> 11 + unat (len - HEADER_LEN)"
    "p = take (unat (len - HEADER_LEN)) (drop 11 bs)" "rest' = drop (unat (len - HEADER_LEN)) (drop 11 bs)"
    using p by (auto simp: next_packet_def Let_def len_def split: if_splits)
  have "unat (len - HEADER_LEN) = unat len - 11"
    using len(1) by (simp add: unat_sub HEADER_LEN_def)
  moreover have "11 \<le> unat len" "unat len \<le> unat MAX_PACKET_LEN"
    using len by (simp_all add: word_le_nat_alt HEADER_LEN_def)
  ultimately show "length p + 11 \<le> unat MAX_PACKET_LEN" "length bs = 11 + length p + length rest'"
    "drop (11 + length p) bs = rest'"
    using p' by (auto simp: add.commute)
qed

lemma packet_framing_witness:
  "next_packet (command_packet 7 VM_SET VM_EXIT [0, 0, 0, 1] @ [9]) = Packet 7 0 VM_SET VM_EXIT [0, 0, 0, 1] [9]"
  using packet_framing [of "[0, 0, 0, 1]" 7 VM_SET VM_EXIT "[9]"] by (simp add: MAX_PACKET_LEN_def)

section \<open>Typed commands\<close>

type_synonym 'w transport = "u8 \<Rightarrow> u8 \<Rightarrow> bytes \<Rightarrow> ('w, jdwp_error, bytes) fallible"

record method_entry =
  me_id :: u64
  me_name :: string
  me_signature :: string
  me_mod_bits :: u32

record field_entry =
  fe_id :: u64
  fe_name :: string
  fe_signature :: string
  fe_mod_bits :: u32

record line_table =
  lt_start :: int
  lt_end :: int
  lt_lines :: "(u64 \<times> u32) list"

record variable_slot =
  vs_code_index :: u64
  vs_name :: string
  vs_signature :: string
  vs_length :: u32
  vs_slot :: u32

record frame_entry =
  fr_frame_id :: u64
  fr_location :: location

record class_entry =
  ce_type_tag :: u8
  ce_type_id :: u64
  ce_signature :: string
  ce_status :: u32

datatype modifier =
    Count u32
  | ClassMatch string
  | LocationOnly location
  | ExceptionOnly bool bool
  | StepMod u64 u32 u32

text \<open>Decode a reply payload with a reader of its own; what is left of it is ignored.\<close>

definition decode :: "bytes \<Rightarrow> 'a read \<Rightarrow> ('w, jdwp_error, 'a) fallible" where
  "decode payload m = (case fst (m (reader_new payload)) of Inl e \<Rightarrow> err (Decode e) | Inr a \<Rightarrow> ok a)"

text \<open>A count, then that many elements.\<close>

definition read_list :: "'a read \<Rightarrow> 'a list read" where
  "read_list m = and_then read_u32 (\<lambda>count. repeat_n (unat count) m)"

definition vm_new :: "'w transport \<Rightarrow> ('w, jdwp_error, id_sizes) fallible" where
  "vm_new tr = and_then (tr VM_SET VM_ID_SIZES []) (\<lambda>payload.
     case parse_id_sizes payload of Inl e \<Rightarrow> err (Decode e) | Inr z \<Rightarrow> ok z)"

definition vm_resume :: "'w transport \<Rightarrow> ('w, jdwp_error, unit) fallible" where
  "vm_resume tr = and_then (tr VM_SET VM_RESUME []) (\<lambda>_. ok ())"

definition vm_suspend :: "'w transport \<Rightarrow> ('w, jdwp_error, unit) fallible" where
  "vm_suspend tr = and_then (tr VM_SET VM_SUSPEND []) (\<lambda>_. ok ())"

definition vm_exit :: "'w transport \<Rightarrow> u32 \<Rightarrow> ('w, jdwp_error, unit) fallible" where
  "vm_exit tr code = and_then (tr VM_SET VM_EXIT (write_u32 code)) (\<lambda>_. ok ())"

definition vm_dispose :: "'w transport \<Rightarrow> ('w, jdwp_error, unit) fallible" where
  "vm_dispose tr = and_then (tr VM_SET VM_DISPOSE []) (\<lambda>_. ok ())"

definition vm_all_threads :: "'w transport \<Rightarrow> id_sizes \<Rightarrow> ('w, jdwp_error, u64 list) fallible" where
  "vm_all_threads tr z = and_then (tr VM_SET VM_ALL_THREADS []) (\<lambda>payload.
     decode payload (read_list (read_id (sz_object z))))"

definition read_class :: "id_sizes \<Rightarrow> class_entry read" where
  "read_class z = and_then read_u8 (\<lambda>t. and_then (read_id (sz_reference_type z)) (\<lambda>i.
     and_then read_string (\<lambda>s. and_then read_u32 (\<lambda>st.
       ok \<lparr>ce_type_tag = t, ce_type_id = i, ce_signature = s, ce_status = st\<rparr>))))"

definition vm_all_classes :: "'w transport \<Rightarrow> id_sizes \<Rightarrow> ('w, jdwp_error, class_entry list) fallible" where
  "vm_all_classes tr z = and_then (tr VM_SET VM_ALL_CLASSES []) (\<lambda>payload.
     decode payload (read_list (read_class z)))"

definition read_class_of :: "id_sizes \<Rightarrow> string \<Rightarrow> class_entry read" where
  "read_class_of z sig = and_then read_u8 (\<lambda>t. and_then (read_id (sz_reference_type z)) (\<lambda>i.
     and_then read_u32 (\<lambda>st.
       ok \<lparr>ce_type_tag = t, ce_type_id = i, ce_signature = sig, ce_status = st\<rparr>)))"

definition vm_classes_by_signature ::
  "'w transport \<Rightarrow> id_sizes \<Rightarrow> string \<Rightarrow> ('w, jdwp_error, class_entry list) fallible" where
  "vm_classes_by_signature tr z sig =
     and_then (tr VM_SET VM_CLASSES_BY_SIGNATURE (write_string sig)) (\<lambda>payload.
       decode payload (read_list (read_class_of z sig)))"

definition vm_type_signature :: "'w transport \<Rightarrow> id_sizes \<Rightarrow> u64 \<Rightarrow> ('w, jdwp_error, string) fallible" where
  "vm_type_signature tr z type_id =
     and_then (tr RT_SET RT_SIGNATURE (write_id (sz_reference_type z) type_id)) (\<lambda>payload.
       decode payload read_string)"

definition vm_source_file :: "'w transport \<Rightarrow> id_sizes \<Rightarrow> u64 \<Rightarrow> ('w, jdwp_error, string) fallible" where
  "vm_source_file tr z type_id =
     and_then (tr RT_SET RT_SOURCE_FILE (write_id (sz_reference_type z) type_id)) (\<lambda>payload.
       decode payload read_string)"

definition read_method :: "id_sizes \<Rightarrow> method_entry read" where
  "read_method z = and_then (read_id (sz_method z)) (\<lambda>i. and_then read_string (\<lambda>n.
     and_then read_string (\<lambda>s. and_then read_u32 (\<lambda>b.
       ok \<lparr>me_id = i, me_name = n, me_signature = s, me_mod_bits = b\<rparr>))))"

definition vm_methods :: "'w transport \<Rightarrow> id_sizes \<Rightarrow> u64 \<Rightarrow> ('w, jdwp_error, method_entry list) fallible" where
  "vm_methods tr z type_id =
     and_then (tr RT_SET RT_METHODS (write_id (sz_reference_type z) type_id)) (\<lambda>payload.
       decode payload (read_list (read_method z)))"

definition read_field :: "id_sizes \<Rightarrow> field_entry read" where
  "read_field z = and_then (read_id (sz_field z)) (\<lambda>i. and_then read_string (\<lambda>n.
     and_then read_string (\<lambda>s. and_then read_u32 (\<lambda>b.
       ok \<lparr>fe_id = i, fe_name = n, fe_signature = s, fe_mod_bits = b\<rparr>))))"

definition vm_fields :: "'w transport \<Rightarrow> id_sizes \<Rightarrow> u64 \<Rightarrow> ('w, jdwp_error, field_entry list) fallible" where
  "vm_fields tr z type_id =
     and_then (tr RT_SET RT_FIELDS (write_id (sz_reference_type z) type_id)) (\<lambda>payload.
       decode payload (read_list (read_field z)))"

definition vm_superclass :: "'w transport \<Rightarrow> id_sizes \<Rightarrow> u64 \<Rightarrow> ('w, jdwp_error, u64) fallible" where
  "vm_superclass tr z cls =
     and_then (tr CT_SET CT_SUPERCLASS (write_id (sz_reference_type z) cls)) (\<lambda>payload.
       decode payload (read_id (sz_reference_type z)))"

definition read_line :: "(u64 \<times> u32) read" where
  "read_line = and_then read_u64 (\<lambda>i. and_then read_u32 (\<lambda>l. ok (i, l)))"

definition read_line_table :: "line_table read" where
  "read_line_table = and_then read_u64 (\<lambda>st. and_then read_u64 (\<lambda>en.
     and_then (read_list read_line) (\<lambda>ls. ok \<lparr>lt_start = sint st, lt_end = sint en, lt_lines = ls\<rparr>)))"

definition vm_line_table :: "'w transport \<Rightarrow> id_sizes \<Rightarrow> u64 \<Rightarrow> u64 \<Rightarrow> ('w, jdwp_error, line_table) fallible" where
  "vm_line_table tr z cls mid =
     and_then (tr METHOD_SET METHOD_LINE_TABLE
         (write_id (sz_reference_type z) cls @ write_id (sz_method z) mid)) (\<lambda>payload.
       decode payload read_line_table)"

definition read_slot :: "variable_slot read" where
  "read_slot = and_then read_u64 (\<lambda>c. and_then read_string (\<lambda>n. and_then read_string (\<lambda>s.
     and_then read_u32 (\<lambda>l. and_then read_u32 (\<lambda>k.
       ok \<lparr>vs_code_index = c, vs_name = n, vs_signature = s, vs_length = l, vs_slot = k\<rparr>)))))"

definition vm_variable_table ::
  "'w transport \<Rightarrow> id_sizes \<Rightarrow> u64 \<Rightarrow> u64 \<Rightarrow> ('w, jdwp_error, variable_slot list) fallible" where
  "vm_variable_table tr z cls mid =
     and_then (tr METHOD_SET METHOD_VARIABLE_TABLE
         (write_id (sz_reference_type z) cls @ write_id (sz_method z) mid)) (\<lambda>payload.
       decode payload (and_then read_u32 (\<lambda>_. read_list read_slot)))"

definition vm_thread_name :: "'w transport \<Rightarrow> id_sizes \<Rightarrow> u64 \<Rightarrow> ('w, jdwp_error, string) fallible" where
  "vm_thread_name tr z thread =
     and_then (tr TR_SET TR_NAME (write_id (sz_object z) thread)) (\<lambda>payload. decode payload read_string)"

definition vm_frame_count :: "'w transport \<Rightarrow> id_sizes \<Rightarrow> u64 \<Rightarrow> ('w, jdwp_error, u32) fallible" where
  "vm_frame_count tr z thread =
     and_then (tr TR_SET TR_FRAME_COUNT (write_id (sz_object z) thread)) (\<lambda>payload. decode payload read_u32)"

definition read_frame :: "id_sizes \<Rightarrow> frame_entry read" where
  "read_frame z = and_then (read_id (sz_frame z)) (\<lambda>f. and_then (read_location z) (\<lambda>l.
     ok \<lparr>fr_frame_id = f, fr_location = l\<rparr>))"

text \<open>\<open>length: i32\<close> goes out as its two's complement.\<close>

definition vm_frames ::
  "'w transport \<Rightarrow> id_sizes \<Rightarrow> u64 \<Rightarrow> u32 \<Rightarrow> int \<Rightarrow> ('w, jdwp_error, frame_entry list) fallible" where
  "vm_frames tr z thread start len =
     and_then (tr TR_SET TR_FRAMES
         (write_id (sz_object z) thread @ write_u32 start @ write_u32 (word_of_int len))) (\<lambda>payload.
       decode payload (read_list (read_frame z)))"

definition vm_stack_values ::
  "'w transport \<Rightarrow> id_sizes \<Rightarrow> u64 \<Rightarrow> u64 \<Rightarrow> (u32 \<times> u8) list \<Rightarrow> ('w, jdwp_error, jvalue list) fallible" where
  "vm_stack_values tr z thread frame slots =
     and_then (tr SF_SET SF_GET_VALUES
         (write_id (sz_object z) thread @ write_id (sz_frame z) frame
          @ write_u32 (of_nat (length slots))
          @ concat (map (\<lambda>(slot, t). write_u32 slot @ write_u8 t) slots))) (\<lambda>payload.
       decode payload (read_list (read_tagged_value z)))"

definition vm_this_object :: "'w transport \<Rightarrow> id_sizes \<Rightarrow> u64 \<Rightarrow> u64 \<Rightarrow> ('w, jdwp_error, jvalue) fallible" where
  "vm_this_object tr z thread frame =
     and_then (tr SF_SET SF_THIS_OBJECT (write_id (sz_object z) thread @ write_id (sz_frame z) frame))
       (\<lambda>payload. decode payload (read_tagged_value z))"

definition vm_object_type :: "'w transport \<Rightarrow> id_sizes \<Rightarrow> u64 \<Rightarrow> ('w, jdwp_error, u8 \<times> u64) fallible" where
  "vm_object_type tr z obj =
     and_then (tr OR_SET OR_REFERENCE_TYPE (write_id (sz_object z) obj)) (\<lambda>payload.
       decode payload (and_then read_u8 (\<lambda>t. and_then (read_id (sz_reference_type z)) (\<lambda>i. ok (t, i)))))"

definition vm_object_values ::
  "'w transport \<Rightarrow> id_sizes \<Rightarrow> u64 \<Rightarrow> u64 list \<Rightarrow> ('w, jdwp_error, jvalue list) fallible" where
  "vm_object_values tr z obj field_ids =
     and_then (tr OR_SET OR_GET_VALUES
         (write_id (sz_object z) obj @ write_u32 (of_nat (length field_ids))
          @ concat (map (write_id (sz_field z)) field_ids))) (\<lambda>payload.
       decode payload (read_list (read_tagged_value z)))"

definition vm_string_value :: "'w transport \<Rightarrow> id_sizes \<Rightarrow> u64 \<Rightarrow> ('w, jdwp_error, string) fallible" where
  "vm_string_value tr z obj =
     and_then (tr SR_SET SR_VALUE (write_id (sz_object z) obj)) (\<lambda>payload. decode payload read_value_string)"

definition vm_array_length :: "'w transport \<Rightarrow> id_sizes \<Rightarrow> u64 \<Rightarrow> ('w, jdwp_error, u32) fallible" where
  "vm_array_length tr z obj =
     and_then (tr AR_SET AR_LENGTH (write_id (sz_object z) obj)) (\<lambda>payload.
       decode payload (and_then read_u32 (\<lambda>n. ok (word_of_int (max (sint n) 0)))))"

text \<open>An array region: primitive elements arrive untagged, object elements tagged.\<close>

definition read_region :: "id_sizes \<Rightarrow> jvalue list read" where
  "read_region z = and_then read_u8 (\<lambda>t.
     read_list (if t \<in> object_tags then read_tagged_value z else read_untagged_value t z))"

definition vm_array_values ::
  "'w transport \<Rightarrow> id_sizes \<Rightarrow> u64 \<Rightarrow> u32 \<Rightarrow> u32 \<Rightarrow> ('w, jdwp_error, jvalue list) fallible" where
  "vm_array_values tr z obj first len =
     and_then (tr AR_SET AR_GET_VALUES (write_id (sz_object z) obj @ write_u32 first @ write_u32 len))
       (\<lambda>payload. decode payload (read_region z))"

fun write_modifier :: "id_sizes \<Rightarrow> modifier \<Rightarrow> bytes" where
  "write_modifier z (Count n) = write_u8 MOD_COUNT @ write_u32 n"
| "write_modifier z (ClassMatch pattern) = write_u8 MOD_CLASS_MATCH @ write_string pattern"
| "write_modifier z (LocationOnly loc) = write_u8 MOD_LOCATION_ONLY @ write_location z loc"
| "write_modifier z (ExceptionOnly caught uncaught) =
     write_u8 MOD_EXCEPTION_ONLY @ write_id (sz_reference_type z) 0
     @ write_u8 (if caught then 1 else 0) @ write_u8 (if uncaught then 1 else 0)"
| "write_modifier z (StepMod thread sz depth) =
     write_u8 MOD_STEP @ write_id (sz_object z) thread @ write_u32 sz @ write_u32 depth"

definition vm_event_request_set ::
  "'w transport \<Rightarrow> id_sizes \<Rightarrow> u8 \<Rightarrow> u8 \<Rightarrow> modifier list \<Rightarrow> ('w, jdwp_error, u32) fallible" where
  "vm_event_request_set tr z kind policy modifiers =
     and_then (tr ER_SET ER_CMD_SET
         (write_u8 kind @ write_u8 policy @ write_u32 (of_nat (length modifiers))
          @ concat (map (write_modifier z) modifiers))) (\<lambda>payload.
       decode payload read_u32)"

definition vm_event_request_clear :: "'w transport \<Rightarrow> u8 \<Rightarrow> u32 \<Rightarrow> ('w, jdwp_error, unit) fallible" where
  "vm_event_request_clear tr kind request_id =
     and_then (tr ER_SET ER_CMD_CLEAR (write_u8 kind @ write_u32 request_id)) (\<lambda>_. ok ())"

section \<open>Properties of the typed commands\<close>

lemma decode_reads: "reads m bs a \<Longrightarrow> decode (bs @ post) m = ok a"
  by (simp add: decode_def reads_new)

lemma decode_reads_all: "reads m bs a \<Longrightarrow> decode bs m = ok a"
  using decode_reads [of m bs a "[]"] by simp

text \<open>The reply format of the list commands: a count, then the elements.\<close>

definition write_list :: "('a \<Rightarrow> bytes) \<Rightarrow> 'a list \<Rightarrow> bytes" where
  "write_list wr xs = write_u32 (of_nat (length xs)) @ concat (map wr xs)"

context wire_codec
begin

lemma read_write_list:
  assumes "list_all fits xs" "length xs < 2 ^ 32"
  shows "reads (read_list rd) (write_list wr xs) xs"
proof -
  have n: "unat (of_nat (length xs) :: u32) = length xs" using assms(2) by (simp add: unat_of_nat)
  show ?thesis
    unfolding read_list_def write_list_def
    by (rule u32_codec.step) (simp_all add: n read_write_many assms(1))
qed

end

definition write_class :: "id_sizes \<Rightarrow> class_entry \<Rightarrow> bytes" where
  "write_class z c = write_u8 (ce_type_tag c) @ write_id (sz_reference_type z) (ce_type_id c)
     @ write_string (ce_signature c) @ write_u32 (ce_status c)"

definition class_fits :: "id_sizes \<Rightarrow> class_entry \<Rightarrow> bool" where
  "class_fits z c = (id_fits (sz_reference_type z) (ce_type_id c) \<and> string_fits (ce_signature c))"

definition write_method :: "id_sizes \<Rightarrow> method_entry \<Rightarrow> bytes" where
  "write_method z m = write_id (sz_method z) (me_id m) @ write_string (me_name m)
     @ write_string (me_signature m) @ write_u32 (me_mod_bits m)"

definition method_fits :: "id_sizes \<Rightarrow> method_entry \<Rightarrow> bool" where
  "method_fits z m = (id_fits (sz_method z) (me_id m) \<and> string_fits (me_name m) \<and> string_fits (me_signature m))"

definition write_field :: "id_sizes \<Rightarrow> field_entry \<Rightarrow> bytes" where
  "write_field z f = write_id (sz_field z) (fe_id f) @ write_string (fe_name f)
     @ write_string (fe_signature f) @ write_u32 (fe_mod_bits f)"

definition field_fits :: "id_sizes \<Rightarrow> field_entry \<Rightarrow> bool" where
  "field_fits z f = (id_fits (sz_field z) (fe_id f) \<and> string_fits (fe_name f) \<and> string_fits (fe_signature f))"

definition write_line :: "u64 \<times> u32 \<Rightarrow> bytes" where
  "write_line p = write_u64 (fst p) @ write_u32 (snd p)"

definition write_line_table :: "line_table \<Rightarrow> bytes" where
  "write_line_table t = write_u64 (word_of_int (lt_start t)) @ write_u64 (word_of_int (lt_end t))
     @ write_list write_line (lt_lines t)"

definition line_table_fits :: "line_table \<Rightarrow> bool" where
  "line_table_fits t = (length (lt_lines t) < 2 ^ 32 \<and> - (2 ^ 63) \<le> lt_start t \<and> lt_start t < 2 ^ 63
     \<and> - (2 ^ 63) \<le> lt_end t \<and> lt_end t < 2 ^ 63)"

definition write_slot :: "variable_slot \<Rightarrow> bytes" where
  "write_slot v = write_u64 (vs_code_index v) @ write_string (vs_name v) @ write_string (vs_signature v)
     @ write_u32 (vs_length v) @ write_u32 (vs_slot v)"

definition slot_fits :: "variable_slot \<Rightarrow> bool" where
  "slot_fits v = (string_fits (vs_name v) \<and> string_fits (vs_signature v))"

definition write_frame :: "id_sizes \<Rightarrow> frame_entry \<Rightarrow> bytes" where
  "write_frame z f = write_id (sz_frame z) (fr_frame_id f) @ write_location z (fr_location f)"

definition frame_fits :: "id_sizes \<Rightarrow> frame_entry \<Rightarrow> bool" where
  "frame_fits z f = (id_fits (sz_frame z) (fr_frame_id f) \<and> location_fits z (fr_location f))"

interpretation class_codec: wire_codec "read_class z" "write_class z" "class_fits z" for z
  unfolding read_class_def write_class_def class_fits_def
  by unfold_locales (auto intro!: more_steps more_finals)

interpretation method_codec: wire_codec "read_method z" "write_method z" "method_fits z" for z
  unfolding read_method_def write_method_def method_fits_def
  by unfold_locales (auto intro!: more_steps more_finals)

interpretation field_codec: wire_codec "read_field z" "write_field z" "field_fits z" for z
  unfolding read_field_def write_field_def field_fits_def
  by unfold_locales (auto intro!: more_steps more_finals)

interpretation line_codec: wire_codec read_line write_line "\<lambda>_. True"
  unfolding read_line_def write_line_def
  by unfold_locales (auto intro!: more_steps more_finals)

interpretation slot_codec: wire_codec read_slot write_slot slot_fits
  unfolding read_slot_def write_slot_def slot_fits_def
  by unfold_locales (auto intro!: more_steps more_finals)

interpretation frame_codec: wire_codec "read_frame z" "write_frame z" "frame_fits z" for z
  unfolding read_frame_def write_frame_def frame_fits_def
  by unfold_locales (auto intro!: more_steps more_finals)

lemma reads_line_table: "line_table_fits t \<Longrightarrow> reads read_line_table (write_line_table t) t"
  unfolding read_line_table_def write_line_table_def line_table_fits_def
  by (intro more_steps reads_then_ok [OF line_codec.read_write_list])
     (auto simp: sint_word_of_int list_all_iff)

text \<open>
  The typed commands decode what a conforming VM replies: when the debuggee answers the
  command with the JDWP encoding of a list of classes, methods, fields, local-variable slots or
  frames, of a line table, or of values, the caller gets exactly that data (for every identifier
  size the VM may have announced), and nothing else of the world changed.
\<close>

theorem vm_replies_roundtrip:
  "(list_all (class_fits z) cs \<and> length cs < 2 ^ 32
      \<and> tr VM_SET VM_ALL_CLASSES [] w = (Inr (write_list (write_class z) cs), w')
      \<longrightarrow> vm_all_classes tr z w = (Inr cs, w'))
   \<and> (list_all (method_fits z) ms \<and> length ms < 2 ^ 32
      \<and> tr RT_SET RT_METHODS (write_id (sz_reference_type z) cls) w = (Inr (write_list (write_method z) ms), w')
      \<longrightarrow> vm_methods tr z cls w = (Inr ms, w'))
   \<and> (list_all (field_fits z) fs \<and> length fs < 2 ^ 32
      \<and> tr RT_SET RT_FIELDS (write_id (sz_reference_type z) cls) w = (Inr (write_list (write_field z) fs), w')
      \<longrightarrow> vm_fields tr z cls w = (Inr fs, w'))
   \<and> (line_table_fits t
      \<and> tr METHOD_SET METHOD_LINE_TABLE (write_id (sz_reference_type z) cls @ write_id (sz_method z) mid) w
          = (Inr (write_line_table t), w')
      \<longrightarrow> vm_line_table tr z cls mid w = (Inr t, w'))
   \<and> (list_all slot_fits ss \<and> length ss < 2 ^ 32
      \<and> tr METHOD_SET METHOD_VARIABLE_TABLE (write_id (sz_reference_type z) cls @ write_id (sz_method z) mid) w
          = (Inr (write_u32 argc @ write_list write_slot ss), w')
      \<longrightarrow> vm_variable_table tr z cls mid w = (Inr ss, w'))
   \<and> (list_all (frame_fits z) frs \<and> length frs < 2 ^ 32
      \<and> tr TR_SET TR_FRAMES (write_id (sz_object z) th @ write_u32 st @ write_u32 (word_of_int len)) w
          = (Inr (write_list (write_frame z) frs), w')
      \<longrightarrow> vm_frames tr z th st len w = (Inr frs, w'))
   \<and> (list_all (value_fits z) vs \<and> length vs < 2 ^ 32
      \<and> tr OR_SET OR_GET_VALUES (write_id (sz_object z) obj @ write_list (write_id (sz_field z)) ids) w
          = (Inr (write_list (encode_value z) vs), w')
      \<longrightarrow> vm_object_values tr z obj ids w = (Inr vs, w'))"
  unfolding vm_all_classes_def vm_methods_def vm_fields_def vm_line_table_def vm_variable_table_def
    vm_frames_def vm_object_values_def
  by (intro conjI impI; elim conjE)
     (simp_all add: and_then_cong_Inr ok_def write_list_def [of "write_id _"]
        decode_reads_all [OF class_codec.read_write_list] decode_reads_all [OF method_codec.read_write_list]
        decode_reads_all [OF field_codec.read_write_list] decode_reads_all [OF reads_line_table]
        decode_reads_all [OF u32_codec.step [OF slot_codec.read_write_list]]
        decode_reads_all [OF frame_codec.read_write_list] decode_reads_all [OF value_codec.read_write_list])

lemma vm_replies_roundtrip_witness:
  "vm_line_table (\<lambda>_ _ _. ok (write_line_table \<lparr>lt_start = 0, lt_end = 9, lt_lines = [(0, 3), (4, 5)]\<rparr>))
     \<lparr>sz_field = 8, sz_method = 8, sz_object = 8, sz_reference_type = 8, sz_frame = 8\<rparr> 42 7 ()
   = (Inr \<lparr>lt_start = 0, lt_end = 9, lt_lines = [(0, 3), (4, 5)]\<rparr>, ())"
  using vm_replies_roundtrip
    [where t = "\<lparr>lt_start = 0, lt_end = 9, lt_lines = [(0, 3), (4, 5)]\<rparr>" and w = "()" and w' = "()"
     and z = "\<lparr>sz_field = 8, sz_method = 8, sz_object = 8, sz_reference_type = 8, sz_frame = 8\<rparr>"
     and cls = 42 and mid = 7
     and tr = "\<lambda>_ _ _. ok (write_line_table \<lparr>lt_start = 0, lt_end = 9, lt_lines = [(0, 3), (4, 5)]\<rparr>)"]
  by (simp add: ok_def line_table_fits_def)

text \<open>Every list reply costs the debuggee bytes for each element.\<close>

lemma forward_list [reader_ok]: "advances forward m \<Longrightarrow> advances forward (read_list m)"
  unfolding read_list_def by (intro reader_ok)

lemma decode_InrE:
  assumes "decode payload m w = (Inr a, w')"
  obtains r' where "m (reader_new payload) = (Inr a, r')" "w' = w"
proof (cases "m (reader_new payload)")
  case (Pair x r')
  with assms that show ?thesis by (cases x) (auto simp: decode_def err_def)
qed

lemma read_list_bound:
  assumes "consumes c m" "advances forward m" "read_list m (reader_new payload) = (Inr xs, r')"
  shows "4 + c * length xs \<le> length payload"
proof -
  obtain count t where count: "read_u32 (reader_new payload) = (Inr count, t)"
    and rep: "repeat_n (unat count) m t = (Inr xs, r')"
    using assms(3) unfolding read_list_def by (rule and_then_InrE)
  have "consumes (4 + c * unat count) (and_then read_u32 (\<lambda>_. repeat_n (unat count) m))"
    by (intro consumes_then consumes_u32 consumes_repeat assms(1))
  moreover have "advances forward (and_then read_u32 (\<lambda>_. repeat_n (unat count) m))"
    by (intro reader_ok assms(2))
  moreover have "and_then read_u32 (\<lambda>_. repeat_n (unat count) m) (reader_new payload) = (Inr xs, r')"
    using count rep by (simp add: and_then_cong_Inr)
  ultimately have "4 + c * unat count \<le> length payload" by (rule consumed_within)
  with repeat_n_length [OF rep] show ?thesis by simp
qed

lemma consumes_class: "consumes 1 (read_class z)"
  unfolding read_class_def by (intro consumes_then_forward consumes_u8 reader_ok)

lemma consumes_string: "consumes 4 read_string"
  unfolding read_string_def Let_def by (intro consumes_then_forward consumes_u32 reader_ok)

lemma consumes_after:
  assumes "advances forward m" "\<And>a. consumes c (h a)" shows "consumes c (and_then m h)"
  using consumes_then [OF consumes_forward [OF assms(1)] assms(2)] by simp

lemma consumes_method: "consumes 4 (read_method z)"
  unfolding read_method_def
  by (intro consumes_after [where m = "read_id _"] consumes_then_forward consumes_string reader_ok)

lemma consumes_field: "consumes 4 (read_field z)"
  unfolding read_field_def
  by (intro consumes_after [where m = "read_id _"] consumes_then_forward consumes_string reader_ok)

lemma consumes_slot: "consumes 4 read_slot"
  unfolding read_slot_def
  by (intro consumes_after [where m = read_u64] consumes_then_forward consumes_string reader_ok)

lemma consumes_frame: "consumes 1 (read_frame z)"
  unfolding read_frame_def read_location_def
  by (intro consumes_after [where m = "read_id (sz_frame z)"] consumes_then_forward consumes_u8 reader_ok)

lemma consumes_tagged: "consumes 1 (read_tagged_value z)"
  unfolding read_tagged_value_def by (intro consumes_then_forward consumes_u8 reader_ok)

lemma forward_entries [reader_ok]:
  "advances forward (read_class z)" "advances forward (read_method z)" "advances forward (read_field z)"
  "advances forward read_slot" "advances forward (read_frame z)"
  unfolding read_class_def read_method_def read_field_def read_slot_def read_frame_def
  by (intro reader_ok)+

lemma list_command_bound:
  assumes "and_then (tr a b p) (\<lambda>payload. decode payload (read_list m)) w = (Inr xs, w')"
    and "consumes c m" "advances forward m"
  shows "\<exists>payload. tr a b p w = (Inr payload, w') \<and> 4 + c * length xs \<le> length payload"
proof -
  obtain payload t where "tr a b p w = (Inr payload, t)" "decode payload (read_list m) t = (Inr xs, w')"
    using assms(1) by (rule and_then_InrE)
  moreover from this(2) obtain r' where "read_list m (reader_new payload) = (Inr xs, r')" "w' = t"
    by (rule decode_InrE)
  ultimately show ?thesis using read_list_bound [OF assms(2,3)] by blast
qed

text \<open>
  No amplification in the list commands: whatever the debuggee answers, a list of classes,
  methods, fields, frames or tagged values that a command returns has at most as many elements as
  the reply had bytes after its count, and a count larger than the data is an error, not a longer
  list.
\<close>

theorem vm_lists_bounded:
  "(vm_all_classes tr z w = (Inr cs, w1) \<longrightarrow>
      (\<exists>p. tr VM_SET VM_ALL_CLASSES [] w = (Inr p, w1) \<and> 4 + length cs \<le> length p))
   \<and> (vm_methods tr z cls w = (Inr ms, w2) \<longrightarrow>
      (\<exists>p. tr RT_SET RT_METHODS (write_id (sz_reference_type z) cls) w = (Inr p, w2) \<and> 4 + 4 * length ms \<le> length p))
   \<and> (vm_fields tr z cls w = (Inr fs, w3) \<longrightarrow>
      (\<exists>p. tr RT_SET RT_FIELDS (write_id (sz_reference_type z) cls) w = (Inr p, w3) \<and> 4 + 4 * length fs \<le> length p))
   \<and> (vm_frames tr z th st len w = (Inr frs, w4) \<longrightarrow>
      (\<exists>p. tr TR_SET TR_FRAMES (write_id (sz_object z) th @ write_u32 st @ write_u32 (word_of_int len)) w = (Inr p, w4)
         \<and> 4 + length frs \<le> length p))
   \<and> (vm_object_values tr z obj ids w = (Inr vs, w5) \<longrightarrow>
      (\<exists>p. tr OR_SET OR_GET_VALUES (write_id (sz_object z) obj @ write_u32 (of_nat (length ids))
               @ concat (map (write_id (sz_field z)) ids)) w = (Inr p, w5)
         \<and> 4 + length vs \<le> length p))"
  unfolding vm_all_classes_def vm_methods_def vm_fields_def vm_frames_def vm_object_values_def
  using list_command_bound [where c = 1, OF _ consumes_class [of z] forward_entries(1), where w = w, of tr]
    list_command_bound [where c = 4, OF _ consumes_method [of z] forward_entries(2), where w = w, of tr]
    list_command_bound [where c = 4, OF _ consumes_field [of z] forward_entries(3), where w = w, of tr]
    list_command_bound [where c = 1, OF _ consumes_frame [of z] forward_entries(5), where w = w, of tr]
    list_command_bound [where c = 1, OF _ consumes_tagged [of z] forward_tagged, where w = w, of tr]
  by simp

lemma repeat_void: "repeat_n n (ok a) = ok (replicate n a)"
  by (induction n) simp_all

text \<open>
  The array command has no such bound: a reply of five bytes, an array region tagged \<open>V\<close>
  (void, whose elements take no bytes) with any 32-bit count, is decoded to a list of that many
  values, although the caller asked for at most \<open>len\<close> of them.
\<close>

theorem void_region_amplifies:
  assumes "tr AR_SET AR_GET_VALUES (write_id (sz_object z) obj @ write_u32 first @ write_u32 len) w
      = (Inr (write_u8 TAG_VOID @ write_u32 count), w')"
  shows "vm_array_values tr z obj first len w = (Inr (replicate (unat count) VVoid), w')
         \<and> length (write_u8 TAG_VOID @ write_u32 count) = 5"
proof -
  have "reads (read_region z) (write_u8 TAG_VOID @ write_u32 count @ []) (replicate (unat count) VVoid)"
    unfolding read_region_def read_list_def
    by (intro u8_codec.step u32_codec.step)
       (simp_all add: object_tags_def read_untagged_value_def repeat_void reads_ok)
  with assms show ?thesis
    by (simp add: vm_array_values_def and_then_cong_Inr decode_reads_all ok_def)
       (simp add: write_u8_def write_u32_def)
qed

lemma void_region_amplifies_witness:
  "vm_array_values (\<lambda>_ _ _. ok (write_u8 TAG_VOID @ write_u32 4000000000))
     \<lparr>sz_field = 8, sz_method = 8, sz_object = 8, sz_reference_type = 8, sz_frame = 8\<rparr> 1 0 200 ()
   = (Inr (replicate 4000000000 VVoid), ())"
  using void_region_amplifies [of "\<lambda>_ _ _. ok (write_u8 TAG_VOID @ write_u32 4000000000)" _ 1 0 200 "()" 4000000000 "()"]
  by (simp add: ok_def)

lemma vm_lists_bounded_witness:
  "\<exists>p. (\<lambda>_ _ _. ok (write_list (write_class \<lparr>sz_field = 8, sz_method = 8, sz_object = 8, sz_reference_type = 8, sz_frame = 8\<rparr>)
          [\<lparr>ce_type_tag = 1, ce_type_id = 5, ce_signature = ''LMain;'', ce_status = 7\<rparr>])) VM_SET VM_ALL_CLASSES [] ()
        = (Inr p :: jdwp_error + bytes, ()) \<and> 4 + length [\<lparr>ce_type_tag = 1, ce_type_id = 5, ce_signature = ''LMain;'', ce_status = 7\<rparr>] \<le> length p"
proof -
  let ?z = "\<lparr>sz_field = 8, sz_method = 8, sz_object = 8, sz_reference_type = 8, sz_frame = 8\<rparr> :: id_sizes"
  let ?cs = "[\<lparr>ce_type_tag = 1, ce_type_id = 5, ce_signature = ''LMain;'', ce_status = 7\<rparr>] :: class_entry list"
  let ?tr = "\<lambda>_ _ _. ok (write_list (write_class ?z) ?cs) :: (unit, jdwp_error, bytes) fallible"
  have "vm_all_classes ?tr ?z () = (Inr ?cs, ())"
    unfolding vm_all_classes_def
    by (simp add: decode_reads_all [OF class_codec.read_write_list] class_fits_def id_fits_def
        string_fits_def valid_str_ascii MAX_STRING_LEN_def del: list.map) 
  from mp [OF conjunct1 [OF vm_lists_bounded] this] show ?thesis .
qed

text \<open>The receiving side of \<open>EventRequest.Set\<close>, from the JDWP specification.\<close>

definition read_modifier :: "id_sizes \<Rightarrow> modifier read" where
  "read_modifier z = and_then read_u8 (\<lambda>k.
     if k = MOD_COUNT then and_then read_u32 (\<lambda>n. ok (Count n))
     else if k = MOD_CLASS_MATCH then and_then read_string (\<lambda>p. ok (ClassMatch p))
     else if k = MOD_LOCATION_ONLY then and_then (read_location z) (\<lambda>l. ok (LocationOnly l))
     else if k = MOD_EXCEPTION_ONLY then
       and_then (read_id (sz_reference_type z)) (\<lambda>_. and_then read_u8 (\<lambda>c. and_then read_u8 (\<lambda>u.
         ok (ExceptionOnly (c \<noteq> 0) (u \<noteq> 0)))))
     else if k = MOD_STEP then
       and_then (read_id (sz_object z)) (\<lambda>t. and_then read_u32 (\<lambda>s. and_then read_u32 (\<lambda>d. ok (StepMod t s d))))
     else err (DecodeError ''unknown modifier''))"

fun modifier_fits :: "id_sizes \<Rightarrow> modifier \<Rightarrow> bool" where
  "modifier_fits z (Count n) = True"
| "modifier_fits z (ClassMatch p) = string_fits p"
| "modifier_fits z (LocationOnly l) = location_fits z l"
| "modifier_fits z (ExceptionOnly c u) = (sz_reference_type z \<le> 8)"
| "modifier_fits z (StepMod t s d) = id_fits (sz_object z) t"

interpretation modifier_codec: wire_codec "read_modifier z" "write_modifier z" "modifier_fits z" for z
proof
  fix m assume "modifier_fits z m"
  then show "reads (read_modifier z) (write_modifier z m) m"
    by (cases m) (auto simp: read_modifier_def id_fits_def intro!: more_steps more_finals)
qed

definition read_event_request :: "id_sizes \<Rightarrow> (u8 \<times> u8 \<times> modifier list) read" where
  "read_event_request z = and_then read_u8 (\<lambda>kind. and_then read_u8 (\<lambda>policy.
     and_then (read_list (read_modifier z)) (\<lambda>ms. ok (kind, policy, ms))))"

text \<open>
  Event requests are unambiguous on the wire: \<open>event_request_set\<close> issues exactly one command,
  \<open>EventRequest.Set\<close>, and a receiver that follows the JDWP specification decodes from its payload
  exactly the event kind, the suspend policy and the list of modifiers that were asked for.
\<close>

theorem event_request_unambiguous:
  assumes "list_all (modifier_fits z) ms" and "length ms < 2 ^ 32"
  shows "\<exists>payload r.
      vm_event_request_set (\<lambda>cset cmd p log. (Inr reply, log @ [(cset, cmd, p)])) z kind policy ms log
        = (r, log @ [(ER_SET, ER_CMD_SET, payload)])
      \<and> fst (read_event_request z (reader_new payload)) = Inr (kind, policy, ms)"
proof -
  let ?payload = "write_u8 kind @ write_u8 policy @ write_list (write_modifier z) ms"
  have "reads (read_event_request z) ?payload (kind, policy, ms)"
    unfolding read_event_request_def
    by (intro u8_codec.step reads_then_ok [OF modifier_codec.read_write_list]) (use assms in simp_all)
  then have "fst (read_event_request z (reader_new ?payload)) = Inr (kind, policy, ms)"
    using reads_new [where post = "[]"] by fastforce
  moreover have "snd (decode reply read_u32 w) = w" for w :: "(u8 \<times> u8 \<times> bytes) list"
    by (simp add: decode_def ok_def err_def split: sum.splits)
  ultimately show ?thesis
    by (intro exI [of _ ?payload] exI [of _ "fst (decode reply read_u32 (log @ [(ER_SET, ER_CMD_SET, ?payload)]))"])
       (simp add: vm_event_request_set_def and_then_def write_list_def prod_eq_iff)
qed

lemma event_request_unambiguous_witness:
  "\<exists>payload r.
      vm_event_request_set (\<lambda>cset cmd p log. (Inr [0, 0, 0, 9], log @ [(cset, cmd, p)]))
         \<lparr>sz_field = 8, sz_method = 8, sz_object = 8, sz_reference_type = 8, sz_frame = 8\<rparr>
         EK_SINGLE_STEP SUSPEND_ALL [StepMod 5 STEP_SIZE_LINE STEP_DEPTH_OVER, Count 1] []
        = (r, [] @ [(ER_SET, ER_CMD_SET, payload)])
      \<and> fst (read_event_request \<lparr>sz_field = 8, sz_method = 8, sz_object = 8, sz_reference_type = 8, sz_frame = 8\<rparr>
               (reader_new payload)) = Inr (EK_SINGLE_STEP, SUSPEND_ALL, [StepMod 5 STEP_SIZE_LINE STEP_DEPTH_OVER, Count 1])"
  by (rule event_request_unambiguous) (simp_all add: id_fits_def)

end
