(* ===== verification/Dap_Protocol.thy ===== *)
theory Dap_Protocol
  imports Rust_Strings
begin

text \<open>
  \<open>crates/debug/src/dap/protocol.rs\<close>: the wire of the debug adapter. JSON values as
  \<open>serde_json::Value\<close> has them (objects are association lists whose key order carries no
  meaning), \<open>Content-Length\<close> framing on the input, the sequenced writer, and the argument
  structs. The JSON text parser and printer and the \<open>serde\<close> decoding of the argument structs are
  third-party code: they are parameters of the definitions that use them.

  The input is the list of the bytes that stdin delivers up to its end; a read returns what is
  left. The writer's output is the list of the JSON messages sent, oldest first.
\<close>

section \<open>JSON values\<close>

text \<open>A number that is not an integer keeps its text.\<close>

datatype json =
    JNull
  | JBool bool
  | JInt int
  | JFloat string
  | JStr string
  | JArr "json list"
  | JObj "(string \<times> json) list"

text \<open>\<open>value[key]\<close> reads \<open>null\<close> when there is no such key or no object.\<close>

fun index :: "json \<Rightarrow> string \<Rightarrow> json" where
  "index (JObj kvs) k = (case map_of kvs k of Some v \<Rightarrow> v | None \<Rightarrow> JNull)"
| "index _ k = JNull"

fun as_i64 :: "json \<Rightarrow> int option" where
  "as_i64 (JInt i) = (if - (2 ^ 63) \<le> i \<and> i < 2 ^ 63 then Some i else None)"
| "as_i64 _ = None"

fun as_str :: "json \<Rightarrow> string option" where
  "as_str (JStr s) = Some s"
| "as_str _ = None"

text \<open>\<open>value[key] = v\<close> on an object (or on \<open>null\<close>, which becomes one).\<close>

fun put :: "string \<Rightarrow> json \<Rightarrow> (string \<times> json) list \<Rightarrow> (string \<times> json) list" where
  "put k v [] = [(k, v)]"
| "put k v ((k', v') # kvs) = (if k' = k then (k, v) # kvs else (k', v') # put k v kvs)"

fun set_key :: "string \<Rightarrow> json \<Rightarrow> json \<Rightarrow> json" where
  "set_key k v (JObj kvs) = JObj (put k v kvs)"
| "set_key k v j = JObj [(k, v)]"

lemma map_of_put: "map_of (put k v kvs) = (map_of kvs)(k \<mapsto> v)"
  by (induction kvs) auto

lemma index_set_key [simp]:
  "index (set_key k v (JObj kvs)) k' = (if k' = k then v else index (JObj kvs) k')"
  by (simp add: map_of_put)

section \<open>Reading a message\<close>

definition MAX_BODY_LEN :: nat where
  "MAX_BODY_LEN = 16 * 1024 * 1024"

text \<open>One line with its newline, as \<open>read_line\<close> returns it, and the rest.\<close>

fun take_line :: "bytes \<Rightarrow> bytes \<times> bytes" where
  "take_line [] = ([], [])"
| "take_line (b # bs) = (if b = 10 then ([b], bs) else let (l, r) = take_line bs in (b # l, r))"

lemma take_line_split: "take_line bs = (l, r) \<Longrightarrow> bs = l @ r"
  by (induction bs arbitrary: l r) (auto split: if_splits prod.splits)

lemma take_line_nonempty: "bs \<noteq> [] \<Longrightarrow> fst (take_line bs) \<noteq> []"
  by (cases bs) (auto split: prod.splits)

lemma take_line_shorter: "take_line (b # bs) = (l, r) \<Longrightarrow> length r < Suc (length bs)"
  using take_line_split [of "b # bs" l r] take_line_nonempty [of "b # bs"]
  by (cases l) (auto dest: arg_cong [where f = length])

datatype headers = HeaderEof bytes | HeaderError string bytes | HeadersEnd "nat option" bytes

function read_headers :: "nat option \<Rightarrow> bytes \<Rightarrow> headers" where
  "read_headers content_length [] = HeaderEof []"
| "read_headers content_length (b # bs) =
     (let (raw, rest) = take_line (b # bs) in
      case from_utf8 raw of
        None \<Rightarrow> HeaderError ''stream did not contain valid UTF-8'' rest
      | Some s \<Rightarrow>
          let line = trim_end s in
          if line = [] then HeadersEnd content_length rest
          else read_headers
            (case strip_prefix ''Content-Length:'' line of
               Some v \<Rightarrow> parse_uint (2 ^ 64 - 1) (trim v)
             | None \<Rightarrow> content_length) rest)"
  by pat_completeness auto
termination
  by (relation "measure (\<lambda>(_, bs). length bs)") (auto simp del: take_line.simps dest: take_line_shorter [OF sym])

text \<open>\<open>read_message\<close>; \<open>from_slice\<close> stands for \<open>serde_json::from_slice\<close>.\<close>

definition read_message :: "(bytes \<Rightarrow> string + json) \<Rightarrow> bytes \<Rightarrow> (string + json option) \<times> bytes" where
  "read_message from_slice stdin =
     (case read_headers None stdin of
        HeaderEof rest \<Rightarrow> (Inr None, rest)
      | HeaderError e rest \<Rightarrow> (Inl e, rest)
      | HeadersEnd content_length rest \<Rightarrow>
          (case content_length of
             None \<Rightarrow> (Inl ''missing or oversized Content-Length'', rest)
           | Some len \<Rightarrow>
               if \<not> len \<le> MAX_BODY_LEN then (Inl ''missing or oversized Content-Length'', rest)
               else if length rest < len then (Inl ''early eof'', [])
               else (case from_slice (take len rest) of
                       Inl e \<Rightarrow> (Inl e, drop len rest)
                     | Inr v \<Rightarrow> (Inr (Some v), drop len rest))))"

section \<open>The writer\<close>

record dap_writer =
  w_seq :: int
  w_out :: "json list"

definition writer_new :: dap_writer where
  "writer_new = \<lparr>w_seq = 0, w_out = []\<rparr>"

text \<open>The bytes of one message on stdout, for the text of its body.\<close>

definition frame :: "string \<Rightarrow> string" where
  "frame body = ''Content-Length: '' @ show_nat (length body) @ [CHR 0x0D, CHR 0x0A, CHR 0x0D, CHR 0x0A] @ body"

definition send :: "json \<Rightarrow> dap_writer \<Rightarrow> dap_writer" where
  "send message w = \<lparr>w_seq = w_seq w + 1, w_out = w_out w @ [set_key ''seq'' (JInt (w_seq w + 1)) message]\<rparr>"

text \<open>What reaches stdout; \<open>to_string\<close> stands for the JSON printer.\<close>

definition wire :: "(json \<Rightarrow> string) \<Rightarrow> dap_writer \<Rightarrow> bytes" where
  "wire to_string w = as_bytes (concat (map (\<lambda>m. frame (to_string m)) (w_out w)))"

definition response_json :: "int \<Rightarrow> string \<Rightarrow> string + json \<Rightarrow> json" where
  "response_json request_seq command result =
     (case result of
        Inr body \<Rightarrow> JObj [(''type'', JStr ''response''), (''request_seq'', JInt request_seq),
          (''command'', JStr command), (''success'', JBool True), (''body'', body)]
      | Inl text \<Rightarrow> JObj [(''type'', JStr ''response''), (''request_seq'', JInt request_seq),
          (''command'', JStr command), (''success'', JBool False), (''message'', JStr text)])"

definition respond :: "int \<Rightarrow> string \<Rightarrow> string + json \<Rightarrow> dap_writer \<Rightarrow> dap_writer" where
  "respond request_seq command result = send (response_json request_seq command result)"

definition event_json :: "string \<Rightarrow> json \<Rightarrow> json" where
  "event_json name body = JObj [(''type'', JStr ''event''), (''event'', JStr name), (''body'', body)]"

definition write_event :: "string \<Rightarrow> json \<Rightarrow> dap_writer \<Rightarrow> dap_writer" where
  "write_event name body = send (event_json name body)"

definition write_output :: "string \<Rightarrow> string \<Rightarrow> dap_writer \<Rightarrow> dap_writer" where
  "write_output category text =
     write_event ''output'' (JObj [(''category'', JStr category), (''output'', JStr text)])"

section \<open>Request arguments\<close>

record launch_args =
  la_main_class :: "string option"
  la_args :: "string list"
  la_vm_args :: "string list"
  la_cwd :: "string option"
  la_env :: "(string \<times> string) list"
  la_project_root :: "string option"
  la_class_paths :: "string list"
  la_stop_on_entry :: bool
  la_include_test_outputs :: bool
  la_additional_class_paths :: "string list"
  la_jdk_home :: "string option"

record attach_args =
  aa_host_name :: "string option"
  aa_port :: "u16 option"
  aa_timeout :: "u64 option"
  aa_project_root :: "string option"
  aa_source_paths :: "string list"

record dap_source = src_path :: "string option"

record source_breakpoint = sb_line :: u32

record set_breakpoints_args =
  sba_source :: dap_source
  sba_breakpoints :: "source_breakpoint list"
  sba_lines :: "u32 list"

record set_exception_breakpoints_args = seb_filters :: "string list"

record thread_id_args = ta_thread_id :: int

record stack_trace_args =
  sta_thread_id :: int
  sta_start_frame :: u32
  sta_levels :: u32

record frame_id_args = fa_frame_id :: int

record variables_args = va_variables_reference :: int

record disconnect_args = da_terminate_debuggee :: "bool option"

section \<open>Framing\<close>

lemma take_line_newline: "10 \<notin> set bs \<Longrightarrow> take_line (bs @ 10 # rest) = (bs @ [10], rest)"
  by (induction bs) auto

text \<open>One header line, ended by carriage return and newline.\<close>

lemma read_headers_line:
  assumes s: "list_all (\<lambda>c. \<not> digit7 c) s" "CHR 0x0A \<notin> set s" "trim_end s \<noteq> []"
  shows "read_headers cl (as_bytes (s @ [CHR 0x0D, CHR 0x0A]) @ rest)
    = read_headers (case strip_prefix ''Content-Length:'' (trim_end s) of
               Some v \<Rightarrow> parse_uint (2 ^ 64 - 1) (trim v) | None \<Rightarrow> cl) rest"
proof -
  let ?l = "s @ [CHR 0x0D, CHR 0x0A]"
  have tl: "take_line (as_bytes ?l @ rest) = (as_bytes ?l, rest)"
    using take_line_newline [of "as_bytes (s @ [CHR 0x0D])" rest] as_bytes_newline [of "s @ [CHR 0x0D]"] s(2)
    by (simp add: as_bytes_def)
  have "valid_str ?l" using s(1) by (intro valid_str_ascii) simp
  then have utf: "from_utf8 (as_bytes ?l) = Some ?l" by (rule from_utf8_as_bytes)
  have trim: "trim_end ?l = trim_end s"
    using trim_end_newline [of "s @ [CHR 0x0D]"] trim_end_return [of s] by simp
  obtain b bs where ne: "as_bytes ?l @ rest = b # bs" by (cases "as_bytes ?l @ rest") (auto simp: as_bytes_def)
  show ?thesis
    using tl utf trim s(3) unfolding ne by (simp del: take_line.simps)
qed

lemma read_headers_blank: "read_headers cl (as_bytes [CHR 0x0D, CHR 0x0A] @ rest) = HeadersEnd cl rest"
proof -
  have "trim_end [] = ([] :: string)" by (simp add: trim_end_solid)
  then have t: "trim_end [CHR 0x0D, CHR 0x0A] = []"
    using trim_end_newline [of "[CHR 0x0D]"] trim_end_return [of "[]"] by simp
  have "valid_str [CHR 0x0D, CHR 0x0A]" by (intro valid_str_ascii) simp
  then have "from_utf8 [13, 10] = Some [CHR 0x0D, CHR 0x0A]"
    using from_utf8_as_bytes [of "[CHR 0x0D, CHR 0x0A]"] by (simp add: as_bytes_def)
  with t show ?thesis by (simp add: as_bytes_def)
qed

lemma read_headers_frame:
  assumes "length body \<le> MAX_BODY_LEN"
  shows "read_headers None (as_bytes (frame body) @ rest) = HeadersEnd (Some (length body)) (as_bytes body @ rest)"
proof -
  define h where "h = ''Content-Length: '' @ show_nat (length body)"
  have digits: "\<forall>c \<in> set (show_nat (length body)). is_digit c" by (rule show_nat_digits)
  then have ascii: "list_all (\<lambda>c. \<not> digit7 c) h" "CHR 0x0A \<notin> set h"
    by (auto simp: list_all_iff h_def dest: digit_ascii)
  have "is_digit (last (show_nat (length body)))" using digits by simp
  then have t: "trim_end h = h" by (intro trim_end_solid) (simp add: solid_digit h_def)
  have "strip_prefix ''Content-Length:'' h = Some (CHR 0x20 # show_nat (length body))"
    using strip_prefix_append [of "''Content-Length:''" "CHR 0x20 # show_nat (length body)"] by (simp add: h_def)
  moreover have "parse_uint (2 ^ 64 - 1) (trim (CHR 0x20 # show_nat (length body))) = Some (length body)"
    using assms by (simp add: trim_space trim_show_nat parse_show_nat MAX_BODY_LEN_def)
  moreover have "as_bytes (frame body) @ rest
      = as_bytes (h @ [CHR 0x0D, CHR 0x0A]) @ as_bytes [CHR 0x0D, CHR 0x0A] @ as_bytes body @ rest"
    by (simp add: frame_def h_def as_bytes_def)
  moreover have "trim_end h \<noteq> []" unfolding t by (simp add: h_def)
  note line = read_headers_line [OF ascii this]
  ultimately show ?thesis
    by (simp only: line t read_headers_blank option.case)
qed

text \<open>Reading one message that was written by \<open>send\<close>.\<close>

lemma read_message_frame:
  assumes "length body \<le> MAX_BODY_LEN" and "from_slice (as_bytes body) = Inr v"
  shows "read_message from_slice (as_bytes (frame body) @ rest) = (Inr (Some v), rest)"
  using assms by (simp add: read_message_def read_headers_frame)

fun read_messages :: "(bytes \<Rightarrow> string + json) \<Rightarrow> nat \<Rightarrow> bytes \<Rightarrow> json list" where
  "read_messages from_slice 0 stdin = []"
| "read_messages from_slice (Suc n) stdin =
     (case read_message from_slice stdin of
        (Inr (Some v), rest) \<Rightarrow> v # read_messages from_slice n rest
      | _ \<Rightarrow> [])"

text \<open>
  C29. The adapter's output is a well-formed input: whatever messages were sent through the writer,
  reading the bytes that reached stdout with the same framing rule yields exactly those messages,
  in the order they were sent, and stops just before the bytes that follow. (Stated for any JSON
  printer and parser that invert each other on the messages, each of at most 16 MiB.)
\<close>

theorem wire_roundtrip:
  assumes "\<forall>m \<in> set (w_out w). from_slice (as_bytes (to_string m)) = Inr m
             \<and> length (to_string m) \<le> MAX_BODY_LEN"
  shows "read_messages from_slice (length (w_out w)) (wire to_string w @ rest) = w_out w"
proof -
  have "read_messages from_slice (length ms) (as_bytes (concat (map (\<lambda>m. frame (to_string m)) ms)) @ rest) = ms"
    if "\<forall>m \<in> set ms. from_slice (as_bytes (to_string m)) = Inr m \<and> length (to_string m) \<le> MAX_BODY_LEN" for ms
    using that by (induction ms) (simp_all add: read_message_frame)
  with assms show ?thesis by (simp add: wire_def)
qed

lemma wire_roundtrip_witness:
  "read_messages (\<lambda>_. Inr (JObj [(''seq'', JInt 1)])) 1 (wire (\<lambda>_. ''{}'') (send JNull writer_new) @ [7])
   = [JObj [(''seq'', JInt 1)]]"
  using wire_roundtrip [of "send JNull writer_new" "\<lambda>_. Inr (JObj [(''seq'', JInt 1)])" "\<lambda>_. ''{}''" "[7]"]
  by (simp add: send_def writer_new_def MAX_BODY_LEN_def)

lemma read_headers_consumes:
  "read_headers cl stdin = HeadersEnd len rest \<Longrightarrow> \<exists>hdr. hdr \<noteq> [] \<and> stdin = hdr @ rest"
proof (induction cl stdin rule: read_headers.induct)
  case (2 cl b bs)
  obtain raw r where tl: "take_line (b # bs) = (raw, r)" by fastforce
  have split: "b # bs = raw @ r" using tl by (rule take_line_split)
  have "raw \<noteq> []" using tl take_line_nonempty [of "b # bs"] by auto
  show ?case
  proof (cases "from_utf8 raw")
    case None
    with 2 tl show ?thesis by (simp del: take_line.simps)
  next
    case (Some s)
    show ?thesis
    proof (cases "trim_end s = []")
      case True
      with 2(2) tl Some have "r = rest" by (simp del: take_line.simps)
      with split \<open>raw \<noteq> []\<close> show ?thesis by blast
    next
      case False
      let ?cl = "case strip_prefix ''Content-Length:'' (trim_end s) of
          Some v \<Rightarrow> parse_uint (2 ^ 64 - 1) (trim v) | None \<Rightarrow> cl"
      from 2(2) tl Some False have "read_headers ?cl r = HeadersEnd len rest" by (simp del: take_line.simps)
      from 2(1) [OF tl [symmetric] refl Some refl False this] obtain hdr where "r = hdr @ rest" by blast
      then have "b # bs = (raw @ hdr) @ rest" using split by simp
      moreover have "raw @ hdr \<noteq> []" using \<open>raw \<noteq> []\<close> by simp
      ultimately show ?thesis by blast
    qed
  qed
qed simp

text \<open>
  Reading stdin is bounded work: a message that is accepted was announced by a header part and
  has a body of at most 16 MiB, which is exactly what is parsed, and the bytes behind it are left
  untouched for the next message, whatever the client sent.
\<close>

theorem read_message_bounded:
  assumes "read_message from_slice stdin = (Inr (Some v), rest)"
  shows "\<exists>hdr body. hdr \<noteq> [] \<and> stdin = hdr @ body @ rest \<and> length body \<le> MAX_BODY_LEN \<and> from_slice body = Inr v"
proof -
  from assms obtain len rest' where h: "read_headers None stdin = HeadersEnd (Some len) rest'"
    and len: "len \<le> MAX_BODY_LEN" "len \<le> length rest'" "from_slice (take len rest') = Inr v" "rest = drop len rest'"
    by (auto simp: read_message_def split: headers.splits option.splits if_splits sum.splits)
  from read_headers_consumes [OF h] obtain hdr where "hdr \<noteq> []" "stdin = hdr @ rest'" by blast
  then have "stdin = hdr @ take len rest' @ rest" "length (take len rest') \<le> MAX_BODY_LEN"
    using len by simp_all
  with \<open>hdr \<noteq> []\<close> len show ?thesis by blast
qed

lemma read_message_bounded_witness:
  "\<exists>hdr body. hdr \<noteq> [] \<and> as_bytes (frame ''{}'') @ [1] = hdr @ body @ [1] \<and> length body \<le> MAX_BODY_LEN
     \<and> (Inr JNull :: string + json) = Inr JNull"
proof -
  have "read_message (\<lambda>_. Inr JNull) (as_bytes (frame ''{}'') @ [1]) = (Inr (Some JNull), [1])"
    by (rule read_message_frame) (simp_all add: MAX_BODY_LEN_def)
  from read_message_bounded [OF this] show ?thesis .
qed

end
