(* ===== verification/Rust_Paths.thy ===== *)
theory Rust_Paths
  imports Rust_Strings "HOL-Library.AList"
begin

text \<open>
  \<open>std::path\<close> on Unix paths, and the view of the file system that the modelled code has.

  A path is its text. \<open>components\<close> is what the standard library compares, strips and iterates;
  \<open>parent\<close> prints the remaining components again. \<open>fs\<close> is a snapshot of the file system and of the
  environment variables: the code that walks it only reads, so one call sees one snapshot.
\<close>

section \<open>Paths\<close>

datatype component = RootDir | CurDir | ParentDir | Normal string

definition component :: "string \<Rightarrow> component" where
  "component s = (if s = ''..'' then ParentDir else Normal s)"

text \<open>Empty and \<open>.\<close> segments do not count, except for a leading \<open>.\<close> of a relative path.\<close>

definition segments_of :: "string \<Rightarrow> component list" where
  "segments_of p = map component (filter (\<lambda>s. s \<noteq> [] \<and> s \<noteq> ''.'') (split_char (CHR ''/'') p))"

definition is_absolute :: "string \<Rightarrow> bool" where
  "is_absolute p = starts_with ''/'' p"

definition components :: "string \<Rightarrow> component list" where
  "components p =
     (if is_absolute p then RootDir # segments_of p
      else if hd (split_char (CHR ''/'') p) = ''.'' then CurDir # segments_of p
      else segments_of p)"

fun show_component :: "component \<Rightarrow> string" where
  "show_component RootDir = ''''"
| "show_component CurDir = ''.''"
| "show_component ParentDir = ''..''"
| "show_component (Normal s) = s"

definition show_path :: "component list \<Rightarrow> string" where
  "show_path cs =
     (if cs = [RootDir] then ''/'' else join_with ''/'' (map show_component cs))"

text \<open>\<open>Path::join\<close>: an absolute argument replaces the base, an empty one adds a slash at most.\<close>

definition path_join :: "string \<Rightarrow> string \<Rightarrow> string" where
  "path_join base p =
     (if p \<noteq> [] \<and> hd p = CHR ''/'' then p
      else if base = [] then p
      else if last base = CHR ''/'' then base @ p
      else base @ ''/'' @ p)"

definition file_name :: "string \<Rightarrow> string option" where
  "file_name path =
     (case filter (\<lambda>c. c \<noteq> [] \<and> c \<noteq> ''.'') (split_char (CHR ''/'') path) of
        [] \<Rightarrow> None
      | c # cs \<Rightarrow> if last (c # cs) = ''..'' then None else Some (last (c # cs)))"

definition file_stem :: "string \<Rightarrow> string option" where
  "file_stem path =
     (case file_name path of
        None \<Rightarrow> None
      | Some n \<Rightarrow> (case rsplit_once (CHR ''.'') n of
            Some (a, _) \<Rightarrow> Some (if a = [] then n else a)
          | None \<Rightarrow> Some n))"

definition extension :: "string \<Rightarrow> string option" where
  "extension path =
     (case file_name path of
        None \<Rightarrow> None
      | Some n \<Rightarrow> (case rsplit_once (CHR ''.'') n of
            Some (a, b) \<Rightarrow> if a = [] then None else Some b
          | None \<Rightarrow> None))"

definition parent :: "string \<Rightarrow> string option" where
  "parent p =
     (case components p of
        [] \<Rightarrow> None
      | c # cs \<Rightarrow> if last (c # cs) = RootDir then None else Some (show_path (butlast (c # cs))))"

definition with_file_name :: "string \<Rightarrow> string \<Rightarrow> string" where
  "with_file_name p name =
     (case file_name p of
        None \<Rightarrow> path_join p name
      | Some _ \<Rightarrow> path_join (case parent p of Some d \<Rightarrow> d | None \<Rightarrow> []) name)"

text \<open>\<open>Path::starts_with\<close> and equality of paths are on components.\<close>

definition path_starts_with :: "string \<Rightarrow> string \<Rightarrow> bool" where
  "path_starts_with base p \<longleftrightarrow> take (length (components base)) (components p) = components base"

definition same_path :: "string \<Rightarrow> string \<Rightarrow> bool" where
  "same_path p q \<longleftrightarrow> components p = components q"

section \<open>The file system\<close>

datatype file_type = FtFile | FtDir | FtSymlink | FtOther

record dir_entry =
  de_name :: string
  de_type :: "file_type option"

record fs =
  fs_read :: "string \<Rightarrow> bytes option"
  fs_len :: "string \<Rightarrow> nat option"
  fs_is_file :: "string \<Rightarrow> bool"
  fs_is_dir :: "string \<Rightarrow> bool"
  fs_read_dir :: "string \<Rightarrow> dir_entry list option"
  fs_canonicalize :: "string \<Rightarrow> string option"
  fs_var :: "string \<Rightarrow> string option"

text \<open>\<open>std::fs::read_to_string\<close> fails on bytes that are not UTF-8.\<close>

definition read_to_string :: "fs \<Rightarrow> string \<Rightarrow> string option" where
  "read_to_string fs p = Option.bind (fs_read fs p) from_utf8"

text \<open>The size guard \<open>metadata(p).map(len).unwrap_or(u64::MAX) > cap\<close>.\<close>

definition over_size :: "fs \<Rightarrow> nat \<Rightarrow> string \<Rightarrow> bool" where
  "over_size fs cap p = (case fs_len fs p of None \<Rightarrow> True | Some n \<Rightarrow> cap < n)"

definition entry_path :: "string \<Rightarrow> dir_entry \<Rightarrow> string" where
  "entry_path dir e = path_join dir (de_name e)"

section \<open>Joining keeps the base\<close>

lemma split_char_sep: "split_char c (a @ c # b) = split_char c a @ split_char c b"
proof (induction a)
  case (Cons x xs)
  then show ?case by (cases "split_char c xs") auto
qed simp

lemma segments_of_sep: "segments_of (a @ CHR ''/'' # b) = segments_of a @ segments_of b"
  by (simp add: segments_of_def split_char_sep)

lemma segments_of_Nil [simp]: "segments_of [] = []"
  by (simp add: segments_of_def)

lemma hd_split_append:
  "a \<noteq> [] \<Longrightarrow> hd (split_char c (a @ c # b)) = hd (split_char c a)"
  by (simp add: split_char_sep)

lemma is_absolute_append: "a \<noteq> [] \<Longrightarrow> is_absolute (a @ b) = is_absolute a"
  by (cases a) (auto simp: is_absolute_def starts_with_def)

lemma components_sep:
  "a \<noteq> [] \<Longrightarrow> components (a @ CHR ''/'' # b) = components a @ segments_of b"
  by (simp add: components_def is_absolute_append hd_split_append segments_of_sep)

lemma components_join:
  assumes "base \<noteq> []" and "\<not> is_absolute p"
  shows "components (path_join base p) = components base @ segments_of p"
proof -
  have rel: "\<not> (p \<noteq> [] \<and> hd p = CHR ''/'')"
    using assms(2) by (cases p) (auto simp: is_absolute_def starts_with_def)
  show ?thesis
  proof (cases "last base = CHR ''/''")
    case False
    then have "path_join base p = base @ CHR ''/'' # p" using rel assms by (auto simp: path_join_def)
    then show ?thesis using assms by (simp add: components_sep)
  next
    case True
    obtain b where b: "base = b @ [CHR ''/'']"
      using assms(1) True by (metis append_butlast_last_id)
    then have j: "path_join base p = b @ CHR ''/'' # p"
      using rel True assms by (auto simp: path_join_def)
    show ?thesis
    proof (cases "b = []")
      case True
      then show ?thesis using b j by (simp add: components_def is_absolute_def starts_with_def segments_of_sep [of "[]", simplified])
    next
      case False
      then show ?thesis using b j by (simp add: components_sep)
    qed
  qed
qed

text \<open>A path stays inside a base when it is the base followed by ordinary names only.\<close>

definition inside :: "string \<Rightarrow> string \<Rightarrow> bool" where
  "inside base p \<longleftrightarrow> (\<exists>names. components p = components base @ map Normal names)"

lemma segments_normal:
  assumes "''..'' \<notin> set (split_char (CHR ''/'') p)"
  shows "\<exists>names. segments_of p = map Normal names"
proof -
  have "segments_of p = map Normal (filter (\<lambda>s. s \<noteq> [] \<and> s \<noteq> ''.'') (split_char (CHR ''/'') p))"
    using assms by (auto simp: segments_of_def component_def)
  then show ?thesis by blast
qed

lemma inside_join:
  assumes "base \<noteq> []" "\<not> is_absolute p" "''..'' \<notin> set (split_char (CHR ''/'') p)"
  shows "inside base (path_join base p)"
  using segments_normal [OF assms(3)] components_join [OF assms(1,2)] by (auto simp: inside_def)

lemma inside_refl [simp]: "inside p p"
  by (auto simp: inside_def intro: exI [of _ "[]"])

lemma inside_trans: "inside a b \<Longrightarrow> inside b c \<Longrightarrow> inside a c"
  by (auto simp: inside_def) (metis append_assoc map_append)

lemma inside_starts_with: "inside base p \<Longrightarrow> path_starts_with base p"
  by (auto simp: inside_def path_starts_with_def)

lemma path_join_nonempty: "base \<noteq> [] \<Longrightarrow> path_join base p \<noteq> []"
  by (auto simp: path_join_def)

end
