(* ===== verification/Dap_Support.thy ===== *)
theory Dap_Support
  imports Jdwp_Client Dap_Protocol Rust_Paths
begin

text \<open>
  The pure parts of \<open>crates/debug/src/dap/session.rs\<close>: rendering of types and breakpoints, the
  line-table lookups, the scanner for the \<open>package\<close> declaration, and the two loops over the
  child's output (the search for the JDWP listen line, and the line-buffered forwarder).
\<close>

section \<open>Constants\<close>

definition OUTPUT_CHUNK_CAP :: nat where "OUTPUT_CHUNK_CAP = 8 * 1024"

definition STRING_DISPLAY_CAP :: nat where "STRING_DISPLAY_CAP = 512"

definition ARRAY_CHILD_CAP :: u32 where "ARRAY_CHILD_CAP = 200"

definition SUPER_CHAIN_CAP :: nat where "SUPER_CHAIN_CAP = 32"

section \<open>JSON bodies\<close>

definition capabilities :: json where
  "capabilities = JObj [
     (''supportsConfigurationDoneRequest'', JBool True),
     (''supportsTerminateRequest'', JBool True),
     (''supportsExceptionInfoRequest'', JBool True),
     (''supportTerminateDebuggee'', JBool True),
     (''exceptionBreakpointFilters'', JArr [
        JObj [(''filter'', JStr ''uncaught''), (''label'', JStr ''Uncaught Exceptions''), (''default'', JBool True)],
        JObj [(''filter'', JStr ''caught''), (''label'', JStr ''Caught Exceptions''), (''default'', JBool False)]])]"

definition variable_json :: "string \<Rightarrow> string \<times> int \<Rightarrow> json" where
  "variable_json name rendered =
     JObj [(''name'', JStr name), (''value'', JStr (fst rendered)), (''variablesReference'', JInt (snd rendered))]"

record line_bp =
  bp_id :: int
  bp_line :: u32
  bp_verified :: bool
  bp_actual_line :: "u32 option"
  bp_message :: "string option"
  bp_request_ids :: "u32 list"

definition breakpoint_json :: "line_bp \<Rightarrow> json" where
  "breakpoint_json bp =
     (let out = JObj [(''id'', JInt (bp_id bp)), (''verified'', JBool (bp_verified bp)),
                (''line'', JInt (uint (case bp_actual_line bp of Some l \<Rightarrow> l | None \<Rightarrow> bp_line bp)))]
      in case bp_message bp of None \<Rightarrow> out | Some m \<Rightarrow> set_key ''message'' (JStr m) out)"

section \<open>Line tables\<close>

text \<open>\<open>Iterator::max_by_key\<close>: the last of the greatest elements.\<close>

definition max_by_key :: "('a \<Rightarrow> 'k::linorder) \<Rightarrow> 'a list \<Rightarrow> 'a option" where
  "max_by_key f xs =
     foldl (\<lambda>best x. case best of None \<Rightarrow> Some x | Some y \<Rightarrow> if f y \<le> f x then Some x else Some y) None xs"

definition line_for_index :: "line_table \<Rightarrow> u64 \<Rightarrow> u32 option" where
  "line_for_index t idx = map_option snd (max_by_key fst (filter (\<lambda>(i, _). i \<le> idx) (lt_lines t)))"

text \<open>The choice of \<open>bind_lines_in_class\<close>: the first entry with the exact line, else the first
  entry with the smallest line above the requested one.\<close>

definition table_entries :: "(u64 \<times> line_table) list \<Rightarrow> (u64 \<times> u64 \<times> u32) list" where
  "table_entries tables = concat (map (\<lambda>(mid, t). map (\<lambda>(i, l). (mid, i, l)) (lt_lines t)) tables)"

definition least_above :: "u32 \<Rightarrow> (u64 \<times> u64 \<times> u32) list \<Rightarrow> (u64 \<times> u64 \<times> u32) option" where
  "least_above line es =
     foldl (\<lambda>chosen (mid, i, l).
       if l > line \<and> (case chosen of None \<Rightarrow> True | Some (_, _, best) \<Rightarrow> l < best)
       then Some (mid, i, l) else chosen) None es"

definition choose_line :: "(u64 \<times> line_table) list \<Rightarrow> u32 \<Rightarrow> (u64 \<times> u64 \<times> u32) option" where
  "choose_line tables line =
     (case find (\<lambda>(_, _, l). l = line) (table_entries tables) of
        Some c \<Rightarrow> Some c
      | None \<Rightarrow> least_above line (table_entries tables))"

section \<open>Type names\<close>

fun strip_dims :: "string \<Rightarrow> nat \<times> string" where
  "strip_dims [] = (0, [])"
| "strip_dims (c # cs) = (if c = CHR ''['' then let (d, r) = strip_dims cs in (Suc d, r) else (0, c # cs))"

definition dot_separators :: "string \<Rightarrow> string" where
  "dot_separators s = map (\<lambda>c. if c = CHR ''/'' \<or> c = CHR ''$'' then CHR ''.'' else c) s"

definition base_type :: "string \<Rightarrow> string" where
  "base_type rest =
     (case rest of
        [] \<Rightarrow> []
      | c # cs \<Rightarrow>
          if c = CHR ''L'' then
            dot_separators (case strip_suffix '';'' cs of Some s \<Rightarrow> s | None \<Rightarrow> rest)
          else if c = CHR ''Z'' then ''boolean''
          else if c = CHR ''B'' then ''byte''
          else if c = CHR ''C'' then ''char''
          else if c = CHR ''S'' then ''short''
          else if c = CHR ''I'' then ''int''
          else if c = CHR ''J'' then ''long''
          else if c = CHR ''F'' then ''float''
          else if c = CHR ''D'' then ''double''
          else if c = CHR ''V'' then ''void''
          else rest)"

definition pretty_type :: "string \<Rightarrow> string" where
  "pretty_type signature =
     (let (dims, rest) = strip_dims signature in base_type rest @ concat (replicate dims ''[]''))"

section \<open>The package declaration\<close>

definition is_ascii_alphanumeric :: "char \<Rightarrow> bool" where
  "is_ascii_alphanumeric c = (is_ascii_alphabetic c \<or> is_digit c)"

text \<open>The byte loops of the scanner, on the text from the current position on.\<close>

fun skip_block :: "string \<Rightarrow> string" where
  "skip_block (c # d # s) = (if c = CHR ''*'' \<and> d = CHR ''/'' then s else skip_block (d # s))"
| "skip_block s = []"

text \<open>Past the end of a quoted literal; \<open>b\<close> says that the byte just read was a backslash.\<close>

fun skip_quoted :: "char \<Rightarrow> bool \<Rightarrow> string \<Rightarrow> string" where
  "skip_quoted q b [] = []"
| "skip_quoted q b (c # s) =
     (if b then skip_quoted q False s
      else if c = q then s
      else skip_quoted q (c = CHR 0x5C) s)"

definition word_char :: "char \<Rightarrow> bool" where
  "word_char c = (is_ascii_alphanumeric c \<or> c = CHR ''_'' \<or> c = CHR ''$'')"

lemma skip_block_le: "length (skip_block s) \<le> length s"
  by (induction s rule: skip_block.induct) auto

lemma skip_quoted_le: "length (skip_quoted q b s) \<le> length s"
  by (induction s arbitrary: b) (auto intro: le_SucI)

text \<open>The first word outside comments, literals and annotation names, with the text behind it.\<close>

function first_word :: "string \<Rightarrow> (string \<times> string) option" where
  "first_word [] = None"
| "first_word (c # s) =
     (if c = CHR ''/'' \<and> s \<noteq> [] \<and> hd s = CHR ''/'' then first_word (dropWhile (\<lambda>x. x \<noteq> CHR 0x0A) s)
      else if c = CHR ''/'' \<and> s \<noteq> [] \<and> hd s = CHR ''*'' then first_word (skip_block (tl s))
      else if c = CHR 0x22 then first_word (skip_quoted (CHR 0x22) False s)
      else if c = CHR 0x27 then first_word (skip_quoted (CHR 0x27) False s)
      else if c = CHR 0x40 then first_word (dropWhile (\<lambda>x. is_ascii_alphanumeric x \<or> x = CHR ''.'') s)
      else if is_ascii_alphabetic c \<or> c = CHR ''_'' then
        Some (takeWhile word_char (c # s), dropWhile word_char (c # s))
      else first_word s)"
  by pat_completeness auto
termination
  by (relation "measure length")
     (auto intro!: le_imp_less_Suc intro: skip_quoted_le length_dropWhile_le le_trans [OF skip_block_le])

declare first_word.simps [simp del]

definition scan_package :: "string \<Rightarrow> string option" where
  "scan_package text =
     (case first_word text of
        None \<Rightarrow> None
      | Some (word, rest) \<Rightarrow>
          if word \<noteq> ''package'' then None
          else case find_sub '';'' rest of
              None \<Rightarrow> None
            | Some semi \<Rightarrow>
                let name = filter (\<lambda>c. is_ascii_alphanumeric c \<or> c = CHR ''.'' \<or> c = CHR ''_'' \<or> c = CHR ''$'')
                             (take semi rest)
                in if name \<noteq> [] then Some name else None)"

definition fqcn_for_source :: "fs \<Rightarrow> string \<Rightarrow> string option" where
  "fqcn_for_source fs path =
     (case file_stem path of
        None \<Rightarrow> None
      | Some stem \<Rightarrow>
          (case read_to_string fs path of
             None \<Rightarrow> None
           | Some text \<Rightarrow>
               (case scan_package text of
                  Some pkg \<Rightarrow> if pkg \<noteq> [] then Some (pkg @ ''.'' @ stem) else Some stem
                | None \<Rightarrow> Some stem)))"

section \<open>Child output\<close>

text \<open>The inner loop of \<open>forward_stream\<close>: cut complete lines, and everything once the buffer has
  reached the cap, off the front; what is left stays buffered.\<close>

fun newline_at :: "bytes \<Rightarrow> nat option" where
  "newline_at [] = None"
| "newline_at (b # bs) = (if b = 10 then Some 0 else map_option Suc (newline_at bs))"

lemma newline_at_Some: "newline_at bs = Some k \<Longrightarrow> k < length bs \<and> bs ! k = 10 \<and> 10 \<notin> set (take k bs)"
  by (induction bs arbitrary: k) (auto split: if_splits)

lemma newline_at_None: "newline_at bs = None \<Longrightarrow> 10 \<notin> set bs"
  by (induction bs) (auto split: if_splits)

function flush_lines :: "bytes \<Rightarrow> bytes list \<times> bytes" where
  "flush_lines pend =
     (case newline_at pend of
        Some k \<Rightarrow> let (ls, r) = flush_lines (drop (k + 1) pend) in (take (k + 1) pend # ls, r)
      | None \<Rightarrow> if length pend \<ge> OUTPUT_CHUNK_CAP then ([pend], []) else ([], pend))"
  by pat_completeness auto
termination
  by (relation "measure length") (auto dest: newline_at_Some)

declare flush_lines.simps [simp del]

text \<open>\<open>forward_stream\<close> on the chunks its reads return up to the end of the stream: the texts of
  the \<open>ChildOut\<close> messages it sends (while the session's channel is open).\<close>

fun forward_pieces :: "bytes \<Rightarrow> bytes list \<Rightarrow> bytes list" where
  "forward_pieces pend [] =
     (let (ls, r) = flush_lines pend in ls @ (if r = [] then [] else [r]))"
| "forward_pieces pend (chunk # chunks) =
     (let (ls, r) = flush_lines pend in ls @ forward_pieces (r @ chunk) chunks)"

definition forward_stream :: "bytes \<Rightarrow> bytes list \<Rightarrow> string list" where
  "forward_stream initial chunks = map from_utf8_lossy (forward_pieces initial chunks)"

text \<open>\<open>wait_for_listen_port\<close> on the reads that the select delivers: each from stdout or stderr,
  a chunk (empty at the end of the stream) or an error. \<open>None\<close>: still waiting when the reads given
  are used up.\<close>

definition LISTEN_PATTERN :: string where
  "LISTEN_PATTERN = ''Listening for transport dt_socket at address: ''"

definition listen_line :: "string \<Rightarrow> (string \<times> string \<times> string) option" where
  "listen_line text =
     (case find_sub LISTEN_PATTERN text of
        None \<Rightarrow> None
      | Some at \<Rightarrow>
          (let after = drop (at + length LISTEN_PATTERN) text in
           case find_sub [CHR 0x0A] after of
             None \<Rightarrow> None
           | Some nl \<Rightarrow> Some (take at text, take nl after, drop (nl + 1) after)))"

definition listen_found :: "bool \<Rightarrow> string \<Rightarrow> string \<Rightarrow> string \<Rightarrow> bytes \<Rightarrow> string + (nat \<times> (string \<times> string) list)" where
  "listen_found is_stdout before address after other =
     (case parse_uint (2 ^ 16 - 1) (trim address) of
        None \<Rightarrow> Inl (''unparseable JDWP listen line: '' @ address)
      | Some port \<Rightarrow>
          (let kept = before @ after;
               category = (if is_stdout then ''stdout'' else ''stderr'');
               other_cat = (if is_stdout then ''stderr'' else ''stdout'')
           in Inr (port, (if kept = [] then [] else [(category, kept)])
                         @ (if other = [] then [] else [(other_cat, from_utf8_lossy other)]))))"

fun wait_for_listen_port ::
  "bytes \<Rightarrow> bytes \<Rightarrow> (bool \<times> (string + bytes)) list \<Rightarrow> (string + (nat \<times> (string \<times> string) list)) option" where
  "wait_for_listen_port out_buf err_buf [] = None"
| "wait_for_listen_port out_buf err_buf ((is_stdout, r) # rs) =
     (case r of
        Inl e \<Rightarrow> Some (Inl e)
      | Inr chunk \<Rightarrow>
          if chunk = [] then Some (Inl ''output ended before the JDWP listen line'')
          else let out' = (if is_stdout then out_buf @ chunk else out_buf);
                   err' = (if is_stdout then err_buf else err_buf @ chunk);
                   text = from_utf8_lossy (if is_stdout then out' else err')
               in case listen_line text of
                    None \<Rightarrow> wait_for_listen_port out' err' rs
                  | Some (before, address, after) \<Rightarrow>
                      Some (listen_found is_stdout before address after (if is_stdout then err' else out')))"

section \<open>Line lookup\<close>

lemma max_by_key_snoc:
  "max_by_key f (xs @ [x]) =
     (case max_by_key f xs of None \<Rightarrow> Some x | Some y \<Rightarrow> if f y \<le> f x then Some x else Some y)"
  by (simp add: max_by_key_def)

lemma max_by_key_None: "max_by_key f xs = None \<longleftrightarrow> xs = []"
  by (induction xs rule: rev_induct) (auto simp: max_by_key_snoc split: option.splits, simp add: max_by_key_def)

lemma max_by_key_Some:
  "max_by_key f xs = Some y \<Longrightarrow>
     \<exists>as bs. xs = as @ y # bs \<and> (\<forall>a \<in> set as. f a \<le> f y) \<and> (\<forall>b \<in> set bs. f b < f y)"
proof (induction xs arbitrary: y rule: rev_induct)
  case (snoc x xs)
  show ?case
  proof (cases "max_by_key f xs")
    case None
    then have "xs = []" by (simp add: max_by_key_None)
    with snoc show ?thesis by (intro exI [of _ "[]"]) (simp add: max_by_key_def)
  next
    case (Some z)
    from snoc.IH [OF this] obtain as bs where
      z: "xs = as @ z # bs" "\<forall>a \<in> set as. f a \<le> f z" "\<forall>b \<in> set bs. f b < f z" by blast
    show ?thesis
    proof (cases "f z \<le> f x")
      case True
      then have "\<forall>a \<in> set xs. f a \<le> f x" using z by (auto intro: order_trans less_imp_le)
      moreover have "y = x" using snoc.prems Some True by (simp add: max_by_key_snoc)
      ultimately show ?thesis by (intro exI [of _ xs] exI [of _ "[]"]) simp
    next
      case False
      then have "y = z" using snoc.prems Some by (simp add: max_by_key_snoc)
      with z False show ?thesis by (intro exI [of _ as] exI [of _ "bs @ [x]"]) auto
    qed
  qed
qed (simp add: max_by_key_def)

text \<open>
  \<open>line_for_index\<close> reports the source line of a frame correctly: there is no line exactly when
  every table entry starts behind the frame's code index; otherwise the line is that of an entry
  that starts at or before the index, that no other such entry starts after, and that is the last
  one of those with the same start.
\<close>

theorem line_for_index_spec:
  "(line_for_index t idx = None \<longleftrightarrow> (\<forall>e \<in> set (lt_lines t). idx < fst e))
   \<and> (line_for_index t idx = Some l \<longrightarrow>
      (\<exists>i as bs. filter (\<lambda>e. fst e \<le> idx) (lt_lines t) = as @ (i, l) # bs
         \<and> (\<forall>a \<in> set as. fst a \<le> i) \<and> (\<forall>b \<in> set bs. fst b < i)))"
proof -
  have eq: "line_for_index t idx = map_option snd (max_by_key fst (filter (\<lambda>e. fst e \<le> idx) (lt_lines t)))"
    by (simp add: line_for_index_def case_prod_unfold)
  show ?thesis
    unfolding eq
    by (auto simp: max_by_key_None filter_empty_conv not_le dest!: max_by_key_Some) blast
qed

lemma least_above_snoc:
  "least_above line (es @ [(mid, i, l)]) =
     (if l > line \<and> (case least_above line es of None \<Rightarrow> True | Some (_, _, best) \<Rightarrow> l < best)
      then Some (mid, i, l) else least_above line es)"
  by (simp add: least_above_def)

lemma least_above_spec:
  "(least_above line es = None \<longrightarrow> (\<forall>e \<in> set es. snd (snd e) \<le> line))
   \<and> (least_above line es = Some c \<longrightarrow>
      c \<in> set es \<and> line < snd (snd c) \<and> (\<forall>e \<in> set es. line < snd (snd e) \<longrightarrow> snd (snd c) \<le> snd (snd e)))"
proof (induction es arbitrary: c rule: rev_induct)
  case (snoc e es)
  obtain mid i l where e: "e = (mid, i, l)" by (cases e)
  show ?case
  proof (cases "least_above line es")
    case None
    with snoc have "\<forall>e \<in> set es. snd (snd e) \<le> line" by simp
    with None show ?thesis unfolding e least_above_snoc by (auto simp: not_less dest: leD)
  next
    case (Some b)
    obtain bm bi bl where b: "b = (bm, bi, bl)" by (cases b)
    from snoc [of b] Some have "b \<in> set es" "line < bl" "\<forall>e \<in> set es. line < snd (snd e) \<longrightarrow> bl \<le> snd (snd e)"
      by (simp_all add: b)
    with Some b show ?thesis unfolding e least_above_snoc by (auto simp: not_less intro: less_imp_le order_trans)
  qed
qed (simp add: least_above_def)

text \<open>
  A breakpoint is bound at the right place: \<open>choose_line\<close> (the choice made by
  \<open>bind_lines_in_class\<close> over the line tables of a class) finds nothing exactly when the class has
  no code at or below the requested line; it picks an entry of one of the tables; that entry has
  the requested line whenever any entry has it, and otherwise the smallest line after it.
\<close>

theorem choose_line_spec:
  "(choose_line tables line = None \<longleftrightarrow> (\<forall>e \<in> set (table_entries tables). snd (snd e) < line))
   \<and> (choose_line tables line = Some c \<longrightarrow>
        c \<in> set (table_entries tables) \<and> line \<le> snd (snd c)
        \<and> (\<forall>e \<in> set (table_entries tables). line \<le> snd (snd e) \<longrightarrow> snd (snd c) \<le> snd (snd e)))"
proof -
  have find: "find (\<lambda>(_, _, l). l = line) es = find (\<lambda>e. snd (snd e) = line) es" for es :: "(u64 \<times> u64 \<times> u32) list"
    by (simp add: case_prod_unfold)
  show ?thesis
  proof (cases "find (\<lambda>e. snd (snd e) = line) (table_entries tables)")
    case None
    then have none: "\<forall>e \<in> set (table_entries tables). snd (snd e) \<noteq> line" by (auto simp: find_None_iff)
    have "choose_line tables line = least_above line (table_entries tables)"
      by (simp add: choose_line_def find None)
    with none least_above_spec [of line "table_entries tables"] show ?thesis
      by (cases "least_above line (table_entries tables)") (fastforce simp: le_less)+
  next
    case (Some e)
    then have "e \<in> set (table_entries tables)" "snd (snd e) = line"
      by (auto simp: find_Some_iff)
    then show ?thesis by (auto simp: choose_line_def find Some)
  qed
qed

lemma line_for_index_spec_witness:
  "\<exists>i as bs. filter (\<lambda>e. fst e \<le> 5) [(0, 10), (4, 12), (9, 14)] = as @ (i :: u64, 12 :: u32) # bs
         \<and> (\<forall>a \<in> set as. fst a \<le> i) \<and> (\<forall>b \<in> set bs. fst b < i)"
  using line_for_index_spec [of "\<lparr>lt_start = 0, lt_end = 9, lt_lines = [(0, 10), (4, 12), (9, 14)]\<rparr>" 5 12]
  by (simp add: line_for_index_def max_by_key_def)

lemma choose_line_spec_witness:
  "choose_line [(7, \<lparr>lt_start = 0, lt_end = 9, lt_lines = [(0, 10), (4, 12), (9, 14)]\<rparr>)] 11 = Some (7, 4, 12)
   \<and> (7, 4, 12) \<in> set (table_entries [(7, \<lparr>lt_start = 0, lt_end = 9, lt_lines = [(0, 10), (4, 12), (9, 14)]\<rparr>)]) \<and> (11 :: u32) \<le> 12"
  using choose_line_spec [of "[(7, \<lparr>lt_start = 0, lt_end = 9, lt_lines = [(0, 10), (4, 12), (9, 14)]\<rparr>)]" 11 "(7, 4, 12)"]
  by (simp add: choose_line_def table_entries_def least_above_def)

section \<open>Type names\<close>

lemma strip_dims_replicate:
  "s = [] \<or> hd s \<noteq> CHR ''['' \<Longrightarrow> strip_dims (replicate n (CHR ''['') @ s) = (n, s)"
  by (induction n) (cases s, auto)+

lemma strip_suffix_append: "strip_suffix p (s @ p) = Some s"
  by (simp add: strip_suffix_def ends_with_def)

text \<open>
  \<open>pretty_type\<close> on descriptors: an array of \<open>n\<close> dimensions of the class with binary name \<open>b\<close>
  is shown as \<open>b\<close> with its slashes and dollar signs as dots, followed by \<open>n\<close> pairs of brackets; of
  a primitive type as the Java keyword with the brackets. The result never contains a slash, a
  dollar sign or a semicolon when \<open>b\<close> has no semicolon.
\<close>

theorem pretty_type_descriptor:
  "pretty_type (replicate n (CHR ''['') @ ''L'' @ b @ '';'') = dot_separators b @ concat (replicate n ''[]'')
   \<and> ((c, name) \<in> {(CHR ''Z'', ''boolean''), (CHR ''B'', ''byte''), (CHR ''C'', ''char''), (CHR ''S'', ''short''),
        (CHR ''I'', ''int''), (CHR ''J'', ''long''), (CHR ''F'', ''float''), (CHR ''D'', ''double''), (CHR ''V'', ''void'')}
     \<longrightarrow> pretty_type (replicate n (CHR ''['') @ [c]) = name @ concat (replicate n ''[]''))
   \<and> (CHR '';'' \<notin> set b \<longrightarrow>
        set (pretty_type (replicate n (CHR ''['') @ ''L'' @ b @ '';'')) \<inter> {CHR ''/'', CHR ''$'', CHR '';''} = {})"
  by (auto simp: pretty_type_def strip_dims_replicate base_type_def strip_suffix_append dot_separators_def
      split: if_splits)

lemma pretty_type_descriptor_witness:
  "set (pretty_type (replicate 2 (CHR ''['') @ ''L'' @ ''java/util/Map$Entry'' @ '';'')) \<inter> {CHR ''/'', CHR ''$'', CHR '';''} = {}"
  using pretty_type_descriptor [of 2 "''java/util/Map$Entry''" "CHR ''I''" "''int''"]
  by (simp add: dot_separators_def)

section \<open>The package scanner\<close>

text \<open>What may stand before the declaration: white space, line comments, block comments.\<close>

datatype trivia = Blank char | LineComment string | BlockComment string

fun show_trivia :: "trivia \<Rightarrow> string" where
  "show_trivia (Blank c) = [c]"
| "show_trivia (LineComment s) = ''//'' @ s @ [CHR 0x0A]"
| "show_trivia (BlockComment s) = ''/*'' @ s @ ''*/''"

fun trivia_ok :: "trivia \<Rightarrow> bool" where
  "trivia_ok (Blank c) = (c \<in> {CHR 0x20, CHR 0x09, CHR 0x0A, CHR 0x0D})"
| "trivia_ok (LineComment s) = (CHR 0x0A \<notin> set s)"
| "trivia_ok (BlockComment s) = (find_sub ''*/'' (s @ ''*/'') = Some (length s))"

definition name_char :: "char \<Rightarrow> bool" where
  "name_char c = (is_ascii_alphanumeric c \<or> c = CHR ''.'' \<or> c = CHR ''_'' \<or> c = CHR ''$'')"

lemma skip_block_end: "find_sub ''*/'' (s @ ''*/'') = Some (length s) \<Longrightarrow> skip_block (s @ ''*/'' @ rest) = rest"
proof (induction s)
  case (Cons c s)
  then have ne: "\<not> starts_with ''*/'' (c # s @ ''*/'')" and "find_sub ''*/'' (s @ ''*/'') = Some (length s)"
    by (auto split: if_splits)
  with Cons.IH show ?case
    by (cases s) (auto simp: starts_with_def)
qed simp

lemma first_word_blank: "c \<in> {CHR 0x20, CHR 0x09, CHR 0x0A, CHR 0x0D} \<Longrightarrow> first_word (c # rest) = first_word rest"
  by (subst first_word.simps(2)) (elim insertE; simp add: is_ascii_alphabetic_def)

lemma dropWhile_to: "c \<notin> set s \<Longrightarrow> dropWhile (\<lambda>x. x \<noteq> c) (s @ c # r) = c # r"
  by (induction s) auto

lemma first_word_line: "CHR 0x0A \<notin> set s \<Longrightarrow> first_word (''//'' @ s @ CHR 0x0A # rest) = first_word rest"
proof -
  assume "CHR 0x0A \<notin> set s"
  then have "dropWhile (\<lambda>x. x \<noteq> CHR 0x0A) (''/'' @ s @ CHR 0x0A # rest) = CHR 0x0A # rest"
    by (simp add: dropWhile_to)
  then show ?thesis by (simp add: first_word.simps(2) [of "CHR ''/''"] first_word_blank)
qed

lemma first_word_block:
  "find_sub ''*/'' (s @ ''*/'') = Some (length s) \<Longrightarrow> first_word (''/*'' @ s @ ''*/'' @ rest) = first_word rest"
  using skip_block_end [of s rest] by (simp add: first_word.simps(2))

lemma first_word_trivia: "trivia_ok t \<Longrightarrow> first_word (show_trivia t @ rest) = first_word rest"
  using first_word_blank first_word_line first_word_block by (cases t) simp_all

lemma first_word_trivias: "list_all trivia_ok ts \<Longrightarrow> first_word (concat (map show_trivia ts) @ rest) = first_word rest"
  by (induction ts) (simp_all add: first_word_trivia)

lemma find_sub_semi: "CHR '';'' \<notin> set s \<Longrightarrow> find_sub '';'' (s @ '';'' @ rest) = Some (length s)"
  by (induction s) (auto simp: starts_with_def)

lemma first_word_package: "first_word (''package'' @ CHR 0x20 # s) = Some (''package'', CHR 0x20 # s)"
  by (simp add: first_word.simps(2) is_ascii_alphabetic_def word_char_def is_ascii_alphanumeric_def is_digit_def)

text \<open>
  \<open>scan_package\<close> finds the package of an ordinary source file: after any sequence of white
  space, line comments and block comments (whatever they contain, including the word
  \<open>package\<close>), the declaration \<open>package name;\<close> yields exactly the name, whatever follows.
\<close>

theorem scan_package_declared:
  assumes "list_all trivia_ok ts" and "list_all name_char name" and "name \<noteq> []"
  shows "scan_package (concat (map show_trivia ts) @ ''package '' @ name @ '';'' @ rest) = Some name"
proof -
  have "CHR '';'' \<notin> set (CHR 0x20 # name)"
    using assms(2) by (auto simp: list_all_iff name_char_def is_ascii_alphanumeric_def is_ascii_alphabetic_def is_digit_def)
  from find_sub_semi [OF this] have semi: "find_sub '';'' (CHR 0x20 # name @ '';'' @ rest) = Some (Suc (length name))" by simp
  have "filter (\<lambda>c. is_ascii_alphanumeric c \<or> c = CHR ''.'' \<or> c = CHR ''_'' \<or> c = CHR ''$'') name = name"
    using assms(2) by (simp add: filter_id_conv list_all_iff name_char_def)
  moreover have "first_word (concat (map show_trivia ts) @ ''package '' @ name @ '';'' @ rest)
      = Some (''package'', CHR 0x20 # name @ '';'' @ rest)"
    using first_word_trivias [OF assms(1)] first_word_package [of "name @ '';'' @ rest"] by simp
  ultimately show ?thesis
    using semi assms(3)
    by (simp add: scan_package_def is_ascii_alphanumeric_def is_ascii_alphabetic_def is_digit_def)
qed

lemma scan_package_declared_witness:
  "scan_package (concat (map show_trivia [LineComment '' package x;'', Blank (CHR 0x20), BlockComment '' * package y; '']) @ ''package '' @ ''com.example'' @ '';'' @ '' class A {}'')
   = Some ''com.example''"
  by (rule scan_package_declared)
     (simp_all add: starts_with_def name_char_def is_ascii_alphanumeric_def is_ascii_alphabetic_def)

text \<open>
  Inside the declaration comments are not skipped: the letters of a comment between
  \<open>package\<close> and the semicolon become part of the reported name.
\<close>

theorem scan_package_inner_comment:
  "scan_package ''package /* old */ com.example;'' = Some ''oldcom.example''"
proof -
  have "find_sub '';'' ('' /* old */ com.example'' @ '';'' @ []) = Some (length '' /* old */ com.example'')"
    by (rule find_sub_semi) simp
  then show ?thesis
    using first_word_package [of "''/* old */ com.example;''"]
    by (simp add: scan_package_def is_ascii_alphanumeric_def is_ascii_alphabetic_def is_digit_def del: find_sub.simps)
qed

section \<open>Forwarded output\<close>

lemma flush_lines_None:
  "newline_at p = None \<Longrightarrow> flush_lines p = (if OUTPUT_CHUNK_CAP \<le> length p then ([p], []) else ([], p))"
  by (subst flush_lines.simps) simp

lemma flush_lines_Some:
  "newline_at p = Some k \<Longrightarrow> flush_lines (drop (k + 1) p) = (ls, r) \<Longrightarrow> flush_lines p = (take (k + 1) p # ls, r)"
  by (subst flush_lines.simps) simp

text \<open>The pieces cut off and the rest make up the buffer, each piece is complete, the rest is not.\<close>

definition flushed :: "bytes \<Rightarrow> bytes list \<Rightarrow> bytes \<Rightarrow> bool" where
  "flushed p ls r \<longleftrightarrow> p = concat ls @ r \<and> 10 \<notin> set r \<and> length r < OUTPUT_CHUNK_CAP
     \<and> (\<forall>l \<in> set ls. l \<noteq> [] \<and> length l \<le> length p \<and> (last l = 10 \<or> OUTPUT_CHUNK_CAP \<le> length l))"

lemma flushed_Cons:
  assumes "flushed q ls r" "l \<noteq> []" "last l = 10"
  shows "flushed (l @ q) (l # ls) r"
  using assms by (auto simp: flushed_def)

lemma flush_lines_flushed: "flush_lines p = (ls, r) \<Longrightarrow> flushed p ls r"
proof (induction p arbitrary: ls r rule: flush_lines.induct)
  case (1 p)
  show ?case
  proof (cases "newline_at p")
    case None
    with 1(2) newline_at_None [OF None] show ?thesis
      by (auto simp: flush_lines_None flushed_def OUTPUT_CHUNK_CAP_def split: if_splits)
  next
    case (Some k)
    note k = newline_at_Some [OF Some]
    obtain ls' r' where rec: "flush_lines (drop (k + 1) p) = (ls', r')" by fastforce
    then have eq: "ls = take (k + 1) p # ls'" "r = r'"
      using 1(2) flush_lines_Some [OF Some rec] by simp_all
    have "last (take (k + 1) p) = 10" "take (k + 1) p \<noteq> []"
      using k by (auto simp: take_Suc_conv_app_nth)
    from flushed_Cons [OF 1(1) [OF Some rec] this(2,1)] show ?thesis by (simp add: eq)
  qed
qed

lemmas flush_lines_spec = flush_lines_flushed [unfolded flushed_def]

lemma pieces_concat: "concat (forward_pieces p chunks) = p @ concat chunks"
proof (induction p chunks rule: forward_pieces.induct)
  case (1 p)
  obtain ls r where f: "flush_lines p = (ls, r)" by fastforce
  with flush_lines_spec [OF f] show ?case by simp
next
  case (2 p chunk chunks)
  obtain ls r where f: "flush_lines p = (ls, r)" by fastforce
  with flush_lines_spec [OF f] 2 [OF f [symmetric] refl] show ?case by simp
qed

lemma pieces_nonempty: "[] \<notin> set (forward_pieces p chunks)"
proof (induction p chunks rule: forward_pieces.induct)
  case (1 p)
  obtain ls r where f: "flush_lines p = (ls, r)" by fastforce
  with flush_lines_spec [OF f] show ?case by auto
next
  case (2 p chunk chunks)
  obtain ls r where f: "flush_lines p = (ls, r)" by fastforce
  with flush_lines_spec [OF f] 2 [OF f [symmetric] refl] show ?case by auto
qed

lemma pieces_complete:
  "l \<in> set (butlast (forward_pieces p chunks)) \<Longrightarrow> last l = 10 \<or> OUTPUT_CHUNK_CAP \<le> length l"
proof (induction p chunks rule: forward_pieces.induct)
  case (1 p)
  obtain ls r where f: "flush_lines p = (ls, r)" by fastforce
  with 1 have "l \<in> set ls" by (auto simp: butlast_append dest: in_set_butlastD split: if_splits)
  with flush_lines_spec [OF f] show ?case by blast
next
  case (2 p chunk chunks)
  obtain ls r where f: "flush_lines p = (ls, r)" by fastforce
  with 2(2) have "l \<in> set ls \<or> l \<in> set (butlast (forward_pieces (r @ chunk) chunks))"
    by (auto simp: butlast_append dest: in_set_butlastD split: if_splits)
  with flush_lines_spec [OF f] 2(1) [OF f [symmetric] refl] show ?case by blast
qed

lemma pieces_short:
  "length p < OUTPUT_CHUNK_CAP + 4096 \<Longrightarrow> \<forall>c \<in> set chunks. length c \<le> 4096
   \<Longrightarrow> \<forall>l \<in> set (forward_pieces p chunks). length l < OUTPUT_CHUNK_CAP + 4096"
proof (induction p chunks rule: forward_pieces.induct)
  case (1 p)
  obtain ls r where f: "flush_lines p = (ls, r)" by fastforce
  note spec = flush_lines_spec [OF f]
  then have "\<forall>l \<in> set ls. length l < OUTPUT_CHUNK_CAP + 4096" using 1(1) by (meson order_le_less_trans)
  with f spec show ?case by auto
next
  case (2 p chunk chunks)
  obtain ls r where f: "flush_lines p = (ls, r)" by fastforce
  note spec = flush_lines_spec [OF f]
  then have "\<forall>l \<in> set ls. length l < OUTPUT_CHUNK_CAP + 4096" using 2(2) by (meson order_le_less_trans)
  moreover have "length (r @ chunk) < OUTPUT_CHUNK_CAP + 4096" using spec 2(3) by auto
  ultimately show ?case using 2(1) [OF f [symmetric] refl] 2(3) f by auto
qed

text \<open>
  No child output is lost, reordered or held back: for every way the stream is chopped into
  reads, the pieces that \<open>forward_stream\<close> sends are, in order, exactly the bytes of the stream;
  every piece but the last is a complete line or has reached the 8 KiB cap; and with reads of at
  most 4 KiB no piece is as long as the cap and one read together.
\<close>

theorem forward_stream_lossless:
  "concat (forward_pieces initial chunks) = initial @ concat chunks
   \<and> (\<forall>p \<in> set (butlast (forward_pieces initial chunks)). last p = 10 \<or> OUTPUT_CHUNK_CAP \<le> length p)
   \<and> [] \<notin> set (forward_pieces initial chunks)
   \<and> (length initial < OUTPUT_CHUNK_CAP + 4096 \<and> (\<forall>c \<in> set chunks. length c \<le> 4096) \<longrightarrow>
        (\<forall>p \<in> set (forward_pieces initial chunks). length p < OUTPUT_CHUNK_CAP + 4096))"
  using pieces_concat pieces_complete pieces_nonempty pieces_short by auto

lemma forward_stream_lossless_witness:
  "concat (forward_pieces [] [[104, 105, 10, 104], [111]]) = [104, 105, 10, 104, 111 :: u8]
   \<and> list_all (\<lambda>p. length p < OUTPUT_CHUNK_CAP + 4096) (forward_pieces [] [[104, 105, 10, 104], [111]])"
  using forward_stream_lossless [of "[]" "[[104, 105, 10, 104], [111]]"]
  by (simp add: OUTPUT_CHUNK_CAP_def list_all_iff)

lemma find_sub_split: "find_sub p s = Some i \<Longrightarrow> s = take i s @ p @ drop (i + length p) s"
  using find_sub_SomeD [of p s i] append_take_drop_id [of i s] append_take_drop_id [of "length p" "drop i s"]
  by (simp add: starts_with_def add.commute)

lemma find_sub_first: "find_sub [c] s = Some i \<Longrightarrow> c \<notin> set (take i s)"
  by (induction s arbitrary: i) (auto simp: starts_with_def split: if_splits)

lemma listen_line_split:
  assumes "listen_line text = Some (b, a, r)"
  shows "text = b @ LISTEN_PATTERN @ a @ CHR 0x0A # r" "CHR 0x0A \<notin> set a"
proof -
  from assms obtain k nl where k: "find_sub LISTEN_PATTERN text = Some k"
    and nl: "find_sub [CHR 0x0A] (drop (k + length LISTEN_PATTERN) text) = Some nl"
    and bar: "b = take k text" "a = take nl (drop (k + length LISTEN_PATTERN) text)"
      "r = drop (nl + 1) (drop (k + length LISTEN_PATTERN) text)"
    by (auto simp: listen_line_def Let_def split: option.splits)
  from find_sub_split [OF nl] have "drop (k + length LISTEN_PATTERN) text = a @ CHR 0x0A # r"
    unfolding bar by simp
  with find_sub_split [OF k] show "text = b @ LISTEN_PATTERN @ a @ CHR 0x0A # r" unfolding bar(1) by simp
  show "CHR 0x0A \<notin> set a" unfolding bar(2) using nl by (rule find_sub_first)
qed

fun read_bytes :: "bool \<times> (string + bytes) \<Rightarrow> bytes" where
  "read_bytes (_, Inr chunk) = chunk"
| "read_bytes (_, Inl _) = []"

lemma wait_stdout_found:
  assumes "wait_for_listen_port acc [] rs = Some (Inr (port, early))"
    and "list_all (\<lambda>(is_stdout, _). is_stdout) rs"
  shows "\<exists>k b a r. listen_line (from_utf8_lossy (acc @ concat (map read_bytes (take k rs)))) = Some (b, a, r)
           \<and> listen_found True b a r [] = Inr (port, early)"
  using assms
proof (induction rs arbitrary: acc)
  case (Cons x rs)
  obtain chunk where x: "x = (True, Inr chunk)" and ne: "chunk \<noteq> []"
    using Cons.prems by (cases x) (auto split: sum.splits if_splits)
  show ?case
  proof (cases "listen_line (from_utf8_lossy (acc @ chunk))")
    case None
    with Cons.prems x ne have "wait_for_listen_port (acc @ chunk) [] rs = Some (Inr (port, early))" by simp
    from Cons.IH [OF this] Cons.prems obtain k b a r where
      "listen_line (from_utf8_lossy ((acc @ chunk) @ concat (map read_bytes (take k rs)))) = Some (b, a, r)"
      "listen_found True b a r [] = Inr (port, early)" by auto
    then show ?thesis by (intro exI [of _ "Suc k"]) (simp add: x)
  next
    case (Some t)
    with Cons.prems x ne show ?thesis by (intro exI [of _ "Suc 0"]) (cases t, simp)
  qed
qed simp

text \<open>
  The listen line: when \<open>wait_for_listen_port\<close> succeeds on reads that all come from stdout, the
  output read is some text, the HotSpot pattern, an address without newline, a newline and more
  text; the port is the number the address spells (at most 65,535), and what is handed on as early
  output is exactly the text before and after that line.
\<close>

theorem listen_port_found:
  assumes "wait_for_listen_port [] [] rs = Some (Inr (port, early))"
    and "list_all (\<lambda>(is_stdout, _). is_stdout) rs"
  shows "\<exists>k before address after.
      from_utf8_lossy (concat (map read_bytes (take k rs))) = before @ LISTEN_PATTERN @ address @ CHR 0x0A # after
      \<and> CHR 0x0A \<notin> set address \<and> parse_uint 65535 (trim address) = Some port \<and> port \<le> 65535
      \<and> early = (if before @ after = [] then [] else [(''stdout'', before @ after)])"
proof -
  from wait_stdout_found [OF assms] obtain k b a r where
    l: "listen_line (from_utf8_lossy (concat (map read_bytes (take k rs)))) = Some (b, a, r)" and f: "listen_found True b a r [] = Inr (port, early)"
    by auto
  from f have p: "parse_uint 65535 (trim a) = Some port"
    "early = (if b @ r = [] then [] else [(''stdout'', b @ r)])"
    by (auto simp: listen_found_def Let_def split: option.splits)
  moreover from parse_uint_bound [OF p(1)] have "port \<le> 65535" .
  ultimately show ?thesis using listen_line_split [OF l] by blast
qed

lemma listen_line_ascii:
  assumes "LISTEN_PATTERN = p" "find_sub p (b @ p @ a @ CHR 0x0A # r) = Some (length b)" "CHR 0x0A \<notin> set a"
  shows "listen_line (b @ p @ a @ CHR 0x0A # r) = Some (b, a, r)"
proof -
  have "find_sub [CHR 0x0A] (a @ CHR 0x0A # r) = Some (length a)"
    using assms(3) by (induction a) (auto simp: starts_with_def)
  with assms show ?thesis by (simp add: listen_line_def Let_def)
qed

lemma listen_port_found_witness:
  "\<exists>k before address after.
      from_utf8_lossy (concat (map read_bytes (take k [(True, Inr (as_bytes (LISTEN_PATTERN @ show_nat 5005 @ [CHR 0x0A])))])))
        = before @ LISTEN_PATTERN @ address @ CHR 0x0A # after
      \<and> CHR 0x0A \<notin> set address \<and> parse_uint 65535 (trim address) = Some 5005 \<and> (5005 :: nat) \<le> 65535
      \<and> ([] :: (string \<times> string) list) = (if before @ after = [] then [] else [(''stdout'', before @ after)])"
proof (rule listen_port_found)
  let ?t = "LISTEN_PATTERN @ show_nat 5005 @ [CHR 0x0A]"
  have ascii: "list_all (\<lambda>c. \<not> digit7 c) (show_nat 5005)" "CHR 0x0A \<notin> set (show_nat 5005)"
    using show_nat_digits [of 5005] by (auto simp: list_all_iff dest: digit_ascii)
  then have "valid_str ?t" by (intro valid_str_ascii) (simp add: LISTEN_PATTERN_def)
  then have u: "from_utf8_lossy (as_bytes ?t) = ?t" by (rule from_utf8_lossy_as_bytes)
  have "starts_with LISTEN_PATTERN ([] @ LISTEN_PATTERN @ show_nat 5005 @ CHR 0x0A # [])" by simp
  then have "find_sub LISTEN_PATTERN ([] @ LISTEN_PATTERN @ show_nat 5005 @ CHR 0x0A # []) = Some (length ([] :: string))"
    by (simp add: LISTEN_PATTERN_def)
  from listen_line_ascii [OF refl this ascii(2)] have "listen_line ?t = Some ([], show_nat 5005, [])" by simp
  moreover have "parse_uint 65535 (trim (show_nat 5005)) = Some 5005" by (simp add: trim_show_nat parse_show_nat)
  moreover have "as_bytes [CHR 0x0A] \<noteq> []" by (simp add: as_bytes_def)
  ultimately show "wait_for_listen_port [] [] [(True, Inr (as_bytes ?t))] = Some (Inr (5005, []))"
    using u by (simp add: listen_found_def)
qed simp

end
