(* ===== verification/Maven_Resolver.thy ===== *)
theory Maven_Resolver
  imports Rust_Paths
begin

text \<open>
  \<open>crates/classpath/src/resolve.rs\<close> and \<open>crates/classpath/src/maven.rs\<close>: the offline resolver of
  Maven dependency graphs.

  The XML parser is third-party: \<open>re_parse\<close> maps a document's text to the tree that the parser
  presents, each element with its local name, what \<open>text()\<close> returns for it, and its children. A hash
  map is an association list with one pair per key; the one loop whose result depends on the
  iteration order of such a map (\<open>substitute\<close>) takes the order from \<open>re_iter\<close>. A map that is only
  looked up is a partial function. A \<open>Locator\<close> is the record of its two methods.
\<close>

section \<open>Coordinates in a Maven repository\<close>

definition unsafe_coord :: "string \<Rightarrow> bool" where
  "unsafe_coord s \<longleftrightarrow> s = [] \<or> contains_sub ''..'' s \<or> CHR ''/'' \<in> set s \<or> CHR 0x5C \<in> set s \<or> CHR '':'' \<in> set s"

definition m2_relative_ext :: "string \<Rightarrow> string \<Rightarrow> string \<Rightarrow> string \<Rightarrow> string option" where
  "m2_relative_ext grp artifact version ext =
     (if list_ex unsafe_coord [grp, artifact, version] then None
      else Some (replace_char (CHR ''.'') ''/'' grp @ ''/'' @ artifact @ ''/'' @ version @ ''/''
                 @ artifact @ ''-'' @ version @ ''.'' @ ext))"

definition m2_relative :: "string \<Rightarrow> string \<Rightarrow> string \<Rightarrow> string option" where
  "m2_relative grp artifact version = m2_relative_ext grp artifact version ''jar''"

record locator =
  locate_pom :: "string \<Rightarrow> string \<Rightarrow> string \<Rightarrow> string option"
  locate_jar :: "string \<Rightarrow> string \<Rightarrow> string \<Rightarrow> string option"

definition existing_file :: "fs \<Rightarrow> string \<Rightarrow> string option" where
  "existing_file fs path = (if fs_is_file fs path then Some path else None)"

definition MavenLocator :: "fs \<Rightarrow> string \<Rightarrow> locator" where
  "MavenLocator fs m2_repo =
     \<lparr>locate_pom = (\<lambda>grp artifact version.
        Option.bind (m2_relative_ext grp artifact version ''pom'') (\<lambda>rel. existing_file fs (path_join m2_repo rel))),
      locate_jar = (\<lambda>grp artifact version.
        Option.bind (m2_relative grp artifact version) (\<lambda>rel. existing_file fs (path_join m2_repo rel)))\<rparr>"

section \<open>Documents\<close>

datatype xnode = XElem string "string option" "xnode list" | XOther

fun is_element :: "xnode \<Rightarrow> bool" where
  "is_element (XElem _ _ _) = True"
| "is_element XOther = False"

fun x_name :: "xnode \<Rightarrow> string" where
  "x_name (XElem n _ _) = n"
| "x_name XOther = []"

fun x_text :: "xnode \<Rightarrow> string option" where
  "x_text (XElem _ t _) = t"
| "x_text XOther = None"

fun x_children :: "xnode \<Rightarrow> xnode list" where
  "x_children (XElem _ _ cs) = cs"
| "x_children XOther = []"

definition has_tag_name :: "string \<Rightarrow> xnode \<Rightarrow> bool" where
  "has_tag_name tag n \<longleftrightarrow> is_element n \<and> x_name n = tag"

text \<open>\<open>descendants()\<close>: the node and everything below it, in document order.\<close>

fun descendants :: "xnode \<Rightarrow> xnode list" where
  "descendants (XElem n t cs) = XElem n t cs # concat (map descendants cs)"
| "descendants XOther = [XOther]"

record resolver_env =
  re_fs :: fs
  re_parse :: "string \<Rightarrow> xnode option"
  re_iter :: "(string \<times> string) list \<Rightarrow> (string \<times> string) list"

section \<open>Data\<close>

definition MAX_POM_BYTES :: nat where "MAX_POM_BYTES = 4 * 1024 * 1024"

definition MAX_DEPTH :: nat where "MAX_DEPTH = 25"

definition MAX_NODES :: nat where "MAX_NODES = 2000"

record resolved_project =
  rp_jars :: "string list"
  rp_source_roots :: "string list"
  rp_degraded :: "string list"

record raw_dep =
  rd_group :: string
  rd_artifact :: string
  rd_version :: "string option"
  rd_scope :: string
  rd_optional :: bool
  rd_classifier :: "string option"
  rd_exclusions :: "(string \<times> string) set"

record managed_dep =
  md_version :: "string option"
  md_scope :: "string option"

record effective_pom =
  ep_dependencies :: "raw_dep list"
  ep_modules :: "string list"
  ep_degraded :: "string list"

record seed =
  sd_group :: string
  sd_artifact :: string
  sd_version :: string
  sd_exclusions :: "(string \<times> string) set"

record raw_effective =
  re_group :: string
  re_version :: string
  re_props :: "(string \<times> string) list"
  re_managed :: "string \<times> string \<rightharpoonup> managed_dep"
  re_dependencies :: "raw_dep list"
  re_modules :: "string list"
  re_degraded :: "string list"

definition coord_str :: "string \<Rightarrow> string \<Rightarrow> string \<Rightarrow> string" where
  "coord_str grp artifact version = grp @ '':'' @ artifact @ '':'' @ version"

section \<open>Substitution of properties\<close>

definition needle_of :: "string \<Rightarrow> string" where
  "needle_of key = ''${'' @ key @ ''}''"

definition subst_one :: "string \<times> bool \<Rightarrow> string \<times> string \<Rightarrow> string \<times> bool" where
  "subst_one = (\<lambda>(out, changed) (key, val).
     (if contains_sub (needle_of key) out then (replace_sub (needle_of key) val out, True) else (out, changed)))"

fun subst_passes :: "nat \<Rightarrow> (string \<times> string) list \<Rightarrow> string \<Rightarrow> string" where
  "subst_passes 0 order out = out"
| "subst_passes (Suc n) order out =
     (let (out', changed) = foldl subst_one (out, False) order in
      if changed then subst_passes n order out' else out')"

definition substitute :: "resolver_env \<Rightarrow> string \<Rightarrow> (string \<times> string) list \<Rightarrow> string" where
  "substitute env value props = subst_passes 5 (re_iter env props) value"

definition child :: "xnode \<Rightarrow> string \<Rightarrow> xnode option" where
  "child node tag = find (\<lambda>n. is_element n \<and> has_tag_name tag n) (x_children node)"

definition children_named :: "xnode \<Rightarrow> string \<Rightarrow> xnode list" where
  "children_named node tag = filter (\<lambda>n. is_element n \<and> has_tag_name tag n) (x_children node)"

definition child_text :: "xnode \<Rightarrow> string \<Rightarrow> string option" where
  "child_text node tag =
     (case map_option trim (Option.bind (child node tag) x_text) of
        Some t \<Rightarrow> if t = [] then None else Some t
      | None \<Rightarrow> None)"

definition child_subst :: "resolver_env \<Rightarrow> (string \<times> string) list \<Rightarrow> xnode \<Rightarrow> string \<Rightarrow> string option" where
  "child_subst env props node tag = map_option (\<lambda>t. substitute env t props) (child_text node tag)"

section \<open>The parent reference of a project's own pom\<close>

fun normalize_loop :: "component list \<Rightarrow> component list \<Rightarrow> nat \<Rightarrow> component list option" where
  "normalize_loop [] out depth = Some out"
| "normalize_loop (RootDir # cs) out depth = normalize_loop cs [RootDir] depth"
| "normalize_loop (CurDir # cs) out depth = normalize_loop cs out depth"
| "normalize_loop (ParentDir # cs) out depth =
     (if depth = 0 then None else normalize_loop cs (butlast out) (depth - 1))"
| "normalize_loop (Normal part # cs) out depth = normalize_loop cs (out @ [Normal part]) (depth + 1)"

definition lexical_normalize :: "string \<Rightarrow> string option" where
  "lexical_normalize path = map_option show_path (normalize_loop (components path) [] 0)"

definition project_local_parent :: "fs \<Rightarrow> string \<Rightarrow> string \<Rightarrow> string \<Rightarrow> string option" where
  "project_local_parent fs pom_path rel project_root =
     (if rel = [] \<or> is_absolute rel then None
      else Option.bind (parent pom_path) (\<lambda>dir.
           Option.bind (lexical_normalize (path_join dir rel)) (\<lambda>candidate.
           Option.bind (lexical_normalize project_root) (\<lambda>root.
             if \<not> path_starts_with root candidate then None
             else if \<not> fs_is_file fs candidate then None
             else Option.bind (fs_canonicalize fs candidate) (\<lambda>canon.
                  Option.bind (fs_canonicalize fs project_root) (\<lambda>canon_root.
                    if path_starts_with canon_root canon then Some candidate else None))))))"

section \<open>The effective pom\<close>

definition option_or :: "'a option \<Rightarrow> 'a option \<Rightarrow> 'a option" where
  "option_or a b = (case a of Some _ \<Rightarrow> a | None \<Rightarrow> b)"

definition unwrap_or :: "'a option \<Rightarrow> 'a \<Rightarrow> 'a" where
  "unwrap_or a d = (case a of Some x \<Rightarrow> x | None \<Rightarrow> d)"

text \<open>What a pom takes from its parent.\<close>

record parent_info =
  pi_props :: "(string \<times> string) list"
  pi_managed :: "string \<times> string \<rightharpoonup> managed_dep"
  pi_dependencies :: "raw_dep list"
  pi_group :: "string option"
  pi_version :: "string option"

definition no_parent :: parent_info where
  "no_parent = \<lparr>pi_props = [], pi_managed = Map.empty, pi_dependencies = [], pi_group = None, pi_version = None\<rparr>"

definition own_props :: "xnode \<Rightarrow> (string \<times> string) list \<Rightarrow> (string \<times> string) list" where
  "own_props project props =
     (case child project ''properties'' of
        None \<Rightarrow> props
      | Some properties \<Rightarrow>
          foldl (\<lambda>ps prop. case x_text prop of
                   Some text \<Rightarrow> AList.update (x_name prop) (trim text) ps
                 | None \<Rightarrow> ps)
            props (filter is_element (x_children properties)))"

definition implicit_props :: "string \<Rightarrow> string \<Rightarrow> string \<Rightarrow> string option \<Rightarrow> string option
    \<Rightarrow> (string \<times> string) list \<Rightarrow> (string \<times> string) list" where
  "implicit_props version grp own_artifact parent_version parent_group props =
     (let props = AList.update ''project.version'' version props;
          props = AList.update ''project.groupId'' grp props;
          props = AList.update ''project.artifactId'' own_artifact props;
          props = AList.update ''pom.version'' version props;
          props = (case parent_version of None \<Rightarrow> props
                   | Some pv \<Rightarrow> AList.update ''pom.parent.version'' pv
                                 (AList.update ''project.parent.version'' pv props))
      in case parent_group of None \<Rightarrow> props
         | Some pg \<Rightarrow> AList.update ''project.parent.groupId'' pg props)"

text \<open>One entry of \<open>dependencyManagement\<close>; \<open>bom\<close> parses an imported bill of materials.\<close>

definition managed_entry :: "resolver_env \<Rightarrow> locator \<Rightarrow> (string \<Rightarrow> raw_effective option) \<Rightarrow> (string \<times> string) list
    \<Rightarrow> (string \<times> string \<rightharpoonup> managed_dep) \<Rightarrow> xnode \<Rightarrow> (string \<times> string \<rightharpoonup> managed_dep)" where
  "managed_entry env loc bom props own dep =
     (case child_subst env props dep ''groupId'' of
        None \<Rightarrow> own
      | Some g \<Rightarrow> (case child_subst env props dep ''artifactId'' of
          None \<Rightarrow> own
        | Some a \<Rightarrow>
            (let scope = child_subst env props dep ''scope''; version_txt = child_subst env props dep ''version'' in
             if scope = Some ''import'' then
               (case version_txt of
                  None \<Rightarrow> own
                | Some bom_version \<Rightarrow> (case locate_pom loc g a bom_version of
                    None \<Rightarrow> own
                  | Some bom_path \<Rightarrow> (case bom bom_path of
                      None \<Rightarrow> own
                    | Some b \<Rightarrow> re_managed b ++ own)))
             else if own (g, a) = None then own((g, a) \<mapsto> \<lparr>md_version = version_txt, md_scope = scope\<rparr>)
             else own)))"

definition managed_of :: "resolver_env \<Rightarrow> locator \<Rightarrow> (string \<Rightarrow> raw_effective option) \<Rightarrow> (string \<times> string) list
    \<Rightarrow> xnode \<Rightarrow> (string \<times> string \<rightharpoonup> managed_dep) \<Rightarrow> (string \<times> string \<rightharpoonup> managed_dep)" where
  "managed_of env loc bom props project managed =
     (case child project ''dependencyManagement'' of
        None \<Rightarrow> managed
      | Some dep_mgmt \<Rightarrow>
          managed ++ (case child dep_mgmt ''dependencies'' of
                        None \<Rightarrow> Map.empty
                      | Some deps \<Rightarrow> foldl (managed_entry env loc bom props) Map.empty
                                       (children_named deps ''dependency'')))"

definition exclusions_of :: "resolver_env \<Rightarrow> (string \<times> string) list \<Rightarrow> xnode \<Rightarrow> (string \<times> string) set" where
  "exclusions_of env props dep =
     (case child dep ''exclusions'' of
        None \<Rightarrow> {}
      | Some excl_list \<Rightarrow>
          foldl (\<lambda>s excl.
             case (child_subst env props excl ''groupId'', child_subst env props excl ''artifactId'') of
               (Some eg, Some ea) \<Rightarrow> insert (eg, ea) s
             | _ \<Rightarrow> s) {} (children_named excl_list ''exclusion''))"

definition dependency_of :: "resolver_env \<Rightarrow> (string \<times> string) list \<Rightarrow> (string \<times> string \<rightharpoonup> managed_dep)
    \<Rightarrow> xnode \<Rightarrow> raw_dep option" where
  "dependency_of env props managed dep =
     Option.bind (child_subst env props dep ''groupId'') (\<lambda>g.
     Option.bind (child_subst env props dep ''artifactId'') (\<lambda>a.
     let version = (case child_subst env props dep ''version'' of
            Some v \<Rightarrow> if v = [] \<or> contains_sub ''${'' v then Option.bind (managed (g, a)) md_version else Some v
          | None \<Rightarrow> Option.bind (managed (g, a)) md_version);
         scope = (case child_subst env props dep ''scope'' of
            Some s \<Rightarrow> if s = [] then Option.bind (managed (g, a)) md_scope else Some s
          | None \<Rightarrow> Option.bind (managed (g, a)) md_scope);
         is_optional = (case child_subst env props dep ''optional'' of
            Some o' \<Rightarrow> to_ascii_lowercase o' = ''true'' | None \<Rightarrow> False)
     in Some \<lparr>rd_group = g, rd_artifact = a, rd_version = version, rd_scope = unwrap_or scope ''compile'',
          rd_optional = is_optional, rd_classifier = child_subst env props dep ''classifier'',
          rd_exclusions = exclusions_of env props dep\<rparr>))"

definition dep_key :: "raw_dep \<Rightarrow> string \<times> string" where
  "dep_key d = (rd_group d, rd_artifact d)"

definition inherit_dependencies :: "raw_dep list \<Rightarrow> raw_dep list \<Rightarrow> raw_dep list" where
  "inherit_dependencies parent_dependencies dependencies =
     (if parent_dependencies = [] then dependencies
      else filter (\<lambda>d. dep_key d \<notin> dep_key ` set dependencies) parent_dependencies @ dependencies)"

definition parse_effective_pom_raw_from_doc :: "resolver_env \<Rightarrow> locator \<Rightarrow> (string \<Rightarrow> raw_effective option)
    \<Rightarrow> xnode \<Rightarrow> parent_info \<Rightarrow> raw_effective" where
  "parse_effective_pom_raw_from_doc env loc bom project pi =
     (let props = own_props project (pi_props pi);
          own_group = child_subst env props project ''groupId'';
          own_artifact = unwrap_or (child_subst env props project ''artifactId'') [];
          own_version = child_subst env props project ''version'';
          grp = unwrap_or (option_or own_group (pi_group pi)) [];
          version = unwrap_or (option_or own_version (pi_version pi)) [];
          props = implicit_props version grp own_artifact (pi_version pi) (pi_group pi) props;
          managed = managed_of env loc bom props project (pi_managed pi);
          own_dependencies = (case child project ''dependencies'' of
              None \<Rightarrow> []
            | Some deps \<Rightarrow> List.map_filter (dependency_of env props managed) (children_named deps ''dependency''));
          modules = (case child project ''modules'' of
              None \<Rightarrow> []
            | Some mods \<Rightarrow> List.map_filter (\<lambda>m. map_option (\<lambda>t. substitute env (trim t) props) (x_text m))
                             (children_named mods ''module''))
      in \<lparr>re_group = grp, re_version = version, re_props = props, re_managed = managed,
          re_dependencies = inherit_dependencies (pi_dependencies pi) own_dependencies,
          re_modules = modules, re_degraded = []\<rparr>)"

text \<open>The text of a pom of acceptable size, parsed, and its \<open>project\<close> element.\<close>

definition read_project :: "resolver_env \<Rightarrow> string \<Rightarrow> xnode option" where
  "read_project env pom_path =
     (if over_size (re_fs env) MAX_POM_BYTES pom_path then None
      else Option.bind (read_to_string (re_fs env) pom_path) (\<lambda>text.
           Option.bind (re_parse env text) (\<lambda>doc. find (has_tag_name ''project'') (descendants doc))))"

definition parent_unreadable :: "xnode \<Rightarrow> string \<Rightarrow> string option \<Rightarrow> string option \<Rightarrow> string option \<Rightarrow> string" where
  "parent_unreadable project pom_path pg pa pv =
     unwrap_or (option_or (child_text project ''artifactId'') (file_name pom_path)) []
     @ '': parent '' @ coord_str (unwrap_or pg ''?'') (unwrap_or pa ''?'') (unwrap_or pv ''?'') @ '' unreadable''"

text \<open>The recursion is over parents and imported bills of materials; every level adds one to
  \<open>chain_depth\<close>, and beyond \<open>MAX_DEPTH\<close> nothing is parsed.\<close>

function parse_effective_pom_raw :: "resolver_env \<Rightarrow> string \<Rightarrow> locator \<Rightarrow> nat \<Rightarrow> string option \<Rightarrow> raw_effective option" where
  "parse_effective_pom_raw env pom_path loc chain_depth project_root =
     (if chain_depth > MAX_DEPTH then None
      else case read_project env pom_path of
          None \<Rightarrow> None
        | Some project \<Rightarrow>
            (let (pi, degraded) =
               (case child project ''parent'' of
                  None \<Rightarrow> (no_parent, [])
                | Some par \<Rightarrow>
                    (let pg = child_text par ''groupId''; pa = child_text par ''artifactId'';
                         pv = child_text par ''version'';
                         rel_path = unwrap_or (child_text par ''relativePath'') ''../pom.xml'';
                         local = Option.bind project_root (project_local_parent (re_fs env) pom_path rel_path);
                         parsed = (case local of
                             Some local_path \<Rightarrow> parse_effective_pom_raw env local_path loc (chain_depth + 1) project_root
                           | None \<Rightarrow> (case (pg, pa, pv) of
                               (Some g, Some a, Some v) \<Rightarrow>
                                 (case locate_pom loc g a v of
                                    Some p \<Rightarrow> parse_effective_pom_raw env p loc (chain_depth + 1) None
                                  | None \<Rightarrow> None)
                             | _ \<Rightarrow> None))
                     in case parsed of
                          Some pe \<Rightarrow> (\<lparr>pi_props = re_props pe, pi_managed = re_managed pe,
                             pi_dependencies = re_dependencies pe, pi_group = Some (re_group pe),
                             pi_version = Some (re_version pe)\<rparr>, re_degraded pe)
                        | None \<Rightarrow> (no_parent\<lparr>pi_group := pg, pi_version := pv\<rparr>,
                             [parent_unreadable project pom_path pg pa pv])));
               raw = parse_effective_pom_raw_from_doc env loc
                       (\<lambda>bom_path. parse_effective_pom_raw env bom_path loc (chain_depth + 1) None) project pi
             in Some (raw\<lparr>re_degraded := degraded @ re_degraded raw\<rparr>)))"
  by pat_completeness auto
termination
  by (relation "measure (\<lambda>(_, _, _, d, _). Suc MAX_DEPTH - d)") auto

declare parse_effective_pom_raw.simps [simp del]

definition parse_effective_pom :: "resolver_env \<Rightarrow> string \<Rightarrow> locator \<Rightarrow> nat \<Rightarrow> string option \<Rightarrow> effective_pom option" where
  "parse_effective_pom env pom_path loc chain_depth project_root =
     map_option (\<lambda>raw. \<lparr>ep_dependencies = re_dependencies raw, ep_modules = re_modules raw, ep_degraded = re_degraded raw\<rparr>)
       (parse_effective_pom_raw env pom_path loc chain_depth project_root)"

section \<open>Seeds and the breadth-first walk\<close>

definition classifier_skip :: "raw_dep \<Rightarrow> string \<Rightarrow> string" where
  "classifier_skip dep classifier =
     rd_group dep @ '':'' @ rd_artifact dep @ '':'' @ unwrap_or (rd_version dep) ''?''
     @ '' (classifier '' @ classifier @ '' unsupported)''"

definition unresolved_version :: "raw_dep \<Rightarrow> string" where
  "unresolved_version dep = rd_group dep @ '':'' @ rd_artifact dep @ '' (unresolved version)''"

definition seed_of :: "raw_dep \<Rightarrow> string \<Rightarrow> (string \<times> string) set \<Rightarrow> seed" where
  "seed_of dep version exclusions =
     \<lparr>sd_group = rd_group dep, sd_artifact = rd_artifact dep, sd_version = version, sd_exclusions = exclusions\<rparr>"

fun root_seeds :: "raw_dep list \<Rightarrow> seed list \<Rightarrow> string list \<Rightarrow> seed list \<times> string list" where
  "root_seeds [] seeds degraded = (seeds, degraded)"
| "root_seeds (dep # deps) seeds degraded =
     (case rd_classifier dep of
        Some classifier \<Rightarrow> root_seeds deps seeds (degraded @ [classifier_skip dep classifier])
      | None \<Rightarrow> (case rd_version dep of
          None \<Rightarrow> root_seeds deps seeds (degraded @ [unresolved_version dep])
        | Some version \<Rightarrow> root_seeds deps (seeds @ [seed_of dep version (rd_exclusions dep)]) degraded))"

definition coord_seeds :: "(string \<times> string \<times> string) list \<Rightarrow> seed list" where
  "coord_seeds coords =
     map (\<lambda>(g, a, v). \<lparr>sd_group = g, sd_artifact = a, sd_version = v, sd_exclusions = {}\<rparr>) coords"

text \<open>The edges out of a visited node: what is queued, and what is recorded as degraded.\<close>

fun edges :: "seed \<Rightarrow> nat \<Rightarrow> raw_dep list \<Rightarrow> (seed \<times> nat) list \<times> string list" where
  "edges s depth [] = ([], [])"
| "edges s depth (dep # deps) =
     (let (queued, degraded) = edges s depth deps in
      if (rd_scope dep \<noteq> ''compile'' \<and> rd_scope dep \<noteq> ''runtime'') \<or> rd_optional dep then (queued, degraded)
      else if dep_key dep \<in> sd_exclusions s then (queued, degraded)
      else case rd_classifier dep of
          Some classifier \<Rightarrow> (queued, classifier_skip dep classifier # degraded)
        | None \<Rightarrow> (case rd_version dep of
            None \<Rightarrow> (queued, unresolved_version dep # degraded)
          | Some version \<Rightarrow>
              ((seed_of dep version (sd_exclusions s \<union> rd_exclusions dep), depth + 1) # queued, degraded)))"

record walk =
  w_queue :: "(seed \<times> nat) list"
  w_visited :: "(string \<times> string) set"
  w_budget :: nat
  w_jars :: "string list"
  w_degraded :: "string list"

definition seed_key :: "seed \<Rightarrow> string \<times> string" where
  "seed_key s = (sd_group s, sd_artifact s)"

definition seed_coord :: "seed \<Rightarrow> string" where
  "seed_coord s = coord_str (sd_group s) (sd_artifact s) (sd_version s)"

definition degrade :: "string list \<Rightarrow> walk \<Rightarrow> walk" where
  "degrade msgs w = w\<lparr>w_degraded := w_degraded w @ msgs\<rparr>"

definition max_depth_exceeded :: "seed \<Rightarrow> string" where
  "max_depth_exceeded s = seed_coord s @ '' (max depth exceeded)''"

definition node_limit_exceeded :: string where
  "node_limit_exceeded = ''resolution truncated: node limit ('' @ show_nat MAX_NODES @ '') exceeded''"

text \<open>What the loop body does with a fresh node within the budget.\<close>

definition expand :: "resolver_env \<Rightarrow> locator \<Rightarrow> seed \<Rightarrow> nat \<Rightarrow> walk \<Rightarrow> walk" where
  "expand env loc s depth w =
     (if depth > MAX_DEPTH then degrade [max_depth_exceeded s] w
      else case locate_jar loc (sd_group s) (sd_artifact s) (sd_version s) of
          None \<Rightarrow> degrade [seed_coord s] w
        | Some jar \<Rightarrow>
            (let w = w\<lparr>w_jars := w_jars w @ [jar]\<rparr> in
             case locate_pom loc (sd_group s) (sd_artifact s) (sd_version s) of
               None \<Rightarrow> degrade [seed_coord s] w
             | Some pom_path \<Rightarrow> (case parse_effective_pom env pom_path loc 0 None of
                 None \<Rightarrow> degrade [seed_coord s] w
               | Some effective \<Rightarrow>
                   (let (queued, skipped) = edges s depth (ep_dependencies effective);
                        w = degrade (ep_degraded effective @ skipped) w
                    in w\<lparr>w_queue := w_queue w @ queued\<rparr>))))"

text \<open>One iteration: \<open>None\<close> when the loop ends, before or by a \<open>break\<close>.\<close>

definition resolve_step :: "resolver_env \<Rightarrow> locator \<Rightarrow> walk \<Rightarrow> walk + walk" where
  "resolve_step env loc w =
     (case w_queue w of
        [] \<Rightarrow> Inl w
      | (s, depth) # rest \<Rightarrow>
          (let w = w\<lparr>w_queue := rest\<rparr> in
           if seed_key s \<in> w_visited w then Inr w
           else if w_budget w = 0 then Inl (degrade [node_limit_exceeded] w)
           else Inr (expand env loc s depth
                  (w\<lparr>w_visited := insert (seed_key s) (w_visited w), w_budget := w_budget w - 1\<rparr>))))"

lemma expand_budget [simp]: "w_budget (expand env loc s depth w) = w_budget w"
  by (simp add: expand_def degrade_def Let_def split: option.splits prod.splits)

lemma resolve_step_decreases:
  "resolve_step env loc w = Inr w' \<Longrightarrow>
     w_budget w' < w_budget w \<or> w_budget w' = w_budget w \<and> length (w_queue w') < length (w_queue w)"
  by (auto simp: resolve_step_def Let_def split: list.splits if_splits prod.splits)

function resolve_loop :: "resolver_env \<Rightarrow> locator \<Rightarrow> walk \<Rightarrow> walk" where
  "resolve_loop env loc w = (case resolve_step env loc w of Inl w' \<Rightarrow> w' | Inr w' \<Rightarrow> resolve_loop env loc w')"
  by pat_completeness auto
termination
  by (relation "(\<lambda>(_, _, w). w_budget w) <*mlex*> measure (\<lambda>(_, _, w). length (w_queue w))")
    (auto simp: wf_mlex mlex_iff dest: resolve_step_decreases)

declare resolve_loop.simps [simp del]

definition walk_init :: "seed list \<Rightarrow> walk" where
  "walk_init seeds = \<lparr>w_queue = map (\<lambda>s. (s, 0)) seeds, w_visited = {}, w_budget = MAX_NODES, w_jars = [], w_degraded = []\<rparr>"

definition resolve_transitive :: "resolver_env \<Rightarrow> seed list \<Rightarrow> locator \<Rightarrow> string list \<times> string list" where
  "resolve_transitive env seeds loc =
     (let w = resolve_loop env loc (walk_init seeds) in (w_jars w, w_degraded w))"

section \<open>Projects\<close>

definition parse_release_level :: "string \<Rightarrow> u32 option" where
  "parse_release_level s =
     (let s = trim s in
      if s = [] \<or> contains_sub ''${'' s then None
      else case strip_prefix ''1.'' s of
          Some rest \<Rightarrow> map_option of_nat (parse_uint (2 ^ 32 - 1) rest)
        | None \<Rightarrow> map_option of_nat (parse_uint (2 ^ 32 - 1) s))"

fun first_release :: "resolver_env \<Rightarrow> (string \<times> string) list \<Rightarrow> string list \<Rightarrow> u32 option" where
  "first_release env props [] = None"
| "first_release env props (key # keys) =
     (case Option.bind (map_of props key) (\<lambda>raw. parse_release_level (substitute env raw props)) of
        Some n \<Rightarrow> Some n
      | None \<Rightarrow> first_release env props keys)"

definition release_from_props :: "resolver_env \<Rightarrow> (string \<times> string) list \<Rightarrow> u32 option" where
  "release_from_props env props =
     first_release env props [''maven.compiler.release'', ''maven.compiler.source'', ''java.version'']"

definition maven_like_compiler_release :: "resolver_env \<Rightarrow> string \<Rightarrow> locator \<Rightarrow> u32 option" where
  "maven_like_compiler_release env root loc =
     Option.bind (parse_effective_pom_raw env (path_join root ''pom.xml'') loc 0 (Some root))
       (\<lambda>raw. release_from_props env (re_props raw))"

record module_acc =
  ma_seeds :: "seed list"
  ma_source_roots :: "string list"
  ma_degraded :: "string list"

definition add_seeds :: "effective_pom \<Rightarrow> module_acc \<Rightarrow> module_acc" where
  "add_seeds effective acc =
     (let (seeds, degraded) = root_seeds (ep_dependencies effective) (ma_seeds acc) (ma_degraded acc)
      in acc\<lparr>ma_seeds := seeds, ma_degraded := degraded\<rparr>)"

definition add_source_root :: "fs \<Rightarrow> string \<Rightarrow> module_acc \<Rightarrow> module_acc" where
  "add_source_root fs dir acc =
     (if fs_is_dir fs (path_join dir ''src/main/java'')
      then acc\<lparr>ma_source_roots := ma_source_roots acc @ [path_join dir ''src/main/java'']\<rparr> else acc)"

definition module_step :: "resolver_env \<Rightarrow> locator \<Rightarrow> string \<Rightarrow> module_acc \<Rightarrow> string \<Rightarrow> module_acc" where
  "module_step env loc project_root acc module =
     (if module = [] \<or> contains_sub ''..'' module \<or> is_absolute module then acc
      else let module_dir = path_join project_root module;
               acc = (case parse_effective_pom env (path_join module_dir ''pom.xml'') loc 0 (Some project_root) of
                   Some me \<Rightarrow> add_seeds me (acc\<lparr>ma_degraded := ma_degraded acc @ ep_degraded me\<rparr>)
                 | None \<Rightarrow> acc\<lparr>ma_degraded := ma_degraded acc @ [''module '' @ module @ '' (pom unreadable)'']\<rparr>)
           in add_source_root (re_fs env) module_dir acc)"

definition resolve_maven_like_project :: "resolver_env \<Rightarrow> string \<Rightarrow> locator \<Rightarrow> resolved_project" where
  "resolve_maven_like_project env project_root loc =
     (case parse_effective_pom env (path_join project_root ''pom.xml'') loc 0 (Some project_root) of
        None \<Rightarrow> \<lparr>rp_jars = [], rp_source_roots = [], rp_degraded = []\<rparr>
      | Some effective \<Rightarrow>
          (let acc = \<lparr>ma_seeds = [], ma_source_roots = [], ma_degraded = ep_degraded effective\<rparr>;
               acc = add_source_root (re_fs env) project_root (add_seeds effective acc);
               acc = foldl (module_step env loc project_root) acc (ep_modules effective);
               (jars, transitive_degraded) = resolve_transitive env (ma_seeds acc) loc
           in \<lparr>rp_jars = jars, rp_source_roots = ma_source_roots acc,
               rp_degraded = ma_degraded acc @ transitive_degraded\<rparr>))"

definition maven_resolve_project :: "resolver_env \<Rightarrow> string \<Rightarrow> string \<Rightarrow> resolved_project" where
  "maven_resolve_project env root m2_repo = resolve_maven_like_project env root (MavenLocator (re_fs env) m2_repo)"

definition maven_compiler_release :: "resolver_env \<Rightarrow> string \<Rightarrow> string \<Rightarrow> u32 option" where
  "maven_compiler_release env root m2_repo = maven_like_compiler_release env root (MavenLocator (re_fs env) m2_repo)"

section \<open>The walk is a breadth-first, nearest-wins agenda\<close>

text \<open>What visiting one node contributes, on its own: jars, degraded coordinates, queued edges.\<close>

definition outcome :: "resolver_env \<Rightarrow> locator \<Rightarrow> seed \<times> nat \<Rightarrow> walk" where
  "outcome env loc x = expand env loc (fst x) (snd x)
     \<lparr>w_queue = [], w_visited = {}, w_budget = 0, w_jars = [], w_degraded = []\<rparr>"

fun first_by_key :: "(string \<times> string) set \<Rightarrow> (seed \<times> nat) list \<Rightarrow> (seed \<times> nat) list" where
  "first_by_key seen [] = []"
| "first_by_key seen (x # xs) =
     (if seed_key (fst x) \<in> seen then first_by_key seen xs
      else x # first_by_key (insert (seed_key (fst x)) seen) xs)"

lemma expand_outcome:
  "expand env loc s d w = w\<lparr>w_queue := w_queue w @ w_queue (outcome env loc (s, d)),
     w_jars := w_jars w @ w_jars (outcome env loc (s, d)),
     w_degraded := w_degraded w @ w_degraded (outcome env loc (s, d))\<rparr>"
  by (simp add: expand_def outcome_def degrade_def Let_def split: option.splits prod.splits)

lemma edges_depth: "x \<in> set (fst (edges s d deps)) \<Longrightarrow> snd x = Suc d"
  by (induction deps) (auto simp: Let_def split: prod.splits if_splits option.splits)

lemma outcome_depth: "x \<in> set (w_queue (outcome env loc (s, d))) \<Longrightarrow> snd x = Suc d"
  using edges_depth [of x s d]
  by (auto simp: outcome_def expand_def degrade_def Let_def split: option.splits prod.splits if_splits)
    (metis fst_conv)

lemma first_by_key_fresh: "x \<in> set (first_by_key seen xs) \<Longrightarrow> seed_key (fst x) \<notin> seen"
  by (induction xs arbitrary: seen) (auto split: if_splits)

lemma first_by_key_distinct: "distinct (map (seed_key \<circ> fst) (first_by_key seen xs))"
proof (induction xs arbitrary: seen)
  case (Cons x xs)
  have "seed_key (fst x) \<notin> (seed_key \<circ> fst) ` set (first_by_key (insert (seed_key (fst x)) seen) xs)"
    by (rule notI, elim imageE) (metis comp_apply first_by_key_fresh insertI1)
  then show ?case using Cons.IH by simp
qed simp

lemma first_by_key_subset: "set (first_by_key seen xs) \<subseteq> set xs"
  by (induction xs arbitrary: seen) auto

lemma first_by_key_covers:
  "x \<in> set xs \<Longrightarrow> seed_key (fst x) \<in> seen \<or> seed_key (fst x) \<in> (seed_key \<circ> fst) ` set (first_by_key seen xs)"
  by (induction xs arbitrary: seen) auto

text \<open>Depths along an agenda only grow: a queue never spans more than two levels.\<close>

definition two_levels :: "nat \<Rightarrow> (seed \<times> nat) list \<Rightarrow> bool" where
  "two_levels d q \<longleftrightarrow> sorted (map snd q) \<and> (\<forall>x \<in> set q. d \<le> snd x \<and> snd x \<le> Suc d)"

lemma levels_push:
  assumes "two_levels d (x # q)" "\<forall>y \<in> set ys. snd y = Suc (snd x)"
  shows "two_levels (snd x) (q @ ys)"
proof -
  have "sorted (map snd ys)" using assms(2) by (induction ys) auto
  moreover have "\<forall>y \<in> set q. snd x \<le> snd y \<and> snd y \<le> Suc (snd x)"
    using assms(1) by (force simp: two_levels_def)
  ultimately show ?thesis using assms by (auto simp: two_levels_def sorted_append)
qed

lemma levels_tl: "two_levels d (x # q) \<Longrightarrow> two_levels (snd x) q"
  using levels_push [of d x q "[]"] by simp

text \<open>The agenda of a walk that pops \<open>pops\<close> from state \<open>w\<close>.\<close>

definition agenda :: "resolver_env \<Rightarrow> locator \<Rightarrow> (seed \<times> nat) list \<Rightarrow> (seed \<times> nat) list \<Rightarrow> (seed \<times> nat) list" where
  "agenda env loc queue visits = queue @ concat (map (\<lambda>x. w_queue (outcome env loc x)) visits)"

definition explains :: "resolver_env \<Rightarrow> locator \<Rightarrow> walk \<Rightarrow> walk \<Rightarrow> (seed \<times> nat) list \<Rightarrow> bool" where
  "explains env loc w r pops \<longleftrightarrow>
     (let visits = first_by_key (w_visited w) pops; ag = agenda env loc (w_queue w) visits in
      take (length pops) ag = pops
      \<and> length visits \<le> w_budget w
      \<and> w_jars r = w_jars w @ concat (map (\<lambda>x. w_jars (outcome env loc x)) visits)
      \<and> w_degraded r = w_degraded w @ concat (map (\<lambda>x. w_degraded (outcome env loc x)) visits)
           @ (if pops = ag then [] else [node_limit_exceeded])
      \<and> (pops \<noteq> ag \<longrightarrow> length visits = w_budget w)
      \<and> (\<forall>d. two_levels d (w_queue w) \<longrightarrow> sorted (map snd pops) \<and> (\<forall>y \<in> set pops. d \<le> snd y)))"

text \<open>The two ways an iteration goes on.\<close>

lemma explains_levels:
  assumes "explains env loc w r pops" "two_levels (snd x) (w_queue w)" "two_levels d (x # q)"
  shows "sorted (map snd (x # pops)) \<and> (\<forall>y \<in> set (x # pops). d \<le> snd y)"
proof -
  have "sorted (map snd pops)" "\<forall>y \<in> set pops. snd x \<le> snd y"
    using assms(1,2) by (auto simp: explains_def Let_def)
  moreover have "d \<le> snd x" using assms(3) by (simp add: two_levels_def)
  ultimately show ?thesis by (auto intro: le_trans)
qed

lemma explains_skip:
  assumes "w_queue w = x # rest" "seed_key (fst x) \<in> w_visited w"
    "explains env loc (w\<lparr>w_queue := rest\<rparr>) r pops"
  shows "explains env loc w r (x # pops)"
proof -
  have "\<forall>d. two_levels d (w_queue w) \<longrightarrow> sorted (map snd (x # pops)) \<and> (\<forall>y \<in> set (x # pops). d \<le> snd y)"
    using assms(1) explains_levels [OF assms(3), of x _ rest] levels_tl [of _ x rest]
    by simp
  then show ?thesis using assms unfolding explains_def agenda_def Let_def by simp
qed

lemma explains_visit:
  assumes "w_queue w = x # rest" "seed_key (fst x) \<notin> w_visited w" "0 < w_budget w"
    "explains env loc (expand env loc (fst x) (snd x) (w\<lparr>w_queue := rest,
        w_visited := insert (seed_key (fst x)) (w_visited w), w_budget := w_budget w - 1\<rparr>)) r pops"
  shows "explains env loc w r (x # pops)"
proof -
  have "two_levels (snd x) (rest @ w_queue (outcome env loc x))" if "two_levels d (x # rest)" for d
    using levels_push [OF that] outcome_depth [of _ env loc "fst x" "snd x"] by auto
  then have "\<forall>d. two_levels d (w_queue w) \<longrightarrow> sorted (map snd (x # pops)) \<and> (\<forall>y \<in> set (x # pops). d \<le> snd y)"
    using explains_levels [OF assms(4), of x _ rest] assms(1) by (simp add: expand_outcome)
  then show ?thesis using assms unfolding explains_def agenda_def Let_def
    by (simp add: expand_outcome) linarith
qed

lemma resolve_loop_explains: "\<exists>pops. explains env loc w (resolve_loop env loc w) pops"
proof (induction env loc w rule: resolve_loop.induct)
  case (1 env loc w)
  show ?case
  proof (cases "w_queue w")
    case Nil
    then have "resolve_loop env loc w = w"
      by (simp add: resolve_loop.simps [of env loc w] resolve_step_def)
    then have "explains env loc w (resolve_loop env loc w) []"
      using Nil by (simp add: explains_def agenda_def)
    then show ?thesis ..
  next
    case (Cons x rest)
    obtain s d where x: "x = (s, d)" by (cases x)
    consider (seen) "seed_key s \<in> w_visited w" | (full) "seed_key s \<notin> w_visited w" "w_budget w = 0"
      | (visit) "seed_key s \<notin> w_visited w" "0 < w_budget w" by auto
    then show ?thesis
    proof cases
      case seen
      then have st: "resolve_step env loc w = Inr (w\<lparr>w_queue := rest\<rparr>)"
        using Cons x by (simp add: resolve_step_def)
      then obtain pops where "explains env loc (w\<lparr>w_queue := rest\<rparr>) (resolve_loop env loc w) pops"
        using 1 [OF st] by (auto simp: resolve_loop.simps [of env loc w])
      then show ?thesis using explains_skip [OF Cons] seen x by (metis fst_conv)
    next
      case full
      then have "resolve_loop env loc w = degrade [node_limit_exceeded] (w\<lparr>w_queue := rest\<rparr>)"
        using Cons x by (simp add: resolve_loop.simps [of env loc w] resolve_step_def)
      then have "explains env loc w (resolve_loop env loc w) []"
        using full Cons by (simp add: explains_def agenda_def degrade_def)
      then show ?thesis ..
    next
      case visit
      let ?w = "expand env loc s d (w\<lparr>w_queue := rest,
        w_visited := insert (seed_key s) (w_visited w), w_budget := w_budget w - 1\<rparr>)"
      have st: "resolve_step env loc w = Inr ?w"
        using visit Cons x by (simp add: resolve_step_def Let_def)
      then obtain pops where "explains env loc ?w (resolve_loop env loc w) pops"
        using 1 [OF st] by (auto simp: resolve_loop.simps [of env loc w])
      then have "explains env loc w (resolve_loop env loc w) (x # pops)"
        using explains_visit [OF Cons] visit x by simp
      then show ?thesis ..
    qed
  qed
qed


text \<open>
  C23. Dependency mediation is breadth-first and nearest-wins. For any seeds and any cache, the walk
  takes its nodes off one agenda in order: the seeds, then the eligible edges of the visited nodes
  in the order of their visits. A node counts once per group and artifact, at its first place on
  the agenda, and depths never decrease along it, so the nearest declaration wins and the first
  among equals. The jars and the degraded entries are exactly those of the visited nodes in that
  order; at most 2,000 nodes are visited, and only when the agenda is cut short there does the
  result end with the truncation message.
\<close>

theorem resolve_transitive_nearest_wins:
  "\<exists>pops visits ag. visits = first_by_key {} pops
    \<and> ag = map (\<lambda>s. (s, 0)) seeds @ concat (map (\<lambda>x. w_queue (outcome env loc x)) visits)
    \<and> take (length pops) ag = pops \<and> sorted (map snd pops)
    \<and> distinct (map (seed_key \<circ> fst) visits) \<and> length visits \<le> 2000
    \<and> (seed_key \<circ> fst) ` set pops = (seed_key \<circ> fst) ` set visits
    \<and> (pops = ag \<or> length visits = 2000)
    \<and> resolve_transitive env seeds loc =
        (concat (map (\<lambda>x. w_jars (outcome env loc x)) visits),
         concat (map (\<lambda>x. w_degraded (outcome env loc x)) visits)
         @ (if pops = ag then [] else [node_limit_exceeded]))"
proof -
  obtain pops where p: "explains env loc (walk_init seeds) (resolve_loop env loc (walk_init seeds)) pops"
    using resolve_loop_explains by blast
  let ?visits = "first_by_key {} pops"
  have "two_levels 0 (w_queue (walk_init seeds))"
    by (induction seeds) (auto simp: two_levels_def walk_init_def)
  then have "sorted (map snd pops)" using p by (simp add: explains_def Let_def)
  moreover have "(seed_key \<circ> fst) ` set pops = (seed_key \<circ> fst) ` set ?visits"
    using first_by_key_subset [of "{}" pops] first_by_key_covers [of _ pops "{}"] by fastforce
  ultimately show ?thesis
    using p first_by_key_distinct [of "{}" pops]
    by (intro exI [of _ pops] exI [of _ ?visits]
        exI [of _ "map (\<lambda>s. (s, 0)) seeds @ concat (map (\<lambda>x. w_queue (outcome env loc x)) ?visits)"])
      (auto simp: explains_def agenda_def Let_def walk_init_def resolve_transitive_def MAX_NODES_def)
qed

section \<open>Managed versions\<close>

text \<open>What one \<open>dependencyManagement\<close> entry adds, on its own.\<close>

definition contribution :: "resolver_env \<Rightarrow> locator \<Rightarrow> (string \<Rightarrow> raw_effective option) \<Rightarrow> (string \<times> string) list
    \<Rightarrow> xnode \<Rightarrow> (string \<times> string \<rightharpoonup> managed_dep)" where
  "contribution env loc bom props dep = managed_entry env loc bom props Map.empty dep"

fun first_some :: "('a \<rightharpoonup> 'b) list \<Rightarrow> 'a \<Rightarrow> 'b option" where
  "first_some [] k = None"
| "first_some (m # ms) k = (case m k of Some v \<Rightarrow> Some v | None \<Rightarrow> first_some ms k)"

lemma managed_entry_add: "managed_entry env loc bom props own dep = contribution env loc bom props dep ++ own"
  by (auto simp: contribution_def managed_entry_def map_add_def fun_eq_iff Let_def split: option.splits)

lemma foldl_managed:
  "foldl (managed_entry env loc bom props) own deps k =
     (case own k of Some v \<Rightarrow> Some v | None \<Rightarrow> first_some (map (contribution env loc bom props) deps) k)"
  by (induction deps arbitrary: own) (auto simp: managed_entry_add map_add_def split: option.splits)

definition managed_elements :: "xnode \<Rightarrow> xnode list" where
  "managed_elements project =
     (case Option.bind (child project ''dependencyManagement'') (\<lambda>m. child m ''dependencies'') of
        None \<Rightarrow> []
      | Some deps \<Rightarrow> children_named deps ''dependency'')"

text \<open>
  Precedence of managed versions: for every group and artifact, the version and scope in force
  are those of the first element of the pom's own \<open>dependencyManagement\<close> that provides one, an
  imported bill of materials counting at the place of its import; only when there is none is the
  inherited entry in force.
\<close>

theorem managed_first_declared:
  "managed_of env loc bom props project inherited k =
     (case first_some (map (contribution env loc bom props) (managed_elements project)) k of
        Some d \<Rightarrow> Some d
      | None \<Rightarrow> inherited k)"
  by (simp add: managed_of_def managed_elements_def map_add_def foldl_managed split: option.splits)

section \<open>Paths stay where they belong\<close>

fun plain_component :: "component \<Rightarrow> bool" where
  "plain_component (Normal s) \<longleftrightarrow> s \<noteq> [] \<and> s \<noteq> ''.'' \<and> s \<noteq> ''..'' \<and> CHR ''/'' \<notin> set s"
| "plain_component _ \<longleftrightarrow> False"

text \<open>Components as \<open>components\<close> yields them: the root or a leading dot first, then names.\<close>

definition plain_path :: "component list \<Rightarrow> bool" where
  "plain_path cs \<longleftrightarrow> list_all plain_component cs \<or> (\<exists>ns. cs = RootDir # ns \<and> list_all plain_component ns)"

lemma split_char_join_with:
  "xs \<noteq> [] \<Longrightarrow> \<forall>x \<in> set xs. c \<notin> set x \<Longrightarrow> split_char c (join_with [c] xs) = xs"
proof (induction xs rule: induct_list012)
  case (3 x y zs)
  then show ?case using split_char_sep [of c x "join_with [c] (y # zs)"] by (simp add: split_char_none)
qed (auto simp: split_char_none)

lemma segments_join_plain:
  assumes "list_all plain_component ns"
  shows "segments_of (join_with ''/'' (map show_component ns)) = ns"
proof (cases ns)
  case (Cons n ns')
  have names: "\<forall>x \<in> set (map show_component ns). CHR ''/'' \<notin> set x \<and> x \<noteq> [] \<and> x \<noteq> ''.'' \<and> x \<noteq> ''..''"
    and again: "map (component \<circ> show_component) ns = ns"
    using assms by (auto simp: list_all_iff component_def elim!: plain_component.elims intro!: map_idI)
  have "split_char (CHR ''/'') (join_with ''/'' (map show_component ns)) = map show_component ns"
    using names Cons by (intro split_char_join_with) auto
  moreover have "filter (\<lambda>s. s \<noteq> [] \<and> s \<noteq> ''.'') (map show_component ns) = map show_component ns"
    using names by (intro filter_True) auto
  ultimately show ?thesis using again by (simp add: segments_of_def)
qed simp

lemma components_relative:
  assumes "list_all plain_component ns"
  shows "components (join_with ''/'' (map show_component ns)) = ns"
proof (cases ns)
  case (Cons n ns')
  then obtain s where n: "n = Normal s" "s \<noteq> []" "s \<noteq> ''.''" "CHR ''/'' \<notin> set s"
    using assms by (cases n) auto
  let ?j = "join_with ''/'' (map show_component ns)"
  have j: "?j = s \<or> (\<exists>r. ?j = s @ CHR ''/'' # r)" using Cons n by (cases ns') auto
  then have "\<not> is_absolute ?j" using n by (cases s) (auto simp: is_absolute_def starts_with_def)
  moreover have "hd (split_char (CHR ''/'') ?j) = s"
    using j n by (auto simp: split_char_sep split_char_none)
  ultimately show ?thesis using n segments_join_plain [OF assms] by (simp add: components_def)
qed (simp add: components_def is_absolute_def starts_with_def)

lemma components_show_path:
  assumes "plain_path cs"
  shows "components (show_path cs) = cs"
proof (cases "list_all plain_component cs")
  case True
  then have "cs \<noteq> [RootDir]" by auto
  then show ?thesis using components_relative [OF True] by (simp add: show_path_def)
next
  case False
  then obtain ns where ns: "cs = RootDir # ns" "list_all plain_component ns" using assms by (auto simp: plain_path_def)
  have root: "components (CHR ''/'' # r) = RootDir # segments_of r" for r
    using segments_of_sep [of "[]" r] by (simp add: components_def is_absolute_def starts_with_def)
  show ?thesis
  proof (cases ns)
    case Nil
    then show ?thesis using ns root [of "[]"] by (simp add: show_path_def)
  next
    case (Cons n ns')
    then have "show_path cs = CHR ''/'' # join_with ''/'' (map show_component ns)" using ns by (simp add: show_path_def)
    then show ?thesis using root segments_join_plain [OF ns(2)] ns(1) by simp
  qed
qed

lemma segments_plain: "c \<in> set (segments_of p) \<Longrightarrow> c = ParentDir \<or> plain_component c"
  by (auto simp: segments_of_def component_def dest: split_char_pieces)

lemma plain_path_butlast: "plain_path cs \<Longrightarrow> plain_path (butlast cs)"
proof -
  have l: "list_all plain_component ns \<Longrightarrow> list_all plain_component (butlast ns)" for ns
    by (auto simp: list_all_iff dest: in_set_butlastD)
  assume "plain_path cs"
  then consider "list_all plain_component cs" | ns where "cs = RootDir # ns" "list_all plain_component ns"
    by (auto simp: plain_path_def)
  then show ?thesis by cases (simp_all add: plain_path_def l)
qed

lemma normalize_loop_plain:
  "normalize_loop cs out depth = Some r \<Longrightarrow> plain_path out
   \<Longrightarrow> (\<forall>c \<in> set cs. c = ParentDir \<or> c = RootDir \<or> c = CurDir \<or> plain_component c) \<Longrightarrow> plain_path r"
proof (induction cs out depth rule: normalize_loop.induct)
  case (4 cs out depth)
  then show ?case by (auto simp: plain_path_butlast split: if_splits)
next
  case (5 part cs out depth)
  then have "plain_path (out @ [Normal part])" by (auto simp: plain_path_def)
  then show ?case using 5 by auto
qed (auto simp: plain_path_def)

lemma lexical_normalize_plain:
  assumes "lexical_normalize p = Some q"
  shows "plain_path (components q)"
proof -
  obtain cs where cs: "normalize_loop (components p) [] 0 = Some cs" "q = show_path cs"
    using assms by (auto simp: lexical_normalize_def)
  have "c = ParentDir \<or> c = RootDir \<or> c = CurDir \<or> plain_component c" if "c \<in> set (components p)" for c
    using that segments_plain [of c p] by (auto simp: components_def split: if_splits)
  then have "plain_path cs" using normalize_loop_plain [OF cs(1)] by (auto simp: plain_path_def)
  then show ?thesis using cs(2) components_show_path by simp
qed

lemma plain_path_names: "plain_path (a @ b) \<Longrightarrow> a \<noteq> [] \<Longrightarrow> \<exists>names. b = map Normal names"
proof -
  assume "plain_path (a @ b)" "a \<noteq> []"
  then have "list_all plain_component b" by (cases a) (auto simp: plain_path_def)
  then have "b = map Normal (map show_component b)"
    by (auto simp: list_all_iff intro!: map_idI [symmetric] elim!: plain_component.elims)
  then show ?thesis by blast
qed

lemma project_local_parent_Some:
  assumes "project_local_parent fs pom_path rel root = Some p"
  shows "\<exists>r dir canon canon_root. lexical_normalize root = Some r \<and> parent pom_path = Some dir
     \<and> lexical_normalize (path_join dir rel) = Some p \<and> path_starts_with r p
     \<and> fs_is_file fs p \<and> fs_canonicalize fs p = Some canon \<and> fs_canonicalize fs root = Some canon_root
     \<and> path_starts_with canon_root canon"
  using assms by (auto simp: project_local_parent_def bind_eq_Some_conv split: if_splits)

text \<open>
  A relative parent reference never leaves the project: whatever text a pom gives as its
  \<open>relativePath\<close>, a parent that is accepted lies inside the normalised project root, that is, at the
  root followed by ordinary names only (no \<open>..\<close> left), is an existing file, and its real location,
  with symbolic links resolved, is below the real location of the root.
\<close>

theorem project_local_parent_confined:
  assumes "project_local_parent fs pom_path rel root = Some p"
    and "lexical_normalize root = Some r" "components r \<noteq> []"
  shows "inside r p \<and> ParentDir \<notin> set (components p) \<and> fs_is_file fs p
    \<and> (\<exists>canon canon_root. fs_canonicalize fs p = Some canon \<and> fs_canonicalize fs root = Some canon_root
         \<and> path_starts_with canon_root canon)"
proof -
  obtain dir where p: "lexical_normalize (path_join dir rel) = Some p" "path_starts_with r p" "fs_is_file fs p"
    and canon: "\<exists>canon canon_root. fs_canonicalize fs p = Some canon \<and> fs_canonicalize fs root = Some canon_root
         \<and> path_starts_with canon_root canon"
    using project_local_parent_Some [OF assms(1)] assms(2) by auto
  have plain: "plain_path (components p)" using lexical_normalize_plain [OF p(1)] .
  obtain b where b: "components p = components r @ b"
    using p(2) unfolding path_starts_with_def by (metis append_take_drop_id)
  then have "inside r p" using plain_path_names [of "components r" b] plain assms(3) by (auto simp: inside_def)
  moreover have "ParentDir \<notin> set (components p)" using plain by (fastforce simp: plain_path_def list_all_iff)
  ultimately show ?thesis using p(3) canon by blast
qed

section \<open>What the resolver reads\<close>

text \<open>The paths that parsing a pom may look at: poms that the locator names, and, for a pom of the
  project itself, paths inside the project root.\<close>

definition may_read :: "locator \<Rightarrow> string option \<Rightarrow> string \<Rightarrow> bool" where
  "may_read loc root p \<longleftrightarrow> (\<exists>g a v. locate_pom loc g a v = Some p)
     \<or> (\<exists>rt r. root = Some rt \<and> lexical_normalize rt = Some r \<and> path_starts_with r p \<and> ParentDir \<notin> set (components p))"

definition same_at :: "fs \<Rightarrow> fs \<Rightarrow> string \<Rightarrow> bool" where
  "same_at fs fs' p \<longleftrightarrow> fs_read fs p = fs_read fs' p \<and> fs_len fs p = fs_len fs' p
     \<and> fs_is_file fs p = fs_is_file fs' p \<and> fs_canonicalize fs p = fs_canonicalize fs' p"

definition same_reads :: "locator \<Rightarrow> string option \<Rightarrow> fs \<Rightarrow> fs \<Rightarrow> bool" where
  "same_reads loc root fs fs' \<longleftrightarrow> (\<forall>p. may_read loc root p \<longrightarrow> same_at fs fs' p)
     \<and> (\<forall>rt. root = Some rt \<longrightarrow> fs_canonicalize fs rt = fs_canonicalize fs' rt)"

definition pom_body :: "resolver_env \<Rightarrow> locator \<Rightarrow> (string \<Rightarrow> raw_effective option) \<Rightarrow> (string \<Rightarrow> raw_effective option)
    \<Rightarrow> string \<Rightarrow> string option \<Rightarrow> xnode \<Rightarrow> raw_effective" where
  "pom_body env loc own cached pom_path project_root project =
     (let (pi, degraded) =
        (case child project ''parent'' of
           None \<Rightarrow> (no_parent, [])
         | Some par \<Rightarrow>
             (let pg = child_text par ''groupId''; pa = child_text par ''artifactId''; pv = child_text par ''version'';
                  rel_path = unwrap_or (child_text par ''relativePath'') ''../pom.xml'';
                  local = Option.bind project_root (project_local_parent (re_fs env) pom_path rel_path);
                  parsed = (case local of
                      Some local_path \<Rightarrow> own local_path
                    | None \<Rightarrow> (case (pg, pa, pv) of
                        (Some g, Some a, Some v) \<Rightarrow> (case locate_pom loc g a v of Some p \<Rightarrow> cached p | None \<Rightarrow> None)
                      | _ \<Rightarrow> None))
              in case parsed of
                   Some pe \<Rightarrow> (\<lparr>pi_props = re_props pe, pi_managed = re_managed pe,
                      pi_dependencies = re_dependencies pe, pi_group = Some (re_group pe),
                      pi_version = Some (re_version pe)\<rparr>, re_degraded pe)
                 | None \<Rightarrow> (no_parent\<lparr>pi_group := pg, pi_version := pv\<rparr>,
                      [parent_unreadable project pom_path pg pa pv])));
        raw = parse_effective_pom_raw_from_doc env loc cached project pi
      in raw\<lparr>re_degraded := degraded @ re_degraded raw\<rparr>)"

lemma parse_effective_pom_raw_body:
  "parse_effective_pom_raw env pom_path loc d root =
     (if d > MAX_DEPTH then None
      else map_option (pom_body env loc (\<lambda>p. parse_effective_pom_raw env p loc (d + 1) root)
             (\<lambda>p. parse_effective_pom_raw env p loc (d + 1) None) pom_path root) (read_project env pom_path))"
  by (subst parse_effective_pom_raw.simps)
    (simp add: pom_body_def Let_def split: option.splits prod.splits)

lemma substitute_fs [simp]: "substitute (env\<lparr>re_fs := fs'\<rparr>) = substitute env"
  by (simp add: substitute_def fun_eq_iff)

lemma child_subst_fs [simp]: "child_subst (env\<lparr>re_fs := fs'\<rparr>) = child_subst env"
  by (simp add: child_subst_def fun_eq_iff)

lemma dependency_of_fs [simp]: "dependency_of (env\<lparr>re_fs := fs'\<rparr>) = dependency_of env"
  by (simp add: dependency_of_def exclusions_of_def fun_eq_iff cong: option.case_cong)

lemma managed_of_cong:
  assumes "\<And>g a v p. locate_pom loc g a v = Some p \<Longrightarrow> bom' p = bom p"
  shows "managed_of (env\<lparr>re_fs := fs'\<rparr>) loc bom' props project = managed_of env loc bom props project"
proof -
  have "managed_entry (env\<lparr>re_fs := fs'\<rparr>) loc bom' props own dep = managed_entry env loc bom props own dep" for own dep
    by (auto simp: managed_entry_def Let_def assms split: option.splits)
  then have "managed_entry (env\<lparr>re_fs := fs'\<rparr>) loc bom' props = managed_entry env loc bom props" by blast
  then show ?thesis by (intro ext) (simp only: managed_of_def)
qed

lemma from_doc_cong:
  assumes "\<And>g a v p. locate_pom loc g a v = Some p \<Longrightarrow> bom' p = bom p"
  shows "parse_effective_pom_raw_from_doc (env\<lparr>re_fs := fs'\<rparr>) loc bom' project pi =
         parse_effective_pom_raw_from_doc env loc bom project pi"
  using managed_of_cong [where loc = loc and bom = bom and bom' = bom', OF assms]
  by (simp add: parse_effective_pom_raw_from_doc_def Let_def cong: option.case_cong)

lemma project_local_parent_cong:
  assumes "same_reads loc (Some root) fs fs'"
  shows "project_local_parent fs' pom_path rel root = project_local_parent fs pom_path rel root"
proof -
  have "same_at fs fs' p" if "lexical_normalize q = Some p" "lexical_normalize root = Some r" "path_starts_with r p" for p q r
  proof -
    have "ParentDir \<notin> set (components p)"
      using lexical_normalize_plain [OF that(1)] by (fastforce simp: plain_path_def list_all_iff)
    then show ?thesis using assms that by (auto simp: same_reads_def may_read_def)
  qed
  then show ?thesis using assms unfolding project_local_parent_def same_reads_def same_at_def
    by (auto intro!: Option.bind_cong [OF refl])
qed

lemma project_local_parent_may_read:
  assumes "project_local_parent fs pom_path rel root = Some p"
  shows "may_read loc (Some root) p"
proof -
  obtain r q where "lexical_normalize root = Some r" "lexical_normalize q = Some p" "path_starts_with r p"
    using project_local_parent_Some [OF assms] by blast
  moreover from this have "ParentDir \<notin> set (components p)"
    using lexical_normalize_plain [of q p] by (fastforce simp: plain_path_def list_all_iff)
  ultimately show ?thesis by (auto simp: may_read_def)
qed

lemma read_project_cong: "same_at (re_fs env) fs' p \<Longrightarrow> read_project (env\<lparr>re_fs := fs'\<rparr>) p = read_project env p"
  by (simp add: read_project_def same_at_def over_size_def read_to_string_def)

lemma pom_body_cong:
  assumes "same_reads loc root (re_fs env) fs'"
    and "\<And>p. may_read loc root p \<Longrightarrow> own' p = own p" "\<And>p. may_read loc None p \<Longrightarrow> cached' p = cached p"
  shows "pom_body (env\<lparr>re_fs := fs'\<rparr>) loc own' cached' pom_path root project = pom_body env loc own cached pom_path root project"
proof -
  have c: "cached' p = cached p" if "locate_pom loc g a v = Some p" for g a v p
    using that assms(3) by (auto simp: may_read_def)
  have l: "Option.bind root (project_local_parent fs' pom_path rel) = Option.bind root (project_local_parent (re_fs env) pom_path rel)" for rel
    using project_local_parent_cong assms(1) by (cases root) auto
  have o: "own' p = own p" if "Option.bind root (project_local_parent (re_fs env) pom_path rel) = Some p" for rel p
    using that assms(2) project_local_parent_may_read by (cases root) auto
  show ?thesis
    unfolding pom_body_def
    by (simp add: l from_doc_cong [OF c] Let_def o c cong: option.case_cong)
qed

lemma same_reads_None: "same_reads loc root fs fs' \<Longrightarrow> same_reads loc None fs fs'"
  by (auto simp: same_reads_def may_read_def)

lemma same_reads_at: "same_reads loc root fs fs' \<Longrightarrow> may_read loc root p \<Longrightarrow> same_at fs fs' p"
  by (auto simp: same_reads_def)

lemma parse_effective_pom_raw_cong:
  "same_reads loc root (re_fs env) fs' \<Longrightarrow> same_at (re_fs env) fs' pom_path \<Longrightarrow>
   parse_effective_pom_raw (env\<lparr>re_fs := fs'\<rparr>) pom_path loc d root = parse_effective_pom_raw env pom_path loc d root"
proof (induction "Suc MAX_DEPTH - d" arbitrary: d root pom_path)
  case 0
  then show ?case by (simp add: parse_effective_pom_raw_body)
next
  case (Suc n)
  have n: "n = Suc MAX_DEPTH - (d + 1)" using Suc.hyps(2) by simp
  have own: "parse_effective_pom_raw (env\<lparr>re_fs := fs'\<rparr>) p loc (d + 1) root = parse_effective_pom_raw env p loc (d + 1) root"
    if "may_read loc root p" for p
    using that Suc.prems by (intro Suc.hyps(1) [OF n]) (auto intro: same_reads_at)
  have cached: "parse_effective_pom_raw (env\<lparr>re_fs := fs'\<rparr>) p loc (d + 1) None = parse_effective_pom_raw env p loc (d + 1) None"
    if "may_read loc None p" for p
    using that Suc.prems by (intro Suc.hyps(1) [OF n]) (auto intro: same_reads_at same_reads_None)
  show ?case
    using pom_body_cong [OF Suc.prems(1) own cached] read_project_cong [OF Suc.prems(2)]
    by (subst (1 2) parse_effective_pom_raw_body) (simp cong: option.map_cong)
qed

text \<open>
  C24. A pom cannot steer the resolver out of the project and the caches. Take two file systems
  that agree at the pom, at every path the locator names and, for a pom of the project, at the
  paths inside the normalised project root: parsing the pom with all its parents and imported bills
  of materials gives the same result in both, however they differ elsewhere.
\<close>

theorem parse_effective_pom_reads_confined:
  assumes "same_reads loc root fs fs'" "same_at fs fs' pom_path"
  shows "parse_effective_pom (env\<lparr>re_fs := fs'\<rparr>) pom_path loc d root = parse_effective_pom (env\<lparr>re_fs := fs\<rparr>) pom_path loc d root"
  using parse_effective_pom_raw_cong [of loc root "env\<lparr>re_fs := fs\<rparr>" fs' pom_path d] assms
  by (simp add: parse_effective_pom_def)

section \<open>The interface of the locators\<close>

text \<open>
  What the resolver relies on: a locator names existing files only, and for the groups that it
  vouches for, \<open>clean\<close>, the file is inside one of its cache directories.
\<close>

locale cache_locator =
  fixes fs :: fs and roots :: "string list" and clean :: "string \<Rightarrow> bool" and loc :: locator
  assumes located_file: "locate_pom loc g a v = Some p \<or> locate_jar loc g a v = Some p \<Longrightarrow> fs_is_file fs p"
    and located_inside: "locate_pom loc g a v = Some p \<or> locate_jar loc g a v = Some p \<Longrightarrow> clean g
           \<Longrightarrow> \<exists>r \<in> set roots. inside r p"
begin

lemma outcome_jars_located:
  assumes "jar \<in> set (w_jars (outcome env loc x))"
  shows "locate_jar loc (sd_group (fst x)) (sd_artifact (fst x)) (sd_version (fst x)) = Some jar"
  using assms by (auto simp: outcome_def expand_def degrade_def Let_def split: option.splits prod.splits if_splits)

lemma resolved_jars_cached:
  assumes "jar \<in> set (fst (resolve_transitive env seeds loc))"
  shows "fs_is_file fs jar \<and> (\<exists>g a v. locate_jar loc g a v = Some jar \<and>
     (clean g \<longrightarrow> (\<exists>r \<in> set roots. inside r jar)))"
proof -
  obtain pops where "explains env loc (walk_init seeds) (resolve_loop env loc (walk_init seeds)) pops"
    using resolve_loop_explains by blast
  then have "fst (resolve_transitive env seeds loc) = concat (map (\<lambda>x. w_jars (outcome env loc x)) (first_by_key {} pops))"
    by (simp add: explains_def Let_def resolve_transitive_def walk_init_def)
  then obtain x where "jar \<in> set (w_jars (outcome env loc x))" using assms by auto
  then have "locate_jar loc (sd_group (fst x)) (sd_artifact (fst x)) (sd_version (fst x)) = Some jar"
    by (rule outcome_jars_located)
  then show ?thesis using located_file located_inside by blast
qed

lemma project_jars_cached:
  assumes "jar \<in> set (rp_jars (resolve_maven_like_project env root loc))"
  shows "fs_is_file fs jar \<and> (\<exists>g a v. locate_jar loc g a v = Some jar \<and>
     (clean g \<longrightarrow> (\<exists>r \<in> set roots. inside r jar)))"
proof -
  have "jar \<in> set (fst (resolve_transitive env seeds loc))"
    if "rp_jars (resolve_maven_like_project env root loc) = fst (resolve_transitive env seeds loc)" for seeds
    using that assms by simp
  then show ?thesis
    using assms resolved_jars_cached
    by (auto simp: resolve_maven_like_project_def Let_def split: option.splits prod.splits) (metis fst_conv)+
qed

end

section \<open>The Maven locator keeps the contract\<close>

lemma split_char_replace_dot:
  "CHR ''/'' \<notin> set s \<Longrightarrow> split_char (CHR ''/'') (replace_char (CHR ''.'') ''/'' s) = split_char (CHR ''.'') s"
proof (induction s)
  case (Cons c s)
  have "replace_char (CHR ''.'') ''/'' (c # s) = (if c = CHR ''.'' then CHR ''/'' else c) # replace_char (CHR ''.'') ''/'' s"
    by (simp add: replace_char_def)
  then show ?case using Cons by (auto split: list.splits)
qed (simp add: replace_char_def)

lemma safe_coord_piece: "\<not> unsafe_coord s \<Longrightarrow> s \<noteq> ''..'' \<and> CHR ''/'' \<notin> set s \<and> s \<noteq> []"
  using starts_with_append [of "''..''" "[]"] by (auto simp: unsafe_coord_def contains_sub_def)

lemma m2_pieces:
  assumes "m2_relative_ext g a v ext = Some rel" "CHR ''/'' \<notin> set ext"
  shows "split_char (CHR ''/'') rel = split_char (CHR ''.'') g @ [a, v, a @ ''-'' @ v @ ''.'' @ ext]"
proof -
  have safe: "\<not> unsafe_coord g" "\<not> unsafe_coord a" "\<not> unsafe_coord v"
    and rel: "rel = replace_char (CHR ''.'') ''/'' g @ CHR ''/'' # (a @ CHR ''/'' # (v @ CHR ''/'' # (a @ ''-'' @ v @ ''.'' @ ext)))"
    using assms by (auto simp: m2_relative_ext_def split: if_splits)
  have "CHR ''/'' \<notin> set g" "CHR ''/'' \<notin> set a" "CHR ''/'' \<notin> set v" using safe safe_coord_piece by blast+
  then show ?thesis
    unfolding rel split_char_sep using assms(2) by (simp add: split_char_none split_char_replace_dot)
qed

lemma m2_relative_inside:
  assumes "m2_relative_ext g a v ext = Some rel" "CHR ''/'' \<notin> set ext" "\<not> starts_with ''.'' g"
  shows "inside repo (path_join repo rel)"
proof -
  have safe: "\<not> unsafe_coord g" "\<not> unsafe_coord a" "\<not> unsafe_coord v"
    using assms(1) by (auto simp: m2_relative_ext_def split: if_splits)
  obtain c g' where g: "g = c # g'" "c \<noteq> CHR ''.''" "c \<noteq> CHR ''/''"
    using safe_coord_piece [OF safe(1)] assms(3) by (cases g) (auto simp: starts_with_def)
  then have rel: "\<not> is_absolute rel"
    using assms(1) by (auto simp: m2_relative_ext_def is_absolute_def starts_with_def replace_char_def split: if_splits)
  have "''..'' \<notin> set (split_char (CHR ''.'') g)" using split_char_pieces by fastforce
  moreover have "a @ ''-'' @ v @ ''.'' @ ext \<noteq> ''..''" by (cases a; cases "tl a") auto
  ultimately have up: "''..'' \<notin> set (split_char (CHR ''/'') rel)"
    using m2_pieces [OF assms(1,2)] safe safe_coord_piece by auto
  have "hd (split_char (CHR ''/'') rel) = hd (split_char (CHR ''.'') g)" using m2_pieces [OF assms(1,2)] by simp
  then have "hd (split_char (CHR ''/'') rel) \<noteq> ''.''" using split_char_pieces [of "''.''" "CHR ''.''" g] by (metis hd_in_set list.set_intros(1) split_char_not_Nil)
  then have "inside [] rel" using rel segments_normal [OF up]
    by (auto simp: inside_def components_def is_absolute_def starts_with_def)
  then show ?thesis
    using inside_join [OF _ rel up] by (cases "repo = []") (auto simp: path_join_def is_absolute_def)
qed

interpretation maven: cache_locator fs "[m2_repo]" "\<lambda>g. \<not> starts_with ''.'' g" "MavenLocator fs m2_repo"
  for fs m2_repo
  by unfold_locales
    (auto simp: MavenLocator_def existing_file_def m2_relative_def bind_eq_Some_conv intro: m2_relative_inside split: if_splits)

text \<open>
  Every jar of a resolved Maven project is an existing file that the local repository holds:
  for any poms, each jar on the resulting classpath exists, belongs to some coordinate, and lies
  inside the repository directory whenever the group of that coordinate does not begin with a dot.
\<close>

theorem maven_project_jars_cached:
  assumes "jar \<in> set (rp_jars (maven_resolve_project env root m2_repo))"
  shows "fs_is_file (re_fs env) jar
    \<and> (\<exists>g a v. locate_jar (MavenLocator (re_fs env) m2_repo) g a v = Some jar \<and> (starts_with ''.'' g \<or> inside m2_repo jar))"
  using maven.project_jars_cached [of jar env root "re_fs env" m2_repo] assms
  unfolding maven_resolve_project_def by auto

text \<open>The exception is real: a group that begins with a dot becomes an absolute path, and joining it
  discards the repository directory.\<close>

lemma dotted_group_escapes:
  "m2_relative ''.etc'' ''a'' ''1'' = Some ''/etc/a/1/a-1.jar''
   \<and> path_join ''/home/u/.m2/repository'' ''/etc/a/1/a-1.jar'' = ''/etc/a/1/a-1.jar''"
  by code_simp

section \<open>A project on which the theorems are applied\<close>

definition sample_pom :: xnode where
  "sample_pom = XElem ''project'' None
     [XElem ''groupId'' (Some ''g'') [], XElem ''artifactId'' (Some ''p'') [], XElem ''version'' (Some ''1'') [],
      XElem ''properties'' None [XElem ''v'' (Some '' 2 '') []],
      XElem ''dependencies'' None
        [XElem ''dependency'' None
           [XElem ''groupId'' (Some ''g.h'') [], XElem ''artifactId'' (Some ''a'') [],
            XElem ''version'' (Some ''${v}'') []]]]"

definition sample_project_fs :: fs where
  "sample_project_fs = \<lparr>fs_read = (\<lambda>p. if p = ''/p/pom.xml'' then Some [] else None),
     fs_len = (\<lambda>p. if p = ''/p/pom.xml'' then Some 0 else None),
     fs_is_file = (\<lambda>p. p \<in> {''/p/pom.xml'', ''/r/g/h/a/2/a-2.jar''}),
     fs_is_dir = (\<lambda>_. False), fs_read_dir = (\<lambda>_. None),
     fs_canonicalize = Some, fs_var = (\<lambda>_. None)\<rparr>"

definition pom_env :: resolver_env where
  "pom_env = \<lparr>re_fs = sample_project_fs, re_parse = (\<lambda>_. Some sample_pom), re_iter = (\<lambda>m. m)\<rparr>"

lemma sample_pom_body:
  "re_dependencies (pom_body pom_env loc own cached ''/p/pom.xml'' root sample_pom) =
     [\<lparr>rd_group = ''g.h'', rd_artifact = ''a'', rd_version = Some ''2'', rd_scope = ''compile'', rd_optional = False,
       rd_classifier = None, rd_exclusions = {}\<rparr>]"
  "re_modules (pom_body pom_env loc own cached ''/p/pom.xml'' root sample_pom) = []"
  by code_simp+

lemma sample_parse:
  "parse_effective_pom pom_env ''/p/pom.xml'' loc 0 root =
     Some \<lparr>ep_dependencies = [\<lparr>rd_group = ''g.h'', rd_artifact = ''a'', rd_version = Some ''2'', rd_scope = ''compile'',
             rd_optional = False, rd_classifier = None, rd_exclusions = {}\<rparr>],
           ep_modules = [], ep_degraded = []\<rparr>"
proof -
  have "read_project pom_env ''/p/pom.xml'' = Some sample_pom"
    by (simp add: read_project_def pom_env_def sample_project_fs_def over_size_def read_to_string_def
        from_utf8_def sample_pom_def has_tag_name_def)
  moreover have "re_degraded (pom_body pom_env loc own cached ''/p/pom.xml'' root sample_pom) = []" for own cached
    by code_simp
  ultimately show ?thesis
    unfolding parse_effective_pom_def by (subst parse_effective_pom_raw_body) (simp add: sample_pom_body)
qed

lemma sample_project_resolves: "rp_jars (maven_resolve_project pom_env ''/p'' ''/r'') = [''/r/g/h/a/2/a-2.jar'']"
proof -
  let ?loc = "MavenLocator sample_project_fs ''/r''"
  have loc: "locate_jar ?loc ''g.h'' ''a'' ''2'' = Some ''/r/g/h/a/2/a-2.jar''" "locate_pom ?loc ''g.h'' ''a'' ''2'' = None"
    by code_simp+
  have "fst (resolve_transitive pom_env [\<lparr>sd_group = ''g.h'', sd_artifact = ''a'', sd_version = ''2'', sd_exclusions = {}\<rparr>] ?loc)
    = [''/r/g/h/a/2/a-2.jar'']"
    by (simp add: resolve_transitive_def walk_init_def resolve_loop.simps resolve_step_def expand_def degrade_def
        loc Let_def MAX_NODES_def)
  moreover have "path_join ''/p'' ''pom.xml'' = ''/p/pom.xml''" by code_simp
  ultimately show ?thesis
    by (simp add: maven_resolve_project_def resolve_maven_like_project_def sample_parse add_seeds_def seed_of_def
        add_source_root_def pom_env_def [THEN arg_cong [of _ _ re_fs]] Let_def case_prod_beta)
qed

theorem maven_project_jars_cached_witness:
  "fs_is_file (re_fs pom_env) ''/r/g/h/a/2/a-2.jar''
   \<and> (\<exists>g a v. locate_jar (MavenLocator (re_fs pom_env) ''/r'') g a v = Some ''/r/g/h/a/2/a-2.jar''
        \<and> (starts_with ''.'' g \<or> inside ''/r'' ''/r/g/h/a/2/a-2.jar''))"
  by (rule maven_project_jars_cached [where root = "''/p''"]) (simp add: sample_project_resolves)

theorem project_local_parent_confined_witness:
  "project_local_parent sample_project_fs ''/p/m/pom.xml'' ''../pom.xml'' ''/p'' = Some ''/p/pom.xml''
   \<and> project_local_parent sample_project_fs ''/p/m/pom.xml'' ''../../pom.xml'' ''/p'' = None
   \<and> inside ''/p'' ''/p/pom.xml''"
proof (intro conjI)
  show some: "project_local_parent sample_project_fs ''/p/m/pom.xml'' ''../pom.xml'' ''/p'' = Some ''/p/pom.xml''"
    by code_simp
  show "project_local_parent sample_project_fs ''/p/m/pom.xml'' ''../../pom.xml'' ''/p'' = None"
    by code_simp
  have "lexical_normalize ''/p'' = Some ''/p''" "components ''/p'' \<noteq> []" by code_simp+
  from project_local_parent_confined [OF some this] show "inside ''/p'' ''/p/pom.xml''" by blast
qed

text \<open>A second file system, in which a file outside the project and the caches differs.\<close>

definition tampered_fs :: fs where
  "tampered_fs = sample_project_fs\<lparr>fs_read := (fs_read sample_project_fs)(''/etc/passwd'' := Some [1]),
     fs_is_file := (fs_is_file sample_project_fs)(''/etc/passwd'' := True)\<rparr>"

theorem parse_effective_pom_reads_confined_witness:
  "fs_read tampered_fs ''/etc/passwd'' \<noteq> fs_read sample_project_fs ''/etc/passwd''
   \<and> parse_effective_pom (pom_env\<lparr>re_fs := tampered_fs\<rparr>) ''/p/pom.xml'' (MavenLocator sample_project_fs ''/r'') 0 (Some ''/p'') =
     parse_effective_pom (pom_env\<lparr>re_fs := sample_project_fs\<rparr>) ''/p/pom.xml'' (MavenLocator sample_project_fs ''/r'') 0 (Some ''/p'')"
proof
  show "fs_read tampered_fs ''/etc/passwd'' \<noteq> fs_read sample_project_fs ''/etc/passwd''" by code_simp
  have out: "\<not> may_read (MavenLocator sample_project_fs ''/r'') (Some ''/p'') ''/etc/passwd''"
  proof -
    have "\<not> fs_is_file sample_project_fs ''/etc/passwd''" by code_simp
    then have "locate_pom (MavenLocator sample_project_fs ''/r'') g a v \<noteq> Some ''/etc/passwd''" for g a v
      using maven.located_file by blast
    moreover have "lexical_normalize ''/p'' = Some ''/p''" "\<not> path_starts_with ''/p'' ''/etc/passwd''" by code_simp+
    ultimately show ?thesis by (simp add: may_read_def)
  qed
  have same: "same_at sample_project_fs tampered_fs p" if "p \<noteq> ''/etc/passwd''" for p
    using that by (simp add: same_at_def tampered_fs_def)
  have reads: "same_reads (MavenLocator sample_project_fs ''/r'') (Some ''/p'') sample_project_fs tampered_fs"
    unfolding same_reads_def
  proof (intro conjI allI impI)
    fix p assume read: "may_read (MavenLocator sample_project_fs ''/r'') (Some ''/p'') p"
    have "p \<noteq> ''/etc/passwd''"
    proof
      assume "p = ''/etc/passwd''"
      with read out show False by (simp only:)
    qed
    then show "same_at sample_project_fs tampered_fs p" by (rule same)
  qed (simp add: tampered_fs_def)
  have pom: "same_at sample_project_fs tampered_fs ''/p/pom.xml''" by (rule same) simp
  show "parse_effective_pom (pom_env\<lparr>re_fs := tampered_fs\<rparr>) ''/p/pom.xml'' (MavenLocator sample_project_fs ''/r'') 0 (Some ''/p'') =
     parse_effective_pom (pom_env\<lparr>re_fs := sample_project_fs\<rparr>) ''/p/pom.xml'' (MavenLocator sample_project_fs ''/r'') 0 (Some ''/p'')"
    by (rule parse_effective_pom_reads_confined [OF reads pom])
qed

section \<open>Edges and exclusions\<close>

text \<open>The dependencies that a node passes on.\<close>

definition eligible :: "seed \<Rightarrow> raw_dep \<Rightarrow> bool" where
  "eligible s dep \<longleftrightarrow> rd_scope dep \<in> {''compile'', ''runtime''} \<and> \<not> rd_optional dep \<and> dep_key dep \<notin> sd_exclusions s
     \<and> rd_classifier dep = None \<and> rd_version dep \<noteq> None"

lemma edges_queued:
  "fst (edges s d deps) =
     map (\<lambda>dep. (seed_of dep (the (rd_version dep)) (sd_exclusions s \<union> rd_exclusions dep), Suc d)) (filter (eligible s) deps)"
  by (induction deps) (auto simp: eligible_def Let_def split: prod.splits option.splits)

lemma outcome_queue:
  "x \<in> set (w_queue (outcome env loc (s, d))) \<Longrightarrow>
     \<exists>dep. eligible s dep \<and> x = (seed_of dep (the (rd_version dep)) (sd_exclusions s \<union> rd_exclusions dep), Suc d)"
proof -
  assume "x \<in> set (w_queue (outcome env loc (s, d)))"
  then obtain deps where "x \<in> set (fst (edges s d deps))"
    by (auto simp: outcome_def expand_def degrade_def Let_def split: option.splits prod.splits if_splits) (metis fst_conv)
  then show ?thesis by (auto simp: edges_queued)
qed

fun path_of :: "resolver_env \<Rightarrow> locator \<Rightarrow> (seed \<times> nat) list \<Rightarrow> bool" where
  "path_of env loc (x # y # zs) \<longleftrightarrow> y \<in> set (w_queue (outcome env loc x)) \<and> path_of env loc (y # zs)"
| "path_of env loc _ \<longleftrightarrow> True"

lemma path_of_exclusions:
  "path_of env loc (x # ys) \<Longrightarrow> y \<in> set ys \<Longrightarrow>
     seed_key (fst y) \<notin> sd_exclusions (fst x) \<and> sd_exclusions (fst x) \<subseteq> sd_exclusions (fst y) \<and> snd x < snd y"
proof (induction ys arbitrary: x)
  case (Cons z ys)
  obtain dep where dep: "eligible (fst x) dep"
    "z = (seed_of dep (the (rd_version dep)) (sd_exclusions (fst x) \<union> rd_exclusions dep), Suc (snd x))"
    using Cons.prems(1) outcome_queue [of z env loc "fst x" "snd x"] by auto
  then have z: "seed_key (fst z) \<notin> sd_exclusions (fst x)" "sd_exclusions (fst x) \<subseteq> sd_exclusions (fst z)" "snd x < snd z"
    by (auto simp: eligible_def seed_of_def seed_key_def dep_key_def)
  show ?case
  proof (cases "y = z")
    case False
    then have "y \<in> set ys" using Cons.prems(2) by simp
    from Cons.IH [OF _ this, of z] show ?thesis using Cons.prems(1) z by auto
  qed (use z in simp)
qed simp

text \<open>
  Exclusions hold along the whole path: if the walk reached a node through a chain of
  dependencies, then no node further down the chain has a group and artifact that any node above it
  excluded, everything a node excludes stays excluded below it, and depths strictly grow.
\<close>

theorem exclusions_along_path:
  assumes "path_of env loc (xs @ x # ys)" "y \<in> set ys"
  shows "seed_key (fst y) \<notin> sd_exclusions (fst x) \<and> sd_exclusions (fst x) \<subseteq> sd_exclusions (fst y) \<and> snd x < snd y"
proof -
  have "path_of env loc (x # ys)"
    using assms(1) by (induction xs rule: induct_list012) auto
  then show ?thesis using path_of_exclusions assms(2) by blast
qed

text \<open>Root dependencies of every scope are seeds, \<open>test\<close> included; the header of the module says
  that \<open>test\<close> is always dropped.\<close>

lemma root_seeds_exact:
  "fst (root_seeds deps seeds degraded) = seeds @ map (\<lambda>d. seed_of d (the (rd_version d)) (rd_exclusions d))
     (filter (\<lambda>d. rd_classifier d = None \<and> rd_version d \<noteq> None) deps)"
  by (induction deps seeds degraded rule: root_seeds.induct) (auto split: option.splits)

section \<open>Properties\<close>

lemma find_sub_needle: "contains_sub (needle_of key) s \<Longrightarrow> contains_sub ''${'' s"
  unfolding contains_sub_iff needle_of_def by (metis append_assoc)

lemma subst_one_literal: "\<not> contains_sub ''${'' s \<Longrightarrow> foldl subst_one (s, False) order = (s, False)"
  by (induction order) (auto simp: subst_one_def dest: find_sub_needle)

lemma substitute_literal: "\<not> contains_sub ''${'' s \<Longrightarrow> substitute env s props = s"
  by (simp add: substitute_def subst_one_literal numeral_eq_Suc)

lemma show_nat_no_dollar: "\<not> contains_sub ''${'' (show_nat n)"
  using show_nat_digits [of n] by (force simp: contains_sub_iff is_digit_def)

lemma parse_release_level_show: "n < 2 ^ 32 \<Longrightarrow> parse_release_level (show_nat n) = Some (of_nat n)"
proof -
  assume n: "n < 2 ^ 32"
  have "strip_prefix ''1.'' (show_nat n) = None"
    using show_nat_digits [of n] by (fastforce simp: strip_prefix_def is_digit_def dest!: starts_withE)
  then show ?thesis using n parse_show_nat [of n "2 ^ 32 - 1"] show_nat_no_dollar [of n]
    by (simp add: parse_release_level_def Let_def trim_show_nat)
qed

text \<open>
  A declared Java release is recovered: when one of the three properties, in the order of
  precedence, is the decimal text of a 32-bit number and none before it is set, the project's
  release is that number, whatever order the property map iterates in.
\<close>

theorem release_from_props_declared:
  assumes "n < 2 ^ 32"
    and "map_of props ''maven.compiler.release'' = Some (show_nat n)
      \<or> map_of props ''maven.compiler.release'' = None \<and>
         (map_of props ''maven.compiler.source'' = Some (show_nat n)
          \<or> map_of props ''maven.compiler.source'' = None \<and> map_of props ''java.version'' = Some (show_nat n))"
  shows "release_from_props env props = Some (of_nat n)"
  using assms parse_release_level_show [OF assms(1)]
  by (auto simp: release_from_props_def substitute_literal show_nat_no_dollar)

text \<open>The result of a substitution can depend on the iteration order of the map: a chain of seven
  references resolves in one pass or not at all.\<close>

definition chain_props :: "(string \<times> string) list" where
  "chain_props = [(''a'', ''${b}''), (''b'', ''${c}''), (''c'', ''${d}''), (''d'', ''${e}''), (''e'', ''${f}''),
     (''f'', ''${g}''), (''g'', ''1'')]"

lemma substitute_order_dependent:
  "subst_passes 5 chain_props ''${a}'' = ''1'' \<and> subst_passes 5 (rev chain_props) ''${a}'' = ''${f}''"
  by code_simp

text \<open>And the passes bound the number of rounds, not the size: each property can double the text.\<close>

lemma substitute_doubles:
  "length (subst_passes 5 [(''a'', ''${b}${b}''), (''b'', ''${c}${c}''), (''c'', ''${d}${d}''), (''d'', ''${e}${e}''),
     (''e'', ''${f}${f}''), (''f'', ''${g}${g}''), (''g'', ''xxxx'')] ''${a}'') = 256"
  by code_simp

definition sample_locator :: locator where
  "sample_locator = \<lparr>locate_pom = (\<lambda>_ _ _. Some ''/p/pom.xml''), locate_jar = (\<lambda>_ _ _. Some ''/j.jar'')\<rparr>"

definition sample_seed :: seed where
  "sample_seed = \<lparr>sd_group = ''g'', sd_artifact = ''p'', sd_version = ''1'', sd_exclusions = {(''x'', ''y'')}\<rparr>"

definition sample_child :: seed where
  "sample_child = \<lparr>sd_group = ''g.h'', sd_artifact = ''a'', sd_version = ''2'', sd_exclusions = {(''x'', ''y'')}\<rparr>"

theorem exclusions_along_path_witness:
  "path_of pom_env sample_locator [(sample_seed, 0), (sample_child, 1)]
   \<and> seed_key sample_child \<notin> sd_exclusions sample_seed \<and> sd_exclusions sample_seed \<subseteq> sd_exclusions sample_child"
proof -
  have p: "path_of pom_env sample_locator ([] @ (sample_seed, 0) # [(sample_child, 1)])"
    by (simp add: outcome_def expand_def sample_locator_def sample_seed_def sample_child_def sample_parse degrade_def
        Let_def dep_key_def seed_of_def)
  show ?thesis using p exclusions_along_path [OF p, of "(sample_child, 1)"] by simp
qed

theorem release_from_props_declared_witness:
  "release_from_props pom_env [(''java.version'', ''21'')] = Some 21"
proof -
  have "''21'' = show_nat 21" by code_simp
  then show ?thesis using release_from_props_declared [of 21 "[(''java.version'', ''21'')]" pom_env] by simp
qed

section \<open>Nothing is dropped in silence\<close>

lemma outcome_reports:
  "seed_coord s \<in> set (w_degraded (outcome env loc (s, d)))
   \<or> max_depth_exceeded s \<in> set (w_degraded (outcome env loc (s, d)))
   \<or> (\<exists>jar. locate_jar loc (sd_group s) (sd_artifact s) (sd_version s) = Some jar \<and> jar \<in> set (w_jars (outcome env loc (s, d))))"
  by (auto simp: outcome_def expand_def degrade_def Let_def split: option.splits prod.splits)

text \<open>How a group and artifact shows in a result: by its jar, or by a message that names it.\<close>

definition accounted :: "locator \<Rightarrow> string \<times> string \<Rightarrow> string list \<times> string list \<Rightarrow> bool" where
  "accounted loc k r \<longleftrightarrow> (\<exists>s. seed_key s = k \<and>
     ((\<exists>jar. locate_jar loc (sd_group s) (sd_artifact s) (sd_version s) = Some jar \<and> jar \<in> set (fst r))
      \<or> seed_coord s \<in> set (snd r) \<or> max_depth_exceeded s \<in> set (snd r)))"

lemma resolve_transitive_accounts:
  assumes "s \<in> set seeds"
  shows "accounted loc (seed_key s) (resolve_transitive env seeds loc)
     \<or> node_limit_exceeded \<in> set (snd (resolve_transitive env seeds loc))"
proof -
  obtain pops where p: "explains env loc (walk_init seeds) (resolve_loop env loc (walk_init seeds)) pops"
    using resolve_loop_explains by blast
  let ?visits = "first_by_key {} pops" and ?ag = "agenda env loc (map (\<lambda>s. (s, 0)) seeds) (first_by_key {} pops)"
  have r: "resolve_transitive env seeds loc = (concat (map (\<lambda>x. w_jars (outcome env loc x)) ?visits),
      concat (map (\<lambda>x. w_degraded (outcome env loc x)) ?visits) @ (if pops = ?ag then [] else [node_limit_exceeded]))"
    using p by (simp add: explains_def Let_def resolve_transitive_def walk_init_def)
  show ?thesis
  proof (cases "pops = ?ag")
    case True
    have "(s, 0) \<in> set ?ag" using assms by (simp add: agenda_def)
    then have "(s, 0) \<in> set pops" using True by simp
    then obtain x where x: "x \<in> set ?visits" "seed_key (fst x) = seed_key s"
      using first_by_key_covers [of "(s, 0)" pops "{}"] by auto
    then have "accounted loc (seed_key (fst x)) (resolve_transitive env seeds loc)"
      using outcome_reports [of "fst x" env loc "snd x"] unfolding accounted_def r by (auto intro!: exI [of _ "fst x"])
    then show ?thesis using x(2) by simp
  qed (simp add: r)
qed

end
