(* ===== verification/Gradle_Resolver.thy ===== *)
theory Gradle_Resolver
  imports Maven_Resolver "HOL-Library.Char_ord" "HOL-Library.List_Lexorder" "HOL-Library.Product_Lexorder"
begin

text \<open>
  \<open>crates/classpath/src/gradle.rs\<close>: what is read statically out of a Gradle build, and the locator
  over the Gradle module cache. Text is scanned byte-wise; the code's tests are for ASCII characters,
  which occur in UTF-8 text only as themselves.
\<close>

section \<open>The declared Java release\<close>

definition MAX_BUILD_BYTES :: nat where "MAX_BUILD_BYTES = 4 * 1024 * 1024"

definition leading_u32 :: "string \<Rightarrow> u32 option" where
  "leading_u32 s = map_option of_nat (parse_uint (2 ^ 32 - 1) (takeWhile is_digit s))"

fun version_token :: "string \<Rightarrow> u32 option" where
  "version_token [] = None"
| "version_token (c # s) =
     (if is_digit c then
        (case strip_prefix ''1.'' (c # s) of Some minor \<Rightarrow> leading_u32 minor | None \<Rightarrow> leading_u32 (c # s))
      else if c = CHR 0x0A \<or> is_ascii_alphabetic c then None
      else version_token s)"

lemma find_sub_bound: "find_sub p s = Some i \<Longrightarrow> i + length p \<le> length s"
proof (induction p s arbitrary: i rule: find_sub.induct)
  case (2 p c s)
  show ?case
  proof (cases "starts_with p (c # s)")
    case True
    then have "length p \<le> length (c # s)" by (auto dest!: starts_withE arg_cong [of _ _ length])
    then show ?thesis using 2 True by simp
  next
    case False
    then show ?thesis using 2 by auto
  qed
qed (auto split: if_splits)

text \<open>The search goes on behind each occurrence. The keys are non-empty constants; for an empty key
  the loop of the source would not end, and the model stops.\<close>

function version_after_key :: "string \<Rightarrow> string \<Rightarrow> u32 option" where
  "version_after_key text key =
     (if key = [] then None
      else case find_sub key text of
          None \<Rightarrow> None
        | Some rel \<Rightarrow>
            (let rest = drop (rel + length key) text in
             case version_token rest of Some n \<Rightarrow> Some n | None \<Rightarrow> version_after_key rest key))"
  by pat_completeness auto
termination
  by (relation "measure (\<lambda>(text, _). length text)") (auto dest!: find_sub_bound simp: neq_Nil_conv)

declare version_after_key.simps [simp del]

definition toolchain_release :: "string \<Rightarrow> u32 option" where
  "toolchain_release text =
     Option.bind (find_sub ''JavaLanguageVersion.of('' text)
       (\<lambda>pos. leading_u32 (trim_start (drop (pos + length ''JavaLanguageVersion.of('') text)))"

definition constant_release :: "string \<Rightarrow> u32 option" where
  "constant_release text =
     Option.bind (find_sub ''VERSION_'' text) (\<lambda>pos.
       let rest = drop (pos + length ''VERSION_'') text in
       case strip_prefix ''1_'' rest of Some stripped \<Rightarrow> leading_u32 stripped | None \<Rightarrow> leading_u32 rest)"

fun first_key :: "string \<Rightarrow> string list \<Rightarrow> u32 option" where
  "first_key text [] = None"
| "first_key text (key # keys) =
     (case version_after_key text key of Some n \<Rightarrow> Some n | None \<Rightarrow> first_key text keys)"

definition parse_gradle_release :: "string \<Rightarrow> u32 option" where
  "parse_gradle_release text =
     option_or (toolchain_release text)
       (option_or (constant_release text)
         (first_key text [''sourceCompatibility'', ''targetCompatibility'', ''release'']))"

definition read_build :: "fs \<Rightarrow> string \<Rightarrow> string option" where
  "read_build fs path = (if over_size fs MAX_BUILD_BYTES path then None else read_to_string fs path)"

fun first_build_release :: "fs \<Rightarrow> string \<Rightarrow> string list \<Rightarrow> u32 option" where
  "first_build_release fs root [] = None"
| "first_build_release fs root (name # names) =
     (case Option.bind (read_build fs (path_join root name)) parse_gradle_release of
        Some n \<Rightarrow> Some n
      | None \<Rightarrow> first_build_release fs root names)"

definition gradle_compiler_release :: "fs \<Rightarrow> string \<Rightarrow> u32 option" where
  "gradle_compiler_release fs root = first_build_release fs root [''build.gradle'', ''build.gradle.kts'']"

section \<open>Coordinates in build files\<close>

definition is_dynamic_version :: "string \<Rightarrow> bool" where
  "is_dynamic_version version \<longleftrightarrow> CHR ''+'' \<in> set version \<or> starts_with ''latest.'' version
     \<or> starts_with ''['' version \<or> starts_with ''('' version"

function string_literals :: "string \<Rightarrow> string list" where
  "string_literals [] = []"
| "string_literals (q # rest) =
     (if (q = CHR 0x22 \<or> q = CHR 0x27) \<and> q \<in> set rest then
        (case from_utf8 (as_bytes (takeWhile (\<lambda>c. c \<noteq> q) rest)) of Some s \<Rightarrow> [s] | None \<Rightarrow> [])
        @ string_literals (tl (dropWhile (\<lambda>c. c \<noteq> q) rest))
      else string_literals rest)"
  by pat_completeness auto
termination
  by (relation "measure length") (auto intro!: le_imp_less_Suc order_trans [OF diff_le_self length_dropWhile_le])

definition has_whitespace :: "string \<Rightarrow> bool" where
  "has_whitespace s \<longleftrightarrow> list_ex (\<lambda>w. contains_sub w s) white_space"

definition coord_of_literal :: "string \<Rightarrow> (string \<times> string \<times> string) option" where
  "coord_of_literal literal =
     (if CHR ''$'' \<in> set literal then None
      else case split_char (CHR '':'') literal of
          [g, a, v] \<Rightarrow>
            if list_all (\<lambda>p. p \<noteq> [] \<and> \<not> has_whitespace p) [g, a, v]
               \<and> list_ex (\<lambda>c. is_digit c \<or> c = CHR ''+'') v
            then Some (g, a, v) else None
        | _ \<Rightarrow> None)"

definition scrape_coords :: "string \<Rightarrow> (string \<times> string \<times> string) list \<Rightarrow> (string \<times> string \<times> string) list" where
  "scrape_coords text out = out @ List.map_filter coord_of_literal (string_literals text)"

section \<open>The Gradle cache\<close>

definition version_dir :: "string \<Rightarrow> string \<Rightarrow> string \<Rightarrow> string \<Rightarrow> string" where
  "version_dir cache grp artifact version =
     path_join (path_join (path_join (path_join cache ''modules-2/files-2.1'') grp) artifact) version"

definition cache_file :: "fs \<Rightarrow> string \<Rightarrow> string \<Rightarrow> string \<Rightarrow> string \<Rightarrow> string \<Rightarrow> string option" where
  "cache_file fs cache grp artifact version ext =
     (if list_ex unsafe_coord [grp, artifact, version] then None
      else Option.bind (fs_read_dir fs (version_dir cache grp artifact version)) (\<lambda>es.
        find (fs_is_file fs)
          (map (\<lambda>e. path_join (entry_path (version_dir cache grp artifact version) e)
                  (artifact @ ''-'' @ version @ ''.'' @ ext)) es)))"

definition GradleLocator :: "fs \<Rightarrow> string \<Rightarrow> locator" where
  "GradleLocator fs cache =
     \<lparr>locate_pom = (\<lambda>grp artifact version. cache_file fs cache grp artifact version ''pom''),
      locate_jar = (\<lambda>grp artifact version. cache_file fs cache grp artifact version ''jar'')\<rparr>"

definition FallbackLocator :: "locator \<Rightarrow> locator \<Rightarrow> locator" where
  "FallbackLocator primary secondary =
     \<lparr>locate_pom = (\<lambda>grp artifact version.
        option_or (locate_pom primary grp artifact version) (locate_pom secondary grp artifact version)),
      locate_jar = (\<lambda>grp artifact version.
        option_or (locate_jar primary grp artifact version) (locate_jar secondary grp artifact version))\<rparr>"

definition scraped :: "fs \<Rightarrow> string \<Rightarrow> (string \<times> string \<times> string) list" where
  "scraped fs root =
     foldl (\<lambda>coords name. case read_build fs (path_join root name) of
              Some text \<Rightarrow> scrape_coords text coords | None \<Rightarrow> coords) []
       [''build.gradle'', ''build.gradle.kts'', ''gradle/libs.versions.toml'']"

definition dynamic_unsupported :: "string \<times> string \<times> string \<Rightarrow> string" where
  "dynamic_unsupported = (\<lambda>(g, a, v). g @ '':'' @ a @ '':'' @ v @ '' (dynamic version unsupported)'')"

definition gradle_resolve_project :: "resolver_env \<Rightarrow> string \<Rightarrow> string \<Rightarrow> string \<Rightarrow> resolved_project" where
  "gradle_resolve_project env root gradle_cache m2_repo =
     (let coords = remdups_adj (sort (scraped (re_fs env) root));
          degraded_dynamic = map dynamic_unsupported (filter (\<lambda>(g, a, v). is_dynamic_version v) coords);
          coords = filter (\<lambda>(g, a, v). \<not> is_dynamic_version v) coords;
          loc = FallbackLocator (GradleLocator (re_fs env) gradle_cache) (MavenLocator (re_fs env) m2_repo);
          (jars, degraded) = resolve_transitive env (coord_seeds coords) loc
      in \<lparr>rp_jars = jars, rp_source_roots = [], rp_degraded = degraded_dynamic @ degraded\<rparr>)"

section \<open>The cache locators keep the contract\<close>

text \<open>The names that a directory listing yields are plain names.\<close>

definition plain_dirs :: "fs \<Rightarrow> bool" where
  "plain_dirs fs \<longleftrightarrow> (\<forall>d es e. fs_read_dir fs d = Some es \<longrightarrow> e \<in> set es \<longrightarrow>
     de_name e \<noteq> [] \<and> de_name e \<noteq> ''.'' \<and> de_name e \<noteq> ''..'' \<and> CHR ''/'' \<notin> set (de_name e))"

lemma inside_join_name:
  assumes "base \<noteq> []" "CHR ''/'' \<notin> set n" "n \<noteq> ''..''"
  shows "inside base (path_join base n)"
  using assms by (intro inside_join) (auto simp: split_char_none is_absolute_def dest!: starts_withE)

lemma modules_dir_inside: "inside cache (path_join cache ''modules-2/files-2.1'')"
proof (cases "cache = []")
  case True
  have "components ''modules-2/files-2.1'' = map Normal [''modules-2'', ''files-2.1'']" "components [] = []" by code_simp+
  then show ?thesis using True unfolding inside_def path_join_def by (auto intro!: exI [of _ "[''modules-2'', ''files-2.1'']"])
next
  case False
  then show ?thesis by (intro inside_join) (auto simp: is_absolute_def starts_with_def)
qed

lemma version_dir_inside:
  assumes "\<not> unsafe_coord g" "\<not> unsafe_coord a" "\<not> unsafe_coord v"
  shows "inside cache (version_dir cache g a v)"
proof -
  let ?m = "path_join cache ''modules-2/files-2.1''"
  have ne: "?m \<noteq> []" by (simp add: path_join_def)
  have "inside ?m (path_join ?m g)" "inside (path_join ?m g) (path_join (path_join ?m g) a)"
    "inside (path_join (path_join ?m g) a) (version_dir cache g a v)"
    using assms ne unfolding version_dir_def by (auto intro!: inside_join_name path_join_nonempty dest: safe_coord_piece)
  then show ?thesis using modules_dir_inside inside_trans by blast
qed

lemma cache_file_Some:
  assumes "cache_file fs cache g a v ext = Some p"
  shows "fs_is_file fs p \<and> \<not> unsafe_coord g \<and> \<not> unsafe_coord a \<and> \<not> unsafe_coord v
     \<and> (\<exists>es e. fs_read_dir fs (version_dir cache g a v) = Some es \<and> e \<in> set es
          \<and> p = path_join (entry_path (version_dir cache g a v) e) (a @ ''-'' @ v @ ''.'' @ ext))"
  using assms unfolding cache_file_def by (auto simp: bind_eq_Some_conv find_Some_iff split: if_splits) (metis nth_mem)

lemma cache_file_inside:
  assumes "cache_file fs cache g a v ext = Some p" "plain_dirs fs" "CHR ''/'' \<notin> set ext"
  shows "inside cache p"
proof -
  obtain es e where e: "fs_read_dir fs (version_dir cache g a v) = Some es" "e \<in> set es"
    and p: "p = path_join (entry_path (version_dir cache g a v) e) (a @ ''-'' @ v @ ''.'' @ ext)"
    and safe: "\<not> unsafe_coord g" "\<not> unsafe_coord a" "\<not> unsafe_coord v"
    using cache_file_Some [OF assms(1)] by blast
  have "path_join cache ''modules-2/files-2.1'' \<noteq> []" by (simp add: path_join_def)
  then have ne: "version_dir cache g a v \<noteq> []" unfolding version_dir_def by (simp add: path_join_nonempty)
  have "inside (version_dir cache g a v) (entry_path (version_dir cache g a v) e)"
    using assms(2) e ne unfolding entry_path_def plain_dirs_def by (intro inside_join_name) blast+
  moreover have "inside (entry_path (version_dir cache g a v) e) p"
    unfolding p entry_path_def
  proof (rule inside_join_name)
    show "path_join (version_dir cache g a v) (de_name e) \<noteq> []" by (rule path_join_nonempty [OF ne])
    show "CHR ''/'' \<notin> set (a @ ''-'' @ v @ ''.'' @ ext)" using safe assms(3) safe_coord_piece by auto
    show "a @ ''-'' @ v @ ''.'' @ ext \<noteq> ''..''" by (cases a; cases "tl a") auto
  qed
  ultimately show ?thesis using version_dir_inside [OF safe] inside_trans by blast
qed

interpretation gradle: cache_locator fs "[cache]" "\<lambda>g. plain_dirs fs" "GradleLocator fs cache" for fs cache
  by unfold_locales (auto simp: GradleLocator_def dest: cache_file_Some intro: cache_file_inside)

text \<open>Two locators, one behind the other, vouch for what both vouch for.\<close>

locale locator_pair =
  first: cache_locator fs roots clean loc + second: cache_locator fs roots' clean' loc'
  for fs roots clean loc roots' clean' loc'

sublocale locator_pair \<subseteq> pair: cache_locator fs "roots @ roots'" "\<lambda>g. clean g \<and> clean' g" "FallbackLocator loc loc'"
proof
  show "fs_is_file fs p" if "locate_pom (FallbackLocator loc loc') g a v = Some p \<or> locate_jar (FallbackLocator loc loc') g a v = Some p"
    for g a v p
    using that first.located_file second.located_file
    by (auto simp: FallbackLocator_def option_or_def split: option.splits) blast+
  show "\<exists>r \<in> set (roots @ roots'). inside r p"
    if "locate_pom (FallbackLocator loc loc') g a v = Some p \<or> locate_jar (FallbackLocator loc loc') g a v = Some p"
      and "clean g \<and> clean' g" for g a v p
    using that first.located_inside second.located_inside
    by (auto simp: FallbackLocator_def option_or_def split: option.splits) blast+
qed

interpretation both: locator_pair fs "[cache]" "\<lambda>g. plain_dirs fs" "GradleLocator fs cache"
    "[m2_repo]" "\<lambda>g. \<not> starts_with ''.'' g" "MavenLocator fs m2_repo"
  for fs cache m2_repo ..

lemma gradle_project_result:
  "\<exists>coords. gradle_resolve_project env root cache m2_repo =
     \<lparr>rp_jars = fst (resolve_transitive env (coord_seeds (filter (\<lambda>(g, a, v). \<not> is_dynamic_version v) coords))
         (FallbackLocator (GradleLocator (re_fs env) cache) (MavenLocator (re_fs env) m2_repo))),
      rp_source_roots = [],
      rp_degraded = map dynamic_unsupported (filter (\<lambda>(g, a, v). is_dynamic_version v) coords)
        @ snd (resolve_transitive env (coord_seeds (filter (\<lambda>(g, a, v). \<not> is_dynamic_version v) coords))
            (FallbackLocator (GradleLocator (re_fs env) cache) (MavenLocator (re_fs env) m2_repo)))\<rparr>
   \<and> set coords = set (scraped (re_fs env) root)"
  by (intro exI [of _ "remdups_adj (sort (scraped (re_fs env) root))"])
    (simp add: gradle_resolve_project_def Let_def case_prod_beta)

text \<open>
  Every jar of a resolved Gradle project is an existing file of one of the two caches: it lies
  inside the Gradle cache or inside the Maven repository, unless its group begins with a dot.
\<close>

theorem gradle_project_jars_cached:
  assumes "plain_dirs (re_fs env)" "jar \<in> set (rp_jars (gradle_resolve_project env root gradle_cache m2_repo))"
  shows "fs_is_file (re_fs env) jar \<and>
    (\<exists>g a v. locate_jar (FallbackLocator (GradleLocator (re_fs env) gradle_cache) (MavenLocator (re_fs env) m2_repo)) g a v
        = Some jar \<and> (starts_with ''.'' g \<or> inside gradle_cache jar \<or> inside m2_repo jar))"
proof -
  obtain coords where "rp_jars (gradle_resolve_project env root gradle_cache m2_repo) =
      fst (resolve_transitive env (coord_seeds (filter (\<lambda>(g, a, v). \<not> is_dynamic_version v) coords))
         (FallbackLocator (GradleLocator (re_fs env) gradle_cache) (MavenLocator (re_fs env) m2_repo)))"
    using gradle_project_result [of env root gradle_cache m2_repo] by auto
  then show ?thesis
    using both.pair.resolved_jars_cached [of jar env _ "re_fs env" gradle_cache m2_repo] assms by fastforce
qed

text \<open>
  No dependency of a Gradle build disappears without a trace. Every coordinate found in the
  build files either has a version that only Gradle could pin, and then the result says so, or its
  group and artifact end up on the classpath or in a message of the result, or the result ends
  with the message that the node limit cut the walk short.
\<close>

theorem gradle_accounts_for_scraped:
  assumes "(g, a, v) \<in> set (scraped (re_fs env) root)"
  shows "let r = gradle_resolve_project env root gradle_cache m2_repo;
             loc = FallbackLocator (GradleLocator (re_fs env) gradle_cache) (MavenLocator (re_fs env) m2_repo)
         in (if is_dynamic_version v then dynamic_unsupported (g, a, v) \<in> set (rp_degraded r)
             else accounted loc (g, a) (rp_jars r, rp_degraded r) \<or> node_limit_exceeded \<in> set (rp_degraded r))"
proof -
  let ?loc = "FallbackLocator (GradleLocator (re_fs env) gradle_cache) (MavenLocator (re_fs env) m2_repo)"
  obtain coords where r: "gradle_resolve_project env root gradle_cache m2_repo =
     \<lparr>rp_jars = fst (resolve_transitive env (coord_seeds (filter (\<lambda>(g, a, v). \<not> is_dynamic_version v) coords)) ?loc),
      rp_source_roots = [],
      rp_degraded = map dynamic_unsupported (filter (\<lambda>(g, a, v). is_dynamic_version v) coords)
        @ snd (resolve_transitive env (coord_seeds (filter (\<lambda>(g, a, v). \<not> is_dynamic_version v) coords)) ?loc)\<rparr>"
    and c: "(g, a, v) \<in> set coords"
    using gradle_project_result [of env root gradle_cache m2_repo] assms by auto
  show ?thesis
  proof (cases "is_dynamic_version v")
    case True
    then show ?thesis using c unfolding r Let_def by force
  next
    case False
    let ?seeds = "coord_seeds (filter (\<lambda>(g, a, v). \<not> is_dynamic_version v) coords)"
    have "\<lparr>sd_group = g, sd_artifact = a, sd_version = v, sd_exclusions = {}\<rparr> \<in> set ?seeds"
      using c False by (force simp: coord_seeds_def)
    from resolve_transitive_accounts [OF this, of ?loc env] show ?thesis
      using False unfolding r Let_def accounted_def seed_key_def by auto
  qed
qed

section \<open>What is found in a build file\<close>

definition well_formed_coord :: "string \<Rightarrow> string \<Rightarrow> string \<Rightarrow> bool" where
  "well_formed_coord g a v \<longleftrightarrow>
     list_all (\<lambda>p. p \<noteq> [] \<and> \<not> has_whitespace p \<and> CHR ''$'' \<notin> set p \<and> CHR '':'' \<notin> set p
        \<and> CHR 0x22 \<notin> set p \<and> CHR 0x27 \<notin> set p) [g, a, v]
     \<and> list_ex (\<lambda>c. is_digit c \<or> c = CHR ''+'') v"

lemma string_literals_skip:
  "CHR 0x22 \<notin> set pre \<Longrightarrow> CHR 0x27 \<notin> set pre \<Longrightarrow> string_literals (pre @ s) = string_literals s"
  by (induction pre) auto

lemma string_literals_literal:
  assumes "q = CHR 0x22 \<or> q = CHR 0x27" "q \<notin> set s" "valid_str s"
  shows "string_literals (q # s @ q # post) = s # string_literals post"
proof -
  have "takeWhile (\<lambda>c. c \<noteq> q) (s @ q # post) = s" "dropWhile (\<lambda>c. c \<noteq> q) (s @ q # post) = q # post"
    using assms(2) by (auto simp: takeWhile_append dropWhile_append)
  then show ?thesis using assms by (auto simp: from_utf8_as_bytes)
qed

lemma coord_of_literal_wf:
  assumes "well_formed_coord g a v"
  shows "coord_of_literal (g @ '':'' @ a @ '':'' @ v) = Some (g, a, v)"
proof -
  have "split_char (CHR '':'') (g @ CHR '':'' # (a @ CHR '':'' # v)) = [g, a, v]"
    unfolding split_char_sep using assms by (simp add: well_formed_coord_def split_char_none)
  then show ?thesis using assms by (auto simp: coord_of_literal_def well_formed_coord_def)
qed

text \<open>
  A coordinate written as a literal is found: in any text, a \<open>group:artifact:version\<close> literal in
  single or double quotes, with nothing quoted before it, is scraped as exactly that coordinate,
  after what was collected before and before everything that follows in the text.
\<close>

theorem scrape_finds_literal:
  assumes "CHR 0x22 \<notin> set pre" "CHR 0x27 \<notin> set pre" "q = CHR 0x22 \<or> q = CHR 0x27"
    and "well_formed_coord g a v" "valid_str (g @ '':'' @ a @ '':'' @ v)"
  shows "scrape_coords (pre @ q # (g @ '':'' @ a @ '':'' @ v) @ q # post) out =
    out @ (g, a, v) # scrape_coords post []"
proof -
  have "q \<notin> set (g @ '':'' @ a @ '':'' @ v)" using assms(3,4) by (auto simp: well_formed_coord_def)
  then show ?thesis
    using string_literals_literal [OF assms(3) _ assms(5)] coord_of_literal_wf [OF assms(4)]
    by (simp add: scrape_coords_def string_literals_skip [OF assms(1,2)] map_filter_simps)
qed

text \<open>The fallback is per file: with the jar in the Gradle cache and no pom there, the pom is taken
  from the Maven repository, although the comment says that both must be absent first.\<close>

lemma fallback_per_file:
  "locate_jar p g a v = Some jar \<Longrightarrow> locate_pom p g a v = None \<Longrightarrow>
   locate_jar (FallbackLocator p s) g a v = Some jar \<and> locate_pom (FallbackLocator p s) g a v = locate_pom s g a v"
  by (simp add: FallbackLocator_def option_or_def)

section \<open>A build on which the theorems are applied\<close>

definition sample_build :: string where
  "sample_build = ''dep '' @ CHR 0x27 # (''g'' @ '':'' @ ''a'' @ '':'' @ ''1'') @ CHR 0x27 # []"

definition sample_gradle_fs :: fs where
  "sample_gradle_fs = \<lparr>fs_read = (\<lambda>p. if p = ''/p/build.gradle'' then Some (as_bytes sample_build) else None),
     fs_len = (\<lambda>p. if p = ''/p/build.gradle'' then Some 11 else None),
     fs_is_file = (\<lambda>p. p \<in> {''/p/build.gradle'', ''/c/modules-2/files-2.1/g/a/1/h/a-1.jar''}),
     fs_is_dir = (\<lambda>_. False),
     fs_read_dir = (\<lambda>d. if d = ''/c/modules-2/files-2.1/g/a/1'' then Some [\<lparr>de_name = ''h'', de_type = Some FtDir\<rparr>] else None),
     fs_canonicalize = Some, fs_var = (\<lambda>_. None)\<rparr>"

definition gradle_env :: resolver_env where
  "gradle_env = \<lparr>re_fs = sample_gradle_fs, re_parse = (\<lambda>_. None), re_iter = (\<lambda>m. m)\<rparr>"

lemma sample_gradle_plain: "plain_dirs (re_fs gradle_env)"
  by (simp add: plain_dirs_def gradle_env_def sample_gradle_fs_def)

lemma sample_coord_ok: "well_formed_coord ''g'' ''a'' ''1'' \<and> valid_str (''g'' @ '':'' @ ''a'' @ '':'' @ ''1'')"
proof
  show "well_formed_coord ''g'' ''a'' ''1''" by code_simp
  show "valid_str (''g'' @ '':'' @ ''a'' @ '':'' @ ''1'')" by (rule valid_str_ascii) simp
qed

theorem scrape_finds_literal_witness: "scrape_coords sample_build [] = [(''g'', ''a'', ''1'')]"
  unfolding sample_build_def
  using scrape_finds_literal [of "''dep ''" "CHR 0x27" "''g''" "''a''" "''1''" "[]" "[]"] sample_coord_ok
  by (simp add: scrape_coords_def map_filter_simps)

lemma sample_scraped: "scraped (re_fs gradle_env) ''/p'' = [(''g'', ''a'', ''1'')]"
proof -
  have "string_literals sample_build = [''g:a:1'']"
    unfolding sample_build_def using sample_coord_ok
    by (subst string_literals_skip) (simp_all add: from_utf8_as_bytes)
  then have lit: "scrape_coords sample_build [] = [(''g'', ''a'', ''1'')]"
    using coord_of_literal_wf [of "''g''" "''a''" "''1''"] sample_coord_ok by (simp add: scrape_coords_def map_filter_simps)
  have "valid_str sample_build" by (rule valid_str_ascii) (simp add: sample_build_def)
  then show ?thesis using lit
    by (simp add: scraped_def read_build_def gradle_env_def sample_gradle_fs_def over_size_def MAX_BUILD_BYTES_def
        path_join_def read_to_string_def from_utf8_as_bytes)
qed

lemma sample_gradle_resolves:
  "rp_jars (gradle_resolve_project gradle_env ''/p'' ''/c'' ''/r'') = [''/c/modules-2/files-2.1/g/a/1/h/a-1.jar'']"
proof -
  let ?loc = "FallbackLocator (GradleLocator (re_fs gradle_env) ''/c'') (MavenLocator (re_fs gradle_env) ''/r'')"
  have loc: "locate_jar ?loc ''g'' ''a'' ''1'' = Some ''/c/modules-2/files-2.1/g/a/1/h/a-1.jar''"
    "locate_pom ?loc ''g'' ''a'' ''1'' = None"
    by code_simp+
  have "\<not> is_dynamic_version ''1''" by code_simp
  then show ?thesis
    by (simp add: gradle_resolve_project_def sample_scraped coord_seeds_def Let_def case_prod_beta
        resolve_transitive_def walk_init_def resolve_loop.simps resolve_step_def expand_def degrade_def loc MAX_NODES_def)
qed

theorem gradle_project_jars_cached_witness:
  "fs_is_file (re_fs gradle_env) ''/c/modules-2/files-2.1/g/a/1/h/a-1.jar'' \<and>
   (\<exists>g a v. locate_jar (FallbackLocator (GradleLocator (re_fs gradle_env) ''/c'') (MavenLocator (re_fs gradle_env) ''/r'')) g a v
      = Some ''/c/modules-2/files-2.1/g/a/1/h/a-1.jar''
      \<and> (starts_with ''.'' g \<or> inside ''/c'' ''/c/modules-2/files-2.1/g/a/1/h/a-1.jar''
         \<or> inside ''/r'' ''/c/modules-2/files-2.1/g/a/1/h/a-1.jar''))"
  by (rule gradle_project_jars_cached [where root = "''/p''"]) (simp_all add: sample_gradle_plain sample_gradle_resolves)

theorem gradle_accounts_for_scraped_witness:
  "(let r = gradle_resolve_project gradle_env ''/p'' ''/c'' ''/r'';
        loc = FallbackLocator (GradleLocator (re_fs gradle_env) ''/c'') (MavenLocator (re_fs gradle_env) ''/r'')
    in accounted loc (''g'', ''a'') (rp_jars r, rp_degraded r) \<or> node_limit_exceeded \<in> set (rp_degraded r))"
proof -
  have "(''g'', ''a'', ''1'') \<in> set (scraped (re_fs gradle_env) ''/p'')" by (simp add: sample_scraped)
  moreover have "\<not> is_dynamic_version ''1''" by code_simp
  ultimately show ?thesis using gradle_accounts_for_scraped [of "''g''" "''a''" "''1''" gradle_env "''/p''" "''/c''" "''/r''"]
    by (simp add: Let_def)
qed

end
