(* ===== verification/Type_Index.thy ===== *)
theory Type_Index
  imports Rust_Paths "HOL-Library.Char_ord" "HOL-Library.List_Lexorder" "HOL-Library.Product_Lexorder"
begin

text \<open>
  \<open>crates/classpath/src/index.rs\<close>: the name index that completion queries.

  Strings compare byte-wise, as \<open>str\<close> does: the library orders of \<open>char\<close>, lists and tuples. The
  sorted set of packages is a sorted list without repetition, the ordered map from packages to
  positions a partial function (only \<open>get\<close> is used), and \<open>sort_by\<close> is the stable \<open>sort_key\<close>.
  \<open>partition_point\<close> of the standard library is its binary search.
\<close>

section \<open>The index\<close>

record type_entry =
  te_simple :: string
  te_fqn :: string
  te_import_path :: string

definition HIDDEN_JDK_NAMESPACES :: "string list" where
  "HIDDEN_JDK_NAMESPACES =
     [''sun'', ''com.sun'', ''jdk.internal'', ''oracle'', ''netscape'', ''apple'', ''com.apple'']"

record type_index =
  ti_entries :: "type_entry list"
  ti_lower :: "string list"
  ti_by_package :: "string \<rightharpoonup> nat list"
  ti_packages :: "string list"

definition split_internal :: "string \<Rightarrow> (string \<times> string) option" where
  "split_internal internal =
     (if internal = [] then None
      else case rsplit_once (CHR ''/'') internal of
          Some (pkg, l) \<Rightarrow> Some (replace_char (CHR ''/'') ''.'' pkg, l)
        | None \<Rightarrow> Some ([], internal))"

definition innermost :: "string \<Rightarrow> string" where
  "innermost l = last (split_char (CHR ''$'') l)"

definition offerable :: "string \<Rightarrow> string \<Rightarrow> bool \<Rightarrow> bool" where
  "offerable package l from_jdk =
     (if l = ''module-info'' \<or> l = ''package-info'' then False
      else if contains_sub ''$$'' l then False
      else if innermost l = [] \<or> is_digit (hd (innermost l)) then False
      else \<not> from_jdk
        \<or> \<not> list_ex (\<lambda>ns. package = ns \<or> starts_with (ns @ ''.'') package) HIDDEN_JDK_NAMESPACES)"

definition dotted :: "string \<Rightarrow> string \<Rightarrow> string" where
  "dotted package l = (if package = [] then l else package @ ''.'' @ l)"

definition type_entry_of :: "string \<Rightarrow> string \<Rightarrow> type_entry" where
  "type_entry_of package l =
     (let fqn = dotted package l in
      \<lparr>te_simple = innermost l, te_fqn = fqn, te_import_path = replace_char (CHR ''$'') ''.'' fqn\<rparr>)"

text \<open>The text before the last dot, or nothing: \<open>rfind('.')\<close> and the slice below it.\<close>

definition enclosing :: "string \<Rightarrow> string" where
  "enclosing s = (case rsplit_once (CHR ''.'') s of Some (a, _) \<Rightarrow> a | None \<Rightarrow> [])"

lemma enclosing_shorter: "s \<noteq> [] \<Longrightarrow> length (enclosing s) < length s"
  by (auto simp: enclosing_def split: option.splits dest: rsplit_once_SomeD)

function register_package :: "string \<Rightarrow> string list \<Rightarrow> string list" where
  "register_package pkg packages =
     (if pkg = [] then packages
      else if pkg \<in> set packages then packages
      else register_package (enclosing pkg) (insort pkg packages))"
  by pat_completeness auto
termination
  by (relation "measure (\<lambda>(p, _). length p)") (auto simp: enclosing_shorter)

declare register_package.simps [simp del]

definition add_name :: "string set \<times> type_entry list \<times> string list \<Rightarrow> string \<times> bool
    \<Rightarrow> string set \<times> type_entry list \<times> string list" where
  "add_name = (\<lambda>(seen, entries, packages) (internal, from_jdk).
     (case split_internal internal of
        None \<Rightarrow> (seen, entries, packages)
      | Some (package, l) \<Rightarrow>
          (let fqn = dotted package l in
           if \<not> offerable package l from_jdk then (seen, entries, packages)
           else if fqn \<in> seen then (seen, entries, packages)
           else (insert fqn seen, entries @ [type_entry_of package l], register_package package packages))))"

definition entry_key :: "type_entry \<Rightarrow> string \<times> string" where
  "entry_key e = (to_ascii_lowercase (te_simple e), te_fqn e)"

fun group_by_package :: "nat \<Rightarrow> type_entry list \<Rightarrow> (string \<rightharpoonup> nat list) \<Rightarrow> (string \<rightharpoonup> nat list)" where
  "group_by_package i [] m = m"
| "group_by_package i (e # es) m =
     (let pkg = enclosing (te_fqn e) in
      group_by_package (Suc i) es
        (m(pkg \<mapsto> (case m pkg of None \<Rightarrow> [] | Some idxs \<Rightarrow> idxs) @ [i])))"

definition collect_names :: "(string \<times> bool) list \<Rightarrow> string set \<times> type_entry list \<times> string list" where
  "collect_names names = foldl add_name ({}, [], []) names"

definition build :: "(string \<times> bool) list \<Rightarrow> type_index" where
  "build names =
     (let (_, entries, packages) = collect_names names; entries = sort_key entry_key entries in
      \<lparr>ti_entries = entries, ti_lower = map (\<lambda>e. to_ascii_lowercase (te_simple e)) entries,
       ti_by_package = group_by_package 0 entries Map.empty, ti_packages = packages\<rparr>)"

function bisect :: "('a \<Rightarrow> bool) \<Rightarrow> 'a list \<Rightarrow> nat \<Rightarrow> nat \<Rightarrow> nat" where
  "bisect P xs left right =
     (if left < right
      then let mid = left + (right - left) div 2 in
        if P (xs ! mid) then bisect P xs (mid + 1) right else bisect P xs left mid
      else left)"
  by pat_completeness auto
termination
  by (relation "measure (\<lambda>(_, _, left, right). right - left)") auto

declare bisect.simps [simp del]

definition partition_point :: "('a \<Rightarrow> bool) \<Rightarrow> 'a list \<Rightarrow> nat" where
  "partition_point P xs = bisect P xs 0 (length xs)"

definition types_with_prefix :: "type_index \<Rightarrow> string \<Rightarrow> nat \<Rightarrow> type_entry list \<times> bool" where
  "types_with_prefix idx prefix limit =
     (if prefix = [] \<or> limit = 0 then ([], False)
      else let needle = to_ascii_lowercase prefix;
               start = partition_point (\<lambda>s. s < needle) (ti_lower idx);
               n = length (takeWhile (starts_with needle) (drop start (ti_lower idx)));
               hits = map (\<lambda>i. ti_entries idx ! (start + i)) [0..<n];
               truncated = length hits > limit;
               hits = sort_key (\<lambda>e. (length (te_simple e), te_simple e, te_fqn e)) hits
           in (take limit hits, truncated))"

text \<open>The loop over \<open>packages.range(prefix..)\<close>: it stops at the first name without the prefix.\<close>

fun subpackages_loop :: "string \<Rightarrow> string list \<Rightarrow> string list \<Rightarrow> string list" where
  "subpackages_loop prefix [] subs = subs"
| "subpackages_loop prefix (pkg # pkgs) subs =
     (if \<not> starts_with prefix pkg then subs
      else let segment = hd (split_char (CHR ''.'') (drop (length prefix) pkg)) in
        subpackages_loop prefix pkgs
          (if subs \<noteq> [] \<and> last subs = segment then subs else subs @ [segment]))"

definition package_children :: "type_index \<Rightarrow> string \<Rightarrow> string list \<times> type_entry list" where
  "package_children idx package =
     (let prefix = (if package = [] then [] else package @ ''.'');
          subs = subpackages_loop prefix (filter (\<lambda>p. prefix \<le> p) (ti_packages idx)) [];
          types = (case ti_by_package idx package of
                     None \<Rightarrow> [] | Some idxs \<Rightarrow> map (\<lambda>i. ti_entries idx ! i) idxs)
      in (subs, sort_key (\<lambda>e. (te_simple e, te_fqn e)) types))"

section \<open>Prefixes in sorted text\<close>

lemma starts_with_Cons [simp]: "starts_with (x # p) (y # s) \<longleftrightarrow> x = y \<and> starts_with p s"
  by (auto simp: starts_with_def)

lemma starts_with_Nil [simp]: "starts_with [] s" "starts_with (x # p) [] = False"
  by (simp_all add: starts_with_def)

lemma starts_with_le: "starts_with p s \<Longrightarrow> p \<le> s"
  by (induction p arbitrary: s) (auto elim: starts_with_Cons [THEN iffD1, elim_format] simp: neq_Nil_conv dest: starts_withE)

text \<open>Between a prefix and a text that has it, everything has it.\<close>

lemma starts_with_between: "p \<le> s \<Longrightarrow> s \<le> t \<Longrightarrow> starts_with p t \<Longrightarrow> starts_with p s"
proof (induction p arbitrary: s t)
  case (Cons x p)
  obtain t' where t: "t = x # t'" "starts_with p t'" using Cons.prems(3) by (cases t) auto
  obtain y s' where s: "s = y # s'" using Cons.prems(1) by (cases s) auto
  have "x = y" "p \<le> s'" "s' \<le> t'" using Cons.prems(1,2) s t by auto
  then show ?case using Cons.IH [of s' t'] t s by simp
qed simp

text \<open>So in a sorted list the matches are one contiguous block.\<close>

lemma takeWhile_prefix_sorted:
  "sorted (map key xs) \<Longrightarrow> \<forall>x \<in> set xs. p \<le> key x
   \<Longrightarrow> takeWhile (\<lambda>x. starts_with p (key x)) xs = filter (\<lambda>x. starts_with p (key x)) xs"
proof (induction xs)
  case (Cons x xs)
  show ?case
  proof (cases "starts_with p (key x)")
    case False
    then have "\<not> starts_with p (key y)" if "y \<in> set xs" for y
      using that Cons.prems starts_with_between [of p "key x" "key y"] by auto
    then show ?thesis using False by (auto simp: filter_empty_conv)
  qed (use Cons in simp)
qed simp

lemma dropWhile_below: "sorted (map key xs) \<Longrightarrow> \<forall>x \<in> set (dropWhile (\<lambda>x. key x < p) xs). p \<le> (key x :: string)"
  by (induction xs) (auto dest: order_trans)

lemma filter_drop_below:
  assumes "sorted (map key xs)"
  shows "takeWhile (\<lambda>x. starts_with p (key x)) (dropWhile (\<lambda>x. key x < p) xs) = filter (\<lambda>x. starts_with p (key x)) xs"
proof -
  let ?m = "\<lambda>x. starts_with p (key x)"
  have "filter ?m (takeWhile (\<lambda>x. key x < p) xs) = []"
    by (auto simp: filter_empty_conv dest!: set_takeWhileD starts_with_le)
  then have "filter ?m xs = filter ?m (dropWhile (\<lambda>x. key x < p) xs)"
    by (metis append_Nil filter_append takeWhile_dropWhile_id)
  moreover have "sorted (map key (dropWhile (\<lambda>x. key x < p) xs))"
    using assms by (induction xs) auto
  ultimately show ?thesis
    using takeWhile_prefix_sorted [OF _ dropWhile_below [OF assms]] by simp
qed

section \<open>What the build collects\<close>

text \<open>The declarative reading: the qualified names that the given class files offer.\<close>

definition offered :: "string \<times> bool \<Rightarrow> (string \<times> string) option" where
  "offered n = (case split_internal (fst n) of
     Some (package, l) \<Rightarrow> if offerable package l (snd n) then Some (package, l) else None
   | None \<Rightarrow> None)"

definition offered_fqns :: "(string \<times> bool) list \<Rightarrow> string set" where
  "offered_fqns names = {dotted p l | p l. Some (p, l) \<in> offered ` set names}"

text \<open>What holds of the three accumulators after any prefix of the names.\<close>

definition packages_ok :: "string list \<Rightarrow> bool" where
  "packages_ok ps \<longleftrightarrow> sorted ps \<and> distinct ps \<and> [] \<notin> set ps
     \<and> list_all (\<lambda>p. enclosing p = [] \<or> enclosing p \<in> set ps) ps"

definition within :: "string \<Rightarrow> string \<Rightarrow> bool" where
  "within q p \<longleftrightarrow> q = p \<or> starts_with (q @ ''.'') p"

definition collected_ok :: "(string \<times> bool) list \<Rightarrow> string set \<times> type_entry list \<times> string list \<Rightarrow> bool" where
  "collected_ok names = (\<lambda>(seen, entries, packages).
     seen = offered_fqns names \<and> te_fqn ` set entries = offered_fqns names \<and> distinct (map te_fqn entries)
     \<and> (\<forall>e \<in> set entries. \<exists>p l. Some (p, l) \<in> offered ` set names \<and> e = type_entry_of p l
          \<and> (p = [] \<or> p \<in> set packages))
     \<and> (\<forall>q \<in> set packages. \<exists>p l. Some (p, l) \<in> offered ` set names \<and> within q p)
     \<and> packages_ok packages)"

lemma te_fqn_entry_of [simp]: "te_fqn (type_entry_of p l) = dotted p l"
  by (simp add: type_entry_of_def Let_def)

text \<open>While a package is being registered, all names but its own ancestors are closed.\<close>

lemma register_package_set:
  "set ps \<subseteq> set (register_package pkg ps)
   \<and> (pkg = [] \<or> pkg \<in> set (register_package pkg ps))
   \<and> (sorted ps \<and> distinct ps \<longrightarrow> sorted (register_package pkg ps) \<and> distinct (register_package pkg ps))
   \<and> ([] \<notin> set ps \<longrightarrow> [] \<notin> set (register_package pkg ps))"
proof (induction pkg ps rule: register_package.induct)
  case (1 pkg ps)
  show ?case
  proof (cases "pkg = [] \<or> pkg \<in> set ps")
    case True
    then show ?thesis by (subst register_package.simps, auto simp: register_package.simps [of pkg ps])
  next
    case False
    then have "register_package pkg ps = register_package (enclosing pkg) (insort pkg ps)"
      by (simp add: register_package.simps [of pkg ps])
    with 1 False show ?thesis by (auto simp: set_insort_key sorted_insort distinct_insort)
  qed
qed

lemma register_package_closed:
  assumes "\<forall>q \<in> set ps. enclosing q = [] \<or> enclosing q = pkg \<or> enclosing q \<in> set ps"
  shows "\<forall>q \<in> set (register_package pkg ps). enclosing q = [] \<or> enclosing q \<in> set (register_package pkg ps)"
  using assms
proof (induction pkg ps rule: register_package.induct)
  case (1 pkg ps)
  show ?case
  proof (cases "pkg = [] \<or> pkg \<in> set ps")
    case True
    then show ?thesis using 1(2) by (auto simp: register_package.simps [of pkg ps])
  next
    case False
    have "\<forall>q \<in> set (insort pkg ps). enclosing q = [] \<or> enclosing q = enclosing pkg \<or> enclosing q \<in> set (insort pkg ps)"
      using 1(2) by (auto simp: set_insort_key)
    with 1(1) False show ?thesis by (simp add: register_package.simps [of pkg ps])
  qed
qed

lemma register_package_ok: "packages_ok ps \<Longrightarrow> packages_ok (register_package pkg ps)"
  using register_package_set [of ps pkg] register_package_closed [of ps pkg]
  by (auto simp: packages_ok_def list_all_iff)

lemma within_enclosing:
  assumes "within q (enclosing p)" "q \<noteq> []"
  shows "within q p"
proof (cases "rsplit_once (CHR ''.'') p")
  case None
  then show ?thesis using assms by (auto simp: enclosing_def within_def starts_with_def)
next
  case (Some x)
  then obtain a b where "x = (a, b)" "p = a @ CHR ''.'' # b" by (metis rsplit_once_SomeD surj_pair)
  then show ?thesis using assms Some by (auto simp: enclosing_def within_def starts_with_def)
qed

lemma register_package_within:
  "[] \<notin> set ps \<Longrightarrow> q \<in> set (register_package pkg ps) \<Longrightarrow> q \<in> set ps \<or> within q pkg"
proof (induction pkg ps rule: register_package.induct)
  case (1 pkg ps)
  show ?case
  proof (cases "pkg = [] \<or> pkg \<in> set ps")
    case True
    then have "register_package pkg ps = ps" by (auto simp: register_package.simps [of pkg ps])
    then show ?thesis using 1(3) by simp
  next
    case False
    then have "q \<in> set (insort pkg ps) \<or> within q (enclosing pkg)"
      using 1 False by (auto simp: register_package.simps [of pkg ps] set_insort_key)
    moreover have "q \<noteq> []"
      using register_package_set [of ps pkg] 1(2,3) by auto
    ultimately show ?thesis using within_enclosing [of q pkg]
      by (auto simp: set_insort_key within_def)
  qed
qed

lemma offered_fqns_snoc:
  "offered_fqns (names @ [n]) =
     (case offered n of Some (p, l) \<Rightarrow> insert (dotted p l) (offered_fqns names) | None \<Rightarrow> offered_fqns names)"
  by (auto simp: offered_fqns_def split: option.splits)

lemma add_name_offered:
  "add_name (seen, entries, packages) n =
     (case offered n of
        None \<Rightarrow> (seen, entries, packages)
      | Some (p, l) \<Rightarrow>
          if dotted p l \<in> seen then (seen, entries, packages)
          else (insert (dotted p l) seen, entries @ [type_entry_of p l], register_package p packages))"
  by (cases n) (auto simp: add_name_def offered_def Let_def split: option.splits)

lemma collected_ok_step:
  assumes "collected_ok names st"
  shows "collected_ok (names @ [n]) (add_name st n)"
proof -
  obtain seen es ps where st: "st = (seen, es, ps)" by (metis prod_cases3)
  show ?thesis
  proof (cases "offered n")
    case None
    then show ?thesis
      using assms by (simp add: st add_name_offered collected_ok_def offered_fqns_snoc)
  next
    case (Some x)
    then obtain p l where x: "offered n = Some (p, l)" by (cases x) auto
    show ?thesis
    proof (cases "dotted p l \<in> seen")
      case True
      then show ?thesis
        using assms x by (simp add: st add_name_offered collected_ok_def offered_fqns_snoc insert_absorb; blast)
    next
      case False
      let ?ps = "register_package p ps"
      note h = assms [unfolded st collected_ok_def prod.case]
      have reg: "set ps \<subseteq> set ?ps" "p = [] \<or> p \<in> set ?ps" and pk: "packages_ok ?ps"
        using register_package_set [of ps p] register_package_ok [of ps p] h by blast+
      have on: "offered ` set (names @ [n]) = insert (Some (p, l)) (offered ` set names)" using x by simp
      have "dotted p l \<notin> te_fqn ` set es" using False h by simp
      moreover have "\<exists>p' l'. Some (p', l') \<in> insert (Some (p, l)) (offered ` set names) \<and> within q p'"
        if "q \<in> set ?ps" for q
      proof -
        have "q \<in> set ps \<or> within q p"
          using register_package_within [OF _ that] h by (auto simp: packages_ok_def)
        then show ?thesis using h by blast
      qed
      moreover have "\<exists>p' l'. Some (p', l') \<in> insert (Some (p, l)) (offered ` set names) \<and> e = type_entry_of p' l'
          \<and> (p' = [] \<or> p' \<in> set ?ps)" if "e \<in> set (es @ [type_entry_of p l])" for e
      proof (cases "e \<in> set es")
        case True
        then obtain p' l' where "Some (p', l') \<in> offered ` set names" "e = type_entry_of p' l'" "p' = [] \<or> p' \<in> set ps"
          using h by blast
        then show ?thesis using reg(1) by blast
      next
        case False
        then show ?thesis using that reg(2) by auto
      qed
      ultimately show ?thesis
        using False h pk unfolding st collected_ok_def prod.case add_name_offered x option.case if_False on
        by (simp add: x offered_fqns_snoc)
    qed
  qed
qed

lemma collect_names_ok: "collected_ok names (collect_names names)"
proof (induction names rule: rev_induct)
  case Nil
  show ?case by (simp add: collect_names_def collected_ok_def offered_fqns_def packages_ok_def)
next
  case (snoc n names)
  then show ?case using collected_ok_step by (simp add: collect_names_def)
qed

section \<open>The built index\<close>

definition index_ok :: "type_index \<Rightarrow> bool" where
  "index_ok idx \<longleftrightarrow> sorted (map entry_key (ti_entries idx)) \<and> distinct (map te_fqn (ti_entries idx))
     \<and> ti_lower idx = map (\<lambda>e. to_ascii_lowercase (te_simple e)) (ti_entries idx)
     \<and> sorted (ti_lower idx) \<and> packages_ok (ti_packages idx)
     \<and> (\<forall>p. map (\<lambda>i. ti_entries idx ! i) (case ti_by_package idx p of None \<Rightarrow> [] | Some is \<Rightarrow> is) =
            filter (\<lambda>e. enclosing (te_fqn e) = p) (ti_entries idx))"

lemma group_by_package_get:
  "(case group_by_package (length pre) es m p of None \<Rightarrow> [] | Some is \<Rightarrow> is) =
     (case m p of None \<Rightarrow> [] | Some is \<Rightarrow> is)
     @ filter (\<lambda>i. enclosing (te_fqn ((pre @ es) ! i)) = p) [length pre..<length (pre @ es)]"
proof (induction es arbitrary: pre m)
  case (Cons e es)
  have "[length pre..<length (pre @ e # es)] = length pre # [length (pre @ [e])..<length ((pre @ [e]) @ es)]"
    using upt_conv_Cons [of "length pre" "length (pre @ e # es)"] by (simp del: upt_Suc)
  then show ?case using Cons.IH [of "pre @ [e]"] by (simp add: Let_def)
qed simp

lemma map_nth_filter: "map (\<lambda>i. xs ! i) (filter (\<lambda>i. P (xs ! i)) [0..<length xs]) = filter P xs"
proof -
  have "filter P (map (\<lambda>i. xs ! i) [0..<length xs]) = map (\<lambda>i. xs ! i) (filter (P \<circ> (\<lambda>i. xs ! i)) [0..<length xs])"
    by (rule filter_map)
  then show ?thesis by (simp add: map_nth comp_def)
qed

lemma sorted_lower: "sorted (map entry_key es) \<Longrightarrow> sorted (map (\<lambda>e. to_ascii_lowercase (te_simple e)) es)"
  by (induction es) (auto simp: entry_key_def less_eq_prod_def less_imp_le)

lemma build_ok: "index_ok (build names)"
proof -
  obtain seen es ps where c: "collect_names names = (seen, es, ps)" by (metis prod_cases3)
  have ok: "distinct (map te_fqn es)" "packages_ok ps"
    using collect_names_ok [of names] c by (simp_all add: collected_ok_def)
  let ?es = "sort_key entry_key es"
  have "distinct (map te_fqn ?es)" using ok(1) by (simp add: distinct_map)
  moreover have "sorted (map entry_key ?es)" by (rule sorted_sort_key)
  ultimately show ?thesis
    using ok(2) group_by_package_get [of "[]" ?es Map.empty] map_nth_filter [of ?es "\<lambda>e. enclosing (te_fqn e) = _"]
    by (simp add: index_ok_def build_def Let_def c sorted_lower)
qed

lemma build_entries:
  "te_fqn ` set (ti_entries (build names)) = offered_fqns names"
  "e \<in> set (ti_entries (build names)) \<Longrightarrow> \<exists>p l. Some (p, l) \<in> offered ` set names \<and> e = type_entry_of p l
     \<and> (p = [] \<or> p \<in> set (ti_packages (build names)))"
  "q \<in> set (ti_packages (build names)) \<Longrightarrow> \<exists>p l. Some (p, l) \<in> offered ` set names \<and> within q p"
  using collect_names_ok [of names] by (auto simp: build_def collected_ok_def Let_def split: prod.splits)

lemma takeWhile_boundary:
  assumes "k \<le> length xs" "\<forall>i < k. P (xs ! i)" "k < length xs \<Longrightarrow> \<not> P (xs ! k)"
  shows "length (takeWhile P xs) = k"
proof (rule antisym)
  show "length (takeWhile P xs) \<le> k"
  proof (rule ccontr)
    assume "\<not> length (takeWhile P xs) \<le> k"
    then have k: "k < length (takeWhile P xs)" by simp
    from set_takeWhileD [OF nth_mem [OF k]] have "P (takeWhile P xs ! k)" by blast
    then have "P (xs ! k)" unfolding takeWhile_nth [OF k] .
    moreover have "k < length xs" using k length_takeWhile_le [of P xs] by linarith
    ultimately show False using assms(3) by blast
  qed
qed (use assms in \<open>auto intro: length_takeWhile_less_P_nth\<close>)

lemma bisect_boundary:
  assumes "left \<le> right" "right \<le> length xs" "\<forall>i < left. P (xs ! i)" "right < length xs \<Longrightarrow> \<not> P (xs ! right)"
    and "\<forall>i j. i < j \<longrightarrow> j < length xs \<longrightarrow> P (xs ! j) \<longrightarrow> P (xs ! i)"
  shows "bisect P xs left right = length (takeWhile P xs)"
  using assms
proof (induction P xs left right rule: bisect.induct)
  case (1 P xs left right)
  show ?case
  proof (cases "left < right")
    case True
    define mid where "mid = left + (right - left) div 2"
    have mid: "left \<le> mid" "mid < right" using True by (auto simp: mid_def)
    have below: "\<forall>i < mid + 1. P (xs ! i)" if "P (xs ! mid)"
    proof (intro allI impI)
      fix i assume "i < mid + 1"
      then consider "i = mid" | "i < mid" by linarith
      then show "P (xs ! i)" using that mid(2) "1.prems"(2,5) by cases (auto dest: spec [of _ i])
    qed
    have "bisect P xs left right = (if P (xs ! mid) then bisect P xs (mid + 1) right else bisect P xs left mid)"
      by (subst bisect.simps) (simp add: True mid_def Let_def)
    also have "\<dots> = length (takeWhile P xs)"
      using "1.IH"(1) [OF True mid_def] "1.IH"(2) [OF True mid_def] "1.prems" mid below by (cases "P (xs ! mid)") simp_all
    finally show ?thesis .
  next
    case False
    then show ?thesis using "1.prems" by (subst bisect.simps) (simp add: takeWhile_boundary)
  qed
qed

text \<open>On a sorted list, the binary search finds the end of the elements below a bound.\<close>

lemma partition_point_sorted:
  fixes xs :: "'a :: linorder list"
  assumes "sorted xs"
  shows "partition_point (\<lambda>x. x < b) xs = length (takeWhile (\<lambda>x. x < b) xs)"
  unfolding partition_point_def
  using assms by (intro bisect_boundary) (auto simp: sorted_iff_nth_mono_less intro: order_le_less_trans)

text \<open>The block that \<open>types_with_prefix\<close> cuts out of the index is what a linear filter finds.\<close>

lemma map_nth_block:
  "start + n \<le> length xs \<Longrightarrow> map (\<lambda>i. xs ! (start + i)) [0..<n] = take n (drop start xs)"
  by (rule nth_equalityI) auto

lemma prefix_block:
  fixes key :: "'a \<Rightarrow> string"
  assumes "sorted (map key es)" "start = length (takeWhile (\<lambda>s. s < p) (map key es))"
    "n = length (takeWhile (starts_with p) (drop start (map key es)))"
  shows "map (\<lambda>i. es ! (start + i)) [0..<n] = filter (\<lambda>e. starts_with p (key e)) es"
proof -
  have d: "drop start es = dropWhile (\<lambda>e. key e < p) es"
    by (simp add: assms(2) takeWhile_map comp_def dropWhile_eq_drop)
  have n: "n = length (takeWhile (\<lambda>e. starts_with p (key e)) (drop start es))"
    by (simp add: assms(3) drop_map takeWhile_map comp_def)
  have "n \<le> length (drop start es)" unfolding n by (rule length_takeWhile_le)
  moreover have "start \<le> length es" using length_takeWhile_le [of _ "map key es"] by (simp add: assms(2))
  ultimately have "map (\<lambda>i. es ! (start + i)) [0..<n] = take n (drop start es)"
    by (intro map_nth_block) auto
  then show ?thesis
    using filter_drop_below [OF assms(1), of p] unfolding n d by (metis takeWhile_eq_take)
qed

text \<open>
  Completion by prefix is exact. Over the index of any class files, the binary search, the
  contiguous block and the stable sort of \<open>types_with_prefix\<close> give what a linear filter gives: all
  entries whose simple name has the prefix regardless of ASCII case, ordered by length, name and
  qualified name, cut at the limit, and the flag says whether something was cut.
\<close>

theorem types_with_prefix_exact:
  assumes "prefix \<noteq> []" "0 < limit"
  shows "types_with_prefix (build names) prefix limit =
     (let hits = filter (\<lambda>e. starts_with (to_ascii_lowercase prefix) (to_ascii_lowercase (te_simple e)))
                   (ti_entries (build names))
      in (take limit (sort_key (\<lambda>e. (length (te_simple e), te_simple e, te_fqn e)) hits), limit < length hits))"
proof -
  let ?idx = "build names" and ?p = "to_ascii_lowercase prefix"
  have low: "ti_lower ?idx = map (\<lambda>e. to_ascii_lowercase (te_simple e)) (ti_entries ?idx)"
    and "sorted (map entry_key (ti_entries ?idx))"
    using build_ok [of names] unfolding index_ok_def by blast+
  note sorted = sorted_lower [OF this(2)]
  show ?thesis
    using assms prefix_block [OF sorted refl refl, of ?p]
    unfolding types_with_prefix_def Let_def low partition_point_sorted [OF sorted]
    by simp
qed

text \<open>
  The index holds exactly the offered types: the qualified names of its entries are those of
  the class files that are offerable (each once, in the order of lower-cased simple name, then
  qualified name), every entry is made from such a class file, whose package is registered, and
  the packages are sorted, distinct, closed under taking the enclosing package and each contains
  an offered type, directly or further down.
\<close>

theorem build_index_invariant:
  "te_fqn ` set (ti_entries (build names)) = offered_fqns names
   \<and> distinct (map te_fqn (ti_entries (build names)))
   \<and> sorted (map entry_key (ti_entries (build names)))
   \<and> sorted (ti_packages (build names)) \<and> distinct (ti_packages (build names))
   \<and> (\<forall>e. e \<in> set (ti_entries (build names)) \<longrightarrow>
        (\<exists>p l. Some (p, l) \<in> offered ` set names \<and> e = type_entry_of p l \<and> (p = [] \<or> p \<in> set (ti_packages (build names)))))
   \<and> (\<forall>q. q \<in> set (ti_packages (build names)) \<longrightarrow>
        q \<noteq> [] \<and> (enclosing q = [] \<or> enclosing q \<in> set (ti_packages (build names)))
        \<and> (\<exists>p l. Some (p, l) \<in> offered ` set names \<and> within q p))"
  using build_ok [of names] build_entries [where names = names]
  by (auto simp: index_ok_def packages_ok_def list_all_iff)

section \<open>Children of a package\<close>

definition first_segment :: "string \<Rightarrow> string" where
  "first_segment s = hd (split_char (CHR ''.'') s)"

definition child_prefix :: "string \<Rightarrow> string" where
  "child_prefix package = (if package = [] then [] else package @ ''.'')"

lemma first_segment_simps [simp]:
  "first_segment [] = []"
  "first_segment (c # s) = (if c = CHR ''.'' then [] else c # first_segment s)"
proof -
  show "first_segment (c # s) = (if c = CHR ''.'' then [] else c # first_segment s)"
    using split_char_not_Nil [of "CHR ''.''" s] by (cases "split_char (CHR ''.'') s") (auto simp: first_segment_def)
qed (simp add: first_segment_def)

text \<open>The loop drops adjacent repetitions of the segments of the matching packages.\<close>

lemma subpackages_loop_acc:
  "subs \<noteq> [] \<Longrightarrow> subpackages_loop prefix pkgs subs =
     butlast subs @ remdups_adj (last subs # map (\<lambda>p. first_segment (drop (length prefix) p)) (takeWhile (starts_with prefix) pkgs))"
proof (induction pkgs arbitrary: subs)
  case (Cons p ps)
  then show ?case
    by (auto simp: first_segment_def [symmetric] Let_def remdups_adj.simps append_butlast_last_id split: list.splits)
qed simp

lemma subpackages_loop_eq:
  "subpackages_loop prefix pkgs [] =
     remdups_adj (map (\<lambda>p. first_segment (drop (length prefix) p)) (takeWhile (starts_with prefix) pkgs))"
  by (cases pkgs) (simp_all add: subpackages_loop_acc first_segment_def [symmetric] Let_def)

lemma range_takeWhile:
  assumes "sorted xs"
  shows "takeWhile (starts_with p) (filter (\<lambda>x. p \<le> x) xs) = filter (starts_with p) xs"
proof -
  have "takeWhile (\<lambda>x. starts_with p (id x)) (filter (\<lambda>x. p \<le> x) xs) = filter (\<lambda>x. starts_with p (id x)) (filter (\<lambda>x. p \<le> x) xs)"
    by (rule takeWhile_prefix_sorted) (use assms in \<open>auto intro: sorted_wrt_filter\<close>)
  then show ?thesis by (auto intro: filter_cong dest: starts_with_le)
qed

lemma package_children_eq:
  assumes "index_ok idx"
  shows "package_children idx package =
    (remdups_adj (map (\<lambda>p. first_segment (drop (length (child_prefix package)) p))
        (filter (starts_with (child_prefix package)) (ti_packages idx))),
     sort_key (\<lambda>e. (te_simple e, te_fqn e)) (filter (\<lambda>e. enclosing (te_fqn e) = package) (ti_entries idx)))"
proof -
  have "sorted (ti_packages idx)" using assms by (simp add: index_ok_def packages_ok_def)
  moreover have "(case ti_by_package idx package of None \<Rightarrow> [] | Some idxs \<Rightarrow> map (\<lambda>i. ti_entries idx ! i) idxs) =
      filter (\<lambda>e. enclosing (te_fqn e) = package) (ti_entries idx)"
    using assms unfolding index_ok_def by (metis (no_types, lifting) list.map(1) option.case_eq_if)
  ultimately show ?thesis
    by (simp add: package_children_def Let_def subpackages_loop_eq range_takeWhile child_prefix_def)
qed

text \<open>Taking the first segment respects the order when no character sorts before the dot.\<close>

lemma first_segment_mono:
  "s \<le> t \<Longrightarrow> \<forall>c \<in> set s \<union> set t. CHR ''.'' \<le> c \<Longrightarrow> first_segment s \<le> first_segment t"
proof (induction s arbitrary: t)
  case (Cons x s)
  then show ?case by (cases t) auto
qed simp

lemma append_le_append: "p @ a \<le> p @ b \<longleftrightarrow> a \<le> (b :: string)"
  by (induction p) auto

lemma drop_prefix_mono: "s \<le> t \<Longrightarrow> starts_with p s \<Longrightarrow> starts_with p t \<Longrightarrow> drop (length p) s \<le> drop (length p) t"
  by (auto simp: append_le_append dest!: starts_withE)

lemma strict_remdups_adj: "sorted xs \<Longrightarrow> sorted_wrt (<) (remdups_adj (xs :: 'a::linorder list))"
  by (induction xs rule: remdups_adj.induct) (auto simp: less_le)

lemma sorted_segments:
  assumes "sorted ps" "\<forall>q \<in> set ps. starts_with p q \<and> (\<forall>c \<in> set q. CHR ''.'' \<le> c)"
  shows "sorted (map (\<lambda>q. first_segment (drop (length p) q)) ps)"
  using assms
proof (induction ps)
  case (Cons x ps)
  then have "first_segment (drop (length p) x) \<le> first_segment (drop (length p) y)" if "y \<in> set ps" for y
    using that by (intro first_segment_mono drop_prefix_mono) (auto dest: in_set_dropD)
  then show ?case using Cons by simp
qed simp

text \<open>
  Listing a package: over the index of any class files, \<open>package_children\<close> gives as types all
  entries whose qualified name lies directly in the package, in order, and as subpackages the next
  segments of all registered packages below it, and nothing else. When no package name contains a
  character that sorts before the dot, each subpackage comes once and in order.
\<close>

theorem package_children_exact:
  "snd (package_children (build names) package) =
     sort_key (\<lambda>e. (te_simple e, te_fqn e)) (filter (\<lambda>e. enclosing (te_fqn e) = package) (ti_entries (build names)))
   \<and> set (fst (package_children (build names) package)) =
     {first_segment (drop (length (child_prefix package)) q) | q.
        q \<in> set (ti_packages (build names)) \<and> starts_with (child_prefix package) q}
   \<and> ((\<forall>q \<in> set (ti_packages (build names)). \<forall>c \<in> set q. CHR ''.'' \<le> c) \<longrightarrow>
        sorted_wrt (<) (fst (package_children (build names) package)))"
proof -
  let ?ps = "filter (starts_with (child_prefix package)) (ti_packages (build names))"
  let ?segs = "map (\<lambda>p. first_segment (drop (length (child_prefix package)) p)) ?ps"
  have "sorted (ti_packages (build names))" using build_ok [of names] by (simp add: index_ok_def packages_ok_def)
  then have "sorted_wrt (<) (remdups_adj ?segs)" if "\<forall>q \<in> set (ti_packages (build names)). \<forall>c \<in> set q. CHR ''.'' \<le> c"
    using that by (intro strict_remdups_adj sorted_segments sorted_wrt_filter) auto
  then show ?thesis
    unfolding package_children_eq [OF build_ok] by auto
qed

text \<open>A \<open>$\<close> sorts before the dot, so the comment that equal segments are adjacent is not true of
  every package name: \<open>b\<close> is listed twice here.\<close>

lemma package_children_repeats:
  "fst (package_children (build [(''a/b/A'', False), (''a/b$x/B'', False), (''a/b/c/C'', False)]) ''a'') =
     [''b'', ''b$x'', ''b'']"
  by code_simp

definition sample_names :: "(string \<times> bool) list" where
  "sample_names = [(''java/util/Map$Entry'', True), (''java/util/List'', True), (''java/util/List$1'', True),
     (''sun/misc/Unsafe'', True), (''java/util/List'', False), (''module-info'', True)]"

theorem types_with_prefix_exact_witness:
  "map te_import_path (fst (types_with_prefix (build sample_names) ''eN'' 5)) = [''java.util.Map.Entry'']"
  unfolding types_with_prefix_exact [of "''eN''" 5 sample_names, simplified]
  by code_simp

theorem build_index_invariant_witness:
  "''java.util.Map$Entry'' \<in> te_fqn ` set (ti_entries (build sample_names))
   \<and> ti_packages (build sample_names) = [''java'', ''java.util'']"
proof
  show "''java.util.Map$Entry'' \<in> te_fqn ` set (ti_entries (build sample_names))"
    unfolding build_index_invariant [of sample_names, THEN conjunct1] offered_fqns_def
    by (simp add: image_def, rule exI [of _ "''java.util''"], rule exI [of _ "''Map$Entry''"]) code_simp
  show "ti_packages (build sample_names) = [''java'', ''java.util'']" by code_simp
qed

theorem package_children_exact_witness:
  "set (fst (package_children (build sample_names) ''java'')) = {''util''}
   \<and> sorted_wrt (<) (fst (package_children (build sample_names) ''java''))"
proof -
  have "ti_packages (build sample_names) = [''java'', ''java.util'']" by code_simp
  then show ?thesis using package_children_exact [of sample_names "''java''"]
    by (auto simp: child_prefix_def first_segment_def less_eq_char_def intro: exI [of _ "''java.util''"])
qed

end
