(* ===== verification/Zip_Archive.thy ===== *)
theory Zip_Archive
  imports Rust_Paths
begin

text \<open>
  \<open>crates/classpath/src/zip.rs\<close>: the read-only ZIP reader for jar and jmod files.

  An archive file is its bytes, so \<open>read_at\<close> is a bounds-checked slice; file offsets are natural
  numbers (the 32-bit fields plus a small base never reach the 64 bits of the source). The entries
  are an association list with one pair per name, in the (arbitrary) iteration order of the
  source's hash map. The DEFLATE decoder is third-party: \<open>inflate data limit\<close>.
\<close>

section \<open>Little-endian fields\<close>

fun le_nat :: "bytes \<Rightarrow> nat" where
  "le_nat [] = 0"
| "le_nat (b # bs) = unat b + 256 * le_nat bs"

definition u16le :: "bytes \<Rightarrow> nat \<Rightarrow> u16 option" where
  "u16le b i = (if i + 1 < length b then Some (of_nat (le_nat (take 2 (drop i b)))) else None)"

definition u32le :: "bytes \<Rightarrow> nat \<Rightarrow> u32 option" where
  "u32le b i = (if i + 3 < length b then Some (of_nat (le_nat (take 4 (drop i b)))) else None)"

section \<open>The reader\<close>

definition MAX_UNCOMPRESSED :: nat where "MAX_UNCOMPRESSED = 16 * 1024 * 1024"

definition MAX_CENTRAL_DIRECTORY_SIZE :: nat where "MAX_CENTRAL_DIRECTORY_SIZE = 64 * 1024 * 1024"

definition MAX_CD_ENTRIES :: nat where "MAX_CD_ENTRIES = 1000000"

definition EOCD_SIG :: u32 where "EOCD_SIG = 0x06054b50"

definition CDFH_SIG :: u32 where "CDFH_SIG = 0x02014b50"

definition LFH_SIG :: u32 where "LFH_SIG = 0x04034b50"

definition ZIP64_SENTINEL :: u32 where "ZIP64_SENTINEL = 0xFFFFFFFF"

definition METHOD_STORE :: u16 where "METHOD_STORE = 0"

definition METHOD_DEFLATE :: u16 where "METHOD_DEFLATE = 8"

record zip_entry =
  ze_method :: u16
  ze_comp_size :: u32
  ze_uncomp_size :: u32
  ze_local_offset :: u32

record zip_archive =
  za_path :: string
  za_base :: nat
  za_entries :: "(string \<times> zip_entry) list"

definition read_at :: "bytes \<Rightarrow> nat \<Rightarrow> nat \<Rightarrow> bytes option" where
  "read_at content pos len = (if pos + len > length content then None else Some (take len (drop pos content)))"

definition find_eocd :: "bytes \<Rightarrow> nat option" where
  "find_eocd tail =
     (if length tail < 22 then None
      else find (\<lambda>i. u32le tail i = Some EOCD_SIG) (rev [0..<length tail - 22 + 1]))"

definition is_unsafe_name :: "string \<Rightarrow> bool" where
  "is_unsafe_name name =
     (starts_with ''/'' name \<or> CHR 0x5C \<in> set name \<or> ''..'' \<in> set (split_char (CHR ''/'') name))"

text \<open>The fixed fields of one central-directory record: the entry, and the lengths of its name,
  its extra field and its comment.\<close>

definition cd_fields :: "bytes \<Rightarrow> nat \<Rightarrow> (zip_entry \<times> nat \<times> nat \<times> nat) option" where
  "cd_fields cd p =
     Option.bind (u16le cd (p + 10)) (\<lambda>method.
     Option.bind (u32le cd (p + 20)) (\<lambda>comp_size.
     Option.bind (u32le cd (p + 24)) (\<lambda>uncomp_size.
     Option.bind (u16le cd (p + 28)) (\<lambda>name_len.
     Option.bind (u16le cd (p + 30)) (\<lambda>extra_len.
     Option.bind (u16le cd (p + 32)) (\<lambda>comment_len.
     Option.bind (u32le cd (p + 42)) (\<lambda>local_offset.
       Some (\<lparr>ze_method = method, ze_comp_size = comp_size, ze_uncomp_size = uncomp_size,
              ze_local_offset = local_offset\<rparr>, unat name_len, unat extra_len, unat comment_len))))))))"

text \<open>The entry is indexed unless it is a zip64 one, too large, or has an unsafe name.\<close>

definition accept_entry :: "string \<Rightarrow> zip_entry \<Rightarrow> bool" where
  "accept_entry name e \<longleftrightarrow>
     ze_uncomp_size e \<noteq> ZIP64_SENTINEL \<and> ze_local_offset e \<noteq> ZIP64_SENTINEL
     \<and> unat (ze_uncomp_size e) \<le> MAX_UNCOMPRESSED \<and> unat (ze_comp_size e) \<le> MAX_UNCOMPRESSED
     \<and> \<not> is_unsafe_name name"

definition index_entry :: "string option \<Rightarrow> zip_entry \<Rightarrow> (string \<times> zip_entry) list \<Rightarrow> (string \<times> zip_entry) list" where
  "index_entry nm e entries =
     (case nm of
        None \<Rightarrow> entries
      | Some name \<Rightarrow> if accept_entry name e then AList.update name e entries else entries)"

function cd_loop :: "bytes \<Rightarrow> nat \<Rightarrow> nat \<Rightarrow> (string \<times> zip_entry) list \<Rightarrow> (string \<times> zip_entry) list option" where
  "cd_loop cd p count entries =
     (if \<not> p + 46 \<le> length cd then Some entries
      else if u32le cd p \<noteq> Some CDFH_SIG then Some entries
      else if count + 1 > MAX_CD_ENTRIES then None
      else case cd_fields cd p of
          None \<Rightarrow> Some entries
        | Some (e, name_len, extra_len, comment_len) \<Rightarrow>
            (let name_end = p + 46 + name_len in
             if name_end > length cd then Some entries
             else cd_loop cd (name_end + extra_len + comment_len) (count + 1)
                    (index_entry (from_utf8 (take name_len (drop (p + 46) cd))) e entries)))"
  by pat_completeness auto
termination
  by (relation "measure (\<lambda>(cd, p, _). length cd - p)") auto

declare cd_loop.simps [simp del]

definition parse_central_directory :: "bytes \<Rightarrow> (string \<times> zip_entry) list option" where
  "parse_central_directory cd = cd_loop cd 0 0 []"

definition zip_open :: "fs \<Rightarrow> string \<Rightarrow> nat \<Rightarrow> zip_archive option" where
  "zip_open fs path base =
     Option.bind (fs_read fs path) (\<lambda>content.
     let tail_len = min (length content) (22 + 0xFFFF) in
     Option.bind (read_at content (length content - tail_len) tail_len) (\<lambda>tail.
     Option.bind (find_eocd tail) (\<lambda>eocd.
     Option.bind (u32le tail (eocd + 12)) (\<lambda>cd_size.
     Option.bind (u32le tail (eocd + 16)) (\<lambda>cd_offset.
       if cd_offset = ZIP64_SENTINEL then None
       else if unat cd_size > MAX_CENTRAL_DIRECTORY_SIZE then None
       else Option.bind (read_at content (base + unat cd_offset) (unat cd_size)) (\<lambda>cd.
         map_option (\<lambda>es. \<lparr>za_path = path, za_base = base, za_entries = es\<rparr>) (parse_central_directory cd)))))))"

definition zip_contains :: "zip_archive \<Rightarrow> string \<Rightarrow> bool" where
  "zip_contains z name \<longleftrightarrow> name \<in> fst ` set (za_entries z)"

definition zip_names :: "zip_archive \<Rightarrow> string list" where
  "zip_names z = map fst (za_entries z)"

definition find_suffix :: "zip_archive \<Rightarrow> string \<Rightarrow> string option" where
  "find_suffix z suffix = find (ends_with suffix) (zip_names z)"

definition zip_read :: "fs \<Rightarrow> (bytes \<Rightarrow> nat \<Rightarrow> bytes option) \<Rightarrow> zip_archive \<Rightarrow> string \<Rightarrow> bytes option" where
  "zip_read fs inflate z name =
     Option.bind (map_of (za_entries z) name) (\<lambda>e.
     Option.bind (fs_read fs (za_path z)) (\<lambda>content.
     Option.bind (read_at content (za_base z + unat (ze_local_offset e)) 30) (\<lambda>lfh.
       if u32le lfh 0 \<noteq> Some LFH_SIG then None
       else Option.bind (u16le lfh 26) (\<lambda>name_len.
       Option.bind (u16le lfh 28) (\<lambda>extra_len.
       Option.bind (read_at content (za_base z + unat (ze_local_offset e) + 30 + unat name_len + unat extra_len)
                      (unat (ze_comp_size e))) (\<lambda>compressed.
         if ze_method e = METHOD_STORE then
           (if length compressed = unat (ze_uncomp_size e) then Some compressed else None)
         else if ze_method e = METHOD_DEFLATE then
           Option.bind (inflate compressed MAX_UNCOMPRESSED) (\<lambda>out.
             if length out \<le> MAX_UNCOMPRESSED then Some out else None)
         else None))))))"

section \<open>Every archive that opens is safe to use\<close>

definition entries_ok :: "nat \<Rightarrow> (string \<times> zip_entry) list \<Rightarrow> bool" where
  "entries_ok n es \<longleftrightarrow> distinct (map fst es) \<and> length es \<le> n \<and> list_all (\<lambda>(name, e). accept_entry name e) es"

lemma entries_ok_mono: "entries_ok n es \<Longrightarrow> n \<le> m \<Longrightarrow> entries_ok m es"
  by (simp add: entries_ok_def)

lemma length_update_le: "length (AList.update k v xs) \<le> Suc (length xs)"
  by (induction xs) (auto split: if_splits)

lemma list_all_update:
  "list_all P es \<Longrightarrow> P (k, v) \<Longrightarrow> (\<And>v'. P (k, v') \<Longrightarrow> P (k, v)) \<Longrightarrow> list_all P (AList.update k v es)"
  by (induction es) auto

lemma entries_ok_update:
  assumes "entries_ok n es" "accept_entry name e"
  shows "entries_ok (Suc n) (AList.update name e es)"
  using assms length_update_le [of name e es] distinct_update [of es name e]
    list_all_update [of "\<lambda>(name, e). accept_entry name e" es name e]
  by (simp add: entries_ok_def)

lemma entries_ok_index: "entries_ok n es \<Longrightarrow> entries_ok (Suc n) (index_entry nm e es)"
  by (auto simp: index_entry_def intro: entries_ok_mono entries_ok_update split: option.splits)

lemma cd_loop_ok:
  "cd_loop cd p count entries = Some es \<Longrightarrow> entries_ok count entries \<Longrightarrow> count \<le> MAX_CD_ENTRIES
   \<Longrightarrow> entries_ok MAX_CD_ENTRIES es"
proof (induction cd p count entries rule: cd_loop.induct)
  case (1 cd p count entries)
  note run = 1(2) [unfolded cd_loop.simps [of cd p count entries]]
  show ?case
  proof (cases "p + 46 \<le> length cd \<and> u32le cd p = Some CDFH_SIG")
    case head: True
    then have c: "count < MAX_CD_ENTRIES" using run by (simp split: if_splits)
    show ?thesis
    proof (cases "cd_fields cd p")
      case None
      then show ?thesis using run head c 1(3) by (auto intro: entries_ok_mono)
    next
      case (Some x)
      obtain e nl el cl where x: "x = (e, nl, el, cl)" by (metis prod_cases4)
      show ?thesis
      proof (cases "p + 46 + nl > length cd")
        case True
        then show ?thesis using run head c Some x 1(3) by (auto intro: entries_ok_mono)
      next
        case False
        then show ?thesis
          using run head c Some x 1(1) [OF _ _ _ Some x [symmetric] refl refl refl] entries_ok_index [OF 1(3)]
          by (simp add: Let_def)
      qed
    qed
  next
    case False
    then show ?thesis using run 1(3,4) by (auto intro: entries_ok_mono split: if_splits)
  qed
qed

lemma parse_central_directory_ok:
  "parse_central_directory cd = Some es \<Longrightarrow> entries_ok MAX_CD_ENTRIES es"
  unfolding parse_central_directory_def by (erule cd_loop_ok) (simp_all add: entries_ok_def)

lemma zip_open_ok: "zip_open fs path base = Some z \<Longrightarrow> entries_ok MAX_CD_ENTRIES (za_entries z)"
  unfolding zip_open_def Let_def
  by (auto simp: bind_eq_Some_conv dest: parse_central_directory_ok split: if_splits)

lemma safe_name_inside: "\<not> is_unsafe_name name \<Longrightarrow> base \<noteq> [] \<Longrightarrow> inside base (path_join base name)"
  by (intro inside_join) (auto simp: is_unsafe_name_def is_absolute_def)

lemma zip_read_bounded:
  assumes "entries_ok n (za_entries z)" "zip_read fs inflate z name = Some out"
  shows "length out \<le> MAX_UNCOMPRESSED"
proof -
  obtain e where e: "map_of (za_entries z) name = Some e"
    using assms(2) by (auto simp: zip_read_def bind_eq_Some_conv)
  then have "unat (ze_uncomp_size e) \<le> MAX_UNCOMPRESSED"
    using assms(1) map_of_SomeD [OF e] by (auto simp: entries_ok_def list_all_iff accept_entry_def)
  then show ?thesis
    using assms(2) e by (auto simp: zip_read_def bind_eq_Some_conv split: if_splits)
qed

text \<open>
  C25. No archive can hurt its reader: whatever bytes a file holds, when it opens, its index has at
  most 1,000,000 entries, all with different names; every name, joined onto any directory, stays
  inside that directory (no zip slip), every recorded size is at most 16 MiB, and whatever the
  decompressor returns, no read of an entry ever yields more than 16 MiB.
\<close>

theorem zip_archive_safe:
  assumes "zip_open fs path base = Some z"
  shows "length (zip_names z) \<le> 1000000 \<and> distinct (zip_names z)
    \<and> (name \<in> set (zip_names z) \<and> dir \<noteq> [] \<longrightarrow> inside dir (path_join dir name))
    \<and> (map_of (za_entries z) name = Some e \<longrightarrow>
         unat (ze_comp_size e) \<le> 16 * 1024 * 1024 \<and> unat (ze_uncomp_size e) \<le> 16 * 1024 * 1024)
    \<and> (zip_read fs' inflate z name = Some out \<longrightarrow> length out \<le> 16 * 1024 * 1024)"
proof -
  have z: "entries_ok MAX_CD_ENTRIES (za_entries z)" by (rule zip_open_ok [OF assms])
  then have "accept_entry n x" if "(n, x) \<in> set (za_entries z)" for n x
    using that by (auto simp: entries_ok_def list_all_iff)
  then have "inside dir (path_join dir name)" if "name \<in> set (zip_names z)" "dir \<noteq> []"
    using that by (auto simp: zip_names_def accept_entry_def intro: safe_name_inside)
  moreover have "unat (ze_comp_size e) \<le> MAX_UNCOMPRESSED \<and> unat (ze_uncomp_size e) \<le> MAX_UNCOMPRESSED"
    if "map_of (za_entries z) name = Some e"
    using z map_of_SomeD [OF that] by (auto simp: entries_ok_def list_all_iff accept_entry_def)
  ultimately show ?thesis
    using z zip_read_bounded [OF z]
    by (auto simp: entries_ok_def zip_names_def MAX_CD_ENTRIES_def MAX_UNCOMPRESSED_def)
qed

section \<open>Reading back what a ZIP writer wrote\<close>

text \<open>
  A reference writer, after the published file format: a local header, the name and the data for
  each member, then the central directory, then the end record. A member is its name, its
  compression method, its (compressed) data and its uncompressed size.
\<close>

record zip_member =
  zm_name :: bytes
  zm_method :: u16
  zm_data :: bytes
  zm_size :: nat

primrec le_bytes :: "nat \<Rightarrow> nat \<Rightarrow> bytes" where
  "le_bytes 0 n = []"
| "le_bytes (Suc k) n = of_nat (n mod 256) # le_bytes k (n div 256)"

definition zeros :: "nat \<Rightarrow> bytes" where
  "zeros n = replicate n 0"

definition local_part :: "zip_member \<Rightarrow> bytes" where
  "local_part m = le_bytes 4 (unat LFH_SIG) @ zeros 22 @ le_bytes 2 (length (zm_name m)) @ le_bytes 2 0
     @ zm_name m @ zm_data m"

definition cd_record :: "nat \<Rightarrow> zip_member \<Rightarrow> bytes" where
  "cd_record off m = le_bytes 4 (unat CDFH_SIG) @ zeros 6 @ le_bytes 2 (unat (zm_method m)) @ zeros 8
     @ le_bytes 4 (length (zm_data m)) @ le_bytes 4 (zm_size m)
     @ le_bytes 2 (length (zm_name m)) @ le_bytes 2 0 @ le_bytes 2 0 @ zeros 8 @ le_bytes 4 off @ zm_name m"

primrec cd_records :: "nat \<Rightarrow> zip_member list \<Rightarrow> bytes" where
  "cd_records off [] = []"
| "cd_records off (m # ms) = cd_record off m @ cd_records (off + length (local_part m)) ms"

definition local_parts :: "zip_member list \<Rightarrow> bytes" where
  "local_parts ms = concat (map local_part ms)"

definition end_record :: "nat \<Rightarrow> nat \<Rightarrow> bytes" where
  "end_record cd_size cd_off =
     le_bytes 4 (unat EOCD_SIG) @ zeros 8 @ le_bytes 4 cd_size @ le_bytes 4 cd_off @ le_bytes 2 0"

definition zip_bytes :: "bytes \<Rightarrow> zip_member list \<Rightarrow> bytes" where
  "zip_bytes pre ms = pre @ local_parts ms @ cd_records 0 ms
     @ end_record (length (cd_records 0 ms)) (length (local_parts ms))"

definition member_name :: "zip_member \<Rightarrow> string" where
  "member_name m = (case from_utf8 (zm_name m) of Some s \<Rightarrow> s | None \<Rightarrow> [])"

definition member_entry :: "nat \<Rightarrow> zip_member \<Rightarrow> zip_entry" where
  "member_entry off m = \<lparr>ze_method = zm_method m, ze_comp_size = of_nat (length (zm_data m)),
     ze_uncomp_size = of_nat (zm_size m), ze_local_offset = of_nat off\<rparr>"

primrec member_entries :: "nat \<Rightarrow> zip_member list \<Rightarrow> (string \<times> zip_entry) list" where
  "member_entries off [] = []"
| "member_entries off (m # ms) =
     (member_name m, member_entry off m) # member_entries (off + length (local_part m)) ms"

definition member_ok :: "zip_member \<Rightarrow> bool" where
  "member_ok m \<longleftrightarrow> from_utf8 (zm_name m) \<noteq> None \<and> length (zm_name m) < 2 ^ 16
     \<and> \<not> is_unsafe_name (member_name m)
     \<and> length (zm_data m) \<le> MAX_UNCOMPRESSED \<and> zm_size m \<le> MAX_UNCOMPRESSED"

definition members_ok :: "zip_member list \<Rightarrow> bool" where
  "members_ok ms \<longleftrightarrow> list_all member_ok ms \<and> distinct (map member_name ms)
     \<and> length ms \<le> MAX_CD_ENTRIES \<and> length (cd_records 0 ms) \<le> MAX_CENTRAL_DIRECTORY_SIZE
     \<and> length (local_parts ms) < 2 ^ 32 - 1"

lemma length_le_bytes [simp]: "length (le_bytes k n) = k"
  by (induction k arbitrary: n) auto

lemma length_zeros [simp]: "length (zeros n) = n"
  by (simp add: zeros_def)

lemma le_nat_le_bytes: "le_nat (le_bytes k n) = n mod 256 ^ k"
proof (induction k arbitrary: n)
  case (Suc k)
  have "unat (of_nat (n mod 256) :: u8) = n mod 256" by (simp add: unat_of_nat)
  then show ?case using Suc by (simp add: mod_mult2_eq)
qed simp

lemma of_nat_le4: "(of_nat (le_nat (le_bytes 4 n)) :: u32) = of_nat n"
  by (rule word_unat_eq_iff [THEN iffD2]) (simp add: le_nat_le_bytes unat_of_nat)

lemma of_nat_le2: "(of_nat (le_nat (le_bytes 2 n)) :: u16) = of_nat n"
  by (rule word_unat_eq_iff [THEN iffD2]) (simp add: le_nat_le_bytes unat_of_nat)

text \<open>A field is read where it was written.\<close>

lemma u32le_field: "i = length a \<Longrightarrow> u32le (a @ le_bytes 4 n @ b) i = Some (of_nat n)"
  by (simp add: u32le_def of_nat_le4)

lemma u16le_field: "i = length a \<Longrightarrow> u16le (a @ le_bytes 2 n @ b) i = Some (of_nat n)"
  by (simp add: u16le_def of_nat_le2)

lemma u32le_skip: "length a \<le> i \<Longrightarrow> u32le (a @ b) i = u32le b (i - length a)"
  by (auto simp: u32le_def)

lemma u16le_skip: "length a \<le> i \<Longrightarrow> u16le (a @ b) i = u16le b (i - length a)"
  by (auto simp: u16le_def)

lemma u32le_here [simp]: "u32le (le_bytes 4 n @ b) 0 = Some (of_nat n)"
  using u32le_field [of 0 "[]"] by simp

lemma u16le_here [simp]: "u16le (le_bytes 2 n @ b) 0 = Some (of_nat n)"
  using u16le_field [of 0 "[]"] by simp

lemma length_cd_record: "length (cd_record off m) = 46 + length (zm_name m)"
  by (simp add: cd_record_def)

lemma length_local_part: "length (local_part m) = 30 + length (zm_name m) + length (zm_data m)"
  by (simp add: local_part_def)

lemma cd_fields_record:
  assumes "length (zm_name m) < 2 ^ 16"
  shows "cd_fields (pre @ cd_record off m @ post) (length pre) =
           Some (member_entry off m, length (zm_name m), 0, 0)"
  using assms
  by (simp add: cd_fields_def cd_record_def u16le_skip u32le_skip member_entry_def unat_of_nat)

lemma cd_head_record: "u32le (pre @ cd_record off m @ post) (length pre) = Some CDFH_SIG"
  by (simp add: cd_record_def u32le_skip)

lemma accept_member:
  assumes "member_ok m" "off < 2 ^ 32 - 1"
  shows "accept_entry (member_name m) (member_entry off m)"
proof -
  have "unat (of_nat k :: u32) = k" if "k \<le> MAX_UNCOMPRESSED" for k
    using that by (simp add: MAX_UNCOMPRESSED_def unat_of_nat)
  moreover have "(of_nat k :: u32) \<noteq> ZIP64_SENTINEL" if "k < 2 ^ 32 - 1" for k
    using that by (auto simp: ZIP64_SENTINEL_def word_unat_eq_iff unat_of_nat)
  ultimately show ?thesis
    using assms by (auto simp: accept_entry_def member_ok_def member_entry_def MAX_UNCOMPRESSED_def)
qed

lemma update_fresh: "k \<notin> fst ` set xs \<Longrightarrow> AList.update k v xs = xs @ [(k, v)]"
  by (induction xs) auto

lemma fst_member_entries [simp]: "map fst (member_entries off ms) = map member_name ms"
  by (induction ms arbitrary: off) auto

lemma cd_loop_records:
  assumes "list_all member_ok ms" "distinct (map fst acc @ map member_name ms)"
    "count + length ms \<le> MAX_CD_ENTRIES" "off + length (local_parts ms) < 2 ^ 32 - 1"
  shows "cd_loop (pre @ cd_records off ms) (length pre) count acc = Some (acc @ member_entries off ms)"
  using assms
proof (induction ms arbitrary: pre off count acc)
  case Nil
  then show ?case by (simp add: cd_loop.simps)
next
  case (Cons m ms)
  let ?cd = "pre @ cd_record off m @ cd_records (off + length (local_part m)) ms"
  let ?acc = "acc @ [(member_name m, member_entry off m)]"
  have nl: "length (zm_name m) < 2 ^ 16" and utf8: "from_utf8 (zm_name m) = Some (member_name m)"
    using Cons.prems(1) by (auto simp: member_ok_def member_name_def)
  have "off < 2 ^ 32 - 1" using Cons.prems(4) by linarith
  then have idx: "index_entry (from_utf8 (zm_name m)) (member_entry off m) acc = ?acc"
    using Cons.prems(1,2) by (subst utf8) (auto simp: index_entry_def accept_member update_fresh)
  have name: "drop 46 (cd_record off m) = zm_name m"
    by (simp add: cd_record_def)
  have "cd_loop ?cd (length pre) count acc =
          cd_loop ?cd (length pre + 46 + length (zm_name m)) (count + 1) ?acc"
    by (subst cd_loop.simps)
      (use Cons.prems(3) in \<open>simp add: cd_head_record cd_fields_record [OF nl] name idx length_cd_record Let_def\<close>)
  also have "\<dots> = Some (?acc @ member_entries (off + length (local_part m)) ms)"
    using Cons.IH [of ?acc "count + 1" "off + length (local_part m)" "pre @ cd_record off m"] Cons.prems
    by (simp add: length_cd_record local_parts_def add.assoc)
  finally show ?case by simp
qed

lemma find_eocd_end:
  assumes "22 \<le> length tail" "u32le tail (length tail - 22) = Some EOCD_SIG"
  shows "find_eocd tail = Some (length tail - 22)"
  using assms by (simp add: find_eocd_def)

lemma drop_take_suffix: "length b \<le> k \<Longrightarrow> k \<le> length (a @ b) \<Longrightarrow> \<exists>c. drop (length (a @ b) - k) (a @ b) = c @ b"
  by simp

lemma zip_open_bytes:
  assumes "fs_read fs path = Some (zip_bytes pre ms)" "members_ok ms"
  shows "zip_open fs path (length pre) =
           Some \<lparr>za_path = path, za_base = length pre, za_entries = member_entries 0 ms\<rparr>"
proof -
  let ?body = "pre @ local_parts ms @ cd_records 0 ms"
  let ?cs = "length (cd_records 0 ms)" and ?co = "length (local_parts ms)"
  let ?c = "zip_bytes pre ms"
  let ?tl = "min (length ?c) (22 + 0xFFFF)"
  have split: "?c = ?body @ end_record ?cs ?co" by (simp add: zip_bytes_def)
  have e22: "length (end_record ?cs ?co) = 22" by (simp add: end_record_def)
  obtain a where a: "drop (length ?c - ?tl) ?c = a @ end_record ?cs ?co"
    using drop_take_suffix [of "end_record ?cs ?co" ?tl ?body] e22 split by auto
  have tail: "read_at ?c (length ?c - ?tl) ?tl = Some (a @ end_record ?cs ?co)"
    by (simp add: read_at_def a [symmetric])
  have eocd: "find_eocd (a @ end_record ?cs ?co) = Some (length a)"
    using find_eocd_end [of "a @ end_record ?cs ?co"] e22 by (simp add: u32le_skip) (simp add: end_record_def)
  have size: "u32le (a @ end_record ?cs ?co) (length a + 12) = Some (of_nat ?cs)"
    and off: "u32le (a @ end_record ?cs ?co) (length a + 16) = Some (of_nat ?co)"
    by (simp_all add: u32le_skip end_record_def)
  have ucs: "unat (of_nat ?cs :: u32) = ?cs" and uco: "unat (of_nat ?co :: u32) = ?co"
    using assms(2) by (auto simp: members_ok_def MAX_CENTRAL_DIRECTORY_SIZE_def unat_of_nat)
  have "(of_nat ?co :: u32) \<noteq> ZIP64_SENTINEL"
    using assms(2) uco by (auto simp: members_ok_def ZIP64_SENTINEL_def word_unat_eq_iff)
  moreover have "read_at ?c (length pre + ?co) ?cs = Some (cd_records 0 ms)"
    by (simp add: read_at_def zip_bytes_def)
  moreover have "parse_central_directory (cd_records 0 ms) = Some (member_entries 0 ms)"
    using cd_loop_records [of ms "[]" 0 0 "[]"] assms(2)
    by (simp add: parse_central_directory_def members_ok_def)
  ultimately show ?thesis
    using assms tail eocd size off ucs uco unfolding zip_open_def Let_def
    by (simp add: members_ok_def)
qed

text \<open>Where the member's local part lies.\<close>

lemma map_of_member:
  assumes "distinct (map member_name ms)" "m \<in> set ms"
  shows "\<exists>xs ys. ms = xs @ m # ys
     \<and> map_of (member_entries off ms) (member_name m) = Some (member_entry (off + length (local_parts xs)) m)"
  using assms
proof (induction ms arbitrary: off)
  case (Cons x ms)
  show ?case
  proof (cases "x = m")
    case True
    then show ?thesis by (intro exI [of _ "[]"] exI [of _ ms]) (simp add: local_parts_def)
  next
    case False
    then have "m \<in> set ms" using Cons.prems by simp
    moreover from this have "member_name x \<noteq> member_name m" using Cons.prems(1) by auto
    ultimately obtain xs ys where "ms = xs @ m # ys"
      "map_of (member_entries (off + length (local_part x)) ms) (member_name m) =
         Some (member_entry (off + length (local_part x) + length (local_parts xs)) m)"
      using Cons.IH [of "off + length (local_part x)"] Cons.prems(1) by auto
    with \<open>member_name x \<noteq> member_name m\<close> show ?thesis
      by (intro exI [of _ "x # xs"] exI [of _ ys]) (simp add: local_parts_def add.assoc)
  qed
qed simp

lemma local_part_head:
  "u32le (take 30 (local_part m)) 0 = Some LFH_SIG"
  "u16le (take 30 (local_part m)) 26 = Some (of_nat (length (zm_name m)))"
  "u16le (take 30 (local_part m)) 28 = Some 0"
  by (simp_all add: local_part_def u16le_skip u16le_here [of _ "[]", simplified])

definition decode_member :: "(bytes \<Rightarrow> nat \<Rightarrow> bytes option) \<Rightarrow> zip_member \<Rightarrow> bytes option" where
  "decode_member inflate m =
     (if zm_method m = 0 then (if length (zm_data m) = zm_size m then Some (zm_data m) else None)
      else if zm_method m = 8 then
        (case inflate (zm_data m) MAX_UNCOMPRESSED of
           Some out \<Rightarrow> if length out \<le> MAX_UNCOMPRESSED then Some out else None
         | None \<Rightarrow> None)
      else None)"

lemma zip_read_member:
  assumes "fs_read fs path = Some (zip_bytes pre ms)" "members_ok ms" "m \<in> set ms"
  shows "zip_read fs inflate
           \<lparr>za_path = path, za_base = length pre, za_entries = member_entries 0 ms\<rparr> (member_name m) =
         decode_member inflate m"
proof -
  obtain xs ys where ms: "ms = xs @ m # ys"
    and e: "map_of (member_entries 0 ms) (member_name m) = Some (member_entry (length (local_parts xs)) m)"
    using map_of_member [of ms m 0] assms by (auto simp: members_ok_def)
  have ok: "member_ok m" using assms by (auto simp: members_ok_def list_all_iff)
  let ?off = "length (local_parts xs)"
  have off: "unat (of_nat ?off :: u32) = ?off"
    using assms(2) ms by (simp add: members_ok_def local_parts_def unat_of_nat)
  have dl: "unat (of_nat (length (zm_data m)) :: u32) = length (zm_data m)"
    "unat (of_nat (zm_size m) :: u32) = zm_size m"
    "unat (of_nat (length (zm_name m)) :: u16) = length (zm_name m)"
    using ok by (simp_all add: member_ok_def MAX_UNCOMPRESSED_def unat_of_nat)
  let ?rest = "local_parts ys @ cd_records 0 ms @ end_record (length (cd_records 0 ms)) (length (local_parts ms))"
  have c: "zip_bytes pre ms = (pre @ local_parts xs) @ local_part m @ ?rest"
    unfolding zip_bytes_def by (simp add: local_parts_def ms)
  have hd: "read_at (zip_bytes pre ms) (length pre + ?off) 30 = Some (take 30 (local_part m))"
    unfolding c read_at_def by (simp add: length_local_part)
  have data: "read_at (zip_bytes pre ms) (length pre + ?off + 30 + length (zm_name m)) (length (zm_data m)) =
      Some (zm_data m)"
    unfolding c read_at_def by (simp add: length_local_part) (simp add: local_part_def)
  show ?thesis
    using assms(1) e off dl hd data
    by (simp add: zip_read_def member_entry_def local_part_head decode_member_def METHOD_STORE_def
        METHOD_DEFLATE_def split: option.splits)
qed

text \<open>
  Reading back what a ZIP writer wrote: for every list of members with distinct, safe, UTF-8
  names within the size limits, behind any prefix (the 4 bytes of a jmod), the archive opens, lists
  exactly the members' names in order, and reading a member yields its data (stored) or what the
  decompressor makes of it (deflated), at any position of any archive.
\<close>

theorem zip_roundtrip:
  assumes "fs_read fs path = Some (zip_bytes pre ms)" "members_ok ms"
  shows "\<exists>z. zip_open fs path (length pre) = Some z \<and> zip_names z = map member_name ms
    \<and> list_all (\<lambda>m. zip_contains z (member_name m)
         \<and> zip_read fs inflate z (member_name m) = decode_member inflate m) ms"
  using zip_open_bytes [OF assms] zip_read_member [OF assms, of _ inflate]
  by (auto simp: zip_names_def zip_contains_def list_all_iff)
    (metis fst_member_entries image_eqI list.set_map)

definition sample_members :: "zip_member list" where
  "sample_members =
     [\<lparr>zm_name = as_bytes ''A.class'', zm_method = 0, zm_data = [1, 2, 3], zm_size = 3\<rparr>]"

definition zip_fs :: "bytes \<Rightarrow> fs" where
  "zip_fs content = \<lparr>fs_read = (\<lambda>p. if p = ''a.jar'' then Some content else None),
     fs_len = (\<lambda>p. if p = ''a.jar'' then Some (length content) else None),
     fs_is_file = (\<lambda>p. p = ''a.jar''), fs_is_dir = (\<lambda>_. False), fs_read_dir = (\<lambda>_. None),
     fs_canonicalize = (\<lambda>_. None), fs_var = (\<lambda>_. None)\<rparr>"

lemma sample_member_name: "from_utf8 (as_bytes ''A.class'') = Some ''A.class''"
  by (rule from_utf8_as_bytes) (simp add: valid_str_ascii)

lemma sample_members_ok: "members_ok sample_members"
  by (simp add: sample_members_def members_ok_def member_ok_def member_name_def local_parts_def
      length_local_part length_cd_record sample_member_name is_unsafe_name_def starts_with_def
      MAX_UNCOMPRESSED_def MAX_CD_ENTRIES_def MAX_CENTRAL_DIRECTORY_SIZE_def)

theorem zip_roundtrip_witness:
  "\<exists>z. zip_open (zip_fs (zip_bytes [74, 77, 1, 0] sample_members)) ''a.jar'' 4 = Some z
    \<and> zip_read (zip_fs (zip_bytes [74, 77, 1, 0] sample_members)) (\<lambda>_ _. None) z ''A.class'' = Some [1, 2, 3]"
proof -
  have "fs_read (zip_fs c) ''a.jar'' = Some c" for c by (simp add: zip_fs_def)
  from zip_roundtrip [OF this sample_members_ok, of "[74, 77, 1, 0]" "\<lambda>_ _. None"] show ?thesis
    by (simp add: sample_members_def member_name_def sample_member_name decode_member_def numeral_eq_Suc) blast
qed

theorem zip_archive_safe_witness:
  "\<exists>z. zip_open (zip_fs (zip_bytes [] sample_members)) ''a.jar'' 0 = Some z
    \<and> length (zip_names z) \<le> 1000000 \<and> distinct (zip_names z)"
proof -
  have r: "fs_read (zip_fs c) ''a.jar'' = Some c" for c by (simp add: zip_fs_def)
  show ?thesis
    using zip_open_bytes [OF r sample_members_ok, of "[]"] zip_archive_safe [OF zip_open_bytes [OF r sample_members_ok, of "[]"]]
    by simp
qed

end
