(* ===== verification/Jdk_Locator.thy ===== *)
theory Jdk_Locator
  imports Rust_Paths
begin

text \<open>
  \<open>crates/classpath/src/jdk.rs\<close>: finding the user's JDK by looking at the file system only.

  A version is a 32-bit number; an unreadable one counts as 0. \<open>sort_by_key\<close> with \<open>Reverse\<close> is a
  stable sort by the negated version.
\<close>

section \<open>Versions\<close>

text \<open>\<open>str::lines\<close>: pieces between line feeds, without a final empty one and without a carriage
  return at the end of a piece that a line feed follows.\<close>

definition strip_cr :: "string \<Rightarrow> string" where
  "strip_cr s = (if s \<noteq> [] \<and> last s = CHR 0x0D then butlast s else s)"

definition str_lines :: "string \<Rightarrow> string list" where
  "str_lines s =
     (let ps = split_char (CHR 0x0A) s in
      map strip_cr (butlast ps) @ (if last ps = [] then [] else [last ps]))"

definition trim_matches :: "char \<Rightarrow> string \<Rightarrow> string" where
  "trim_matches c s = rev (dropWhile (\<lambda>x. x = c) (rev (dropWhile (\<lambda>x. x = c) s)))"

definition leading_number :: "string \<Rightarrow> u32 option" where
  "leading_number s = map_option of_nat (parse_uint (2 ^ 32 - 1) (takeWhile is_digit s))"

definition parse_feature_version :: "string \<Rightarrow> u32 option" where
  "parse_feature_version value =
     (case split_char (CHR ''.'') value of
        [] \<Rightarrow> None
      | first # parts \<Rightarrow>
          if first = ''1'' then (case parts of [] \<Rightarrow> None | p # _ \<Rightarrow> leading_number p)
          else leading_number first)"

definition jdk_feature_version :: "fs \<Rightarrow> string \<Rightarrow> u32 option" where
  "jdk_feature_version fs home =
     Option.bind (read_to_string fs (path_join home ''release'')) (\<lambda>release.
     Option.bind (case List.map_filter (strip_prefix ''JAVA_VERSION='') (str_lines release) of
                    [] \<Rightarrow> None | raw # _ \<Rightarrow> Some raw) (\<lambda>raw.
       parse_feature_version (trim_matches (CHR 0x22) (trim raw))))"

definition major_version :: "string \<Rightarrow> u32" where
  "major_version home =
     (case parse_uint (2 ^ 32 - 1) (takeWhile is_digit (dropWhile (\<lambda>c. \<not> is_digit c) home)) of
        Some n \<Rightarrow> of_nat n | None \<Rightarrow> 0)"

definition ranked_version :: "fs \<Rightarrow> string \<Rightarrow> u32" where
  "ranked_version fs home = (case jdk_feature_version fs home of Some n \<Rightarrow> n | None \<Rightarrow> major_version home)"

section \<open>Homes\<close>

definition has_jmods :: "fs \<Rightarrow> string \<Rightarrow> bool" where
  "has_jmods fs home = fs_is_file fs (path_join (path_join home ''jmods'') ''java.base.jmod'')"

definition scan_dir :: "fs \<Rightarrow> string \<Rightarrow> string option \<Rightarrow> string list" where
  "scan_dir fs dir suffix =
     (case fs_read_dir fs dir of
        None \<Rightarrow> []
      | Some es \<Rightarrow> map (\<lambda>e. case suffix of Some s \<Rightarrow> path_join (entry_path dir e) s | None \<Rightarrow> entry_path dir e) es)"

definition split_paths :: "string \<Rightarrow> string list" where
  "split_paths s = split_char (CHR '':'') s"

fun java_in :: "fs \<Rightarrow> string list \<Rightarrow> string option" where
  "java_in fs [] = None"
| "java_in fs (dir # dirs) =
     (let java = path_join dir ''java'' in
      case (if fs_is_file fs java
            then Option.bind (fs_canonicalize fs java) (\<lambda>real. Option.bind (parent real) parent) else None) of
        Some home \<Rightarrow> Some home
      | None \<Rightarrow> java_in fs dirs)"

definition java_on_path :: "fs \<Rightarrow> string option" where
  "java_on_path fs = Option.bind (fs_var fs ''PATH'') (\<lambda>path. java_in fs (split_paths path))"

definition candidate_homes :: "fs \<Rightarrow> string list" where
  "candidate_homes fs =
     (let user_home = fs_var fs ''HOME'' in
      scan_dir fs ''/Library/Java/JavaVirtualMachines'' (Some ''Contents/Home'')
      @ (case user_home of None \<Rightarrow> []
         | Some h \<Rightarrow> scan_dir fs (path_join h ''Library/Java/JavaVirtualMachines'') (Some ''Contents/Home''))
      @ scan_dir fs ''/usr/lib/jvm'' None
      @ scan_dir fs ''/usr/java'' None
      @ (case user_home of None \<Rightarrow> []
         | Some h \<Rightarrow> scan_dir fs (path_join h ''.jdks'') None
                    @ scan_dir fs (path_join h ''.sdkman/candidates/java'') None)
      @ (case java_on_path fs of Some home \<Rightarrow> [home] | None \<Rightarrow> []))"

definition best_candidate :: "fs \<Rightarrow> string option" where
  "best_candidate fs =
     (case sort_key (\<lambda>p. - int (unat (ranked_version fs p))) (filter (has_jmods fs) (candidate_homes fs)) of
        [] \<Rightarrow> None
      | p # _ \<Rightarrow> Some p)"

definition best_jdk :: "fs \<Rightarrow> string option" where
  "best_jdk fs =
     (case fs_var fs ''JAVA_HOME'' of
        Some home \<Rightarrow> if has_jmods fs home then Some home else best_candidate fs
      | None \<Rightarrow> best_candidate fs)"

definition jmods :: "fs \<Rightarrow> string \<Rightarrow> string list" where
  "jmods fs home =
     (case fs_read_dir fs (path_join home ''jmods'') of
        None \<Rightarrow> []
      | Some es \<Rightarrow> filter (\<lambda>p. extension p = Some ''jmod'') (map (entry_path (path_join home ''jmods'')) es))"

section \<open>The choice of a JDK\<close>

lemma find_filter_Cons: "filter P xs = x # zs \<Longrightarrow> find P xs = Some x"
  by (induction xs) (auto split: if_splits)

lemma sort_key_hd:
  fixes f :: "'a \<Rightarrow> 'b::linorder"
  assumes "xs \<noteq> []"
  shows "\<exists>x ys. sort_key f xs = x # ys \<and> find (\<lambda>x. \<forall>y \<in> set xs. f x \<le> f y) xs = Some x"
proof -
  obtain x ys where s: "sort_key f xs = x # ys" using assms by (metis length_0_conv length_sort neq_Nil_conv)
  have "sorted (map f (x # ys))" by (metis s sorted_sort_key)
  then have min: "\<forall>y \<in> set (x # ys). f x \<le> f y" by auto
  have sets: "set (x # ys) = set xs" by (metis s set_sort)
  have "filter (\<lambda>y. f y = f x) xs = filter (\<lambda>y. f y = f x) (x # ys)"
    using sort_key_stable [of f "f x" xs] unfolding s by simp
  then obtain zs where "filter (\<lambda>y. f y = f x) xs = x # zs" by simp
  moreover have "(\<forall>y \<in> set xs. f z \<le> f y) \<longleftrightarrow> f z = f x" if "z \<in> set xs" for z
    using min sets that by (metis list.set_intros(1) order_antisym)
  then have "filter (\<lambda>z. \<forall>y \<in> set xs. f z \<le> f y) xs = filter (\<lambda>y. f y = f x) xs" by (rule filter_cong [OF refl])
  ultimately have "find (\<lambda>z. \<forall>y \<in> set xs. f z \<le> f y) xs = Some x"
    by (simp add: find_filter_Cons)
  then show ?thesis using s by blast
qed

text \<open>
  The JDK that is chosen: a usable \<open>JAVA_HOME\<close> always wins; otherwise it is the first of the
  usable candidates, in probing order, whose version no other usable candidate exceeds, and there is
  none exactly when no candidate is usable. Whatever is chosen ships its \<open>java.base\<close> module.
\<close>

theorem best_jdk_choice:
  "best_jdk fs =
     (if \<exists>home. fs_var fs ''JAVA_HOME'' = Some home \<and> has_jmods fs home then fs_var fs ''JAVA_HOME''
      else find (\<lambda>p. has_jmods fs p \<and> list_all (\<lambda>q. has_jmods fs q \<longrightarrow>
                    unat (ranked_version fs q) \<le> unat (ranked_version fs p)) (candidate_homes fs))
             (candidate_homes fs))
   \<and> (best_jdk fs = Some home \<longrightarrow> has_jmods fs home)"
proof -
  let ?us = "filter (has_jmods fs) (candidate_homes fs)"
  let ?f = "\<lambda>p. - int (unat (ranked_version fs p))"
  let ?top = "\<lambda>p. has_jmods fs p \<and> list_all (\<lambda>q. has_jmods fs q \<longrightarrow>
                    unat (ranked_version fs q) \<le> unat (ranked_version fs p)) (candidate_homes fs)"
  have top: "find (\<lambda>x. \<forall>y \<in> set ?us. ?f x \<le> ?f y) ?us = find ?top (candidate_homes fs)"
  proof -
    have "find P (filter Q xs) = find (\<lambda>x. Q x \<and> P x) xs" for P Q and xs :: "string list" by (induction xs) auto
    then show ?thesis by (simp only:) (intro find_cong refl, auto simp: list_all_iff word_le_nat_alt [symmetric] word_le_def [symmetric])
  qed
  have bc: "best_candidate fs = find ?top (candidate_homes fs)"
  proof (cases "?us = []")
    case True
    then have "find ?top (candidate_homes fs) = None" by (auto simp: find_None_iff filter_empty_conv)
    then show ?thesis using True by (simp add: best_candidate_def)
  next
    case False
    from sort_key_hd [OF this, of ?f] show ?thesis unfolding top [symmetric] best_candidate_def by auto
  qed
  have jm: "best_candidate fs = Some home \<longrightarrow> has_jmods fs home" unfolding bc by (auto simp: find_Some_iff)
  show ?thesis
  proof (cases "\<exists>h. fs_var fs ''JAVA_HOME'' = Some h \<and> has_jmods fs h")
    case True
    then have "best_jdk fs = fs_var fs ''JAVA_HOME''" by (auto simp: best_jdk_def)
    then show ?thesis using True by auto
  next
    case False
    then have "best_jdk fs = best_candidate fs" by (auto simp: best_jdk_def split: option.splits)
    then show ?thesis using False jm unfolding bc [symmetric] by (simp only: if_False simp_thms)
  qed
qed

section \<open>Version strings\<close>

lemma leading_number_show:
  assumes "n < 2 ^ 32" "s = [] \<or> \<not> is_digit (hd s)"
  shows "leading_number (show_nat n @ s) = Some (of_nat n)"
proof -
  have "takeWhile is_digit (show_nat n @ s) = show_nat n"
    using show_nat_digits [of n] assms(2) by (cases s) (auto simp: takeWhile_append)
  then show ?thesis using assms(1) parse_show_nat [of n "2 ^ 32 - 1"] by (simp add: leading_number_def)
qed

lemma split_first: "c \<notin> set a \<Longrightarrow> split_char c (a @ c # b) = a # split_char c b"
  by (simp add: split_char_sep split_char_none)

lemma show_nat_no_dot: "CHR ''.'' \<notin> set (show_nat n)"
  using show_nat_digits [of n] by (auto simp: is_digit_def)

text \<open>
  Both version schemes are read: \<open>N\<close>, \<open>N.x\<close> and \<open>N-ea\<close> give \<open>N\<close> for every 32-bit
  feature number but 1, and the legacy \<open>1.N\<close>, followed by anything that is not a digit, gives \<open>N\<close>.
\<close>

theorem parse_feature_version_schemes:
  assumes "n < 2 ^ 32" "s = [] \<or> \<not> is_digit (hd s)"
  shows "(n \<noteq> 1 \<longrightarrow> parse_feature_version (show_nat n @ s) = Some (of_nat n))
    \<and> parse_feature_version (''1.'' @ show_nat n @ s) = Some (of_nat n)"
proof
  have num: "leading_number (show_nat n @ t) = Some (of_nat n)" if "t = [] \<or> \<not> is_digit (hd t)" for t
    using leading_number_show [OF assms(1) that] .
  obtain p ps where p: "split_char (CHR ''.'') s = p # ps" by (cases "split_char (CHR ''.'') s") auto
  have hd: "p = [] \<or> \<not> is_digit (hd p)"
    using p assms(2) by (cases s) (auto split: if_splits list.splits)
  have split: "split_char (CHR ''.'') (show_nat n @ s) = (show_nat n @ p) # ps"
  proof -
    have "split_char c (a @ s) = (a @ hd (split_char c s)) # tl (split_char c s)" if "c \<notin> set a" for c a and s :: string
      using that by (induction a) (auto split: list.splits)
    from this [OF show_nat_no_dot, of n s] show ?thesis using p by simp
  qed
  show "parse_feature_version (''1.'' @ show_nat n @ s) = Some (of_nat n)"
    using split num [OF hd] split_first [of "CHR ''.''" "''1''" "show_nat n @ s"] by (simp add: parse_feature_version_def)
  show "n \<noteq> 1 \<longrightarrow> parse_feature_version (show_nat n @ s) = Some (of_nat n)"
  proof
    assume "n \<noteq> 1"
    have "show_nat n @ p \<noteq> ''1''"
    proof
      assume one: "show_nat n @ p = ''1''"
      then have "show_nat n = ''1''" using show_nat_not_Nil [of n] by (cases "show_nat n") auto
      then show False using digits_value_show_nat [of n] \<open>n \<noteq> 1\<close> by (simp add: is_digit_def digit_val_def)
    qed
    then show "parse_feature_version (show_nat n @ s) = Some (of_nat n)"
      using split num [OF hd] by (simp add: parse_feature_version_def)
  qed
qed

theorem parse_feature_version_schemes_witness:
  "parse_feature_version ''21.0.2'' = Some 21 \<and> parse_feature_version ''1.8.0_392'' = Some 8"
proof
  have n: "show_nat 21 = ''21''" "show_nat 8 = ''8''" by code_simp+
  show "parse_feature_version ''21.0.2'' = Some 21"
    using parse_feature_version_schemes [of 21 "''.0.2''"] by (simp add: n is_digit_def)
  show "parse_feature_version ''1.8.0_392'' = Some 8"
    using parse_feature_version_schemes [of 8 "''.0_392''"] by (simp add: n is_digit_def)
qed

definition sample_jdk_fs :: fs where
  "sample_jdk_fs = \<lparr>fs_read = (\<lambda>_. None), fs_len = (\<lambda>_. None),
     fs_is_file = (\<lambda>p. p \<in> {''/usr/lib/jvm/jdk-17/jmods/java.base.jmod'', ''/usr/lib/jvm/jdk-21/jmods/java.base.jmod''}),
     fs_is_dir = (\<lambda>_. False),
     fs_read_dir = (\<lambda>d. if d = ''/usr/lib/jvm'' then Some (map (\<lambda>n. \<lparr>de_name = n, de_type = Some FtDir\<rparr>)
        [''jdk-17'', ''jdk-8'', ''jdk-21'', ''jdk-99'']) else None),
     fs_canonicalize = Some, fs_var = (\<lambda>_. None)\<rparr>"

theorem best_jdk_choice_witness: "best_jdk sample_jdk_fs = Some ''/usr/lib/jvm/jdk-21'' \<and> has_jmods sample_jdk_fs ''/usr/lib/jvm/jdk-21''"
proof -
  have c: "candidate_homes sample_jdk_fs = [''/usr/lib/jvm/jdk-17'', ''/usr/lib/jvm/jdk-8'', ''/usr/lib/jvm/jdk-21'', ''/usr/lib/jvm/jdk-99'']"
    "fs_var sample_jdk_fs ''JAVA_HOME'' = None"
    by code_simp+
  have u: "has_jmods sample_jdk_fs ''/usr/lib/jvm/jdk-17''" "\<not> has_jmods sample_jdk_fs ''/usr/lib/jvm/jdk-8''"
    "has_jmods sample_jdk_fs ''/usr/lib/jvm/jdk-21''" "\<not> has_jmods sample_jdk_fs ''/usr/lib/jvm/jdk-99''"
    by (simp_all add: has_jmods_def path_join_def sample_jdk_fs_def)
  have v: "unat (ranked_version sample_jdk_fs ''/usr/lib/jvm/jdk-17'') = 17"
    "unat (ranked_version sample_jdk_fs ''/usr/lib/jvm/jdk-21'') = 21"
    by (simp_all add: ranked_version_def jdk_feature_version_def read_to_string_def sample_jdk_fs_def major_version_def
        parse_uint_def is_digit_def digit_val_def)
  note choice = best_jdk_choice [of sample_jdk_fs "''/usr/lib/jvm/jdk-21''"]
  have "best_jdk sample_jdk_fs = Some ''/usr/lib/jvm/jdk-21''"
    using choice [THEN conjunct1] by (simp add: c u v)
  with choice [THEN conjunct2] show ?thesis by (simp only: simp_thms)
qed

end
