(* ===== verification/Classpath.thy ===== *)
theory Classpath
  imports Gradle_Resolver Type_Index Zip_Archive Jdk_Locator
begin

text \<open>
  \<open>crates/classpath/src/lib.rs\<close>: the classpath that the language server and the debugger query.

  A class file's contents are whatever \<open>ce_parse_class\<close> makes of its bytes (the class-file reader is
  third-party), so the model is polymorphic in the parsed class. Caches are partial functions and
  the lazily built index an option. A query returns its answer and the classpath with the caches
  updated; \<open>class_step\<close> below splits it into the locked sections, for many threads.
\<close>

section \<open>State\<close>

record archive =
  ar_zip :: zip_archive
  ar_prefix :: string

record source_archive =
  sa_zip :: zip_archive
  sa_suffix_match :: bool

record 'c classpath =
  cp_archives :: "archive list"
  cp_sources :: "source_archive list"
  cp_cache :: "string \<rightharpoonup> 'c option"
  cp_source_cache :: "string \<rightharpoonup> string option"
  cp_source_roots :: "string list"
  cp_degraded :: "string list"
  cp_entries :: "string list"
  cp_name_index :: "type_index option"

record 'c cp_env =
  ce_res :: resolver_env
  ce_inflate :: "bytes \<Rightarrow> nat \<Rightarrow> bytes option"
  ce_parse_class :: "bytes \<Rightarrow> 'c option"

abbreviation ce_fs :: "'c cp_env \<Rightarrow> fs" where
  "ce_fs env \<equiv> re_fs (ce_res env)"

definition cp_empty :: "'c classpath" where
  "cp_empty = \<lparr>cp_archives = [], cp_sources = [], cp_cache = Map.empty, cp_source_cache = Map.empty,
     cp_source_roots = [], cp_degraded = [], cp_entries = [], cp_name_index = None\<rparr>"

section \<open>Building a classpath\<close>

definition sources_jar_path :: "fs \<Rightarrow> string \<Rightarrow> string option" where
  "sources_jar_path fs jar =
     Option.bind (file_stem jar) (\<lambda>stem.
       let name = stem @ ''-sources.jar''; same_dir = with_file_name jar name in
       if fs_is_file fs same_dir then Some same_dir
       else Option.bind (Option.bind (parent jar) parent) (\<lambda>version_dir.
            Option.bind (fs_read_dir fs version_dir) (\<lambda>es.
              find (fs_is_file fs) (map (\<lambda>e. path_join (entry_path version_dir e) name) es))))"

definition add_sources :: "fs \<Rightarrow> string \<Rightarrow> bool \<Rightarrow> 'c classpath \<Rightarrow> 'c classpath" where
  "add_sources fs path suffix_match cp =
     (case zip_open fs path 0 of
        Some z \<Rightarrow> cp\<lparr>cp_sources := cp_sources cp @ [\<lparr>sa_zip = z, sa_suffix_match = suffix_match\<rparr>]\<rparr>
      | None \<Rightarrow> cp)"

definition add_jar :: "fs \<Rightarrow> string \<Rightarrow> 'c classpath \<Rightarrow> 'c classpath" where
  "add_jar fs path cp =
     (let cp = (case zip_open fs path 0 of
                  Some z \<Rightarrow> cp\<lparr>cp_archives := cp_archives cp @ [\<lparr>ar_zip = z, ar_prefix = []\<rparr>],
                                 cp_entries := cp_entries cp @ [path]\<rparr>
                | None \<Rightarrow> cp)
      in case sources_jar_path fs path of Some sources \<Rightarrow> add_sources fs sources False cp | None \<Rightarrow> cp)"

definition add_jmod :: "fs \<Rightarrow> string \<Rightarrow> 'c classpath \<Rightarrow> 'c classpath" where
  "add_jmod fs jmod cp =
     (case zip_open fs jmod 4 of
        Some z \<Rightarrow> cp\<lparr>cp_archives := cp_archives cp @ [\<lparr>ar_zip = z, ar_prefix = ''classes/''\<rparr>]\<rparr>
      | None \<Rightarrow> cp)"

definition from_jdk :: "fs \<Rightarrow> 'c classpath" where
  "from_jdk fs =
     (case best_jdk fs of
        None \<Rightarrow> cp_empty
      | Some home \<Rightarrow>
          add_sources fs (path_join home ''lib/src.zip'') True (fold (add_jmod fs) (jmods fs home) cp_empty))"

definition home_dir :: "fs \<Rightarrow> string option" where
  "home_dir fs = fs_var fs ''HOME''"

definition gradle_user_home :: "fs \<Rightarrow> string option" where
  "gradle_user_home fs =
     (case fs_var fs ''GRADLE_USER_HOME'' of
        Some dir \<Rightarrow> if dir \<noteq> [] then Some dir else map_option (\<lambda>h. path_join h ''.gradle'') (home_dir fs)
      | None \<Rightarrow> map_option (\<lambda>h. path_join h ''.gradle'') (home_dir fs))"

definition from_jdk_and_project :: "resolver_env \<Rightarrow> string option \<Rightarrow> 'c classpath" where
  "from_jdk_and_project env root =
     (let fs = re_fs env; cp = from_jdk fs in
      case (root, home_dir fs) of
        (Some root, Some home) \<Rightarrow>
          (let m2 = path_join home ''.m2/repository'';
               maven = maven_resolve_project env root m2;
               cp = fold (add_jar fs) (rp_jars maven) cp;
               cp = cp\<lparr>cp_source_roots := cp_source_roots cp @ rp_source_roots maven,
                       cp_degraded := cp_degraded cp @ rp_degraded maven\<rparr>;
               gradle_caches = path_join (unwrap_or (gradle_user_home fs) (path_join home ''.gradle'')) ''caches'';
               gradle = gradle_resolve_project env root gradle_caches m2;
               cp = fold (add_jar fs) (rp_jars gradle) cp
           in cp\<lparr>cp_degraded := cp_degraded cp @ rp_degraded gradle\<rparr>)
      | _ \<Rightarrow> cp)"

definition cp_is_empty :: "'c classpath \<Rightarrow> bool" where
  "cp_is_empty cp \<longleftrightarrow> cp_archives cp = []"

section \<open>Queries\<close>

fun load_from :: "'c cp_env \<Rightarrow> string \<Rightarrow> archive list \<Rightarrow> 'c option" where
  "load_from env path [] = None"
| "load_from env path (ar # ars) =
     (let entry = ar_prefix ar @ path @ ''.class'' in
      case (if zip_contains (ar_zip ar) entry
            then Option.bind (zip_read (ce_fs env) (ce_inflate env) (ar_zip ar) entry) (ce_parse_class env) else None) of
        Some info \<Rightarrow> Some info
      | None \<Rightarrow> load_from env path ars)"

definition cp_load :: "'c cp_env \<Rightarrow> 'c classpath \<Rightarrow> string \<Rightarrow> 'c option" where
  "cp_load env cp fqn = load_from env (replace_char (CHR ''.'') ''/'' fqn) (cp_archives cp)"

definition cp_class :: "'c cp_env \<Rightarrow> 'c classpath \<Rightarrow> string \<Rightarrow> 'c option \<times> 'c classpath" where
  "cp_class env cp fqn =
     (case cp_cache cp fqn of
        Some hit \<Rightarrow> (hit, cp)
      | None \<Rightarrow> (let result = cp_load env cp fqn in (result, cp\<lparr>cp_cache := (cp_cache cp)(fqn \<mapsto> result)\<rparr>)))"

definition indexed_names :: "'c classpath \<Rightarrow> (string \<times> bool) list" where
  "indexed_names cp =
     concat (map (\<lambda>ar. List.map_filter (\<lambda>name.
        map_option (\<lambda>n. (n, ar_prefix ar \<noteq> [])) (Option.bind (strip_prefix (ar_prefix ar) name) (strip_suffix ''.class'')))
        (zip_names (ar_zip ar))) (cp_archives cp))"

definition name_index :: "'c classpath \<Rightarrow> type_index \<times> 'c classpath" where
  "name_index cp =
     (case cp_name_index cp of
        Some idx \<Rightarrow> (idx, cp)
      | None \<Rightarrow> (let idx = build (indexed_names cp) in (idx, cp\<lparr>cp_name_index := Some idx\<rparr>)))"

definition cp_types_with_prefix :: "'c classpath \<Rightarrow> string \<Rightarrow> nat \<Rightarrow> (type_entry list \<times> bool) \<times> 'c classpath" where
  "cp_types_with_prefix cp prefix limit = (case name_index cp of (idx, cp) \<Rightarrow> (types_with_prefix idx prefix limit, cp))"

definition cp_package_children :: "'c classpath \<Rightarrow> string \<Rightarrow> (string list \<times> type_entry list) \<times> 'c classpath" where
  "cp_package_children cp package = (case name_index cp of (idx, cp) \<Rightarrow> (package_children idx package, cp))"

fun load_source_from :: "'c cp_env \<Rightarrow> string \<Rightarrow> source_archive list \<Rightarrow> string option" where
  "load_source_from env path [] = None"
| "load_source_from env path (src # srcs) =
     (case (if sa_suffix_match src then find_suffix (sa_zip src) (''/'' @ path @ ''.java'') else Some (path @ ''.java'')) of
        None \<Rightarrow> load_source_from env path srcs
      | Some name \<Rightarrow>
          (case (if zip_contains (sa_zip src) name
                 then Option.bind (zip_read (ce_fs env) (ce_inflate env) (sa_zip src) name) from_utf8 else None) of
             Some text \<Rightarrow> Some text
           | None \<Rightarrow> load_source_from env path srcs))"

definition load_source :: "'c cp_env \<Rightarrow> 'c classpath \<Rightarrow> string \<Rightarrow> string option" where
  "load_source env cp fqn =
     load_source_from env (hd (split_char (CHR ''$'') (replace_char (CHR ''.'') ''/'' fqn))) (cp_sources cp)"

definition cp_source :: "'c cp_env \<Rightarrow> 'c classpath \<Rightarrow> string \<Rightarrow> string option \<times> 'c classpath" where
  "cp_source env cp fqn =
     (case cp_source_cache cp fqn of
        Some hit \<Rightarrow> (hit, cp)
      | None \<Rightarrow> (let result = load_source env cp fqn in
                 (result, cp\<lparr>cp_source_cache := (cp_source_cache cp)(fqn \<mapsto> result)\<rparr>)))"

definition project_java_release :: "resolver_env \<Rightarrow> string \<Rightarrow> u32 option" where
  "project_java_release env root =
     (if fs_is_file (re_fs env) (path_join root ''pom.xml'') then
        Option.bind (home_dir (re_fs env)) (\<lambda>h. maven_compiler_release env root (path_join h ''.m2/repository''))
      else if fs_is_file (re_fs env) (path_join root ''build.gradle'')
              \<or> fs_is_file (re_fs env) (path_join root ''build.gradle.kts'') then gradle_compiler_release (re_fs env) root
      else None)"

section \<open>Missing dependencies\<close>

record degraded_coordinate =
  dc_group :: string
  dc_artifact :: string
  dc_version :: "string option"
  dc_reason :: "string option"

definition is_fetchable :: "degraded_coordinate \<Rightarrow> bool" where
  "is_fetchable d \<longleftrightarrow> dc_reason d = None \<and> dc_version d \<noteq> None"

definition is_plain_segment :: "string \<Rightarrow> bool" where
  "is_plain_segment s \<longleftrightarrow> s \<noteq> [] \<and> \<not> has_whitespace s"

text \<open>\<open>str::rfind\<close>: the byte index of the last occurrence.\<close>

fun rfind_sub :: "string \<Rightarrow> string \<Rightarrow> nat option" where
  "rfind_sub p [] = (if p = [] then Some 0 else None)"
| "rfind_sub p (c # s) =
     (case rfind_sub p s of
        Some i \<Rightarrow> Some (Suc i)
      | None \<Rightarrow> if starts_with p (c # s) then Some 0 else None)"

definition split_reason :: "string \<Rightarrow> (string \<times> string option) option" where
  "split_reason entry =
     (case strip_suffix '')'' entry of
        Some without_close \<Rightarrow>
          map_option (\<lambda>open. (take open without_close, Some (drop (open + 2) without_close)))
            (rfind_sub '' ('' without_close)
      | None \<Rightarrow> Some (entry, None))"

definition parse_degraded_entry :: "string \<Rightarrow> degraded_coordinate option" where
  "parse_degraded_entry entry =
     Option.bind (split_reason entry) (\<lambda>(base, reason).
       case split_char (CHR '':'') base of
         [g, a, v] \<Rightarrow>
           if is_plain_segment g \<and> is_plain_segment a \<and> is_plain_segment v
           then Some \<lparr>dc_group = g, dc_artifact = a, dc_version = Some v, dc_reason = reason\<rparr> else None
       | [g, a] \<Rightarrow>
           if reason \<noteq> None \<and> is_plain_segment g \<and> is_plain_segment a
           then Some \<lparr>dc_group = g, dc_artifact = a, dc_version = None, dc_reason = reason\<rparr> else None
       | _ \<Rightarrow> None)"

definition missing_dependencies :: "'c classpath \<Rightarrow> degraded_coordinate list" where
  "missing_dependencies cp = List.map_filter parse_degraded_entry (cp_degraded cp)"

section \<open>Build output directories\<close>

definition OUTPUT_DIR_WALK_MAX_DEPTH :: nat where "OUTPUT_DIR_WALK_MAX_DEPTH = 8"

definition OUTPUT_DIR_WALK_MAX_DIRS :: nat where "OUTPUT_DIR_WALK_MAX_DIRS = 4096"

definition is_gradle_module :: "fs \<Rightarrow> string \<Rightarrow> bool" where
  "is_gradle_module fs m \<longleftrightarrow> fs_is_file fs (path_join m ''build.gradle'') \<or> fs_is_file fs (path_join m ''build.gradle.kts'')"

definition main_outputs :: "fs \<Rightarrow> string \<Rightarrow> string list" where
  "main_outputs fs m =
     (if fs_is_file fs (path_join m ''pom.xml'') then [path_join m ''target/classes''] else [])
     @ (if is_gradle_module fs m then [path_join m ''build/classes/java/main'', path_join m ''build/resources/main''] else [])"

definition test_outputs :: "fs \<Rightarrow> string \<Rightarrow> string list" where
  "test_outputs fs m =
     (if fs_is_file fs (path_join m ''pom.xml'') then [path_join m ''target/test-classes''] else [])
     @ (if is_gradle_module fs m then [path_join m ''build/classes/java/test'', path_join m ''build/resources/test''] else [])"

definition walked_entry :: "dir_entry \<Rightarrow> bool" where
  "walked_entry e \<longleftrightarrow> de_type e = Some FtDir \<and> \<not> starts_with ''.'' (de_name e)
     \<and> de_name e \<notin> {''target'', ''build'', ''node_modules''}"

text \<open>The directories that a visited one puts on the stack, the last one on top.\<close>

definition subdirs :: "fs \<Rightarrow> string \<Rightarrow> nat \<Rightarrow> (string \<times> nat) list" where
  "subdirs fs dir depth =
     (if depth \<ge> OUTPUT_DIR_WALK_MAX_DEPTH then []
      else case fs_read_dir fs dir of
          None \<Rightarrow> []
        | Some es \<Rightarrow> map (\<lambda>e. (entry_path dir e, depth + 1)) (filter walked_entry es))"

text \<open>The stack is a list whose head is its top.\<close>

function walk_loop :: "fs \<Rightarrow> (string \<Rightarrow> string list) \<Rightarrow> (string \<times> nat) list \<Rightarrow> nat \<Rightarrow> string list \<Rightarrow> string list" where
  "walk_loop fs push_candidates [] visited out = out"
| "walk_loop fs push_candidates ((dir, depth) # stack) visited out =
     (if visited \<ge> OUTPUT_DIR_WALK_MAX_DIRS then out
      else walk_loop fs push_candidates (rev (subdirs fs dir depth) @ stack) (visited + 1) (out @ push_candidates dir))"
  by pat_completeness auto
termination
  by (relation "measure (\<lambda>(_, _, _, visited, _). OUTPUT_DIR_WALK_MAX_DIRS - visited)") auto

declare walk_loop.simps(2) [simp del]

definition walk_module_dirs :: "fs \<Rightarrow> string \<Rightarrow> (string \<Rightarrow> string list) \<Rightarrow> string list" where
  "walk_module_dirs fs root push_candidates = walk_loop fs push_candidates [(root, 0)] 0 []"

definition module_output_dirs :: "fs \<Rightarrow> string \<Rightarrow> string list" where
  "module_output_dirs fs root = walk_module_dirs fs root (main_outputs fs)"

definition module_test_output_dirs :: "fs \<Rightarrow> string \<Rightarrow> string list" where
  "module_test_output_dirs fs root = walk_module_dirs fs root (test_outputs fs)"

section \<open>Caches are transparent\<close>

text \<open>
  The interface of a result cache over a state: what is computed, what is found, what storing does.
  Storing does not change what is computed; then looking up before computing changes no answer.
\<close>

locale memo =
  fixes compute :: "'s \<Rightarrow> 'k \<Rightarrow> 'v" and found :: "'s \<Rightarrow> 'k \<Rightarrow> 'v option" and store :: "'k \<Rightarrow> 'v \<Rightarrow> 's \<Rightarrow> 's"
  assumes found_store: "found (store k v s) k' = (if k' = k then Some v else found s k')"
    and compute_store: "compute (store k v s) = compute s"
begin

lemma memo_get:
  assumes "\<And>k v. found s k = Some v \<Longrightarrow> v = compute s k"
    and "(case found s k of Some v \<Rightarrow> (v, s) | None \<Rightarrow> (compute s k, store k (compute s k) s)) = (r, s')"
  shows "r = compute s k \<and> compute s' = compute s \<and> (\<forall>k v. found s' k = Some v \<longrightarrow> v = compute s' k)"
  using assms by (auto simp: found_store compute_store split: option.splits if_splits)

end

interpretation classes: memo "cp_load env" cp_cache "\<lambda>k v cp. cp\<lparr>cp_cache := (cp_cache cp)(k \<mapsto> v)\<rparr>" for env
  by unfold_locales (auto simp: cp_load_def)

interpretation sources: memo "load_source env" cp_source_cache "\<lambda>k v cp. cp\<lparr>cp_source_cache := (cp_source_cache cp)(k \<mapsto> v)\<rparr>"
  for env
  by unfold_locales (auto simp: load_source_def)

interpretation names: memo "\<lambda>cp (_ :: unit). build (indexed_names cp)" "\<lambda>cp _. cp_name_index cp"
    "\<lambda>_ v cp. cp\<lparr>cp_name_index := Some v\<rparr>"
  by unfold_locales (auto simp: indexed_names_def)

definition coherent :: "'c cp_env \<Rightarrow> 'c classpath \<Rightarrow> bool" where
  "coherent env cp \<longleftrightarrow> (\<forall>k v. cp_cache cp k = Some v \<longrightarrow> v = cp_load env cp k)
     \<and> (\<forall>k v. cp_source_cache cp k = Some v \<longrightarrow> v = load_source env cp k)
     \<and> (\<forall>idx. cp_name_index cp = Some idx \<longrightarrow> idx = build (indexed_names cp))"

datatype query = QClass string | QSource string | QTypes string nat | QChildren string

datatype 'c answer = AClass "'c option" | ASource "string option" | ATypes "type_entry list \<times> bool"
  | AChildren "string list \<times> type_entry list"

fun run_query :: "'c cp_env \<Rightarrow> 'c classpath \<Rightarrow> query \<Rightarrow> 'c answer \<times> 'c classpath" where
  "run_query env cp (QClass fqn) = (case cp_class env cp fqn of (r, cp) \<Rightarrow> (AClass r, cp))"
| "run_query env cp (QSource fqn) = (case cp_source env cp fqn of (r, cp) \<Rightarrow> (ASource r, cp))"
| "run_query env cp (QTypes prefix limit) = (case cp_types_with_prefix cp prefix limit of (r, cp) \<Rightarrow> (ATypes r, cp))"
| "run_query env cp (QChildren package) = (case cp_package_children cp package of (r, cp) \<Rightarrow> (AChildren r, cp))"

fun run_queries :: "'c cp_env \<Rightarrow> 'c classpath \<Rightarrow> query list \<Rightarrow> 'c answer list" where
  "run_queries env cp [] = []"
| "run_queries env cp (q # qs) = (case run_query env cp q of (a, cp') \<Rightarrow> a # run_queries env cp' qs)"

text \<open>The specification: a classpath is its archives, and every query is answered from them.\<close>

fun spec_answer :: "'c cp_env \<Rightarrow> 'c classpath \<Rightarrow> query \<Rightarrow> 'c answer" where
  "spec_answer env cp (QClass fqn) = AClass (cp_load env cp fqn)"
| "spec_answer env cp (QSource fqn) = ASource (load_source env cp fqn)"
| "spec_answer env cp (QTypes prefix limit) = ATypes (types_with_prefix (build (indexed_names cp)) prefix limit)"
| "spec_answer env cp (QChildren package) = AChildren (package_children (build (indexed_names cp)) package)"

definition same_archives :: "'c classpath \<Rightarrow> 'c classpath \<Rightarrow> bool" where
  "same_archives cp cp' \<longleftrightarrow> cp_archives cp' = cp_archives cp \<and> cp_sources cp' = cp_sources cp"

lemma spec_answer_archives: "same_archives cp cp' \<Longrightarrow> spec_answer env cp' = spec_answer env cp"
proof
  fix q assume "same_archives cp cp'"
  then show "spec_answer env cp' q = spec_answer env cp q"
    by (cases q) (simp_all add: same_archives_def cp_load_def load_source_def indexed_names_def)
qed

lemma loads_archives:
  assumes "same_archives cp cp'"
  shows "cp_load env cp' = cp_load env cp" "load_source env cp' = load_source env cp" "indexed_names cp' = indexed_names cp"
  using assms by (simp_all add: same_archives_def cp_load_def load_source_def indexed_names_def fun_eq_iff)

lemma cp_class_coherent:
  assumes "coherent env cp" "cp_class env cp fqn = (r, cp')"
  shows "r = cp_load env cp fqn \<and> coherent env cp' \<and> same_archives cp cp'"
proof -
  have frame: "same_archives cp cp'" "cp_source_cache cp' = cp_source_cache cp" "cp_name_index cp' = cp_name_index cp"
    using assms(2) by (auto simp: cp_class_def Let_def same_archives_def split: option.splits)
  have "r = cp_load env cp fqn \<and> cp_load env cp' = cp_load env cp \<and> (\<forall>k v. cp_cache cp' k = Some v \<longrightarrow> v = cp_load env cp' k)"
    by (rule classes.memo_get) (use assms in \<open>auto simp: coherent_def cp_class_def Let_def split: option.splits\<close>)
  then show ?thesis using frame assms(1) loads_archives [OF frame(1)] by (simp add: coherent_def)
qed

lemma cp_source_coherent:
  assumes "coherent env cp" "cp_source env cp fqn = (r, cp')"
  shows "r = load_source env cp fqn \<and> coherent env cp' \<and> same_archives cp cp'"
proof -
  have frame: "same_archives cp cp'" "cp_cache cp' = cp_cache cp" "cp_name_index cp' = cp_name_index cp"
    using assms(2) by (auto simp: cp_source_def Let_def same_archives_def split: option.splits)
  have "r = load_source env cp fqn \<and> load_source env cp' = load_source env cp
      \<and> (\<forall>k v. cp_source_cache cp' k = Some v \<longrightarrow> v = load_source env cp' k)"
    by (rule sources.memo_get) (use assms in \<open>auto simp: coherent_def cp_source_def Let_def split: option.splits\<close>)
  then show ?thesis using frame assms(1) loads_archives [OF frame(1)] by (simp add: coherent_def)
qed

lemma name_index_coherent:
  assumes "coherent env cp" "name_index cp = (idx, cp')"
  shows "idx = build (indexed_names cp) \<and> coherent env cp' \<and> same_archives cp cp'"
proof -
  have frame: "same_archives cp cp'" "cp_cache cp' = cp_cache cp" "cp_source_cache cp' = cp_source_cache cp"
    using assms(2) by (auto simp: name_index_def Let_def same_archives_def split: option.splits)
  have "idx = build (indexed_names cp) \<and> (\<lambda>_ :: unit. build (indexed_names cp')) = (\<lambda>_. build (indexed_names cp))
      \<and> (\<forall>(k :: unit) v. cp_name_index cp' = Some v \<longrightarrow> v = build (indexed_names cp'))"
    by (rule names.memo_get) (use assms in \<open>auto simp: coherent_def name_index_def Let_def split: option.splits\<close>)
  then show ?thesis using frame assms(1) loads_archives [OF frame(1)] by (simp add: coherent_def)
qed

lemma run_query_refines:
  assumes "coherent env cp" "run_query env cp q = (a, cp')"
  shows "a = spec_answer env cp q \<and> coherent env cp' \<and> same_archives cp cp'"
proof (cases q)
  case (QClass fqn)
  then show ?thesis using assms cp_class_coherent by (fastforce split: prod.splits)
next
  case (QSource fqn)
  then show ?thesis using assms cp_source_coherent by (fastforce split: prod.splits)
next
  case (QTypes prefix limit)
  then show ?thesis using assms name_index_coherent by (fastforce simp: cp_types_with_prefix_def split: prod.splits)
next
  case (QChildren package)
  then show ?thesis using assms name_index_coherent by (fastforce simp: cp_package_children_def split: prod.splits)
qed

lemma run_queries_refines: "coherent env cp \<Longrightarrow> run_queries env cp qs = map (spec_answer env cp) qs"
proof (induction qs arbitrary: cp)
  case (Cons q qs)
  obtain a cp' where r: "run_query env cp q = (a, cp')" by (cases "run_query env cp q")
  then show ?case using run_query_refines [OF Cons.prems r] Cons.IH [of cp'] spec_answer_archives [of cp cp' env] by simp
qed simp

text \<open>A classpath comes out of its construction with nothing cached.\<close>

definition uncached :: "'c classpath \<Rightarrow> bool" where
  "uncached cp \<longleftrightarrow> cp_cache cp = Map.empty \<and> cp_source_cache cp = Map.empty \<and> cp_name_index cp = None"

lemma uncached_coherent: "uncached cp \<Longrightarrow> coherent env cp"
  by (simp add: uncached_def coherent_def)

lemma uncached_steps [simp]:
  "uncached cp_empty"
  "uncached cp \<Longrightarrow> uncached (add_jar fs path cp)"
  "uncached cp \<Longrightarrow> uncached (add_jmod fs path cp)"
  "uncached cp \<Longrightarrow> uncached (add_sources fs path b cp)"
  by (auto simp: uncached_def cp_empty_def add_jar_def add_jmod_def add_sources_def Let_def split: option.splits)

lemma uncached_fold:
  "uncached cp \<Longrightarrow> uncached (fold (add_jar fs) jars cp)"
  "uncached cp \<Longrightarrow> uncached (fold (add_jmod fs) jars cp)"
  by (induction jars arbitrary: cp) simp_all

lemma uncached_update:
  "uncached cp \<Longrightarrow> uncached (cp\<lparr>cp_source_roots := a, cp_degraded := b\<rparr>)"
  "uncached cp \<Longrightarrow> uncached (cp\<lparr>cp_degraded := b\<rparr>)"
  "uncached cp \<Longrightarrow> uncached (cp\<lparr>cp_source_roots := a\<rparr>)"
  by (simp_all add: uncached_def)

lemma from_jdk_and_project_uncached: "uncached (from_jdk_and_project env root)"
  by (auto simp: from_jdk_and_project_def from_jdk_def Let_def intro!: uncached_update uncached_fold uncached_steps split: option.splits)

text \<open>
  C26. The caches of a classpath are invisible: for the classpath of any project, any sequence of
  queries for classes, sources, type names and packages, in any order and with any repetition, is
  answered as the archives alone determine, query by query; hits, misses cached as misses, and the
  index that is built once never change an answer.
\<close>

theorem classpath_refines_archives:
  "run_queries env (from_jdk_and_project (ce_res env) root) qs =
     map (spec_answer env (from_jdk_and_project (ce_res env) root)) qs"
  by (rule run_queries_refines) (rule uncached_coherent [OF from_jdk_and_project_uncached])

section \<open>Many threads\<close>

text \<open>
  \<open>class\<close> takes the read lock to look up, no lock to load, and the write lock to insert. \<open>pending\<close>
  holds the loads of the threads between their two locked sections; a step may answer a query.
\<close>

inductive class_step :: "'c cp_env \<Rightarrow> 'c classpath \<times> (string \<times> 'c option) list \<Rightarrow> (string \<times> 'c option) option
    \<Rightarrow> 'c classpath \<times> (string \<times> 'c option) list \<Rightarrow> bool" for env where
  hit: "cp_cache cp fqn = Some r \<Longrightarrow> class_step env (cp, pending) (Some (fqn, r)) (cp, pending)"
| miss: "cp_cache cp fqn = None \<Longrightarrow> class_step env (cp, pending) None (cp, (fqn, cp_load env cp fqn) # pending)"
| insert: "class_step env (cp, xs @ (fqn, r) # ys) (Some (fqn, r)) (cp\<lparr>cp_cache := (cp_cache cp)(fqn \<mapsto> r)\<rparr>, xs @ ys)"

inductive class_run :: "'c cp_env \<Rightarrow> 'c classpath \<times> (string \<times> 'c option) list \<Rightarrow> (string \<times> 'c option) list
    \<Rightarrow> 'c classpath \<times> (string \<times> 'c option) list \<Rightarrow> bool" for env where
  idle: "class_run env st [] st"
| step: "class_run env st as st' \<Longrightarrow> class_step env st' a st'' \<Longrightarrow>
     class_run env st (as @ (case a of Some x \<Rightarrow> [x] | None \<Rightarrow> [])) st''"

definition threads_ok :: "'c cp_env \<Rightarrow> 'c classpath \<Rightarrow> 'c classpath \<times> (string \<times> 'c option) list \<Rightarrow> bool" where
  "threads_ok env cp0 st \<longleftrightarrow> cp_archives (fst st) = cp_archives cp0
     \<and> (\<forall>k v. cp_cache (fst st) k = Some v \<longrightarrow> v = cp_load env cp0 k)
     \<and> (\<forall>(k, v) \<in> set (snd st). v = cp_load env cp0 k)"

lemma uncached_threads_ok: "uncached cp \<Longrightarrow> threads_ok env cp (cp, [])"
  by (simp add: threads_ok_def uncached_def)

lemma class_step_ok:
  assumes "class_step env st a st'" "threads_ok env cp0 st"
  shows "threads_ok env cp0 st' \<and> (\<forall>k v. a = Some (k, v) \<longrightarrow> v = cp_load env cp0 k)"
  using assms(1)
proof cases
  case (miss cp fqn pending)
  then show ?thesis using assms(2) by (auto simp: threads_ok_def cp_load_def)
qed (use assms(2) in \<open>auto simp: threads_ok_def\<close>)

lemma class_run_ok:
  "class_run env st as st' \<Longrightarrow> threads_ok env cp0 st \<Longrightarrow>
   threads_ok env cp0 st' \<and> (\<forall>(k, v) \<in> set as. v = cp_load env cp0 k)"
proof (induction rule: class_run.induct)
  case (step st as st' a st'')
  then show ?case using class_step_ok [of env st' a st'' cp0] by (cases a) auto
qed simp

text \<open>
  Concurrent lookups agree: however many threads look up classes, and however their cache reads,
  loads and inserts interleave, every answer any of them gets is the class that the archives define
  for its name; a lookup that races with another one never sees a different or a half-made result.
\<close>

theorem concurrent_lookups_agree:
  assumes "class_run env (from_jdk_and_project (ce_res env) root, []) answers st" "(fqn, r) \<in> set answers"
  shows "r = cp_load env (from_jdk_and_project (ce_res env) root) fqn"
proof -
  have "uncached (from_jdk_and_project (ce_res env) root)" by (rule from_jdk_and_project_uncached)
  from class_run_ok [OF assms(1) uncached_threads_ok [OF this]] show ?thesis using assms(2) by auto
qed

section \<open>The resolver's messages read back\<close>

lemma rfind_sub_last:
  assumes "\<not> contains_sub p (drop 1 (p @ s))" "p \<noteq> []"
  shows "rfind_sub p (b @ p @ s) = Some (length b)"
proof (induction b)
  case Nil
  have none: "rfind_sub p t = None" if "\<not> contains_sub p t" for t
    using that by (induction t) (auto simp: contains_sub_def split: if_splits option.splits)
  obtain c p' where p: "p = c # p'" using assms(2) by (cases p) auto
  then have "rfind_sub p (p' @ s) = None" using none assms(1) by simp
  then show ?case using p starts_with_append [of p s] by simp
qed simp

text \<open>A message is a base text and, after a blank, a reason in parentheses.\<close>

lemma split_reason_paren:
  assumes "\<not> contains_sub '' ('' (''('' @ reason)"
  shows "split_reason (base @ '' ('' @ reason @ '')'') = Some (base, Some reason)"
proof -
  have "strip_suffix '')'' (base @ '' ('' @ reason @ '')'') = Some (base @ '' ('' @ reason)"
    by (simp add: strip_suffix_def ends_with_def)
  moreover have "rfind_sub '' ('' (base @ '' ('' @ reason) = Some (length base)"
    by (rule rfind_sub_last) (use assms in simp_all)
  ultimately show ?thesis by (simp add: split_reason_def)
qed

lemma split_reason_plain: "s = [] \<or> last s \<noteq> CHR '')'' \<Longrightarrow> split_reason s = Some (s, None)"
  by (auto simp: split_reason_def strip_suffix_def ends_with_def dest!: arg_cong [of _ _ last])

definition coord_part :: "string \<Rightarrow> bool" where
  "coord_part s \<longleftrightarrow> is_plain_segment s \<and> CHR '':'' \<notin> set s"

lemma parse_degraded_reason:
  assumes "coord_part g" "coord_part a" "coord_part v" "\<not> contains_sub '' ('' (''('' @ reason)"
  shows "parse_degraded_entry (g @ '':'' @ a @ '':'' @ v @ '' ('' @ reason @ '')'') =
    Some \<lparr>dc_group = g, dc_artifact = a, dc_version = Some v, dc_reason = Some reason\<rparr>"
proof -
  have "split_reason ((g @ CHR '':'' # (a @ CHR '':'' # v)) @ '' ('' @ reason @ '')'') =
      Some (g @ CHR '':'' # (a @ CHR '':'' # v), Some reason)"
    by (rule split_reason_paren [OF assms(4)])
  moreover have "split_char (CHR '':'') (g @ CHR '':'' # (a @ CHR '':'' # v)) = [g, a, v]"
    unfolding split_char_sep using assms by (simp add: coord_part_def split_char_none)
  ultimately show ?thesis using assms by (simp add: parse_degraded_entry_def coord_part_def)
qed

lemma reason_ok: "CHR ''('' \<notin> set r \<Longrightarrow> \<not> contains_sub '' ('' (''('' @ r)"
  by (auto simp: contains_sub_iff append_eq_Cons_conv Cons_eq_append_conv)

text \<open>
  What the resolver reports, the missing-dependency request understands. For a coordinate whose
  parts are free of blanks and colons, each message that the resolvers record reads back as that
  coordinate: a plain one, as for a missing jar or pom, as fetchable; a dynamic version, an exceeded
  depth and an unsupported classifier with their reason; an unresolved version without a version;
  and none of the latter is fetchable.
\<close>

theorem degraded_messages_read_back:
  assumes "coord_part g" "coord_part a" "coord_part v" "coord_part c" "CHR ''('' \<notin> set c" "last v \<noteq> CHR '')''"
    and "seed_key s = (g, a)" "sd_version s = v"
    and "dep_key dep = (g, a)" "rd_version dep = Some v"
  shows "parse_degraded_entry (seed_coord s) = Some \<lparr>dc_group = g, dc_artifact = a, dc_version = Some v, dc_reason = None\<rparr>
    \<and> parse_degraded_entry (max_depth_exceeded s) =
        Some \<lparr>dc_group = g, dc_artifact = a, dc_version = Some v, dc_reason = Some ''max depth exceeded''\<rparr>
    \<and> parse_degraded_entry (dynamic_unsupported (g, a, v)) =
        Some \<lparr>dc_group = g, dc_artifact = a, dc_version = Some v, dc_reason = Some ''dynamic version unsupported''\<rparr>
    \<and> parse_degraded_entry (classifier_skip dep c) =
        Some \<lparr>dc_group = g, dc_artifact = a, dc_version = Some v, dc_reason = Some (''classifier '' @ c @ '' unsupported'')\<rparr>
    \<and> parse_degraded_entry (unresolved_version dep) =
        Some \<lparr>dc_group = g, dc_artifact = a, dc_version = None, dc_reason = Some ''unresolved version''\<rparr>
    \<and> (\<forall>d. parse_degraded_entry (seed_coord s) = Some d \<longrightarrow> is_fetchable d)"
proof (intro conjI)
  have s: "sd_group s = g" "sd_artifact s = a" and d: "rd_group dep = g" "rd_artifact dep = a"
    using assms(7,9) by (simp_all add: seed_key_def dep_key_def)
  note paren = parse_degraded_reason [OF assms(1-3)]
  have three: "split_char (CHR '':'') (g @ CHR '':'' # (a @ CHR '':'' # v)) = [g, a, v]"
    unfolding split_char_sep using assms by (simp add: coord_part_def split_char_none)
  have "v \<noteq> []" using assms(3) by (simp add: coord_part_def is_plain_segment_def)
  then have "split_reason (g @ CHR '':'' # (a @ CHR '':'' # v)) = Some (g @ CHR '':'' # (a @ CHR '':'' # v), None)"
    using assms(6) by (intro split_reason_plain) simp
  then show plain: "parse_degraded_entry (seed_coord s) = Some \<lparr>dc_group = g, dc_artifact = a, dc_version = Some v, dc_reason = None\<rparr>"
    using three assms s by (simp add: parse_degraded_entry_def seed_coord_def coord_str_def coord_part_def)
  show "\<forall>d. parse_degraded_entry (seed_coord s) = Some d \<longrightarrow> is_fetchable d"
    by (simp add: plain is_fetchable_def)
  show "parse_degraded_entry (max_depth_exceeded s) =
        Some \<lparr>dc_group = g, dc_artifact = a, dc_version = Some v, dc_reason = Some ''max depth exceeded''\<rparr>"
    using paren [OF reason_ok, of "''max depth exceeded''"] s assms(8)
    by (simp add: max_depth_exceeded_def seed_coord_def coord_str_def)
  show "parse_degraded_entry (dynamic_unsupported (g, a, v)) =
        Some \<lparr>dc_group = g, dc_artifact = a, dc_version = Some v, dc_reason = Some ''dynamic version unsupported''\<rparr>"
    using paren [OF reason_ok, of "''dynamic version unsupported''"]
    by (simp add: dynamic_unsupported_def)
  show "parse_degraded_entry (classifier_skip dep c) =
        Some \<lparr>dc_group = g, dc_artifact = a, dc_version = Some v, dc_reason = Some (''classifier '' @ c @ '' unsupported'')\<rparr>"
    using paren [OF reason_ok, of "''classifier '' @ c @ '' unsupported''"] d assms(5,10)
    by (simp add: classifier_skip_def unwrap_or_def)
  have "split_reason ((g @ CHR '':'' # a) @ '' ('' @ ''unresolved version'' @ '')'') = Some (g @ CHR '':'' # a, Some ''unresolved version'')"
    by (intro split_reason_paren reason_ok) simp
  moreover have "split_char (CHR '':'') (g @ CHR '':'' # a) = [g, a]"
    unfolding split_char_sep using assms by (simp add: coord_part_def split_char_none)
  ultimately show "parse_degraded_entry (unresolved_version dep) =
        Some \<lparr>dc_group = g, dc_artifact = a, dc_version = None, dc_reason = Some ''unresolved version''\<rparr>"
    using assms d by (simp add: parse_degraded_entry_def unresolved_version_def coord_part_def)
qed

section \<open>The walk for build outputs is bounded and stays in the project\<close>

text \<open>A directory that the walk may visit: reached from the root by real, visible subdirectories.\<close>

inductive module_dir :: "fs \<Rightarrow> string \<Rightarrow> string \<Rightarrow> nat \<Rightarrow> bool" for fs root where
  top: "module_dir fs root root 0"
| sub: "module_dir fs root dir depth \<Longrightarrow> depth < 8 \<Longrightarrow> fs_read_dir fs dir = Some es \<Longrightarrow> e \<in> set es \<Longrightarrow> walked_entry e
     \<Longrightarrow> module_dir fs root (entry_path dir e) (Suc depth)"

lemma module_dir_depth: "module_dir fs root dir depth \<Longrightarrow> depth \<le> 8"
  by (induction rule: module_dir.induct) auto

lemma subdirs_module_dir:
  "module_dir fs root dir depth \<Longrightarrow> (d, n) \<in> set (subdirs fs dir depth) \<Longrightarrow> module_dir fs root d n"
  by (auto simp: subdirs_def OUTPUT_DIR_WALK_MAX_DEPTH_def not_le intro: module_dir.sub [OF _ _ sym] split: if_splits option.splits)

lemma walk_loop_bounds:
  assumes "\<forall>(d, n) \<in> set stack. module_dir fs root d n" "\<And>m. length (push m) \<le> 3" "visited \<le> 4096"
  shows "\<exists>dirs. walk_loop fs push stack visited out = out @ concat (map push dirs) \<and> length dirs \<le> 4096 - visited
    \<and> list_all (\<lambda>d. \<exists>n \<le> 8. module_dir fs root d n) dirs"
  using assms(1,3)
proof (induction "4096 - visited" arbitrary: stack visited out)
  case 0
  then show ?case by (cases stack) (auto simp: walk_loop.simps OUTPUT_DIR_WALK_MAX_DIRS_def intro: exI [of _ "[]"])
next
  case (Suc k)
  show ?case
  proof (cases stack)
    case Nil
    then show ?thesis by (auto intro: exI [of _ "[]"])
  next
    case (Cons x rest)
    obtain d n where x: "x = (d, n)" by (cases x)
    have m: "module_dir fs root d n" using Suc.prems(1) Cons x by simp
    have "\<forall>(d, n) \<in> set (rev (subdirs fs d n) @ rest). module_dir fs root d n"
      using Suc.prems(1) Cons x subdirs_module_dir [OF m] by auto
    moreover have "k = 4096 - (visited + 1)" "visited + 1 \<le> 4096" "visited < 4096" using Suc.hyps(2) by simp_all
    ultimately obtain dirs where "walk_loop fs push (rev (subdirs fs d n) @ rest) (visited + 1) (out @ push d) =
        (out @ push d) @ concat (map push dirs)" "length dirs \<le> 4096 - (visited + 1)"
        "list_all (\<lambda>d. \<exists>n \<le> 8. module_dir fs root d n) dirs"
      using Suc.hyps(1) by blast
    then show ?thesis using Cons x m \<open>visited < 4096\<close> module_dir_depth [OF m]
      by (intro exI [of _ "d # dirs"]) (auto simp: walk_loop.simps OUTPUT_DIR_WALK_MAX_DIRS_def)
  qed
qed

lemma module_dir_inside:
  assumes "module_dir fs root dir depth" "plain_dirs fs" "root \<noteq> []"
  shows "inside root dir \<and> dir \<noteq> []"
  using assms(1)
proof (induction rule: module_dir.induct)
  case (sub dir depth es e)
  have n: "de_name e \<noteq> ''..''" "CHR ''/'' \<notin> set (de_name e)" using assms(2) sub by (auto simp: plain_dirs_def)
  then have "inside dir (entry_path dir e)" unfolding entry_path_def using sub.IH by (intro inside_join_name) auto
  then show ?case using sub.IH inside_trans path_join_nonempty by (auto simp: entry_path_def)
qed (use assms(3) in simp)

lemma outputs_inside:
  assumes "m \<noteq> []" "p \<in> set (main_outputs fs m) \<or> p \<in> set (test_outputs fs m)"
  shows "inside m p"
  using assms by (auto simp: main_outputs_def test_outputs_def is_absolute_def starts_with_def intro!: inside_join split: if_splits)

text \<open>
  Looking for build outputs is bounded and stays inside the project: at most 4,096 directories
  are visited, none more than eight levels down, every one reached by ordinary directories only
  (no symbolic links, hidden or build directories), and every candidate path, for main or for test
  classes, lies inside the root; there are at most three per directory.
\<close>

theorem module_output_dirs_bounded:
  assumes "plain_dirs fs" "root \<noteq> []"
  shows "length (module_output_dirs fs root) \<le> 3 * 4096 \<and> length (module_test_output_dirs fs root) \<le> 3 * 4096
    \<and> list_all (\<lambda>p. inside root p \<and> (\<exists>dir n. n \<le> 8 \<and> module_dir fs root dir n \<and> inside dir p))
        (module_output_dirs fs root @ module_test_output_dirs fs root)"
proof -
  have walk: "length (walk_module_dirs fs root push) \<le> 3 * 4096
      \<and> list_all (\<lambda>p. inside root p \<and> (\<exists>dir n. n \<le> 8 \<and> module_dir fs root dir n \<and> inside dir p)) (walk_module_dirs fs root push)"
    if three: "\<And>m. length (push m) \<le> 3" and ins: "\<And>m p. m \<noteq> [] \<Longrightarrow> p \<in> set (push m) \<Longrightarrow> inside m p" for push
  proof -
    obtain dirs where dirs: "walk_module_dirs fs root push = concat (map push dirs)" "length dirs \<le> 4096"
        "list_all (\<lambda>d. \<exists>n \<le> 8. module_dir fs root d n) dirs"
      using walk_loop_bounds [of "[(root, 0)]" fs root push 0 "[]"] three
      by (auto simp: walk_module_dirs_def intro: module_dir.top)
    have "length (concat (map push ds)) \<le> 3 * length ds" for ds
      using three by (induction ds) (auto intro: add_le_mono order_trans)
    then have "length (concat (map push dirs)) \<le> 3 * 4096" using dirs(2) by (meson le_trans mult_le_mono2)
    moreover have "inside root p \<and> (\<exists>dir n. n \<le> 8 \<and> module_dir fs root dir n \<and> inside dir p)"
      if p: "p \<in> set (concat (map push dirs))" for p
    proof -
      obtain d n where d: "p \<in> set (push d)" "n \<le> 8" "module_dir fs root d n"
        using p dirs(3) by (auto simp: list_all_iff)
      then have "inside root d" "d \<noteq> []" using module_dir_inside assms by blast+
      then show ?thesis using ins d inside_trans by blast
    qed
    ultimately show ?thesis using dirs(1) by (simp add: list_all_iff)
  qed
  have three: "length (main_outputs fs m) \<le> 3" "length (test_outputs fs m) \<le> 3" for m
    by (simp_all add: main_outputs_def test_outputs_def)
  have "length (walk_module_dirs fs root (main_outputs fs)) \<le> 3 * 4096
      \<and> list_all (\<lambda>p. inside root p \<and> (\<exists>dir n. n \<le> 8 \<and> module_dir fs root dir n \<and> inside dir p)) (walk_module_dirs fs root (main_outputs fs))"
    by (rule walk) (use three outputs_inside in blast)+
  moreover have "length (walk_module_dirs fs root (test_outputs fs)) \<le> 3 * 4096
      \<and> list_all (\<lambda>p. inside root p \<and> (\<exists>dir n. n \<le> 8 \<and> module_dir fs root dir n \<and> inside dir p)) (walk_module_dirs fs root (test_outputs fs))"
    by (rule walk) (use three outputs_inside in blast)+
  ultimately show ?thesis by (simp add: module_output_dirs_def module_test_output_dirs_def)
qed

section \<open>Inputs on which the theorems are applied\<close>

theorem module_output_dirs_bounded_witness:
  "length (module_output_dirs sample_gradle_fs ''/p'') \<le> 3 * 4096
   \<and> list_all (inside ''/p'') (module_output_dirs sample_gradle_fs ''/p'')
   \<and> ''/p/build/classes/java/main'' \<in> set (module_output_dirs sample_gradle_fs ''/p'')"
proof -
  have plain: "plain_dirs sample_gradle_fs" using sample_gradle_plain by (simp add: gradle_env_def)
  have "subdirs sample_gradle_fs ''/p'' 0 = []" by (simp add: subdirs_def sample_gradle_fs_def)
  then have "module_output_dirs sample_gradle_fs ''/p'' = main_outputs sample_gradle_fs ''/p''"
    by (simp add: module_output_dirs_def walk_module_dirs_def walk_loop.simps OUTPUT_DIR_WALK_MAX_DIRS_def)
  moreover have "main_outputs sample_gradle_fs ''/p'' = [''/p/build/classes/java/main'', ''/p/build/resources/main'']"
    by (simp add: main_outputs_def is_gradle_module_def path_join_def sample_gradle_fs_def)
  ultimately show ?thesis using module_output_dirs_bounded [OF plain, of "''/p''"] by simp
qed

definition sample_dep :: raw_dep where
  "sample_dep = \<lparr>rd_group = ''g'', rd_artifact = ''a'', rd_version = Some ''1'', rd_scope = ''compile'',
     rd_optional = False, rd_classifier = Some ''linux'', rd_exclusions = {}\<rparr>"

theorem degraded_messages_read_back_witness:
  "parse_degraded_entry ''g:a:1'' = Some \<lparr>dc_group = ''g'', dc_artifact = ''a'', dc_version = Some ''1'', dc_reason = None\<rparr>
   \<and> parse_degraded_entry ''g:a (unresolved version)'' =
     Some \<lparr>dc_group = ''g'', dc_artifact = ''a'', dc_version = None, dc_reason = Some ''unresolved version''\<rparr>"
proof -
  let ?s = "\<lparr>sd_group = ''g'', sd_artifact = ''a'', sd_version = ''1'', sd_exclusions = {}\<rparr>"
  have parts: "coord_part ''g''" "coord_part ''a''" "coord_part ''1''" "coord_part ''linux''" by code_simp+
  have texts: "seed_coord ?s = ''g:a:1''" "unresolved_version sample_dep = ''g:a (unresolved version)''"
    by (simp_all add: seed_coord_def coord_str_def unresolved_version_def sample_dep_def)
  show ?thesis
    using degraded_messages_read_back [OF parts, of ?s sample_dep] unfolding texts
    by (simp add: seed_key_def dep_key_def sample_dep_def)
qed

definition sample_cp_env :: "nat cp_env" where
  "sample_cp_env = \<lparr>ce_res = \<lparr>re_fs = sample_jdk_fs\<lparr>fs_read_dir := (\<lambda>_. None)\<rparr>, re_parse = (\<lambda>_. None), re_iter = (\<lambda>m. m)\<rparr>,
     ce_inflate = (\<lambda>_ _. None), ce_parse_class = (\<lambda>_. Some 0)\<rparr>"

theorem concurrent_lookups_agree_witness:
  "\<exists>st r. class_run sample_cp_env (from_jdk_and_project (ce_res sample_cp_env) None, []) [(''A'', r), (''A'', r)] st
    \<and> r = cp_load sample_cp_env (from_jdk_and_project (ce_res sample_cp_env) None) ''A''"
proof -
  let ?cp = "from_jdk_and_project (ce_res sample_cp_env) None"
  have fresh: "cp_cache ?cp ''A'' = None" using from_jdk_and_project_uncached by (metis uncached_def)
  define r where "r = cp_load sample_cp_env ?cp ''A''"
  have "class_run sample_cp_env (?cp, []) [] (?cp, [])" by (rule class_run.idle)
  from class_run.step [OF this class_step.miss [OF fresh]]
  have "class_run sample_cp_env (?cp, []) [] (?cp, [(''A'', r)])" by (simp add: r_def)
  from class_run.step [OF this class_step.miss [OF fresh]]
  have "class_run sample_cp_env (?cp, []) [] (?cp, [(''A'', r), (''A'', r)])" by (simp add: r_def)
  from class_run.step [OF this class_step.insert [of _ _ "[]", simplified]]
  have "\<exists>cp1. class_run sample_cp_env (?cp, []) [(''A'', r)] (cp1, [(''A'', r)])" by auto
  then obtain cp1 where "class_run sample_cp_env (?cp, []) [(''A'', r)] (cp1, [(''A'', r)])" ..
  from class_run.step [OF this class_step.insert [of _ _ "[]", simplified]]
  obtain st where run: "class_run sample_cp_env (?cp, []) [(''A'', r), (''A'', r)] st" by auto
  have "r = cp_load sample_cp_env ?cp ''A''" by (rule concurrent_lookups_agree [OF run]) simp
  then show ?thesis using run by blast
qed

end
