(* ===== verification/Launch.thy ===== *)
theory Launch
  imports Classpath
begin

text \<open>
  \<open>crates/debug/src/launch.rs\<close>: locating the JDK tools, finding source roots, and assembling the
  classpath of the debuggee, with the one-shot compilation as the last resort.

  What the code does to the outside goes through \<open>os\<close>, over an arbitrary world: the file system as it
  is at the moment, creating a directory, writing a file, and the \<open>javac\<close> child with its standard
  error. The executable suffix is the one of Unix. Walking for source files has no limit on
  directories, so it is a partial function (\<open>None\<close>: it does not return);
  \<open>collect_source_files_returns\<close> shows when it does.
\<close>

section \<open>Environment\<close>

datatype wait_result = Exited bool | StillRunning | WaitError

record 'w os =
  os_fs :: "'w \<Rightarrow> fs"
  os_parse :: "string \<Rightarrow> xnode option"
  os_iter :: "(string \<times> string) list \<Rightarrow> (string \<times> string) list"
  os_temp_dir :: "'w \<Rightarrow> string"
  os_pid :: nat
  os_subsec_nanos :: "'w \<Rightarrow> nat"
  os_create_dir :: "string \<Rightarrow> 'w \<Rightarrow> bool \<times> 'w"
  os_write :: "string \<Rightarrow> string \<Rightarrow> 'w \<Rightarrow> (string + unit) \<times> 'w"
  os_remove_dir_all :: "string \<Rightarrow> 'w \<Rightarrow> 'w"
  os_join_paths :: "string list \<Rightarrow> string + string"
  os_spawn :: "string \<Rightarrow> string list \<Rightarrow> 'w \<Rightarrow> (string + unit) \<times> 'w"
  os_try_wait :: "'w \<Rightarrow> wait_result \<times> 'w"
  os_kill_and_wait :: "'w \<Rightarrow> 'w"
  os_now :: "'w \<Rightarrow> nat"
  os_sleep :: "nat \<Rightarrow> 'w \<Rightarrow> 'w"
  os_stderr_reads :: "'w \<Rightarrow> bytes option list \<times> 'w"

definition os_resolver :: "'w os \<Rightarrow> 'w \<Rightarrow> resolver_env" where
  "os_resolver os w = \<lparr>re_fs = os_fs os w, re_parse = os_parse os, re_iter = os_iter os\<rparr>"

section \<open>The JDK tools\<close>

definition bin_exe :: "fs \<Rightarrow> string \<Rightarrow> string \<Rightarrow> string option" where
  "bin_exe fs home exe = existing_file fs (path_join (path_join home ''bin'') exe)"

definition locate_jdk_exe :: "fs \<Rightarrow> string option \<Rightarrow> string \<Rightarrow> string option" where
  "locate_jdk_exe fs jdk_home_override exe =
     (case jdk_home_override of
        Some home \<Rightarrow> bin_exe fs home exe
      | None \<Rightarrow>
          (case Option.bind (fs_var fs ''JAVA_HOME'') (\<lambda>home. bin_exe fs home exe) of
             Some candidate \<Rightarrow> Some candidate
           | None \<Rightarrow> Option.bind (best_jdk fs) (\<lambda>home. bin_exe fs home exe)))"

definition locate_java :: "fs \<Rightarrow> string option \<Rightarrow> string option" where
  "locate_java fs jdk_home_override = locate_jdk_exe fs jdk_home_override ''java''"

definition locate_javac :: "fs \<Rightarrow> string option \<Rightarrow> string option" where
  "locate_javac fs jdk_home_override = locate_jdk_exe fs jdk_home_override ''javac''"

section \<open>Source roots and source files\<close>

definition MODULE_MARKERS :: "string list" where
  "MODULE_MARKERS = [''pom.xml'', ''build.gradle'', ''build.gradle.kts'']"

definition CONVENTIONAL_SOURCE_SUBDIRS :: "string list" where
  "CONVENTIONAL_SOURCE_SUBDIRS = [''src/main/java'', ''src/test/java'']"

definition SKIPPED_DIR_NAMES :: "string list" where
  "SKIPPED_DIR_NAMES = [''target'', ''build'', ''.git'']"

definition MAX_MODULE_SCAN_DIRS :: nat where "MAX_MODULE_SCAN_DIRS = 50000"

definition MAX_SOURCE_FILES :: nat where "MAX_SOURCE_FILES = 10000"

definition COMPILE_TIMEOUT :: nat where "COMPILE_TIMEOUT = 120000"

definition POLL_INTERVAL :: nat where "POLL_INTERVAL = 50"

definition STDERR_CAP :: nat where "STDERR_CAP = 64 * 1024"

definition skipped_name :: "string \<Rightarrow> bool" where
  "skipped_name name \<longleftrightarrow> starts_with ''.'' name \<or> name \<in> set SKIPPED_DIR_NAMES"

definition scanned_subdirs :: "fs \<Rightarrow> string \<Rightarrow> string list" where
  "scanned_subdirs fs dir =
     (case fs_read_dir fs dir of
        None \<Rightarrow> []
      | Some es \<Rightarrow> map (entry_path dir) (filter (\<lambda>e. de_type e = Some FtDir \<and> \<not> skipped_name (de_name e)) es))"

definition is_module_dir :: "fs \<Rightarrow> string \<Rightarrow> string \<Rightarrow> bool" where
  "is_module_dir fs root dir \<longleftrightarrow> same_path dir root \<or> list_ex (\<lambda>m. fs_is_file fs (path_join dir m)) MODULE_MARKERS"

text \<open>\<open>seen\<close> is a set of paths, and paths are equal when their components are. It holds what
  \<open>roots\<close> holds, so one list stands for both.\<close>

definition add_root :: "fs \<Rightarrow> string list \<Rightarrow> string \<Rightarrow> string list" where
  "add_root fs roots candidate =
     (if fs_is_dir fs candidate \<and> \<not> list_ex (same_path candidate) roots then roots @ [candidate] else roots)"

definition module_roots :: "fs \<Rightarrow> string \<Rightarrow> string \<Rightarrow> string list \<Rightarrow> string list" where
  "module_roots fs root dir roots =
     (if is_module_dir fs root dir
      then foldl (add_root fs) roots (map (path_join dir) CONVENTIONAL_SOURCE_SUBDIRS) else roots)"

function discover_loop :: "fs \<Rightarrow> string \<Rightarrow> string list \<Rightarrow> nat \<Rightarrow> string list \<Rightarrow> string list" where
  "discover_loop fs root [] visited roots = roots"
| "discover_loop fs root (dir # stack) visited roots =
     (if visited \<ge> MAX_MODULE_SCAN_DIRS then roots
      else discover_loop fs root (rev (scanned_subdirs fs dir) @ stack) (visited + 1) (module_roots fs root dir roots))"
  by pat_completeness auto
termination
  by (relation "measure (\<lambda>(_, _, _, visited, _). MAX_MODULE_SCAN_DIRS - visited)") auto

declare discover_loop.simps(2) [simp del]

definition discover_source_roots :: "fs \<Rightarrow> string \<Rightarrow> string list" where
  "discover_source_roots fs root = discover_loop fs root [root] 0 []"

text \<open>The loop over the entries of one directory: \<open>Inl\<close> is the return when the limit is reached.\<close>

fun entries_loop :: "string \<Rightarrow> dir_entry list \<Rightarrow> string list \<Rightarrow> string list \<Rightarrow> string list + string list \<times> string list" where
  "entries_loop dir [] stack out = Inr (stack, out)"
| "entries_loop dir (e # es) stack out =
     (if length out \<ge> MAX_SOURCE_FILES then Inl out
      else if de_type e = None \<or> de_type e = Some FtSymlink \<or> skipped_name (de_name e) then entries_loop dir es stack out
      else let path = entry_path dir e in
        if de_type e = Some FtDir then entries_loop dir es (path # stack) out
        else if de_type e = Some FtFile \<and> extension path = Some ''java'' then entries_loop dir es stack (out @ [path])
        else entries_loop dir es stack out)"

text \<open>The walk of one root: \<open>Inl\<close> when the limit ends the whole collection.\<close>

partial_function (option) collect_loop :: "fs \<Rightarrow> string list \<Rightarrow> string list \<Rightarrow> (string list + string list) option" where
  "collect_loop fs stack out =
     (case stack of
        [] \<Rightarrow> Some (Inr out)
      | dir # rest \<Rightarrow>
          if length out \<ge> MAX_SOURCE_FILES then Some (Inl out)
          else case fs_read_dir fs dir of
              None \<Rightarrow> collect_loop fs rest out
            | Some es \<Rightarrow> (case entries_loop dir es rest out of
                Inl out' \<Rightarrow> Some (Inl out')
              | Inr (stack', out') \<Rightarrow> collect_loop fs stack' out'))"

fun collect_roots :: "fs \<Rightarrow> string list \<Rightarrow> string list \<Rightarrow> string list \<Rightarrow> string list option" where
  "collect_roots fs [] seen out = Some out"
| "collect_roots fs (root # roots) seen out =
     (if list_ex (same_path root) seen then collect_roots fs roots seen out
      else case collect_loop fs [root] out of
          None \<Rightarrow> None
        | Some (Inl out') \<Rightarrow> Some out'
        | Some (Inr out') \<Rightarrow> collect_roots fs roots (root # seen) out')"

definition collect_source_files :: "fs \<Rightarrow> string list \<Rightarrow> string list option" where
  "collect_source_files fs roots = collect_roots fs roots [] []"

section \<open>Running \<open>javac\<close>\<close>

definition escape_arg :: "string \<Rightarrow> string" where
  "escape_arg s = replace_char (CHR 0x22) [CHR 0x5C, CHR 0x22] (replace_char (CHR 0x5C) [CHR 0x5C, CHR 0x5C] s)"

definition argfile_content :: "string list \<Rightarrow> string" where
  "argfile_content files = concat (map (\<lambda>f. [CHR 0x22] @ escape_arg f @ [CHR 0x22, CHR 0x0A]) files)"

definition write_argfile :: "'w os \<Rightarrow> string \<Rightarrow> string list \<Rightarrow> 'w \<Rightarrow> (string + unit) \<times> 'w" where
  "write_argfile os path files w = os_write os path (argfile_content files) w"

text \<open>The thread that drains standard error: \<open>None\<close> in the list is a failed read.\<close>

fun drain_stderr :: "bytes option list \<Rightarrow> bytes \<Rightarrow> bytes" where
  "drain_stderr [] captured = captured"
| "drain_stderr (None # rs) captured = captured"
| "drain_stderr (Some chunk # rs) captured =
     (if chunk = [] then captured
      else drain_stderr rs (captured @ take (min (length chunk) (STDERR_CAP - length captured)) chunk))"

text \<open>The poll loop, with a number of rounds that the timeout cannot outlast; \<open>None\<close> of the outer
  option is running out of them, of the inner one the timeout or a failed wait.\<close>

fun poll_loop :: "'w os \<Rightarrow> nat \<Rightarrow> nat \<Rightarrow> 'w \<Rightarrow> (bool option \<times> 'w) option" where
  "poll_loop os start 0 w = None"
| "poll_loop os start (Suc n) w =
     (case os_try_wait os w of
        (Exited success, w) \<Rightarrow> Some (Some success, w)
      | (StillRunning, w) \<Rightarrow>
          if os_now os w - start \<ge> COMPILE_TIMEOUT then Some (None, os_kill_and_wait os w)
          else poll_loop os start n (os_sleep os POLL_INTERVAL w)
      | (WaitError, w) \<Rightarrow> Some (None, w))"

definition poll_rounds :: nat where
  "poll_rounds = COMPILE_TIMEOUT div POLL_INTERVAL + 2"

definition javac_args :: "string option \<Rightarrow> string \<Rightarrow> string \<Rightarrow> string list" where
  "javac_args joined scratch argfile =
     [''-g'', ''-proc:none'', ''-encoding'', ''UTF-8'']
     @ (case joined of Some cp \<Rightarrow> [''-cp'', cp] | None \<Rightarrow> [])
     @ [''-d'', scratch, ''@'' @ argfile]"

definition wait_javac :: "'w os \<Rightarrow> 'w \<Rightarrow> ((string + unit) \<times> 'w) option" where
  "wait_javac os w =
     (case poll_loop os (os_now os w) poll_rounds w of
        None \<Rightarrow> None
      | Some (status, w) \<Rightarrow>
          (case os_stderr_reads os w of (reads, w) \<Rightarrow>
             (let stderr = from_utf8_lossy (drain_stderr reads []) in
              Some (case status of
                      Some True \<Rightarrow> (Inr (), w)
                    | Some False \<Rightarrow> (Inl stderr, w)
                    | None \<Rightarrow> (Inl (''javac timed out after '' @ show_nat (COMPILE_TIMEOUT div 1000) @ ''s'' @ [CHR 0x0A] @ stderr), w)))))"

definition run_javac :: "'w os \<Rightarrow> string \<Rightarrow> string list \<Rightarrow> string list \<Rightarrow> string \<Rightarrow> 'w \<Rightarrow> ((string + unit) \<times> 'w) option" where
  "run_javac os javac sources jars scratch w =
     (let argfile = path_join scratch ''sources.txt'' in
      case write_argfile os argfile sources w of
        (Inl e, w) \<Rightarrow> Some (Inl (''could not write javac argfile: '' @ e), w)
      | (Inr _, w) \<Rightarrow>
          (case (if jars = [] then Inr None else map_sum id Some (os_join_paths os jars)) of
             Inl e \<Rightarrow> Some (Inl (''unrepresentable classpath entry: '' @ e), w)
           | Inr joined \<Rightarrow>
               (case os_spawn os javac (javac_args joined scratch argfile) w of
                  (Inl e, w) \<Rightarrow> Some (Inl (''could not run javac: '' @ e), w)
                | (Inr _, w) \<Rightarrow> wait_javac os w)))"

definition scratch_name :: "'w os \<Rightarrow> nat \<Rightarrow> 'w \<Rightarrow> string" where
  "scratch_name os k w =
     path_join (os_temp_dir os w)
       (''jvl-debug-'' @ show_nat (os_pid os) @ ''-'' @ show_nat (os_subsec_nanos os w) @ ''-'' @ show_nat k)"

fun try_scratch :: "'w os \<Rightarrow> nat list \<Rightarrow> 'w \<Rightarrow> string option \<times> 'w" where
  "try_scratch os [] w = (None, w)"
| "try_scratch os (k # ks) w =
     (let dir = scratch_name os k w in
      case os_create_dir os dir w of
        (True, w) \<Rightarrow> (Some dir, w)
      | (False, w) \<Rightarrow> try_scratch os ks w)"

definition create_fresh_scratch_dir :: "'w os \<Rightarrow> 'w \<Rightarrow> string option \<times> 'w" where
  "create_fresh_scratch_dir os w = try_scratch os [0..<8] w"

section \<open>Assembling the classpath\<close>

record launch_plan =
  lp_classpath :: "string list"
  lp_source_roots :: "string list"
  lp_scratch_dir :: "string option"

record launch_error =
  le_message :: string
  le_javac_stderr :: "string option"

definition classpath_error :: "string \<Rightarrow> launch_error" where
  "classpath_error message = \<lparr>le_message = message, le_javac_stderr = None\<rparr>"

definition quoted :: "string \<Rightarrow> string" where
  "quoted s = [CHR 0x22] @ s @ [CHR 0x22]"

definition no_class_paths :: string where
  "no_class_paths = ''No classPaths given and no projectRoot to derive them from. Set '' @ quoted ''classPaths''
     @ '' in launch.json or open a project folder.''"

definition no_jdk :: string where
  "no_jdk = ''Project is not built and no JDK was found for the auto-compile fallback. Set java-vsix-lite.jdk.home.''"

definition no_sources :: "string \<Rightarrow> string" where
  "no_sources root = ''No Java sources found under '' @ root @ '' (looked in src/main/java, src/test/java). ''
     @ ''Build the project with Maven/Gradle first or set '' @ quoted ''classPaths'' @ '' in launch.json.''"

definition no_scratch :: string where
  "no_scratch = ''Could not create a temporary directory for the auto-compile output.''"

definition build_failed :: string where
  "build_failed = ''Build failed. Fix compile errors or build the project with Maven/Gradle first.''"

definition merge_roots :: "string list \<Rightarrow> string list \<Rightarrow> string list" where
  "merge_roots roots discovered =
     foldl (\<lambda>rs d. if list_ex (same_path d) rs then rs else rs @ [d]) roots discovered"

definition existing_dirs :: "fs \<Rightarrow> string list \<Rightarrow> string list" where
  "existing_dirs fs dirs = filter (fs_is_dir fs) dirs"

text \<open>The last resort: compile all sources into a fresh directory. The class parser plays no part
  here, so the classpath is the one with no class contents.\<close>

definition auto_compile :: "'w os \<Rightarrow> string \<Rightarrow> string option \<Rightarrow> string list \<Rightarrow> string list \<Rightarrow> string list \<Rightarrow> 'w
    \<Rightarrow> ((launch_error + launch_plan) \<times> 'w) option" where
  "auto_compile os root jdk_home_override additional source_roots jars w =
     (case locate_javac (os_fs os w) jdk_home_override of
        None \<Rightarrow> Some (Inl (classpath_error no_jdk), w)
      | Some javac \<Rightarrow>
          (case collect_source_files (os_fs os w) source_roots of
             None \<Rightarrow> None
           | Some sources \<Rightarrow>
               if sources = [] then Some (Inl (classpath_error (no_sources root)), w)
               else (case create_fresh_scratch_dir os w of
                       (None, w) \<Rightarrow> Some (Inl (classpath_error no_scratch), w)
                     | (Some scratch, w) \<Rightarrow>
                         (case run_javac os javac sources jars scratch w of
                            None \<Rightarrow> None
                          | Some (Inr _, w) \<Rightarrow>
                              Some (Inr \<lparr>lp_classpath = additional @ scratch # jars, lp_source_roots = source_roots,
                                        lp_scratch_dir = Some scratch\<rparr>, w)
                          | Some (Inl stderr, w) \<Rightarrow>
                              Some (Inl \<lparr>le_message = build_failed, le_javac_stderr = Some stderr\<rparr>,
                                    os_remove_dir_all os scratch w)))))"

definition assemble_classpath :: "'w os \<Rightarrow> string option \<Rightarrow> string list \<Rightarrow> bool \<Rightarrow> string list \<Rightarrow> string option \<Rightarrow> 'w
    \<Rightarrow> ((launch_error + launch_plan) \<times> 'w) option" where
  "assemble_classpath os project_root explicit_class_paths include_test_outputs additional_class_paths jdk_home_override w =
     (let fs = os_fs os w in
      if explicit_class_paths \<noteq> [] then
        Some (Inr \<lparr>lp_classpath = additional_class_paths @ explicit_class_paths,
                  lp_source_roots = (case project_root of Some root \<Rightarrow> discover_source_roots fs root | None \<Rightarrow> []),
                  lp_scratch_dir = None\<rparr>, w)
      else case project_root of
          None \<Rightarrow> Some (Inl (classpath_error no_class_paths), w)
        | Some root \<Rightarrow>
            (let cp = from_jdk_and_project (os_resolver os w) (Some root) :: unit classpath;
                 source_roots = merge_roots (cp_source_roots cp) (discover_source_roots fs root);
                 existing_outputs = existing_dirs fs (module_output_dirs fs root);
                 existing_test_outputs = (if include_test_outputs then existing_dirs fs (module_test_output_dirs fs root) else [])
             in if existing_outputs \<noteq> [] \<and> (\<not> include_test_outputs \<or> existing_test_outputs \<noteq> []) then
                  Some (Inr \<lparr>lp_classpath = additional_class_paths @ existing_outputs @ existing_test_outputs @ cp_entries cp,
                            lp_source_roots = source_roots, lp_scratch_dir = None\<rparr>, w)
                else auto_compile os root jdk_home_override additional_class_paths source_roots (cp_entries cp) w))"

section \<open>Collecting sources comes to an end\<close>

lemma entries_loop_bound:
  "length out \<le> 10000 \<Longrightarrow> entries_loop dir es stack out = Inl r \<Longrightarrow> length r \<le> 10000"
  "length out \<le> 10000 \<Longrightarrow> entries_loop dir es stack out = Inr (st, r) \<Longrightarrow> length r \<le> 10000"
  by (induction dir es stack out rule: entries_loop.induct)
    (auto simp: MAX_SOURCE_FILES_def Let_def split: if_splits)

lemma entries_loop_stack:
  "entries_loop dir es stack out = Inr (stack', out') \<Longrightarrow>
   \<exists>subs. stack' = subs @ stack \<and> set subs \<subseteq> entry_path dir ` {e \<in> set es. de_type e = Some FtDir}"
proof (induction es arbitrary: stack out)
  case (Cons e es)
  have more: "set subs \<subseteq> entry_path dir ` {e \<in> set es. de_type e = Some FtDir}
      \<Longrightarrow> set subs \<subseteq> entry_path dir ` {x \<in> set (e # es). de_type x = Some FtDir}" for subs by auto
  consider (skip) out2 where "entries_loop dir es stack out2 = Inr (stack', out')"
    | (push) "de_type e = Some FtDir" "entries_loop dir es (entry_path dir e # stack) out = Inr (stack', out')"
    using Cons.prems by (auto simp: Let_def split: if_splits)
  then show ?case
  proof cases
    case skip
    then show ?thesis using Cons.IH more by blast
  next
    case push
    then obtain subs where "stack' = subs @ entry_path dir e # stack"
      "set subs \<subseteq> entry_path dir ` {e \<in> set es. de_type e = Some FtDir}"
      using Cons.IH by blast
    then show ?thesis using push(1) by (intro exI [of _ "subs @ [entry_path dir e]"]) auto
  qed
qed simp

text \<open>A directory tree without infinite descent.\<close>

inductive finite_tree :: "fs \<Rightarrow> string \<Rightarrow> bool" for fs where
  "(\<And>es e. fs_read_dir fs dir = Some es \<Longrightarrow> e \<in> set es \<Longrightarrow> de_type e = Some FtDir \<Longrightarrow> finite_tree fs (entry_path dir e))
   \<Longrightarrow> finite_tree fs dir"

definition returns :: "fs \<Rightarrow> string list \<Rightarrow> bool" where
  "returns fs stack \<longleftrightarrow> (\<forall>out. length out \<le> 10000 \<longrightarrow>
     (\<exists>r. collect_loop fs stack out = Some r \<and> (\<forall>x. r = Inl x \<or> r = Inr x \<longrightarrow> length x \<le> 10000)))"

lemma returns_Nil: "returns fs []"
  by (simp add: returns_def collect_loop.simps)

lemma returns_Cons:
  "finite_tree fs dir \<Longrightarrow> returns fs rest \<Longrightarrow> returns fs (dir # rest)"
proof (induction arbitrary: rest rule: finite_tree.induct)
  case (1 dir)
  show ?case unfolding returns_def
  proof (intro allI impI)
    fix out :: "string list" assume out: "length out \<le> 10000"
    show "\<exists>r. collect_loop fs (dir # rest) out = Some r \<and> (\<forall>x. r = Inl x \<or> r = Inr x \<longrightarrow> length x \<le> 10000)"
    proof (cases "length out \<ge> MAX_SOURCE_FILES")
      case True
      then show ?thesis using out by (simp add: collect_loop.simps [of fs "dir # rest"])
    next
      case small: False
      show ?thesis
      proof (cases "fs_read_dir fs dir")
        case None
        then show ?thesis using small "1.prems" out by (simp add: collect_loop.simps [of fs "dir # rest"] returns_def)
      next
        case (Some es)
        show ?thesis
        proof (cases "entries_loop dir es rest out")
          case (Inl r)
          then show ?thesis using Some small entries_loop_bound(1) [OF out Inl]
            by (simp add: collect_loop.simps [of fs "dir # rest"])
        next
          case (Inr x)
          obtain st out' where x: "x = (st, out')" by (cases x)
          obtain subs where subs: "st = subs @ rest" "set subs \<subseteq> entry_path dir ` {e \<in> set es. de_type e = Some FtDir}"
            using entries_loop_stack Inr x by blast
          have "returns fs (subs @ rest)" using subs(2)
          proof (induction subs)
            case (Cons d subs)
            then obtain e where "d = entry_path dir e" "e \<in> set es" "de_type e = Some FtDir" by auto
            with "1.IH" [OF Some] Cons show ?case by simp
          qed (use "1.prems" in simp)
          then show ?thesis using Some small Inr x subs(1) entries_loop_bound(2) [OF out Inr [unfolded x]]
            by (simp add: collect_loop.simps [of fs "dir # rest"] returns_def)
        qed
      qed
    qed
  qed
qed

lemma collect_roots_returns:
  "\<forall>r \<in> set roots. finite_tree fs r \<Longrightarrow> length out \<le> 10000 \<Longrightarrow>
   \<exists>files. collect_roots fs roots seen out = Some files \<and> length files \<le> 10000"
proof (induction roots arbitrary: seen out)
  case (Cons root roots)
  show ?case
  proof (cases "list_ex (same_path root) seen")
    case False
    have "returns fs [root]" using Cons.prems by (intro returns_Cons returns_Nil) simp
    then obtain r where r: "collect_loop fs [root] out = Some r" "\<forall>x. r = Inl x \<or> r = Inr x \<longrightarrow> length x \<le> 10000"
      using Cons.prems(2) by (auto simp: returns_def)
    then show ?thesis using False Cons by (cases r) auto
  qed (use Cons in simp)
qed simp

text \<open>Over directory trees without infinite descent the walk returns, within its limit.\<close>

lemma collect_source_files_returns:
  assumes "list_all (finite_tree fs) roots"
  shows "\<exists>files. collect_source_files fs roots = Some files \<and> length files \<le> 10000"
  using collect_roots_returns [of roots fs "[]" "[]"] assms by (simp add: collect_source_files_def list_all_iff)

section \<open>Waiting for \<open>javac\<close>\<close>

text \<open>What the poll loop relies on: sleeping takes at least its time, and asking for the exit status
  does not turn the clock back.\<close>

definition clock_ok :: "'w os \<Rightarrow> bool" where
  "clock_ok os \<longleftrightarrow> (\<forall>w n. os_now os w + n \<le> os_now os (os_sleep os n w))
     \<and> (\<forall>w. os_now os w \<le> os_now os (snd (os_try_wait os w)))"

lemma poll_loop_returns:
  assumes "clock_ok os" "start \<le> os_now os w" "COMPILE_TIMEOUT \<le> (os_now os w - start) + POLL_INTERVAL * n"
  shows "\<exists>r. poll_loop os start (Suc n) w = Some r"
  using assms(2,3)
proof (induction n arbitrary: w)
  case (Suc n)
  obtain r w1 where t: "os_try_wait os w = (r, w1)" by (cases "os_try_wait os w")
  then have now1: "os_now os w \<le> os_now os w1" using assms(1) by (metis clock_ok_def snd_conv)
  let ?w2 = "os_sleep os POLL_INTERVAL w1"
  have now2: "os_now os w1 + POLL_INTERVAL \<le> os_now os ?w2" using assms(1) by (simp add: clock_ok_def)
  have "\<exists>r. poll_loop os start (Suc n) ?w2 = Some r" using Suc.prems now1 now2 by (intro Suc.IH) auto
  then show ?case using t by (cases r) (auto simp del: poll_loop.simps simp: poll_loop.simps(2) [of os start "Suc n" w])
next
  case 0
  obtain r w1 where t: "os_try_wait os w = (r, w1)" by (cases "os_try_wait os w")
  then have "os_now os w \<le> os_now os w1" using assms(1) by (metis clock_ok_def snd_conv)
  then show ?case using 0 t by (cases r) auto
qed

text \<open>From any world the wait returns within its rounds.\<close>

lemma wait_javac_returns:
  assumes "clock_ok os"
  shows "\<exists>r w'. wait_javac os w = Some (r, w')"
proof -
  have rounds: "poll_rounds = Suc 2401" by (simp add: poll_rounds_def COMPILE_TIMEOUT_def POLL_INTERVAL_def)
  have "\<exists>r. poll_loop os (os_now os w) (Suc 2401) w = Some r"
    by (rule poll_loop_returns [OF assms]) (simp_all add: COMPILE_TIMEOUT_def POLL_INTERVAL_def)
  then obtain status w' where "poll_loop os (os_now os w) poll_rounds w = Some (status, w')"
    unfolding rounds by (metis surj_pair)
  then show ?thesis by (auto simp: wait_javac_def Let_def split: prod.splits option.splits bool.splits)
qed

section \<open>What is kept of the compiler's messages\<close>

fun all_read :: "bytes option list \<Rightarrow> bytes" where
  "all_read (Some chunk # rs) = (if chunk = [] then [] else chunk @ all_read rs)"
| "all_read _ = []"

lemma drain_stderr_take:
  "length captured \<le> STDERR_CAP \<Longrightarrow> drain_stderr reads captured = take STDERR_CAP (captured @ all_read reads)"
proof (induction reads captured rule: drain_stderr.induct)
  case (3 chunk rs captured)
  show ?case
  proof (cases "chunk = []")
    case False
    have t: "take (min (length chunk) (STDERR_CAP - length captured)) chunk = take (STDERR_CAP - length captured) chunk"
      by (simp add: min_def)
    have "length (captured @ take (STDERR_CAP - length captured) chunk) \<le> STDERR_CAP" using "3.prems" by simp
    then have "drain_stderr rs (captured @ take (STDERR_CAP - length captured) chunk) =
        take STDERR_CAP ((captured @ take (STDERR_CAP - length captured) chunk) @ all_read rs)"
      using "3.IH" [OF False] t by simp
    also have "\<dots> = take STDERR_CAP (captured @ chunk @ all_read rs)"
      using "3.prems" by (cases "length chunk \<le> STDERR_CAP - length captured") auto
    finally show ?thesis using False t by simp
  qed (use 3 in simp)
qed simp_all

text \<open>
  The compiler's messages are kept up to 64 KiB and read to the end: however the output comes in
  pieces, what is kept is exactly its first 65,536 bytes.
\<close>

theorem drain_stderr_exact: "drain_stderr reads [] = take 65536 (all_read reads)"
  using drain_stderr_take [of "[]" reads] by (simp add: STDERR_CAP_def)

section \<open>The argument file\<close>

text \<open>
  How the tool reads an argument file: blanks separate arguments, and inside double quotes a
  backslash takes the next character as it is.
\<close>

fun unquote :: "string \<Rightarrow> (string \<times> string) option" where
  "unquote [] = None"
| "unquote (c # s) =
     (if c = CHR 0x22 then Some ([], s)
      else if c = CHR 0x5C then (case s of [] \<Rightarrow> None | d # s' \<Rightarrow> map_option (\<lambda>(t, r). (d # t, r)) (unquote s'))
      else map_option (\<lambda>(t, r). (c # t, r)) (unquote s))"

lemma unquote_shorter: "unquote s = Some (t, r) \<Longrightarrow> length r < length s"
  by (induction s arbitrary: t r rule: unquote.induct) (fastforce split: if_splits list.splits)+

function read_argfile :: "string \<Rightarrow> string list option" where
  "read_argfile [] = Some []"
| "read_argfile (c # s) =
     (if c = CHR 0x0A then read_argfile s
      else if c = CHR 0x22 then (case unquote s of None \<Rightarrow> None | Some (t, r) \<Rightarrow> map_option ((#) t) (read_argfile r))
      else None)"
  by pat_completeness auto
termination
  by (relation "measure length") (auto dest: unquote_shorter)

lemma escape_arg_Cons:
  "escape_arg [] = []"
  "escape_arg (c # s) =
     (if c = CHR 0x5C then [CHR 0x5C, CHR 0x5C] else if c = CHR 0x22 then [CHR 0x5C, CHR 0x22] else [c]) @ escape_arg s"
  by (simp_all add: escape_arg_def replace_char_def)

lemma unquote_escape: "unquote (escape_arg s @ CHR 0x22 # r) = Some (s, r)"
  by (induction s) (auto simp: escape_arg_Cons)

text \<open>
  The argument file is read back as it was meant: for any list of paths, with quotes,
  backslashes or blanks in them, reading the written file yields exactly the paths.
\<close>

theorem argfile_roundtrip: "read_argfile (argfile_content files) = Some files"
proof (induction files)
  case (Cons f files)
  have "argfile_content (f # files) = CHR 0x22 # (escape_arg f @ CHR 0x22 # (CHR 0x0A # argfile_content files))"
    by (simp add: argfile_content_def)
  then show ?case using Cons unquote_escape [of f "CHR 0x0A # argfile_content files"] by simp
qed (simp add: argfile_content_def)

section \<open>Annotation processors never run\<close>

definition same_but_spawn :: "'w os \<Rightarrow> 'w os \<Rightarrow> bool" where
  "same_but_spawn os os' \<longleftrightarrow> (\<exists>sp. os' = os\<lparr>os_spawn := sp\<rparr>
     \<and> (\<forall>exe args w. args ! 1 = ''-proc:none'' \<and> args ! 0 = ''-g'' \<longrightarrow> sp exe args w = os_spawn os exe args w))"

lemma run_javac_cong:
  assumes "same_but_spawn os os'"
  shows "run_javac os' = run_javac os"
proof -
  obtain sp where os': "os' = os\<lparr>os_spawn := sp\<rparr>"
    and sp: "\<And>exe joined scratch argfile w. sp exe (javac_args joined scratch argfile) w = os_spawn os exe (javac_args joined scratch argfile) w"
    using assms by (auto simp: same_but_spawn_def javac_args_def)
  have poll: "poll_loop os' start n w = poll_loop os start n w" for start n w
    by (induction n arbitrary: w) (auto simp: os' split: prod.splits wait_result.splits)
  have "wait_javac os' = wait_javac os" 
    by (intro ext) (simp add: wait_javac_def poll, simp add: os' cong del: option.case_cong_weak prod.case_cong_weak sum.case_cong_weak if_weak_cong)
  moreover have "write_argfile os' = write_argfile os" by (simp add: write_argfile_def fun_eq_iff os')
  moreover have "os_join_paths os' = os_join_paths os" "os_spawn os' = sp" by (simp_all add: os')
  ultimately show ?thesis
    by (intro ext) (simp add: run_javac_def sp Let_def cong del: option.case_cong_weak prod.case_cong_weak sum.case_cong_weak if_weak_cong)
qed

lemma auto_compile_cong:
  assumes "same_but_spawn os os'"
  shows "auto_compile os' = auto_compile os"
proof -
  obtain sp where os': "os' = os\<lparr>os_spawn := sp\<rparr>" using assms by (auto simp: same_but_spawn_def)
  have "scratch_name os' = scratch_name os" by (simp add: scratch_name_def fun_eq_iff os')
  then have "try_scratch os' ks w = try_scratch os ks w" for ks w
    by (induction ks arbitrary: w) (auto simp: os' Let_def split: prod.splits bool.splits)
  then have "create_fresh_scratch_dir os' = create_fresh_scratch_dir os" by (simp add: create_fresh_scratch_dir_def fun_eq_iff)
  moreover have "os_fs os' = os_fs os" "os_remove_dir_all os' = os_remove_dir_all os" by (simp_all add: os')
  ultimately show ?thesis using run_javac_cong [OF assms]
    by (intro ext) (simp add: auto_compile_def cong del: option.case_cong_weak prod.case_cong_weak sum.case_cong_weak if_weak_cong)
qed

text \<open>
  Assembling a classpath never runs code of the project: the only process it starts is the
  compiler with annotation processing switched off. Replace the way processes start by anything
  else for every command line whose first arguments are not \<open>-g\<close> and \<open>-proc:none\<close>: for all
  arguments and all projects, the outcome is the same.
\<close>

theorem assemble_never_runs_processors:
  assumes "same_but_spawn os os'"
  shows "assemble_classpath os' = assemble_classpath os"
proof -
  obtain sp where os': "os' = os\<lparr>os_spawn := sp\<rparr>" using assms by (auto simp: same_but_spawn_def)
  then have "os_fs os' = os_fs os" "os_resolver os' = os_resolver os" by (simp_all add: os_resolver_def fun_eq_iff)
  then show ?thesis using auto_compile_cong [OF assms]
    by (intro ext) (simp add: assemble_classpath_def Let_def cong del: option.case_cong_weak prod.case_cong_weak sum.case_cong_weak if_weak_cong)
qed

section \<open>Assembling a classpath ends\<close>

lemma run_javac_returns: "clock_ok os \<Longrightarrow> \<exists>r. run_javac os javac sources jars scratch w = Some r"
  using wait_javac_returns [of os] by (fastforce simp: run_javac_def Let_def split: prod.splits sum.splits)

text \<open>
  Assembling a classpath always comes to an end: with a clock that does not run backwards and
  directory trees without infinite descent, for all arguments and from every world, the assembly
  returns a plan or an error; the walks, the limit of 10,000 source files, the retries for a
  scratch directory and the 120 seconds for the compiler bound all of it.
\<close>

theorem assemble_classpath_returns:
  assumes "clock_ok os" "\<And>w dir. finite_tree (os_fs os w) dir"
  shows "\<exists>r w'. assemble_classpath os root explicit tests additional jdk w = Some (r, w')"
proof -
  have "\<exists>r. auto_compile os rt jdk additional srcs jars w = Some r" for rt srcs jars
  proof -
    obtain sources where "collect_source_files (os_fs os w) srcs = Some sources"
      using collect_source_files_returns [of "os_fs os w" srcs] assms(2) by (auto simp: list_all_iff)
    moreover obtain d w1 where "create_fresh_scratch_dir os w = (d, w1)" by (cases "create_fresh_scratch_dir os w")
    ultimately show ?thesis
      using run_javac_returns [OF assms(1), of _ sources jars _ w1]
      by (auto simp: auto_compile_def split: option.splits prod.splits sum.splits) (metis option.distinct(1))+
  qed
  then show ?thesis by (auto simp: assemble_classpath_def Let_def split: option.splits)
qed

section \<open>The policy of the classpath\<close>

text \<open>
  The policy of the classpath. The additional entries always come first. With explicit class
  paths, exactly those follow and nothing is compiled. Otherwise, when the project is built (and its
  tests too, if they are asked for), the existing output directories and then the dependency jars
  follow. Only otherwise is anything compiled: then the fresh scratch directory comes before the
  jars, and it is the one that the session has to remove; a failed compilation removes it at once.
\<close>

theorem assemble_classpath_policy:
  assumes "assemble_classpath os root explicit tests additional jdk w = Some (r, w')"
  defines "fs \<equiv> os_fs os w"
  shows "(explicit \<noteq> [] \<longrightarrow> w' = w \<and> (\<exists>plan. r = Inr plan \<and> lp_classpath plan = additional @ explicit \<and> lp_scratch_dir plan = None))
    \<and> (explicit = [] \<and> root = None \<longrightarrow> w' = w \<and> r = Inl (classpath_error no_class_paths))
    \<and> (explicit = [] \<and> root = Some rt \<longrightarrow>
        (let jars = cp_entries (from_jdk_and_project (os_resolver os w) (Some rt) :: unit classpath);
             built = existing_dirs fs (module_output_dirs fs rt);
             built_tests = existing_dirs fs (module_test_output_dirs fs rt)
         in if built \<noteq> [] \<and> (tests \<longrightarrow> built_tests \<noteq> []) then
              w' = w \<and> (\<exists>plan. r = Inr plan \<and> lp_scratch_dir plan = None
                \<and> lp_classpath plan = additional @ built @ (if tests then built_tests else []) @ jars)
            else (case r of
                Inr plan \<Rightarrow> (\<exists>scratch w1 w2. create_fresh_scratch_dir os w1 = (Some scratch, w2)
                    \<and> lp_scratch_dir plan = Some scratch \<and> lp_classpath plan = additional @ scratch # jars)
              | Inl e \<Rightarrow> le_javac_stderr e = None
                  \<or> (\<exists>scratch w1. le_message e = build_failed \<and> w' = os_remove_dir_all os scratch w1))))"
proof (intro conjI impI)
  assume e: "explicit = [] \<and> root = Some rt"
  let ?cp = "from_jdk_and_project (os_resolver os w) (Some rt) :: unit classpath"
  show "let jars = cp_entries ?cp; built = existing_dirs fs (module_output_dirs fs rt);
             built_tests = existing_dirs fs (module_test_output_dirs fs rt)
         in if built \<noteq> [] \<and> (tests \<longrightarrow> built_tests \<noteq> []) then
              w' = w \<and> (\<exists>plan. r = Inr plan \<and> lp_scratch_dir plan = None
                \<and> lp_classpath plan = additional @ built @ (if tests then built_tests else []) @ jars)
            else (case r of
                Inr plan \<Rightarrow> (\<exists>scratch w1 w2. create_fresh_scratch_dir os w1 = (Some scratch, w2)
                    \<and> lp_scratch_dir plan = Some scratch \<and> lp_classpath plan = additional @ scratch # jars)
              | Inl e \<Rightarrow> le_javac_stderr e = None
                  \<or> (\<exists>scratch w1. le_message e = build_failed \<and> w' = os_remove_dir_all os scratch w1))"
  proof (cases "existing_dirs fs (module_output_dirs fs rt) \<noteq> [] \<and> (tests \<longrightarrow> existing_dirs fs (module_test_output_dirs fs rt) \<noteq> [])")
    case True
    then show ?thesis using assms(1) e by (auto simp: assemble_classpath_def fs_def Let_def)
  next
    case False
    then have "\<exists>srcs. auto_compile os rt jdk additional srcs (cp_entries ?cp) w = Some (r, w')"
      using assms(1) e by (auto simp: assemble_classpath_def fs_def Let_def)
    then obtain srcs where "auto_compile os rt jdk additional srcs (cp_entries ?cp) w = Some (r, w')" ..
    then show ?thesis using False unfolding Let_def
      by (auto simp: auto_compile_def classpath_error_def split: option.splits prod.splits sum.splits if_splits) blast+
  qed
qed (use assms(1) in \<open>auto simp: assemble_classpath_def Let_def\<close>)

text \<open>
  Choosing a JDK tool: a configured home wins outright, so when it has no such tool nothing
  else is tried; otherwise \<open>JAVA_HOME\<close> wins when it has the tool, and the discovered JDK is the last
  choice; whatever is chosen is an existing file \<open>bin/\<close> of one of those homes.
\<close>

theorem locate_jdk_exe_policy:
  "(override = Some home \<longrightarrow> locate_jdk_exe fs override exe = bin_exe fs home exe)
   \<and> (override = None \<and> fs_var fs ''JAVA_HOME'' = Some home \<and> bin_exe fs home exe \<noteq> None \<longrightarrow>
        locate_jdk_exe fs override exe = bin_exe fs home exe)
   \<and> (locate_jdk_exe fs override exe = Some p \<longrightarrow> fs_is_file fs p
        \<and> (\<exists>h. (override = Some h \<or> override = None \<and> (fs_var fs ''JAVA_HOME'' = Some h \<or> best_jdk fs = Some h))
             \<and> p = path_join (path_join h ''bin'') exe))"
  by (auto simp: locate_jdk_exe_def bin_exe_def existing_file_def bind_eq_Some_conv split: option.splits if_splits)

section \<open>Inputs on which the theorems are applied\<close>

definition sample_tree :: fs where
  "sample_tree = \<lparr>fs_read = (\<lambda>_. None), fs_len = (\<lambda>_. None), fs_is_file = (\<lambda>p. p = ''/j/bin/java''), fs_is_dir = (\<lambda>_. False),
     fs_read_dir = (\<lambda>d. if d = ''/s'' then Some [\<lparr>de_name = ''p'', de_type = Some FtDir\<rparr>]
                       else if d = ''/s/p'' then Some [\<lparr>de_name = ''A.java'', de_type = Some FtFile\<rparr>] else None),
     fs_canonicalize = Some, fs_var = (\<lambda>_. None)\<rparr>"

text \<open>A world that is its clock, and a compiler that never ends.\<close>

definition sample_os :: "nat os" where
  "sample_os = \<lparr>os_fs = (\<lambda>_. sample_tree), os_parse = (\<lambda>_. None), os_iter = (\<lambda>m. m), os_temp_dir = (\<lambda>_. ''/tmp''), os_pid = 1,
     os_subsec_nanos = (\<lambda>_. 0), os_create_dir = (\<lambda>_ w. (True, w)), os_write = (\<lambda>_ _ w. (Inr (), w)),
     os_remove_dir_all = (\<lambda>_ w. w), os_join_paths = (\<lambda>ps. Inr (join_with '':'' ps)), os_spawn = (\<lambda>_ _ w. (Inr (), w)),
     os_try_wait = (\<lambda>w. (StillRunning, w)), os_kill_and_wait = (\<lambda>w. w), os_now = (\<lambda>w. w), os_sleep = (\<lambda>n w. w + n),
     os_stderr_reads = (\<lambda>w. ([], w))\<rparr>"

lemma sample_finite_tree: "finite_tree sample_tree ''/s''"
proof -
  have leaf: "finite_tree sample_tree ''/s/p''"
    by (rule finite_tree.intros) (auto simp: sample_tree_def)
  show ?thesis
    by (rule finite_tree.intros) (use leaf in \<open>auto simp: sample_tree_def entry_path_def path_join_def\<close>)
qed

lemma sample_trees: "finite_tree sample_tree dir"
proof -
  have leaf: "finite_tree sample_tree d" if "d \<noteq> ''/s''" "d \<noteq> ''/s/p''" for d
    by (rule finite_tree.intros) (use that in \<open>auto simp: sample_tree_def\<close>)
  have "finite_tree sample_tree ''/s/p''" by (rule finite_tree.intros) (auto simp: sample_tree_def)
  then show ?thesis using leaf sample_finite_tree by metis
qed

theorem assemble_classpath_returns_witness:
  "\<exists>r w'. assemble_classpath sample_os (Some ''/s'') [] True [] None 7 = Some (r, w')"
  by (rule assemble_classpath_returns) (simp_all add: clock_ok_def sample_trees sample_os_def)

theorem assemble_never_runs_processors_witness:
  "assemble_classpath (sample_os\<lparr>os_spawn := (\<lambda>exe args w.
       if args ! 1 = ''-proc:none'' \<and> args ! 0 = ''-g'' then (Inr (), w) else (Inl ''refused'', w))\<rparr>) =
   assemble_classpath sample_os"
  by (rule assemble_never_runs_processors) (auto simp: same_but_spawn_def sample_os_def)

theorem assemble_classpath_policy_witness:
  "\<exists>plan. assemble_classpath sample_os None [''out''] False [''junit.jar''] None 0 = Some (Inr plan, 0)
     \<and> lp_classpath plan = [''junit.jar'', ''out''] \<and> lp_scratch_dir plan = None"
proof -
  obtain r w' where run: "assemble_classpath sample_os None [''out''] False [''junit.jar''] None 0 = Some (r, w')"
    by (simp add: assemble_classpath_def)
  from assemble_classpath_policy [OF run, where rt = "[]", THEN conjunct1] show ?thesis using run by auto
qed

theorem locate_jdk_exe_policy_witness:
  "locate_jdk_exe sample_tree (Some ''/j'') ''java'' = Some ''/j/bin/java'' \<and> fs_is_file sample_tree ''/j/bin/java''"
proof -
  have "bin_exe sample_tree ''/j'' ''java'' = Some ''/j/bin/java''" by code_simp
  then show ?thesis
    using locate_jdk_exe_policy [of "Some ''/j''" "''/j''" sample_tree "''java''" "''/j/bin/java''"] by simp
qed

end
