(* ===== verification/Dap_Session.thy ===== *)
theory Dap_Session
  imports Dap_Support Launch
begin

text \<open>
  \<open>crates/debug/src/dap/session.rs\<close>: the DAP session. One event loop owns all the state, so the
  whole session is a function of the inbound message and the state: \<open>handle\<close>. A handler is a
  \<open>fallible\<close> function of the session record; a function of the source that cannot fail is
  polymorphic in the error type.

  What the session calls and this repository does not contain is the \<open>env\<close> record: the debuggee
  at the other end of the JDWP connection, the file system, processes, sockets and the clock, all
  of which act on an opaque world state; the \<open>serde\<close> decoding of argument structs; the decimal
  rendering of floats. \<open>e_child_reads\<close> are the reads of the child's output that complete before the
  listen deadline and \<open>e_handshake\<close> what the peer sends on a new connection. The class path assembly and source-root discovery of \<open>launch.rs\<close>, which run
  processes and walk the file system, are fields of it too.

  Maps are HOL maps, except \<open>files\<close>, which the source iterates over: an association list in
  insertion order. \<open>kill_signals\<close> counts what was sent on (or the drops of) the kill channel and
  \<open>kill_timers\<close> the \<open>KillDeadline\<close> timers started. Handles and ids are unbounded integers for the
  source's \<open>i64\<close> counters; \<open>suspend_depth\<close> keeps its 32 bits.
\<close>

section \<open>State\<close>

record file_bps =
  fb_class_name :: string
  fb_prepare_request_ids :: "u32 list"
  fb_bps :: "line_bp list"

datatype var_ref = Locals u64 u64 location | ObjectRef u64 | ArrayRef u64

record frame_handle =
  fh_thread :: u64
  fh_frame :: u64
  fh_location :: location

record class_meta =
  cm_signature :: "string option"
  cm_source_file :: "string option option"
  cm_methods :: "method_entry list option"
  cm_line_tables :: "u64 \<rightharpoonup> line_table option"

definition class_meta_default :: class_meta where
  "class_meta_default = \<lparr>cm_signature = None, cm_source_file = None, cm_methods = None, cm_line_tables = Map.empty\<rparr>"

record entry_state =
  en_prepare_request_id :: u32
  en_bp_request_id :: "u32 option"

datatype inbound =
    Request json
  | StdinClosed
  | JdwpEvent bytes
  | JdwpClosed
  | ChildOut string string
  | ChildExit "int option"
  | KillDeadline

datatype flow = Continue | Exit

record 'w session =
  writer :: dap_writer
  world :: 'w
  vm :: "id_sizes option"
  launch_mode :: bool
  child_kill :: bool
  child_reaped :: bool
  child_alive :: bool
  scratch_dir :: "string option"
  source_roots :: "string list"
  stop_on_entry :: bool
  main_class :: "string option"
  suspend_depth :: u32
  terminated_sent :: bool
  vm_start_pending :: bool
  thread_to_dap :: "u64 \<rightharpoonup> int"
  dap_to_thread :: "int \<rightharpoonup> u64"
  next_thread_id :: int
  next_handle :: int
  frame_handles :: "int \<rightharpoonup> frame_handle"
  varrefs :: "int \<rightharpoonup> var_ref"
  class_cache :: "u64 \<rightharpoonup> class_meta"
  files :: "(string \<times> file_bps) list"
  next_bp_id :: int
  exception_request_ids :: "u32 list"
  entry :: "entry_state option"
  step_request_ids :: "u32 set"
  last_exception :: "u64 \<rightharpoonup> u64 \<times> bool"
  locals_warned :: "u64 set"
  kill_signals :: nat
  kill_timers :: nat

definition session_new :: "'w \<Rightarrow> 'w session" where
  "session_new w = \<lparr>writer = writer_new, world = w, vm = None, launch_mode = False, child_kill = False,
     child_reaped = False, child_alive = False, scratch_dir = None, source_roots = [],
     stop_on_entry = False, main_class = None, suspend_depth = 0, terminated_sent = False,
     vm_start_pending = False, thread_to_dap = Map.empty, dap_to_thread = Map.empty,
     next_thread_id = 1, next_handle = 1000, frame_handles = Map.empty, varrefs = Map.empty,
     class_cache = Map.empty, files = [], next_bp_id = 1, exception_request_ids = [], entry = None,
     step_request_ids = {}, last_exception = Map.empty, locals_warned = {}, kill_signals = 0,
     kill_timers = 0\<rparr>"

section \<open>Environment\<close>

record java_command =
  jc_java :: string
  jc_args :: "string list"
  jc_env :: "(string \<times> string) list"
  jc_cwd :: "string option"

record 'w env =
  e_command :: "'w transport"
  e_os :: "'w os"
  e_task_error :: "'w \<Rightarrow> string option"
  e_show_f32 :: "u32 \<Rightarrow> string"
  e_show_f64 :: "u64 \<Rightarrow> string"
  e_launch_args :: "json \<Rightarrow> string + launch_args"
  e_attach_args :: "json \<Rightarrow> string + attach_args"
  e_set_breakpoints_args :: "json \<Rightarrow> string + set_breakpoints_args"
  e_set_exception_breakpoints_args :: "json \<Rightarrow> string + set_exception_breakpoints_args"
  e_thread_id_args :: "json \<Rightarrow> string + thread_id_args"
  e_stack_trace_args :: "json \<Rightarrow> string + stack_trace_args"
  e_frame_id_args :: "json \<Rightarrow> string + frame_id_args"
  e_variables_args :: "json \<Rightarrow> string + variables_args"
  e_disconnect_args :: "json \<Rightarrow> string + disconnect_args"
  e_join_paths :: "string list \<Rightarrow> string + string"
  e_spawn :: "java_command \<Rightarrow> ('w, string, unit) fallible"
  e_child_reads :: "'w \<Rightarrow> (bool \<times> (string + bytes)) list \<times> 'w"
  e_kill_and_wait :: "'w \<Rightarrow> 'w"
  e_drop_child :: "'w \<Rightarrow> 'w"
  e_tcp_connect :: "string \<Rightarrow> nat \<Rightarrow> ('w, string, unit) fallible"
  e_sleep :: "nat \<Rightarrow> 'w \<Rightarrow> 'w"
  e_now :: "'w \<Rightarrow> nat"
  e_handshake :: "('w, string, bytes \<times> bool) fallible"
  e_exit_in_time :: "'w \<Rightarrow> bool"
  e_await_reaped :: "'w \<Rightarrow> 'w"
  e_remove_dir_all :: "string \<Rightarrow> 'w \<Rightarrow> 'w"

abbreviation e_fs :: "'w env \<Rightarrow> 'w \<Rightarrow> fs" where
  "e_fs env \<equiv> os_fs (e_os env)"

section \<open>Basic actions\<close>

text \<open>\<open>Session::vm\<close>, and the \<open>let Ok(vm) = self.vm() else ..\<close> form with a default.\<close>

definition the_vm :: "('w session, string, id_sizes) fallible" where
  "the_vm s = (case vm s of None \<Rightarrow> err ''No debug session'' s | Some z \<Rightarrow> ok z s)"

definition with_vm :: "'a \<Rightarrow> (id_sizes \<Rightarrow> ('w session, 'e, 'a) fallible) \<Rightarrow> ('w session, 'e, 'a) fallible" where
  "with_vm d k = and_then (gets vm) (\<lambda>v. case v of None \<Rightarrow> ok d | Some z \<Rightarrow> k z)"

text \<open>Run something on the world, as a value: its result is matched on by the caller.\<close>

definition vm_do :: "('w, jdwp_error, 'a) fallible \<Rightarrow> ('w session, 'e, jdwp_error + 'a) fallible" where
  "vm_do m s = (case m (world s) of (r, w) \<Rightarrow> (Inr r, s\<lparr>world := w\<rparr>))"

definition world_do :: "('w \<Rightarrow> 'a \<times> 'w) \<Rightarrow> ('w session, 'e, 'a) fallible" where
  "world_do f s = (case f (world s) of (a, w) \<Rightarrow> (Inr a, s\<lparr>world := w\<rparr>))"

definition world_mod :: "('w \<Rightarrow> 'w) \<Rightarrow> ('w session, 'e, unit) fallible" where
  "world_mod f = modify (\<lambda>s. s\<lparr>world := f (world s)\<rparr>)"

text \<open>\<open>.map_err(|e| format!("..: {e}"))?\<close>\<close>

definition fail_with :: "string \<Rightarrow> jdwp_error + 'a \<Rightarrow> ('s, string, 'a) fallible" where
  "fail_with msg r = (case r of Inl e \<Rightarrow> err (msg @ show_jdwp_error e) | Inr a \<Rightarrow> ok a)"

definition fail_str :: "string \<Rightarrow> string + 'a \<Rightarrow> ('s, string, 'a) fallible" where
  "fail_str msg r = (case r of Inl e \<Rightarrow> err (msg @ e) | Inr a \<Rightarrow> ok a)"

definition emit :: "(dap_writer \<Rightarrow> dap_writer) \<Rightarrow> ('w session, 'e, unit) fallible" where
  "emit f = modify (\<lambda>s. s\<lparr>writer := f (writer s)\<rparr>)"

definition send_terminated :: "('w session, 'e, unit) fallible" where
  "send_terminated = and_then (gets terminated_sent) (\<lambda>sent.
     if \<not> sent then
       and_then (modify (\<lambda>s. s\<lparr>terminated_sent := True\<rparr>)) (\<lambda>_. emit (write_event ''terminated'' (JObj [])))
     else ok ())"

text \<open>Fresh handles, thread numbers.\<close>

definition new_handle :: "('w session, 'e, int) fallible" where
  "new_handle = and_then (gets next_handle) (\<lambda>i.
     and_then (modify (\<lambda>s. s\<lparr>next_handle := next_handle s + 1\<rparr>)) (\<lambda>_. ok i))"

definition dap_thread_id :: "u64 \<Rightarrow> ('w session, 'e, int) fallible" where
  "dap_thread_id thread = and_then (gets (\<lambda>s. thread_to_dap s thread)) (\<lambda>known.
     case known of Some i \<Rightarrow> ok i
     | None \<Rightarrow> and_then (gets next_thread_id) (\<lambda>i.
         and_then (modify (\<lambda>s. s\<lparr>next_thread_id := i + 1,
             thread_to_dap := (thread_to_dap s)(thread \<mapsto> i),
             dap_to_thread := (dap_to_thread s)(i \<mapsto> thread)\<rparr>)) (\<lambda>_. ok i)))"

definition jdwp_thread :: "int \<Rightarrow> ('w session, string, u64) fallible" where
  "jdwp_thread dap_id = and_then (gets (\<lambda>s. dap_to_thread s dap_id)) (\<lambda>t.
     case t of Some thread \<Rightarrow> ok thread | None \<Rightarrow> err (''Unknown thread '' @ show_int dap_id))"

definition invalidate_handles :: "('w session, 'e, unit) fallible" where
  "invalidate_handles = modify (\<lambda>s. s\<lparr>frame_handles := Map.empty, varrefs := Map.empty\<rparr>)"

definition stopped_json :: "string \<Rightarrow> int \<Rightarrow> json" where
  "stopped_json reason thread_id =
     JObj [(''reason'', JStr reason), (''threadId'', JInt thread_id), (''allThreadsStopped'', JBool True)]"

definition on_stop :: "u64 \<Rightarrow> string \<Rightarrow> ('w session, 'e, unit) fallible" where
  "on_stop thread reason =
     and_then invalidate_handles (\<lambda>_. and_then (dap_thread_id thread) (\<lambda>thread_id.
       emit (write_event ''stopped'' (stopped_json reason thread_id))))"

section \<open>Class metadata caches\<close>

definition upd_class :: "u64 \<Rightarrow> (class_meta \<Rightarrow> class_meta) \<Rightarrow> ('w session, 'e, unit) fallible" where
  "upd_class cls f = modify (\<lambda>s. s\<lparr>class_cache := (class_cache s)(cls \<mapsto>
     f (case class_cache s cls of Some m \<Rightarrow> m | None \<Rightarrow> class_meta_default))\<rparr>)"

definition class_signature :: "'w env \<Rightarrow> u64 \<Rightarrow> ('w session, 'e, string option) fallible" where
  "class_signature env cls =
     and_then (gets (\<lambda>s. Option.bind (class_cache s cls) cm_signature)) (\<lambda>cached.
       case cached of Some sig \<Rightarrow> ok (Some sig)
       | None \<Rightarrow> with_vm None (\<lambda>z. and_then (vm_do (vm_type_signature (e_command env) z cls)) (\<lambda>r.
           case r of Inl _ \<Rightarrow> ok None
           | Inr sig \<Rightarrow> and_then (upd_class cls (\<lambda>m. m\<lparr>cm_signature := Some sig\<rparr>)) (\<lambda>_. ok (Some sig)))))"

definition class_source_file :: "'w env \<Rightarrow> u64 \<Rightarrow> ('w session, 'e, string option) fallible" where
  "class_source_file env cls =
     and_then (gets (\<lambda>s. Option.bind (class_cache s cls) cm_source_file)) (\<lambda>cached.
       case cached of Some f \<Rightarrow> ok f
       | None \<Rightarrow> with_vm None (\<lambda>z. and_then (vm_do (vm_source_file (e_command env) z cls)) (\<lambda>r.
           let f = (case r of Inl _ \<Rightarrow> None | Inr n \<Rightarrow> Some n) in
           and_then (upd_class cls (\<lambda>m. m\<lparr>cm_source_file := Some f\<rparr>)) (\<lambda>_. ok f))))"

definition class_methods :: "'w env \<Rightarrow> u64 \<Rightarrow> ('w session, 'e, method_entry list option) fallible" where
  "class_methods env cls =
     and_then (gets (\<lambda>s. Option.bind (class_cache s cls) cm_methods)) (\<lambda>cached.
       case cached of Some ms \<Rightarrow> ok (Some ms)
       | None \<Rightarrow> with_vm None (\<lambda>z. and_then (vm_do (vm_methods (e_command env) z cls)) (\<lambda>r.
           case r of Inl _ \<Rightarrow> ok None
           | Inr ms \<Rightarrow> and_then (upd_class cls (\<lambda>m. m\<lparr>cm_methods := Some ms\<rparr>)) (\<lambda>_. ok (Some ms)))))"

definition method_line_table :: "'w env \<Rightarrow> u64 \<Rightarrow> u64 \<Rightarrow> ('w session, 'e, line_table option) fallible" where
  "method_line_table env cls mid =
     and_then (gets (\<lambda>s. Option.bind (class_cache s cls) (\<lambda>m. cm_line_tables m mid))) (\<lambda>cached.
       case cached of Some t \<Rightarrow> ok t
       | None \<Rightarrow> with_vm None (\<lambda>z. and_then (vm_do (vm_line_table (e_command env) z cls mid)) (\<lambda>r.
           let t = (case r of Inl _ \<Rightarrow> None | Inr t \<Rightarrow> if lt_start t \<ge> 0 then Some t else None) in
           and_then (upd_class cls (\<lambda>m. m\<lparr>cm_line_tables := (cm_line_tables m)(mid \<mapsto> t)\<rparr>)) (\<lambda>_. ok t))))"

text \<open>The package directory and default file name \<open>resolve_source\<close> takes from a signature.\<close>

definition source_location :: "string \<Rightarrow> (string \<times> string) option" where
  "source_location signature =
     Option.bind (strip_prefix ''L'' signature) (\<lambda>r. Option.bind (strip_suffix '';'' r) (\<lambda>binary.
       let outer = hd (split_char (CHR ''$'') binary) in
       Some (case rsplit_once (CHR ''/'') outer of
               Some (pkg, simple) \<Rightarrow> (pkg, simple @ ''.java'')
             | None \<Rightarrow> ([], outer @ ''.java''))))"

definition safe_file_name :: "string \<Rightarrow> bool" where
  "safe_file_name n = (\<not> (CHR ''/'' \<in> set n \<or> CHR 0x5C \<in> set n \<or> contains_sub ''..'' n))"

definition resolve_source :: "'w env \<Rightarrow> string \<Rightarrow> u64 \<Rightarrow> ('w session, 'e, string option) fallible" where
  "resolve_source env signature cls =
     (case source_location signature of None \<Rightarrow> ok None
      | Some (package_dir, default_name) \<Rightarrow>
          and_then (class_source_file env cls) (\<lambda>f.
            let name = (case f of Some n \<Rightarrow> n | None \<Rightarrow> default_name) in
            if \<not> safe_file_name name then ok None
            else gets (\<lambda>s. find (fs_is_file (e_fs env (world s)))
                     (map (\<lambda>root. path_join (path_join root package_dir) name) (source_roots s)))))"

section \<open>Breakpoints\<close>

definition file_lookup :: "string \<Rightarrow> (string \<times> file_bps) list \<Rightarrow> file_bps option" where
  "file_lookup path fs = map_of fs path"

definition file_update :: "string \<Rightarrow> (file_bps \<Rightarrow> file_bps) \<Rightarrow> (string \<times> file_bps) list \<Rightarrow> (string \<times> file_bps) list" where
  "file_update path f fs = map (\<lambda>(p, b). if p = path then (p, f b) else (p, b)) fs"

text \<open>One round of the binding loop.\<close>

definition bind_bp ::
  "'w env \<Rightarrow> id_sizes \<Rightarrow> u64 \<Rightarrow> (u64 \<times> line_table) list \<Rightarrow> line_bp \<Rightarrow> ('w session, 'e, line_bp \<times> int option) fallible" where
  "bind_bp env z cls tables bp =
     (if bp_verified bp then ok (bp, None)
      else case choose_line tables (bp_line bp) of
          None \<Rightarrow> ok (if bp_message bp = None
                      then bp\<lparr>bp_message := Some ''No executable code at this line''\<rparr> else bp, None)
        | Some (mid, idx, line) \<Rightarrow>
            and_then (vm_do (vm_event_request_set (e_command env) z EK_BREAKPOINT SUSPEND_ALL
                [LocationOnly \<lparr>type_tag = 1, class_id = cls, method_id = mid, loc_index = idx\<rparr>])) (\<lambda>r.
              case r of
                Inr request_id \<Rightarrow>
                  ok (bp\<lparr>bp_request_ids := bp_request_ids bp @ [request_id], bp_verified := True,
                         bp_actual_line := Some line, bp_message := None\<rparr>, Some (bp_id bp))
              | Inl _ \<Rightarrow> ok (bp, None)))"

definition collect_tables ::
  "'w env \<Rightarrow> u64 \<Rightarrow> method_entry list \<Rightarrow> ('w session, 'e, (u64 \<times> line_table) list) fallible" where
  "collect_tables env cls ms =
     and_then (map_m (\<lambda>m. and_then (method_line_table env cls (me_id m)) (\<lambda>t. ok (me_id m, t))) ms) (\<lambda>ts.
       ok (List.map_filter (\<lambda>(i, t). map_option (\<lambda>t. (i, t)) t) ts))"

definition bind_lines_in_class :: "'w env \<Rightarrow> string \<Rightarrow> u64 \<Rightarrow> ('w session, 'e, int list) fallible" where
  "bind_lines_in_class env path cls =
     with_vm [] (\<lambda>z. and_then (class_methods env cls) (\<lambda>ms. case ms of None \<Rightarrow> ok []
       | Some methods \<Rightarrow> and_then (collect_tables env cls methods) (\<lambda>tables.
           and_then (gets (\<lambda>s. file_lookup path (files s))) (\<lambda>f. case f of None \<Rightarrow> ok []
           | Some file \<Rightarrow> and_then (map_m (bind_bp env z cls tables) (fb_bps file)) (\<lambda>bound.
               and_then (modify (\<lambda>s. s\<lparr>files := file_update path (\<lambda>b. b\<lparr>fb_bps := map fst bound\<rparr>) (files s)\<rparr>)) (\<lambda>_.
                 ok (List.map_filter snd bound)))))))"

text \<open>The first part of \<open>set_breakpoints\<close>: register the file and its two class-prepare requests.\<close>

definition prepare_patterns :: "string \<Rightarrow> string list" where
  "prepare_patterns class_name = [class_name, class_name @ ''$*'']"

definition register_file :: "'w env \<Rightarrow> id_sizes \<Rightarrow> string \<Rightarrow> ('w session, string, unit) fallible" where
  "register_file env z path =
     and_then (gets (\<lambda>s. file_lookup path (files s))) (\<lambda>known. case known of Some _ \<Rightarrow> ok ()
     | None \<Rightarrow> and_then (gets (\<lambda>s. fqcn_for_source (e_fs env (world s)) path)) (\<lambda>cn.
         case cn of None \<Rightarrow> err (''Could not determine the class declared in '' @ path)
         | Some class_name \<Rightarrow>
             and_then (map_m (\<lambda>pattern. vm_do (vm_event_request_set (e_command env) z EK_CLASS_PREPARE
                 SUSPEND_ALL [ClassMatch pattern])) (prepare_patterns class_name)) (\<lambda>rs.
               modify (\<lambda>s. s\<lparr>files := files s @ [(path, \<lparr>fb_class_name = class_name,
                 fb_prepare_request_ids = List.map_filter (\<lambda>r. case r of Inr i \<Rightarrow> Some i | Inl _ \<Rightarrow> None) rs,
                 fb_bps = []\<rparr>)]\<rparr>))))"

text \<open>The second part: drop the lines no longer requested, keep the others, add the new ones.\<close>

definition keep_bps :: "u32 list \<Rightarrow> line_bp list \<Rightarrow> line_bp list \<times> u32 list" where
  "keep_bps requested bps =
     (filter (\<lambda>bp. bp_line bp \<in> set requested) bps,
      concat (map bp_request_ids (filter (\<lambda>bp. bp_line bp \<notin> set requested) bps)))"

fun add_bps :: "u32 list \<Rightarrow> int \<Rightarrow> line_bp list \<Rightarrow> line_bp list \<times> int" where
  "add_bps [] nid bps = (bps, nid)"
| "add_bps (line # lines) nid bps =
     (if \<exists>bp \<in> set bps. bp_line bp = line then add_bps lines nid bps
      else add_bps lines (nid + 1)
        (bps @ [\<lparr>bp_id = nid, bp_line = line, bp_verified = False, bp_actual_line = None,
                bp_message = None, bp_request_ids = []\<rparr>]))"

definition update_lines :: "string \<Rightarrow> u32 list \<Rightarrow> ('w session, 'e, string \<times> u32 list) fallible" where
  "update_lines path requested = (\<lambda>s.
     case file_lookup path (files s) of
       None \<Rightarrow> ok ([], []) s
     | Some file \<Rightarrow>
         (let (kept, cleared) = keep_bps requested (fb_bps file);
              (bps, next') = add_bps requested (next_bp_id s) kept
          in ok (fb_class_name file, cleared)
               (s\<lparr>files := file_update path (\<lambda>b. b\<lparr>fb_bps := bps\<rparr>) (files s), next_bp_id := next'\<rparr>)))"

definition class_matches :: "string \<Rightarrow> string \<Rightarrow> bool" where
  "class_matches class_name sig =
     (let binary = replace_char (CHR ''.'') ''/'' class_name in
      sig = ''L'' @ binary @ '';'' \<or> starts_with (''L'' @ binary @ ''$'') sig)"

definition requested_lines :: "set_breakpoints_args \<Rightarrow> u32 list" where
  "requested_lines a =
     (let ls = map sb_line (sba_breakpoints a) in if ls = [] then sba_lines a else ls)"

definition set_breakpoints :: "'w env \<Rightarrow> json \<Rightarrow> ('w session, string, json) fallible" where
  "set_breakpoints env args_json =
     and_then (fail_str ''Bad setBreakpoints arguments: '' (e_set_breakpoints_args env args_json)) (\<lambda>a.
     case src_path (sba_source a) of None \<Rightarrow> err ''setBreakpoints without a source path''
     | Some path \<Rightarrow>
       and_then the_vm (\<lambda>z.
       and_then (register_file env z path) (\<lambda>_.
       and_then (update_lines path (requested_lines a)) (\<lambda>(class_name, cleared).
       and_then (for_each cleared (\<lambda>rid. and_then (vm_do (vm_event_request_clear (e_command env) EK_BREAKPOINT rid)) (\<lambda>_. ok ()))) (\<lambda>_.
       and_then (vm_do (vm_all_classes (e_command env) z)) (\<lambda>r.
       and_then (case r of Inl _ \<Rightarrow> ok ()
                 | Inr cs \<Rightarrow> for_each cs (\<lambda>c. if class_matches class_name (ce_signature c)
                     then and_then (bind_lines_in_class env path (ce_type_id c)) (\<lambda>_. ok ()) else ok ())) (\<lambda>_.
       gets (\<lambda>s. JObj [(''breakpoints'', JArr (case file_lookup path (files s) of
           None \<Rightarrow> []
         | Some file \<Rightarrow> map breakpoint_json (List.map_filter
             (\<lambda>line. find (\<lambda>bp. bp_line bp = line) (fb_bps file)) (requested_lines a))))]))))))))"

definition set_exception_breakpoints :: "'w env \<Rightarrow> json \<Rightarrow> ('w session, string, json) fallible" where
  "set_exception_breakpoints env args_json =
     and_then (fail_str ''Bad setExceptionBreakpoints arguments: ''
         (e_set_exception_breakpoints_args env args_json)) (\<lambda>a.
     and_then the_vm (\<lambda>z.
     and_then (gets exception_request_ids) (\<lambda>old.
     and_then (modify (\<lambda>s. s\<lparr>exception_request_ids := []\<rparr>)) (\<lambda>_.
     and_then (for_each old (\<lambda>rid. and_then (vm_do (vm_event_request_clear (e_command env) EK_EXCEPTION rid)) (\<lambda>_. ok ()))) (\<lambda>_.
       let caught = (''caught'' \<in> set (seb_filters a)); uncaught = (''uncaught'' \<in> set (seb_filters a)) in
       if caught \<or> uncaught then
         and_then (vm_do (vm_event_request_set (e_command env) z EK_EXCEPTION SUSPEND_ALL
             [ExceptionOnly caught uncaught])) (\<lambda>r.
         and_then (fail_with ''EXCEPTION request failed: '' r) (\<lambda>rid.
         and_then (modify (\<lambda>s. s\<lparr>exception_request_ids := exception_request_ids s @ [rid]\<rparr>)) (\<lambda>_.
           ok (JObj []))))
       else ok (JObj []))))))"

section \<open>JDWP events\<close>

definition ENTRY_SKIPPED :: string where
  "ENTRY_SKIPPED = ''stopOnEntry skipped: no line info for the main method (compiled without -g)'' @ [CHR 0x0A]"

definition arm_entry_breakpoint :: "'w env \<Rightarrow> u64 \<Rightarrow> ('w session, 'e, unit) fallible" where
  "arm_entry_breakpoint env type_id = with_vm () (\<lambda>z.
     and_then (gets entry) (\<lambda>en.
     and_then (case en of None \<Rightarrow> ok () | Some e \<Rightarrow>
         and_then (vm_do (vm_event_request_clear (e_command env) EK_CLASS_PREPARE (en_prepare_request_id e))) (\<lambda>_. ok ())) (\<lambda>_.
     and_then (class_methods env type_id) (\<lambda>ms.
     let main = Option.bind ms (\<lambda>methods. map_option me_id (find (\<lambda>m. me_name m = ''main''
           \<and> me_signature m = ''([Ljava/lang/String;)V'') methods)) in
     and_then (case main of None \<Rightarrow> ok None
       | Some mid \<Rightarrow> and_then (method_line_table env type_id mid) (\<lambda>t.
           ok (Option.bind t (\<lambda>t. case lt_lines t of [] \<Rightarrow> None
             | (idx, _) # _ \<Rightarrow> Some \<lparr>type_tag = 1, class_id = type_id, method_id = mid, loc_index = idx\<rparr>)))) (\<lambda>loc.
     case loc of
       None \<Rightarrow> and_then (modify (\<lambda>s. s\<lparr>entry := None\<rparr>)) (\<lambda>_. emit (write_output ''console'' ENTRY_SKIPPED))
     | Some l \<Rightarrow>
         and_then (vm_do (vm_event_request_set (e_command env) z EK_BREAKPOINT SUSPEND_ALL [LocationOnly l, Count 1])) (\<lambda>r.
           case r of
             Inr rid \<Rightarrow> modify (\<lambda>s. s\<lparr>entry := map_option (\<lambda>e. e\<lparr>en_bp_request_id := Some rid\<rparr>) (entry s)\<rparr>)
           | Inl _ \<Rightarrow> modify (\<lambda>s. s\<lparr>entry := None\<rparr>)))))))"

definition on_class_prepare :: "'w env \<Rightarrow> u32 \<Rightarrow> u64 \<Rightarrow> ('w session, 'e, unit) fallible" where
  "on_class_prepare env request_id type_id =
     and_then (gets entry) (\<lambda>en.
     if (case en of Some e \<Rightarrow> en_prepare_request_id e = request_id | None \<Rightarrow> False)
     then arm_entry_breakpoint env type_id
     else and_then (gets (\<lambda>s. map_option fst (find (\<lambda>(_, b). request_id \<in> set (fb_prepare_request_ids b)) (files s)))) (\<lambda>p.
       case p of None \<Rightarrow> ok ()
       | Some path \<Rightarrow> and_then (bind_lines_in_class env path type_id) (\<lambda>changed.
           and_then (gets (\<lambda>s. case file_lookup path (files s) of None \<Rightarrow> []
               | Some file \<Rightarrow> map breakpoint_json (filter (\<lambda>bp. bp_id bp \<in> set changed) (fb_bps file)))) (\<lambda>updates.
             for_each updates (\<lambda>b. emit (write_event ''breakpoint''
               (JObj [(''reason'', JStr ''changed''), (''breakpoint'', b)])))))))"

text \<open>One event of the set; the flag is \<open>auto_resume\<close>.\<close>

fun handle_event :: "'w env \<Rightarrow> bool \<Rightarrow> event \<Rightarrow> ('w session, 'e, bool) fallible" where
  "handle_event env auto (VmStart rid thread) =
     and_then (modify (\<lambda>s. s\<lparr>vm_start_pending := True\<rparr>)) (\<lambda>_. ok auto)"
| "handle_event env auto (ClassPrepare rid thread tag type_id sig status) =
     and_then (on_class_prepare env rid type_id) (\<lambda>_. ok auto)"
| "handle_event env auto (Breakpoint rid thread loc) =
     and_then (gets entry) (\<lambda>en.
     if (case en of Some e \<Rightarrow> en_bp_request_id e = Some rid | None \<Rightarrow> False)
     then and_then (modify (\<lambda>s. s\<lparr>entry := None\<rparr>)) (\<lambda>_. and_then (on_stop thread ''entry'') (\<lambda>_. ok False))
     else and_then (on_stop thread ''breakpoint'') (\<lambda>_. ok False))"
| "handle_event env auto (SingleStep rid thread loc) =
     and_then (gets step_request_ids) (\<lambda>ids.
     and_then (if rid \<in> ids then
         and_then (modify (\<lambda>s. s\<lparr>step_request_ids := step_request_ids s - {rid}\<rparr>)) (\<lambda>_.
           with_vm () (\<lambda>z. and_then (vm_do (vm_event_request_clear (e_command env) EK_SINGLE_STEP rid)) (\<lambda>_. ok ())))
       else ok ()) (\<lambda>_. and_then (on_stop thread ''step'') (\<lambda>_. ok False)))"
| "handle_event env auto (Exception rid thread loc exc catch_loc) =
     and_then (modify (\<lambda>s. s\<lparr>last_exception := (last_exception s)(thread \<mapsto> (exc, catch_loc \<noteq> None))\<rparr>)) (\<lambda>_.
     and_then (on_stop thread ''exception'') (\<lambda>_. ok False))"
| "handle_event env auto (VmDeath rid) = and_then send_terminated (\<lambda>_. ok False)"

fun is_vm_start :: "event \<Rightarrow> bool" where
  "is_vm_start (VmStart _ _) = True"
| "is_vm_start _ = False"

text \<open>The automatic resume at the end of a set without a stop.\<close>

definition resume_if :: "'w env \<Rightarrow> bool \<Rightarrow> ('w session, 'e, unit) fallible" where
  "resume_if env auto_resume =
     (if auto_resume then
        with_vm () (\<lambda>z. and_then (vm_do (vm_resume (e_command env))) (\<lambda>r.
          case r of Inl _ \<Rightarrow> ok ()
          | Inr _ \<Rightarrow> modify (\<lambda>s. s\<lparr>suspend_depth := (if suspend_depth s = 0 then 0 else suspend_depth s - 1)\<rparr>)))
      else ok ())"

definition handle_event_set :: "'w env \<Rightarrow> event_set \<Rightarrow> ('w session, 'e, unit) fallible" where
  "handle_event_set env es =
     (let counts = (suspend_policy es = SUSPEND_ALL \<and> \<not> list_ex is_vm_start (events es)) in
      and_then (if counts then modify (\<lambda>s. s\<lparr>suspend_depth := suspend_depth s + 1\<rparr>) else ok ()) (\<lambda>_.
      and_then (fold_m (handle_event env) counts (events es)) (resume_if env)))"

section \<open>Execution control\<close>

definition continue_all :: "'w env \<Rightarrow> ('w session, string, json) fallible" where
  "continue_all env =
     and_then the_vm (\<lambda>z.
     and_then invalidate_handles (\<lambda>_.
     and_then (modify (\<lambda>s. s\<lparr>last_exception := Map.empty\<rparr>)) (\<lambda>_.
     and_then (gets (\<lambda>s. max (suspend_depth s) 1)) (\<lambda>resumes.
     and_then (repeat_n (unat resumes) (and_then (vm_do (vm_resume (e_command env))) (fail_with ''resume failed: ''))) (\<lambda>_.
     and_then (modify (\<lambda>s. s\<lparr>suspend_depth := 0\<rparr>)) (\<lambda>_.
       ok (JObj [(''allThreadsContinued'', JBool True)])))))))"

definition step :: "'w env \<Rightarrow> json \<Rightarrow> u32 \<Rightarrow> ('w session, string, json) fallible" where
  "step env args_json depth =
     and_then (fail_str ''Bad step arguments: '' (e_thread_id_args env args_json)) (\<lambda>a.
     and_then (jdwp_thread (ta_thread_id a)) (\<lambda>thread.
     and_then the_vm (\<lambda>z.
     and_then (vm_do (vm_event_request_set (e_command env) z EK_SINGLE_STEP SUSPEND_ALL
         [StepMod thread STEP_SIZE_LINE depth, Count 1])) (\<lambda>r.
     and_then (fail_with ''step request failed: '' r) (\<lambda>rid.
     and_then (modify (\<lambda>s. s\<lparr>step_request_ids := insert rid (step_request_ids s)\<rparr>)) (\<lambda>_.
     and_then (continue_all env) (\<lambda>_. ok (JObj []))))))))"

definition pause :: "'w env \<Rightarrow> json \<Rightarrow> ('w session, string, json) fallible" where
  "pause env args_json =
     and_then (fail_str ''Bad pause arguments: '' (e_thread_id_args env args_json)) (\<lambda>a.
     and_then the_vm (\<lambda>z.
     and_then (vm_do (vm_suspend (e_command env))) (\<lambda>r.
     and_then (fail_with ''suspend failed: '' r) (\<lambda>_.
     and_then (modify (\<lambda>s. s\<lparr>suspend_depth := suspend_depth s + 1\<rparr>)) (\<lambda>_.
     and_then invalidate_handles (\<lambda>_.
     and_then (emit (write_event ''stopped'' (stopped_json ''pause'' (ta_thread_id a)))) (\<lambda>_.
       ok (JObj []))))))))"

section \<open>Threads, stacks, variables\<close>

definition dap_threads :: "'w env \<Rightarrow> ('w session, string, json) fallible" where
  "dap_threads env =
     and_then the_vm (\<lambda>z.
     and_then (vm_do (vm_all_threads (e_command env) z)) (\<lambda>r.
     and_then (fail_with ''AllThreads failed: '' r) (\<lambda>ts.
     and_then (map_m (\<lambda>thread.
         and_then (vm_do (vm_thread_name (e_command env) z thread)) (\<lambda>n.
         and_then (dap_thread_id thread) (\<lambda>i.
           ok (JObj [(''id'', JInt i), (''name'', JStr (case n of Inr name \<Rightarrow> name | Inl _ \<Rightarrow> ''<unnamed>''))])))) ts) (\<lambda>out.
       ok (JObj [(''threads'', JArr out)])))))"

definition type_name_or :: "string \<Rightarrow> string option \<Rightarrow> string" where
  "type_name_or d sig = (case sig of Some s \<Rightarrow> pretty_type s | None \<Rightarrow> d)"

text \<open>The frame window: \<open>None\<close> when there is nothing to ask for, else the \<open>length\<close> argument.\<close>

definition frame_window :: "u32 option \<Rightarrow> u32 \<Rightarrow> u32 \<Rightarrow> int option" where
  "frame_window tot start levels =
     (case tot of
        Some t \<Rightarrow>
          (let available = (if start \<le> t then t - start else 0) in
           if available = 0 then None
           else Some (if levels = 0 then -1 else sint (min levels available)))
      | None \<Rightarrow> Some (if levels = 0 then -1 else sint levels))"

text \<open>A fresh handle, entered into the frame or the variable table.\<close>

definition new_frame_handle :: "frame_handle \<Rightarrow> ('w session, 'e, int) fallible" where
  "new_frame_handle fh = and_then new_handle (\<lambda>h.
     and_then (modify (\<lambda>s. s\<lparr>frame_handles := (frame_handles s)(h \<mapsto> fh)\<rparr>)) (\<lambda>_. ok h))"

definition new_varref :: "var_ref \<Rightarrow> ('w session, 'e, int) fallible" where
  "new_varref v = and_then new_handle (\<lambda>h.
     and_then (modify (\<lambda>s. s\<lparr>varrefs := (varrefs s)(h \<mapsto> v)\<rparr>)) (\<lambda>_. ok h))"

definition frame_json :: "int \<Rightarrow> string \<Rightarrow> u32 option \<Rightarrow> string option \<Rightarrow> json" where
  "frame_json handle name line source =
     (let j = JObj [(''id'', JInt handle), (''name'', JStr name),
                (''line'', JInt (case line of Some l \<Rightarrow> uint l | None \<Rightarrow> 0)), (''column'', JInt 0)]
      in case source of None \<Rightarrow> j
         | Some path \<Rightarrow> set_key ''source'' (JObj [(''name'', JStr (case file_name path of Some n \<Rightarrow> n | None \<Rightarrow> [])),
                          (''path'', JStr path)]) j)"

definition show_frame :: "'w env \<Rightarrow> u64 \<Rightarrow> frame_entry \<Rightarrow> ('w session, 'e, json) fallible" where
  "show_frame env thread fr =
     (let loc = fr_location fr in
      and_then (class_signature env (class_id loc)) (\<lambda>sig.
      and_then (class_methods env (class_id loc)) (\<lambda>ms.
      let method_name = (case Option.bind ms (find (\<lambda>m. me_id m = method_id loc)) of
                           Some m \<Rightarrow> me_name m | None \<Rightarrow> ''<unknown>'') in
      and_then (method_line_table env (class_id loc) (method_id loc)) (\<lambda>t.
      let line = Option.bind t (\<lambda>t. line_for_index t (loc_index loc)) in
      and_then (case sig of Some s \<Rightarrow> resolve_source env s (class_id loc) | None \<Rightarrow> ok None) (\<lambda>source.
      and_then (new_frame_handle \<lparr>fh_thread = thread, fh_frame = fr_frame_id fr, fh_location = loc\<rparr>) (\<lambda>h.
        ok (frame_json h (type_name_or ''<unknown>'' sig @ ''.'' @ method_name) line source)))))))"

definition stack_trace :: "'w env \<Rightarrow> json \<Rightarrow> ('w session, string, json) fallible" where
  "stack_trace env args_json =
     and_then (fail_str ''Bad stackTrace arguments: '' (e_stack_trace_args env args_json)) (\<lambda>a.
     and_then (jdwp_thread (sta_thread_id a)) (\<lambda>thread.
     and_then the_vm (\<lambda>z.
     and_then (vm_do (vm_frame_count (e_command env) z thread)) (\<lambda>c.
     let tot = (case c of Inr n \<Rightarrow> Some n | Inl _ \<Rightarrow> None) in
     case frame_window tot (sta_start_frame a) (sta_levels a) of
       None \<Rightarrow> ok (JObj [(''stackFrames'', JArr []),
                   (''totalFrames'', JInt (case tot of Some t \<Rightarrow> uint t | None \<Rightarrow> 0))])
     | Some len \<Rightarrow>
         and_then (vm_do (vm_frames (e_command env) z thread (sta_start_frame a) len)) (\<lambda>r.
         and_then (fail_with ''Frames failed: '' r) (\<lambda>frs.
         and_then (map_m (show_frame env thread) frs) (\<lambda>out.
           ok (case tot of
                 Some t \<Rightarrow> JObj [(''stackFrames'', JArr out), (''totalFrames'', JInt (uint t))]
               | None \<Rightarrow> JObj [(''stackFrames'', JArr out)]))))))))"

definition scopes :: "'w env \<Rightarrow> json \<Rightarrow> ('w session, string, json) fallible" where
  "scopes env args_json =
     and_then (fail_str ''Bad scopes arguments: '' (e_frame_id_args env args_json)) (\<lambda>a.
     and_then (gets (\<lambda>s. frame_handles s (fa_frame_id a))) (\<lambda>f. case f of
       None \<Rightarrow> err ''Unknown or stale frame''
     | Some fh \<Rightarrow>
         and_then (new_varref (Locals (fh_thread fh) (fh_frame fh) (fh_location fh))) (\<lambda>h.
           ok (JObj [(''scopes'', JArr [JObj [(''name'', JStr ''Locals''),
             (''variablesReference'', JInt h), (''expensive'', JBool False)]])]))))"

text \<open>Text: the first \<open>n\<close> characters of UTF-8 text, one character's encoding, four hex digits.\<close>

definition is_cont_char :: "char \<Rightarrow> bool" where
  "is_cont_char c = (0x80 \<le> (of_char c :: nat) \<and> (of_char c :: nat) < 0xC0)"

fun take_chars :: "nat \<Rightarrow> string \<Rightarrow> string" where
  "take_chars n [] = []"
| "take_chars n (c # s) =
     (if is_cont_char c then c # take_chars n s
      else case n of 0 \<Rightarrow> [] | Suc m \<Rightarrow> c # take_chars m s)"

definition utf8_encode :: "nat \<Rightarrow> string" where
  "utf8_encode n =
     (if n < 0x80 then [char_of n]
      else if n < 0x800 then [char_of (0xC0 + n div 64), char_of (0x80 + n mod 64)]
      else [char_of (0xE0 + n div 4096), char_of (0x80 + n div 64 mod 64), char_of (0x80 + n mod 64)])"

definition hex_digit :: "nat \<Rightarrow> char" where
  "hex_digit d = (if d < 10 then digit_char d else char_of (87 + d))"

definition show_hex4 :: "nat \<Rightarrow> string" where
  "show_hex4 n = map (\<lambda>k. hex_digit (n div 16 ^ k mod 16)) [3, 2, 1, 0]"

definition ELLIPSIS :: string where "ELLIPSIS = [CHR 0xE2, CHR 0x80, CHR 0xA6]"

definition render_char :: "u16 \<Rightarrow> string" where
  "render_char v =
     (let n = unat v in
      if 0xD800 \<le> n \<and> n \<le> 0xDFFF then [CHR 0x27, CHR 0x5C] @ ''u'' @ show_hex4 n @ [CHR 0x27]
      else [CHR 0x27] @ utf8_encode n @ [CHR 0x27])"

definition render_string :: "string \<Rightarrow> string" where
  "render_string s =
     (let display = take_chars STRING_DISPLAY_CAP s in
      [CHR 0x22] @ display @ (if length display < length s then ELLIPSIS else []) @ [CHR 0x22])"

definition object_class :: "'w env \<Rightarrow> id_sizes \<Rightarrow> string \<Rightarrow> u64 \<Rightarrow> ('w session, 'e, string) fallible" where
  "object_class env z d i =
     and_then (vm_do (vm_object_type (e_command env) z i)) (\<lambda>r. case r of
       Inl _ \<Rightarrow> ok d
     | Inr (_, type_id) \<Rightarrow> and_then (class_signature env type_id) (\<lambda>sig. ok (type_name_or d sig)))"

definition array_display :: "string \<Rightarrow> u32 \<Rightarrow> string" where
  "array_display element len =
     (case strip_suffix ''[]'' element of Some base \<Rightarrow> base | None \<Rightarrow> element)
     @ ''['' @ show_nat (unat len) @ '']''"

fun render_value :: "'w env \<Rightarrow> jvalue \<Rightarrow> ('w session, 'e, string \<times> int) fallible" where
  "render_value env VVoid = ok (''void'', 0)"
| "render_value env (VBoolean b) = ok (if b then ''true'' else ''false'', 0)"
| "render_value env (VByte i) = ok (show_int i, 0)"
| "render_value env (VShort i) = ok (show_int i, 0)"
| "render_value env (VInt i) = ok (show_int i, 0)"
| "render_value env (VLong i) = ok (show_int i, 0)"
| "render_value env (VFloat b) = ok (e_show_f32 env b, 0)"
| "render_value env (VDouble b) = ok (e_show_f64 env b, 0)"
| "render_value env (VChar c) = ok (render_char c, 0)"
| "render_value env (VObject t i) =
     (if i = 0 then ok (''null'', 0)
      else if t = TAG_STRING then
        with_vm (''<gone>'', 0) (\<lambda>z. and_then (vm_do (vm_string_value (e_command env) z i)) (\<lambda>r.
          ok (case r of Inr s \<Rightarrow> (render_string s, 0) | Inl _ \<Rightarrow> (''<string unavailable>'', 0))))
      else if t = TAG_ARRAY then
        with_vm (''<gone>'', 0) (\<lambda>z. and_then (object_class env z ''?[]'' i) (\<lambda>element.
          and_then (vm_do (vm_array_length (e_command env) z i)) (\<lambda>r.
          let len = (case r of Inr n \<Rightarrow> n | Inl _ \<Rightarrow> 0) in
          and_then (new_varref (ArrayRef i)) (\<lambda>h. ok (array_display element len, h)))))
      else
        and_then (with_vm ''Object'' (\<lambda>z. object_class env z ''Object'' i)) (\<lambda>cls.
        and_then (new_varref (ObjectRef i)) (\<lambda>h. ok (cls @ '' (id='' @ show_nat (unat i) @ '')'', h))))"

definition render_named :: "'w env \<Rightarrow> string \<times> jvalue \<Rightarrow> ('w session, 'e, json) fallible" where
  "render_named env nv = and_then (render_value env (snd nv)) (\<lambda>r. ok (variable_json (fst nv) r))"

text \<open>A local variable is live at the frame's index; the addition wraps as in a release build.\<close>

definition slot_live :: "u64 \<Rightarrow> variable_slot \<Rightarrow> bool" where
  "slot_live idx v = (vs_code_index v \<le> idx \<and> idx < vs_code_index v + ucast (vs_length v))"

definition slot_request :: "variable_slot \<Rightarrow> u32 \<times> u8" where
  "slot_request v = (vs_slot v, case as_bytes (vs_signature v) of b # _ \<Rightarrow> b | [] \<Rightarrow> TAG_OBJECT)"

definition this_variable :: "'w env \<Rightarrow> id_sizes \<Rightarrow> u64 \<Rightarrow> u64 \<Rightarrow> ('w session, 'e, json list) fallible" where
  "this_variable env z thread frm =
     and_then (vm_do (vm_this_object (e_command env) z thread frm)) (\<lambda>r. case r of
       Inr (VObject t i) \<Rightarrow>
         if i \<noteq> 0 then and_then (render_named env (''this'', VObject t i)) (\<lambda>v. ok [v]) else ok []
     | _ \<Rightarrow> ok [])"

definition warn_locals :: "'w env \<Rightarrow> u64 \<Rightarrow> ('w session, 'e, unit) fallible" where
  "warn_locals env cls =
     and_then (gets (\<lambda>s. cls \<in> locals_warned s)) (\<lambda>known.
     if known then ok ()
     else and_then (modify (\<lambda>s. s\<lparr>locals_warned := insert cls (locals_warned s)\<rparr>)) (\<lambda>_.
          and_then (class_signature env cls) (\<lambda>sig.
            emit (write_output ''console'' (''Locals unavailable for '' @ type_name_or ''<unknown>'' sig
              @ '' (compiled without -g)'' @ [CHR 0x0A])))))"

definition local_variables :: "'w env \<Rightarrow> u64 \<Rightarrow> u64 \<Rightarrow> location \<Rightarrow> ('w session, string, json list) fallible" where
  "local_variables env thread frm loc =
     and_then the_vm (\<lambda>z.
     and_then (this_variable env z thread frm) (\<lambda>this.
     and_then (vm_do (vm_variable_table (e_command env) z (class_id loc) (method_id loc))) (\<lambda>r. case r of
       Inr slots \<Rightarrow>
         (let live = filter (slot_live (loc_index loc)) slots in
          if live = [] then ok this
          else and_then (vm_do (vm_stack_values (e_command env) z thread frm (map slot_request live))) (\<lambda>vr.
            and_then (fail_with ''StackFrame.GetValues failed: '' vr) (\<lambda>vs.
            and_then (map_m (render_named env) (zip (map vs_name live) vs)) (\<lambda>rest. ok (this @ rest)))))
     | Inl e \<Rightarrow>
         if is_absent_information e then and_then (warn_locals env (class_id loc)) (\<lambda>_. ok this)
         else err (''VariableTable failed: '' @ show_jdwp_error e))))"

definition ACC_STATIC :: u32 where "ACC_STATIC = 0x0008"

fun chain_fields :: "'w env \<Rightarrow> id_sizes \<Rightarrow> nat \<Rightarrow> u64 \<Rightarrow> ('w session, 'e, field_entry list) fallible" where
  "chain_fields env z 0 type_id = ok []"
| "chain_fields env z (Suc n) type_id =
     (if type_id = 0 then ok []
      else and_then (vm_do (vm_fields (e_command env) z type_id)) (\<lambda>r.
        let own = (case r of Inr fs \<Rightarrow> filter (\<lambda>f. fe_mod_bits f AND ACC_STATIC = 0) fs | Inl _ \<Rightarrow> []) in
        and_then (vm_do (vm_superclass (e_command env) z type_id)) (\<lambda>sr.
        and_then (chain_fields env z n (case sr of Inr i \<Rightarrow> i | Inl _ \<Rightarrow> 0)) (\<lambda>rest. ok (own @ rest)))))"

definition object_children :: "'w env \<Rightarrow> u64 \<Rightarrow> ('w session, string, json list) fallible" where
  "object_children env obj =
     and_then the_vm (\<lambda>z.
     and_then (vm_do (vm_object_type (e_command env) z obj)) (\<lambda>r.
     and_then (fail_with ''ReferenceType failed: '' r) (\<lambda>(_, type_id).
     and_then (chain_fields env z SUPER_CHAIN_CAP type_id) (\<lambda>fs.
     if fs = [] then ok []
     else and_then (vm_do (vm_object_values (e_command env) z obj (map fe_id fs))) (\<lambda>vr.
          and_then (fail_with ''GetValues failed: '' vr) (\<lambda>vs.
            map_m (render_named env) (zip (map fe_name fs) vs)))))))"

definition array_children :: "'w env \<Rightarrow> u64 \<Rightarrow> ('w session, string, json list) fallible" where
  "array_children env obj =
     and_then the_vm (\<lambda>z.
     and_then (vm_do (vm_array_length (e_command env) z obj)) (\<lambda>r.
     and_then (fail_with ''ArrayReference.Length failed: '' r) (\<lambda>len.
     let shown = min len ARRAY_CHILD_CAP in
     and_then (if shown > 0 then
         and_then (vm_do (vm_array_values (e_command env) z obj 0 shown)) (\<lambda>vr.
         and_then (fail_with ''ArrayReference.GetValues failed: '' vr) (\<lambda>vs.
           map_m (render_named env)
             (map (\<lambda>(i, v). (''['' @ show_nat i @ '']'', v)) (enumerate 0 vs))))
       else ok []) (\<lambda>vars.
       ok (if len > shown
           then vars @ [variable_json ELLIPSIS (''('' @ show_nat (unat (len - shown)) @ '' more elements not shown)'', 0)]
           else vars)))))"

definition variables :: "'w env \<Rightarrow> json \<Rightarrow> ('w session, string, json) fallible" where
  "variables env args_json =
     and_then (fail_str ''Bad variables arguments: '' (e_variables_args env args_json)) (\<lambda>a.
     and_then (gets (\<lambda>s. varrefs s (va_variables_reference a))) (\<lambda>v.
     and_then (case v of
         Some (Locals thread frm loc) \<Rightarrow> local_variables env thread frm loc
       | Some (ObjectRef i) \<Rightarrow> object_children env i
       | Some (ArrayRef i) \<Rightarrow> array_children env i
       | None \<Rightarrow> err ''Unknown or stale variablesReference'') (\<lambda>vars.
       ok (JObj [(''variables'', JArr vars)]))))"

section \<open>Exceptions\<close>

definition message_of :: "'w env \<Rightarrow> id_sizes \<Rightarrow> u64 \<Rightarrow> field_entry \<Rightarrow> ('w session, 'e, string option) fallible" where
  "message_of env z exc f =
     and_then (vm_do (vm_object_values (e_command env) z exc [fe_id f])) (\<lambda>r. case r of
       Inr (VObject t i # _) \<Rightarrow>
         if t = TAG_STRING \<and> i \<noteq> 0
         then and_then (vm_do (vm_string_value (e_command env) z i)) (\<lambda>sr.
           ok (case sr of Inr s \<Rightarrow> Some s | Inl _ \<Rightarrow> None))
         else ok None
     | _ \<Rightarrow> ok None)"

fun detail_message :: "'w env \<Rightarrow> id_sizes \<Rightarrow> u64 \<Rightarrow> nat \<Rightarrow> u64 \<Rightarrow> ('w session, 'e, string option) fallible" where
  "detail_message env z exc 0 walk = ok None"
| "detail_message env z exc (Suc n) walk =
     (if walk = 0 then ok None
      else and_then (vm_do (vm_fields (e_command env) z walk)) (\<lambda>r.
        case (case r of Inr fs \<Rightarrow> find (\<lambda>f. fe_name f = ''detailMessage'') fs | Inl _ \<Rightarrow> None) of
          Some f \<Rightarrow> message_of env z exc f
        | None \<Rightarrow> and_then (vm_do (vm_superclass (e_command env) z walk)) (\<lambda>sr.
            detail_message env z exc n (case sr of Inr i \<Rightarrow> i | Inl _ \<Rightarrow> 0))))"

definition exception_json :: "string \<Rightarrow> string option \<Rightarrow> bool \<Rightarrow> json" where
  "exception_json type_name message caught =
     JObj [(''exceptionId'', JStr type_name),
       (''description'', JStr (case message of Some m \<Rightarrow> type_name @ '': '' @ m | None \<Rightarrow> type_name)),
       (''breakMode'', JStr (if caught then ''always'' else ''unhandled'')),
       (''details'', JObj [(''message'', case message of Some m \<Rightarrow> JStr m | None \<Rightarrow> JNull),
          (''typeName'', JStr type_name)])]"

definition exception_info :: "'w env \<Rightarrow> json \<Rightarrow> ('w session, string, json) fallible" where
  "exception_info env args_json =
     and_then (fail_str ''Bad exceptionInfo arguments: '' (e_thread_id_args env args_json)) (\<lambda>a.
     and_then (jdwp_thread (ta_thread_id a)) (\<lambda>thread.
     and_then (gets (\<lambda>s. last_exception s thread)) (\<lambda>le. case le of
       None \<Rightarrow> err ''No exception on this thread''
     | Some (exc, caught) \<Rightarrow>
         and_then the_vm (\<lambda>z.
         and_then (vm_do (vm_object_type (e_command env) z exc)) (\<lambda>r.
         and_then (fail_with ''ReferenceType failed: '' r) (\<lambda>(_, type_id).
         and_then (class_signature env type_id) (\<lambda>sig.
         and_then (detail_message env z exc SUPER_CHAIN_CAP type_id) (\<lambda>message.
           ok (exception_json (type_name_or ''Throwable'' sig) message caught)))))))))"

section \<open>Session start\<close>

text \<open>\<open>JdwpClient::connect\<close> on a fresh socket: write the handshake, check what the peer sends back.\<close>

definition handshake :: "'w env \<Rightarrow> ('w, jdwp_error, conn) fallible" where
  "handshake env w = (case e_handshake env w of
     (Inl e, w') \<Rightarrow> (Inl (Io e), w')
   | (Inr (received, at_eof), w') \<Rightarrow> (connect received at_eof, w'))"

definition start_vm :: "'w env \<Rightarrow> bool \<Rightarrow> ('w session, string, unit) fallible" where
  "start_vm env mode =
     and_then (vm_do (handshake env)) (\<lambda>h.
     and_then (fail_with ''JDWP handshake failed: '' h) (\<lambda>_.
     and_then (vm_do (vm_new (e_command env))) (\<lambda>r.
     and_then (fail_with ''JDWP IDSizes failed: '' r) (\<lambda>z.
       modify (\<lambda>s. s\<lparr>vm := Some z, launch_mode := mode\<rparr>)))))"

text \<open>At most three attempts, 200 ms apart; the child is killed when the last one fails.\<close>

fun connect_retry :: "'w env \<Rightarrow> nat \<Rightarrow> nat \<Rightarrow> ('w session, string, unit) fallible" where
  "connect_retry env port 0 = err ''connect loop yields a stream or returns''"
| "connect_retry env port (Suc n) =
     and_then (world_do (e_tcp_connect env ''127.0.0.1'' port)) (\<lambda>r. case r of
       Inr _ \<Rightarrow> ok ()
     | Inl e \<Rightarrow>
         if n = 0 then and_then (world_mod (e_kill_and_wait env)) (\<lambda>_.
           err (''Could not connect to the JVM's JDWP port: '' @ e))
         else and_then (world_mod (e_sleep env 200)) (\<lambda>_. connect_retry env port n))"

definition JDWP_AGENT :: string where
  "JDWP_AGENT = ''-agentlib:jdwp=transport=dt_socket,server=y,suspend=y,address=127.0.0.1:0''"

definition launch_command :: "launch_args \<Rightarrow> string \<Rightarrow> string \<Rightarrow> string \<Rightarrow> java_command" where
  "launch_command a java joined main =
     \<lparr>jc_java = java, jc_args = la_vm_args a @ [JDWP_AGENT, ''-cp'', joined, main] @ la_args a,
      jc_env = la_env a,
      jc_cwd = (case la_cwd a of Some c \<Rightarrow> Some c | None \<Rightarrow> la_project_root a)\<rparr>"

definition launch_main_class :: "launch_args \<Rightarrow> string option" where
  "launch_main_class a = (case la_main_class a of None \<Rightarrow> None
     | Some c \<Rightarrow> if trim c = [] then None else Some (trim c))"

text \<open>From the assembled class path to a child that listens, with its early output forwarded.\<close>

definition spawn_child :: "'w env \<Rightarrow> java_command \<Rightarrow> ('w session, string, nat) fallible" where
  "spawn_child env cmd =
     and_then (world_do (e_spawn env cmd)) (\<lambda>r.
     and_then (fail_str (''Could not start '' @ jc_java cmd @ '': '') r) (\<lambda>_.
     and_then (world_do (e_child_reads env)) (\<lambda>reads. case wait_for_listen_port [] [] reads of
       None \<Rightarrow> and_then (world_mod (e_kill_and_wait env)) (\<lambda>_.
                 err ''Timed out waiting for the JVM's JDWP listen address.'')
     | Some (Inl e) \<Rightarrow> and_then (world_mod (e_kill_and_wait env)) (\<lambda>_.
                 err (''The JVM exited before accepting a debugger: '' @ e))
     | Some (Inr (port, early)) \<Rightarrow>
         and_then (for_each early (\<lambda>(category, chunk). emit (write_output category chunk))) (\<lambda>_. ok port))))"

definition own_child :: "bool \<Rightarrow> string \<Rightarrow> 'w session \<Rightarrow> 'w session" where
  "own_child stop main s =
     s\<lparr>kill_signals := (if child_kill s then kill_signals s + 1 else kill_signals s),
       child_kill := True, child_reaped := True, child_alive := True,
       stop_on_entry := stop, main_class := Some main\<rparr>"

text \<open>
  The blocking task of the classpath assembly. Its join error is a panic of the task. A task that
  does not return has no result at all; the model gives an error there, and the theory of the
  launch support shows that it returns on every finite file tree.
\<close>

definition assembly_task :: "'w env \<Rightarrow> launch_args \<Rightarrow> 'w \<Rightarrow> (string + (launch_error + launch_plan)) \<times> 'w" where
  "assembly_task env a w =
     (case e_task_error env w of
        Some e \<Rightarrow> (Inl e, w)
      | None \<Rightarrow>
          (case assemble_classpath (e_os env) (la_project_root a) (la_class_paths a) (la_include_test_outputs a)
                  (la_additional_class_paths a) (la_jdk_home a) w of
             Some (r, w') \<Rightarrow> (Inr r, w')
           | None \<Rightarrow> (Inl ''task did not return'', w)))"

definition assemble :: "'w env \<Rightarrow> launch_args \<Rightarrow> ('w session, string, launch_plan) fallible" where
  "assemble env a =
     and_then (world_do (assembly_task env a)) (\<lambda>j.
     and_then (fail_str ''Classpath assembly failed: '' j) (\<lambda>r. case r of
       Inr plan \<Rightarrow> ok plan
     | Inl e \<Rightarrow> and_then (case le_javac_stderr e of Some t \<Rightarrow> emit (write_output ''stderr'' t) | None \<Rightarrow> ok ()) (\<lambda>_.
         err (le_message e))))"

definition launch :: "'w env \<Rightarrow> json \<Rightarrow> ('w session, string, json) fallible" where
  "launch env args_json =
     and_then (fail_str ''Bad launch arguments: '' (e_launch_args env args_json)) (\<lambda>a.
     case launch_main_class a of
       None \<Rightarrow> err (''Missing required launch attribute '' @ [CHR 0x22] @ ''mainClass'' @ [CHR 0x22] @ ''.'')
     | Some main \<Rightarrow>
       and_then (gets (\<lambda>s. locate_java (e_fs env (world s)) (la_jdk_home a))) (\<lambda>j. case j of
         None \<Rightarrow> err ''No JDK found. Set java-vsix-lite.jdk.home.''
       | Some java \<Rightarrow>
         and_then (assemble env a) (\<lambda>plan.
         and_then (modify (\<lambda>s. s\<lparr>source_roots := lp_source_roots plan, scratch_dir := lp_scratch_dir plan\<rparr>)) (\<lambda>_.
         and_then (fail_str ''Unrepresentable classpath entry: '' (e_join_paths env (lp_classpath plan))) (\<lambda>joined.
         and_then (spawn_child env (launch_command a java joined main)) (\<lambda>port.
         and_then (connect_retry env port 3) (\<lambda>_.
         and_then (attempt (start_vm env True)) (\<lambda>started. case started of
           Inl e \<Rightarrow> and_then (world_mod (e_drop_child env)) (\<lambda>_. err e)
         | Inr _ \<Rightarrow> and_then (modify (own_child (la_stop_on_entry a) main)) (\<lambda>_. ok (JObj []))))))))))"

text \<open>The attach loop: one attempt every 500 ms until the deadline, with a number of rounds that
  the deadline cannot outlast.\<close>

fun attach_connect :: "'w env \<Rightarrow> string \<Rightarrow> u16 \<Rightarrow> nat \<Rightarrow> nat \<Rightarrow> ('w session, string, unit) fallible" where
  "attach_connect env host port deadline 0 = err ''no rounds left''"
| "attach_connect env host port deadline (Suc n) =
     and_then (world_do (e_tcp_connect env host (unat port))) (\<lambda>r. case r of
       Inr _ \<Rightarrow> ok ()
     | Inl e \<Rightarrow> and_then (gets (\<lambda>s. e_now env (world s))) (\<lambda>now.
         if now \<ge> deadline
         then err (''Could not attach to '' @ host @ '':'' @ show_nat (unat port) @ '': '' @ e)
         else and_then (world_mod (e_sleep env 500)) (\<lambda>_. attach_connect env host port deadline n)))"

definition attach_timeout :: "attach_args \<Rightarrow> nat" where
  "attach_timeout a = (case aa_timeout a of Some t \<Rightarrow> unat t | None \<Rightarrow> 30000)"

definition attach_rounds :: "attach_args \<Rightarrow> nat" where
  "attach_rounds a = attach_timeout a div 500 + 2"

definition attach :: "'w env \<Rightarrow> json \<Rightarrow> ('w session, string, json) fallible" where
  "attach env args_json =
     and_then (fail_str ''Bad attach arguments: '' (e_attach_args env args_json)) (\<lambda>a.
     let host = (case aa_host_name a of Some h \<Rightarrow> h | None \<Rightarrow> ''localhost'') in
     case aa_port a of
       None \<Rightarrow> err (''Missing required attach attribute '' @ [CHR 0x22] @ ''port'' @ [CHR 0x22] @ ''.'')
     | Some port \<Rightarrow>
       and_then (gets (\<lambda>s. e_now env (world s) + attach_timeout a)) (\<lambda>deadline.
       and_then (attach_connect env host port deadline (attach_rounds a)) (\<lambda>_.
       and_then (start_vm env False) (\<lambda>_.
       and_then (modify (\<lambda>s. s\<lparr>source_roots :=
           (case aa_project_root a of Some root \<Rightarrow> discover_source_roots (e_fs env (world s)) root | None \<Rightarrow> [])
           @ aa_source_paths a\<rparr>)) (\<lambda>_.
         ok (JObj []))))))"

definition arm_entry_prepare :: "'w env \<Rightarrow> ('w session, string, unit) fallible" where
  "arm_entry_prepare env =
     and_then the_vm (\<lambda>z. and_then (gets main_class) (\<lambda>mc. case mc of None \<Rightarrow> ok ()
     | Some main \<Rightarrow>
         and_then (vm_do (vm_event_request_set (e_command env) z EK_CLASS_PREPARE SUSPEND_ALL [ClassMatch main])) (\<lambda>r.
         case r of
           Inr rid \<Rightarrow> modify (\<lambda>s. s\<lparr>entry := Some \<lparr>en_prepare_request_id = rid, en_bp_request_id = None\<rparr>\<rparr>)
         | Inl e \<Rightarrow> emit (write_output ''console'' (''stopOnEntry unavailable: '' @ show_jdwp_error e @ [CHR 0x0A])))))"

definition configuration_done :: "'w env \<Rightarrow> ('w session, string, json) fallible" where
  "configuration_done env =
     and_then (gets (\<lambda>s. launch_mode s \<and> stop_on_entry s)) (\<lambda>arm.
     and_then (if arm then arm_entry_prepare env else ok ()) (\<lambda>_.
     and_then (gets (\<lambda>s. launch_mode s \<or> vm_start_pending s)) (\<lambda>held.
     if held then
       and_then (modify (\<lambda>s. s\<lparr>vm_start_pending := False\<rparr>)) (\<lambda>_.
       and_then the_vm (\<lambda>z.
       and_then (vm_do (vm_resume (e_command env))) (\<lambda>r.
       and_then (fail_with ''resume failed: '' r) (\<lambda>_. ok (JObj [])))))
     else ok (JObj []))))"

section \<open>Termination\<close>

text \<open>Use up the kill channel, if it is still there.\<close>

definition send_kill :: "('w session, 'e, unit) fallible" where
  "send_kill = modify (\<lambda>s. if child_kill s
     then s\<lparr>child_kill := False, kill_signals := kill_signals s + 1\<rparr> else s)"

definition terminate :: "'w env \<Rightarrow> ('w session, 'e, json) fallible" where
  "terminate env =
     and_then (gets vm) (\<lambda>v.
     and_then (case v of
         None \<Rightarrow> send_kill
       | Some z \<Rightarrow> and_then (gets (\<lambda>s. e_exit_in_time env (world s))) (\<lambda>in_time.
           and_then (vm_do (vm_exit (e_command env) 1)) (\<lambda>r.
             if in_time \<and> (case r of Inr _ \<Rightarrow> True | Inl _ \<Rightarrow> False) then ok () else send_kill))) (\<lambda>_.
     and_then (gets (\<lambda>s. launch_mode s \<and> child_alive s)) (\<lambda>backstop.
     and_then (if backstop then modify (\<lambda>s. s\<lparr>kill_timers := kill_timers s + 1\<rparr>) else ok ()) (\<lambda>_.
       ok (JObj [])))))"

definition disconnect :: "'w env \<Rightarrow> json \<Rightarrow> ('w session, string, json) fallible" where
  "disconnect env args_json =
     (let a = (case e_disconnect_args env args_json of Inr a \<Rightarrow> a | Inl _ \<Rightarrow> \<lparr>da_terminate_debuggee = None\<rparr>) in
      and_then (gets (\<lambda>s. case da_terminate_debuggee a of Some b \<Rightarrow> b | None \<Rightarrow> launch_mode s)) (\<lambda>kill.
      if kill then and_then (terminate env) (\<lambda>_. ok (JObj []))
      else and_then (gets vm) (\<lambda>v. case v of None \<Rightarrow> ok (JObj [])
        | Some z \<Rightarrow> and_then (modify (\<lambda>s. s\<lparr>vm := None\<rparr>)) (\<lambda>_.
            and_then (vm_do (vm_dispose (e_command env))) (\<lambda>_. ok (JObj []))))))"

definition cleanup :: "'w env \<Rightarrow> 'w session \<Rightarrow> 'w session" where
  "cleanup env s =
     (let s1 = snd (send_kill s :: (unit + unit) \<times> 'w session);
          s2 = (if child_reaped s1 then s1\<lparr>child_reaped := False, world := e_await_reaped env (world s1)\<rparr> else s1)
      in case scratch_dir s2 of None \<Rightarrow> s2
         | Some d \<Rightarrow> s2\<lparr>scratch_dir := None, world := e_remove_dir_all env d (world s2)\<rparr>)"

section \<open>The event loop\<close>

definition dispatch :: "'w env \<Rightarrow> string \<Rightarrow> json \<Rightarrow> ('w session, string, json) fallible" where
  "dispatch env command a =
     (if command = ''initialize'' then ok capabilities
      else if command = ''launch'' then launch env a
      else if command = ''attach'' then attach env a
      else if command = ''setBreakpoints'' then set_breakpoints env a
      else if command = ''setExceptionBreakpoints'' then set_exception_breakpoints env a
      else if command = ''configurationDone'' then configuration_done env
      else if command = ''threads'' then dap_threads env
      else if command = ''stackTrace'' then stack_trace env a
      else if command = ''scopes'' then scopes env a
      else if command = ''variables'' then variables env a
      else if command = ''continue'' then continue_all env
      else if command = ''next'' then step env a STEP_DEPTH_OVER
      else if command = ''stepIn'' then step env a STEP_DEPTH_INTO
      else if command = ''stepOut'' then step env a STEP_DEPTH_OUT
      else if command = ''pause'' then pause env a
      else if command = ''exceptionInfo'' then exception_info env a
      else if command = ''terminate'' then terminate env
      else if command = ''disconnect'' then disconnect env a
      else if command = ''evaluate'' then err ''Expression evaluation is not supported''
      else err (''Unsupported request: '' @ command))"

definition request_seq :: "json \<Rightarrow> int" where
  "request_seq r = (case as_i64 (index r ''seq'') of Some i \<Rightarrow> i | None \<Rightarrow> 0)"

definition request_command :: "json \<Rightarrow> string" where
  "request_command r = (case as_str (index r ''command'') of Some c \<Rightarrow> c | None \<Rightarrow> [])"

definition handle_request :: "'w env \<Rightarrow> json \<Rightarrow> ('w session, 'e, flow) fallible" where
  "handle_request env req =
     (let command = request_command req in
      and_then (attempt (dispatch env command (index req ''arguments''))) (\<lambda>result.
      and_then (emit (respond (request_seq req) command result)) (\<lambda>_.
        if (command = ''launch'' \<or> command = ''attach'') \<and> (case result of Inr _ \<Rightarrow> True | Inl _ \<Rightarrow> False)
        then and_then (emit (write_event ''initialized'' (JObj []))) (\<lambda>_. ok Continue)
        else if command = ''disconnect'' then ok Exit
        else ok Continue)))"

fun handle :: "'w env \<Rightarrow> inbound \<Rightarrow> ('w session, 'e, flow) fallible" where
  "handle env (Request req) = handle_request env req"
| "handle env StdinClosed = ok Exit"
| "handle env (JdwpEvent payload) = with_vm Continue (\<lambda>z. case parse_composite payload z of
     Inr es \<Rightarrow> and_then (handle_event_set env es) (\<lambda>_. ok Continue)
   | Inl _ \<Rightarrow> and_then send_terminated (\<lambda>_. ok Continue))"
| "handle env JdwpClosed = and_then (modify (\<lambda>s. s\<lparr>vm := None\<rparr>)) (\<lambda>_.
     and_then send_terminated (\<lambda>_. ok Continue))"
| "handle env (ChildOut category chunk) = and_then (emit (write_output category chunk)) (\<lambda>_. ok Continue)"
| "handle env (ChildExit code) =
     and_then (modify (\<lambda>s. s\<lparr>child_alive := False, child_kill := False\<rparr>)) (\<lambda>_.
     and_then (emit (write_event ''exited'' (JObj [(''exitCode'', JInt (case code of Some c \<Rightarrow> c | None \<Rightarrow> 0))]))) (\<lambda>_.
     and_then send_terminated (\<lambda>_. ok Continue)))"
| "handle env KillDeadline = and_then (gets child_alive) (\<lambda>alive.
     and_then (if alive then send_kill else ok ()) (\<lambda>_. ok Continue))"

text \<open>\<open>run_stdio_adapter\<close> on the messages that arrive: handle them up to the one that ends the
  session, then clean up.\<close>

fun run_loop :: "'w env \<Rightarrow> inbound list \<Rightarrow> 'w session \<Rightarrow> 'w session" where
  "run_loop env [] s = s"
| "run_loop env (m # ms) s =
     (case handle env m s of
        (Inr Exit, s') \<Rightarrow> s'
      | (Inr Continue, s') \<Rightarrow> run_loop env ms s'
      | (Inl (), s') \<Rightarrow> s')"

definition run_adapter :: "'w env \<Rightarrow> inbound list \<Rightarrow> 'w \<Rightarrow> 'w session" where
  "run_adapter env ms w = cleanup env (run_loop env ms (session_new w))"

end
