(* ===== verification/Session_Laws.thy ===== *)
theory Session_Laws
  imports Dap_Session
begin

text \<open>
  What every handler of the session keeps. The locale \<open>event_relation\<close> states, for a preorder on
  session states, the few elementary changes a handler is made of (a fresh handle, a new thread
  number, an event sent, a breakpoint list updated, \<dots>); its lemmas carry the preorder through the
  handlers, once. \<open>session_relation\<close> adds the changes of the suspension depth and of the VM, which only
  the execution-control and start-up handlers make. The interpretations are the facts the session owes its client: what is said on
  the wire, how threads are numbered, which handles are valid, which breakpoints exist.
\<close>

section \<open>Case distinctions\<close>

lemma adv_if [sess_inv]:
  "(c \<Longrightarrow> advances R m) \<Longrightarrow> (\<not> c \<Longrightarrow> advances R k) \<Longrightarrow> advances R (if c then m else k)"
  by simp

lemma adv_option [sess_inv]:
  "(x = None \<Longrightarrow> advances R m) \<Longrightarrow> (\<And>a. x = Some a \<Longrightarrow> advances R (k a))
   \<Longrightarrow> advances R (case x of None \<Rightarrow> m | Some a \<Rightarrow> k a)"
  by (cases x) auto

lemma adv_sum [sess_inv]:
  "(\<And>a. advances R (m a)) \<Longrightarrow> (\<And>a. advances R (k a)) \<Longrightarrow> advances R (case x of Inl a \<Rightarrow> m a | Inr a \<Rightarrow> k a)"
  by (cases x) auto

lemma adv_prod [sess_inv]:
  "(\<And>a b. advances R (m a b)) \<Longrightarrow> advances R (case x of (a, b) \<Rightarrow> m a b)"
  by (cases x) auto

lemma adv_list [sess_inv]:
  "advances R m \<Longrightarrow> (\<And>a b. advances R (k a b)) \<Longrightarrow> advances R (case x of [] \<Rightarrow> m | a # b \<Rightarrow> k a b)"
  by (cases x) auto

lemma adv_jvalue [sess_inv]:
  "advances R f1 \<Longrightarrow> (\<And>a. advances R (f2 a)) \<Longrightarrow> (\<And>a. advances R (f3 a)) \<Longrightarrow> (\<And>a. advances R (f4 a))
   \<Longrightarrow> (\<And>a. advances R (f5 a)) \<Longrightarrow> (\<And>a. advances R (f6 a)) \<Longrightarrow> (\<And>a. advances R (f7 a)) \<Longrightarrow> (\<And>a. advances R (f8 a))
   \<Longrightarrow> (\<And>a. advances R (f9 a)) \<Longrightarrow> (\<And>a b. advances R (f10 a b))
   \<Longrightarrow> advances R (case_jvalue f1 f2 f3 f4 f5 f6 f7 f8 f9 f10 x)"
  by (cases x) auto

lemma adv_varref [sess_inv]:
  "(\<And>a b c. advances R (f1 a b c)) \<Longrightarrow> (\<And>a. advances R (f2 a)) \<Longrightarrow> (\<And>a. advances R (f3 a))
   \<Longrightarrow> advances R (case_var_ref f1 f2 f3 x)"
  by (cases x) auto

lemma adv_let [sess_inv]: "advances R (k x) \<Longrightarrow> advances R (let y = x in k y)"
  by simp

lemma advancesD: "advances R m \<Longrightarrow> m s = (r, t) \<Longrightarrow> R s t"
  by (metis advances_def snd_conv)

section \<open>Calls that only reach the world\<close>

definition only_world :: "'w session \<Rightarrow> 'w session \<Rightarrow> bool" where
  "only_world s t \<longleftrightarrow> (\<exists>w. t = s\<lparr>world := w\<rparr>)"

lemma reflp_only_world: "reflp only_world"
  unfolding reflp_def only_world_def by (metis session.surjective session.update_convs(2))

lemma transp_only_world: "transp only_world"
  by (auto simp: transp_def only_world_def)

lemma ow_vm_do: "advances only_world (vm_do m)"
  by (simp add: advances_def vm_do_def only_world_def split: prod.splits) blast

lemmas ow_rules =
  advances_ok [OF reflp_only_world] advances_err [OF reflp_only_world]
  advances_and_then [OF transp_only_world] advances_map_m [OF reflp_only_world transp_only_world]
  ow_vm_do adv_if adv_option adv_sum adv_prod

lemma ow_bind_bp: "advances only_world (bind_bp env z cls tables bp)"
  unfolding bind_bp_def by (intro ow_rules)

lemma ow_bind_bps: "advances only_world (map_m (bind_bp env z cls tables) bps)"
  by (intro ow_rules ow_bind_bp)

text \<open>Binding changes neither the ids nor the lines of the breakpoints.\<close>

lemma bind_bp_same:
  "bind_bp env z cls tables bp s = (Inr (bp', c), t) \<Longrightarrow> bp_id bp' = bp_id bp \<and> bp_line bp' = bp_line bp"
  by (auto simp: bind_bp_def vm_do_def elim!: and_then_InrE split: if_splits option.splits sum.splits prod.splits)

lemma bind_bps_same:
  "map_m (bind_bp env z cls tables) bps s = (Inr bound, t) \<Longrightarrow>
     map (\<lambda>bp. (bp_id bp, bp_line bp)) (map fst bound) = map (\<lambda>bp. (bp_id bp, bp_line bp)) bps"
proof (induction bps arbitrary: s bound)
  case (Cons bp bps)
  then show ?case
    by (auto elim!: and_then_InrE dest: bind_bp_same)
qed simp

section \<open>The contract of the handlers\<close>

text \<open>The state that the contracts below speak about; everything else may change freely.\<close>

definition same_core :: "'w session \<Rightarrow> 'w session \<Rightarrow> bool" where
  "same_core s t \<longleftrightarrow> child_alive t = child_alive s \<and> child_kill t = child_kill s \<and> kill_signals t = kill_signals s
     \<and> suspend_depth t = suspend_depth s \<and> vm t = vm s \<and> writer t = writer s \<and> terminated_sent t = terminated_sent s
     \<and> thread_to_dap t = thread_to_dap s \<and> dap_to_thread t = dap_to_thread s
     \<and> next_thread_id t = next_thread_id s \<and> next_handle t = next_handle s
     \<and> frame_handles t = frame_handles s \<and> varrefs t = varrefs s
     \<and> files t = files s \<and> next_bp_id t = next_bp_id s"

definition lines_replaced :: "string \<Rightarrow> u32 list \<Rightarrow> file_bps \<Rightarrow> 'w session \<Rightarrow> 'w session" where
  "lines_replaced path requested file s =
     (let (bps, next') = add_bps requested (next_bp_id s) (fst (keep_bps requested (fb_bps file)))
      in s\<lparr>files := file_update path (\<lambda>b. b\<lparr>fb_bps := bps\<rparr>) (files s), next_bp_id := next'\<rparr>)"

locale event_relation =
  fixes R :: "'w session \<Rightarrow> 'w session \<Rightarrow> bool"
  assumes refl: "reflp R" and trans: "transp R"
    and other: "same_core s t \<Longrightarrow> R s t"
    and event: "name \<noteq> ''terminated'' \<Longrightarrow> R s (s\<lparr>writer := write_event name body (writer s)\<rparr>)"
    and terminated: "\<not> terminated_sent s \<Longrightarrow>
      R s (s\<lparr>terminated_sent := True, writer := write_event ''terminated'' (JObj []) (writer s)\<rparr>)"
    and thread: "thread_to_dap s th = None \<Longrightarrow>
      R s (s\<lparr>next_thread_id := next_thread_id s + 1, thread_to_dap := (thread_to_dap s)(th \<mapsto> next_thread_id s),
             dap_to_thread := (dap_to_thread s)(next_thread_id s \<mapsto> th)\<rparr>)"
    and new_frame: "R s (s\<lparr>next_handle := next_handle s + 1, frame_handles := (frame_handles s)(next_handle s \<mapsto> fh)\<rparr>)"
    and new_ref: "R s (s\<lparr>next_handle := next_handle s + 1, varrefs := (varrefs s)(next_handle s \<mapsto> v)\<rparr>)"
    and invalidate: "R s (s\<lparr>frame_handles := Map.empty, varrefs := Map.empty\<rparr>)"
    and new_file: "file_lookup path (files s) = None \<Longrightarrow> fb_bps b = [] \<Longrightarrow> R s (s\<lparr>files := files s @ [(path, b)]\<rparr>)"
    and rebind: "file_lookup path (files s) = Some file \<Longrightarrow>
      map (\<lambda>bp. (bp_id bp, bp_line bp)) bps = map (\<lambda>bp. (bp_id bp, bp_line bp)) (fb_bps file) \<Longrightarrow>
      R s (s\<lparr>files := file_update path (\<lambda>b. b\<lparr>fb_bps := bps\<rparr>) (files s)\<rparr>)"
    and kill: "child_kill s \<Longrightarrow> R s (s\<lparr>child_kill := False, kill_signals := kill_signals s + 1\<rparr>)"
    and replace: "file_lookup path (files s) = Some file \<Longrightarrow> R s (lines_replaced path requested file s)"
begin

lemmas adv_basic [sess_inv] =
  advances_ok [OF refl] advances_err [OF refl] advances_and_then [OF trans] advances_gets [OF refl]
  advances_map_m [OF refl trans] advances_fold_m [OF refl trans] advances_for_each [OF refl trans]
  advances_repeat_n [OF refl trans] advances_attempt

lemma adv_other: "(\<And>s. same_core s (f s)) \<Longrightarrow> advances R (modify f)"
  by (simp add: advances_modify other)

lemma adv_vm_do [sess_inv]: "advances R (vm_do m)"
  by (auto simp: advances_def vm_do_def same_core_def split: prod.splits intro!: other)

lemma adv_world_do [sess_inv]: "advances R (world_do m)"
  by (auto simp: advances_def world_do_def same_core_def split: prod.splits intro!: other)

lemma adv_world_mod [sess_inv]: "advances R (world_mod f)"
  unfolding world_mod_def by (rule adv_other) (simp add: same_core_def)

lemma adv_the_vm [sess_inv]: "advances R the_vm"
  using refl by (auto simp: advances_def the_vm_def ok_def err_def reflp_def split: option.splits)

lemma adv_with_vm [sess_inv]: "(\<And>z. advances R (k z)) \<Longrightarrow> advances R (with_vm d k)"
  unfolding with_vm_def by (intro sess_inv)

lemma adv_fail_with [sess_inv]: "advances R (fail_with m r)"
  unfolding fail_with_def by (intro sess_inv)

lemma adv_fail_str [sess_inv]: "advances R (fail_str m r)"
  unfolding fail_str_def by (intro sess_inv)

lemma adv_event: "name \<noteq> ''terminated'' \<Longrightarrow> advances R (emit (write_event name body))"
  unfolding emit_def by (intro advances_modify event)

lemma adv_output [sess_inv]: "advances R (emit (write_output category text))"
  unfolding write_output_def by (intro adv_event) simp

lemma adv_send_terminated [sess_inv]: "advances R send_terminated"
  using refl terminated
  by (auto simp: advances_def send_terminated_def emit_def and_then_def gets_def modify_def ok_def reflp_def)

lemma adv_dap_thread_id [sess_inv]: "advances R (dap_thread_id th)"
  using refl thread
  by (auto simp: advances_def dap_thread_id_def and_then_def gets_def modify_def ok_def reflp_def split: option.splits)

lemma adv_jdwp_thread [sess_inv]: "advances R (jdwp_thread i)"
  unfolding jdwp_thread_def by (intro sess_inv)

lemma adv_invalidate [sess_inv]: "advances R invalidate_handles"
  unfolding invalidate_handles_def by (intro advances_modify invalidate)

lemma adv_on_stop [sess_inv]: "advances R (on_stop th reason)"
  unfolding on_stop_def by (intro sess_inv adv_event) simp

lemma adv_new_frame [sess_inv]: "advances R (new_frame_handle fh)"
  using new_frame
  by (auto simp: advances_def new_frame_handle_def new_handle_def and_then_def gets_def modify_def ok_def)

lemma adv_new_varref [sess_inv]: "advances R (new_varref v)"
  using new_ref
  by (auto simp: advances_def new_varref_def new_handle_def and_then_def gets_def modify_def ok_def)

lemma adv_upd_class [sess_inv]: "advances R (upd_class cls f)"
  unfolding upd_class_def by (rule adv_other) (simp add: same_core_def)

lemma adv_class_signature [sess_inv]: "advances R (class_signature env cls)"
  unfolding class_signature_def by (intro sess_inv)

lemma adv_class_source_file [sess_inv]: "advances R (class_source_file env cls)"
  unfolding class_source_file_def by (intro sess_inv)

lemma adv_class_methods [sess_inv]: "advances R (class_methods env cls)"
  unfolding class_methods_def by (intro sess_inv)

lemma adv_method_line_table [sess_inv]: "advances R (method_line_table env cls mid)"
  unfolding method_line_table_def by (intro sess_inv)

lemma adv_resolve_source [sess_inv]: "advances R (resolve_source env sig cls)"
  unfolding resolve_source_def by (intro sess_inv)

lemma adv_collect_tables [sess_inv]: "advances R (collect_tables env cls ms)"
  unfolding collect_tables_def by (intro sess_inv)

end

context event_relation
begin

text \<open>The two operations that update a file record after calls to the VM, which leave it alone.\<close>

lemma adv_rebind_step:
  assumes "file_lookup path (files s) = Some file"
  shows "R s (snd ((and_then (map_m (bind_bp env z cls tables) (fb_bps file)) (\<lambda>bound.
      and_then (modify (\<lambda>s. s\<lparr>files := file_update path (\<lambda>b. b\<lparr>fb_bps := map fst bound\<rparr>) (files s)\<rparr>)) (\<lambda>_.
        ok (List.map_filter snd bound))) :: ('w session, 'e, int list) fallible) s))"
proof -
  obtain r :: "'e + (line_bp \<times> int option) list" and t where run: "map_m (bind_bp env z cls tables) (fb_bps file) s = (r, t)" by fastforce
  have "only_world s t" using advancesD [OF ow_bind_bps run] .
  then obtain w where t: "t = s\<lparr>world := w\<rparr>" by (auto simp: only_world_def)
  have st: "R s t" unfolding t by (rule other) (simp add: same_core_def)
  show ?thesis
  proof (cases r)
    case (Inl e)
    with run st show ?thesis by (simp add: and_then_cong_Inl)
  next
    case (Inr bound)
    have "R t (t\<lparr>files := file_update path (\<lambda>b. b\<lparr>fb_bps := map fst bound\<rparr>) (files t)\<rparr>)"
    proof (rule rebind)
      show "file_lookup path (files t) = Some file" using assms t by simp
      show "map (\<lambda>bp. (bp_id bp, bp_line bp)) (map fst bound) = map (\<lambda>bp. (bp_id bp, bp_line bp)) (fb_bps file)"
        using run unfolding Inr by (rule bind_bps_same)
    qed
    with st have "R s (t\<lparr>files := file_update path (\<lambda>b. b\<lparr>fb_bps := map fst bound\<rparr>) (files t)\<rparr>)"
      using trans by (blast dest: transpD)
    with run Inr show ?thesis by (simp add: and_then_cong_Inr ok_def)
  qed
qed

lemma adv_bind_lines [sess_inv]: "advances R (bind_lines_in_class env path cls)"
proof -
  have "advances R (and_then (gets (\<lambda>s. file_lookup path (files s))) (\<lambda>f. case f of None \<Rightarrow> ok []
         | Some file \<Rightarrow> and_then (map_m (bind_bp env z cls tables) (fb_bps file)) (\<lambda>bound.
             and_then (modify (\<lambda>s. s\<lparr>files := file_update path (\<lambda>b. b\<lparr>fb_bps := map fst bound\<rparr>) (files s)\<rparr>)) (\<lambda>_.
               ok (List.map_filter snd bound)))))" for z tables
    using adv_rebind_step refl by (auto simp: advances_def ok_def reflp_def split: option.splits)
  note tail = this
  show ?thesis
    unfolding bind_lines_in_class_def
    by (rule adv_with_vm, rule advances_and_then [OF trans], rule adv_class_methods, rule adv_option,
        rule advances_ok [OF refl], rule advances_and_then [OF trans], rule adv_collect_tables, rule tail)
qed

lemma adv_register_file [sess_inv]: "advances R (register_file env z path)"
  unfolding advances_def
proof
  fix s
  show "R s (snd (register_file env z path s))"
  proof (cases "file_lookup path (files s)")
    case (Some f)
    then show ?thesis using refl by (simp add: register_file_def ok_def reflp_def)
  next
    case none: None
    show ?thesis
    proof (cases "fqcn_for_source (e_fs env (world s)) path")
      case None
      then show ?thesis using refl none by (simp add: register_file_def err_def reflp_def)
    next
      case (Some cn)
      let ?req = "map_m (\<lambda>pattern. vm_do (vm_event_request_set (e_command env) z EK_CLASS_PREPARE
          SUSPEND_ALL [ClassMatch pattern])) (prepare_patterns cn)"
      obtain r :: "string + (jdwp_error + u32) list" and t where run: "?req s = (r, t)" by fastforce
      have "advances only_world ?req" by (intro ow_rules)
      from advancesD [OF this run] have "only_world s t" .
      then obtain w where t: "t = s\<lparr>world := w\<rparr>" by (auto simp: only_world_def)
      have st: "R s t" unfolding t by (rule other) (simp add: same_core_def)
      have "R t (t\<lparr>files := files t @ [(path, b)]\<rparr>)" if "fb_bps b = []" for b
        using none t that by (intro new_file) simp_all
      with st have "R s (t\<lparr>files := files t @ [(path, b)]\<rparr>)" if "fb_bps b = []" for b
        using trans that by (blast dest: transpD)
      with st run none Some show ?thesis
        by (cases r) (simp_all add: register_file_def and_then_cong_Inl and_then_cong_Inr modify_def)
    qed
  qed
qed

lemma adv_update_lines [sess_inv]: "advances R (update_lines path requested)"
  unfolding advances_def
proof
  fix s
  show "R s (snd (update_lines path requested s))"
  proof (cases "file_lookup path (files s)")
    case None
    then show ?thesis using refl by (simp add: update_lines_def ok_def reflp_def)
  next
    case (Some f)
    with replace [OF Some, of requested] show ?thesis
      by (simp add: update_lines_def ok_def lines_replaced_def keep_bps_def split: prod.splits)
  qed
qed

lemma adv_set_breakpoints [sess_inv]: "advances R (set_breakpoints env a)"
  unfolding set_breakpoints_def by (intro sess_inv)

lemma adv_set_exception_breakpoints [sess_inv]: "advances R (set_exception_breakpoints env a)"
  unfolding set_exception_breakpoints_def
  by (intro sess_inv adv_other) (simp_all add: same_core_def)

lemma adv_arm_entry [sess_inv]: "advances R (arm_entry_breakpoint env i)"
  unfolding arm_entry_breakpoint_def
  by (intro sess_inv adv_other) (simp_all add: same_core_def)

lemma adv_on_class_prepare [sess_inv]: "advances R (on_class_prepare env rid i)"
  unfolding on_class_prepare_def by (intro sess_inv adv_event) simp_all

lemma adv_handle_event [sess_inv]: "advances R (handle_event env auto e)"
  by (cases e; simp; intro sess_inv adv_other; simp add: same_core_def)

lemma adv_threads [sess_inv]: "advances R (dap_threads env)"
  unfolding dap_threads_def by (intro sess_inv)

lemma adv_show_frame [sess_inv]: "advances R (show_frame env th fr)"
  unfolding show_frame_def by (intro sess_inv)

lemma adv_stack_trace [sess_inv]: "advances R (stack_trace env a)"
  unfolding stack_trace_def by (intro sess_inv)

lemma adv_scopes [sess_inv]: "advances R (scopes env a)"
  unfolding scopes_def by (intro sess_inv)

lemma adv_object_class [sess_inv]: "advances R (object_class env z d i)"
  unfolding object_class_def by (intro sess_inv)

lemma adv_render_value [sess_inv]: "advances R (render_value env v)"
  by (cases v) (simp_all, intro sess_inv, simp_all add: sess_inv)

lemma adv_render_named [sess_inv]: "advances R (render_named env nv)"
  unfolding render_named_def by (intro sess_inv)

lemma adv_this_variable [sess_inv]: "advances R (this_variable env z th frm)"
  unfolding this_variable_def by (intro sess_inv)

lemma adv_warn_locals [sess_inv]: "advances R (warn_locals env cls)"
  unfolding warn_locals_def by (intro sess_inv adv_other) (simp add: same_core_def)

lemma adv_local_variables [sess_inv]: "advances R (local_variables env th frm loc)"
  unfolding local_variables_def by (intro sess_inv)

lemma adv_chain_fields [sess_inv]: "advances R (chain_fields env z n i)"
  by (induction n arbitrary: i) (auto intro!: sess_inv simp: Let_def)

lemma adv_object_children [sess_inv]: "advances R (object_children env i)"
  unfolding object_children_def by (intro sess_inv)

lemma adv_array_children [sess_inv]: "advances R (array_children env i)"
  unfolding array_children_def by (intro sess_inv)

lemma adv_variables [sess_inv]: "advances R (variables env a)"
  unfolding variables_def by (intro sess_inv)

lemma adv_message_of [sess_inv]: "advances R (message_of env z exc f)"
  unfolding message_of_def by (intro sess_inv)

lemma adv_detail_message [sess_inv]: "advances R (detail_message env z exc n i)"
  by (induction n arbitrary: i) (auto intro!: sess_inv)

lemma adv_exception_info [sess_inv]: "advances R (exception_info env a)"
  unfolding exception_info_def by (intro sess_inv)

lemma adv_connect_retry [sess_inv]: "advances R (connect_retry env port n)"
  by (induction n) (auto intro!: sess_inv)

lemma adv_spawn_child [sess_inv]: "advances R (spawn_child env cmd)"
  unfolding spawn_child_def by (intro sess_inv)

lemma adv_assemble [sess_inv]: "advances R (assemble env a)"
  unfolding assemble_def by (intro sess_inv)

lemma adv_attach_connect [sess_inv]: "advances R (attach_connect env host port deadline n)"
  by (induction n) (auto intro!: sess_inv)

lemma adv_arm_entry_prepare [sess_inv]: "advances R (arm_entry_prepare env)"
  unfolding arm_entry_prepare_def by (intro sess_inv adv_other) (simp_all add: same_core_def)

lemma adv_configuration_done [sess_inv]: "advances R (configuration_done env)"
  unfolding configuration_done_def by (intro sess_inv adv_other) (simp_all add: same_core_def)

lemma adv_send_kill [sess_inv]: "advances R send_kill"
  unfolding send_kill_def using refl kill by (intro advances_modify) (simp add: reflp_def)

lemma adv_terminate [sess_inv]: "advances R (terminate env)"
  unfolding terminate_def by (intro sess_inv adv_other) (simp_all add: same_core_def)

end

text \<open>The handlers that also change the suspension depth or the VM.\<close>

locale session_relation = event_relation +
  assumes depth: "R s (s\<lparr>suspend_depth := d\<rparr>)"
    and connection: "R s (s\<lparr>vm := v\<rparr>)"
    and child: "R s (own_child stop main s)"
    and child_gone: "R s (s\<lparr>child_alive := False, child_kill := False\<rparr>)"
begin

lemma control:
  assumes "same_core (s\<lparr>suspend_depth := d, vm := v\<rparr>) t" shows "R s t"
proof -
  have "R s (s\<lparr>suspend_depth := d\<rparr>)" by (rule depth)
  moreover have "R (s\<lparr>suspend_depth := d\<rparr>) (s\<lparr>suspend_depth := d, vm := v\<rparr>)"
    using connection [of "s\<lparr>suspend_depth := d\<rparr>" v] by simp
  moreover have "R (s\<lparr>suspend_depth := d, vm := v\<rparr>) t" using assms by (rule other)
  ultimately show ?thesis using trans by (meson transpD)
qed

lemma adv_control: "(\<And>s. same_core (s\<lparr>suspend_depth := suspend_depth (f s), vm := vm (f s)\<rparr>) (f s)) \<Longrightarrow> advances R (modify f)"
  by (auto intro!: advances_modify control)

lemma adv_handle_event_set [sess_inv]: "advances R (handle_event_set env es)"
  unfolding handle_event_set_def resume_if_def
  by (intro sess_inv adv_control) (simp_all add: same_core_def)

lemma adv_continue_all [sess_inv]: "advances R (continue_all env)"
  unfolding continue_all_def by (intro sess_inv adv_control) (simp_all add: same_core_def)

lemma adv_step [sess_inv]: "advances R (step env a d)"
  unfolding step_def by (intro sess_inv adv_control) (simp_all add: same_core_def)

lemma adv_pause [sess_inv]: "advances R (pause env a)"
  unfolding pause_def by (intro sess_inv adv_control adv_event) (simp_all add: same_core_def)

lemma adv_start_vm [sess_inv]: "advances R (start_vm env m)"
  unfolding start_vm_def by (intro sess_inv adv_control) (simp add: same_core_def)

lemma adv_child: "advances R (modify (own_child stop main))"
  by (intro advances_modify child)

lemma adv_launch [sess_inv]: "advances R (launch env a)"
  unfolding launch_def by (intro sess_inv adv_child adv_control) (simp_all add: same_core_def)

lemma adv_attach [sess_inv]: "advances R (attach env a)"
  unfolding attach_def by (intro sess_inv adv_control) (simp_all add: same_core_def)

lemma adv_disconnect [sess_inv]: "advances R (disconnect env a)"
  unfolding disconnect_def by (intro sess_inv adv_control) (simp_all add: same_core_def)

text \<open>All requests, and all inbound messages but requests (whose response is not an event).\<close>

lemma adv_dispatch: "advances R (dispatch env command a)"
  unfolding dispatch_def by (intro sess_inv)

lemma adv_handle: "(\<And>req. m \<noteq> Request req) \<Longrightarrow> advances R (handle env m)"
  by (cases m) (auto intro!: sess_inv advances_modify connection child_gone adv_event)

end

section \<open>What is said on the wire\<close>

definition is_event :: "json \<Rightarrow> bool" where
  "is_event m = (index m ''type'' = JStr ''event'')"

definition is_terminated :: "json \<Rightarrow> bool" where
  "is_terminated m = (is_event m \<and> index m ''event'' = JStr ''terminated'')"

definition terminated_json :: json where
  "terminated_json = event_json ''terminated'' (JObj [])"

text \<open>Only events were sent, and \<open>terminated\<close> among them at most once and never again.\<close>

definition speaks :: "'w session \<Rightarrow> 'w session \<Rightarrow> bool" where
  "speaks s t \<longleftrightarrow> (terminated_sent s \<longrightarrow> terminated_sent t) \<and>
     (\<exists>ms. writer t = fold send ms (writer s) \<and> list_all is_event ms
        \<and> filter is_terminated ms = (if terminated_sent t \<and> \<not> terminated_sent s then [terminated_json] else []))"

lemma is_event_json [simp]: "is_event (event_json n b)"
  by (simp add: is_event_def event_json_def)

lemma is_terminated_json [simp]: "is_terminated (event_json n b) \<longleftrightarrow> n = ''terminated''"
  by (simp add: is_terminated_def is_event_def event_json_def)

lemma speaks_refl: "speaks s s"
  unfolding speaks_def by (auto intro: exI [of _ "[]"])

lemma speaks_trans:
  assumes st: "speaks s t" and tu: "speaks t u" shows "speaks s u"
proof -
  from st obtain ms where ms: "writer t = fold send ms (writer s)" "list_all is_event ms"
    "filter is_terminated ms = (if terminated_sent t \<and> \<not> terminated_sent s then [terminated_json] else [])"
    "terminated_sent s \<longrightarrow> terminated_sent t"
    unfolding speaks_def by blast
  from tu obtain ns where ns: "writer u = fold send ns (writer t)" "list_all is_event ns"
    "filter is_terminated ns = (if terminated_sent u \<and> \<not> terminated_sent t then [terminated_json] else [])"
    "terminated_sent t \<longrightarrow> terminated_sent u"
    unfolding speaks_def by blast
  have "writer u = fold send (ms @ ns) (writer s)" "list_all is_event (ms @ ns)"
    using ms ns by simp_all
  moreover have "filter is_terminated (ms @ ns)
      = (if terminated_sent u \<and> \<not> terminated_sent s then [terminated_json] else [])"
    using ms(3,4) ns(3,4) by (cases "terminated_sent t") simp_all
  ultimately show ?thesis unfolding speaks_def using ms(4) ns(4) by blast
qed

lemma speaks_same: "same_core s t \<Longrightarrow> speaks s t"
  unfolding speaks_def same_core_def by (auto intro: exI [of _ "[]"])

lemma speaks_event:
  "name \<noteq> ''terminated'' \<Longrightarrow> speaks s (s\<lparr>writer := write_event name body (writer s)\<rparr>)"
  unfolding speaks_def write_event_def by (auto intro: exI [of _ "[event_json name body]"])

lemma speaks_terminated:
  "\<not> terminated_sent s \<Longrightarrow>
   speaks s (s\<lparr>terminated_sent := True, writer := write_event ''terminated'' (JObj []) (writer s)\<rparr>)"
  unfolding speaks_def write_event_def
  by (auto intro: exI [of _ "[event_json ''terminated'' (JObj [])]"] simp: terminated_json_def)

lemma speaks_frame: "writer t = writer s \<Longrightarrow> terminated_sent t = terminated_sent s \<Longrightarrow> speaks s t"
  unfolding speaks_def by (auto intro: exI [of _ "[]"])

interpretation speech: session_relation speaks
proof
  show "reflp speaks" by (simp add: reflp_def speaks_refl)
  show "transp speaks" by (auto simp: transp_def intro: speaks_trans)
qed (auto intro!: speaks_frame simp: speaks_same speaks_event speaks_terminated lines_replaced_def own_child_def split: prod.splits)

section \<open>How threads are numbered\<close>

text \<open>The two maps are inverse to each other, and the numbers given out so far are below the next.\<close>

definition thread_inv :: "'w session \<Rightarrow> bool" where
  "thread_inv s \<longleftrightarrow> (\<forall>th i. thread_to_dap s th = Some i \<longleftrightarrow> dap_to_thread s i = Some th)
     \<and> (\<forall>th i. thread_to_dap s th = Some i \<longrightarrow> 1 \<le> i \<and> i < next_thread_id s) \<and> 1 \<le> next_thread_id s"

definition numbers :: "'w session \<Rightarrow> 'w session \<Rightarrow> bool" where
  "numbers s t \<longleftrightarrow> (thread_inv s \<longrightarrow> thread_inv t) \<and> thread_to_dap s \<subseteq>\<^sub>m thread_to_dap t"

lemma numbers_frame:
  "thread_to_dap t = thread_to_dap s \<Longrightarrow> dap_to_thread t = dap_to_thread s
   \<Longrightarrow> next_thread_id t = next_thread_id s \<Longrightarrow> numbers s t"
  by (simp add: numbers_def thread_inv_def)

lemma numbers_thread:
  assumes "thread_to_dap s th = None"
  shows "numbers s (s\<lparr>next_thread_id := next_thread_id s + 1, thread_to_dap := (thread_to_dap s)(th \<mapsto> next_thread_id s),
             dap_to_thread := (dap_to_thread s)(next_thread_id s \<mapsto> th)\<rparr>)"
proof -
  have "dap_to_thread s (next_thread_id s) = None" if "thread_inv s"
    using that unfolding thread_inv_def by (metis less_irrefl not_None_eq)
  then show ?thesis
    using assms unfolding numbers_def thread_inv_def map_le_def by (auto simp: dom_def) force+
qed

interpretation numbering: session_relation numbers
proof
  show "reflp numbers" by (simp add: reflp_def numbers_def)
  show "transp numbers" by (auto simp: transp_def numbers_def intro: map_le_trans)
qed (auto intro!: numbers_frame numbers_thread simp: same_core_def lines_replaced_def own_child_def split: prod.splits)

section \<open>Which handles are valid\<close>

definition handle_inv :: "'w session \<Rightarrow> bool" where
  "handle_inv s \<longleftrightarrow> (\<forall>h. frame_handles s h \<noteq> None \<or> varrefs s h \<noteq> None \<longrightarrow> 1000 \<le> h \<and> h < next_handle s)
     \<and> (\<forall>h. frame_handles s h = None \<or> varrefs s h = None) \<and> 1000 \<le> next_handle s"

text \<open>A handle valid afterwards was valid before, with the same meaning, or is new.\<close>

definition hands_out :: "'w session \<Rightarrow> 'w session \<Rightarrow> bool" where
  "hands_out s t \<longleftrightarrow> (handle_inv s \<longrightarrow> handle_inv t) \<and> next_handle s \<le> next_handle t
     \<and> (\<forall>h. h < next_handle s \<longrightarrow> (frame_handles t h = frame_handles s h \<or> frame_handles t h = None)
                            \<and> (varrefs t h = varrefs s h \<or> varrefs t h = None))"

lemma hands_out_frame:
  "frame_handles t = frame_handles s \<Longrightarrow> varrefs t = varrefs s \<Longrightarrow> next_handle t = next_handle s \<Longrightarrow> hands_out s t"
  by (simp add: hands_out_def handle_inv_def)

lemma handle_inv_new:
  "handle_inv s \<Longrightarrow> handle_inv (s\<lparr>next_handle := next_handle s + 1, frame_handles := (frame_handles s)(next_handle s \<mapsto> fh)\<rparr>)"
  "handle_inv s \<Longrightarrow> handle_inv (s\<lparr>next_handle := next_handle s + 1, varrefs := (varrefs s)(next_handle s \<mapsto> v)\<rparr>)"
proof -
  assume inv: "handle_inv s"
  then have "varrefs s (next_handle s) = None" "frame_handles s (next_handle s) = None"
    unfolding handle_inv_def by blast+
  with inv show
    "handle_inv (s\<lparr>next_handle := next_handle s + 1, frame_handles := (frame_handles s)(next_handle s \<mapsto> fh)\<rparr>)"
    "handle_inv (s\<lparr>next_handle := next_handle s + 1, varrefs := (varrefs s)(next_handle s \<mapsto> v)\<rparr>)"
    by (auto simp: handle_inv_def less_imp_le)
qed

lemma hands_out_new:
  "hands_out s (s\<lparr>next_handle := next_handle s + 1, frame_handles := (frame_handles s)(next_handle s \<mapsto> fh)\<rparr>)"
  "hands_out s (s\<lparr>next_handle := next_handle s + 1, varrefs := (varrefs s)(next_handle s \<mapsto> v)\<rparr>)"
  "hands_out s (s\<lparr>frame_handles := Map.empty, varrefs := Map.empty\<rparr>)"
  by (simp_all add: hands_out_def handle_inv_new) (simp add: handle_inv_def)

lemma hands_out_trans: "hands_out s t \<Longrightarrow> hands_out t u \<Longrightarrow> hands_out s u"
  unfolding hands_out_def by (metis less_le_trans order_trans)

interpretation handing: session_relation hands_out
proof
  show "reflp hands_out" by (simp add: reflp_def hands_out_def)
  show "transp hands_out" by (auto simp: transp_def intro: hands_out_trans)
qed (auto intro!: hands_out_frame hands_out_new simp: same_core_def lines_replaced_def own_child_def split: prod.splits)

section \<open>Which breakpoints exist\<close>

abbreviation bp_ids :: "file_bps \<Rightarrow> int set" where
  "bp_ids b \<equiv> bp_id ` set (fb_bps b)"

text \<open>Within a file ids and lines are distinct; no id is used in two files; ids are below the next.\<close>

definition file_ok :: "int \<Rightarrow> file_bps \<Rightarrow> bool" where
  "file_ok n b \<longleftrightarrow> distinct (map bp_id (fb_bps b)) \<and> distinct (map bp_line (fb_bps b)) \<and> (\<forall>i \<in> bp_ids b. 1 \<le> i \<and> i < n)"

definition bp_inv :: "'w session \<Rightarrow> bool" where
  "bp_inv s \<longleftrightarrow> (\<forall>p b. file_lookup p (files s) = Some b \<longrightarrow> file_ok (next_bp_id s) b)
     \<and> (\<forall>p q b c. p \<noteq> q \<and> file_lookup p (files s) = Some b \<and> file_lookup q (files s) = Some c
          \<longrightarrow> bp_ids b \<inter> bp_ids c = {})
     \<and> 1 \<le> next_bp_id s"

definition keeps_bps :: "'w session \<Rightarrow> 'w session \<Rightarrow> bool" where
  "keeps_bps s t \<longleftrightarrow> (bp_inv s \<longrightarrow> bp_inv t) \<and> next_bp_id s \<le> next_bp_id t"

lemma lookup_file_update:
  "file_lookup p (file_update path f fs) = (if p = path then map_option f (file_lookup p fs) else file_lookup p fs)"
  by (induction fs) (auto simp: file_lookup_def file_update_def)

lemma lookup_file_append:
  "file_lookup path fs = None \<Longrightarrow>
   file_lookup p (fs @ [(path, b)]) = (if p = path then Some b else file_lookup p fs)"
  by (auto simp: file_lookup_def map_add_def split: option.splits)

text \<open>Replacing the record of one file by one whose ids are old ones of that file or new.\<close>

lemma bp_inv_update:
  assumes inv: "bp_inv s" and f: "file_lookup path (files s) = Some f"
    and n: "next_bp_id s \<le> next_bp_id t" and g: "file_ok (next_bp_id t) g"
    and ids: "bp_ids g \<subseteq> bp_ids f \<union> {next_bp_id s..}"
    and look: "\<And>p. file_lookup p (files t) = (if p = path then Some g else file_lookup p (files s))"
  shows "bp_inv t"
proof -
  have old: "bp_ids b \<inter> bp_ids g = {}" if "p \<noteq> path" "file_lookup p (files s) = Some b" for p b
  proof -
    have "bp_ids b \<inter> bp_ids f = {}" using inv that f unfolding bp_inv_def by blast
    moreover have "i < next_bp_id s" if "i \<in> bp_ids b" for i
      using inv \<open>file_lookup p (files s) = Some b\<close> that unfolding bp_inv_def file_ok_def by blast
    ultimately show ?thesis using ids by fastforce
  qed
  have "file_ok (next_bp_id t) b" if "file_lookup p (files s) = Some b" for p b
    using inv that n unfolding bp_inv_def file_ok_def by fastforce
  then have "\<forall>p b. file_lookup p (files t) = Some b \<longrightarrow> file_ok (next_bp_id t) b"
    using g by (auto simp: look)
  moreover have "\<forall>p q b c. p \<noteq> q \<and> file_lookup p (files t) = Some b \<and> file_lookup q (files t) = Some c
          \<longrightarrow> bp_ids b \<inter> bp_ids c = {}"
    using inv old unfolding bp_inv_def look by (auto split: if_splits)
  ultimately show ?thesis using inv n unfolding bp_inv_def by auto
qed

text \<open>The new breakpoints of \<open>set_breakpoints\<close> get consecutive fresh ids, one per missing line.\<close>

lemma add_bps_spec:
  "add_bps ls n bps = (bps', n') \<Longrightarrow> distinct (map bp_line bps) \<Longrightarrow>
     (\<exists>new. bps' = bps @ new \<and> map bp_id new = [n..n' - 1] \<and> (\<forall>bp \<in> set new. \<not> bp_verified bp \<and> bp_request_ids bp = []))
     \<and> n \<le> n' \<and> distinct (map bp_line bps')
     \<and> bp_line ` set bps' = bp_line ` set bps \<union> set ls"
proof (induction ls arbitrary: n bps)
  case (Cons l ls)
  show ?case
  proof (cases "\<exists>bp \<in> set bps. bp_line bp = l")
    case True
    with Cons show ?thesis by auto
  next
    case False
    let ?b = "\<lparr>bp_id = n, bp_line = l, bp_verified = False, bp_actual_line = None, bp_message = None, bp_request_ids = []\<rparr>"
    from False Cons.prems have rec: "add_bps ls (n + 1) (bps @ [?b]) = (bps', n')" "distinct (map bp_line (bps @ [?b]))"
      by auto
    from Cons.IH [OF rec] obtain new where new: "bps' = (bps @ [?b]) @ new" "map bp_id new = [n + 1..n' - 1]"
      "\<forall>bp \<in> set new. \<not> bp_verified bp \<and> bp_request_ids bp = []"
      and rest: "n + 1 \<le> n'" "distinct (map bp_line bps')"
        "bp_line ` set bps' = bp_line ` set (bps @ [?b]) \<union> set ls" by blast
    have "bps' = bps @ (?b # new)" "map bp_id (?b # new) = [n..n' - 1]"
      using new rest(1) by (simp_all add: upto_rec1)
    then have "\<exists>new. bps' = bps @ new \<and> map bp_id new = [n..n' - 1] \<and> (\<forall>bp \<in> set new. \<not> bp_verified bp \<and> bp_request_ids bp = [])"
      using new(3) by (intro exI [of _ "?b # new"]) simp
    with rest show ?thesis by auto
  qed
qed simp

lemma add_bps_mono: "add_bps ls n bps = (bps', n') \<Longrightarrow> n \<le> n'"
  by (induction ls arbitrary: n bps) (fastforce split: if_splits)+

lemma keeps_replace:
  assumes f: "file_lookup path (files s) = Some f"
  shows "keeps_bps s (lines_replaced path requested f s)"
proof -
  let ?kept = "fst (keep_bps requested (fb_bps f))"
  obtain bps n' where add: "add_bps requested (next_bp_id s) ?kept = (bps, n')" by fastforce
  let ?t = "s\<lparr>files := file_update path (\<lambda>b. b\<lparr>fb_bps := bps\<rparr>) (files s), next_bp_id := n'\<rparr>"
  have eq: "lines_replaced path requested f s = ?t" by (simp add: lines_replaced_def add)
  have mono: "next_bp_id s \<le> n'"
    using add by (rule add_bps_mono)
  show ?thesis
  proof (cases "bp_inv s")
    case True
    then have ok: "file_ok (next_bp_id s) f" using f by (simp add: bp_inv_def)
    then have dl: "distinct (map bp_line ?kept)" by (simp add: keep_bps_def file_ok_def distinct_map_filter)
    from add_bps_spec [OF add dl] obtain new where
      new: "bps = ?kept @ new" "map bp_id new = [next_bp_id s..n' - 1]" and le: "next_bp_id s \<le> n'"
      and dist: "distinct (map bp_line bps)" by blast
    have kept: "bp_id ` set ?kept \<subseteq> bp_ids f" "distinct (map bp_id ?kept)"
      using ok by (auto simp: keep_bps_def file_ok_def distinct_map_filter)
    have new_ids: "bp_id ` set new = {next_bp_id s..n' - 1}" using new(2) by (metis set_map set_upto)
    have "i < next_bp_id s" if "i \<in> bp_id ` set ?kept" for i
      using that kept(1) ok unfolding file_ok_def by blast
    then have "bp_id ` set ?kept \<inter> {next_bp_id s..n' - 1} = {}" by force
    then have "distinct (map bp_id bps)"
      using kept(2) new by (simp add: inf_commute)
    moreover have "1 \<le> i \<and> i < n'" if "i \<in> bp_id ` set bps" for i
    proof -
      have "1 \<le> next_bp_id s" using True by (simp add: bp_inv_def)
      moreover from that have "i \<in> bp_ids f \<or> i \<in> {next_bp_id s..n' - 1}"
        using kept(1) new_ids unfolding new(1) by (auto simp: image_Un)
      ultimately show ?thesis using ok le unfolding file_ok_def by fastforce
    qed
    ultimately have "file_ok n' (f\<lparr>fb_bps := bps\<rparr>)"
      using dist unfolding file_ok_def by simp
    moreover have "bp_id ` set bps \<subseteq> bp_ids f \<union> {next_bp_id s..}"
      using kept(1) new_ids unfolding new(1) set_append image_Un by auto
    ultimately have "bp_inv ?t"
      using le f by (intro bp_inv_update [OF True f, where g = "f\<lparr>fb_bps := bps\<rparr>"]) (simp_all add: lookup_file_update)
    then show ?thesis using mono by (simp add: keeps_bps_def eq)
  qed (simp add: keeps_bps_def eq mono)
qed

lemma keeps_frame: "files t = files s \<Longrightarrow> next_bp_id t = next_bp_id s \<Longrightarrow> keeps_bps s t"
  by (simp add: keeps_bps_def bp_inv_def)

lemma keeps_new_file:
  "file_lookup path (files s) = None \<Longrightarrow> fb_bps b = [] \<Longrightarrow> keeps_bps s (s\<lparr>files := files s @ [(path, b)]\<rparr>)"
  unfolding keeps_bps_def bp_inv_def by (auto simp: lookup_file_append file_ok_def)

lemma keeps_rebind:
  assumes f: "file_lookup path (files s) = Some f"
    and same: "map (\<lambda>bp. (bp_id bp, bp_line bp)) bps = map (\<lambda>bp. (bp_id bp, bp_line bp)) (fb_bps f)"
  shows "keeps_bps s (s\<lparr>files := file_update path (\<lambda>b. b\<lparr>fb_bps := bps\<rparr>) (files s)\<rparr>)"
proof -
  have ids: "map bp_id bps = map bp_id (fb_bps f)" and lines: "map bp_line bps = map bp_line (fb_bps f)"
    using arg_cong [OF same, of "map fst"] arg_cong [OF same, of "map snd"] by (simp_all add: comp_def)
  then have "bp_id ` set bps = bp_ids f" by (metis set_map)
  with ids lines have "file_ok n (f\<lparr>fb_bps := bps\<rparr>) \<longleftrightarrow> file_ok n f" for n by (simp add: file_ok_def)
  then have "bp_inv (s\<lparr>files := file_update path (\<lambda>b. b\<lparr>fb_bps := bps\<rparr>) (files s)\<rparr>)" if "bp_inv s"
    using that f \<open>bp_id ` set bps = bp_ids f\<close>
    by (intro bp_inv_update [OF that f, where g = "f\<lparr>fb_bps := bps\<rparr>"]) (auto simp: lookup_file_update bp_inv_def)
  then show ?thesis by (simp add: keeps_bps_def)
qed

interpretation bookkeeping: session_relation keeps_bps
proof
  show "reflp keeps_bps" by (simp add: reflp_def keeps_bps_def)
  show "transp keeps_bps" by (auto simp: transp_def keeps_bps_def)
qed (auto intro!: keeps_frame keeps_new_file keeps_rebind keeps_replace simp: same_core_def own_child_def)

section \<open>Who touches the suspension depth\<close>

text \<open>Handlers outside the control group leave the depth and the VM alone.\<close>

definition settled :: "'w session \<Rightarrow> 'w session \<Rightarrow> bool" where
  "settled s t \<longleftrightarrow> suspend_depth t = suspend_depth s \<and> vm t = vm s"

interpretation settling: event_relation settled
proof
  show "reflp settled" by (simp add: reflp_def settled_def)
  show "transp settled" by (simp add: transp_def settled_def)
qed (auto simp: settled_def same_core_def lines_replaced_def split: prod.splits)

section \<open>Whole runs\<close>

text \<open>A preorder that also survives responses survives every message and every run.\<close>

locale session_run = session_relation +
  assumes response: "R s (s\<lparr>writer := respond seq command result (writer s)\<rparr>)"
begin

lemma adv_handle_request: "advances R (handle_request env req)"
proof -
  have "advances R (emit (respond q c r))" for q c r
    unfolding emit_def by (intro advances_modify response)
  then show ?thesis
    unfolding handle_request_def
    by (intro adv_let adv_basic adv_dispatch adv_if adv_event) simp_all
qed

lemma adv_message: "advances R (handle env m)"
proof (cases "\<exists>req. m = Request req")
  case True
  then show ?thesis using adv_handle_request by auto
next
  case False
  then show ?thesis by (intro adv_handle) blast
qed

lemma run: "R s (run_loop env ms s)"
proof (induction ms arbitrary: s)
  case Nil
  then show ?case using refl by (simp add: reflp_def)
next
  case (Cons m ms)
  obtain r :: "unit + flow" and t where h: "handle env m s = (r, t)" by fastforce
  have "R s t" using advancesD [OF adv_message h] .
  moreover have "R s (run_loop env ms t)" using \<open>R s t\<close> Cons.IH [of t] trans by (blast dest: transpD)
  ultimately show ?case using h by (auto split: sum.splits flow.splits unit.splits)
qed

end

text \<open>Events and responses only, and \<open>terminated\<close> at most once and never again.\<close>

definition is_response :: "json \<Rightarrow> bool" where
  "is_response m = (index m ''type'' = JStr ''response'')"

definition talks :: "'w session \<Rightarrow> 'w session \<Rightarrow> bool" where
  "talks s t \<longleftrightarrow> (terminated_sent s \<longrightarrow> terminated_sent t) \<and>
     (\<exists>ms. writer t = fold send ms (writer s) \<and> list_all (\<lambda>m. is_event m \<or> is_response m) ms
        \<and> filter is_terminated ms = (if terminated_sent t \<and> \<not> terminated_sent s then [terminated_json] else []))"

lemma speaks_talks: "speaks s t \<Longrightarrow> talks s t"
  unfolding speaks_def talks_def by (metis (mono_tags, lifting) list.pred_mono_strong)

lemma is_response_json [simp]:
  "is_response (response_json q c r)" "\<not> is_terminated (response_json q c r)"
  by (simp_all add: is_response_def is_terminated_def is_event_def response_json_def split: sum.splits)

lemma talks_response: "talks s (s\<lparr>writer := respond seq command result (writer s)\<rparr>)"
  unfolding talks_def respond_def by (auto intro: exI [of _ "[response_json seq command result]"])

lemma talks_trans:
  assumes st: "talks s t" and tu: "talks t u" shows "talks s u"
proof -
  from st obtain ms where ms: "writer t = fold send ms (writer s)" "list_all (\<lambda>m. is_event m \<or> is_response m) ms"
    "filter is_terminated ms = (if terminated_sent t \<and> \<not> terminated_sent s then [terminated_json] else [])"
    "terminated_sent s \<longrightarrow> terminated_sent t"
    unfolding talks_def by blast
  from tu obtain ns where ns: "writer u = fold send ns (writer t)" "list_all (\<lambda>m. is_event m \<or> is_response m) ns"
    "filter is_terminated ns = (if terminated_sent u \<and> \<not> terminated_sent t then [terminated_json] else [])"
    "terminated_sent t \<longrightarrow> terminated_sent u"
    unfolding talks_def by blast
  have "writer u = fold send (ms @ ns) (writer s)" "list_all (\<lambda>m. is_event m \<or> is_response m) (ms @ ns)"
    using ms ns by simp_all
  moreover have "filter is_terminated (ms @ ns)
      = (if terminated_sent u \<and> \<not> terminated_sent s then [terminated_json] else [])"
    using ms(3,4) ns(3,4) by (cases "terminated_sent t") simp_all
  ultimately show ?thesis unfolding talks_def using ms(4) ns(4) by blast
qed

interpretation talking: session_run talks
proof
  show "reflp talks" by (simp add: reflp_def speaks_talks speaks_refl)
  show "transp talks" by (auto simp: transp_def intro: talks_trans)
qed (simp_all add: speaks_talks speech.other speech.event speech.terminated speech.thread speech.new_frame
       speech.new_ref speech.invalidate speech.new_file speech.rebind speech.replace
       speech.depth speech.connection speaks_talks [OF speaks_frame] speech.child speech.child_gone talks_response)

interpretation numbering_run: session_run numbers
  by unfold_locales (simp add: numbers_frame)

interpretation handing_run: session_run hands_out
  by unfold_locales (simp add: hands_out_frame)

interpretation bookkeeping_run: session_run keeps_bps
  by unfold_locales (simp add: keeps_frame)

text \<open>The sequence numbers of what was sent.\<close>

lemma w_seq_fold: "w_seq (fold send ms w) = w_seq w + int (length ms)"
  by (induction ms arbitrary: w) (simp_all add: send_def)

fun stamp :: "int \<Rightarrow> json list \<Rightarrow> json list" where
  "stamp n [] = []"
| "stamp n (m # ms) = set_key ''seq'' (JInt (n + 1)) m # stamp (n + 1) ms"

lemma w_out_fold: "w_out (fold send ms w) = w_out w @ stamp (w_seq w) ms"
  by (induction ms arbitrary: w) (simp_all add: send_def)

lemma stamped_seq: "map (\<lambda>m. index m ''seq'') (stamp n ms) = map JInt [n + 1..n + int (length ms)]"
proof (induction ms arbitrary: n)
  case (Cons m ms)
  have "index (set_key ''seq'' (JInt (n + 1)) m) ''seq'' = JInt (n + 1)"
    by (cases m) (simp_all add: map_of_put)
  moreover have "[n + 1..n + int (length (m # ms))] = (n + 1) # [n + 1 + 1..n + 1 + int (length ms)]"
    by (simp add: upto_rec1 add.assoc)
  ultimately show ?case using Cons by simp
qed simp

lemma length_stamp [simp]: "length (stamp n ms) = length ms"
  by (induction ms arbitrary: n) simp_all

lemma stamped_index:
  "k \<noteq> ''seq'' \<Longrightarrow> index m ''type'' \<noteq> JNull \<Longrightarrow> index (set_key ''seq'' v m) k = index m k"
  by (cases m) (simp_all add: map_of_put)

lemma stamped_terminated:
  "list_all (\<lambda>m. is_event m \<or> is_response m) ms \<Longrightarrow>
   length (filter is_terminated (stamp n ms)) = length (filter is_terminated ms)"
proof (induction ms arbitrary: n)
  case (Cons m ms)
  then have "index m ''type'' \<noteq> JNull" by (auto simp: is_event_def is_response_def)
  with Cons show ?case by (simp add: is_terminated_def is_event_def stamped_index)
qed simp

section \<open>The child process\<close>

text \<open>A child that is alive can still be killed, or was.\<close>

definition child_held :: "'w session \<Rightarrow> bool" where
  "child_held s \<longleftrightarrow> (child_alive s \<longrightarrow> child_kill s \<or> 0 < kill_signals s)"

definition holds_child :: "'w session \<Rightarrow> 'w session \<Rightarrow> bool" where
  "holds_child s t \<longleftrightarrow> (child_held s \<longrightarrow> child_held t)"

interpretation parenting: session_run holds_child
proof
  show "reflp holds_child" by (simp add: reflp_def holds_child_def)
  show "transp holds_child" by (simp add: transp_def holds_child_def)
qed (auto simp: holds_child_def child_held_def same_core_def lines_replaced_def own_child_def split: prod.splits)

end
