(* ===== verification/Session_Props.thy ===== *)
theory Session_Props
  imports Session_Laws
begin

text \<open>
  The correctness properties of the debug session, over single messages, over runs of the event
  loop, and of the operations that carry the debugging behaviour: the suspension accounting, the
  breakpoint updates, the source lookup, the frame window, attaching and shutting down.
\<close>

section \<open>Requests and responses\<close>

lemma and_then_attempt: "and_then (attempt m) k s = (case m s of (r, t) \<Rightarrow> k r t)"
  by (simp add: and_then_def attempt_def split: prod.splits)

text \<open>
  C30. Every request is answered exactly once. Whatever the request and the state, the session sends
  some events, then one response carrying the request's sequence number and command, then
  \<open>initialized\<close> if (and only if) the request was a successful \<open>launch\<close> or \<open>attach\<close>, and nothing
  else; the loop ends exactly on \<open>disconnect\<close>.
\<close>

theorem request_answered_once:
  "\<exists>evs result t. handle env (Request req) s
       = (Inr (if request_command req = ''disconnect'' then Exit else Continue), t)
     \<and> list_all is_event evs
     \<and> writer t = fold send (evs @ [response_json (request_seq req) (request_command req) result]
         @ (if request_command req \<in> {''launch'', ''attach''} \<and> \<not> isl result
            then [event_json ''initialized'' (JObj [])] else [])) (writer s)"
proof -
  let ?c = "request_command req"
  obtain result t where d: "dispatch env ?c (index req ''arguments'') s = (result, t)" by fastforce
  have "speaks s t" using advancesD [OF speech.adv_dispatch d] .
  then obtain evs where evs: "writer t = fold send evs (writer s)" "list_all is_event evs"
    unfolding speaks_def by blast
  let ?t1 = "t\<lparr>writer := respond (request_seq req) ?c result (writer t)\<rparr>"
  let ?u = "if ?c \<in> {''launch'', ''attach''} \<and> \<not> isl result
    then ?t1\<lparr>writer := write_event ''initialized'' (JObj []) (writer ?t1)\<rparr> else ?t1"
  have "handle env (Request req) s = (Inr (if ?c = ''disconnect'' then Exit else Continue), ?u)"
    by (simp add: handle_request_def Let_def and_then_attempt d emit_def ok_def)
       (auto split: sum.splits)
  moreover have "writer ?u = fold send (evs @ [response_json (request_seq req) ?c result]
      @ (if ?c \<in> {''launch'', ''attach''} \<and> \<not> isl result then [event_json ''initialized'' (JObj [])] else [])) (writer s)"
    by (simp add: evs(1) respond_def write_event_def)
  ultimately show ?thesis using evs(2) by blast
qed

text \<open>
  The messages the adapter sends are numbered 1, 2, 3, \<dots> without gap or repetition, over the
  whole life of the session and whatever messages it received.
\<close>

theorem sequence_numbers_consecutive:
  "map (\<lambda>m. index m ''seq'') (w_out (writer (run_adapter env ms w)))
   = map JInt [1..int (length (w_out (writer (run_adapter env ms w))))]"
proof -
  have "writer (run_adapter env ms w) = writer (run_loop env ms (session_new w))"
    by (simp add: run_adapter_def cleanup_def send_kill_def modify_def Let_def split: option.splits)
  moreover obtain sent where "writer (run_loop env ms (session_new w)) = fold send sent writer_new"
    using talking.run [of "session_new w" env ms] unfolding talks_def by (auto simp: session_new_def)
  ultimately show ?thesis
    by (simp add: w_out_fold stamped_seq writer_new_def)
qed

text \<open>
  C31. The client is told that the session terminated at most once: in every run the number of
  \<open>terminated\<close> events sent is one if the session considers it sent and zero otherwise, however
  often the VM dies, the connection closes, the child exits or the debuggee sends garbage.
\<close>

theorem terminated_at_most_once:
  "length (filter is_terminated (w_out (writer (run_loop env ms (session_new w)))))
   = (if terminated_sent (run_loop env ms (session_new w)) then 1 else 0)"
proof -
  obtain sent where sent: "writer (run_loop env ms (session_new w)) = fold send sent writer_new"
    "list_all (\<lambda>m. is_event m \<or> is_response m) sent"
    "filter is_terminated sent = (if terminated_sent (run_loop env ms (session_new w)) then [terminated_json] else [])"
    using talking.run [of "session_new w" env ms] unfolding talks_def by (auto simp: session_new_def)
  then show ?thesis
    by (simp add: w_out_fold writer_new_def stamped_terminated)
qed

section \<open>Threads and handles\<close>

text \<open>
  Thread numbers are a stable bijection: in every run the two thread maps are inverse to each
  other with numbers from 1 below the next one, and a thread that has a number keeps it for the
  rest of the session.
\<close>

theorem thread_numbers_stable:
  "thread_inv (run_loop env ms (session_new w))
   \<and> thread_to_dap (run_loop env ms (session_new w))
     \<subseteq>\<^sub>m thread_to_dap (run_loop env later (run_loop env ms (session_new w)))"
proof -
  have "thread_inv (session_new w)" by (simp add: thread_inv_def session_new_def)
  then show ?thesis
    using numbering_run.run [of "session_new w" env ms] numbering_run.run [of "run_loop env ms (session_new w)" env later]
    by (simp add: numbers_def)
qed

lemma stop_invalidates:
  assumes "on_stop th reason s = (r, t) \<or> vm s \<noteq> None \<and> continue_all env s = (r', t)"
  shows "\<exists>u. frame_handles u = Map.empty \<and> varrefs u = Map.empty \<and> next_handle u = next_handle s \<and> hands_out u t"
proof -
  let ?u = "s\<lparr>frame_handles := Map.empty, varrefs := Map.empty\<rparr>"
  from assms have "hands_out ?u t"
  proof
    assume "on_stop th reason s = (r, t)"
    then have "and_then (dap_thread_id th) (\<lambda>i. emit (write_event ''stopped'' (stopped_json reason i))) ?u = (r, t)"
      by (simp add: on_stop_def invalidate_handles_def)
    moreover have "advances hands_out (and_then (dap_thread_id th)
        (\<lambda>i. emit (write_event ''stopped'' (stopped_json reason i))))"
      by (intro handing.adv_basic handing.adv_dap_thread_id handing.adv_event) simp
    ultimately show ?thesis by (blast intro: advancesD)
  next
    assume "vm s \<noteq> None \<and> continue_all env s = (r', t)"
    then obtain z where "vm s = Some z" by auto
    let ?rest = "and_then (modify (\<lambda>s. s\<lparr>last_exception := Map.empty\<rparr>)) (\<lambda>_.
       and_then (gets (\<lambda>s. max (suspend_depth s) 1)) (\<lambda>resumes.
       and_then (repeat_n (unat resumes) (and_then (vm_do (vm_resume (e_command env))) (fail_with ''resume failed: ''))) (\<lambda>_.
       and_then (modify (\<lambda>s. s\<lparr>suspend_depth := 0\<rparr>)) (\<lambda>_. ok (JObj [(''allThreadsContinued'', JBool True)])))))"
    have "?rest ?u = (r', t)"
      using \<open>vm s \<noteq> None \<and> continue_all env s = (r', t)\<close> \<open>vm s = Some z\<close>
      by (simp add: continue_all_def invalidate_handles_def the_vm_def and_then_def [of the_vm] ok_def)
    moreover have "advances hands_out ?rest"
      by (intro handing.adv_basic handing.adv_control handing.adv_vm_do handing.adv_fail_with) (simp_all add: same_core_def)
    ultimately show ?thesis by (blast intro: advancesD)
  qed
  then show ?thesis by (intro exI [of _ ?u]) simp
qed

text \<open>An environment whose debuggee acknowledges everything, for the witnesses.\<close>

definition sample_fs :: fs where
  "sample_fs = \<lparr>fs_read = (\<lambda>_. None), fs_len = (\<lambda>_. None), fs_is_file = (\<lambda>_. True), fs_is_dir = (\<lambda>_. False),
     fs_read_dir = (\<lambda>_. None), fs_canonicalize = (\<lambda>_. None), fs_var = (\<lambda>_. None)\<rparr>"

definition still_os :: "'w os" where
  "still_os = \<lparr>os_fs = (\<lambda>_. sample_fs), os_parse = (\<lambda>_. None), os_iter = (\<lambda>m. m), os_temp_dir = (\<lambda>_. []), os_pid = 0,
     os_subsec_nanos = (\<lambda>_. 0), os_create_dir = (\<lambda>_ w. (False, w)), os_write = (\<lambda>_ _ w. (Inl [], w)),
     os_remove_dir_all = (\<lambda>_. id), os_join_paths = (\<lambda>_. Inl []), os_spawn = (\<lambda>_ _ w. (Inl [], w)),
     os_try_wait = (\<lambda>w. (WaitError, w)), os_kill_and_wait = id, os_now = (\<lambda>_. 0), os_sleep = (\<lambda>_. id),
     os_stderr_reads = (\<lambda>w. ([], w))\<rparr>"

definition sample_env :: "'w env" where
  "sample_env = \<lparr>e_command = (\<lambda>_ _ _. ok []), e_os = still_os, e_task_error = (\<lambda>_. None),
     e_show_f32 = (\<lambda>_. []), e_show_f64 = (\<lambda>_. []), e_launch_args = (\<lambda>_. Inl []), e_attach_args = (\<lambda>_. Inl []),
     e_set_breakpoints_args = (\<lambda>_. Inl []), e_set_exception_breakpoints_args = (\<lambda>_. Inl []),
     e_thread_id_args = (\<lambda>_. Inl []), e_stack_trace_args = (\<lambda>_. Inl []),
     e_frame_id_args = (\<lambda>_. Inr \<lparr>fa_frame_id = 7\<rparr>), e_variables_args = (\<lambda>_. Inr \<lparr>va_variables_reference = 7\<rparr>),
     e_disconnect_args = (\<lambda>_. Inl []), e_join_paths = (\<lambda>_. Inl []), e_spawn = (\<lambda>_. ok ()),
     e_child_reads = (\<lambda>w. ([], w)), e_kill_and_wait = id, e_drop_child = id, e_tcp_connect = (\<lambda>_ _. ok ()),
     e_sleep = (\<lambda>_. id), e_now = (\<lambda>_. 0), e_handshake = ok (HANDSHAKE, False),
     e_exit_in_time = (\<lambda>_. True), e_await_reaped = id, e_remove_dir_all = (\<lambda>_. id)\<rparr>"

text \<open>
  C32. Handles never dangle: frame and variable handles are disjoint, start at 1000 and are below
  the next one in every run; and once a stop or a \<open>continue\<close> has invalidated them, a handle given
  out before is refused by \<open>scopes\<close> and \<open>variables\<close> for the rest of the session, whatever happens in
  between; it is never taken for a newer object.
\<close>

theorem stale_handles_refused:
  "handle_inv (run_loop env ms (session_new w))
   \<and> ((on_stop th reason s = (r, t) \<or> vm s \<noteq> None \<and> continue_all env s = (r', t))
      \<and> h < next_handle s
      \<and> e_frame_id_args env j = Inr \<lparr>fa_frame_id = h\<rparr>
      \<and> e_variables_args env j = Inr \<lparr>va_variables_reference = h\<rparr>
      \<longrightarrow> fst (scopes env j (run_loop env ms t)) = Inl ''Unknown or stale frame''
        \<and> fst (variables env j (run_loop env ms t)) = Inl ''Unknown or stale variablesReference'')"
proof (intro conjI impI; (elim conjE)?)
  have "handle_inv (session_new w)" by (simp add: handle_inv_def session_new_def)
  then show "handle_inv (run_loop env ms (session_new w))"
    using handing_run.run [of "session_new w" env ms] by (simp add: hands_out_def)
next
  assume stop: "on_stop th reason s = (r, t) \<or> vm s \<noteq> None \<and> continue_all env s = (r', t)"
    and h: "h < next_handle s" and fa: "e_frame_id_args env j = Inr \<lparr>fa_frame_id = h\<rparr>"
    and va: "e_variables_args env j = Inr \<lparr>va_variables_reference = h\<rparr>"
  from stop_invalidates [OF stop] obtain u where u: "frame_handles u = Map.empty" "varrefs u = Map.empty"
    "next_handle u = next_handle s" "hands_out u t" by blast
  have "hands_out u (run_loop env ms t)" using u(4) handing_run.run by (rule hands_out_trans)
  then have "frame_handles (run_loop env ms t) h = None" "varrefs (run_loop env ms t) h = None"
    using h u unfolding hands_out_def by (metis)+
  with fa va show "fst (scopes env j (run_loop env ms t)) = Inl ''Unknown or stale frame''"
    "fst (variables env j (run_loop env ms t)) = Inl ''Unknown or stale variablesReference''"
    by (simp_all add: scopes_def variables_def fail_str_def err_def and_then_cong_Inl)
qed

lemma stale_handles_refused_witness:
  "fst (scopes sample_env JNull (run_loop sample_env [KillDeadline] (snd (on_stop 5 ''step'' (session_new ()) :: (unit + unit) \<times> unit session))))
   = Inl ''Unknown or stale frame''"
  using stale_handles_refused [where env = sample_env and ms = "[KillDeadline]" and s = "session_new ()" and h = 7
      and th = 5 and reason = "''step''" and j = JNull
      and r = "fst (on_stop 5 ''step'' (session_new ()) :: (unit + unit) \<times> unit session)"
      and t = "snd (on_stop 5 ''step'' (session_new ()) :: (unit + unit) \<times> unit session)"
      and r' = "Inl []"]
  by (simp add: sample_env_def session_new_def)

section \<open>Suspension\<close>

lemma resumes_run:
  assumes "\<And>w. e_command env VM_SET VM_RESUME [] w = (Inr rep, resume w)"
  shows "repeat_n n (and_then (vm_do (vm_resume (e_command env))) (fail_with msg)) s
    = (Inr (replicate n ()), s\<lparr>world := (resume ^^ n) (world s)\<rparr>)"
proof (induction n arbitrary: s)
  case 0
  show ?case by (simp add: ok_def)
next
  case (Suc n)
  have "and_then (vm_do (vm_resume (e_command env))) (fail_with msg) s = (Inr (), s\<lparr>world := resume (world s)\<rparr>)"
    by (simp add: vm_do_def vm_resume_def and_then_def assms ok_def fail_with_def)
  then show ?case
    using Suc [of "s\<lparr>world := resume (world s)\<rparr>"]
    by (simp add: and_then_def ok_def funpow_swap1)
qed

text \<open>
  \<open>continue\<close> really lets the debuggee run: with a connected VM that acknowledges \<open>Resume\<close>, it
  issues exactly one \<open>Resume\<close> per outstanding suspension (one if there is none), and afterwards
  the counter is zero, all handles and recorded exceptions are gone, and nothing else of the
  session has changed. So a debuggee suspended \<open>suspend_depth\<close> times is suspended zero times.
\<close>

theorem continue_resumes_exactly:
  assumes "vm s = Some z" and "\<And>w. e_command env VM_SET VM_RESUME [] w = (Inr rep, resume w)"
  shows "continue_all env s =
    (Inr (JObj [(''allThreadsContinued'', JBool True)]),
     s\<lparr>frame_handles := Map.empty, varrefs := Map.empty, last_exception := Map.empty, suspend_depth := 0,
       world := (resume ^^ unat (max (suspend_depth s) 1)) (world s)\<rparr>)"
proof -
  have "the_vm s = (Inr z, s)" using assms(1) by (simp add: the_vm_def ok_def)
  then show ?thesis
    unfolding continue_all_def invalidate_handles_def
    by (simp add: and_then_cong_Inr [where m = the_vm] and_then_cong_Inr [OF resumes_run [where resume = resume, OF assms(2)]] ok_def)
qed

lemma continue_resumes_exactly_witness:
  "continue_all (sample_env\<lparr>e_command := \<lambda>_ _ _ _. (Inr [], ())\<rparr>)
     ((session_new ())\<lparr>vm := Some \<lparr>sz_field = 8, sz_method = 8, sz_object = 8, sz_reference_type = 8, sz_frame = 8\<rparr>, suspend_depth := 3\<rparr>)
   = (Inr (JObj [(''allThreadsContinued'', JBool True)]),
      ((session_new ())\<lparr>vm := Some \<lparr>sz_field = 8, sz_method = 8, sz_object = 8, sz_reference_type = 8, sz_frame = 8\<rparr>,
        frame_handles := Map.empty, varrefs := Map.empty, last_exception := Map.empty, suspend_depth := 0\<rparr>))"
  using continue_resumes_exactly
    [of "(session_new ())\<lparr>vm := Some \<lparr>sz_field = 8, sz_method = 8, sz_object = 8, sz_reference_type = 8, sz_frame = 8\<rparr>, suspend_depth := 3\<rparr>"
       _ "sample_env\<lparr>e_command := \<lambda>_ _ _ _. (Inr [], ())\<rparr>" "[]" "\<lambda>_. ()"]
  by (simp add: session_new_def)

text \<open>An event that stops the debuggee for the user (or ends it).\<close>

fun stops :: "event \<Rightarrow> bool" where
  "stops (Breakpoint _ _ _) = True"
| "stops (SingleStep _ _ _) = True"
| "stops (Exception _ _ _ _ _) = True"
| "stops (VmDeath _) = True"
| "stops _ = False"

text \<open>The set suspended the VM in a way the depth counter accounts for.\<close>

definition counted :: "event_set \<Rightarrow> bool" where
  "counted es = (suspend_policy es = SUSPEND_ALL \<and> \<not> list_ex is_vm_start (events es))"

definition is_ok :: "('e + 'a) \<Rightarrow> bool" where
  "is_ok r = (case r of Inr _ \<Rightarrow> True | Inl _ \<Rightarrow> False)"

text \<open>Functions of the source that cannot fail return a value.\<close>

definition total_st :: "('s, 'e, 'a) fallible \<Rightarrow> bool" where
  "total_st m \<longleftrightarrow> (\<forall>s. \<exists>a t. m s = (Inr a, t))"

lemma total_ok: "total_st (ok a)" "total_st (gets f)" "total_st (modify g)" "total_st (vm_do m)"
  by (simp_all add: total_st_def ok_def gets_def modify_def vm_do_def split: prod.splits)

lemma total_then: "total_st m \<Longrightarrow> (\<And>a. total_st (k a)) \<Longrightarrow> total_st (and_then m k)"
  unfolding total_st_def by (metis and_then_cong_Inr)

lemma total_if: "(c \<Longrightarrow> total_st m) \<Longrightarrow> (\<not> c \<Longrightarrow> total_st k) \<Longrightarrow> total_st (if c then m else k)"
  by simp

lemma total_option: "(x = None \<Longrightarrow> total_st m) \<Longrightarrow> (\<And>a. x = Some a \<Longrightarrow> total_st (k a)) \<Longrightarrow> total_st (case x of None \<Rightarrow> m | Some a \<Rightarrow> k a)"
  by (cases x) auto

lemma total_sum: "(\<And>a. total_st (m a)) \<Longrightarrow> (\<And>a. total_st (k a)) \<Longrightarrow> total_st (case x of Inl a \<Rightarrow> m a | Inr a \<Rightarrow> k a)"
  by (cases x) auto

lemma total_prod: "(\<And>a b. total_st (m a b)) \<Longrightarrow> total_st (case x of (a, b) \<Rightarrow> m a b)"
  by (cases x) auto

lemma total_map_m: "(\<And>x. total_st (f x)) \<Longrightarrow> total_st (map_m f xs)"
  by (induction xs) (simp_all add: total_ok total_then)

lemma total_fold_m: "(\<And>b x. total_st (f b x)) \<Longrightarrow> total_st (fold_m f b xs)"
  by (induction xs arbitrary: b) (simp_all add: total_ok total_then)

lemma total_for_each: "(\<And>x. total_st (f x)) \<Longrightarrow> total_st (for_each xs f)"
  unfolding for_each_def by (rule total_fold_m)

lemma total_with_vm: "(\<And>z. total_st (k z)) \<Longrightarrow> total_st (with_vm d k)"
  unfolding with_vm_def by (intro total_then total_ok total_option)

lemma total_emit: "total_st (emit f)"
  unfolding emit_def by (rule total_ok)

lemmas total_rules = total_ok total_then total_if total_option total_sum total_prod total_map_m
  total_fold_m total_for_each total_with_vm total_emit

lemma total_on_stop: "total_st (on_stop th reason)"
  unfolding on_stop_def invalidate_handles_def dap_thread_id_def by (intro total_rules)

lemma total_class_methods: "total_st (class_methods env cls)"
  unfolding class_methods_def upd_class_def by (intro total_rules)

lemma total_method_line_table: "total_st (method_line_table env cls mid)"
  unfolding method_line_table_def upd_class_def Let_def by (intro total_rules)

lemma total_bind_lines: "total_st (bind_lines_in_class env path cls)"
  unfolding bind_lines_in_class_def collect_tables_def bind_bp_def
  by (intro total_rules total_class_methods total_method_line_table)

lemma total_send_terminated: "total_st send_terminated"
  unfolding send_terminated_def by (intro total_rules)

lemma total_arm_entry: "total_st (arm_entry_breakpoint env i)"
  unfolding arm_entry_breakpoint_def Let_def
  by (intro total_rules total_class_methods total_method_line_table)

lemma total_class_prepare: "total_st (on_class_prepare env rid i)"
  unfolding on_class_prepare_def by (intro total_rules total_arm_entry total_bind_lines)

lemma total_handle_event: "total_st (handle_event env auto e)"
  by (cases e) (simp_all, (intro total_rules total_on_stop total_class_prepare total_send_terminated)+)

lemma handle_event_flag: "handle_event env auto e s = (Inr b, t) \<Longrightarrow> b = (auto \<and> \<not> stops e)"
  by (cases e) (auto elim!: and_then_InrE split: if_splits)

lemma fold_flag:
  "fold_m (handle_event env) auto es s = (Inr b :: 'e + bool, t) \<Longrightarrow> b = (auto \<and> \<not> list_ex stops es)"
proof (induction es arbitrary: auto s)
  case (Cons e es)
  from Cons.prems obtain c u where "handle_event env auto e s = (Inr c :: 'e + bool, u)"
    "fold_m (handle_event env) c es u = (Inr b :: 'e + bool, t)" unfolding fold_m.simps by (rule and_then_InrE)
  with Cons.IH [of c u] show ?case by (auto dest: handle_event_flag)
qed simp

lemma settled_fold:
  assumes "fold_m (handle_event env) auto es s = (r, t)" shows "settled s t"
proof -
  have "advances settled (fold_m (handle_event env) auto es)"
    by (intro settling.adv_basic settling.adv_handle_event)
  from advancesD [OF this assms] show ?thesis .
qed

text \<open>What a set does before the automatic resume.\<close>

lemma event_set_events:
  fixes r :: "'e + unit"
  assumes "handle_event_set env es s = (r, t)"
  obtains u where
    "suspend_depth u = (if counted es then suspend_depth s + 1 else suspend_depth s)" "vm u = vm s"
    "resume_if env (counted es \<and> \<not> list_ex stops (events es)) u = (r, t)"
proof -
  define s1 where "s1 = (if counted es then s\<lparr>suspend_depth := suspend_depth s + 1\<rparr> else s)"
  let ?fold = "fold_m (handle_event env) (counted es) (events es) :: ('a session, 'e, bool) fallible"
  have run: "and_then ?fold (resume_if env) s1 = (r, t)"
    using assms by (simp add: handle_event_set_def counted_def [symmetric] Let_def s1_def split: if_splits)
  have "total_st ?fold" by (intro total_fold_m total_handle_event)
  then obtain b u where fold: "?fold s1 = (Inr b, u)"
    unfolding total_st_def by blast
  have "settled s1 u" using fold by (rule settled_fold)
  moreover have "b = (counted es \<and> \<not> list_ex stops (events es))" using fold by (rule fold_flag)
  moreover have "resume_if env b u = (r, t)" using run by (simp add: and_then_cong_Inr [where m = ?fold, OF fold])
  ultimately show ?thesis by (intro that [of u]) (auto simp: settled_def s1_def)
qed

lemma and_then_vm_do: "and_then (vm_do m) k s = (case m (world s) of (r, w) \<Rightarrow> k r (s\<lparr>world := w\<rparr>))"
  by (simp add: and_then_def vm_do_def split: prod.splits)

lemma resume_if_result:
  assumes "resume_if env True u = (r, t)" "vm u \<noteq> None" "suspend_depth u \<noteq> 0"
  shows "\<exists>reply. e_command env VM_SET VM_RESUME [] (world u) = (reply, world t)
     \<and> suspend_depth t = (if is_ok reply then suspend_depth u - 1 else suspend_depth u)"
proof -
  obtain reply w' where cmd: "e_command env VM_SET VM_RESUME [] (world u) = (reply, w')" by fastforce
  then have "vm_resume (e_command env) (world u) = (case reply of Inl e \<Rightarrow> Inl e | Inr _ \<Rightarrow> Inr (), w')"
    by (simp add: vm_resume_def and_then_def ok_def split: sum.splits)
  then show ?thesis
    using assms cmd
    by (cases reply) (auto simp: resume_if_def with_vm_def and_then_vm_do ok_def modify_def is_ok_def)
qed

text \<open>
  The suspension counter follows the debuggee through event sets. A set that suspended all
  threads adds one to the counter. If it holds a stop (breakpoint, step, exception, VM death), the
  counter stays there and no resume is tried; if it is mere housekeeping (class preparation), the
  VM is resumed once, and the counter is back at its old value exactly when that \<open>Resume\<close>
  succeeded. A \<open>VM_START\<close> set leaves the counter alone: \<open>configurationDone\<close> owes that resume.
\<close>

theorem event_set_accounting:
  assumes "handle_event_set env es s = (r, t)" and "suspend_depth s + 1 \<noteq> 0"
  shows "(\<not> counted es \<longrightarrow> suspend_depth t = suspend_depth s)
       \<and> (counted es \<and> list_ex stops (events es) \<longrightarrow> suspend_depth t = suspend_depth s + 1)
       \<and> (counted es \<and> \<not> list_ex stops (events es) \<and> vm s \<noteq> None \<longrightarrow>
            (\<exists>w reply. e_command env VM_SET VM_RESUME [] w = (reply, world t)
               \<and> suspend_depth t = (if is_ok reply then suspend_depth s else suspend_depth s + 1)))"
proof -
  from assms(1) obtain u where
    u: "suspend_depth u = (if counted es then suspend_depth s + 1 else suspend_depth s)" "vm u = vm s" and
    rest: "resume_if env (counted es \<and> \<not> list_ex stops (events es)) u = (r, t)"
    by (rule event_set_events)
  show ?thesis
  proof (cases "counted es \<and> \<not> list_ex stops (events es)")
    case False
    with rest u show ?thesis by (auto simp: ok_def resume_if_def)
  next
    case True
    then have run: "resume_if env True u = (r, t)" and d: "suspend_depth u = suspend_depth s + 1"
      using rest u by simp_all
    have "\<exists>reply. e_command env VM_SET VM_RESUME [] (world u) = (reply, world t)
        \<and> suspend_depth t = (if is_ok reply then suspend_depth s else suspend_depth s + 1)" if "vm s \<noteq> None"
    proof -
      have "vm u \<noteq> None" "suspend_depth u \<noteq> 0" using that u(2) d assms(2) by simp_all
      from resume_if_result [OF run this] obtain reply where
        "e_command env VM_SET VM_RESUME [] (world u) = (reply, world t)"
        "suspend_depth t = (if is_ok reply then suspend_depth u - 1 else suspend_depth u)" by blast
      with d show ?thesis by (intro exI [of _ reply]) simp
    qed
    with True show ?thesis by blast
  qed
qed

lemma event_set_accounting_witness:
  "suspend_depth (snd (handle_event_set sample_env \<lparr>suspend_policy = SUSPEND_ALL,
       events = [Breakpoint 3 5 \<lparr>type_tag = 1, class_id = 2, method_id = 3, loc_index = 4\<rparr>]\<rparr> (session_new ()) :: (unit + unit) \<times> unit session))
   = suspend_depth (session_new ()) + 1"
proof -
  let ?es = "\<lparr>suspend_policy = SUSPEND_ALL, events = [Breakpoint 3 5 \<lparr>type_tag = 1, class_id = 2, method_id = 3, loc_index = 4\<rparr>]\<rparr>"
  let ?run = "handle_event_set sample_env ?es (session_new ()) :: (unit + unit) \<times> unit session"
  have "?run = (fst ?run, snd ?run)" by simp
  from event_set_accounting [OF this] show ?thesis by (simp add: counted_def session_new_def)
qed

section \<open>Breakpoints\<close>

lemma update_lines_spec:
  assumes inv: "bp_inv s" and f: "file_lookup path (files s) = Some f"
    and run: "update_lines path requested s = (Inr (cn, cleared), t)"
  shows "\<exists>g. file_lookup path (files t) = Some g
      \<and> bp_line ` set (fb_bps g) = set requested \<and> distinct (map bp_line (fb_bps g))
      \<and> (\<forall>bp \<in> set (fb_bps f). bp_line bp \<in> set requested \<longrightarrow> bp \<in> set (fb_bps g))
      \<and> (\<forall>bp \<in> set (fb_bps g) - set (fb_bps f). next_bp_id s \<le> bp_id bp \<and> \<not> bp_verified bp)
      \<and> cleared = concat (map bp_request_ids (filter (\<lambda>bp. bp_line bp \<notin> set requested) (fb_bps f)))
      \<and> (\<forall>p. p \<noteq> path \<longrightarrow> file_lookup p (files t) = file_lookup p (files s))
      \<and> bp_inv t"
proof -
  let ?kept = "fst (keep_bps requested (fb_bps f))"
  obtain bps n' where add: "add_bps requested (next_bp_id s) ?kept = (bps, n')" by fastforce
  let ?g = "f\<lparr>fb_bps := bps\<rparr>"
  have t: "t = s\<lparr>files := file_update path (\<lambda>b. b\<lparr>fb_bps := bps\<rparr>) (files s), next_bp_id := n'\<rparr>"
    and cl: "cleared = snd (keep_bps requested (fb_bps f))"
    using run f add by (auto simp: update_lines_def ok_def split: prod.splits)
  have kept: "?kept = filter (\<lambda>bp. bp_line bp \<in> set requested) (fb_bps f)" by (simp add: keep_bps_def)
  have "file_ok (next_bp_id s) f" using inv f by (simp add: bp_inv_def)
  then have "distinct (map bp_line ?kept)" by (simp add: kept file_ok_def distinct_map_filter)
  from add_bps_spec [OF add this] obtain new where new: "bps = ?kept @ new" "map bp_id new = [next_bp_id s..n' - 1]"
    "\<forall>bp \<in> set new. \<not> bp_verified bp \<and> bp_request_ids bp = []"
    and lines: "distinct (map bp_line bps)" "bp_line ` set bps = bp_line ` set ?kept \<union> set requested" by blast
  have "next_bp_id s \<le> bp_id bp" if "bp \<in> set new" for bp
  proof -
    have "bp_id bp \<in> set (map bp_id new)" using that by simp
    then show ?thesis unfolding new(2) by simp
  qed
  then have "\<forall>bp \<in> set bps - set (fb_bps f). next_bp_id s \<le> bp_id bp \<and> \<not> bp_verified bp"
    using new(3) unfolding new(1) kept by auto
  moreover have "bp_line ` set bps = set requested" using lines(2) by (auto simp: kept)
  moreover have "\<forall>bp \<in> set (fb_bps f). bp_line bp \<in> set requested \<longrightarrow> bp \<in> set bps" by (simp add: new(1) kept)
  moreover have "bp_inv t"
    using advancesD [OF bookkeeping.adv_update_lines run] inv by (simp add: keeps_bps_def)
  ultimately show ?thesis
    using lines(1) f cl by (intro exI [of _ ?g]) (simp add: t lookup_file_update keep_bps_def)
qed

text \<open>
  \<open>setBreakpoints\<close> keeps the books exactly. Every run of the session keeps the bookkeeping
  invariant (breakpoint ids distinct over all files and below the next id, one breakpoint per line
  of a file); and in a state with it, updating a file to a list of requested lines leaves one breakpoint per requested line and no other; a breakpoint of a line
  that stays requested is untouched (same id, same VM requests, same binding); every other one has
  an id never used before and is unverified; the VM requests handed back for clearing are those of
  the dropped breakpoints; the other files are unchanged, and ids stay distinct over all files.
\<close>

theorem breakpoints_updated:
  "bp_inv (run_loop env ms (session_new w))
   \<and> (bp_inv s \<and> file_lookup path (files s) = Some f \<and> update_lines path requested s = (Inr (cn, cleared), t) \<longrightarrow>
      (\<exists>g. file_lookup path (files t) = Some g
         \<and> bp_line ` set (fb_bps g) = set requested \<and> distinct (map bp_line (fb_bps g))
         \<and> (\<forall>bp \<in> set (fb_bps f). bp_line bp \<in> set requested \<longrightarrow> bp \<in> set (fb_bps g))
         \<and> (\<forall>bp \<in> set (fb_bps g) - set (fb_bps f). next_bp_id s \<le> bp_id bp \<and> \<not> bp_verified bp)
         \<and> cleared = concat (map bp_request_ids (filter (\<lambda>bp. bp_line bp \<notin> set requested) (fb_bps f)))
         \<and> (\<forall>p. p \<noteq> path \<longrightarrow> file_lookup p (files t) = file_lookup p (files s))
         \<and> bp_inv t))"
proof (intro conjI impI)
  have "bp_inv (session_new w)" by (simp add: bp_inv_def session_new_def file_lookup_def)
  then show "bp_inv (run_loop env ms (session_new w))"
    using bookkeeping_run.run [of "session_new w" env ms] by (simp add: keeps_bps_def)
qed (elim conjE, rule update_lines_spec)

lemma breakpoints_updated_witness:
  "\<exists>g. file_lookup ''/A.java'' (files (snd (update_lines ''/A.java'' [4, 9] ((session_new ())
         \<lparr>files := [(''/A.java'', \<lparr>fb_class_name = ''A'', fb_prepare_request_ids = [], fb_bps = []\<rparr>)]\<rparr>)
         :: (unit + (string \<times> u32 list)) \<times> unit session))) = Some g
      \<and> bp_line ` set (fb_bps g) = set [4, 9]"
proof -
  let ?f = "\<lparr>fb_class_name = ''A'', fb_prepare_request_ids = [], fb_bps = []\<rparr> :: file_bps"
  let ?s = "(session_new ())\<lparr>files := [(''/A.java'', ?f)]\<rparr>"
  let ?r = "update_lines ''/A.java'' [4, 9] ?s :: (unit + (string \<times> u32 list)) \<times> unit session"
  have "bp_inv ?s" "file_lookup ''/A.java'' (files ?s) = Some ?f"
    by (auto simp: bp_inv_def file_ok_def file_lookup_def session_new_def split: if_splits)
  moreover have "?r = (Inr (''A'', []), snd ?r)"
    by (simp add: update_lines_def file_lookup_def keep_bps_def ok_def split: prod.splits)
  ultimately have "bp_inv ?s \<and> file_lookup ''/A.java'' (files ?s) = Some ?f \<and> ?r = (Inr (''A'', []), snd ?r)"
    by blast
  from mp [OF conjunct2 [OF breakpoints_updated [of sample_env "[]" "()"]] this] show ?thesis
    by (elim exE conjE) (intro exI conjI)
qed

section \<open>Source lookup\<close>


lemma rsplit_once_last: "c \<notin> set b \<Longrightarrow> rsplit_once c (a @ c # b) = Some (a, b)"
proof (induction a)
  case Nil
  then have "rsplit_once c b = None" by (induction b) auto
  then show ?case by simp
qed simp

lemma cached_source:
  assumes "Option.bind (class_cache s cls) cm_source_file = Some (Some name)"
    and "safe_file_name name" and "source_location sig = Some (pkg, d)"
  shows "resolve_source env sig cls s =
     (Inr (find (fs_is_file (e_fs env (world s))) (map (\<lambda>root. path_join (path_join root pkg) name) (source_roots s))), s)"
  using assms
  by (simp add: resolve_source_def class_source_file_def gets_def and_then_def ok_def Let_def)

text \<open>
  The package part of the signature is not checked: for any text \<open>pkg\<close> without a dollar sign, a
  class signature \<open>Lpkg/Name;\<close> makes \<open>resolve_source\<close> probe \<open>root/pkg/name\<close>, also when \<open>pkg\<close> starts
  with a slash (the root is then dropped) or consists of parent directories, so a debuggee can
  point the client at a file outside every source root.
\<close>

theorem package_escapes_roots:
  assumes "Option.bind (class_cache s cls) cm_source_file = Some (Some name)" and "safe_file_name name"
    and "CHR ''$'' \<notin> set pkg" and "CHR ''$'' \<notin> set simple" and "CHR ''/'' \<notin> set simple"
    and "source_roots s = [root]" and "fs_is_file (e_fs env (world s)) (path_join (path_join root pkg) name)"
  shows "resolve_source env (''L'' @ pkg @ ''/'' @ simple @ '';'') cls s
         = (Inr (Some (path_join (path_join root pkg) name)), s)"
proof -
  have "strip_prefix ''L'' (''L'' @ pkg @ ''/'' @ simple @ '';'') = Some (pkg @ ''/'' @ simple @ '';'')"
    by (rule strip_prefix_append)
  moreover have "strip_suffix '';'' (pkg @ ''/'' @ simple @ '';'') = Some (pkg @ ''/'' @ simple)"
    using strip_suffix_append [of "'';''" "pkg @ ''/'' @ simple"] by simp
  moreover have "split_char (CHR ''$'') (pkg @ ''/'' @ simple) = [pkg @ ''/'' @ simple]"
    using assms(3,4) by (intro split_char_none) simp
  moreover have "rsplit_once (CHR ''/'') (pkg @ CHR ''/'' # simple) = Some (pkg, simple)"
    using assms(5) by (rule rsplit_once_last)
  ultimately have "source_location (''L'' @ pkg @ ''/'' @ simple @ '';'') = Some (pkg, simple @ ''.java'')"
    by (simp add: source_location_def Let_def)
  from cached_source [OF assms(1,2) this, of env] assms(6,7) show ?thesis by simp
qed


lemma package_escapes_roots_witness:
  "resolve_source sample_env (''L'' @ ''../../home/user'' @ ''/'' @ ''Key'' @ '';'') 1
     ((session_new ())\<lparr>source_roots := [''/project/src''],
        class_cache := [1 \<mapsto> class_meta_default\<lparr>cm_source_file := Some (Some ''id_rsa'')\<rparr>]\<rparr>)
   = (Inr (Some ''/project/src/../../home/user/id_rsa'') :: unit + string option,
      (session_new ())\<lparr>source_roots := [''/project/src''],
        class_cache := [1 \<mapsto> class_meta_default\<lparr>cm_source_file := Some (Some ''id_rsa'')\<rparr>]\<rparr>)"
  using package_escapes_roots [of "(session_new ())\<lparr>source_roots := [''/project/src''],
        class_cache := [1 \<mapsto> class_meta_default\<lparr>cm_source_file := Some (Some ''id_rsa'')\<rparr>]\<rparr>" 1 "''id_rsa''"
        "''../../home/user''" "''Key''" "''/project/src''" sample_env]
  by (simp add: safe_file_name_def contains_sub_def starts_with_def sample_env_def still_os_def sample_fs_def path_join_def class_meta_default_def)

section \<open>Stack frames\<close>

text \<open>
  The window of stack frames that \<open>stackTrace\<close> asks for always fits: with a known frame count
  (below 2,147,483,648), nothing is asked for exactly when the start frame is behind the last frame;
  otherwise the request is for all remaining frames, or for at least one and at most \<open>levels\<close> frames
  that all exist. HotSpot therefore never sees a window past the end of the stack.
\<close>

theorem frame_window_fits:
  assumes "uint tot < 2 ^ 31"
  shows "(frame_window (Some tot) start levels = None \<longleftrightarrow> tot \<le> start)
       \<and> (frame_window (Some tot) start levels = Some len \<longrightarrow>
            start < tot \<and> (levels = 0 \<and> len = -1
              \<or> 1 \<le> len \<and> len \<le> uint levels \<and> uint start + len \<le> uint tot))"
proof (cases "start < tot")
  case False
  then show ?thesis by (auto simp: frame_window_def not_less)
next
  case True
  then have sub: "uint (tot - start) = uint tot - uint start"
    by (simp add: uint_sub_lem [symmetric] word_less_def)
  have "0 \<le> uint start" by simp
  with sub True assms have pos: "1 \<le> uint (tot - start)" "uint (tot - start) < 2 ^ 31"
    unfolding word_less_def by linarith+
  then have "tot - start \<noteq> 0" by (metis uint_0_eq not_one_le_zero)
  define v where "v = min levels (tot - start)"
  have v: "uint v \<le> uint levels" "uint v \<le> uint tot - uint start" "levels \<noteq> 0 \<longrightarrow> 1 \<le> uint v"
    using sub pos \<open>tot - start \<noteq> 0\<close> by (auto simp: v_def min_def word_le_def word_neq_0_conv word_less_def)
  then have "sint v = uint v"
    unfolding sint_uint using pos sub by (intro signed_take_bit_int_eq_self) (auto intro: order_trans)
  with True v pos \<open>tot - start \<noteq> 0\<close> show ?thesis
    by (auto simp: frame_window_def Let_def v_def [symmetric] less_imp_le)
qed

lemma frame_window_fits_witness:
  "frame_window (Some 3) 1 20 = Some 2 \<and> uint (1 :: u32) + 2 \<le> uint (3 :: u32)"
  using frame_window_fits [of 3 1 20 2] by (simp add: frame_window_def)

section \<open>Attaching and shutting down\<close>

lemma attach_connect_ends:
  assumes sleep: "\<And>w. e_now env w + 500 \<le> e_now env (e_sleep env 500 w)"
    and conn: "\<And>w. e_now env w \<le> e_now env (snd (e_tcp_connect env host (unat port) w))"
  shows "deadline \<le> e_now env (world s) + 500 * n \<Longrightarrow>
    \<exists>r t. attach_connect env host port deadline (Suc n) s = (r, t)
      \<and> (r = Inr () \<or> (\<exists>e. r = Inl (''Could not attach to '' @ host @ '':'' @ show_nat (unat port) @ '': '' @ e)))"
proof (induction n arbitrary: s)
  case (0 s)
  obtain r w where c: "e_tcp_connect env host (unat port) (world s) = (r, w)" by fastforce
  have "deadline \<le> e_now env w" using 0 conn [of "world s"] c by simp
  with c show ?case
    by (cases r) (auto simp: world_do_def and_then_def ok_def err_def gets_def)
next
  case (Suc n)
  obtain r w where c: "e_tcp_connect env host (unat port) (world s) = (r, w)" by fastforce
  have later: "deadline \<le> e_now env (e_sleep env 500 w) + 500 * n"
    using Suc.prems conn [of "world s"] sleep [of w] c by simp
  note IH = Suc.IH [of "s\<lparr>world := e_sleep env 500 w\<rparr>"]
  show ?case
  proof (cases r)
    case (Inr u)
    with c show ?thesis by (simp add: world_do_def and_then_def ok_def)
  next
    case (Inl e)
    with c IH later show ?thesis
      by (cases "deadline \<le> e_now env w")
         (auto simp: world_do_def world_mod_def and_then_def [of "world_do _"] err_def)
  qed
qed

text \<open>
  Attaching ends: if the clock never runs backwards and a sleep of 500 ms takes at least 500 ms,
  the connect loop of \<open>attach\<close> has a result (connected, or "Could not attach") within
  \<open>timeout / 500 + 2\<close> rounds, whatever the answers of the network.
\<close>

theorem attach_loop_ends:
  assumes "\<And>w. e_now env w + 500 \<le> e_now env (e_sleep env 500 w)"
    and "\<And>w. e_now env w \<le> e_now env (snd (e_tcp_connect env host (unat port) w))"
  shows "\<exists>r t. attach_connect env host port (e_now env (world s) + attach_timeout a) (attach_rounds a) s = (r, t)
      \<and> (r = Inr () \<or> (\<exists>e. r = Inl (''Could not attach to '' @ host @ '':'' @ show_nat (unat port) @ '': '' @ e)))"
proof -
  have "attach_timeout a \<le> 500 * (attach_timeout a div 500 + 1)" by simp
  then have "e_now env (world s) + attach_timeout a \<le> e_now env (world s) + 500 * (attach_timeout a div 500 + 1)"
    by simp
  from attach_connect_ends [where s = s, OF assms this] show ?thesis
    by (simp add: attach_rounds_def del: attach_connect.simps)
qed

text \<open>An environment where every connection is refused and the world is the clock.\<close>

definition refusing_env :: "nat env" where
  "refusing_env = sample_env\<lparr>e_tcp_connect := \<lambda>_ _. err ''refused'', e_sleep := \<lambda>ms w. w + ms, e_now := \<lambda>w. w\<rparr>"

lemma attach_loop_ends_witness:
  "\<exists>r t. attach_connect refusing_env ''localhost'' 5005
      (e_now refusing_env (world (session_new 3)) + attach_timeout \<lparr>aa_host_name = None, aa_port = None, aa_timeout = Some 900, aa_project_root = None, aa_source_paths = []\<rparr>)
      (attach_rounds \<lparr>aa_host_name = None, aa_port = None, aa_timeout = Some 900, aa_project_root = None, aa_source_paths = []\<rparr>)
      (session_new 3) = (r, t)
     \<and> (r = Inr () \<or> (\<exists>e. r = Inl (''Could not attach to '' @ ''localhost'' @ '':'' @ show_nat (unat (5005 :: u16)) @ '': '' @ e)))"
  by (rule attach_loop_ends) (simp_all add: refusing_env_def err_def)


end
