(* ===== verification/Class_Info.thy ===== *)
theory Class_Info
  imports Jvm_Signature Classpath
begin

text \<open>
  \<open>crates/classpath/src/class_info.rs\<close> and the result types of \<open>lib.rs\<close>: from a parsed class file to
  the class metadata the analysis works on.

  The parser of class files, the crate \<open>cafebabe\<close>, is a parameter; \<open>class_file\<close> and the types
  before it are the parts of its result that the code reads. Its flag sets are sets, its class
  names the internal names with slashes.
\<close>

section \<open>What the class file parser returns\<close>

datatype acc_flag =
    PUBLIC | PROTECTED | PRIVATE | STATIC | ABSTRACT | INTERFACE | ENUM | ANNOTATION
  | SYNTHETIC | BRIDGE | VARARGS

datatype field_type = FPrimitive primitive_type | FObject string

datatype field_descriptor = FieldDescriptor (dimensions: nat) (field_type: field_type)

datatype return_descriptor = Return field_descriptor | ReturnVoid

datatype method_descriptor = MethodDescriptor (md_parameters: "field_descriptor list") (return_type: return_descriptor)

datatype attribute_data =
    Signature string
  | InnerClasses "(string \<times> acc_flag set) list"
  | OtherAttribute

record field_info =
  fi_flags :: "acc_flag set"
  fi_name :: string
  fi_descriptor :: field_descriptor
  fi_attributes :: "attribute_data list"

record method_info =
  mi_flags :: "acc_flag set"
  mi_name :: string
  mi_descriptor :: method_descriptor
  mi_attributes :: "attribute_data list"

record class_file =
  cf_flags :: "acc_flag set"
  this_class :: string
  super_class :: "string option"
  interfaces :: "string list"
  cf_fields :: "field_info list"
  cf_methods :: "method_info list"
  cf_attributes :: "attribute_data list"

section \<open>Class metadata\<close>

datatype member_kind = MethodKind | FieldKind | ConstructorKind

record member_info =
  mb_name :: string
  mb_kind :: member_kind
  mb_signature :: string
  mb_template :: "string option"
  mb_is_static :: bool
  mb_ret_fqn :: "string option"
  mb_ret_display :: "string option"
  mb_hidden :: bool
  mb_metadata :: "member_metadata option"

record class_info =
  ci_fqn :: string
  ci_supers :: "string list"
  ci_type_params :: "string list"
  ci_members :: "member_info list"
  ci_super_type_args :: "string list list"
  ci_metadata :: "class_metadata option"

text \<open>\<open>find_map\<close> over the attributes.\<close>

fun signature_attr :: "attribute_data list \<Rightarrow> string option" where
  "signature_attr [] = None"
| "signature_attr (Signature sig # attrs) = Some sig"
| "signature_attr (_ # attrs) = signature_attr attrs"

definition field_visible :: "acc_flag set \<Rightarrow> bool" where
  "field_visible flags \<longleftrightarrow> (PUBLIC \<in> flags \<or> PROTECTED \<in> flags) \<and> SYNTHETIC \<notin> flags"

definition method_visible :: "acc_flag set \<Rightarrow> bool" where
  "method_visible flags \<longleftrightarrow> (PUBLIC \<in> flags \<or> PROTECTED \<in> flags) \<and> SYNTHETIC \<notin> flags \<and> BRIDGE \<notin> flags"

definition fqn_of :: "string \<Rightarrow> string" where
  "fqn_of name = replace_char (CHR ''/'') ''.'' name"

definition simple_name :: "string \<Rightarrow> string" where
  "simple_name internal = replace_char (CHR ''$'') ''.'' (last (split_char (CHR ''/'') internal))"

fun base_name :: "field_type \<Rightarrow> string" where
  "base_name (FPrimitive p) = prim_name p"
| "base_name (FObject c) = simple_name c"

definition render_field :: "field_descriptor \<Rightarrow> string" where
  "render_field d = base_name (field_type d) @ concat (replicate (dimensions d) ''[]'')"

fun render_return :: "return_descriptor \<Rightarrow> string" where
  "render_return ReturnVoid = ''void''"
| "render_return (Return d) = render_field d"

definition render_method :: "string \<Rightarrow> method_descriptor \<Rightarrow> string" where
  "render_method name d =
     render_return (return_type d) @ '' '' @ name @ ''('' @ join_with '', '' (map render_field (md_parameters d)) @ '')''"

definition render_constructor :: "string \<Rightarrow> method_descriptor \<Rightarrow> string" where
  "render_constructor name d = name @ ''('' @ join_with '', '' (map render_field (md_parameters d)) @ '')''"

definition object_fqn :: "field_descriptor \<Rightarrow> string option" where
  "object_fqn d =
     (if dimensions d \<noteq> 0 then None
      else case field_type d of FObject c \<Rightarrow> Some (fqn_of c) | FPrimitive _ \<Rightarrow> None)"

definition field_access :: "acc_flag set \<Rightarrow> access" where
  "field_access flags =
     (if PUBLIC \<in> flags then Public else if PROTECTED \<in> flags then Protected
      else if PRIVATE \<in> flags then Private else Package)"

definition method_access :: "acc_flag set \<Rightarrow> access" where
  "method_access flags =
     (if PUBLIC \<in> flags then Public else if PROTECTED \<in> flags then Protected
      else if PRIVATE \<in> flags then Private else Package)"

fun base_type_ref :: "field_type \<Rightarrow> type_ref" where
  "base_type_ref (FPrimitive p) = Primitive p"
| "base_type_ref (FObject c) = named (fqn_of c)"

definition descriptor_type_ref :: "field_descriptor \<Rightarrow> type_ref" where
  "descriptor_type_ref d = (Array ^^ dimensions d) (base_type_ref (field_type d))"

definition field_result_type :: "field_info \<Rightarrow> (string \<times> type_parameter) list \<Rightarrow> type_ref" where
  "field_result_type f class_params =
     (case Option.bind (signature_attr (fi_attributes f)) (\<lambda>sig. parse_field_signature sig class_params) of
        Some t \<Rightarrow> t
      | None \<Rightarrow> descriptor_type_ref (fi_descriptor f))"

definition erased_descriptor_key :: "method_descriptor \<Rightarrow> string" where
  "erased_descriptor_key d = join_with '','' (map render_field (md_parameters d))"

definition erased_result :: "method_descriptor \<Rightarrow> type_ref" where
  "erased_result d = (case return_type d of Return f \<Rightarrow> descriptor_type_ref f | ReturnVoid \<Rightarrow> Void)"

definition method_structured :: "method_descriptor \<Rightarrow> string option \<Rightarrow> (string \<times> type_parameter) list \<Rightarrow> string
    \<Rightarrow> type_parameter list \<times> type_ref list \<times> type_ref" where
  "method_structured d signature class_params own =
     (let erased = ([], map descriptor_type_ref (md_parameters d), erased_result d) in
      case Option.bind signature (\<lambda>sig. parse_method_signature sig class_params own) of
        Some (tps, ret, ps) \<Rightarrow> if length ps = length (md_parameters d) then (tps, ps, ret) else erased
      | None \<Rightarrow> erased)"

section \<open>Members\<close>

text \<open>What the two loops over members use of the class: its name, its simple name, the names of its
  type parameters, and the structured parameters with their names.\<close>

record class_scope =
  cs_fqn :: string
  cs_simple :: string
  cs_type_params :: "string list"
  cs_named :: "(string \<times> type_parameter) list"

definition field_member :: "class_scope \<Rightarrow> field_info \<Rightarrow> member_info" where
  "field_member cs f =
     (let generic_display = Option.bind (signature_attr (fi_attributes f)) (\<lambda>sig. field_template sig (cs_type_params cs)) in
      \<lparr>mb_name = fi_name f, mb_kind = FieldKind,
       mb_signature = render_field (fi_descriptor f) @ '' '' @ fi_name f,
       mb_template = map_option (\<lambda>ty. ty @ '' '' @ fi_name f) generic_display,
       mb_is_static = (STATIC \<in> fi_flags f),
       mb_ret_fqn = object_fqn (fi_descriptor f),
       mb_ret_display = Some (case generic_display of Some ty \<Rightarrow> ty | None \<Rightarrow> render_field (fi_descriptor f)),
       mb_hidden = False,
       mb_metadata = Some \<lparr>declaring_class = NamedId (cs_fqn cs), mm_access = field_access (fi_flags f),
         mm_is_static = (STATIC \<in> fi_flags f), mm_is_abstract = False, parameters = None,
         result = field_result_type f (cs_named cs), mm_type_parameters = [], is_varargs = False\<rparr>\<rparr>)"

definition skipped_method :: "method_info \<Rightarrow> bool" where
  "skipped_method m \<longleftrightarrow>
     SYNTHETIC \<in> mi_flags m \<or> BRIDGE \<in> mi_flags m
     \<or> starts_with ''<'' (mi_name m) \<and> mi_name m \<noteq> ''<init>''"

definition method_owner :: "class_scope \<Rightarrow> method_info \<Rightarrow> string" where
  "method_owner cs m = cs_fqn cs @ ''#'' @ mi_name m @ ''('' @ erased_descriptor_key (mi_descriptor m) @ '')''"

definition params_prefix :: "string list \<Rightarrow> string" where
  "params_prefix tps = (if tps = [] then [] else ''<'' @ join_with '', '' tps @ ''> '')"

definition constructor_member :: "class_scope \<Rightarrow> method_info \<Rightarrow> member_info" where
  "constructor_member cs m =
     (case method_structured (mi_descriptor m) (signature_attr (mi_attributes m)) (cs_named cs) (method_owner cs m) of
        (tps, ps, _) \<Rightarrow>
      \<lparr>mb_name = cs_simple cs, mb_kind = ConstructorKind,
       mb_signature = render_constructor (cs_simple cs) (mi_descriptor m),
       mb_template = map_option (\<lambda>(mtps, _, params).
           params_prefix mtps @ cs_simple cs @ ''('' @ join_with '', '' params @ '')'')
         (Option.bind (signature_attr (mi_attributes m)) (\<lambda>sig. method_template sig (cs_type_params cs))),
       mb_is_static = False, mb_ret_fqn = None, mb_ret_display = None,
       mb_hidden = (\<not> method_visible (mi_flags m)),
       mb_metadata = Some \<lparr>declaring_class = NamedId (cs_fqn cs), mm_access = method_access (mi_flags m),
         mm_is_static = False, mm_is_abstract = False, parameters = Some ps, result = Void,
         mm_type_parameters = tps, is_varargs = (VARARGS \<in> mi_flags m)\<rparr>\<rparr>)"

definition method_member :: "class_scope \<Rightarrow> method_info \<Rightarrow> member_info" where
  "method_member cs m =
     (case method_structured (mi_descriptor m) (signature_attr (mi_attributes m)) (cs_named cs) (method_owner cs m) of
        (tps, ps, ret) \<Rightarrow>
      let parsed = Option.bind (signature_attr (mi_attributes m)) (\<lambda>sig. method_template sig (cs_type_params cs)) in
      \<lparr>mb_name = mi_name m, mb_kind = MethodKind,
       mb_signature = render_method (mi_name m) (mi_descriptor m),
       mb_template = map_option (\<lambda>(mtps, r, params).
           params_prefix mtps @ r @ '' '' @ mi_name m @ ''('' @ join_with '', '' params @ '')'') parsed,
       mb_is_static = (STATIC \<in> mi_flags m),
       mb_ret_fqn = (case return_type (mi_descriptor m) of Return f \<Rightarrow> object_fqn f | ReturnVoid \<Rightarrow> None),
       mb_ret_display = Some (case parsed of Some (_, r, _) \<Rightarrow> r | None \<Rightarrow> render_return (return_type (mi_descriptor m))),
       mb_hidden = (\<not> method_visible (mi_flags m)),
       mb_metadata = Some \<lparr>declaring_class = NamedId (cs_fqn cs), mm_access = method_access (mi_flags m),
         mm_is_static = (STATIC \<in> mi_flags m), mm_is_abstract = (ABSTRACT \<in> mi_flags m), parameters = Some ps,
         result = ret, mm_type_parameters = tps, is_varargs = (VARARGS \<in> mi_flags m)\<rparr>\<rparr>)"

fun field_members :: "class_scope \<Rightarrow> field_info list \<Rightarrow> member_info list" where
  "field_members cs [] = []"
| "field_members cs (f # fs) =
     (if field_visible (fi_flags f) then field_member cs f # field_members cs fs else field_members cs fs)"

fun method_members :: "class_scope \<Rightarrow> method_info list \<Rightarrow> member_info list" where
  "method_members cs [] = []"
| "method_members cs (m # ms) =
     (if skipped_method m then method_members cs ms
      else if mi_name m = ''<init>'' then constructor_member cs m # method_members cs ms
      else method_member cs m # method_members cs ms)"

section \<open>Classes\<close>

definition supers_of :: "class_file \<Rightarrow> string list" where
  "supers_of c = (case super_class c of Some sc \<Rightarrow> [fqn_of sc] | None \<Rightarrow> []) @ map fqn_of (interfaces c)"

definition type_params_of :: "class_file \<Rightarrow> string list" where
  "type_params_of c = (case signature_attr (cf_attributes c) of Some sig \<Rightarrow> class_type_params sig | None \<Rightarrow> [])"

definition super_type_args_of :: "class_file \<Rightarrow> string list list" where
  "super_type_args_of c =
     (let erased = replicate (length (supers_of c)) [] in
      case signature_attr (cf_attributes c) of
        None \<Rightarrow> erased
      | Some sig \<Rightarrow> (let args = super_type_args sig (type_params_of c) in
                     if length args = length (supers_of c) then args else erased))"

definition kind_of :: "class_file \<Rightarrow> class_kind" where
  "kind_of c =
     (if ANNOTATION \<in> cf_flags c then Annotation
      else if INTERFACE \<in> cf_flags c then Interface
      else if ENUM \<in> cf_flags c then Enum
      else if map_option fqn_of (super_class c) = Some ''java.lang.Record'' then Record
      else Class)"

definition structured_of :: "class_file \<Rightarrow> type_parameter list \<times> type_ref list" where
  "structured_of c =
     (case Option.bind (signature_attr (cf_attributes c)) (\<lambda>sig. parse_class_signature sig (fqn_of (this_class c))) of
        Some (ps, sups) \<Rightarrow>
          if length sups = length (supers_of c) then (ps, sups) else ([], map named (supers_of c))
      | None \<Rightarrow> ([], map named (supers_of c)))"

definition enclosing_of :: "string \<Rightarrow> type_id option" where
  "enclosing_of fqn = map_option (\<lambda>(outer, _). NamedId outer) (rsplit_once (CHR ''$'') fqn)"

text \<open>The static flag of the class's own entry in the first \<open>InnerClasses\<close> attribute that has one.\<close>

fun inner_classes_static :: "string \<Rightarrow> attribute_data list \<Rightarrow> bool option" where
  "inner_classes_static this [] = None"
| "inner_classes_static this (InnerClasses entries # attrs) =
     (case find (\<lambda>e. fst e = this) entries of
        Some e \<Rightarrow> Some (STATIC \<in> snd e)
      | None \<Rightarrow> inner_classes_static this attrs)"
| "inner_classes_static this (_ # attrs) = inner_classes_static this attrs"

definition is_static_class :: "class_file \<Rightarrow> bool" where
  "is_static_class c =
     (case inner_classes_static (this_class c) (cf_attributes c) of
        Some b \<Rightarrow> b
      | None \<Rightarrow> enclosing_of (fqn_of (this_class c)) = None \<or> kind_of c \<in> {Interface, Enum, Record, Annotation})"

definition metadata_of :: "class_file \<Rightarrow> class_metadata" where
  "metadata_of c =
     \<lparr>cm_id = NamedId (fqn_of (this_class c)), cm_kind = kind_of c,
      cm_access = (if PUBLIC \<in> cf_flags c then Public else Package),
      cm_is_abstract = (ABSTRACT \<in> cf_flags c \<or> kind_of c = Interface),
      cm_is_static = is_static_class c, enclosing_class = enclosing_of (fqn_of (this_class c)),
      cm_type_parameters = fst (structured_of c), supertypes = snd (structured_of c),
      hierarchy_complete = True, constructors_complete = True\<rparr>"

definition scope_of :: "class_file \<Rightarrow> class_scope" where
  "scope_of c =
     \<lparr>cs_fqn = fqn_of (this_class c), cs_simple = simple_name (this_class c), cs_type_params = type_params_of c,
      cs_named = zip (type_params_of c) (fst (structured_of c))\<rparr>"

definition parse :: "(bytes \<Rightarrow> class_file option) \<Rightarrow> bytes \<Rightarrow> class_info option" where
  "parse cafebabe content =
     Option.bind (cafebabe content) (\<lambda>c.
       Some \<lparr>ci_fqn = fqn_of (this_class c), ci_supers = supers_of c, ci_type_params = type_params_of c,
             ci_members = field_members (scope_of c) (cf_fields c) @ method_members (scope_of c) (cf_methods c),
             ci_super_type_args = super_type_args_of c, ci_metadata = Some (metadata_of c)\<rparr>)"

section \<open>The two parsers see the same type parameters\<close>

lemma bound_loop_twin:
  assumes "twin p q"
  shows "snd (bound_loop keep p f acc s) = snd (bound_loop keep' q f acc' s)"
proof (induction f arbitrary: acc acc' s)
  case (Suc f)
  have "snd (p t) = snd (q t)" for t using assms by (simp add: twin_def)
  then show ?case using Suc by (simp add: Let_def)
qed simp

lemma params_loop_aligned:
  "fst (type_params_loop (type_render ctx n) g (map fst out) s) = map fst (fst (structured_loop ctx' own g out s))"
    if "n = MAX_SIG_DEPTH"
proof (induction g arbitrary: out s)
  case (Suc g)
  have "snd (bound_loop (\<lambda>_. []) (type_render ctx n) f ([] :: unit list) t) =
      snd (bound_loop (\<lambda>r. [case fst r of Some t \<Rightarrow> t | None \<Rightarrow> Unknown])
             (type_parse (ctx'\<lparr>scope := scope ctx' @ [out]\<rparr>) MAX_SIG_DEPTH) f [] t)" for f t
    unfolding that by (rule bound_loop_twin [OF render_parse.twins])
  moreover have "fst (type_params_loop (type_render ctx n) g (map fst out @ [nm]) t) =
      map fst (fst (structured_loop ctx' own g (out @ [(nm, tp)]) t))" for nm tp t
    using Suc [of "out @ [(nm, tp)]" t] by simp
  ultimately show ?case by (simp del: bound_loop.simps split: option.splits prod.splits)
qed simp

lemma class_type_params_aligned:
  "class_type_params sig = map fst (fst (type_params_structured (sig_new []) own sig))"
  using params_loop_aligned [OF refl, of "sig_new []" 64 "[]" "snd (bump sig)" "sig_new []" own]
  by (simp add: class_type_params_def type_params_def type_params_structured_def)

section \<open>Every type variable is declared\<close>

text \<open>\<open>yields P p\<close>: whatever the parser \<open>p\<close> returns satisfies \<open>P\<close>.\<close>

definition yields :: "('a \<Rightarrow> bool) \<Rightarrow> 'a sigp \<Rightarrow> bool" where
  "yields P p \<longleftrightarrow> (\<forall>s t s'. p s = (Some t, s') \<longrightarrow> P t)"

lemma yieldsD: "yields P p \<Longrightarrow> p s = (Some t, s') \<Longrightarrow> P t"
  unfolding yields_def by blast

lemma yields_fst: "yields P p \<Longrightarrow> fst (p s) = Some t \<Longrightarrow> P t"
  by (cases "p s") (auto dest: yieldsD)

lemma yields_return [intro]: "P a \<Longrightarrow> yields P (\<lambda>s. (Some a, s))" "P a \<Longrightarrow> yields P (Pair (Some a))"
  by (simp_all add: yields_def)

lemma yields_fail [intro, simp]: "yields P (\<lambda>s. (None, s))"
  by (simp add: yields_def)

lemma yields_any [simp]: "yields (\<lambda>_. True) p"
  by (simp add: yields_def)

lemma yields_bind:
  assumes "yields Q p" "\<And>a. Q a \<Longrightarrow> yields P (k a)"
  shows "yields P (bind_sig p k)"
  unfolding yields_def bind_sig_def using assms by (auto split: prod.splits option.splits dest: yieldsD)

lemma yields_if: "yields P p \<Longrightarrow> yields P q \<Longrightarrow> yields P (if c then p else q)"
  by simp

lemma yields_until:
  assumes "yields P p"
  shows "yields (list_all P) (until stop p)"
proof -
  have "list_all P acc \<Longrightarrow> until_loop stop p f acc s = (Some xs, s') \<Longrightarrow> list_all P xs" for f acc s xs s'
  proof (induction f arbitrary: acc s)
    case (Suc f)
    from Suc.prems consider "xs = acc" | x t where "p s = (Some x, t)" "until_loop stop p f (acc @ [x]) t = (Some xs, s')"
      by (auto split: option.splits if_splits prod.splits)
    then show ?case
      using Suc.prems(1) Suc.IH yieldsD [OF assms] by cases (simp, metis list_all_append list.pred_inject)
  qed simp
  then show ?thesis unfolding yields_def until_def by (metis list.pred_inject(1))
qed

lemma yields_segments:
  assumes "yields (list_all P) targs" "list_all P args"
  shows "yields (\<lambda>(_, as). list_all P as) (segments seg targs f name args)"
proof -
  have "list_all P args \<Longrightarrow> segments seg targs f name args s = (Some r, s') \<Longrightarrow> list_all P (snd r)" for f name args s r s'
  proof (induction f arbitrary: name args s)
    case (Suc f)
    from Suc.prems consider "snd r = args"
      | nm as s1 t where "targs s1 = (Some as, t)" "segments seg targs f nm as t = (Some r, s')"
      by (auto split: option.splits if_splits prod.splits)
    then show ?case using Suc.prems(1) Suc.IH yieldsD [OF assms(1)] by cases metis+
  qed simp
  then show ?thesis using assms(2) unfolding yields_def by (auto split: prod.splits)
qed

definition scope_ids :: "sig_ctx \<Rightarrow> type_variable_id set" where
  "scope_ids ctx = (\<Union>ps \<in> set (scope ctx). (tp_id \<circ> snd) ` set ps)"

lemma find_in_set: "find P xs = Some x \<Longrightarrow> x \<in> set xs"
  by (induction xs) (auto split: if_splits)

lemma lookup_scopes_vars: "type_vars (lookup_scopes name pss) \<subseteq> (\<Union>ps \<in> set pss. (tp_id \<circ> snd) ` set ps)"
  by (induction name pss rule: lookup_scopes.induct)
    (force split: option.splits dest: find_in_set)+

lemma lookup_var_vars: "type_vars (lookup_var ctx name) \<subseteq> scope_ids ctx"
  using lookup_scopes_vars [of name "rev (scope ctx)"] by (simp add: lookup_var_def scope_ids_def)

lemma type_arg_vars:
  assumes "yields (\<lambda>t. type_vars t \<subseteq> ids) rec"
  shows "yields (\<lambda>t. type_vars t \<subseteq> ids) (type_arg_structured rec)"
  using assms unfolding yields_def type_arg_structured_def bind_sig_def
  by (auto split: option.splits if_splits prod.splits)

lemma type_args_vars:
  assumes "yields (\<lambda>t. type_vars t \<subseteq> ids) rec"
  shows "yields (list_all (\<lambda>t. type_vars t \<subseteq> ids)) (type_args_structured rec)"
proof -
  have "yields (list_all (\<lambda>t. type_vars t \<subseteq> ids))
      (bind_sig (expect (CHR ''<'')) (\<lambda>_. bind_sig (until (CHR ''>'') (type_arg_structured rec)) (\<lambda>args.
       bind_sig (expect (CHR ''>'')) (\<lambda>_ s. (Some args, s)))))"
    by (intro yields_bind [OF yields_any] yields_bind [OF yields_until [OF type_arg_vars [OF assms]]] yields_return)
  then show ?thesis unfolding type_args_structured_def yields_def by auto
qed

lemma class_parse_vars:
  assumes "yields (\<lambda>t. type_vars t \<subseteq> ids) rec"
  shows "yields (\<lambda>t. type_vars t \<subseteq> ids) (class_parse rec)"
proof -
  let ?P = "\<lambda>t. type_vars t \<subseteq> ids"
  have "yields ?P (bind_sig (type_args_structured rec) (\<lambda>args s2.
      bind_sig (segments seg (type_args_structured rec) (Suc (length s2)) nm args) (\<lambda>(binary, args).
      bind_sig (expect (CHR '';'')) (\<lambda>_ s. (Some (Named (NamedId binary) args), s))) s2))" for seg nm
  proof (rule yields_bind [OF type_args_vars [OF assms]])
    fix args assume args: "list_all ?P args"
    have "yields ?P (bind_sig (segments seg (type_args_structured rec) f nm args) (\<lambda>(binary, args).
        bind_sig (expect (CHR '';'')) (\<lambda>_ s. (Some (Named (NamedId binary) args), s))))" for f
      by (rule yields_bind [OF yields_segments [OF type_args_vars [OF assms] args]])
        (auto intro!: yields_bind [OF yields_any] yields_return simp: list_all_iff, blast)
    then show "yields ?P (\<lambda>s2. bind_sig (segments seg (type_args_structured rec) (Suc (length s2)) nm args)
        (\<lambda>(binary, args). bind_sig (expect (CHR '';'')) (\<lambda>_ s. (Some (Named (NamedId binary) args), s))) s2)"
      unfolding yields_def by blast
  qed
  then show ?thesis unfolding class_parse_def yields_def by (auto split: prod.splits)
qed

lemma type_parse_vars: "yields (\<lambda>t. type_vars t \<subseteq> scope_ids ctx) (type_parse ctx n)"
proof (induction n)
  case (Suc n)
  have var: "yields (\<lambda>t. type_vars t \<subseteq> scope_ids ctx) (\<lambda>s. case read_until '';'' s of (name, s1) \<Rightarrow>
      bind_sig (expect (CHR '';'')) (\<lambda>_ s. (Some (lookup_var ctx name), s)) s1)"
    using lookup_var_vars [of ctx] unfolding yields_def
    by (auto simp: bind_sig_def split: prod.splits option.splits)
  have arr: "yields (\<lambda>t. type_vars t \<subseteq> scope_ids ctx) (bind_sig (type_parse ctx n) (\<lambda>t s. (Some (Array t), s)))"
    by (rule yields_bind [OF Suc]) (simp add: yields_def)
  have prim: "yields (\<lambda>t. type_vars t \<subseteq> scope_ids ctx) (\<lambda>s. (Some (Primitive p), s))" for p
    by (simp add: yields_def)
  show ?case
    unfolding type_parse.simps type_parse_inner_def
    by (intro yields_bind [OF yields_any] yields_if prim arr var class_parse_vars [OF Suc] yields_fail)
qed simp

text \<open>
  Well-formed type parameters: numbered under their owner, with bounds over declared variables only.
\<close>

definition params_ok :: "string \<Rightarrow> type_parameter list \<Rightarrow> bool" where
  "params_ok own tps \<longleftrightarrow>
     map tp_id tps = map (TypeVariableId own) [0..<length tps]
     \<and> list_all (\<lambda>tp. list_all (\<lambda>b. type_vars b \<subseteq> set (map tp_id tps)) (bounds tp)) tps"

lemma params_ok_append:
  assumes "params_ok own tps" "list_all (\<lambda>b. type_vars b \<subseteq> set (map tp_id tps)) bnds"
  shows "params_ok own (tps @ [TypeParameter (TypeVariableId own (length tps)) bnds])"
proof -
  let ?new = "TypeParameter (TypeVariableId own (length tps)) bnds"
  have "list_all (\<lambda>tp. list_all (\<lambda>b. type_vars b \<subseteq> set (map tp_id (tps @ [?new]))) (bounds tp)) tps"
    using assms(1) unfolding params_ok_def list_all_iff map_append set_append by blast
  moreover have "list_all (\<lambda>b. type_vars b \<subseteq> set (map tp_id (tps @ [?new]))) bnds"
    using assms(2) unfolding list_all_iff map_append set_append by blast
  moreover have "map tp_id (tps @ [?new]) = map (TypeVariableId own) [0..<length (tps @ [?new])]"
    using assms(1) by (simp add: params_ok_def)
  ultimately show ?thesis
    unfolding params_ok_def list_all_append list.pred_inject(2) type_parameter.sel
    by (blast intro: list.pred_inject(1))
qed

lemma bound_loop_yields:
  assumes "yields P p" "\<And>s. list_all P (keep (None, s))" "\<And>t s. P t \<Longrightarrow> list_all P (keep (Some t, s))"
  shows "list_all P acc \<Longrightarrow> list_all P (fst (bound_loop keep p f acc s))"
proof (induction f arbitrary: acc s)
  case (Suc f)
  have "list_all P (keep (p t))" for t
  proof -
    obtain r u where pt: "p t = (r, u)" by fastforce
    show ?thesis using assms(2,3) yieldsD [OF assms(1)] pt by (cases r) auto
  qed
  then show ?case using Suc by (simp add: Let_def)
qed simp

lemma structured_loop_ok:
  assumes "scope ctx = []"
  shows "params_ok own (map snd out) \<Longrightarrow> params_ok own (map snd (fst (structured_loop ctx own g out s)))"
proof (induction g arbitrary: out s)
  case (Suc g)
  let ?elem = "type_parse (ctx\<lparr>scope := scope ctx @ [out]\<rparr>) MAX_SIG_DEPTH"
  let ?loop = "\<lambda>s1. bound_loop (\<lambda>r. [case fst r of Some t \<Rightarrow> t | None \<Rightarrow> Unknown]) ?elem (Suc (length s1)) [] s1"
  have "list_all (\<lambda>b. type_vars b \<subseteq> set (map tp_id (map snd out))) (fst (?loop s1))" for s1
    using type_parse_vars [of "ctx\<lparr>scope := scope ctx @ [out]\<rparr>" MAX_SIG_DEPTH]
    by (intro bound_loop_yields) (auto simp: assms scope_ids_def image_image)
  from params_ok_append [OF Suc.prems this]
  have "params_ok own (map snd (out @ [(nm, TypeParameter (TypeVariableId own (length out)) (fst (?loop s1)))]))" for nm s1
    by simp
  from Suc.IH [OF this] show ?case
    using Suc.prems by (simp del: bound_loop.simps split: option.splits prod.splits) (metis fst_conv)
qed simp

lemma type_params_structured_ok:
  "params_ok own (map snd (fst (type_params_structured (sig_new ps) own s)))"
  using structured_loop_ok [of "sig_new ps" own "[]" 64]
  by (simp add: type_params_structured_def sig_new_def params_ok_def)

lemma supers_loop_yields:
  assumes "yields P rec"
  shows "list_all P supers \<Longrightarrow> supers_loop rec g supers s = Some ts \<Longrightarrow> list_all P ts"
proof (induction g arbitrary: supers s)
  case (Suc g)
  from Suc.prems consider "ts = supers"
    | t s' where "rec s = (Some t, s')" "supers_loop rec g (supers @ [t]) s' = Some ts"
    by (auto split: if_splits option.splits prod.splits)
  then show ?case using Suc.prems(1) Suc.IH yieldsD [OF assms] by cases (simp, metis list_all_append list.pred_inject)
qed (simp split: if_splits)

lemma parse_class_signature_ok:
  assumes "parse_class_signature sig own = Some (tps, sups)"
  shows "params_ok own tps" "list_all (\<lambda>t. type_vars t \<subseteq> set (map tp_id tps)) sups"
    "length tps = length (class_type_params sig)"
proof -
  obtain ps s1 where tp: "type_params_structured (sig_new []) own sig = (ps, s1)" by fastforce
  with assms have tps: "tps = map snd ps"
    and sups: "supers_loop (type_parse ((sig_new [])\<lparr>scope := [ps]\<rparr>) MAX_SIG_DEPTH) 64 [] s1 = Some sups"
    by (auto simp: parse_class_signature_def)
  show "params_ok own tps" using type_params_structured_ok [of own "[]" sig] by (simp add: tp tps)
  have "yields (\<lambda>t. type_vars t \<subseteq> set (map tp_id tps)) (type_parse ((sig_new [])\<lparr>scope := [ps]\<rparr>) MAX_SIG_DEPTH)"
    using type_parse_vars [of "(sig_new [])\<lparr>scope := [ps]\<rparr>" MAX_SIG_DEPTH] by (simp add: scope_ids_def tps image_image)
  from supers_loop_yields [OF this _ sups] show "list_all (\<lambda>t. type_vars t \<subseteq> set (map tp_id tps)) sups" by simp
  show "length tps = length (class_type_params sig)"
    using class_type_params_aligned [of sig own] by (simp add: tp tps)
qed

lemma parse_method_signature_ok:
  assumes "parse_method_signature sig cps own = Some (tps, ret, ps)"
  defines "ids \<equiv> set (map (tp_id \<circ> snd) cps) \<union> set (map tp_id tps)"
  shows "params_ok own tps" "type_vars ret \<subseteq> ids" "list_all (\<lambda>t. type_vars t \<subseteq> ids) ps"
proof -
  obtain mps s1 where tp: "type_params_structured (sig_new []) own sig = (mps, s1)" by fastforce
  let ?ctx = "(sig_new [])\<lparr>scope := [cps, mps]\<rparr>" and ?ids = "set (map (tp_id \<circ> snd) cps) \<union> set (map (tp_id \<circ> snd) mps)"
  have p: "yields (\<lambda>t. type_vars t \<subseteq> ?ids) (type_parse ?ctx MAX_SIG_DEPTH)"
    using type_parse_vars [of ?ctx MAX_SIG_DEPTH] by (simp add: scope_ids_def)
  have "yields (\<lambda>(tps, ret, ps). tps = map snd mps \<and> type_vars ret \<subseteq> ?ids \<and> list_all (\<lambda>t. type_vars t \<subseteq> ?ids) ps)
     (bind_sig (expect (CHR ''('')) (\<lambda>_.
      bind_sig (until (CHR '')'') (type_parse ?ctx MAX_SIG_DEPTH)) (\<lambda>ps.
      bind_sig (expect (CHR '')'')) (\<lambda>_ s.
        case peek s of
          None \<Rightarrow> (None, s)
        | Some c \<Rightarrow>
            if c = CHR ''V'' then (Some (map snd mps, Void, ps), snd (bump s))
            else bind_sig (type_parse ?ctx MAX_SIG_DEPTH) (\<lambda>r s. (Some (map snd mps, r, ps), s)) s))))"
    (is "yields ?Q _")
  proof (rule yields_bind [OF yields_any], rule yields_bind [OF yields_until [OF p]], rule yields_bind [OF yields_any])
    fix ps assume ps: "list_all (\<lambda>t. type_vars t \<subseteq> ?ids) ps"
    have "yields ?Q (bind_sig (type_parse ?ctx MAX_SIG_DEPTH) (\<lambda>r s. (Some (map snd mps, r, ps), s)))"
      by (rule yields_bind [OF p]) (use ps in \<open>simp add: yields_def\<close>)
    with ps show "yields ?Q (\<lambda>s. case peek s of None \<Rightarrow> (None, s)
        | Some c \<Rightarrow> if c = CHR ''V'' then (Some (map snd mps, Void, ps), snd (bump s))
            else bind_sig (type_parse ?ctx MAX_SIG_DEPTH) (\<lambda>r s. (Some (map snd mps, r, ps), s)) s)"
      unfolding yields_def by (auto split: option.splits)
  qed
  from yields_fst [OF this] assms(1)
  have *: "tps = map snd mps" "type_vars ret \<subseteq> ?ids" "list_all (\<lambda>t. type_vars t \<subseteq> ?ids) ps"
    unfolding parse_method_signature_def tp prod.case Let_def by fastforce+
  show "params_ok own tps" using type_params_structured_ok [of own "[]" sig] by (simp add: tp *(1))
  show "type_vars ret \<subseteq> ids" "list_all (\<lambda>t. type_vars t \<subseteq> ids) ps"
    using * by (simp_all add: ids_def)
qed

lemma parse_field_signature_ok:
  "parse_field_signature sig cps = Some t \<Longrightarrow> type_vars t \<subseteq> set (map (tp_id \<circ> snd) cps)"
  using yields_fst [OF type_parse_vars, of "(sig_new [])\<lparr>scope := [cps]\<rparr>" MAX_SIG_DEPTH sig t]
  by (simp add: parse_field_signature_def scope_ids_def)

section \<open>Well-formed class metadata\<close>

definition class_ids :: "class_info \<Rightarrow> type_variable_id set" where
  "class_ids ci = (case ci_metadata ci of Some m \<Rightarrow> set (map tp_id (cm_type_parameters m)) | None \<Rightarrow> {})"

text \<open>
  A member is well formed when its metadata names the class, its own type parameters are numbered
  under an owner of its own, its types mention declared variables only, a field has no parameter
  list and every other member has one, and \<open>hidden\<close> says exactly that it is not accessible.
\<close>

definition class_member_ok :: "class_info \<Rightarrow> member_info \<Rightarrow> bool" where
  "class_member_ok ci mb \<longleftrightarrow>
     (\<exists>mm own. mb_metadata mb = Some mm \<and> declaring_class mm = NamedId (ci_fqn ci)
        \<and> params_ok (ci_fqn ci @ ''#'' @ own) (mm_type_parameters mm)
        \<and> type_vars (result mm) \<subseteq> class_ids ci \<union> set (map tp_id (mm_type_parameters mm))
        \<and> list_all (\<lambda>t. type_vars t \<subseteq> class_ids ci \<union> set (map tp_id (mm_type_parameters mm)))
            (case parameters mm of Some ps \<Rightarrow> ps | None \<Rightarrow> [])
        \<and> (mb_kind mb = FieldKind \<longleftrightarrow> parameters mm = None)
        \<and> (mb_hidden mb \<longleftrightarrow> mm_access mm \<in> {Private, Package})
        \<and> mb_is_static mb = mm_is_static mm)"

definition class_info_ok :: "class_info \<Rightarrow> bool" where
  "class_info_ok ci \<longleftrightarrow>
     (\<exists>m. ci_metadata ci = Some m \<and> cm_id m = NamedId (ci_fqn ci)
        \<and> length (supertypes m) = length (ci_supers ci)
        \<and> (cm_type_parameters m = [] \<or> length (cm_type_parameters m) = length (ci_type_params ci))
        \<and> params_ok (ci_fqn ci) (cm_type_parameters m)
        \<and> list_all (\<lambda>t. type_vars t \<subseteq> class_ids ci) (supertypes m))
     \<and> length (ci_super_type_args ci) = length (ci_supers ci)
     \<and> list_all (class_member_ok ci) (ci_members ci)
     \<and> list_all (\<lambda>mb. mb_kind mb = MethodKind \<longrightarrow> \<not> starts_with ''<'' (mb_name mb)) (ci_members ci)"

lemma descriptor_no_vars [simp]: "type_vars (descriptor_type_ref d) = {}"
proof -
  have "type_vars ((Array ^^ n) t) = type_vars t" for n t by (induction n) auto
  then show ?thesis by (cases "field_type d") (auto simp: descriptor_type_ref_def named_def)
qed

lemma erased_no_vars [simp]: "type_vars (erased_result d) = {}"
  by (simp add: erased_result_def split: return_descriptor.splits)

lemma params_ok_Nil [simp]: "params_ok own []"
  by (simp add: params_ok_def)

lemma method_structured_ok:
  assumes "method_structured d sig cps own = (tps, ps, ret)"
  defines "ids \<equiv> set (map (tp_id \<circ> snd) cps) \<union> set (map tp_id tps)"
  shows "params_ok own tps" "type_vars ret \<subseteq> ids" "list_all (\<lambda>t. type_vars t \<subseteq> ids) ps"
    "length ps = length (md_parameters d)"
proof -
  consider "tps = []" "ps = map descriptor_type_ref (md_parameters d)" "ret = erased_result d"
    | s where "parse_method_signature s cps own = Some (tps, ret, ps)" "length ps = length (md_parameters d)"
    using assms(1)
    by (auto simp: method_structured_def Let_def bind_eq_Some_conv split: option.splits if_splits prod.splits)
  then have "params_ok own tps \<and> type_vars ret \<subseteq> ids \<and> list_all (\<lambda>t. type_vars t \<subseteq> ids) ps
      \<and> length ps = length (md_parameters d)"
  proof cases
    case 1
    then show ?thesis by (simp add: list_all_iff)
  next
    case 2
    then show ?thesis using parse_method_signature_ok [OF 2(1)] unfolding ids_def by blast
  qed
  then show "params_ok own tps" "type_vars ret \<subseteq> ids" "list_all (\<lambda>t. type_vars t \<subseteq> ids) ps"
    "length ps = length (md_parameters d)" by blast+
qed

lemma field_result_ok: "type_vars (field_result_type f cps) \<subseteq> set (map (tp_id \<circ> snd) cps)"
  by (auto simp: field_result_type_def split: option.splits Option.bind_splits dest!: parse_field_signature_ok)

lemma access_hidden:
  "\<not> method_visible flags \<longleftrightarrow> method_access flags \<in> {Private, Package}" if "SYNTHETIC \<notin> flags" "BRIDGE \<notin> flags"
  using that by (auto simp: method_visible_def method_access_def)

lemma field_access_visible: "field_visible flags \<Longrightarrow> field_access flags \<notin> {Private, Package}"
  by (auto simp: field_visible_def field_access_def)

lemma list_all_weaken: "list_all P xs \<Longrightarrow> (\<And>x. P x \<Longrightarrow> Q x) \<Longrightarrow> list_all Q xs"
  by (simp add: list_all_iff)

lemma structured_of_ok:
  assumes "structured_of c = (tps, sups)"
  shows "params_ok (fqn_of (this_class c)) tps" "list_all (\<lambda>t. type_vars t \<subseteq> set (map tp_id tps)) sups"
    "length sups = length (supers_of c)" "tps = [] \<or> length tps = length (type_params_of c)"
proof -
  consider "tps = []" "sups = map named (supers_of c)"
    | s where "signature_attr (cf_attributes c) = Some s" "length sups = length (supers_of c)"
        "parse_class_signature s (fqn_of (this_class c)) = Some (tps, sups)"
    using assms by (auto simp: structured_of_def bind_eq_Some_conv split: option.splits if_splits prod.splits)
  then have "params_ok (fqn_of (this_class c)) tps \<and> list_all (\<lambda>t. type_vars t \<subseteq> set (map tp_id tps)) sups
      \<and> length sups = length (supers_of c) \<and> (tps = [] \<or> length tps = length (type_params_of c))"
  proof cases
    case 1
    then show ?thesis by (simp add: list_all_iff named_def)
  next
    case 2
    then show ?thesis using parse_class_signature_ok [OF 2(3)] by (simp add: type_params_of_def)
  qed
  then show "params_ok (fqn_of (this_class c)) tps" "list_all (\<lambda>t. type_vars t \<subseteq> set (map tp_id tps)) sups"
    "length sups = length (supers_of c)" "tps = [] \<or> length tps = length (type_params_of c)" by blast+
qed

lemma named_scope_ids: "set (map (tp_id \<circ> snd) (cs_named (scope_of c))) \<subseteq> set (map tp_id (fst (structured_of c)))"
  by (auto simp: scope_of_def dest: set_zip_rightD)

lemma method_owner_prefix: "\<exists>own. method_owner (scope_of c) m = fqn_of (this_class c) @ ''#'' @ own"
  by (simp add: method_owner_def scope_of_def)

lemma field_members_ok:
  assumes "ci_fqn ci = cs_fqn cs" "set (map (tp_id \<circ> snd) (cs_named cs)) \<subseteq> class_ids ci"
  shows "list_all (class_member_ok ci) (field_members cs fs)"
proof (induction fs)
  case (Cons f fs)
  have "class_member_ok ci (field_member cs f)" if "field_visible (fi_flags f)"
    using assms field_result_ok [of f "cs_named cs"] field_access_visible [OF that]
    by (auto simp: class_member_ok_def field_member_def Let_def)
  then show ?case using Cons by simp
qed simp

lemma method_like_ok:
  assumes "ci_fqn ci = cs_fqn cs" "set (map (tp_id \<circ> snd) (cs_named cs)) \<subseteq> class_ids ci"
    and "\<not> skipped_method m" and "mb \<in> {constructor_member cs m, method_member cs m}"
  shows "class_member_ok ci mb"
proof -
  obtain tps ps ret where ms:
    "method_structured (mi_descriptor m) (signature_attr (mi_attributes m)) (cs_named cs) (method_owner cs m) = (tps, ps, ret)"
    by (metis prod_cases3)
  let ?ids = "class_ids ci \<union> set (map tp_id tps)"
  note ok = method_structured_ok [OF ms]
  have vars: "type_vars ret \<subseteq> ?ids" "list_all (\<lambda>t. type_vars t \<subseteq> ?ids) ps"
    using ok(2) list_all_weaken [OF ok(3), of "\<lambda>t. type_vars t \<subseteq> ?ids"] assms(2) by blast+
  have owner: "method_owner cs m = ci_fqn ci @ ''#'' @ (mi_name m @ ''('' @ erased_descriptor_key (mi_descriptor m) @ '')'')"
    by (simp add: method_owner_def assms(1))
  have hidden: "\<not> method_visible (mi_flags m) \<longleftrightarrow> method_access (mi_flags m) \<in> {Private, Package}"
    by (rule access_hidden) (use assms(3) in \<open>auto simp: skipped_method_def\<close>)
  show ?thesis
    using assms(1,4) ok(1) vars hidden unfolding owner class_member_ok_def
    by (auto simp: constructor_member_def method_member_def ms Let_def simp del: append_assoc)
qed

lemma method_members_ok:
  assumes "ci_fqn ci = cs_fqn cs" "set (map (tp_id \<circ> snd) (cs_named cs)) \<subseteq> class_ids ci"
  shows "list_all (class_member_ok ci) (method_members cs ms)"
  using method_like_ok [OF assms] by (induction ms) auto

lemma member_names_ok:
  "list_all (\<lambda>mb. mb_kind mb = MethodKind \<longrightarrow> \<not> starts_with ''<'' (mb_name mb)) (field_members cs fs)"
  "list_all (\<lambda>mb. mb_kind mb = MethodKind \<longrightarrow> \<not> starts_with ''<'' (mb_name mb)) (method_members cs ms)"
proof -
  show "list_all (\<lambda>mb. mb_kind mb = MethodKind \<longrightarrow> \<not> starts_with ''<'' (mb_name mb)) (field_members cs fs)"
    by (induction fs) (auto simp: field_member_def Let_def)
  show "list_all (\<lambda>mb. mb_kind mb = MethodKind \<longrightarrow> \<not> starts_with ''<'' (mb_name mb)) (method_members cs ms)"
    by (induction ms)
      (auto simp: skipped_method_def constructor_member_def method_member_def Let_def split: prod.splits)
qed

lemma super_type_args_length: "length (super_type_args_of c) = length (supers_of c)"
  by (simp add: super_type_args_of_def Let_def split: option.splits)

lemma parse_ok:
  assumes "parse cafebabe content = Some ci"
  shows "class_info_ok ci"
proof -
  from assms obtain c where c: "cafebabe content = Some c"
    and ci: "ci = \<lparr>ci_fqn = fqn_of (this_class c), ci_supers = supers_of c, ci_type_params = type_params_of c,
             ci_members = field_members (scope_of c) (cf_fields c) @ method_members (scope_of c) (cf_methods c),
             ci_super_type_args = super_type_args_of c, ci_metadata = Some (metadata_of c)\<rparr>"
    by (auto simp: parse_def bind_eq_Some_conv)
  obtain tps sups where st: "structured_of c = (tps, sups)" by fastforce
  have fqn: "ci_fqn ci = cs_fqn (scope_of c)" by (simp add: ci scope_of_def)
  have ids: "class_ids ci = set (map tp_id tps)" by (simp add: ci class_ids_def metadata_of_def st)
  then have sub: "set (map (tp_id \<circ> snd) (cs_named (scope_of c))) \<subseteq> class_ids ci"
    using named_scope_ids [of c] by (simp add: st)
  have "list_all (class_member_ok ci) (ci_members ci)"
    using field_members_ok [OF fqn sub] method_members_ok [OF fqn sub] by (simp add: ci)
  moreover have "ci_metadata ci = Some (metadata_of c)" "cm_id (metadata_of c) = NamedId (ci_fqn ci)"
    "cm_type_parameters (metadata_of c) = tps" "supertypes (metadata_of c) = sups"
    "ci_supers ci = supers_of c" "ci_type_params ci = type_params_of c" "ci_fqn ci = fqn_of (this_class c)"
    "ci_super_type_args ci = super_type_args_of c"
    by (simp_all add: ci metadata_of_def st)
  moreover have "list_all (\<lambda>mb. mb_kind mb = MethodKind \<longrightarrow> \<not> starts_with ''<'' (mb_name mb)) (ci_members ci)"
    using member_names_ok by (simp add: ci)
  ultimately show ?thesis
    using structured_of_ok [OF st] super_type_args_length [of c] ids unfolding class_info_ok_def by metis
qed

section \<open>Descriptors and signatures agree\<close>

text \<open>The descriptor of a type is also its signature when it has no type arguments.\<close>

fun base_sig :: "field_type \<Rightarrow> string" where
  "base_sig (FPrimitive p) = [prim_letter p]"
| "base_sig (FObject c) = ''L'' @ c @ '';''"

definition descriptor_sig :: "field_descriptor \<Rightarrow> string" where
  "descriptor_sig d = replicate (dimensions d) (CHR ''['') @ base_sig (field_type d)"

definition descriptor_wf :: "field_descriptor \<Rightarrow> bool" where
  "descriptor_wf d \<longleftrightarrow> dimensions d < MAX_SIG_DEPTH
     \<and> (case field_type d of FObject c \<Rightarrow> valid_str c \<and> set c \<inter> set ''<;.'' = {} | FPrimitive _ \<Rightarrow> True)"

lemma read_until_stop:
  assumes "valid_str c" "set c \<inter> set stops = {}" "x \<in> set stops"
  shows "read_until stops (c @ x # r) = (c, x # r)"
proof -
  have "takeWhile (\<lambda>y. y \<notin> set stops) (c @ x # r) = c" "dropWhile (\<lambda>y. y \<notin> set stops) (c @ x # r) = x # r"
    using assms(2,3) by (auto simp: takeWhile_append dropWhile_append disjoint_iff)
  then show ?thesis by (simp add: read_until_def from_utf8_lossy_as_bytes [OF assms(1)])
qed

lemma render_base:
  assumes "descriptor_wf d"
  shows "type_render ctx (Suc n) (base_sig (field_type d) @ r) = (Some (base_name (field_type d)), r)"
    "type_parse ctx' (Suc n) (base_sig (field_type d) @ r) = (Some (base_type_ref (field_type d)), r)"
proof -
  show "type_render ctx (Suc n) (base_sig (field_type d) @ r) = (Some (base_name (field_type d)), r)"
  proof (cases "field_type d")
    case (FPrimitive p)
    then show ?thesis by (cases p) (simp_all add: type_render_inner_def bind_sig_def)
  next
    case (FObject c)
    with assms have "read_until ''<;.'' (c @ CHR '';'' # r) = (c, CHR '';'' # r)"
      by (intro read_until_stop) (auto simp: descriptor_wf_def)
    then show ?thesis
      by (simp add: FObject type_render_inner_def bind_sig_def class_type_def class_type_parts_def read_class_name_def
          maybe_type_arg_list_def simple_def simple_name_def)
  qed
  show "type_parse ctx' (Suc n) (base_sig (field_type d) @ r) = (Some (base_type_ref (field_type d)), r)"
  proof (cases "field_type d")
    case (FPrimitive p)
    then show ?thesis by (cases p) (simp_all add: type_parse_inner_def bind_sig_def)
  next
    case (FObject c)
    with assms have "read_until ''<;.'' (c @ CHR '';'' # r) = (c, CHR '';'' # r)"
      by (intro read_until_stop) (auto simp: descriptor_wf_def)
    then show ?thesis
      by (simp add: FObject type_parse_inner_def bind_sig_def class_parse_def type_args_structured_def named_def fqn_of_def)
  qed
qed

lemma render_dims:
  assumes "type_render ctx n s = (Some t, r)" "type_parse ctx' n s = (Some ty, r)"
  shows "type_render ctx (k + n) (replicate k (CHR ''['') @ s) = (Some (t @ concat (replicate k ''[]'')), r)"
    "type_parse ctx' (k + n) (replicate k (CHR ''['') @ s) = (Some ((Array ^^ k) ty), r)"
proof (induction k)
  case (Suc k)
  have "concat (replicate k ''[]'') @ ''[]'' = ''[]'' @ concat (replicate k ''[]'')" for k
    by (induction k) auto
  then show "type_render ctx (Suc k + n) (replicate (Suc k) (CHR ''['') @ s) = (Some (t @ concat (replicate (Suc k) ''[]'')), r)"
    "type_parse ctx' (Suc k + n) (replicate (Suc k) (CHR ''['') @ s) = (Some ((Array ^^ Suc k) ty), r)"
    using Suc by (simp_all add: type_render_inner_def type_parse_inner_def bind_sig_def)
qed (use assms in simp_all)

lemma until_mapped:
  assumes "\<And>a r. a \<in> set xs \<Longrightarrow> elem (enc a @ r) = (Some (f a), r)"
    and "\<And>a. a \<in> set xs \<Longrightarrow> \<exists>c cs. enc a = c # cs \<and> c \<noteq> stop"
  shows "until stop elem (concat (map enc xs) @ stop # r) = (Some (map f xs), stop # r)"
proof -
  have "until_loop stop elem fuel acc (concat (map enc xs) @ stop # r) = (Some (acc @ map f xs), stop # r)"
    if "length xs < fuel" for fuel acc
    using assms that
  proof (induction xs arbitrary: fuel acc)
    case Nil
    then show ?case by (cases fuel) simp_all
  next
    case (Cons x xs)
    then obtain fuel' where fuel: "fuel = Suc fuel'" by (cases fuel) auto
    obtain c cs where x: "enc x = c # cs" "c \<noteq> stop" using Cons.prems(2) by fastforce
    have "elem (c # cs @ concat (map enc xs) @ stop # r) = (Some (f x), concat (map enc xs) @ stop # r)"
      using Cons.prems(1) [of x "concat (map enc xs) @ stop # r"] by (simp add: x)
    then show ?case using Cons by (simp add: fuel x)
  qed
  moreover have "length xs \<le> length (concat (map enc xs))"
    using assms(2) by (induction xs) (fastforce simp: Suc_le_eq)+
  ultimately show ?thesis by (simp add: until_def del: until_loop.simps)
qed

lemma descriptor_parsed:
  assumes "descriptor_wf d"
  shows "type_render ctx MAX_SIG_DEPTH (descriptor_sig d @ r) = (Some (render_field d), r)"
    "type_parse ctx' MAX_SIG_DEPTH (descriptor_sig d @ r) = (Some (descriptor_type_ref d), r)"
proof -
  obtain n where n: "MAX_SIG_DEPTH = dimensions d + Suc n"
    using assms by (auto simp: descriptor_wf_def dest: less_imp_Suc_add)
  show "type_render ctx MAX_SIG_DEPTH (descriptor_sig d @ r) = (Some (render_field d), r)"
    "type_parse ctx' MAX_SIG_DEPTH (descriptor_sig d @ r) = (Some (descriptor_type_ref d), r)"
    using render_dims [OF render_base(1) [OF assms, of ctx n r] render_base(2) [OF assms, of ctx' n r], of "dimensions d"]
    unfolding n descriptor_sig_def render_field_def descriptor_type_ref_def by simp_all
qed

lemma descriptor_sig_start: "\<exists>c cs. descriptor_sig d = c # cs \<and> c \<noteq> CHR '')''"
proof (cases "dimensions d")
  case 0
  show ?thesis
  proof (cases "field_type d")
    case (FPrimitive p)
    then show ?thesis using 0 by (cases p) (simp_all add: descriptor_sig_def)
  qed (simp add: 0 descriptor_sig_def)
qed (simp add: descriptor_sig_def)

fun return_sig :: "return_descriptor \<Rightarrow> string" where
  "return_sig ReturnVoid = ''V''"
| "return_sig (Return d) = descriptor_sig d"

definition method_sig :: "method_descriptor \<Rightarrow> string" where
  "method_sig d = ''('' @ concat (map descriptor_sig (md_parameters d)) @ '')'' @ return_sig (return_type d)"

definition method_wf :: "method_descriptor \<Rightarrow> bool" where
  "method_wf d \<longleftrightarrow> list_all descriptor_wf (md_parameters d)
     \<and> (case return_type d of Return f \<Rightarrow> descriptor_wf f | ReturnVoid \<Rightarrow> True)"

lemma return_sig_start: "descriptor_wf d \<Longrightarrow> \<exists>c. peek (descriptor_sig d) = Some c \<and> c \<noteq> CHR ''V''"
proof (cases "dimensions d")
  case 0
  show ?thesis
  proof (cases "field_type d")
    case (FPrimitive p)
    then show ?thesis using 0 by (cases p) (simp_all add: descriptor_sig_def)
  qed (simp add: 0 descriptor_sig_def)
qed (simp add: descriptor_sig_def)

lemma method_descriptor_parsed:
  assumes "method_wf d"
  shows "method_template (method_sig d) ps = Some ([], render_return (return_type d), map render_field (md_parameters d))"
    "parse_method_signature (method_sig d) cps own = Some ([], erased_result d, map descriptor_type_ref (md_parameters d))"
proof -
  have wf: "descriptor_wf a" if "a \<in> set (md_parameters d)" for a
    using assms that by (simp add: method_wf_def list_all_iff)
  have until:
    "until (CHR '')'') (type_render ctx MAX_SIG_DEPTH) (concat (map descriptor_sig (md_parameters d)) @ CHR '')'' # r)
       = (Some (map render_field (md_parameters d)), CHR '')'' # r)"
    "until (CHR '')'') (type_parse ctx MAX_SIG_DEPTH) (concat (map descriptor_sig (md_parameters d)) @ CHR '')'' # r)
       = (Some (map descriptor_type_ref (md_parameters d)), CHR '')'' # r)" for ctx r
    by (rule until_mapped; use descriptor_parsed [OF wf] descriptor_sig_start in blast)+
  have start: "peek (method_sig d) = Some (CHR ''('')" by (simp add: method_sig_def)
  have "method_template (method_sig d) ps = Some ([], render_return (return_type d), map render_field (md_parameters d))
    \<and> parse_method_signature (method_sig d) cps own = Some ([], erased_result d, map descriptor_type_ref (md_parameters d))"
  proof (cases "return_type d")
    case (Return f)
    with assms have f: "descriptor_wf f" by (simp add: method_wf_def)
    from return_sig_start [OF this] obtain c where c: "peek (descriptor_sig f) = Some c" "c \<noteq> CHR ''V''" by blast
    show ?thesis
      using start until c descriptor_parsed [OF f, of _ "[]"]
      by (simp add: method_template_def type_params_def parse_method_signature_def type_params_structured_def
          Let_def bind_sig_def method_sig_def Return erased_result_def)
  next
    case ReturnVoid
    then show ?thesis
      using start until
      by (simp add: method_template_def type_params_def parse_method_signature_def type_params_structured_def
          Let_def bind_sig_def method_sig_def erased_result_def)
  qed
  then show "method_template (method_sig d) ps = Some ([], render_return (return_type d), map render_field (md_parameters d))"
    "parse_method_signature (method_sig d) cps own = Some ([], erased_result d, map descriptor_type_ref (md_parameters d))"
    by blast+
qed

section \<open>Properties\<close>

text \<open>
  Descriptors and signatures never disagree. The descriptor of a type or a method, read as a generic
  signature, gives in both parsers what the erased rendering gives directly: the same display text
  and the same structured types, whatever type parameters are in scope. So whether a member carries
  a redundant \<open>Signature\<close> attribute makes no difference.
\<close>

theorem descriptor_signature_agree:
  "(descriptor_wf f \<longrightarrow>
      field_template (descriptor_sig f) ps = Some (render_field f)
      \<and> parse_field_signature (descriptor_sig f) cps = Some (descriptor_type_ref f))
   \<and> (method_wf d \<longrightarrow>
      method_template (method_sig d) ps = Some ([], render_return (return_type d), map render_field (md_parameters d))
      \<and> method_structured d (Some (method_sig d)) cps own = method_structured d None cps own)"
  using descriptor_parsed [of f _ "[]"] method_descriptor_parsed [of d]
  by (simp add: field_template_def parse_field_signature_def method_structured_def Let_def)

theorem descriptor_signature_agree_witness:
  "field_template ''[Ljava/lang/String;'' [''T''] = Some ''String[]''
   \<and> method_structured (MethodDescriptor [FieldDescriptor 0 (FPrimitive PInt)] ReturnVoid) (Some ''(I)V'') [] ''A#f(int)''
     = ([], [Primitive PInt], Void)"
  using descriptor_signature_agree [of "FieldDescriptor 1 (FObject ''java/lang/String'')" "[''T'']" "[]"
      "MethodDescriptor [FieldDescriptor 0 (FPrimitive PInt)] ReturnVoid" "''A#f(int)''"]
  by (simp add: descriptor_wf_def method_wf_def MAX_SIG_DEPTH_def descriptor_sig_def method_sig_def render_field_def
      valid_str_ascii simple_name_def replace_char_def method_structured_def descriptor_type_ref_def erased_result_def
      Let_def)

lemma load_from_parsed:
  "load_from env path ars = Some ci \<Longrightarrow> \<exists>content. ce_parse_class env content = Some ci"
  by (induction env path ars rule: load_from.induct)
    (auto simp: Let_def bind_eq_Some_conv split: option.splits if_splits)

text \<open>
  C22. Class metadata is well formed whatever the class file: the lists of supertypes, their type
  arguments and their structured forms have the same length, the structured type parameters are
  those of the display form (or absent), numbered under the class, every type mentions only type
  variables that the class or the member declares, members name their class, \<open>hidden\<close> means exactly
  not accessible, and no initialiser or other special method is listed. This holds of every class
  that any sequence of queries on the classpath of any project returns.
\<close>

theorem class_answers_well_formed:
  assumes "ce_parse_class env = parse cafebabe"
    and "AClass (Some ci) \<in> set (run_queries env (from_jdk_and_project (ce_res env) root) qs)"
  shows "class_info_ok ci"
proof -
  let ?cp = "from_jdk_and_project (ce_res env) root"
  have "run_queries env ?cp qs = map (spec_answer env ?cp) qs"
    by (rule run_queries_refines) (rule uncached_coherent [OF from_jdk_and_project_uncached])
  with assms(2) obtain q where "spec_answer env ?cp q = AClass (Some ci)" by (metis imageE list.set_map)
  then have "\<exists>fqn. cp_load env ?cp fqn = Some ci" by (cases q) auto
  then obtain content where "ce_parse_class env content = Some ci"
    by (auto simp: cp_load_def dest: load_from_parsed)
  then show ?thesis using parse_ok assms(1) by metis
qed

text \<open>
  The owner of a method's type variables is meant to be unique among overloads, but it is built from
  simple names: two overloads on classes of the same simple name share it.
\<close>

lemma method_owner_collides:
  "md_parameters (mi_descriptor m) = [FieldDescriptor 0 (FObject ''java/util/Date'')] \<Longrightarrow>
   md_parameters (mi_descriptor m') = [FieldDescriptor 0 (FObject ''java/sql/Date'')] \<Longrightarrow>
   mi_name m' = mi_name m \<Longrightarrow> method_owner cs m = method_owner cs m'"
  by (simp add: method_owner_def erased_descriptor_key_def render_field_def simple_name_def replace_char_def)

section \<open>A class file on which the theorems are applied\<close>

definition sample_class :: class_file where
  "sample_class = \<lparr>cf_flags = {PUBLIC}, this_class = ''A'', super_class = Some ''java/lang/Object'', interfaces = [],
     cf_fields = [], cf_methods = [], cf_attributes = []\<rparr>"

definition class_members :: "zip_member list" where
  "class_members = [\<lparr>zm_name = as_bytes ''classes/A.class'', zm_method = 0, zm_data = [1], zm_size = 1\<rparr>]"

definition class_fs :: fs where
  "class_fs = \<lparr>fs_read = (\<lambda>p. if p = ''/j/jmods/java.base.jmod'' then Some (zip_bytes [74, 77, 1, 0] class_members) else None),
     fs_len = (\<lambda>_. None), fs_is_file = (\<lambda>p. p = ''/j/jmods/java.base.jmod''), fs_is_dir = (\<lambda>_. False),
     fs_read_dir = (\<lambda>d. if d = ''/j/jmods'' then Some [\<lparr>de_name = ''java.base.jmod'', de_type = Some FtFile\<rparr>] else None),
     fs_canonicalize = Some, fs_var = (\<lambda>v. if v = ''JAVA_HOME'' then Some ''/j'' else None)\<rparr>"

definition class_env :: "class_info cp_env" where
  "class_env = \<lparr>ce_res = \<lparr>re_fs = class_fs, re_parse = (\<lambda>_. None), re_iter = (\<lambda>m. m)\<rparr>,
     ce_inflate = (\<lambda>_ _. None), ce_parse_class = parse (\<lambda>_. Some sample_class)\<rparr>"

lemma class_members_ok: "members_ok class_members" and class_member_name: "member_name (hd class_members) = ''classes/A.class''"
proof -
  have n: "from_utf8 (as_bytes ''classes/A.class'') = Some ''classes/A.class''"
    by (rule from_utf8_as_bytes) (simp add: valid_str_ascii)
  then show "member_name (hd class_members) = ''classes/A.class''" by (simp add: class_members_def member_name_def)
  show "members_ok class_members"
    using n by (simp add: class_members_def members_ok_def member_ok_def member_name_def local_parts_def
      length_local_part length_cd_record is_unsafe_name_def starts_with_def
      MAX_UNCOMPRESSED_def MAX_CD_ENTRIES_def MAX_CENTRAL_DIRECTORY_SIZE_def)
qed

lemma class_read: "fs_read class_fs ''/j/jmods/java.base.jmod'' = Some (zip_bytes [74, 77, 1, 0] class_members)"
  by (simp add: class_fs_def)

lemma class_zip:
  "zip_open class_fs ''/j/jmods/java.base.jmod'' 4 =
     Some \<lparr>za_path = ''/j/jmods/java.base.jmod'', za_base = 4, za_entries = member_entries 0 class_members\<rparr>"
  "zip_open class_fs ''/j/lib/src.zip'' 0 = None"
  using zip_open_bytes [OF class_read class_members_ok] by (simp add: numeral_eq_Suc) (simp add: zip_open_def class_fs_def)

lemma class_path:
  "cp_archives (from_jdk_and_project (ce_res class_env) None) =
     [\<lparr>ar_zip = \<lparr>za_path = ''/j/jmods/java.base.jmod'', za_base = 4, za_entries = member_entries 0 class_members\<rparr>,
       ar_prefix = ''classes/''\<rparr>]"
proof -
  have "best_jdk class_fs = Some ''/j''" "jmods class_fs ''/j'' = [''/j/jmods/java.base.jmod'']"
    by code_simp+
  then show ?thesis
    by (simp add: from_jdk_and_project_def from_jdk_def class_env_def home_dir_def add_jmod_def add_sources_def class_zip
        path_join_def cp_empty_def is_absolute_def)
qed

theorem class_answers_well_formed_witness:
  "\<exists>ci. AClass (Some ci) \<in> set (run_queries class_env (from_jdk_and_project (ce_res class_env) None) [QClass ''A''])
     \<and> ci_fqn ci = ''A'' \<and> class_info_ok ci"
proof -
  let ?cp = "from_jdk_and_project (ce_res class_env) None"
  have read: "zip_read class_fs (\<lambda>_ _. None)
      \<lparr>za_path = ''/j/jmods/java.base.jmod'', za_base = 4, za_entries = member_entries 0 class_members\<rparr> ''classes/A.class'' = Some [1]"
    using zip_read_member [OF class_read class_members_ok, of "hd class_members" "\<lambda>_ _. None"] class_member_name
    by (simp add: class_members_def decode_member_def numeral_eq_Suc)
  have "\<exists>ci. parse (\<lambda>_. Some sample_class) [1] = Some ci \<and> ci_fqn ci = ''A''"
    by (simp add: parse_def sample_class_def fqn_of_def replace_char_def)
  then obtain ci where ci: "parse (\<lambda>_. Some sample_class) [1] = Some ci" "ci_fqn ci = ''A''" by blast
  have "cp_load class_env ?cp ''A'' = Some ci"
    using class_member_name read ci(1)
    by (simp add: cp_load_def class_path replace_char_def Let_def zip_contains_def class_members_def)
      (simp add: class_env_def)
  then have "AClass (Some ci) \<in> set (run_queries class_env ?cp [QClass ''A''])"
    using run_queries_refines [OF uncached_coherent [OF from_jdk_and_project_uncached], of class_env _ None "[QClass ''A'']"]
    by simp
  moreover from this have "class_info_ok ci"
    by (rule class_answers_well_formed [rotated]) (simp add: class_env_def)
  ultimately show ?thesis using ci(2) by blast
qed

end
