(* ===== verification/External_Symbols.thy ===== *)
theory External_Symbols
  imports Class_Info
begin

text \<open>
  The symbols that the analysis sees: \<open>crates/syntax/src/external.rs\<close>, their two providers in
  \<open>crates/server/src\<close> (\<open>ClasspathSymbols\<close> of \<open>main.rs\<close> over the classpath facade, \<open>CombinedSymbols\<close>
  of \<open>project_symbols.rs\<close>), and the class facts of \<open>crates/syntax/src/resolve.rs\<close> made from them.

  A symbol source is a record of its five queries. The Javadoc extraction of a source text
  (\<open>javadoc_in_source\<close>, on a parse tree) is a parameter.
\<close>

section \<open>Symbol sources\<close>

record external_member =
  em_name :: string
  em_kind :: member_kind
  em_signature :: string
  em_template :: "string option"
  em_is_static :: bool
  em_ret_fqn :: "string option"
  em_ret_display :: "string option"
  em_metadata :: "member_metadata option"

record external_class =
  ec_supers :: "string list"
  ec_type_params :: "string list"
  ec_members :: "external_member list"
  ec_metadata :: "class_metadata option"

record type_candidate =
  tc_simple :: string
  tc_fqn :: string
  tc_import_path :: string

record symbol_source =
  ss_class :: "string \<Rightarrow> external_class option"
  ss_types_with_prefix :: "string \<Rightarrow> nat \<Rightarrow> type_candidate list \<times> bool"
  ss_package_children :: "string \<Rightarrow> string list \<times> type_candidate list"
  ss_doc :: "string \<Rightarrow> string option \<Rightarrow> string option"
  ss_super_type_args :: "string \<Rightarrow> string list list"

definition NoSymbols :: symbol_source where
  "NoSymbols = \<lparr>ss_class = (\<lambda>_. None), ss_types_with_prefix = (\<lambda>_ _. ([], False)), ss_package_children = (\<lambda>_. ([], [])),
     ss_doc = (\<lambda>_ _. None), ss_super_type_args = (\<lambda>_. [])\<rparr>"

section \<open>The classpath as a symbol source\<close>

text \<open>
  A query of the adapter is a query of the facade on the classpath snapshot. The caches of the facade
  never show (theory \<open>Classpath\<close>), so the adapter is a function of the archives.
\<close>

definition to_external_member :: "member_info \<Rightarrow> external_member" where
  "to_external_member m =
     \<lparr>em_name = mb_name m, em_kind = mb_kind m, em_signature = mb_signature m, em_template = mb_template m,
      em_is_static = mb_is_static m, em_ret_fqn = mb_ret_fqn m, em_ret_display = mb_ret_display m,
      em_metadata = mb_metadata m\<rparr>"

definition to_external :: "class_info \<Rightarrow> external_class" where
  "to_external info =
     \<lparr>ec_supers = ci_supers info, ec_type_params = ci_type_params info,
      ec_members = map to_external_member (filter (\<lambda>m. \<not> mb_hidden m \<or> mb_kind m = ConstructorKind) (ci_members info)),
      ec_metadata = ci_metadata info\<rparr>"

definition candidate :: "type_entry \<Rightarrow> type_candidate" where
  "candidate e = \<lparr>tc_simple = te_simple e, tc_fqn = te_fqn e, tc_import_path = te_import_path e\<rparr>"

definition doc_simple_name :: "string \<Rightarrow> string" where
  "doc_simple_name current = last (split_char (CHR ''$'') (last (split_char (CHR ''.'') current)))"

text \<open>
  The walk for an inherited Javadoc pops from the end of the stack, here the head of the list. Each
  round pops one name; a fresh name within the budget pushes its supertypes.
\<close>

function doc_walk :: "(string \<Rightarrow> string option) \<Rightarrow> (string \<Rightarrow> string list) \<Rightarrow> nat \<Rightarrow> string set \<Rightarrow> string list \<Rightarrow> string option" where
  "doc_walk doc supers budget visited [] = None"
| "doc_walk doc supers budget visited (current # stack) =
     (if budget = 0 \<or> current \<in> visited then doc_walk doc supers budget visited stack
      else case doc current of
          Some d \<Rightarrow> Some d
        | None \<Rightarrow> doc_walk doc supers (budget - 1) (insert current visited) (rev (supers current) @ stack))"
  by pat_completeness auto
termination
  by (relation "(\<lambda>(_, _, budget, _, _). budget) <*mlex*> measure (\<lambda>(_, _, _, _, stack). length stack)")
    (simp_all add: wf_mlex mlex_iff)

declare doc_walk.simps [simp del]

definition classpath_doc :: "(string \<Rightarrow> string \<Rightarrow> string option \<Rightarrow> string option) \<Rightarrow> class_info cp_env \<Rightarrow> class_info classpath
    \<Rightarrow> string \<Rightarrow> string option \<Rightarrow> string option" where
  "classpath_doc javadoc_in_source env cp fqn member =
     doc_walk (\<lambda>current. Option.bind (fst (cp_source env cp current)) (\<lambda>src. javadoc_in_source src (doc_simple_name current) member))
       (\<lambda>current. if member \<noteq> None
          then (case fst (cp_class env cp current) of Some info \<Rightarrow> ci_supers info | None \<Rightarrow> []) else [])
       64 {} [fqn]"

definition ClasspathSymbols :: "(string \<Rightarrow> string \<Rightarrow> string option \<Rightarrow> string option) \<Rightarrow> class_info cp_env
    \<Rightarrow> class_info classpath \<Rightarrow> symbol_source" where
  "ClasspathSymbols javadoc_in_source env cp =
     \<lparr>ss_class = (\<lambda>fqn. map_option to_external (fst (cp_class env cp fqn))),
      ss_types_with_prefix = (\<lambda>prefix limit. case fst (cp_types_with_prefix cp prefix limit) of
         (entries, truncated) \<Rightarrow> (map candidate entries, truncated)),
      ss_package_children = (\<lambda>package. case fst (cp_package_children cp package) of
         (subpackages, types) \<Rightarrow> (subpackages, map candidate types)),
      ss_doc = classpath_doc javadoc_in_source env cp,
      ss_super_type_args = (\<lambda>fqn. case fst (cp_class env cp fqn) of Some info \<Rightarrow> ci_super_type_args info | None \<Rightarrow> [])\<rparr>"

section \<open>Two layers\<close>

definition first_layer :: "'a option \<Rightarrow> 'a option \<Rightarrow> 'a option" where
  "first_layer a b = (case a of Some x \<Rightarrow> Some x | None \<Rightarrow> b)"

definition combined_class :: "symbol_source \<Rightarrow> symbol_source \<Rightarrow> string \<Rightarrow> external_class option" where
  "combined_class p c fqn = first_layer (ss_class p fqn) (ss_class c fqn)"

definition combined_doc :: "symbol_source \<Rightarrow> symbol_source \<Rightarrow> string \<Rightarrow> string option \<Rightarrow> string option" where
  "combined_doc p c fqn member =
     (case first_layer (ss_doc p fqn member) (ss_doc c fqn member) of
        Some d \<Rightarrow> Some d
      | None \<Rightarrow>
          if member = None then None
          else case combined_class p c fqn of
              None \<Rightarrow> None
            | Some cls \<Rightarrow>
                doc_walk (\<lambda>super_fqn. first_layer (ss_doc p super_fqn member) (ss_doc c super_fqn member))
                  (\<lambda>super_fqn. case combined_class p c super_fqn of Some k \<Rightarrow> ec_supers k | None \<Rightarrow> [])
                  64 {} (rev (ec_supers cls)))"

definition combined_types :: "symbol_source \<Rightarrow> symbol_source \<Rightarrow> string \<Rightarrow> nat \<Rightarrow> type_candidate list \<times> bool" where
  "combined_types p c prefix limit =
     (case ss_types_with_prefix p prefix limit of (project, project_truncated) \<Rightarrow>
      case ss_types_with_prefix c prefix (limit - length project) of (classpath, classpath_truncated) \<Rightarrow>
        (project @ filter (\<lambda>t. tc_fqn t \<notin> tc_fqn ` set project) classpath, project_truncated \<or> classpath_truncated))"

definition combined_children :: "symbol_source \<Rightarrow> symbol_source \<Rightarrow> string \<Rightarrow> string list \<times> type_candidate list" where
  "combined_children p c package =
     (case ss_package_children p package of (subpackages, types) \<Rightarrow>
      case ss_package_children c package of (more_subs, more_types) \<Rightarrow>
        (foldl (\<lambda>subs s. if s \<in> set subs then subs else subs @ [s]) subpackages more_subs,
         types @ filter (\<lambda>t. tc_fqn t \<notin> tc_fqn ` set types) more_types))"

definition CombinedSymbols :: "symbol_source \<Rightarrow> symbol_source \<Rightarrow> symbol_source" where
  "CombinedSymbols p c =
     \<lparr>ss_class = combined_class p c, ss_types_with_prefix = combined_types p c,
      ss_package_children = combined_children p c, ss_doc = combined_doc p c,
      ss_super_type_args = (\<lambda>fqn. if ss_class p fqn \<noteq> None then ss_super_type_args p fqn else ss_super_type_args c fqn)\<rparr>"

section \<open>Class facts\<close>

text \<open>
  What the engines know about the open documents: the table of their declarations, and the lowering
  of a declaration to an external class. Both work on parse trees and are parameters; \<open>'d\<close> is a
  declaration. \<open>decl_class\<close> is \<open>None\<close> when the context of the declaring document is missing.
\<close>

record 'd sem_ctx =
  is_duplicate :: "string \<Rightarrow> bool"
  get_named :: "string \<Rightarrow> 'd option"
  by_node :: "nat \<Rightarrow> nat \<Rightarrow> 'd option"
  decl_class :: "'d \<Rightarrow> external_class option"
  ctx_symbols :: symbol_source

record class_facts =
  facts_meta :: class_metadata
  facts_members :: "external_member list"

definition facts_of :: "external_class \<Rightarrow> class_facts option" where
  "facts_of ext = map_option (\<lambda>m. \<lparr>facts_meta = m, facts_members = ec_members ext\<rparr>) (ec_metadata ext)"

definition source_decl :: "'d sem_ctx \<Rightarrow> type_id \<Rightarrow> 'd option" where
  "source_decl ctx i = (case i of NamedId b \<Rightarrow> get_named ctx b | LocalId document declaration \<Rightarrow> by_node ctx document declaration)"

definition OBJECT :: string where
  "OBJECT = ''java.lang.Object''"

text \<open>The intrinsic root of the hierarchy when no JDK is on the classpath.\<close>

definition object_facts :: class_facts where
  "object_facts =
     \<lparr>facts_meta = \<lparr>cm_id = NamedId OBJECT, cm_kind = Class, cm_access = Public, cm_is_abstract = False, cm_is_static = True,
        enclosing_class = None, cm_type_parameters = [], supertypes = [], hierarchy_complete = True,
        constructors_complete = False\<rparr>,
      facts_members = []\<rparr>"

definition external_facts :: "'d sem_ctx \<Rightarrow> string \<Rightarrow> class_facts option" where
  "external_facts ctx b =
     (if b = OBJECT \<and> ss_class (ctx_symbols ctx) b = None then Some object_facts
      else Option.bind (ss_class (ctx_symbols ctx) b) facts_of)"

definition compute_class_facts :: "'d sem_ctx \<Rightarrow> type_id \<Rightarrow> class_facts option" where
  "compute_class_facts ctx i =
     (if (case i of NamedId b \<Rightarrow> is_duplicate ctx b | LocalId _ _ \<Rightarrow> False) then None
      else case source_decl ctx i of
          Some d \<Rightarrow> Option.bind (decl_class ctx d) facts_of
        | None \<Rightarrow> Option.bind (as_named i) (external_facts ctx))"

text \<open>The memo of a request, through which the engines ask.\<close>

definition class_facts_memo :: "'d sem_ctx \<Rightarrow> type_id \<Rightarrow> (type_id \<rightharpoonup> class_facts option)
    \<Rightarrow> class_facts option \<times> (type_id \<rightharpoonup> class_facts option)" where
  "class_facts_memo ctx i cache =
     (case cache i of
        Some hit \<Rightarrow> (hit, cache)
      | None \<Rightarrow> (let computed = compute_class_facts ctx i in (computed, cache(i \<mapsto> computed))))"


section \<open>The memo is transparent\<close>

interpretation facts: memo "\<lambda>_. compute_class_facts ctx" "\<lambda>cache. cache" "\<lambda>k v cache. cache(k \<mapsto> v)" for ctx
  by unfold_locales auto

fun ask_facts :: "'d sem_ctx \<Rightarrow> (type_id \<rightharpoonup> class_facts option) \<Rightarrow> type_id list \<Rightarrow> class_facts option list" where
  "ask_facts ctx cache [] = []"
| "ask_facts ctx cache (i # is) = (case class_facts_memo ctx i cache of (r, cache') \<Rightarrow> r # ask_facts ctx cache' is)"

lemma ask_facts_cache:
  "(\<And>k v. cache k = Some v \<Longrightarrow> v = compute_class_facts ctx k) \<Longrightarrow> ask_facts ctx cache is = map (compute_class_facts ctx) is"
proof (induction "is" arbitrary: cache)
  case (Cons i "is")
  obtain r cache' where get: "class_facts_memo ctx i cache = (r, cache')" by fastforce
  then have "(case cache i of Some v \<Rightarrow> (v, cache) | None \<Rightarrow> (compute_class_facts ctx i, cache(i \<mapsto> compute_class_facts ctx i)))
      = (r, cache')"
    unfolding class_facts_memo_def Let_def .
  from facts.memo_get [where ctx = ctx, OF Cons.prems this]
  have "r = compute_class_facts ctx i \<and> (\<forall>k v. cache' k = Some v \<longrightarrow> v = compute_class_facts ctx k)"
    by blast
  then show ?case using Cons.IH [of cache'] get by simp
qed simp

theorem facts_memo_transparent: "ask_facts ctx Map.empty is = map (compute_class_facts ctx) is"
  by (rule ask_facts_cache) simp

section \<open>Inherited Javadoc\<close>

inductive_set inherits :: "(string \<Rightarrow> string list) \<Rightarrow> string \<Rightarrow> string set" for supers c where
  self: "c \<in> inherits supers c"
| step: "d \<in> inherits supers c \<Longrightarrow> e \<in> set (supers d) \<Longrightarrow> e \<in> inherits supers c"

lemma inherits_trans: "e \<in> inherits supers d \<Longrightarrow> d \<in> inherits supers c \<Longrightarrow> e \<in> inherits supers c"
  by (induction rule: inherits.induct) (auto intro: inherits.step)

lemma inherits_closed: "d \<in> inherits supers c \<Longrightarrow> c \<in> W \<Longrightarrow> (\<And>x. x \<in> W \<Longrightarrow> set (supers x) \<subseteq> W) \<Longrightarrow> d \<in> W"
  by (induction rule: inherits.induct) auto

lemma doc_walk_sound:
  "doc_walk doc supers budget visited stack = Some d \<Longrightarrow> \<exists>s \<in> set stack. \<exists>c \<in> inherits supers s. doc c = Some d"
proof (induction doc supers budget visited stack rule: doc_walk.induct)
  case (2 doc supers budget visited current stack)
  show ?case
  proof (cases "budget = 0 \<or> current \<in> visited")
    case False
    show ?thesis
    proof (cases "doc current")
      case None
      have later: "doc_walk doc supers (budget - 1) (insert current visited) (rev (supers current) @ stack) = Some d"
        using 2(3) False None by (simp only: doc_walk.simps if_False option.case)
      obtain s c where "s \<in> set (rev (supers current) @ stack)" "c \<in> inherits supers s" "doc c = Some d"
        using 2(2) [OF False None later] by blast
      moreover have "s \<in> set (supers current) \<Longrightarrow> c \<in> inherits supers current"
        using \<open>c \<in> inherits supers s\<close> by (meson inherits_trans inherits.intros)
      ultimately show ?thesis by auto
    qed (use 2(3) False in \<open>auto simp: doc_walk.simps intro: inherits.self\<close>)
  qed (use 2 in \<open>auto simp: doc_walk.simps\<close>)
qed (simp add: doc_walk.simps)

text \<open>A walk that ends empty-handed within its budget has visited a closed set of undocumented classes.\<close>

lemma doc_walk_None:
  assumes "doc_walk doc supers budget visited stack = None" "finite X" "card (X - visited) \<le> budget"
    "set stack \<subseteq> X" "\<And>x. x \<in> X \<Longrightarrow> set (supers x) \<subseteq> X"
  shows "\<exists>W. visited \<union> set stack \<subseteq> W \<and> (\<forall>c \<in> W - visited. doc c = None \<and> set (supers c) \<subseteq> W)"
  using assms
proof (induction doc supers budget visited stack rule: doc_walk.induct)
  case (1 doc supers budget visited)
  show ?case by (rule exI [of _ visited]) simp
next
  case (2 doc supers budget visited current stack)
  have full: "X \<subseteq> visited" if "budget = 0"
    using 2(4,5) that by auto
  show ?case
  proof (cases "budget = 0 \<or> current \<in> visited")
    case True
    then have seen: "current \<in> visited" using full 2(6) by auto
    have "doc_walk doc supers budget visited stack = None" using 2(3) True by (simp add: doc_walk.simps)
    from 2(1) [OF True this 2(4,5) _ 2(7)] 2(6) obtain W
      where "visited \<union> set stack \<subseteq> W" "\<forall>c \<in> W - visited. doc c = None \<and> set (supers c) \<subseteq> W" by auto
    then show ?thesis using seen by (intro exI [of _ W]) auto
  next
    case False
    then have undoc: "doc current = None" using 2(3) by (auto simp: doc_walk.simps split: option.splits)
    have later: "doc_walk doc supers (budget - 1) (insert current visited) (rev (supers current) @ stack) = None"
      using 2(3) False undoc by (simp add: doc_walk.simps)
    have "card (X - insert current visited) < card (X - visited)"
      using False 2(4,6) by (intro psubset_card_mono) auto
    then have "card (X - insert current visited) \<le> budget - 1" using 2(5) by simp
    moreover have "set (rev (supers current) @ stack) \<subseteq> X" using 2(6) 2(7) [of current] by auto
    ultimately obtain W where "insert current visited \<union> set (rev (supers current) @ stack) \<subseteq> W"
        "\<forall>c \<in> W - insert current visited. doc c = None \<and> set (supers c) \<subseteq> W"
      using 2(2) [OF False undoc later 2(4) _ _ 2(7)] by blast
    then show ?thesis using undoc by (intro exI [of _ W]) auto
  qed
qed

text \<open>
  The Javadoc of an inherited member is found if and only if one of the classes it may be inherited from
  has it, as long as there are at most 64 of them; what is found is always such a class's text.
\<close>

theorem inherited_doc_found:
  assumes "finite (inherits supers fqn)" "card (inherits supers fqn) \<le> 64"
  shows "(doc_walk doc supers 64 {} [fqn] \<noteq> None) = (\<exists>c \<in> inherits supers fqn. doc c \<noteq> None)"
    "doc_walk doc supers 64 {} [fqn] = Some d \<Longrightarrow> \<exists>c \<in> inherits supers fqn. doc c = Some d"
proof -
  show sound: "doc_walk doc supers 64 {} [fqn] = Some d \<Longrightarrow> \<exists>c \<in> inherits supers fqn. doc c = Some d" for d
    using doc_walk_sound [of doc supers 64 "{}" "[fqn]" d] by simp
  have "doc c = None" if none: "doc_walk doc supers 64 {} [fqn] = None" and c: "c \<in> inherits supers fqn" for c
  proof -
    obtain W where "fqn \<in> W" "\<forall>c \<in> W. doc c = None \<and> set (supers c) \<subseteq> W"
      using doc_walk_None [OF none assms(1)] assms(2) by (auto intro: inherits.intros)
    then show ?thesis using inherits_closed [OF c, of W] by blast
  qed
  then show "(doc_walk doc supers 64 {} [fqn] \<noteq> None) = (\<exists>c \<in> inherits supers fqn. doc c \<noteq> None)"
    using sound by fastforce
qed

section \<open>Layers\<close>

text \<open>
  The project layer shadows the classpath: a project class is answered by the project, its supertypes'
  arguments included; every other class by the classpath; and no type is proposed twice when neither
  layer proposes one twice.
\<close>

lemma combined_layers:
  "ss_class (CombinedSymbols p c) fqn = (if ss_class p fqn \<noteq> None then ss_class p fqn else ss_class c fqn)"
  "ss_super_type_args (CombinedSymbols p c) fqn =
     (if ss_class p fqn \<noteq> None then ss_super_type_args p fqn else ss_super_type_args c fqn)"
  by (auto simp: CombinedSymbols_def combined_class_def first_layer_def split: option.splits)

lemma distinct_layers:
  "distinct (map tc_fqn xs) \<Longrightarrow> distinct (map tc_fqn ys)
     \<Longrightarrow> distinct (map tc_fqn (xs @ filter (\<lambda>t. tc_fqn t \<notin> tc_fqn ` set xs) ys))"
  by (auto simp: distinct_map_filter) (metis imageI)

lemma combined_types_distinct:
  assumes "\<And>n. distinct (map tc_fqn (fst (ss_types_with_prefix p prefix n)))"
    "\<And>n. distinct (map tc_fqn (fst (ss_types_with_prefix c prefix n)))"
  shows "distinct (map tc_fqn (fst (ss_types_with_prefix (CombinedSymbols p c) prefix limit)))"
  using assms(1) [of limit] assms(2) [of "limit - length (fst (ss_types_with_prefix p prefix limit))"]
    distinct_layers
  by (auto simp: CombinedSymbols_def combined_types_def simp del: map_append distinct_append split: prod.splits)

lemma combined_types_limit:
  assumes "\<And>n. length (fst (ss_types_with_prefix p prefix n)) \<le> n" "\<And>n. length (fst (ss_types_with_prefix c prefix n)) \<le> n"
  shows "length (fst (ss_types_with_prefix (CombinedSymbols p c) prefix limit)) \<le> limit"
proof -
  obtain xs t where p: "ss_types_with_prefix p prefix limit = (xs, t)" by fastforce
  obtain ys u where c: "ss_types_with_prefix c prefix (limit - length xs) = (ys, u)" by fastforce
  have "length xs \<le> limit" "length ys \<le> limit - length xs"
    using assms(1) [of limit] assms(2) [of "limit - length xs"] p c by simp_all
  then show ?thesis
    using length_filter_le [of "\<lambda>t. tc_fqn t \<notin> tc_fqn ` set xs" ys]
    by (simp add: CombinedSymbols_def combined_types_def p c del: length_filter_le)
qed

text \<open>
  The flag of a combined answer can be lost: when the project layer fills the limit, the classpath is asked
  for no entries and reports nothing cut, whatever it holds.
\<close>

lemma combined_flag_lost:
  assumes "ss_types_with_prefix p prefix limit = (xs, False)" "length xs = limit"
  shows "snd (ss_types_with_prefix (CombinedSymbols p (ClasspathSymbols javadoc env cp)) prefix limit) = False"
  using assms
  by (auto simp: CombinedSymbols_def combined_types_def ClasspathSymbols_def cp_types_with_prefix_def
      types_with_prefix_def Let_def split: prod.splits)

end
