(* ===== verification/Subtyping.thy ===== *)
theory Subtyping
  imports External_Symbols
begin

text \<open>
  The subtype engine of \<open>crates/syntax/src/resolve.rs\<close> (\<open>assignable_refs\<close> and what it calls), over the class
  facts of theory \<open>External_Symbols\<close>. A verdict is \<open>Some True\<close>, \<open>Some False\<close>, or \<open>None\<close> when the engine
  cannot prove either answer.

  The recursion of \<open>assignable_refs\<close> through the bounds of variables and wildcards has no bound of its
  own, so its model takes fuel: the outer \<open>None\<close> means the recursion did not end within it. The walk over
  the hierarchy counts its depth and recurses on that.
\<close>

type_synonym verdict = "bool option"

section \<open>The engine\<close>

definition MAX_SUBTYPE_DEPTH :: nat where
  "MAX_SUBTYPE_DEPTH = 64"

text \<open>
  The loop that \<open>any_proved\<close> and \<open>is_subtype\<close> share: the first proof ends it, and an answer that is not known
  makes the result unknown. \<open>unknown\<close> is the flag at the start.
\<close>

fun any_loop :: "('a \<Rightarrow> verdict option) \<Rightarrow> bool \<Rightarrow> 'a list \<Rightarrow> verdict option" where
  "any_loop f unknown [] = Some (if unknown then None else Some False)"
| "any_loop f unknown (x # xs) =
     (case f x of
        None \<Rightarrow> None
      | Some (Some True) \<Rightarrow> Some (Some True)
      | Some (Some False) \<Rightarrow> any_loop f unknown xs
      | Some None \<Rightarrow> any_loop f True xs)"

definition any_proved :: "('a \<Rightarrow> verdict option) \<Rightarrow> 'a list \<Rightarrow> verdict option" where
  "any_proved f xs = any_loop f False xs"

text \<open>The loop of \<open>type_args_contain\<close>: the first refutation ends it.\<close>

fun all_loop :: "('a \<Rightarrow> verdict option) \<Rightarrow> bool \<Rightarrow> 'a list \<Rightarrow> verdict option" where
  "all_loop f unknown [] = Some (if unknown then None else Some True)"
| "all_loop f unknown (x # xs) =
     (case f x of
        None \<Rightarrow> None
      | Some (Some False) \<Rightarrow> Some (Some False)
      | Some (Some True) \<Rightarrow> all_loop f unknown xs
      | Some None \<Rightarrow> all_loop f True xs)"

fun erase :: "type_ref \<Rightarrow> type_ref" where
  "erase (Named i args) = Named i []"
| "erase (Array e) = Array (erase e)"
| "erase t = t"

definition variable_bounds :: "'d sem_ctx \<Rightarrow> type_variable_id \<Rightarrow> type_ref list option" where
  "variable_bounds ctx v =
     (case compute_class_facts ctx (NamedId (owner v)) of
        None \<Rightarrow> None
      | Some facts \<Rightarrow>
          let ps = cm_type_parameters (facts_meta facts) in
          if tv_index v < length ps then Some (bounds (ps ! tv_index v)) else None)"

definition constant_narrowing :: "primitive_type \<Rightarrow> primitive_type \<Rightarrow> verdict" where
  "constant_narrowing a e =
     (if a \<in> {PByte, PShort, PChar, PInt} \<and> e \<in> {PByte, PShort, PChar} then None else Some False)"

text \<open>Containment of one type argument; \<open>rel\<close> is \<open>assignable_refs\<close>.\<close>

definition arg_contained :: "(type_ref \<Rightarrow> type_ref \<Rightarrow> verdict option) \<Rightarrow> type_ref \<Rightarrow> type_ref \<Rightarrow> verdict option" where
  "arg_contained rel actual expected =
     (case (actual, expected) of
        (_, Wildcard None None) \<Rightarrow> Some (Some True)
      | (Unknown, _) \<Rightarrow> Some None
      | (_, Unknown) \<Rightarrow> Some None
      | (Variable _, _) \<Rightarrow> Some None
      | (_, Variable _) \<Rightarrow> Some None
      | (Wildcard actual_upper None, Wildcard (Some expected_upper) None) \<Rightarrow>
          (case actual_upper of
             Some u \<Rightarrow> rel u expected_upper
           | None \<Rightarrow> rel (named OBJECT) expected_upper)
      | (Wildcard _ (Some actual_lower), Wildcard _ (Some expected_lower)) \<Rightarrow> rel expected_lower actual_lower
      | (Wildcard _ _, Wildcard (Some _) None) \<Rightarrow> Some None
      | (Wildcard _ _, Wildcard None (Some _)) \<Rightarrow> Some None
      | (_, Wildcard (Some expected_upper) None) \<Rightarrow> rel actual expected_upper
      | (_, Wildcard None (Some expected_lower)) \<Rightarrow> rel expected_lower actual
      | (Wildcard _ _, _) \<Rightarrow> Some (Some False)
      | (_, _) \<Rightarrow> Some (Some (actual = expected)))"

definition type_args_contain :: "(type_ref \<Rightarrow> type_ref \<Rightarrow> verdict option) \<Rightarrow> type_ref list \<Rightarrow> type_ref list \<Rightarrow> verdict option" where
  "type_args_contain rel actual expected =
     (if expected = [] then Some (Some True)
      else if actual = [] \<or> length actual \<noteq> length expected then Some None
      else all_loop (\<lambda>(a, e). arg_contained rel a e) False (zip actual expected))"

text \<open>The supertypes of a class at the type arguments of a use: erased when the use is raw.\<close>

definition env_of :: "type_parameter list \<Rightarrow> type_ref list \<Rightarrow> type_env" where
  "env_of ps args = zip (map tp_id ps) args"

definition instantiate :: "class_metadata \<Rightarrow> type_ref list \<Rightarrow> type_ref \<Rightarrow> type_ref" where
  "instantiate m args super =
     (if args = [] \<and> cm_type_parameters m \<noteq> [] then erase super
      else Java_Types.substitute (env_of (cm_type_parameters m) args) super)"

lemma any_loop_cong [fundef_cong]:
  "xs = ys \<Longrightarrow> u = v \<Longrightarrow> (\<And>x. x \<in> set ys \<Longrightarrow> f x = g x) \<Longrightarrow> any_loop f u xs = any_loop g v ys"
  by (induction xs arbitrary: ys u v) (auto split: option.splits bool.splits)

text \<open>\<open>seen\<close> holds the types on the path from the start.\<close>

function is_subtype :: "'d sem_ctx \<Rightarrow> (type_ref \<Rightarrow> type_ref \<Rightarrow> verdict option) \<Rightarrow> type_ref \<Rightarrow> type_id \<Rightarrow> type_ref list
    \<Rightarrow> nat \<Rightarrow> type_ref set \<Rightarrow> verdict option" where
  "is_subtype ctx rel actual target target_args depth seen =
     (case actual of
        Named i args \<Rightarrow>
          if depth > MAX_SUBTYPE_DEPTH \<or> actual \<in> seen then Some None
          else if i = target then type_args_contain rel args target_args
          else if as_named target = Some OBJECT then Some (Some True)
          else if depth = 0 \<and> compute_class_facts ctx target = None then Some None
          else (case compute_class_facts ctx i of
                  None \<Rightarrow> Some None
                | Some facts \<Rightarrow>
                    any_loop
                      (\<lambda>super. is_subtype ctx rel (instantiate (facts_meta facts) args super) target target_args
                               (depth + 1) (insert actual seen))
                      (\<not> hierarchy_complete (facts_meta facts)) (supertypes (facts_meta facts)))
      | _ \<Rightarrow> Some None)"
  by pat_completeness auto
termination
  by (relation "measure (\<lambda>(_, _, _, _, _, depth, _). Suc MAX_SUBTYPE_DEPTH - depth)") auto

declare is_subtype.simps [simp del]

definition bounds_or_object :: "type_ref list \<Rightarrow> type_ref list" where
  "bounds_or_object bs = (if bs = [] then [named OBJECT] else bs)"

definition upper_or_object :: "type_ref option \<Rightarrow> type_ref" where
  "upper_or_object u = (case u of Some t \<Rightarrow> t | None \<Rightarrow> named OBJECT)"

text \<open>One step of \<open>assignable_refs\<close>, its match arms in their order; \<open>rel\<close> is the recursive call.\<close>

definition assignable_step :: "'d sem_ctx \<Rightarrow> (type_ref \<Rightarrow> type_ref \<Rightarrow> verdict option) \<Rightarrow> type_ref \<Rightarrow> type_ref \<Rightarrow> verdict option" where
  "assignable_step ctx rel actual expected =
     (if actual = Unknown \<or> expected = Unknown then Some None
      else if actual = Null \<and> is_reference expected then Some (Some True)
      else if actual = Null \<or> expected = Null then Some (Some False)
      else if actual = Void \<and> expected = Void then Some (Some True)
      else if actual = Void \<or> expected = Void then Some (Some False)
      else case (actual, expected) of
        (Variable v, e) \<Rightarrow>
          (case variable_bounds ctx v of
             None \<Rightarrow> Some None
           | Some bs \<Rightarrow> any_proved (\<lambda>b. rel b e) (bounds_or_object bs))
      | (_, Variable _) \<Rightarrow> Some None
      | (Wildcard u _, e) \<Rightarrow> rel (upper_or_object u) e
      | (_, Wildcard _ _) \<Rightarrow> Some None
      | (Primitive a, Primitive e) \<Rightarrow>
          Some (if a = e \<or> widens_to a e then Some True else constant_narrowing a e)
      | (Primitive _, Named (LocalId _ _) _) \<Rightarrow> Some (Some False)
      | (Primitive a, Named (NamedId eb) _) \<Rightarrow>
          if get_named ctx eb \<noteq> None then Some (Some False)
          else (case from_box_fqn eb of
                  Some ep \<Rightarrow> Some (if a = ep then Some True else constant_narrowing a ep)
                | None \<Rightarrow> rel (named (box_fqn a)) expected)
      | (Primitive _, _) \<Rightarrow> Some (Some False)
      | (Named (NamedId b) _, Primitive e) \<Rightarrow>
          Some (case from_box_fqn b of Some p \<Rightarrow> Some (p = e \<or> widens_to p e) | None \<Rightarrow> Some False)
      | (_, Primitive _) \<Rightarrow> Some (Some False)
      | (Array a, Array e) \<Rightarrow>
          (case (a, e) of
             (Primitive x, Primitive y) \<Rightarrow> Some (Some (x = y))
           | (Primitive _, _) \<Rightarrow> Some (Some False)
           | (_, Primitive _) \<Rightarrow> Some (Some False)
           | (x, y) \<Rightarrow> rel x y)
      | (Array _, Named (NamedId b) _) \<Rightarrow>
          Some (Some (b \<in> {OBJECT, ''java.lang.Cloneable'', ''java.io.Serializable''}))
      | (Array _, _) \<Rightarrow> Some (Some False)
      | (_, Array _) \<Rightarrow> Some (Some False)
      | (Named _ _, Named eid eargs) \<Rightarrow> is_subtype ctx rel actual eid eargs 0 {})"

fun assignable_refs :: "'d sem_ctx \<Rightarrow> nat \<Rightarrow> type_ref \<Rightarrow> type_ref \<Rightarrow> verdict option" where
  "assignable_refs ctx 0 actual expected = None"
| "assignable_refs ctx (Suc n) actual expected = assignable_step ctx (assignable_refs ctx n) actual expected"

section \<open>Loops\<close>

lemma any_loop_True: "any_loop f u xs = Some (Some True) \<Longrightarrow> \<exists>x \<in> set xs. f x = Some (Some True)"
  by (induction xs arbitrary: u) (auto split: option.splits bool.splits if_splits)

lemma any_loop_False: "any_loop f u xs = Some (Some False) \<Longrightarrow> \<not> u \<and> (\<forall>x \<in> set xs. f x = Some (Some False))"
  by (induction xs arbitrary: u) (auto split: option.splits bool.splits if_splits)

lemma all_loop_True: "all_loop f u xs = Some (Some True) \<Longrightarrow> \<not> u \<and> (\<forall>x \<in> set xs. f x = Some (Some True))"
  by (induction xs arbitrary: u) (auto split: option.splits bool.splits if_splits)

lemma all_loop_False: "all_loop f u xs = Some (Some False) \<Longrightarrow> \<exists>x \<in> set xs. f x = Some (Some False)"
  by (induction xs arbitrary: u) (auto split: option.splits bool.splits if_splits)

section \<open>Assignment conversion in the language\<close>

text \<open>
  The reference: which types can be assigned to which (JLS 4.5.1, 4.10, 5.1 and 5.2, without constants and
  unchecked conversions), over a world \<open>w\<close> that knows every class and all its supertypes. No search, no
  order, no depth: a supertype path is a derivation.
\<close>

type_synonym world = "type_id \<rightharpoonup> class_metadata"

inductive assigns :: "world \<Rightarrow> type_ref \<Rightarrow> type_ref \<Rightarrow> bool"
  and contained :: "world \<Rightarrow> type_ref \<Rightarrow> type_ref \<Rightarrow> bool"
  for w where
  null: "is_reference e \<Longrightarrow> assigns w Null e"
| variable_self: "assigns w (Variable v) (Variable v)"
| variable: "w (NamedId (owner v)) = Some m \<Longrightarrow> tv_index v < length (cm_type_parameters m)
     \<Longrightarrow> b \<in> set (bounds_or_object (bounds (cm_type_parameters m ! tv_index v))) \<Longrightarrow> assigns w b e \<Longrightarrow> assigns w (Variable v) e"
| wildcard: "assigns w (upper_or_object u) e \<Longrightarrow> assigns w (Wildcard u l) e"
| primitive: "a \<le> e \<Longrightarrow> assigns w (Primitive a) (Primitive e)"
| box_self: "assigns w (Primitive a) (Named (NamedId (box_fqn a)) args)"
| box: "assigns w (named (box_fqn a)) (Named t targs) \<Longrightarrow> assigns w (Primitive a) (Named t targs)"
| unbox: "a \<le> e \<Longrightarrow> assigns w (Named (NamedId (box_fqn a)) args) (Primitive e)"
| array_primitive: "assigns w (Array (Primitive p)) (Array (Primitive p))"
| array: "\<not> (\<exists>p. x = Primitive p) \<Longrightarrow> \<not> (\<exists>p. y = Primitive p) \<Longrightarrow> assigns w x y \<Longrightarrow> assigns w (Array x) (Array y)"
| array_object: "b \<in> {OBJECT, ''java.lang.Cloneable'', ''java.io.Serializable''} \<Longrightarrow> assigns w (Array x) (Named (NamedId b) targs)"
| same_class: "targs = [] \<or> list_all2 (contained w) args targs \<Longrightarrow> assigns w (Named i args) (Named i targs)"
| object: "i \<noteq> NamedId OBJECT \<Longrightarrow> assigns w (Named i args) (Named (NamedId OBJECT) targs)"
| supertype: "w i = Some m \<Longrightarrow> s \<in> set (supertypes m) \<Longrightarrow> assigns w (instantiate m args s) (Named t targs)
     \<Longrightarrow> assigns w (Named i args) (Named t targs)"
| unbounded: "contained w a (Wildcard None None)"
| same_argument: "\<not> (\<exists>u l. a = Wildcard u l) \<Longrightarrow> contained w a a"
| extends: "\<not> (\<exists>u l. a = Wildcard u l) \<Longrightarrow> assigns w a u \<Longrightarrow> contained w a (Wildcard (Some u) None)"
| super: "\<not> (\<exists>u l. a = Wildcard u l) \<Longrightarrow> assigns w l a \<Longrightarrow> contained w a (Wildcard None (Some l))"
| extends_wildcard: "assigns w (upper_or_object u) u' \<Longrightarrow> contained w (Wildcard u None) (Wildcard (Some u') None)"
| super_wildcard: "assigns w l' l \<Longrightarrow> contained w (Wildcard u (Some l)) (Wildcard u' (Some l'))"

inductive_cases assigns_nullE: "assigns w Null e"
inductive_cases assigns_variableE: "assigns w (Variable v) e"
inductive_cases assigns_wildcardE: "assigns w (Wildcard u l) e"
inductive_cases assigns_primitiveE: "assigns w (Primitive a) e"
inductive_cases assigns_arrayE: "assigns w (Array x) e"
inductive_cases assigns_namedE: "assigns w (Named i args) e"
inductive_cases containedE: "contained w a e"

section \<open>What is known of the world\<close>

text \<open>A type without the placeholders \<open>Unknown\<close>, \<open>Void\<close> and \<open>Null\<close>.\<close>

fun clean :: "type_ref \<Rightarrow> bool" where
  "clean (Primitive p) = True"
| "clean (Named i args) = list_all clean args"
| "clean (Array e) = clean e"
| "clean (Variable v) = True"
| "clean (Wildcard u l) = ((case u of Some t \<Rightarrow> clean t | None \<Rightarrow> True) \<and> (case l of Some t \<Rightarrow> clean t | None \<Rightarrow> True))"
| "clean t = False"

text \<open>\<open>refines t t'\<close>: the type \<open>t'\<close> is \<open>t\<close> with its unknown parts filled in.\<close>

inductive refines :: "type_ref \<Rightarrow> type_ref \<Rightarrow> bool" where
  "refines Unknown t"
| "refines (Primitive p) (Primitive p)"
| "refines Void Void"
| "refines Null Null"
| "refines (Variable v) (Variable v)"
| "list_all2 refines as bs \<Longrightarrow> refines (Named i as) (Named i bs)"
| "refines a b \<Longrightarrow> refines (Array a) (Array b)"
| "rel_option refines u u' \<Longrightarrow> rel_option refines l l' \<Longrightarrow> refines (Wildcard u l) (Wildcard u' l')"

inductive_simps refines_simps [simp]:
  "refines (Primitive p) t" "refines Void t" "refines Null t" "refines (Variable v) t" "refines (Named i as) t"
  "refines (Array a) t" "refines (Wildcard u l) t" "refines Unknown t"

definition super_ids :: "world \<Rightarrow> (type_id \<times> type_id) set" where
  "super_ids w = {(i, j). \<exists>m args. w i = Some m \<and> Named j args \<in> set (supertypes m)}"

text \<open>
  A world is a class table of the language: supertypes are class types, nothing is its own supertype,
  \<open>Object\<close> has none, the boxes are unrelated to each other, and no placeholder occurs.
\<close>

definition world_ok :: "world \<Rightarrow> bool" where
  "world_ok w \<longleftrightarrow>
     (\<forall>i m. w i = Some m \<longrightarrow> (\<forall>s \<in> set (supertypes m). clean s \<and> (\<exists>j args. s = Named j args))
        \<and> (\<forall>p \<in> set (cm_type_parameters m). \<forall>b \<in> set (bounds p). clean b))
     \<and> acyclic (super_ids w)
     \<and> (\<forall>m. w (NamedId OBJECT) = Some m \<longrightarrow> supertypes m = [])
     \<and> (\<forall>p q. (NamedId (box_fqn p), NamedId (box_fqn q)) \<in> (super_ids w)\<^sup>* \<longrightarrow> p = q)"

text \<open>
  The facts are a view of the world: a class that is known has the world's parameters, up to bounds that are
  unknown as a whole; its known supertypes are among the world's, up to unknown parts; and a hierarchy that is
  said to be complete is the world's. The project declares no box and no supertype of a box.
\<close>

definition known_bound :: "type_ref \<Rightarrow> type_ref \<Rightarrow> bool" where
  "known_bound b b' \<longleftrightarrow> b = Unknown \<or> b = b'"

definition known_parameter :: "type_parameter \<Rightarrow> type_parameter \<Rightarrow> bool" where
  "known_parameter p p' \<longleftrightarrow> tp_id p = tp_id p' \<and> list_all2 known_bound (bounds p) (bounds p')"

definition view_of :: "'d sem_ctx \<Rightarrow> world \<Rightarrow> bool" where
  "view_of ctx w \<longleftrightarrow>
     (\<forall>i f. compute_class_facts ctx i = Some f \<longrightarrow>
        (\<exists>m. w i = Some m
           \<and> list_all2 known_parameter (cm_type_parameters (facts_meta f)) (cm_type_parameters m)
           \<and> (\<forall>s \<in> set (supertypes (facts_meta f)). s = Unknown \<or> (\<exists>s' \<in> set (supertypes m). refines s s'))
           \<and> (hierarchy_complete (facts_meta f) \<longrightarrow> supertypes (facts_meta f) = supertypes m)))
     \<and> (\<forall>p i. (NamedId (box_fqn p), i) \<in> (super_ids w)\<^sup>* \<longrightarrow> (\<exists>b. i = NamedId b \<and> get_named ctx b = None))
     \<and> get_named ctx OBJECT = None"

section \<open>Refinement of types\<close>

lemma rel_option_cases: "rel_option R u u' \<longleftrightarrow> (u = None \<and> u' = None) \<or> (\<exists>x y. u = Some x \<and> u' = Some y \<and> R x y)"
  by (cases u; cases u') auto

lemma refines_clean: "clean t \<Longrightarrow> refines t t' \<Longrightarrow> t' = t"
proof (induction t arbitrary: t' rule: clean.induct)
  case (2 i args)
  then obtain bs where t': "t' = Named i bs" and bs: "list_all2 refines args bs" by auto
  have "bs ! k = args ! k" if "k < length bs" for k
    using 2(1) [of "args ! k"] 2(2) bs that by (auto simp: list_all2_conv_all_nth list_all_length)
  then show ?case using t' bs by (simp add: list_eq_iff_nth_eq list_all2_lengthD [OF bs])
next
  case (5 u l)
  then obtain u' l' where t': "t' = Wildcard u' l'" "rel_option refines u u'" "rel_option refines l l'" by auto
  have "u' = u" using 5(1,3) t'(2) by (cases u) (auto simp: rel_option_cases)
  moreover have "l' = l" using 5(2,3) t'(3) by (cases l) (auto simp: rel_option_cases)
  ultimately show ?case using t'(1) by simp
qed auto

lemma refines_refl [simp]: "refines t t"
  by (induction t) (auto intro!: list.rel_refl_strong option.rel_refl_strong)

lemma refines_erase: "refines s s' \<Longrightarrow> refines (erase s) (erase s')"
  by (induction s arbitrary: s' rule: erase.induct) auto

lemma map_of_zip_list_all2:
  "list_all2 R as bs \<Longrightarrow> rel_option R (map_of (zip vs as) v) (map_of (zip vs bs) v)"
proof (induction as bs arbitrary: vs rule: list_all2_induct)
  case (Cons a as b bs)
  then show ?case by (cases vs) auto
qed simp

lemma refines_substitute:
  assumes "\<And>v. rel_option refines (map_of env v) (map_of env' v)"
  shows "refines s s' \<Longrightarrow> refines (Java_Types.substitute env s) (Java_Types.substitute env' s')"
proof (induction s arbitrary: s' rule: type_vars.induct)
  case (1 v)
  then show ?case using assms [of v] by (auto simp: rel_option_cases)
next
  case (2 i args)
  then obtain bs where s': "s' = Named i bs" and bs: "list_all2 refines args bs" by auto
  have "list_all2 refines (map (Java_Types.substitute env) args) (map (Java_Types.substitute env') bs)"
    using 2(1) bs by (auto simp: list_all2_conv_all_nth)
  then show ?case using s' by simp
next
  case (4 u l)
  then obtain u' l' where t': "s' = Wildcard u' l'" "rel_option refines u u'" "rel_option refines l l'" by auto
  have "rel_option refines (map_option (Java_Types.substitute env) u) (map_option (Java_Types.substitute env') u')"
    "rel_option refines (map_option (Java_Types.substitute env) l) (map_option (Java_Types.substitute env') l')"
    using 4(1,2) t'(2,3) by (auto simp: rel_option_cases)
  then show ?case using t'(1) by (simp add: map_option_case)
qed auto

lemma refines_instantiate:
  assumes "list_all2 refines args args'" "refines s s'" "map tp_id (cm_type_parameters m) = map tp_id (cm_type_parameters m')"
  shows "refines (instantiate m args s) (instantiate m' args' s')"
proof -
  have "refines (Java_Types.substitute (env_of (cm_type_parameters m) args) s) (Java_Types.substitute (env_of (cm_type_parameters m') args') s')"
    using refines_substitute [OF map_of_zip_list_all2 [OF assms(1)] assms(2)] by (simp add: env_of_def assms(3))
  moreover have "(args = []) = (args' = [])" using list_all2_lengthD [OF assms(1)] by (cases args; cases args') auto
  moreover have "(cm_type_parameters m = []) = (cm_type_parameters m' = [])" using assms(3) by (metis map_is_Nil_conv)
  ultimately show ?thesis using refines_erase [OF assms(2)] by (simp add: instantiate_def)
qed

lemma clean_substitute: "clean s \<Longrightarrow> (\<And>v t. map_of env v = Some t \<Longrightarrow> clean t) \<Longrightarrow> clean (Java_Types.substitute env s)"
  by (induction s rule: type_vars.induct) (auto split: option.splits simp: list_all_iff)

lemma clean_instantiate:
  assumes "clean s" "list_all clean args"
  shows "clean (instantiate m args s)"
proof -
  have "clean (erase s)" using assms(1) by (induction s rule: erase.induct) auto
  moreover have "clean (Java_Types.substitute (env_of ps args) s)" for ps
    using assms(2) by (intro clean_substitute [OF assms(1)]) (auto simp: env_of_def list_all_iff dest!: map_of_SomeD dest: set_zip_rightD)
  ultimately show ?thesis by (simp add: instantiate_def)
qed

lemma instantiate_named: "\<exists>args'. instantiate m args (Named j js) = Named j args'"
  by (simp add: instantiate_def)

section \<open>A proof is right\<close>

text \<open>Expected types whose wildcards have no lower bounds.\<close>

fun lower_free :: "type_ref \<Rightarrow> bool" where
  "lower_free (Named i args) = list_all lower_free args"
| "lower_free (Array e) = lower_free e"
| "lower_free (Wildcard u l) = (l = None \<and> (case u of Some t \<Rightarrow> lower_free t | None \<Rightarrow> True))"
| "lower_free t = True"

definition proves :: "world \<Rightarrow> (type_ref \<Rightarrow> type_ref \<Rightarrow> verdict option) \<Rightarrow> bool" where
  "proves w rel \<longleftrightarrow>
     (\<forall>a e a'. rel a e = Some (Some True) \<longrightarrow> clean e \<longrightarrow> lower_free e \<longrightarrow> refines a a' \<longrightarrow> assigns w a' e)"

lemma provesD: "proves w rel \<Longrightarrow> rel a e = Some (Some True) \<Longrightarrow> clean e \<Longrightarrow> lower_free e \<Longrightarrow> refines a a' \<Longrightarrow> assigns w a' e"
  unfolding proves_def by blast

lemma arg_contained_same:
  assumes "arg_contained rel a e = Some (Some True)" "\<And>u l. e \<noteq> Wildcard u l"
  shows "a = e"
  using assms by (cases e; cases a) (auto simp: arg_contained_def split: option.splits)

lemma arg_contained_upper:
  "arg_contained rel a (Wildcard (Some u) None) =
     (case a of
        Unknown \<Rightarrow> Some None
      | Variable _ \<Rightarrow> Some None
      | Wildcard au None \<Rightarrow> rel (upper_or_object au) u
      | Wildcard _ (Some _) \<Rightarrow> Some None
      | _ \<Rightarrow> rel a u)"
  by (cases a) (auto simp: arg_contained_def upper_or_object_def split: option.splits)

lemma arg_contained_True:
  assumes rel: "proves w rel" and a: "refines a a'" and e: "clean e" "lower_free e"
    and yes: "arg_contained rel a e = Some (Some True)"
  shows "contained w a' e"
proof -
  have plain: "contained w a' e" if "\<And>u l. e \<noteq> Wildcard u l"
  proof -
    have "a = e" by (rule arg_contained_same [OF yes that])
    then have "a' = e" using refines_clean [OF e(1)] a by blast
    then show ?thesis using that same_argument by blast
  qed
  show ?thesis
  proof (cases e)
    case (Wildcard u l)
    then have l: "l = None" using e by simp
    show ?thesis
    proof (cases u)
      case None
      then show ?thesis using Wildcard l by (simp add: unbounded)
    next
      case (Some eu)
      then have eu: "clean eu" "lower_free eu" using e Wildcard by auto
      have yes: "arg_contained rel a (Wildcard (Some eu) None) = Some (Some True)" using yes Wildcard l Some by simp
      have "contained w a' (Wildcard (Some eu) None)"
      proof (cases a)
        case (Wildcard au al)
        then have al: "al = None" and "rel (upper_or_object au) eu = Some (Some True)"
          using yes by (auto simp: arg_contained_upper split: option.splits)
        moreover obtain au' where "a' = Wildcard au' None" "refines (upper_or_object au) (upper_or_object au')"
          using a Wildcard al by (auto simp: rel_option_cases upper_or_object_def)
        ultimately show ?thesis using provesD [OF rel _ eu] by (simp add: extends_wildcard)
      next
        case (Named i args)
        then have "assigns w a' eu" using yes provesD [OF rel _ eu a] by (simp add: arg_contained_upper)
        then show ?thesis using a Named by (intro extends) auto
      next
        case (Array x)
        then have "assigns w a' eu" using yes provesD [OF rel _ eu a] by (simp add: arg_contained_upper)
        then show ?thesis using a Array by (intro extends) auto
      qed (use yes provesD [OF rel _ eu a] a in \<open>simp_all add: arg_contained_upper extends\<close>)
      then show ?thesis using Wildcard l Some by simp
    qed
  qed (use plain in simp_all)
qed

lemma type_args_True:
  assumes "proves w rel" "list_all2 refines args args'" "list_all clean targs" "list_all lower_free targs"
    and "type_args_contain rel args targs = Some (Some True)"
  shows "targs = [] \<or> list_all2 (contained w) args' targs"
proof (cases "targs = []")
  case False
  then have len: "length args = length targs" and
    each: "\<forall>(a, e) \<in> set (zip args targs). arg_contained rel a e = Some (Some True)"
    using assms(5) by (auto simp: type_args_contain_def split: if_splits dest: all_loop_True)
  have "contained w (args' ! k) (targs ! k)" if k: "k < length targs" for k
  proof -
    have "(args ! k, targs ! k) \<in> set (zip args targs)" using k len by (auto simp: in_set_zip)
    then have "arg_contained rel (args ! k) (targs ! k) = Some (Some True)" using each by blast
    then show ?thesis
      using arg_contained_True [OF assms(1)] assms(2-4) k len by (auto simp: list_all2_conv_all_nth list_all_length)
  qed
  then show ?thesis using len list_all2_lengthD [OF assms(2)] by (simp add: list_all2_conv_all_nth)
qed simp

lemma view_class:
  assumes "view_of ctx w" "compute_class_facts ctx i = Some f"
  obtains m where "w i = Some m" "list_all2 known_parameter (cm_type_parameters (facts_meta f)) (cm_type_parameters m)"
    "\<And>s. s \<in> set (supertypes (facts_meta f)) \<Longrightarrow> s = Unknown \<or> (\<exists>s' \<in> set (supertypes m). refines s s')"
    "hierarchy_complete (facts_meta f) \<Longrightarrow> supertypes (facts_meta f) = supertypes m"
    "map tp_id (cm_type_parameters (facts_meta f)) = map tp_id (cm_type_parameters m)"
proof -
  obtain m where m: "w i = Some m" "list_all2 known_parameter (cm_type_parameters (facts_meta f)) (cm_type_parameters m)"
    "\<forall>s \<in> set (supertypes (facts_meta f)). s = Unknown \<or> (\<exists>s' \<in> set (supertypes m). refines s s')"
    "hierarchy_complete (facts_meta f) \<longrightarrow> supertypes (facts_meta f) = supertypes m"
    using assms unfolding view_of_def by blast
  have "map tp_id (cm_type_parameters (facts_meta f)) = map tp_id (cm_type_parameters m)"
    using m(2) by (auto simp: list_all2_conv_all_nth known_parameter_def intro: nth_equalityI)
  then show thesis using m that by blast
qed

lemma is_subtype_named:
  "is_subtype ctx rel (Named i args) target targs depth seen =
     (if depth > MAX_SUBTYPE_DEPTH \<or> Named i args \<in> seen then Some None
      else if i = target then type_args_contain rel args targs
      else if target = NamedId OBJECT then Some (Some True)
      else if depth = 0 \<and> compute_class_facts ctx target = None then Some None
      else (case compute_class_facts ctx i of
              None \<Rightarrow> Some None
            | Some f \<Rightarrow>
                any_loop (\<lambda>s. is_subtype ctx rel (instantiate (facts_meta f) args s) target targs (depth + 1)
                     (insert (Named i args) seen))
                  (\<not> hierarchy_complete (facts_meta f)) (supertypes (facts_meta f))))"
proof -
  have "(as_named target = Some OBJECT) = (target = NamedId OBJECT)" by (cases target) auto
  then show ?thesis by (subst is_subtype.simps) simp
qed

lemma is_subtype_other: "(\<And>i args. a \<noteq> Named i args) \<Longrightarrow> is_subtype ctx rel a target targs depth seen = Some None"
  by (subst is_subtype.simps) (simp split: type_ref.split)

lemma is_subtype_True:
  assumes view: "view_of ctx w" and rel: "proves w rel" and targs: "list_all clean targs" "list_all lower_free targs"
  shows "is_subtype ctx rel actual target targs depth seen = Some (Some True) \<Longrightarrow> refines actual a'
    \<Longrightarrow> assigns w a' (Named target targs)"
proof (induction "Suc MAX_SUBTYPE_DEPTH - depth" arbitrary: actual a' depth seen rule: less_induct)
  case less
  note yes = less.prems(1)
  obtain i args where act: "actual = Named i args" 
    using yes is_subtype_other [of actual ctx rel target targs depth seen] by (cases actual) auto
  then have depth: "depth \<le> MAX_SUBTYPE_DEPTH" using yes by (simp add: is_subtype_named split: if_splits)
  obtain args' where a': "a' = Named i args'" and args: "list_all2 refines args args'" using less.prems(2) act by auto
  consider "i = target" | "i \<noteq> target" "target = NamedId OBJECT" | "i \<noteq> target" "target \<noteq> NamedId OBJECT" by blast
  then show ?case
  proof cases
    case 1
    then have "type_args_contain rel args targs = Some (Some True)"
      using yes act depth by (simp add: is_subtype_named split: if_splits)
    from type_args_True [OF rel args targs this] show ?thesis using a' 1 by (simp add: same_class)
  next
    case 2
    then show ?thesis using a' by (simp add: object)
  next
    case 3
    then obtain f where f: "compute_class_facts ctx i = Some f"
      using yes unfolding act is_subtype_named by (cases "compute_class_facts ctx i") (simp_all split: if_splits)
    have loop: "any_loop (\<lambda>s. is_subtype ctx rel (instantiate (facts_meta f) args s) target targs (depth + 1) (insert actual seen))
         (\<not> hierarchy_complete (facts_meta f)) (supertypes (facts_meta f)) = Some (Some True)"
      using yes 3 f unfolding act is_subtype_named by (simp split: if_splits)
    obtain s where s: "s \<in> set (supertypes (facts_meta f))" and
      deep: "is_subtype ctx rel (instantiate (facts_meta f) args s) target targs (depth + 1) (insert actual seen) = Some (Some True)"
      using any_loop_True [OF loop] by blast
    obtain m where m: "w i = Some m" "s = Unknown \<or> (\<exists>s' \<in> set (supertypes m). refines s s')"
      "map tp_id (cm_type_parameters (facts_meta f)) = map tp_id (cm_type_parameters m)"
      using view_class [OF view f] s by metis
    have "s \<noteq> Unknown" using deep by (auto simp: instantiate_def is_subtype_other)
    then obtain s' where s': "s' \<in> set (supertypes m)" "refines s s'" using m(2) by blast
    have "assigns w (instantiate m args' s') (Named target targs)"
      using less.hyps [OF _ deep refines_instantiate [OF args s'(2) m(3)]] depth by simp
    then show ?thesis using supertype [of w i m s'] m(1) s'(1) a' by simp
  qed
qed

lemma view_bounds:
  assumes "view_of ctx w" "variable_bounds ctx v = Some bs"
  obtains m where "w (NamedId (owner v)) = Some m" "tv_index v < length (cm_type_parameters m)"
    "list_all2 known_bound (bounds_or_object bs) (bounds_or_object (bounds (cm_type_parameters m ! tv_index v)))"
proof -
  obtain f where f: "compute_class_facts ctx (NamedId (owner v)) = Some f" "tv_index v < length (cm_type_parameters (facts_meta f))"
    "bs = bounds (cm_type_parameters (facts_meta f) ! tv_index v)"
    using assms(2) by (auto simp: variable_bounds_def Let_def split: option.splits if_splits)
  obtain m where m: "w (NamedId (owner v)) = Some m"
    "list_all2 known_parameter (cm_type_parameters (facts_meta f)) (cm_type_parameters m)"
    using view_class [OF assms(1) f(1)] by metis
  then have k: "list_all2 known_bound bs (bounds (cm_type_parameters m ! tv_index v))" "tv_index v < length (cm_type_parameters m)"
    using f(2,3) by (auto simp: list_all2_conv_all_nth known_parameter_def)
  have "list_all2 known_bound (bounds_or_object bs) (bounds_or_object (bounds (cm_type_parameters m ! tv_index v)))"
    using k(1) by (auto simp: bounds_or_object_def known_bound_def)
  then show thesis using that m(1) k(2) by blast
qed

lemma assignable_unknown: "assignable_refs ctx n Unknown e \<noteq> Some (Some b)"
  by (cases n) (simp_all add: assignable_step_def)

lemma any_proved_True: "any_proved f xs = Some (Some True) \<Longrightarrow> \<exists>x \<in> set xs. f x = Some (Some True)"
  unfolding any_proved_def by (rule any_loop_True)

lemma any_proved_False: "any_proved f xs = Some (Some False) \<Longrightarrow> x \<in> set xs \<Longrightarrow> f x = Some (Some False)"
  unfolding any_proved_def using any_loop_False by blast

lemma clean_value [simp]: "clean e \<Longrightarrow> e \<noteq> Unknown" "clean e \<Longrightarrow> e \<noteq> Null" "clean e \<Longrightarrow> e \<noteq> Void"
  by auto

lemma assignable_variable:
  "clean expected \<Longrightarrow> assignable_step ctx rel (Variable v) expected =
     (case variable_bounds ctx v of None \<Rightarrow> Some None | Some bs \<Rightarrow> any_proved (\<lambda>b. rel b expected) (bounds_or_object bs))"
  by (simp add: assignable_step_def)

lemma assignable_wildcard:
  "clean expected \<Longrightarrow> assignable_step ctx rel (Wildcard u l) expected =
     (case expected of Variable _ \<Rightarrow> Some None | _ \<Rightarrow> rel (upper_or_object u) expected)"
  by (cases expected) (simp_all add: assignable_step_def)

lemma list_all2_member: "list_all2 R xs ys \<Longrightarrow> x \<in> set xs \<Longrightarrow> \<exists>y \<in> set ys. R x y"
  by (induction rule: list_all2_induct) auto

lemma boxed_le: "from_box_fqn b = Some p \<Longrightarrow> p = e \<or> widens_to p e \<Longrightarrow> b = box_fqn p \<and> p \<le> e"
  by (auto simp: less_eq_primitive_type_def dest: from_box_SomeD)

lemma assignable_step_proves:
  assumes view: "view_of ctx w" and rel: "proves w (assignable_refs ctx n)"
  shows "proves w (assignable_step ctx (assignable_refs ctx n))"
  unfolding proves_def
proof (intro allI impI)
  fix a e a'
  assume yes: "assignable_step ctx (assignable_refs ctx n) a e = Some (Some True)"
    and e: "clean e" "lower_free e" and a: "refines a a'"
  note prove = provesD [OF rel _ e]
  show "assigns w a' e"
  proof (cases a)
    case (Primitive p)
    then have a': "a' = Primitive p" using a by simp
    show ?thesis
    proof (cases e)
      case (Primitive q)
      then show ?thesis
        using yes \<open>a = _\<close> a' by (auto simp: assignable_step_def constant_narrowing_def less_eq_primitive_type_def
            split: if_splits intro: primitive)
    next
      case (Named t targs)
      then obtain b where t: "t = NamedId b" "get_named ctx b = None" using yes \<open>a = _\<close>
        by (cases t) (auto simp: assignable_step_def split: if_splits)
      show ?thesis
      proof (cases "from_box_fqn b")
        case None
        then have "assignable_refs ctx n (named (box_fqn p)) e = Some (Some True)"
          using yes \<open>a = _\<close> Named t by (simp add: assignable_step_def)
        from prove [OF this refines_refl] show ?thesis using a' Named by (simp add: box)
      next
        case (Some q)
        then have "p = q" using yes \<open>a = _\<close> Named t by (auto simp: assignable_step_def constant_narrowing_def split: if_splits)
        then show ?thesis using a' Named t from_box_SomeD [OF Some] by (simp add: box_self)
      qed
    qed (use yes \<open>a = _\<close> e in \<open>simp_all add: assignable_step_def\<close>)
  next
    case Null
    then show ?thesis using yes a e by (auto simp: assignable_step_def null split: if_splits)
  next
    case (Named i args)
    then obtain args' where a': "a' = Named i args'" using a by auto
    show ?thesis
    proof (cases e)
      case (Primitive q)
      obtain b where "i = NamedId b" using yes Named Primitive by (cases i) (simp_all add: assignable_step_def)
      moreover obtain p where "from_box_fqn b = Some p" "p = q \<or> widens_to p q"
        using yes Named Primitive calculation by (simp add: assignable_step_def split: option.splits)
      ultimately show ?thesis using a' Primitive boxed_le unbox by metis
    next
      case e: (Named t targs)
      have "is_subtype ctx (assignable_refs ctx n) a t targs 0 {} = Some (Some True)"
        using yes e Named by (cases i) (simp_all add: assignable_step_def)
      from is_subtype_True [OF view rel _ _ this a] show ?thesis using \<open>clean e\<close> \<open>lower_free e\<close> e by simp
    qed (use yes Named e in \<open>cases i; simp add: assignable_step_def\<close>)+
  next
    case (Array x)
    then obtain x' where a': "a' = Array x'" "refines x x'" using a by auto
    show ?thesis
    proof (cases e)
      case e: (Array y)
      show ?thesis
      proof (cases "\<exists>p. x = Primitive p \<or> y = Primitive p")
        case True
        then show ?thesis using yes Array e a' array_primitive
          by (cases x; cases y) (auto simp: assignable_step_def)
      next
        case False
        then have r: "assignable_refs ctx n x y = Some (Some True)"
          using yes Array e by (cases x; cases y) (simp_all add: assignable_step_def)
        then have "x \<noteq> Unknown" using assignable_unknown by blast
        moreover have "assigns w x' y" using provesD [OF rel r] a' \<open>clean e\<close> \<open>lower_free e\<close> e by simp
        ultimately show ?thesis using a' e False by (cases x) (auto intro!: array)
      qed
    next
      case (Named t targs)
      then show ?thesis using yes Array a' by (cases t) (auto simp: assignable_step_def intro: array_object)
    qed (use yes Array e in \<open>simp_all add: assignable_step_def\<close>)
  next
    case (Variable v)
    then have a': "a' = Variable v" using a by simp
    obtain bs where bs: "variable_bounds ctx v = Some bs"
      and "any_proved (\<lambda>b. assignable_refs ctx n b e) (bounds_or_object bs) = Some (Some True)"
      using yes Variable e by (simp add: assignable_variable split: option.splits)
    then obtain b where b: "b \<in> set (bounds_or_object bs)" "assignable_refs ctx n b e = Some (Some True)"
      using any_proved_True by blast
    obtain m where m: "w (NamedId (owner v)) = Some m" "tv_index v < length (cm_type_parameters m)"
      "list_all2 known_bound (bounds_or_object bs) (bounds_or_object (bounds (cm_type_parameters m ! tv_index v)))"
      using view_bounds [OF view bs] .
    have "b \<noteq> Unknown" using b(2) assignable_unknown by blast
    then have "b \<in> set (bounds_or_object (bounds (cm_type_parameters m ! tv_index v)))"
      using list_all2_member [OF m(3) b(1)] by (auto simp: known_bound_def)
    then show ?thesis using variable [of w v m b e] m(1,2) prove [OF b(2) refines_refl] a' by blast
  next
    case (Wildcard u l)
    then obtain u' l' where a': "a' = Wildcard u' l'" "refines (upper_or_object u) (upper_or_object u')"
      using a by (auto simp: rel_option_cases upper_or_object_def)
    have "assignable_refs ctx n (upper_or_object u) e = Some (Some True)"
      using yes Wildcard e by (cases e) (simp_all add: assignable_wildcard)
    from prove [OF this a'(2)] show ?thesis using a' by (simp add: wildcard)
  qed (use yes a e in \<open>auto simp: assignable_step_def split: if_splits\<close>)
qed

lemma assignable_proves: "view_of ctx w \<Longrightarrow> proves w (assignable_refs ctx n)"
proof (induction n)
  case (Suc n)
  have "assignable_refs ctx (Suc n) = assignable_step ctx (assignable_refs ctx n)" by (intro ext) simp
  then show ?case using assignable_step_proves [OF Suc.prems Suc.IH] Suc.prems by simp
qed (simp add: proves_def)

section \<open>A refutation is right\<close>

lemma world_classD:
  assumes "world_ok w" "w i = Some m"
  shows "s \<in> set (supertypes m) \<Longrightarrow> clean s" "s \<in> set (supertypes m) \<Longrightarrow> \<exists>j args. s = Named j args"
    "p \<in> set (cm_type_parameters m) \<Longrightarrow> b \<in> set (bounds p) \<Longrightarrow> clean b"
  using assms unfolding world_ok_def by blast+

lemma world_bound_clean:
  assumes "world_ok w" "w i = Some m" "k < length (cm_type_parameters m)"
    "b \<in> set (bounds_or_object (bounds (cm_type_parameters m ! k)))"
  shows "clean b"
  using assms(4) world_classD(3) [OF assms(1,2) nth_mem [OF assms(3)]]
  by (auto simp: bounds_or_object_def named_def split: if_splits)

lemma assigns_path:
  assumes "world_ok w"
  shows "assigns w a e \<Longrightarrow> (\<forall>i args t targs. a = Named i args \<longrightarrow> e = Named t targs \<longrightarrow> t = NamedId OBJECT \<or> (i, t) \<in> (super_ids w)\<^sup>*)"
    and "contained w b f \<Longrightarrow> True"
proof (induction rule: assigns_contained.inducts)
  case (supertype i m s args t targs)
  from supertype have m: "w i = Some m" "s \<in> set (supertypes m)" by blast+
  obtain j js where s: "s = Named j js" using world_classD(2) [OF assms m] by blast
  then have "(i, j) \<in> super_ids w" using m by (auto simp: super_ids_def)
  moreover obtain js' where "instantiate m args s = Named j js'" using instantiate_named s by blast
  ultimately show ?case using supertype.IH by (auto intro: converse_rtrancl_into_rtrancl)
qed auto

lemma assigns_same_class:
  assumes "world_ok w" "assigns w (Named t args) (Named t targs)"
  shows "targs = [] \<or> list_all2 (contained w) args targs"
  using assms(2)
proof (rule assigns_namedE)
  fix m s t' targs'
  assume "Named t targs = Named t' targs'" and m: "w t = Some m" "s \<in> set (supertypes m)"
    and up: "assigns w (instantiate m args s) (Named t' targs')"
  then have t': "t' = t" by simp
  obtain j js where s: "s = Named j js" using world_classD(2) [OF assms(1) m] by blast
  then have tj: "(t, j) \<in> super_ids w" using m by (auto simp: super_ids_def)
  obtain js' where "instantiate m args s = Named j js'" using instantiate_named s by blast
  then have "t = NamedId OBJECT \<or> (j, t) \<in> (super_ids w)\<^sup>*" using assigns_path(1) [OF assms(1) up] t' by blast
  moreover have "t \<noteq> NamedId OBJECT" using assms(1) m by (auto simp: world_ok_def)
  ultimately have "(t, t) \<in> (super_ids w)\<^sup>+" using tj by (meson rtrancl_into_trancl2)
  then show ?thesis using assms(1) by (simp add: world_ok_def acyclic_def)
qed auto

definition refutes :: "world \<Rightarrow> (type_ref \<Rightarrow> type_ref \<Rightarrow> verdict option) \<Rightarrow> bool" where
  "refutes w rel \<longleftrightarrow> (\<forall>a e. rel a e = Some (Some False) \<longrightarrow> clean a \<longrightarrow> clean e \<longrightarrow> \<not> assigns w a e)"

lemma refutesD: "refutes w rel \<Longrightarrow> rel a e = Some (Some False) \<Longrightarrow> clean a \<Longrightarrow> clean e \<Longrightarrow> \<not> assigns w a e"
  unfolding refutes_def by blast

lemma clean_object [simp]: "clean (named b)"
  by (simp add: named_def)

lemma clean_upper [simp]: "clean (Wildcard u l) \<Longrightarrow> clean (upper_or_object u)"
  by (cases u) (simp_all add: upper_or_object_def)

lemma arg_contained_any: "arg_contained rel a (Wildcard None None) = Some (Some True)"
  by (cases a) (simp_all add: arg_contained_def split: option.splits)

lemma arg_contained_False:
  assumes rel: "refutes w rel" and clean: "clean a" "clean e" and no: "arg_contained rel a e = Some (Some False)"
  shows "\<not> contained w a e"
proof
  assume "contained w a e"
  then consider "e = Wildcard None None" | "e = a" "\<forall>u l. a \<noteq> Wildcard u l"
    | u where "e = Wildcard (Some u) None" "\<forall>u l. a \<noteq> Wildcard u l" "assigns w a u"
    | l where "e = Wildcard None (Some l)" "\<forall>u l. a \<noteq> Wildcard u l" "assigns w l a"
    | u u' where "a = Wildcard u None" "e = Wildcard (Some u') None" "assigns w (upper_or_object u) u'"
    | l' l u u' where "a = Wildcard u (Some l)" "e = Wildcard u' (Some l')" "assigns w l' l"
    by (rule containedE)
  then show False
  proof cases
    case 1
    then show ?thesis using no by (simp add: arg_contained_any)
  next
    case 2
    then show ?thesis using no by (cases a) (simp_all add: arg_contained_def)
  next
    case (3 u)
    then have "rel a u = Some (Some False)" using no by (cases a) (simp_all add: arg_contained_def)
    then show ?thesis using 3 refutesD [OF rel] clean by auto
  next
    case (4 l)
    then have "rel l a = Some (Some False)" using no by (cases a) (simp_all add: arg_contained_def)
    then show ?thesis using 4 refutesD [OF rel] clean by auto
  next
    case (5 u u')
    then have "rel (upper_or_object u) u' = Some (Some False)"
      using no by (cases u) (simp_all add: arg_contained_def upper_or_object_def)
    moreover have "clean (upper_or_object u)" "clean u'" using 5 clean clean_upper by auto
    ultimately show ?thesis using 5 refutesD [OF rel] by blast
  next
    case (6 l' l u u')
    then have "rel l' l = Some (Some False)" using no by (cases u') (simp_all add: arg_contained_def)
    then show ?thesis using 6 refutesD [OF rel] clean by auto
  qed
qed

lemma type_args_False:
  assumes "refutes w rel" "list_all clean args" "list_all clean targs"
    and "type_args_contain rel args targs = Some (Some False)"
  shows "\<not> (targs = [] \<or> list_all2 (contained w) args targs)"
proof -
  have targs: "targs \<noteq> []" and len: "length args = length targs"
    and "all_loop (\<lambda>(a, e). arg_contained rel a e) False (zip args targs) = Some (Some False)"
    using assms(4) by (auto simp: type_args_contain_def split: if_splits)
  then obtain a e where ae: "(a, e) \<in> set (zip args targs)" "arg_contained rel a e = Some (Some False)"
    using all_loop_False by fastforce
  then have "clean a" "clean e" using assms(2,3) by (auto simp: list_all_iff dest: set_zip_leftD set_zip_rightD)
  then have "\<not> contained w a e" using arg_contained_False [OF assms(1)] ae(2) by blast
  then show ?thesis using ae(1) targs by (auto simp: list_all2_iff)
qed

lemma is_subtype_False:
  assumes world: "world_ok w" and view: "view_of ctx w" and rel: "refutes w rel" and targs: "list_all clean targs"
  shows "is_subtype ctx rel (Named i args) target targs depth seen = Some (Some False) \<Longrightarrow> list_all clean args
    \<Longrightarrow> \<not> assigns w (Named i args) (Named target targs)"
proof (induction "Suc MAX_SUBTYPE_DEPTH - depth" arbitrary: i args depth seen rule: less_induct)
  case less
  note no = less.prems(1)
  have depth: "depth \<le> MAX_SUBTYPE_DEPTH" using no by (simp add: is_subtype_named split: if_splits)
  show ?case
  proof (cases "i = target")
    case True
    then have "type_args_contain rel args targs = Some (Some False)"
      using no depth by (simp add: is_subtype_named split: if_splits)
    from type_args_False [OF rel less.prems(2) targs this] show ?thesis
      using assigns_same_class [OF world] True by blast
  next
    case other: False
    have obj: "target \<noteq> NamedId OBJECT" using no other by (auto simp: is_subtype_named split: if_splits)
    obtain f where f: "compute_class_facts ctx i = Some f"
      using no other obj unfolding is_subtype_named by (cases "compute_class_facts ctx i") (simp_all split: if_splits)
    have loop: "any_loop (\<lambda>s. is_subtype ctx rel (instantiate (facts_meta f) args s) target targs (depth + 1)
          (insert (Named i args) seen)) (\<not> hierarchy_complete (facts_meta f)) (supertypes (facts_meta f)) = Some (Some False)"
      using no other obj f unfolding is_subtype_named by (simp split: if_splits)
    note all = any_loop_False [OF loop]
    obtain m where m: "w i = Some m" "supertypes (facts_meta f) = supertypes m"
      "map tp_id (cm_type_parameters (facts_meta f)) = map tp_id (cm_type_parameters m)"
      using view_class [OF view f] all by metis
    have same: "instantiate (facts_meta f) args s = instantiate m args s" for s
      using m(3) by (auto simp: instantiate_def env_of_def)
    have step: "\<not> assigns w (instantiate m args s) (Named target targs)" if s: "s \<in> set (supertypes m)" for s
    proof -
      obtain j js where "s = Named j js" using world_classD(2) [OF world m(1) s] by blast
      then obtain js' where js': "instantiate m args s = Named j js'" using instantiate_named by blast
      moreover have "clean (instantiate m args s)"
        using clean_instantiate world_classD(1) [OF world m(1) s] less.prems(2) by blast
      moreover have "is_subtype ctx rel (instantiate m args s) target targs (depth + 1) (insert (Named i args) seen) = Some (Some False)"
        using all s m(2) same by simp
      ultimately show ?thesis using less.hyps [of "depth + 1" j js'] depth by simp
    qed
    show ?thesis
    proof
      assume "assigns w (Named i args) (Named target targs)"
      then show False
        by (rule assigns_namedE) (use other obj step m(1) in auto)
    qed
  qed
qed

lemma list_all2_member2: "list_all2 R xs ys \<Longrightarrow> y \<in> set ys \<Longrightarrow> \<exists>x \<in> set xs. R x y"
  by (induction rule: list_all2_induct) auto

lemma bounds_or_object_nonempty: "\<exists>b. b \<in> set (bounds_or_object bs)"
  by (cases bs) (auto simp: bounds_or_object_def)

text \<open>Nothing is refuted when a variable is expected.\<close>

lemma variable_never_refuted:
  assumes world: "world_ok w" and view: "view_of ctx w"
  shows "clean a \<Longrightarrow> assignable_refs ctx n a (Variable v) \<noteq> Some (Some False)"
proof (induction n arbitrary: a)
  case (Suc n)
  show ?case
  proof (cases a)
    case (Variable u)
    show ?thesis
    proof (cases "variable_bounds ctx u")
      case (Some bs)
      obtain m where m: "w (NamedId (owner u)) = Some m" "tv_index u < length (cm_type_parameters m)"
        "list_all2 known_bound (bounds_or_object bs) (bounds_or_object (bounds (cm_type_parameters m ! tv_index u)))"
        using view_bounds [OF view Some] .
      obtain b where b: "b \<in> set (bounds_or_object bs)" using bounds_or_object_nonempty by blast
      then obtain b' where "b' \<in> set (bounds_or_object (bounds (cm_type_parameters m ! tv_index u)))" "known_bound b b'"
        using list_all2_member [OF m(3)] by blast
      then have "b = Unknown \<or> clean b" using world_bound_clean [OF world m(1,2)] by (auto simp: known_bound_def)
      then have "assignable_refs ctx n b (Variable v) \<noteq> Some (Some False)" using Suc.IH assignable_unknown by blast
      then have "any_proved (\<lambda>b. assignable_refs ctx n b (Variable v)) (bounds_or_object bs) \<noteq> Some (Some False)"
        using any_proved_False b by fastforce
      then show ?thesis using Variable Some by (simp add: assignable_variable)
    qed (simp add: Variable assignable_variable)
  next
    case (Named i args)
    then show ?thesis by (cases i) (simp_all add: assignable_step_def)
  qed (use Suc.prems in \<open>simp_all add: assignable_step_def\<close>)
qed simp

lemma assignable_step_refutes:
  assumes world: "world_ok w" and view: "view_of ctx w" and rel: "refutes w (assignable_refs ctx n)"
  shows "refutes w (assignable_refs ctx (Suc n))"
  unfolding refutes_def
proof (intro allI impI notI)
  fix a e
  assume "assignable_refs ctx (Suc n) a e = Some (Some False)" and clean: "clean a" "clean e" and der: "assigns w a e"
  then have no: "assignable_step ctx (assignable_refs ctx n) a e = Some (Some False)" by simp
  show False
  proof (cases a)
    case (Primitive p)
    from der [unfolded Primitive] show False
    proof (rule assigns_primitiveE)
      fix q
      assume "e = Primitive q" "p \<le> q"
      then show False using no Primitive by (auto simp: assignable_step_def less_eq_primitive_type_def split: if_splits)
    next
      fix args
      assume e: "e = Named (NamedId (box_fqn p)) args"
      have "get_named ctx (box_fqn p) = None" using view unfolding view_of_def by (metis rtrancl.rtrancl_refl type_id.inject(1))
      then show False using no Primitive e by (simp add: assignable_step_def from_box_box)
    next
      fix t targs
      assume e: "e = Named t targs" and up: "assigns w (named (box_fqn p)) (Named t targs)"
      have path: "t = NamedId OBJECT \<or> (NamedId (box_fqn p), t) \<in> (super_ids w)\<^sup>*"
        using assigns_path(1) [OF world up] by (simp add: named_def)
      then obtain b where t: "t = NamedId b" "get_named ctx b = None" using view unfolding view_of_def by blast
      show False
      proof (cases "from_box_fqn b")
        case None
        then have "assignable_refs ctx n (named (box_fqn p)) e = Some (Some False)"
          using no Primitive e t by (simp add: assignable_step_def)
        from refutesD [OF rel this] show False using clean up e by simp
      next
        case (Some q)
        then have "b = box_fqn q" by (rule from_box_SomeD)
        moreover have "box_fqn q \<noteq> OBJECT" by (cases q) (simp_all add: OBJECT_def)
        ultimately have "p = q" using path t world unfolding world_ok_def by blast
        then show False using no Primitive e t Some by (simp add: assignable_step_def)
      qed
    qed
  next
    case (Named i args)
    show False
    proof (cases e)
      case (Primitive q)
      from der [unfolded Primitive Named] show False
        by (rule assigns_namedE)
          (use no Named Primitive in \<open>auto simp: assignable_step_def from_box_box less_eq_primitive_type_def\<close>)
    next
      case e: (Named t targs)
      have "is_subtype ctx (assignable_refs ctx n) (Named i args) t targs 0 {} = Some (Some False)"
        using no Named e by (cases i) (simp_all add: assignable_step_def)
      from is_subtype_False [OF world view rel _ this] show False using clean der Named e by simp
    qed (use der Named clean in \<open>auto elim: assigns_namedE\<close>)
  next
    case (Array x)
    from der [unfolded Array] show False
    proof (rule assigns_arrayE)
      fix y
      assume *: "e = Array y" "\<forall>p. x \<noteq> Primitive p" "\<forall>p. y \<noteq> Primitive p" "assigns w x y"
      then have "assignable_refs ctx n x y = Some (Some False)"
        using no Array by (cases x; cases y) (simp_all add: assignable_step_def)
      from refutesD [OF rel this] show False using clean Array * by simp
    qed (use no Array in \<open>auto simp: assignable_step_def\<close>)
  next
    case (Variable v)
    then obtain bs where bs: "variable_bounds ctx v = Some bs"
      using no clean by (cases "variable_bounds ctx v") (simp_all add: assignable_variable)
    have all: "any_proved (\<lambda>b. assignable_refs ctx n b e) (bounds_or_object bs) = Some (Some False)"
      using no clean Variable bs by (simp add: assignable_variable)
    obtain m where m: "w (NamedId (owner v)) = Some m" "tv_index v < length (cm_type_parameters m)"
      "list_all2 known_bound (bounds_or_object bs) (bounds_or_object (bounds (cm_type_parameters m ! tv_index v)))"
      using view_bounds [OF view bs] .
    from der [unfolded Variable] show False
    proof (rule assigns_variableE)
      assume "e = Variable v"
      then show False
        using variable_never_refuted [OF world view, of a "Suc n" v] no clean by simp
    next
      fix m' b'
      assume *: "w (NamedId (owner v)) = Some m'" "b' \<in> set (bounds_or_object (bounds (cm_type_parameters m' ! tv_index v)))"
        "assigns w b' e"
      then obtain b where b: "b \<in> set (bounds_or_object bs)" "known_bound b b'"
        using list_all2_member2 [OF m(3)] m(1) by auto
      have r: "assignable_refs ctx n b e = Some (Some False)" by (rule any_proved_False [OF all b(1)])
      then have "b = b'" using b(2) assignable_unknown unfolding known_bound_def by blast
      moreover have "clean b'" using world_bound_clean [OF world m(1,2)] * m(1) by simp
      ultimately show False using refutesD [OF rel r] clean * by blast
    qed
  next
    case (Wildcard u l)
    have "e \<noteq> Variable v" for v using no Wildcard by (auto simp: assignable_step_def)
    then have r: "assignable_refs ctx n (upper_or_object u) e = Some (Some False)"
      using no Wildcard clean by (cases e) (simp_all add: assignable_wildcard)
    from der [unfolded Wildcard] have "assigns w (upper_or_object u) e" by (rule assigns_wildcardE)
    then show False using refutesD [OF rel r] clean Wildcard clean_upper by blast
  qed (use clean in simp_all)
qed

lemma assignable_refutes: "world_ok w \<Longrightarrow> view_of ctx w \<Longrightarrow> refutes w (assignable_refs ctx n)"
  by (induction n) (auto simp: refutes_def [of _ "assignable_refs ctx 0"] intro: assignable_step_refutes)

section \<open>Fuel\<close>

definition fuel_extends :: "('a \<Rightarrow> 'b \<Rightarrow> 'c option) \<Rightarrow> ('a \<Rightarrow> 'b \<Rightarrow> 'c option) \<Rightarrow> bool" where
  "fuel_extends f g \<longleftrightarrow> (\<forall>a e r. f a e = Some r \<longrightarrow> g a e = Some r)"

lemma any_loop_extends:
  "(\<And>x r. x \<in> set xs \<Longrightarrow> f x = Some r \<Longrightarrow> g x = Some r) \<Longrightarrow> any_loop f u xs = Some r \<Longrightarrow> any_loop g u xs = Some r"
  by (induction xs arbitrary: u) (auto split: option.splits bool.splits)

lemma all_loop_extends:
  "(\<And>x r. x \<in> set xs \<Longrightarrow> f x = Some r \<Longrightarrow> g x = Some r) \<Longrightarrow> all_loop f u xs = Some r \<Longrightarrow> all_loop g u xs = Some r"
  by (induction xs arbitrary: u) (auto split: option.splits bool.splits)

lemma arg_contained_extends: "fuel_extends f g \<Longrightarrow> arg_contained f a e = Some r \<Longrightarrow> arg_contained g a e = Some r"
  unfolding arg_contained_def fuel_extends_def by (cases a; cases e) (simp_all split: option.splits)

lemma type_args_extends: "fuel_extends f g \<Longrightarrow> type_args_contain f as es = Some r \<Longrightarrow> type_args_contain g as es = Some r"
  by (auto simp: type_args_contain_def split: if_splits
      intro: all_loop_extends [where f = "\<lambda>(a, e). arg_contained f a e"] arg_contained_extends)

lemma is_subtype_extends:
  assumes "fuel_extends f g"
  shows "is_subtype ctx f a t targs depth seen = Some r \<Longrightarrow> is_subtype ctx g a t targs depth seen = Some r"
proof (induction "Suc MAX_SUBTYPE_DEPTH - depth" arbitrary: a depth seen r rule: less_induct)
  case less
  show ?case
  proof (cases a)
    case (Named i args)
    show ?thesis
    proof (cases "compute_class_facts ctx i")
      case (Some fs)
      have "any_loop (\<lambda>s. is_subtype ctx g (instantiate (facts_meta fs) args s) t targs (depth + 1) (insert (Named i args) seen))
           u xs = Some r'"
        if "any_loop (\<lambda>s. is_subtype ctx f (instantiate (facts_meta fs) args s) t targs (depth + 1) (insert (Named i args) seen))
           u xs = Some r'" "depth \<le> MAX_SUBTYPE_DEPTH" for u xs r'
        using that(1) by (rule any_loop_extends [rotated]) (rule less.hyps; use that(2) in simp)
      then show ?thesis
        using less.prems type_args_extends [OF assms] unfolding Named is_subtype_named Some by (auto split: if_splits)
    qed (use less.prems type_args_extends [OF assms] in \<open>auto simp: Named is_subtype_named split: if_splits\<close>)
  qed (use less.prems in \<open>simp_all add: is_subtype_other\<close>)
qed

lemma assignable_step_extends:
  assumes fg: "fuel_extends f g"
  shows "fuel_extends (assignable_step ctx f) (assignable_step ctx g)"
proof -
  have rec: "f x y = Some r \<Longrightarrow> g x y = Some r" for x y r using fg unfolding fuel_extends_def by blast
  have any: "any_proved (\<lambda>b. f b e) bs = Some r \<Longrightarrow> any_proved (\<lambda>b. g b e) bs = Some r" for bs e r
    unfolding any_proved_def by (rule any_loop_extends) (auto intro: rec)
  show ?thesis
    unfolding fuel_extends_def
  proof (intro allI impI)
    fix a e r
    assume "assignable_step ctx f a e = Some r"
    then show "assignable_step ctx g a e = Some r"
      unfolding assignable_step_def using rec any is_subtype_extends [OF fg]
      by (cases a; cases e) (auto split: if_splits option.splits type_id.splits type_ref.splits)
  qed
qed

lemma assignable_fuel_Suc: "fuel_extends (assignable_refs ctx n) (assignable_refs ctx (Suc n))"
proof (induction n)
  case (Suc n)
  have step: "assignable_refs ctx (Suc k) = assignable_step ctx (assignable_refs ctx k)" for k by (intro ext) simp
  show ?case using assignable_step_extends [OF Suc.IH] by (simp only: step [of n] step [of "Suc n"])
qed (simp add: fuel_extends_def)

lemma assignable_fuel_mono: "n \<le> k \<Longrightarrow> assignable_refs ctx n a e = Some r \<Longrightarrow> assignable_refs ctx k a e = Some r"
proof (induction k rule: dec_induct)
  case (step k)
  then show ?case using assignable_fuel_Suc unfolding fuel_extends_def by blast
qed

section \<open>The recursion ends\<close>

definition settles :: "(nat \<Rightarrow> 'a option) \<Rightarrow> bool" where
  "settles f \<longleftrightarrow> (\<exists>n. \<forall>k \<ge> n. f k \<noteq> None)"

lemma settles_const [simp]: "settles (\<lambda>k. Some x)"
  by (simp add: settles_def)

lemma settles_if [simp]: "settles (\<lambda>k. if c then f k else g k) = (if c then settles f else settles g)"
  by simp

lemma settles_option [simp]:
  "settles (\<lambda>k. case x of None \<Rightarrow> f k | Some y \<Rightarrow> g y k) = (case x of None \<Rightarrow> settles f | Some y \<Rightarrow> settles (g y))"
  by (cases x) simp_all

lemma settles_id [simp]:
  "settles (\<lambda>k. case i of NamedId b \<Rightarrow> f b k | LocalId d n \<Rightarrow> g d n k)
     = (case i of NamedId b \<Rightarrow> settles (f b) | LocalId d n \<Rightarrow> settles (g d n))"
  by (cases i) simp_all

lemma settles_mono: "settles f \<Longrightarrow> (\<And>k. f k \<noteq> None \<Longrightarrow> g k \<noteq> None) \<Longrightarrow> settles g"
  unfolding settles_def by blast

lemma settles_all:
  assumes "\<And>x. x \<in> set xs \<Longrightarrow> settles (\<lambda>k. f k x)"
  shows "\<exists>n. \<forall>k \<ge> n. \<forall>x \<in> set xs. f k x \<noteq> None"
  using assms
proof (induction xs)
  case (Cons x xs)
  then obtain n p where "\<forall>k \<ge> n. \<forall>x \<in> set xs. f k x \<noteq> None" "\<forall>k \<ge> p. f k x \<noteq> None"
    by (fastforce simp: settles_def)
  then show ?case by (intro exI [of _ "max n p"]) auto
qed simp

lemma any_loop_total: "(\<And>x. x \<in> set xs \<Longrightarrow> f x \<noteq> None) \<Longrightarrow> any_loop f u xs \<noteq> None"
  by (induction xs arbitrary: u) (auto split: option.splits bool.splits)

lemma all_loop_total: "(\<And>x. x \<in> set xs \<Longrightarrow> f x \<noteq> None) \<Longrightarrow> all_loop f u xs \<noteq> None"
  by (induction xs arbitrary: u) (auto split: option.splits bool.splits)

lemma settles_any_loop: "(\<And>x. x \<in> set xs \<Longrightarrow> settles (\<lambda>k. f k x)) \<Longrightarrow> settles (\<lambda>k. any_loop (f k) u xs)"
  using settles_all [of xs f] any_loop_total unfolding settles_def by metis

lemma settles_all_loop: "(\<And>x. x \<in> set xs \<Longrightarrow> settles (\<lambda>k. f k x)) \<Longrightarrow> settles (\<lambda>k. all_loop (f k) u xs)"
  using settles_all [of xs f] all_loop_total unfolding settles_def by metis

lemma settles_arg:
  assumes "lower_free e" "\<And>x u. e = Wildcard (Some u) None \<Longrightarrow> settles (\<lambda>k. rel k x u)"
  shows "settles (\<lambda>k. arg_contained (rel k) a e)"
proof (cases e)
  case (Wildcard u l)
  then have l: "l = None" using assms(1) by simp
  show ?thesis
  proof (cases u)
    case None
    then show ?thesis using Wildcard l by (simp add: arg_contained_any)
  next
    case (Some t)
    then show ?thesis using Wildcard l assms(2) by (cases a) (simp_all add: arg_contained_upper split: option.split)
  qed
qed (cases a; simp add: arg_contained_def split: option.split)+

lemma settles_type_args:
  assumes "list_all lower_free targs" "\<And>x u. Wildcard (Some u) None \<in> set targs \<Longrightarrow> settles (\<lambda>k. rel k x u)"
  shows "settles (\<lambda>k. type_args_contain (rel k) args targs)"
proof -
  have each: "settles (\<lambda>k. (\<lambda>(a, e). arg_contained (rel k) a e) p)" if pair: "p \<in> set (zip args targs)" for p
  proof -
    obtain a e where p: "p = (a, e)" by fastforce
    then have "e \<in> set targs" using pair by (auto dest: set_zip_rightD)
    then show ?thesis using p settles_arg [of e rel a] assms by (auto simp: list_all_iff)
  qed
  have "settles (\<lambda>k. all_loop (\<lambda>(a, e). arg_contained (rel k) a e) False (zip args targs))"
    by (rule settles_all_loop) (rule each)
  then show ?thesis by (auto simp: type_args_contain_def)
qed

lemma settles_is_subtype:
  assumes "list_all lower_free targs" "\<And>x u. Wildcard (Some u) None \<in> set targs \<Longrightarrow> settles (\<lambda>k. rel k x u)"
  shows "settles (\<lambda>k. is_subtype ctx (rel k) a t targs depth seen)"
proof (induction "Suc MAX_SUBTYPE_DEPTH - depth" arbitrary: a depth seen rule: less_induct)
  case less
  show ?case
  proof (cases a)
    case (Named i args)
    have deep: "settles (\<lambda>k. any_loop (\<lambda>s. is_subtype ctx (rel k) (instantiate m args s) t targs (depth + 1) (insert a seen)) u xs)"
      if "depth \<le> MAX_SUBTYPE_DEPTH" for m u xs
      using that less.hyps [of "depth + 1"] by (intro settles_any_loop) simp
    show ?thesis
      using settles_type_args [OF assms] deep unfolding Named is_subtype_named
      by (auto split: option.split)
  qed (simp_all add: is_subtype_other)
qed

text \<open>
  A rank of the variables that decreases along their bounds. Only the head of a bound counts: a bound
  such as \<open>Comparable<T>\<close> of \<open>T\<close> itself is no descent.
\<close>

fun head_rank :: "(type_variable_id \<Rightarrow> nat) \<Rightarrow> type_ref \<Rightarrow> nat" where
  "head_rank r (Variable v) = r v"
| "head_rank r (Wildcard (Some t) l) = Suc (head_rank r t)"
| "head_rank r (Wildcard None l) = 1"
| "head_rank r (Primitive p) = 1"
| "head_rank r t = 0"

definition ranked :: "'d sem_ctx \<Rightarrow> (type_variable_id \<Rightarrow> nat) \<Rightarrow> bool" where
  "ranked ctx r \<longleftrightarrow>
     (\<forall>v bs. variable_bounds ctx v = Some bs \<longrightarrow> list_all (\<lambda>b. head_rank r b < r v) (bounds_or_object bs))"

lemma size_argument: "Wildcard (Some u) None \<in> set targs \<Longrightarrow> size u < size (Named t targs)"
  using size_list_estimation' [of "Wildcard (Some u) None" targs "size u" size] by simp

lemma settles_step:
  assumes "settles (\<lambda>k. assignable_step ctx (assignable_refs ctx k) a e)"
  shows "settles (\<lambda>k. assignable_refs ctx k a e)"
proof -
  obtain n where n: "\<forall>k \<ge> n. assignable_step ctx (assignable_refs ctx k) a e \<noteq> None" using assms by (auto simp: settles_def)
  have "assignable_refs ctx k a e \<noteq> None" if "k \<ge> Suc n" for k
    using n that by (cases k) auto
  then show ?thesis unfolding settles_def by blast
qed

lemma assignable_settles:
  assumes "ranked ctx r"
  shows "lower_free e \<Longrightarrow> settles (\<lambda>k. assignable_refs ctx k a e)"
proof (induction "(a, e)" arbitrary: a e rule: wf_induct [OF wf_mlex [OF wf_measure], of "\<lambda>(a, e). size e" "\<lambda>(a, e). head_rank r a"])
  case 1
  have smaller: "settles (\<lambda>k. assignable_refs ctx k x y)" if "size y < size e" "lower_free y" for x y
    using 1 that by (simp add: mlex_iff)
  have lower: "settles (\<lambda>k. assignable_refs ctx k x e)" if "head_rank r x < head_rank r a" for x
    using 1 that by (simp add: mlex_iff)
  have bounds: "settles (\<lambda>k. any_proved (\<lambda>b. assignable_refs ctx k b e) (bounds_or_object bs))"
    if "a = Variable v" "variable_bounds ctx v = Some bs" for v bs
    unfolding any_proved_def using that lower assms
    by (intro settles_any_loop) (auto simp: ranked_def list_all_iff)
  have subtype: "settles (\<lambda>k. is_subtype ctx (assignable_refs ctx k) a t targs 0 {})" if "e = Named t targs" for t targs
  proof (rule settles_is_subtype)
    show free: "list_all lower_free targs" using 1 that by simp
    fix x u
    assume u: "Wildcard (Some u) None \<in> set targs"
    then have "lower_free u" using free by (auto simp: list_all_iff)
    then show "settles (\<lambda>k. assignable_refs ctx k x u)" using smaller size_argument [OF u] that by simp
  qed
  have "settles (\<lambda>k. assignable_step ctx (assignable_refs ctx k) a e)"
  proof (cases a)
    case (Variable v)
    then show ?thesis using bounds by (cases "variable_bounds ctx v") (simp_all add: assignable_step_def)
  next
    case (Wildcard u l)
    have "head_rank r (upper_or_object u) < head_rank r a"
      using Wildcard by (cases u) (simp_all add: upper_or_object_def named_def)
    from lower [OF this] show ?thesis using Wildcard by (cases e) (simp_all add: assignable_step_def)
  next
    case (Primitive p)
    have "settles (\<lambda>k. assignable_refs ctx k (named (box_fqn p)) e)"
      using lower Primitive by (simp add: named_def)
    then show ?thesis using Primitive
      by (cases e) (auto simp: assignable_step_def split: type_id.split option.split)
  next
    case (Array x)
    show ?thesis
    proof (cases e)
      case e: (Array y)
      then have "settles (\<lambda>k. assignable_refs ctx k x y)" using smaller 1 by simp
      then show ?thesis using Array e by (cases x; cases y) (simp_all add: assignable_step_def)
    qed (simp_all add: Array assignable_step_def split: type_id.split)
  next
    case (Named i args)
    then show ?thesis using subtype
      by (cases e; cases i) (simp_all add: assignable_step_def)
  qed (simp_all add: assignable_step_def)
  then show ?case by (rule settles_step)
qed

section \<open>Samples\<close>

text \<open>A project with \<open>class A<T> extends B<T>\<close> and \<open>class B<U>\<close>, and nothing on the classpath.\<close>

definition sample_meta :: "string \<Rightarrow> type_ref list list \<Rightarrow> type_ref list \<Rightarrow> class_metadata" where
  "sample_meta name bs sups =
     \<lparr>cm_id = NamedId name, cm_kind = Class, cm_access = Public, cm_is_abstract = False, cm_is_static = True,
      enclosing_class = None, cm_type_parameters = map (\<lambda>(k, b). TypeParameter (TypeVariableId name k) b) (enumerate 0 bs),
      supertypes = sups, hierarchy_complete = True, constructors_complete = True\<rparr>"

definition project_ctx :: "(string \<rightharpoonup> class_metadata) \<Rightarrow> class_metadata sem_ctx" where
  "project_ctx decls =
     \<lparr>is_duplicate = (\<lambda>_. False), get_named = decls, by_node = (\<lambda>_ _. None),
      decl_class = (\<lambda>m. Some \<lparr>ec_supers = [], ec_type_params = [], ec_members = [], ec_metadata = Some m\<rparr>),
      ctx_symbols = NoSymbols\<rparr>"

definition sample_decls :: "string \<rightharpoonup> class_metadata" where
  "sample_decls = [''A'' \<mapsto> sample_meta ''A'' [[]] [Named (NamedId ''B'') [Variable (TypeVariableId ''A'' 0)]],
     ''B'' \<mapsto> sample_meta ''B'' [[]] []]"

definition sample_world :: world where
  "sample_world i = (case as_named i of
     None \<Rightarrow> None
   | Some b \<Rightarrow> if b = OBJECT then Some (facts_meta object_facts) else sample_decls b)"

lemma project_facts:
  "compute_class_facts (project_ctx decls) i = (case as_named i of
     None \<Rightarrow> None
   | Some b \<Rightarrow> (case decls b of
       Some m \<Rightarrow> Some \<lparr>facts_meta = m, facts_members = []\<rparr>
     | None \<Rightarrow> if b = OBJECT then Some object_facts else None))"
  by (cases i)
    (auto simp: compute_class_facts_def source_decl_def project_ctx_def external_facts_def facts_of_def NoSymbols_def
      split: option.splits)

lemma sample_super_ids: "super_ids sample_world = {(NamedId ''A'', NamedId ''B'')}"
proof -
  have "(i, j) \<in> super_ids sample_world \<longleftrightarrow> i = NamedId ''A'' \<and> j = NamedId ''B''" for i j
    by (cases i) (auto simp: super_ids_def sample_world_def sample_decls_def sample_meta_def object_facts_def OBJECT_def)
  then show ?thesis by auto
qed

lemma sample_reach: "(i, j) \<in> (super_ids sample_world)\<^sup>* \<Longrightarrow> i = j \<or> (i = NamedId ''A'' \<and> j = NamedId ''B'')"
  by (induction rule: rtrancl_induct) (auto simp: sample_super_ids)

lemma box_not_sample: "box_fqn p \<notin> {''A'', ''B'', OBJECT}"
  by (cases p) (simp_all add: OBJECT_def)

lemma sample_world_ok: "world_ok sample_world"
proof -
  have "acyclic (super_ids sample_world)"
    by (auto simp: sample_super_ids acyclic_def trancl_insert dest: trancl_into_rtrancl)
  moreover have "\<forall>p q. (NamedId (box_fqn p), NamedId (box_fqn q)) \<in> (super_ids sample_world)\<^sup>* \<longrightarrow> p = q"
    using box_not_sample sample_reach by (metis from_box_box insertCI option.inject type_id.inject(1))
  ultimately show ?thesis
    by (auto simp: world_ok_def sample_world_def sample_decls_def sample_meta_def object_facts_def OBJECT_def
        enumerate_eq_zip split: option.splits if_splits)
qed

lemma sample_view: "view_of (project_ctx sample_decls) sample_world"
proof -
  have here: "sample_world i = Some (facts_meta f)" if "compute_class_facts (project_ctx sample_decls) i = Some f" for i f
    using that by (auto simp: project_facts sample_world_def sample_decls_def OBJECT_def split: option.splits if_splits)
  have same: "list_all2 known_parameter ps ps" for ps
    by (rule list.rel_refl_strong) (auto simp: known_parameter_def known_bound_def intro: list.rel_refl_strong)
  have foreign: "get_named (project_ctx sample_decls) b = None" if "b \<notin> {''A'', ''B''}" for b
    using that by (simp add: project_ctx_def sample_decls_def)
  show ?thesis
    unfolding view_of_def
  proof (intro conjI allI impI)
    fix i f
    assume "compute_class_facts (project_ctx sample_decls) i = Some f"
    then show "\<exists>m. sample_world i = Some m
        \<and> list_all2 known_parameter (cm_type_parameters (facts_meta f)) (cm_type_parameters m)
        \<and> (\<forall>s \<in> set (supertypes (facts_meta f)). s = Unknown \<or> (\<exists>s' \<in> set (supertypes m). refines s s'))
        \<and> (hierarchy_complete (facts_meta f) \<longrightarrow> supertypes (facts_meta f) = supertypes m)"
      using here same refines_refl by blast
  next
    fix p i
    assume "(NamedId (box_fqn p), i) \<in> (super_ids sample_world)\<^sup>*"
    from sample_reach [OF this] have "i = NamedId (box_fqn p)" using box_not_sample [of p] by auto
    then show "\<exists>b. i = NamedId b \<and> get_named (project_ctx sample_decls) b = None"
      using foreign box_not_sample [of p] by auto
  qed (rule foreign, simp add: OBJECT_def)
qed

section \<open>Properties\<close>




lemma sample_ranked: "ranked (project_ctx sample_decls) (\<lambda>_. 1)"
  by (auto simp: ranked_def variable_bounds_def project_facts sample_decls_def sample_meta_def object_facts_def
      bounds_or_object_def named_def Let_def split: option.splits if_splits)


section \<open>Where the engine fails\<close>

text \<open>
  A variable that is its own bound (\<open>class A<T extends T>\<close>, which the parser accepts) sends the recursion
  round in circles: no fuel is enough.
\<close>

lemma self_bound_diverges:
  assumes "variable_bounds ctx v = Some [Variable v]" "e \<notin> {Unknown, Null, Void}"
  shows "assignable_refs ctx n (Variable v) e = None"
  using assms by (induction n) (auto simp: assignable_step_def bounds_or_object_def any_proved_def)

text \<open>
  An unknown part below a type argument is refuted instead of left open: the actual type may well be the
  expected one.
\<close>

lemma nested_unknown_refuted:
  assumes "clean s"
  shows "assignable_refs ctx (Suc n) (Named i [Named l [Unknown]]) (Named i [Named l [s]]) = Some (Some False)
    \<and> refines (Named i [Named l [Unknown]]) (Named i [Named l [s]])
    \<and> assigns w (Named i [Named l [s]]) (Named i [Named l [s]])"
proof (intro conjI)
  have "s \<noteq> Unknown" using assms by auto
  then show "assignable_refs ctx (Suc n) (Named i [Named l [Unknown]]) (Named i [Named l [s]]) = Some (Some False)"
    by (cases i) (simp_all add: assignable_step_def is_subtype_named MAX_SUBTYPE_DEPTH_def type_args_contain_def arg_contained_def)
  show "assigns w (Named i [Named l [s]]) (Named i [Named l [s]])"
    by (intro same_class disjI2) (simp add: same_argument)
qed simp

end
