(* ===== verification/Overloads.thy ===== *)
theory Overloads
  imports Subtyping "HOL-Library.Multiset"
begin

text \<open>
  Overload selection of \<open>crates/syntax/src/call.rs\<close>: which of the candidates of a call is applicable in which of
  the three phases of JLS 15.12.2, and which applicable one is most specific; and the walks over the class
  hierarchy that find the candidates, the function type of an interface and a type seen as a supertype.

  Lambdas and method references appear as what the parse tree and the resolution of expressions give of
  them. As in theory \<open>Subtyping\<close> a verdict is optional, and the option around a result is \<open>None\<close> when the call
  returns no value: the recursion of \<open>assignable_refs\<close> did not end within the fuel, or the code panics.
\<close>

section \<open>Candidates and arguments\<close>

record overload =
  ov_meta :: member_metadata
  ov_env :: type_env
  ov_inferred :: "type_variable_id list"
  ov_result_display :: "string option"
  ov_declared_signature :: "string option"

datatype body_shape = VoidOnly | ValueOnly | Either | UnknownShape

text \<open>The declared parameter types of a lambda, \<open>None\<close> where a parameter has none that resolves, and its body's shape.\<close>

record lambda_info =
  lam_parameters :: "type_ref option list"
  lam_shape :: body_shape

text \<open>A method reference: its resolved qualifier and whether that is a type, the name after the colons, and \<open>::new\<close>.\<close>

record reference_info =
  ref_qualifier :: "(type_ref \<times> bool) option"
  ref_is_new :: bool
  ref_name :: "string option"

datatype argument = ValueArg type_ref | LambdaArg lambda_info | ReferenceArg reference_info

datatype phase = Strict | Loose | Varargs

definition declared_params :: "overload \<Rightarrow> type_ref list option" where
  "declared_params c = map_option (map (Java_Types.substitute (ov_env c))) (parameters (ov_meta c))"

section \<open>Walks over the hierarchy\<close>

text \<open>
  The loop the three walks share: a stack of types with their depths, the top at the head of the list, and
  the set of the visited types. \<open>body\<close> handles a fresh type; it ends the walk or gives the supertypes to push.
\<close>

function walk :: "(type_ref \<Rightarrow> 'acc \<Rightarrow> 'r + (type_ref list \<times> 'acc)) \<Rightarrow> (type_ref \<times> nat) list \<Rightarrow> type_ref set \<Rightarrow> 'acc \<Rightarrow> 'r + 'acc" where
  "walk body [] visited acc = Inr acc"
| "walk body ((ty, depth) # stack) visited acc =
     (if depth > 64 \<or> ty \<in> visited then walk body stack visited acc
      else case body ty acc of
          Inl r \<Rightarrow> Inl r
        | Inr (supers, acc') \<Rightarrow>
            walk body (rev (map (\<lambda>s. (s, depth + 1)) supers) @ stack) (insert ty visited) acc')"
  by pat_completeness auto
termination
proof (relation "inv_image (mult less_than) (\<lambda>(_, stack, _, _). mset (map (\<lambda>(_, depth). 65 - depth) stack))", goal_cases)
  case 1
  show ?case by (intro wf_inv_image wf_mult wf_less_than)
next
  case (2 body ty depth stack visited acc)
  show ?case
    using one_step_implies_mult [of "{#65 - depth#}" "{#}" less_than "mset (map (\<lambda>(_, depth). 65 - depth) stack)"] by simp
next
  case (3 body ty depth stack visited acc r x y)
  have "(mset (map (\<lambda>(_, depth). 65 - depth) stack) + mset (map (\<lambda>_. 64 - depth) x),
      mset (map (\<lambda>(_, depth). 65 - depth) stack) + {#65 - depth#}) \<in> mult less_than"
    using 3(1) by (intro one_step_implies_mult) auto
  then show ?case by (simp add: multiset.map_comp comp_def add.commute)
qed

declare walk.simps(2) [simp del]

text \<open>The names of all variables of a type replaced by \<open>Object\<close>.\<close>

fun erase_to_object :: "type_ref \<Rightarrow> type_ref" where
  "erase_to_object (Variable v) = named OBJECT"
| "erase_to_object (Named i args) = Named i (map erase_to_object args)"
| "erase_to_object (Array e) = Array (erase_to_object e)"
| "erase_to_object t = t"

definition override_key :: "type_env \<Rightarrow> type_ref list \<Rightarrow> type_ref list" where
  "override_key env ps = map (\<lambda>p. erase_to_object (erase (Java_Types.substitute env p))) ps"

type_synonym candidate_acc = "overload list \<times> type_ref list set"

text \<open>The loop over the members of one class; \<open>None\<close> is its early return.\<close>

fun candidate_members :: "string \<Rightarrow> bool \<Rightarrow> type_env \<Rightarrow> external_member list \<Rightarrow> candidate_acc \<Rightarrow> candidate_acc option" where
  "candidate_members name static_only env [] acc = Some acc"
| "candidate_members name static_only env (m # ms) (out, seen_sigs) =
     (if em_name m \<noteq> name \<or> em_kind m \<noteq> MethodKind then candidate_members name static_only env ms (out, seen_sigs)
      else case em_metadata m of
        None \<Rightarrow> None
      | Some meta \<Rightarrow>
          if static_only \<and> \<not> mm_is_static meta then candidate_members name static_only env ms (out, seen_sigs)
          else case parameters meta of
            None \<Rightarrow> None
          | Some ps \<Rightarrow>
              let erased = override_key env ps in
              if erased \<in> seen_sigs then candidate_members name static_only env ms (out, seen_sigs)
              else candidate_members name static_only env ms
                (out @ [\<lparr>ov_meta = meta, ov_env = env, ov_inferred = [], ov_result_display = em_ret_display m,
                         ov_declared_signature = Some (em_signature m)\<rparr>], insert erased seen_sigs))"

definition candidate_class :: "'d sem_ctx \<Rightarrow> string \<Rightarrow> bool \<Rightarrow> type_ref \<Rightarrow> candidate_acc
    \<Rightarrow> overload list option + (type_ref list \<times> candidate_acc)" where
  "candidate_class ctx name static_only ty acc =
     (case ty of
        Named i args \<Rightarrow>
          (case compute_class_facts ctx i of
             None \<Rightarrow> Inl None
           | Some facts \<Rightarrow>
               if \<not> hierarchy_complete (facts_meta facts) then Inl None
               else let env = env_of (cm_type_parameters (facts_meta facts)) args in
                 case candidate_members name static_only env (facts_members facts) acc of
                   None \<Rightarrow> Inl None
                 | Some acc' \<Rightarrow>
                     if fst acc' = [] \<and> as_named i = Some OBJECT \<and> facts_members facts = []
                        \<and> ss_class (ctx_symbols ctx) OBJECT = None
                     then Inl None
                     else Inr (map (Java_Types.substitute env) (supertypes (facts_meta facts)), acc'))
      | _ \<Rightarrow> Inl None)"

definition method_candidates :: "'d sem_ctx \<Rightarrow> type_ref \<Rightarrow> string \<Rightarrow> bool \<Rightarrow> overload list option" where
  "method_candidates ctx recv name static_only =
     (case walk (candidate_class ctx name static_only) [(recv, 0)] {} ([], {}) of
        Inl r \<Rightarrow> r
      | Inr (out, seen_sigs) \<Rightarrow> Some out)"

section \<open>Function types\<close>

datatype function_descriptor = FunctionDescriptor (fd_parameters: "type_ref list") (fd_result: type_ref)

fun ground_target_type :: "type_ref \<Rightarrow> type_ref" where
  "ground_target_type (Named i args) = Named i (map ground_target_type args)"
| "ground_target_type (Array e) = Array (ground_target_type e)"
| "ground_target_type (Wildcard upper (Some lower)) = ground_target_type lower"
| "ground_target_type (Wildcard (Some upper) None) = ground_target_type upper"
| "ground_target_type (Wildcard None None) = named OBJECT"
| "ground_target_type t = t"

definition type_environment :: "type_parameter list \<Rightarrow> type_ref list \<Rightarrow> type_env option" where
  "type_environment ps args =
     (if length ps = length args then Some (env_of ps args)
      else if args \<noteq> [] then None
      else Some (map (\<lambda>p. (tp_id p, case bounds p of b # _ \<Rightarrow> erase b | [] \<Rightarrow> named OBJECT)) ps))"

definition is_object_method :: "string \<Rightarrow> type_ref list \<Rightarrow> bool" where
  "is_object_method name ps \<longleftrightarrow>
     (name \<in> {''hashCode'', ''toString''} \<and> ps = []) \<or> (name = ''equals'' \<and> ps = [Named (NamedId OBJECT) []])"

type_synonym descriptor_acc = "(string \<times> type_ref list) set \<times> function_descriptor list"

fun descriptor_members :: "type_env \<Rightarrow> external_member list \<Rightarrow> descriptor_acc \<Rightarrow> descriptor_acc option" where
  "descriptor_members env [] acc = Some acc"
| "descriptor_members env (m # ms) (seen, found) =
     (if em_kind m \<noteq> MethodKind \<or> em_is_static m then descriptor_members env ms (seen, found)
      else case em_metadata m of
        None \<Rightarrow> None
      | Some meta \<Rightarrow>
          if mm_access meta = Private then descriptor_members env ms (seen, found)
          else case parameters meta of
            None \<Rightarrow> None
          | Some ps \<Rightarrow>
              let ps' = map (\<lambda>p. ground_target_type (Java_Types.substitute env p)) ps;
                  key = (em_name m, map (\<lambda>p. erase_to_object (erase p)) ps')
              in if is_object_method (em_name m) ps' \<or> key \<in> seen then descriptor_members env ms (seen, found)
                 else if \<not> mm_is_abstract meta then descriptor_members env ms (insert key seen, found)
                 else if mm_type_parameters meta \<noteq> [] then None
                 else descriptor_members env ms (insert key seen,
                   found @ [FunctionDescriptor ps' (ground_target_type (Java_Types.substitute env (result meta)))]))"

definition descriptor_class :: "'d sem_ctx \<Rightarrow> type_ref \<Rightarrow> descriptor_acc \<Rightarrow> unit + (type_ref list \<times> descriptor_acc)" where
  "descriptor_class ctx ty acc =
     (case ty of
        Named i args \<Rightarrow>
          (case compute_class_facts ctx i of
             None \<Rightarrow> Inl ()
           | Some facts \<Rightarrow>
               if \<not> hierarchy_complete (facts_meta facts) then Inl ()
               else case type_environment (cm_type_parameters (facts_meta facts)) args of
                 None \<Rightarrow> Inl ()
               | Some env \<Rightarrow>
                   (case descriptor_members env (facts_members facts) acc of
                      None \<Rightarrow> Inl ()
                    | Some acc' \<Rightarrow> Inr (map (Java_Types.substitute env) (supertypes (facts_meta facts)), acc')))
      | _ \<Rightarrow> Inl ())"

definition functional_descriptor :: "'d sem_ctx \<Rightarrow> type_ref \<Rightarrow> function_descriptor option" where
  "functional_descriptor ctx target =
     (case ground_target_type target of
        Named i args \<Rightarrow>
          (case compute_class_facts ctx i of
             None \<Rightarrow> None
           | Some facts \<Rightarrow>
               if cm_kind (facts_meta facts) \<noteq> Interface then None
               else case walk (descriptor_class ctx) [(Named i args, 0)] {} ({}, []) of
                   Inr (seen, [descriptor]) \<Rightarrow> Some descriptor
                 | _ \<Rightarrow> None)
      | _ \<Rightarrow> None)"

section \<open>A type seen as one of its supertypes\<close>

definition supertype_class :: "'d sem_ctx \<Rightarrow> type_id \<Rightarrow> type_ref \<Rightarrow> unit \<Rightarrow> type_ref + (type_ref list \<times> unit)" where
  "supertype_class ctx target ty acc =
     (case ty of
        Named i args \<Rightarrow>
          if i = target then Inl ty
          else (case compute_class_facts ctx i of
             None \<Rightarrow> Inr ([], acc)
           | Some facts \<Rightarrow>
               if \<not> hierarchy_complete (facts_meta facts) then Inr ([], acc)
               else Inr (map (Java_Types.substitute (env_of (cm_type_parameters (facts_meta facts)) args))
                           (supertypes (facts_meta facts)), acc))
      | _ \<Rightarrow> Inr ([], acc))"

definition type_as_supertype :: "'d sem_ctx \<Rightarrow> type_ref \<Rightarrow> type_id \<Rightarrow> type_ref option" where
  "type_as_supertype ctx actual target =
     (case walk (supertype_class ctx target) [(actual, 0)] {} () of Inl ty \<Rightarrow> Some ty | Inr _ \<Rightarrow> None)"

fun has_type_variable :: "type_ref \<Rightarrow> bool" where
  "has_type_variable (Variable v) = True"
| "has_type_variable (Named i args) = list_ex has_type_variable args"
| "has_type_variable (Array e) = has_type_variable e"
| "has_type_variable (Wildcard u l) =
     ((case u of Some t \<Rightarrow> has_type_variable t | None \<Rightarrow> False) \<or> (case l of Some t \<Rightarrow> has_type_variable t | None \<Rightarrow> False))"
| "has_type_variable t = False"

fun renders_concretely :: "type_ref \<Rightarrow> bool" where
  "renders_concretely (Variable v) = False"
| "renders_concretely Unknown = False"
| "renders_concretely (Named i args) = list_all renders_concretely args"
| "renders_concretely (Array e) = renders_concretely e"
| "renders_concretely (Wildcard u l) =
     ((case u of Some t \<Rightarrow> renders_concretely t | None \<Rightarrow> True) \<and> (case l of Some t \<Rightarrow> renders_concretely t | None \<Rightarrow> True))"
| "renders_concretely t = True"

definition member_type_through :: "'d sem_ctx \<Rightarrow> type_ref \<Rightarrow> type_id \<Rightarrow> string \<Rightarrow> member_kind \<Rightarrow> type_ref option" where
  "member_type_through ctx recv declaring name kind =
     (case compute_class_facts ctx declaring of
        None \<Rightarrow> None
      | Some facts \<Rightarrow>
          (case find (\<lambda>m. em_name m = name \<and> em_kind m = kind) (facts_members facts) of
             None \<Rightarrow> None
           | Some m \<Rightarrow>
               (case em_metadata m of
                  None \<Rightarrow> None
                | Some meta \<Rightarrow>
                    if \<not> has_type_variable (result meta) then None
                    else (case type_as_supertype ctx recv declaring of
                       Some (Named _ args) \<Rightarrow>
                         (case type_environment (cm_type_parameters (facts_meta facts)) args of
                            None \<Rightarrow> None
                          | Some env \<Rightarrow>
                              let substituted = Java_Types.substitute env (result meta) in
                              if has_type_variable substituted then None else Some substituted)
                     | _ \<Rightarrow> None))))"

section \<open>Applicability\<close>

text \<open>Invocation conversion: no constant narrowing, and no boxing in the strict phase.\<close>

definition convertible :: "'d sem_ctx \<Rightarrow> nat \<Rightarrow> type_ref \<Rightarrow> type_ref \<Rightarrow> phase \<Rightarrow> verdict option" where
  "convertible ctx n arg param phase =
     (case (arg, param) of
        (Primitive a, Primitive p) \<Rightarrow> Some (Some (a = p \<or> widens_to a p))
      | (Primitive _, _) \<Rightarrow> if phase = Strict then Some (Some False) else assignable_refs ctx n arg param
      | (_, Primitive _) \<Rightarrow> if phase = Strict then Some (Some False) else assignable_refs ctx n arg param
      | _ \<Rightarrow> assignable_refs ctx n arg param)"

text \<open>Over answers that are computed one after the other.\<close>

definition all_proved :: "('a \<Rightarrow> verdict option) \<Rightarrow> 'a list \<Rightarrow> verdict option" where
  "all_proved f xs = all_loop f False xs"

definition arity_excluded :: "overload \<Rightarrow> nat \<Rightarrow> bool" where
  "arity_excluded c n =
     (case parameters (ov_meta c) of
        Some p \<Rightarrow> if is_varargs (ov_meta c) then n + 1 < length p else length p \<noteq> n
      | None \<Rightarrow> False)"

text \<open>
  \<open>judge_arg\<close> judges one argument. The checks of the varargs phase are all made before they are combined; the code
  splits off the last parameter, which panics when there is none.
\<close>

definition applicable_in :: "('a \<Rightarrow> type_ref \<Rightarrow> phase \<Rightarrow> verdict option) \<Rightarrow> overload \<Rightarrow> 'a list \<Rightarrow> phase \<Rightarrow> verdict option" where
  "applicable_in judge_arg c args phase =
     (case declared_params c of
        None \<Rightarrow> Some None
      | Some ps \<Rightarrow>
          if list_ex contains_unknown ps then Some (if arity_excluded c (length args) then Some False else None)
          else if phase \<noteq> Varargs then
            if length ps \<noteq> length args then Some (Some False)
            else all_proved (\<lambda>(p, a). judge_arg a p phase) (zip ps args)
          else
            if \<not> is_varargs (ov_meta c) \<or> length args + 1 < length ps then Some (Some False)
            else if ps = [] then None
            else (case last ps of
                Array element \<Rightarrow>
                  (let fixed = butlast ps in
                   case those (map (\<lambda>(p, a). judge_arg a p Loose) (zip fixed args)
                            @ map (\<lambda>a. judge_arg a element Loose) (drop (length fixed) args)) of
                     None \<Rightarrow> None
                   | Some checks \<Rightarrow> all_proved Some checks)
              | _ \<Rightarrow> Some None))"

section \<open>The most specific candidate\<close>

text \<open>Candidates are compared by identity, so an applicable one comes with its position.\<close>

type_synonym positioned = "nat \<times> overload"

definition params_or_empty :: "overload \<Rightarrow> type_ref list" where
  "params_or_empty c = (case declared_params c of Some ps \<Rightarrow> ps | None \<Rightarrow> [])"

datatype duel_outcome = Dominates | Beaten | Incomparable_Arity

fun duel :: "'d sem_ctx \<Rightarrow> nat \<Rightarrow> positioned \<Rightarrow> positioned list \<Rightarrow> duel_outcome option" where
  "duel ctx n m1 [] = Some Dominates"
| "duel ctx n m1 (m2 # set2) =
     (if fst m1 = fst m2 then duel ctx n m1 set2
      else let p1 = params_or_empty (snd m1); p2 = params_or_empty (snd m2) in
        if length p1 \<noteq> length p2 then Some Incomparable_Arity
        else case all_proved (\<lambda>(a, b). assignable_refs ctx n a b) (zip p1 p2) of
            None \<Rightarrow> None
          | Some (Some True) \<Rightarrow> duel ctx n m1 set2
          | Some _ \<Rightarrow> Some Beaten)"

fun winner_loop :: "'d sem_ctx \<Rightarrow> nat \<Rightarrow> positioned list \<Rightarrow> positioned list \<Rightarrow> positioned option \<Rightarrow> positioned option option" where
  "winner_loop ctx n all_of_them [] best = Some best"
| "winner_loop ctx n all_of_them (m1 # ms) best =
     (case duel ctx n m1 all_of_them of
        None \<Rightarrow> None
      | Some Incomparable_Arity \<Rightarrow> Some None
      | Some Beaten \<Rightarrow> winner_loop ctx n all_of_them ms best
      | Some Dominates \<Rightarrow> if best \<noteq> None then Some None else winner_loop ctx n all_of_them ms (Some m1))"

definition subtyping_winner :: "'d sem_ctx \<Rightarrow> nat \<Rightarrow> positioned list \<Rightarrow> positioned option option" where
  "subtyping_winner ctx n candidates = winner_loop ctx n candidates candidates None"

definition result_is_void :: "'d sem_ctx \<Rightarrow> nat \<Rightarrow> overload \<Rightarrow> bool option" where
  "result_is_void ctx index c =
     (case parameters (ov_meta c) of
        None \<Rightarrow> None
      | Some ps \<Rightarrow>
          if index < length ps then
            map_option (\<lambda>d. fd_result d = Void) (functional_descriptor ctx (Java_Types.substitute (ov_env c) (ps ! index)))
          else None)"

fun narrow_by_lambda_result :: "'d sem_ctx \<Rightarrow> nat \<Rightarrow> argument list \<Rightarrow> positioned list \<Rightarrow> positioned list" where
  "narrow_by_lambda_result ctx index [] kept = kept"
| "narrow_by_lambda_result ctx index (arg # args) kept =
     narrow_by_lambda_result ctx (index + 1) args
       (case arg of
          LambdaArg lambda \<Rightarrow>
            if lam_shape lambda \<in> {Either, ValueOnly} then
              let value_returning = filter (\<lambda>c. result_is_void ctx index (snd c) = Some False) kept;
                  void_returning = length (filter (\<lambda>c. result_is_void ctx index (snd c) = Some True) kept)
              in if value_returning \<noteq> [] \<and> length value_returning + void_returning = length kept
                 then value_returning else kept
            else kept
        | _ \<Rightarrow> kept)"

definition arity :: "overload \<Rightarrow> nat" where
  "arity c = (case parameters (ov_meta c) of Some p \<Rightarrow> length p | None \<Rightarrow> 0)"

definition takes_variable :: "nat \<Rightarrow> overload \<Rightarrow> bool" where
  "takes_variable index c =
     (case parameters (ov_meta c) of
        Some ps \<Rightarrow> index < length ps \<and> (case ps ! index of Variable v \<Rightarrow> v \<in> set (ov_inferred c) | _ \<Rightarrow> False)
      | None \<Rightarrow> False)"

definition narrow_at :: "nat \<Rightarrow> positioned list \<Rightarrow> positioned list" where
  "narrow_at index kept =
     (let generic = filter (\<lambda>c. takes_variable index (snd c)) kept in
      if generic \<noteq> [] \<and> length generic < length kept then generic else kept)"

definition narrow_by_inference_variables :: "positioned list \<Rightarrow> positioned list" where
  "narrow_by_inference_variables applicable =
     (let first = arity (snd (hd applicable)) in
      if list_ex (\<lambda>c. arity (snd c) \<noteq> first) applicable then applicable
      else fold narrow_at [0..<first] applicable)"

text \<open>A set that was narrowed: its only candidate, or the winner among the rest.\<close>

definition decide_narrowed :: "'d sem_ctx \<Rightarrow> nat \<Rightarrow> positioned list \<Rightarrow> positioned option option" where
  "decide_narrowed ctx n narrowed = (if length narrowed = 1 then Some (Some (hd narrowed)) else subtyping_winner ctx n narrowed)"

definition most_specific :: "'d sem_ctx \<Rightarrow> nat \<Rightarrow> argument list \<Rightarrow> positioned list \<Rightarrow> positioned option option" where
  "most_specific ctx n args applicable =
     (if length applicable = 1 then Some (Some (hd applicable))
      else case subtyping_winner ctx n applicable of
          None \<Rightarrow> None
        | Some (Some best) \<Rightarrow> Some (Some best)
        | Some None \<Rightarrow>
            (let narrowed = narrow_by_lambda_result ctx 0 args applicable in
             if length narrowed < length applicable then decide_narrowed ctx n narrowed
             else let by_variable = narrow_by_inference_variables applicable in
               if length by_variable < length applicable then decide_narrowed ctx n by_variable
               else Some None))"

section \<open>Selection\<close>

datatype selection = Selected overload phase | NoApplicable nat | Ambiguous | UnknownSelection

text \<open>The loop over the candidates of a phase: the applicable ones, and whether one could not be decided.\<close>

fun applicable_loop :: "(overload \<Rightarrow> verdict option) \<Rightarrow> positioned list \<Rightarrow> (positioned list \<times> bool) option" where
  "applicable_loop judge [] = Some ([], False)"
| "applicable_loop judge (c # cs) =
     (case judge (snd c) of
        None \<Rightarrow> None
      | Some verdict \<Rightarrow>
          (case applicable_loop judge cs of
             None \<Rightarrow> None
           | Some (applicable, unknown) \<Rightarrow>
               Some (case verdict of
                   Some True \<Rightarrow> (c # applicable, unknown)
                 | Some False \<Rightarrow> (applicable, unknown)
                 | None \<Rightarrow> (applicable, True))))"

fun phase_loop :: "(overload \<Rightarrow> phase \<Rightarrow> verdict option) \<Rightarrow> (positioned list \<Rightarrow> positioned option option)
    \<Rightarrow> positioned list \<Rightarrow> phase list \<Rightarrow> selection option" where
  "phase_loop judge pick candidates [] = Some (NoApplicable (length candidates))"
| "phase_loop judge pick candidates (phase # phases) =
     (case applicable_loop (\<lambda>c. judge c phase) candidates of
        None \<Rightarrow> None
      | Some (applicable, unknown) \<Rightarrow>
          if unknown then Some UnknownSelection
          else if applicable = [] then phase_loop judge pick candidates phases
          else (case pick applicable of
                  None \<Rightarrow> None
                | Some (Some c) \<Rightarrow> Some (Selected (snd c) phase)
                | Some None \<Rightarrow> Some Ambiguous))"

definition select_with :: "('a \<Rightarrow> type_ref \<Rightarrow> phase \<Rightarrow> verdict option) \<Rightarrow> (positioned list \<Rightarrow> positioned option option)
    \<Rightarrow> overload list \<Rightarrow> 'a list \<Rightarrow> selection option" where
  "select_with judge_arg pick candidates args =
     (if candidates = [] then Some UnknownSelection
      else phase_loop (\<lambda>c phase. applicable_in judge_arg c args phase) pick (enumerate 0 candidates) [Strict, Loose, Varargs])"

section \<open>Lambdas and method references\<close>

definition shape_fits :: "body_shape \<Rightarrow> type_ref \<Rightarrow> bool" where
  "shape_fits shape res =
     (case shape of UnknownShape \<Rightarrow> True | Either \<Rightarrow> True | VoidOnly \<Rightarrow> res = Void | ValueOnly \<Rightarrow> res \<noteq> Void)"

definition declared_check :: "'d sem_ctx \<Rightarrow> nat \<Rightarrow> type_ref \<Rightarrow> type_ref \<Rightarrow> verdict option" where
  "declared_check ctx n declared target =
     (if declared = target then Some (Some True)
      else case those [assignable_refs ctx n declared target, assignable_refs ctx n target declared] of
          None \<Rightarrow> None
        | Some checks \<Rightarrow> all_proved Some checks)"

definition lambda_compatible :: "'d sem_ctx \<Rightarrow> nat \<Rightarrow> lambda_info \<Rightarrow> type_ref \<Rightarrow> verdict option" where
  "lambda_compatible ctx n lambda target =
     (case functional_descriptor ctx target of
        None \<Rightarrow> Some None
      | Some descriptor \<Rightarrow>
          if length (lam_parameters lambda) \<noteq> length (fd_parameters descriptor) then Some (Some False)
          else if \<not> shape_fits (lam_shape lambda) (fd_result descriptor) then Some (Some False)
          else case those (map (\<lambda>(d, t). declared_check ctx n (the d) t)
                     (filter (\<lambda>(d, t). d \<noteq> None) (zip (lam_parameters lambda) (fd_parameters descriptor)))) of
              None \<Rightarrow> None
            | Some checks \<Rightarrow> all_proved Some checks)"

definition reference_result_compatible :: "'d sem_ctx \<Rightarrow> nat \<Rightarrow> type_ref \<Rightarrow> type_ref \<Rightarrow> verdict option" where
  "reference_result_compatible ctx n actual expected =
     (if expected = Void then Some (Some True)
      else if actual = Void then Some (Some False)
      else case expected of
          Variable _ \<Rightarrow> Some (Some True)
        | Unknown \<Rightarrow> Some (Some True)
        | _ \<Rightarrow> convertible ctx n actual expected Loose)"

record reference_resolution =
  rr_name :: string
  rr_parameters :: "type_ref list"
  rr_result :: type_ref
  rr_result_display :: "string option"
  rr_constructor :: bool

definition resolved_reference :: "overload \<Rightarrow> string \<Rightarrow> type_ref \<Rightarrow> bool \<Rightarrow> reference_resolution option" where
  "resolved_reference c name res constructor =
     map_option (\<lambda>ps. \<lparr>rr_name = name, rr_parameters = ps, rr_result = res, rr_result_display = ov_result_display c,
                       rr_constructor = constructor\<rparr>) (declared_params c)"

datatype reference_mode = Proof | Display

definition selected_parameter :: "overload \<Rightarrow> phase \<Rightarrow> nat \<Rightarrow> type_ref option" where
  "selected_parameter c phase index =
     (case declared_params c of
        None \<Rightarrow> None
      | Some ps \<Rightarrow>
          if phase = Varargs \<and> length ps - 1 \<le> index
          then (if ps = [] then None else case last ps of Array element \<Rightarrow> Some element | _ \<Rightarrow> None)
          else if index < length ps then Some (ps ! index) else None)"

definition relax :: "overload \<Rightarrow> phase \<Rightarrow> type_ref list \<Rightarrow> type_ref list" where
  "relax c phase args =
     map (\<lambda>(index, value). if contains_unknown value
            then (case selected_parameter c phase index of Some p \<Rightarrow> p | None \<Rightarrow> value) else value) (enumerate 0 args)"

definition value_select :: "'d sem_ctx \<Rightarrow> nat \<Rightarrow> overload list \<Rightarrow> type_ref list \<Rightarrow> selection option" where
  "value_select ctx n candidates args = select_with (convertible ctx n) (most_specific ctx n []) candidates args"

definition constructor_overloads :: "class_facts \<Rightarrow> (member_metadata \<Rightarrow> type_env) \<Rightarrow> type_variable_id list \<Rightarrow> overload list" where
  "constructor_overloads facts env inferred =
     map (\<lambda>meta. \<lparr>ov_meta = meta, ov_env = env meta, ov_inferred = inferred, ov_result_display = None, ov_declared_signature = None\<rparr>)
       (List.map_filter em_metadata (filter (\<lambda>m. em_kind m = ConstructorKind) (facts_members facts)))"

text \<open>The last segment of a class name, \<open>rsplit(['.', '$'])\<close>.\<close>

definition last_segment :: "string \<Rightarrow> string" where
  "last_segment fqn = rev (takeWhile (\<lambda>c. c \<noteq> CHR ''.'' \<and> c \<noteq> CHR ''$'') (rev fqn))"

definition new_reference :: "'d sem_ctx \<Rightarrow> nat \<Rightarrow> reference_mode \<Rightarrow> type_ref \<Rightarrow> bool \<Rightarrow> function_descriptor
    \<Rightarrow> reference_resolution option option" where
  "new_reference ctx n mode receiver static_only descriptor =
     (case receiver of
        Named i args \<Rightarrow>
          if \<not> static_only then Some None
          else (case compute_class_facts ctx i of
             None \<Rightarrow> Some None
           | Some facts \<Rightarrow>
               if \<not> constructors_complete (facts_meta facts) then Some None
               else (case type_environment (cm_type_parameters (facts_meta facts)) args of
                  None \<Rightarrow> Some None
                | Some env \<Rightarrow>
                    let candidates = constructor_overloads facts (\<lambda>_. env) [] in
                    (case value_select ctx n candidates (fd_parameters descriptor) of
                       None \<Rightarrow> None
                     | Some selection \<Rightarrow>
                         (case (case selection of
                                  Selected c _ \<Rightarrow> Some c
                                | _ \<Rightarrow> if mode = Display \<and> length candidates = 1 then Some (hd candidates) else None) of
                            None \<Rightarrow> Some None
                          | Some c \<Rightarrow>
                              (case reference_result_compatible ctx n receiver (fd_result descriptor) of
                                 None \<Rightarrow> None
                               | Some fits \<Rightarrow>
                                   if fits = Some True \<or> (fits = None \<and> mode = Display)
                                   then Some (case as_named i of
                                       None \<Rightarrow> None
                                     | Some fqn \<Rightarrow> resolved_reference c (last_segment fqn) receiver True)
                                   else Some None)))))
      | _ \<Rightarrow> Some None)"

text \<open>
  The arguments a candidate of a method reference is judged with: \<open>Inl\<close> when it is out, with the unknown flag
  when that is not proved.
\<close>

definition reference_args :: "'d sem_ctx \<Rightarrow> nat \<Rightarrow> type_ref \<Rightarrow> bool \<Rightarrow> type_ref list \<Rightarrow> overload \<Rightarrow> (verdict + type_ref list) option" where
  "reference_args ctx n receiver static_only descriptor_args c =
     (if static_only \<and> \<not> mm_is_static (ov_meta c) then
        (case descriptor_args of
           [] \<Rightarrow> Some (Inl (Some False))
         | receiver_arg # remaining \<Rightarrow>
             (case convertible ctx n receiver_arg receiver Strict of
                None \<Rightarrow> None
              | Some (Some True) \<Rightarrow> Some (Inr remaining)
              | Some verdict \<Rightarrow> Some (Inl verdict)))
      else if static_only = mm_is_static (ov_meta c) then Some (Inr descriptor_args)
      else Some (Inl (Some False)))"

definition reference_judge :: "'d sem_ctx \<Rightarrow> nat \<Rightarrow> reference_mode \<Rightarrow> type_ref \<Rightarrow> bool \<Rightarrow> function_descriptor \<Rightarrow> overload \<Rightarrow> phase
    \<Rightarrow> verdict option" where
  "reference_judge ctx n mode receiver static_only descriptor c phase =
     (case reference_args ctx n receiver static_only (fd_parameters descriptor) c of
        None \<Rightarrow> None
      | Some (Inl verdict) \<Rightarrow> Some verdict
      | Some (Inr args) \<Rightarrow>
          (let call_args = if mode = Display \<and> list_ex contains_unknown args then relax c phase args else args in
           case applicable_in (convertible ctx n) c call_args phase of
             Some (Some True) \<Rightarrow>
               reference_result_compatible ctx n (Java_Types.substitute (ov_env c) (result (ov_meta c))) (fd_result descriptor)
           | answer \<Rightarrow> answer))"

definition method_reference_resolution :: "'d sem_ctx \<Rightarrow> nat \<Rightarrow> reference_mode \<Rightarrow> reference_info \<Rightarrow> type_ref
    \<Rightarrow> reference_resolution option option" where
  "method_reference_resolution ctx n mode reference target =
     (case functional_descriptor ctx target of
        None \<Rightarrow> Some None
      | Some descriptor \<Rightarrow>
          (case ref_qualifier reference of
             None \<Rightarrow> Some None
           | Some (receiver, static_only) \<Rightarrow>
               if ref_is_new reference then new_reference ctx n mode receiver static_only descriptor
               else (case ref_name reference of
                  None \<Rightarrow> Some None
                | Some name \<Rightarrow>
                    (case method_candidates ctx receiver name False of
                       None \<Rightarrow> Some None
                     | Some candidates \<Rightarrow>
                         (case phase_loop (reference_judge ctx n mode receiver static_only descriptor)
                                 (most_specific ctx n []) (enumerate 0 candidates) [Strict, Loose, Varargs] of
                            None \<Rightarrow> None
                          | Some (Selected c _) \<Rightarrow>
                              Some (resolved_reference c name (Java_Types.substitute (ov_env c) (result (ov_meta c))) False)
                          | Some _ \<Rightarrow> Some None)))))"

definition argument_compatible :: "'d sem_ctx \<Rightarrow> nat \<Rightarrow> argument \<Rightarrow> type_ref \<Rightarrow> phase \<Rightarrow> verdict option" where
  "argument_compatible ctx n argument parameter phase =
     (case argument of
        ValueArg value \<Rightarrow> convertible ctx n value parameter phase
      | LambdaArg lambda \<Rightarrow> lambda_compatible ctx n lambda parameter
      | ReferenceArg reference \<Rightarrow>
          map_option (map_option (\<lambda>_. True)) (method_reference_resolution ctx n Proof reference parameter))"

definition select_candidate :: "'d sem_ctx \<Rightarrow> nat \<Rightarrow> overload list \<Rightarrow> argument list \<Rightarrow> selection option" where
  "select_candidate ctx n candidates args =
     select_with (argument_compatible ctx n) (most_specific ctx n args) candidates args"

datatype call_resolution =
    SelectedCall type_ref type_id access
  | NoApplicableCall nat
  | AmbiguousCall
  | UnknownCall

fun to_resolution :: "selection \<Rightarrow> call_resolution" where
  "to_resolution (Selected c _) =
     SelectedCall (Java_Types.substitute (ov_env c) (result (ov_meta c))) (declaring_class (ov_meta c)) (mm_access (ov_meta c))"
| "to_resolution (NoApplicable k) = NoApplicableCall k"
| "to_resolution Ambiguous = AmbiguousCall"
| "to_resolution UnknownSelection = UnknownCall"

definition select :: "'d sem_ctx \<Rightarrow> nat \<Rightarrow> overload list \<Rightarrow> argument list \<Rightarrow> call_resolution option" where
  "select ctx n candidates args = map_option to_resolution (select_candidate ctx n candidates args)"

section \<open>Selection is exact\<close>

lemma applicable_loop_spec:
  "applicable_loop judge cs = Some (applicable, unknown) \<Longrightarrow>
     applicable = filter (\<lambda>c. judge (snd c) = Some (Some True)) cs
     \<and> unknown = (\<exists>c \<in> set cs. judge (snd c) = Some None) \<and> (\<forall>c \<in> set cs. judge (snd c) \<noteq> None)"
  by (induction cs arbitrary: applicable unknown) (auto split: option.splits bool.splits prod.splits)

text \<open>A pick is sound when it picks from the list, and picks the only candidate of a list of one.\<close>

definition sound_pick :: "(positioned list \<Rightarrow> positioned option option) \<Rightarrow> bool" where
  "sound_pick pick \<longleftrightarrow>
     (\<forall>xs x. xs \<noteq> [] \<longrightarrow> pick xs = Some (Some x) \<longrightarrow> x \<in> set xs) \<and> (\<forall>x. pick [x] = Some (Some x))"

fun outcome_ok :: "(overload \<Rightarrow> phase \<Rightarrow> verdict option) \<Rightarrow> overload list \<Rightarrow> phase list \<Rightarrow> selection \<Rightarrow> bool" where
  "outcome_ok judge cs phases (Selected c ph) =
     (\<exists>before after. phases = before @ ph # after
        \<and> (\<forall>d \<in> set cs. (\<forall>q \<in> set before. judge d q = Some (Some False)) \<and> (\<exists>b. judge d ph = Some (Some b)))
        \<and> c \<in> set cs \<and> judge c ph = Some (Some True))"
| "outcome_ok judge cs phases (NoApplicable k) =
     (k = length cs \<and> (\<forall>d \<in> set cs. \<forall>q \<in> set phases. judge d q = Some (Some False)))"
| "outcome_ok judge cs phases Ambiguous =
     (\<exists>before ph after. phases = before @ ph # after
        \<and> (\<forall>d \<in> set cs. (\<forall>q \<in> set before. judge d q = Some (Some False)) \<and> (\<exists>b. judge d ph = Some (Some b)))
        \<and> 2 \<le> length (filter (\<lambda>c. judge c ph = Some (Some True)) cs))"
| "outcome_ok judge cs phases UnknownSelection =
     (\<exists>before ph after. phases = before @ ph # after
        \<and> (\<forall>d \<in> set cs. \<forall>q \<in> set before. judge d q = Some (Some False)) \<and> (\<exists>d \<in> set cs. judge d ph = Some None))"

lemma outcome_ok_Cons:
  assumes "outcome_ok judge cs phases s" "\<forall>d \<in> set cs. judge d ph = Some (Some False)"
  shows "outcome_ok judge cs (ph # phases) s"
proof (cases s)
  case (Selected c q)
  then obtain before after where "phases = before @ q # after"
    "\<forall>d \<in> set cs. (\<forall>q \<in> set before. judge d q = Some (Some False)) \<and> (\<exists>b. judge d q = Some (Some b))"
    "c \<in> set cs" "judge c q = Some (Some True)" using assms(1) by auto
  then show ?thesis using assms(2) unfolding Selected outcome_ok.simps
    by (intro exI [of _ "ph # before"] exI [of _ after]) simp
next
  case Ambiguous
  then obtain before q after where "phases = before @ q # after"
    "\<forall>d \<in> set cs. (\<forall>q \<in> set before. judge d q = Some (Some False)) \<and> (\<exists>b. judge d q = Some (Some b))"
    "2 \<le> length (filter (\<lambda>c. judge c q = Some (Some True)) cs)" using assms(1) by auto
  then show ?thesis using assms(2) unfolding Ambiguous outcome_ok.simps
    by (intro exI [of _ "ph # before"] exI [of _ q] exI [of _ after]) simp
next
  case UnknownSelection
  then obtain before q after where "phases = before @ q # after"
    "\<forall>d \<in> set cs. \<forall>q \<in> set before. judge d q = Some (Some False)" "\<exists>d \<in> set cs. judge d q = Some None"
    using assms(1) by auto
  then show ?thesis using assms(2) unfolding UnknownSelection outcome_ok.simps
    by (intro exI [of _ "ph # before"] exI [of _ q] exI [of _ after]) simp
qed (use assms in auto)

lemma length_filter_enumerate: "length (filter (\<lambda>c. P (snd c)) (enumerate k cs)) = length (filter P cs)"
  by (induction cs arbitrary: k) auto

lemma snd_enumerate: "snd ` set (enumerate k cs) = set cs"
  by (induction cs arbitrary: k) auto

lemma phase_loop_ok:
  assumes pick: "sound_pick pick"
  shows "phase_loop judge pick (enumerate k cs) phases = Some s \<Longrightarrow> outcome_ok judge cs phases s"
proof (induction phases)
  case Nil
  then show ?case by auto
next
  case (Cons ph phases)
  obtain applicable unknown where loop: "applicable_loop (\<lambda>c. judge c ph) (enumerate k cs) = Some (applicable, unknown)"
    using Cons.prems by (auto split: option.splits)
  have app: "applicable = filter (\<lambda>c. judge (snd c) ph = Some (Some True)) (enumerate k cs)"
    and unk: "unknown = (\<exists>d \<in> set cs. judge d ph = Some None)" and dec: "\<forall>d \<in> set cs. judge d ph \<noteq> None"
    using applicable_loop_spec [OF loop] snd_enumerate [of k cs] by (auto simp: image_iff) (metis (no_types, lifting) imageE image_eqI)+
  have num: "length applicable = length (filter (\<lambda>d. judge d ph = Some (Some True)) cs)"
    unfolding app by (rule length_filter_enumerate)
  consider "unknown" | "\<not> unknown" "applicable = []" | x where "\<not> unknown" "applicable \<noteq> []" "pick applicable = Some (Some x)" "s = Selected (snd x) ph"
    | "\<not> unknown" "applicable \<noteq> []" "pick applicable = Some None" "s = Ambiguous"
    using Cons.prems loop by (auto split: if_splits option.splits)
  then show ?case
  proof cases
    case 1
    then have s: "s = UnknownSelection" using Cons.prems loop by simp
    then show ?thesis using 1 unk unfolding s outcome_ok.simps by (intro exI [of _ "[]"]) auto
  next
    case 2
    then have "\<forall>d \<in> set cs. judge d ph = Some (Some False)"
      using dec unk num by (metis (mono_tags, lifting) filter_empty_conv length_0_conv option.collapse)
    moreover have "outcome_ok judge cs phases s" using Cons 2 loop by simp
    ultimately show ?thesis by (rule outcome_ok_Cons [rotated])
  next
    case (3 x)
    then have "x \<in> set applicable" using pick unfolding sound_pick_def by blast
    then have "judge (snd x) ph = Some (Some True)" "snd x \<in> set cs" using app snd_enumerate [of k cs] by auto
    moreover have "\<forall>d \<in> set cs. \<exists>b. judge d ph = Some (Some b)" using dec unk 3(1) by (metis option.collapse)
    ultimately show ?thesis unfolding 3(4) outcome_ok.simps by (intro exI [of _ "[]"] exI [of _ phases]) simp
  next
    case 4
    have "length applicable \<noteq> 1" using 4 pick unfolding sound_pick_def by (auto simp: length_Suc_conv)
    moreover have "length applicable \<noteq> 0" using 4(2) by simp
    ultimately have "2 \<le> length (filter (\<lambda>d. judge d ph = Some (Some True)) cs)" using num by linarith
    moreover have "\<forall>d \<in> set cs. \<exists>b. judge d ph = Some (Some b)" using dec unk 4(1) by (metis option.collapse)
    ultimately show ?thesis unfolding 4(4) outcome_ok.simps by (intro exI [of _ "[]"]) auto
  qed
qed

section \<open>The winner\<close>

definition beats :: "'d sem_ctx \<Rightarrow> nat \<Rightarrow> overload \<Rightarrow> overload \<Rightarrow> bool" where
  "beats ctx n m1 m2 \<longleftrightarrow> length (params_or_empty m1) = length (params_or_empty m2)
     \<and> list_all (\<lambda>(a, b). assignable_refs ctx n a b = Some (Some True)) (zip (params_or_empty m1) (params_or_empty m2))"

lemma all_proved_True: "all_proved f xs = Some (Some True) \<longleftrightarrow> list_all (\<lambda>x. f x = Some (Some True)) xs"
proof
  assume "list_all (\<lambda>x. f x = Some (Some True)) xs"
  then show "all_proved f xs = Some (Some True)" unfolding all_proved_def by (induction xs) auto
qed (auto simp: all_proved_def list_all_iff dest: all_loop_True)

lemma beats_proved:
  "beats ctx n m1 m2 \<longleftrightarrow> length (params_or_empty m1) = length (params_or_empty m2)
     \<and> all_proved (\<lambda>(a, b). assignable_refs ctx n a b) (zip (params_or_empty m1) (params_or_empty m2)) = Some (Some True)"
  by (simp add: beats_def all_proved_True case_prod_unfold)

lemma duel_Dominates:
  "duel ctx n m1 cs = Some Dominates \<Longrightarrow> m2 \<in> set cs \<Longrightarrow> fst m1 \<noteq> fst m2 \<Longrightarrow> beats ctx n (snd m1) (snd m2)"
  by (induction cs)
    (auto simp: beats_proved Let_def split: if_splits option.splits bool.splits)

lemma duel_Beaten: "duel ctx n m1 cs = Some Beaten \<Longrightarrow> \<exists>m2 \<in> set cs. fst m1 \<noteq> fst m2 \<and> \<not> beats ctx n (snd m1) (snd m2)"
  by (induction cs)
    (auto simp: beats_proved Let_def split: if_splits option.splits bool.splits)

lemma duel_arity: "duel ctx n m1 cs = Some Incomparable_Arity \<Longrightarrow>
    \<exists>m2 \<in> set cs. fst m1 \<noteq> fst m2 \<and> length (params_or_empty (snd m1)) \<noteq> length (params_or_empty (snd m2))"
  by (induction cs) (auto simp: Let_def split: if_splits option.splits bool.splits)

text \<open>The candidates at least as specific as all the others.\<close>

definition dominating :: "'d sem_ctx \<Rightarrow> nat \<Rightarrow> positioned list \<Rightarrow> positioned \<Rightarrow> bool" where
  "dominating ctx n cs m1 \<longleftrightarrow> (\<forall>m2 \<in> set cs. fst m1 \<noteq> fst m2 \<longrightarrow> beats ctx n (snd m1) (snd m2))"

lemma winner_loop_spec:
  assumes "winner_loop ctx n cs ms best = Some w"
    and "\<And>a b. a \<in> set cs \<Longrightarrow> b \<in> set cs \<Longrightarrow> length (params_or_empty (snd a)) = length (params_or_empty (snd b))"
    and "set ms \<subseteq> set cs"
  shows "w = (case (case best of None \<Rightarrow> [] | Some b \<Rightarrow> [b]) @ filter (dominating ctx n cs) ms of [m] \<Rightarrow> Some m | _ \<Rightarrow> None)"
  using assms
proof (induction ms arbitrary: best)
  case Nil
  then show ?case by (auto split: option.splits)
next
  case (Cons m ms)
  have arity: "duel ctx n m cs \<noteq> Some Incomparable_Arity"
  proof
    assume "duel ctx n m cs = Some Incomparable_Arity"
    from duel_arity [OF this] show False using Cons.prems(2,3) by (metis list.set_intros(1) subsetD)
  qed
  have ih: "winner_loop ctx n cs ms b = Some w
      \<Longrightarrow> w = (case (case b of None \<Rightarrow> [] | Some b \<Rightarrow> [b]) @ filter (dominating ctx n cs) ms of [m] \<Rightarrow> Some m | _ \<Rightarrow> None)" for b
    by (rule Cons.IH [OF _ Cons.prems(2)]) (use Cons.prems(3) in auto)
  show ?case
  proof (cases "duel ctx n m cs")
    case None
    then show ?thesis using Cons.prems(1) by simp
  next
    case (Some d)
    show ?thesis
    proof (cases d)
      case Dominates
      then have dom: "dominating ctx n cs m" using duel_Dominates Some unfolding dominating_def by blast
      show ?thesis
      proof (cases best)
        case None
        then show ?thesis using ih [of "Some m"] Cons.prems(1) Some Dominates dom by simp
      next
        case best: (Some b)
        then show ?thesis using Cons.prems(1) Some Dominates dom by simp
      qed
    next
      case Beaten
      then have "\<not> dominating ctx n cs m" using duel_Beaten Some unfolding dominating_def by blast
      then show ?thesis using ih [of best] Cons.prems(1) Some Beaten by simp
    qed (use arity Some in simp)
  qed
qed

lemma subtyping_winner_spec:
  assumes "subtyping_winner ctx n cs = Some w"
    and "\<And>a b. a \<in> set cs \<Longrightarrow> b \<in> set cs \<Longrightarrow> length (params_or_empty (snd a)) = length (params_or_empty (snd b))"
  shows "w = (case filter (dominating ctx n cs) cs of [m] \<Rightarrow> Some m | _ \<Rightarrow> None)"
  using winner_loop_spec [OF assms(1) [unfolded subtyping_winner_def] assms(2)] by simp

lemma winner_in: "winner_loop ctx n cs ms best = Some (Some x) \<Longrightarrow> best = Some x \<or> x \<in> set ms"
  by (induction ms arbitrary: best) (auto split: option.splits duel_outcome.splits if_splits)

lemma narrow_lambda_subset: "set (narrow_by_lambda_result ctx i args kept) \<subseteq> set kept"
proof (induction args arbitrary: i kept)
  case (Cons arg args)
  show ?case
    unfolding narrow_by_lambda_result.simps by (rule subset_trans [OF Cons]) (auto simp: Let_def split: argument.splits)
qed simp

lemma narrow_variables_subset: "set (narrow_by_inference_variables kept) \<subseteq> set kept"
proof -
  have "set (fold narrow_at is kept) \<subseteq> set kept" for "is"
  proof (induction "is" arbitrary: kept)
    case (Cons i "is")
    have "set (narrow_at i kept) \<subseteq> set kept" by (auto simp: narrow_at_def Let_def)
    then show ?case using Cons [of "narrow_at i kept"] by (simp add: subset_trans)
  qed simp
  then show ?thesis by (simp add: narrow_by_inference_variables_def Let_def)
qed

lemma decide_in: "decide_narrowed ctx n xs = Some (Some x) \<Longrightarrow> x \<in> set xs"
  by (auto simp: decide_narrowed_def subtyping_winner_def length_Suc_conv split: if_splits dest: winner_in)

lemma most_specific_sound: "sound_pick (most_specific ctx n args)"
proof -
  have "x \<in> set xs" if ms: "most_specific ctx n args xs = Some (Some x)" and "xs \<noteq> []" for xs x
  proof (cases "length xs = 1")
    case True
    then show ?thesis using ms by (auto simp: most_specific_def length_Suc_conv)
  next
    case False
    show ?thesis
      using ms False narrow_lambda_subset [of ctx 0 args xs] narrow_variables_subset [of xs]
      by (auto simp: most_specific_def subtyping_winner_def Let_def split: option.splits if_splits dest!: decide_in winner_in)
  qed
  then show ?thesis by (simp add: sound_pick_def most_specific_def)
qed

section \<open>Resolved calls in the world\<close>

text \<open>What it means that a candidate can be invoked with values of given types (JLS 15.12.2.2 to 15.12.2.4).\<close>

definition invocable_fixed :: "world \<Rightarrow> type_ref list \<Rightarrow> type_ref list \<Rightarrow> bool" where
  "invocable_fixed w args ps \<longleftrightarrow> list_all2 (assigns w) args ps"

definition invocable_varargs :: "world \<Rightarrow> type_ref list \<Rightarrow> type_ref list \<Rightarrow> bool" where
  "invocable_varargs w args ps \<longleftrightarrow>
     (\<exists>fixed element. ps = fixed @ [Array element] \<and> length fixed \<le> length args
        \<and> list_all2 (assigns w) (take (length fixed) args) fixed
        \<and> list_all (\<lambda>a. assigns w a element) (drop (length fixed) args))"

definition invocable :: "world \<Rightarrow> type_ref list \<Rightarrow> overload \<Rightarrow> bool" where
  "invocable w args c \<longleftrightarrow>
     (\<exists>ps. declared_params c = Some ps \<and> (invocable_fixed w args ps \<or> (is_varargs (ov_meta c) \<and> invocable_varargs w args ps)))"

lemma convertible_True:
  assumes "view_of ctx w" "convertible ctx n a p ph = Some (Some True)" "clean p" "lower_free p"
  shows "assigns w a p"
proof (cases "\<exists>x y. a = Primitive x \<and> p = Primitive y")
  case True
  then show ?thesis using assms(2) by (auto simp: convertible_def less_eq_primitive_type_def intro: primitive)
next
  case False
  have "assignable_refs ctx n a p = Some (Some True)"
    using assms(2) False by (cases a; cases p) (auto simp: convertible_def split: if_splits)
  then show ?thesis using provesD [OF assignable_proves [OF assms(1)]] assms(3,4) by simp
qed

lemma convertible_False:
  assumes "world_ok w" "view_of ctx w" "convertible ctx n a p Loose = Some (Some False)" "clean a" "clean p"
  shows "\<not> assigns w a p"
proof (cases "\<exists>x y. a = Primitive x \<and> p = Primitive y")
  case True
  then show ?thesis using assms(3) by (auto simp: convertible_def less_eq_primitive_type_def elim: assigns_primitiveE)
next
  case False
  have "assignable_refs ctx n a p = Some (Some False)"
    using assms(3) False by (cases a; cases p) (auto simp: convertible_def)
  then show ?thesis using refutesD [OF assignable_refutes [OF assms(1,2)]] assms(4,5) by simp
qed

lemma those_Some: "those xs = Some ys \<longleftrightarrow> xs = map Some ys"
  by (induction xs arbitrary: ys) (auto simp: map_eq_Cons_conv split: option.splits)

lemma all_proved_False: "all_proved f xs = Some (Some False) \<Longrightarrow> \<exists>x \<in> set xs. f x = Some (Some False)"
  unfolding all_proved_def by (rule all_loop_False)

lemma all_proved_those:
  assumes "those (map f xs) = Some checks"
  shows "all_proved Some checks = Some (Some True) \<Longrightarrow> list_all (\<lambda>x. f x = Some (Some True)) xs"
    and "all_proved Some checks = Some (Some False) \<Longrightarrow> \<exists>x \<in> set xs. f x = Some (Some False)"
proof -
  have eq: "map f xs = map Some checks" using assms by (simp add: those_Some)
  show "list_all (\<lambda>x. f x = Some (Some True)) xs" if "all_proved Some checks = Some (Some True)"
  proof -
    have "list_all (\<lambda>v. v = Some (Some True)) (map Some checks)"
      using that by (simp add: all_proved_True list_all_iff)
    then show ?thesis unfolding eq [symmetric] by (simp add: list_all_iff)
  qed
  show "\<exists>x \<in> set xs. f x = Some (Some False)" if "all_proved Some checks = Some (Some False)"
  proof -
    have "Some (Some False) \<in> set (map Some checks)" using all_proved_False [OF that] by auto
    then show ?thesis unfolding eq [symmetric] by auto
  qed
qed

text \<open>The checks of a varargs call: the fixed parameters with their arguments, then the element type with the rest.\<close>

definition vararg_pairs :: "type_ref list \<Rightarrow> type_ref \<Rightarrow> 'a list \<Rightarrow> (type_ref \<times> 'a) list" where
  "vararg_pairs fixed element args = zip fixed args @ map (Pair element) (drop (length fixed) args)"

lemma applicable_varargs:
  assumes "declared_params c = Some (fixed @ [Array element])" "\<not> list_ex contains_unknown (fixed @ [Array element])"
    "is_varargs (ov_meta c)" "length fixed \<le> length args"
  shows "applicable_in judge c args Varargs =
    (case those (map (\<lambda>(p, a). judge a p Loose) (vararg_pairs fixed element args)) of
       None \<Rightarrow> None | Some checks \<Rightarrow> all_proved Some checks)"
  using assms by (simp add: applicable_in_def vararg_pairs_def comp_def)

lemma zip_take_length: "zip xs ys = zip xs (take (length xs) ys)"
proof (induction xs arbitrary: ys)
  case (Cons x xs)
  then show ?case by (cases ys) simp_all
qed simp

lemma vararg_pairs_invocable:
  "length fixed \<le> length args \<Longrightarrow> list_all (\<lambda>(p, a). assigns w a p) (vararg_pairs fixed element args)
     \<longleftrightarrow> list_all2 (assigns w) (take (length fixed) args) fixed \<and> list_all (\<lambda>a. assigns w a element) (drop (length fixed) args)"
proof -
  assume len: "length fixed \<le> length args"
  have "zip fixed args = zip fixed (take (length fixed) args)" by (rule zip_take_length)
  moreover have "list_all (\<lambda>(p, a). assigns w a p) (zip fixed (take (length fixed) args))
      = list_all2 (assigns w) (take (length fixed) args) fixed"
    using len by (auto simp: list_all2_iff list_all_iff set_zip)
  moreover have "list_all (\<lambda>(p, a). assigns w a p) (map (Pair element) rest) = list_all (\<lambda>a. assigns w a element) rest" for rest
    by (induction rest) auto
  ultimately show ?thesis by (simp add: vararg_pairs_def)
qed

text \<open>The parameters of the candidates as the language has them: none is a placeholder other than \<open>Unknown\<close>.\<close>

definition proper_candidate :: "overload \<Rightarrow> bool" where
  "proper_candidate c \<longleftrightarrow>
     (\<forall>ps. declared_params c = Some ps \<longrightarrow> list_all (\<lambda>p. contains_unknown p \<or> clean p) ps)"

lemma proper_clean:
  "proper_candidate c \<Longrightarrow> declared_params c = Some ps \<Longrightarrow> \<not> list_ex contains_unknown ps \<Longrightarrow> list_all clean ps"
  by (auto simp: proper_candidate_def list_all_iff list_ex_iff)

lemma values_compatible: "argument_compatible ctx n (ValueArg t) p ph = convertible ctx n t p ph"
  by (simp add: argument_compatible_def)

abbreviation judge_values :: "'d sem_ctx \<Rightarrow> nat \<Rightarrow> type_ref list \<Rightarrow> overload \<Rightarrow> phase \<Rightarrow> verdict option" where
  "judge_values ctx n args c ph \<equiv> applicable_in (argument_compatible ctx n) c (map ValueArg args) ph"

lemma zip_map_value: "zip ps (map ValueArg args) = map (\<lambda>(p, a). (p, ValueArg a)) (zip ps args)"
  by (simp add: zip_map2)

lemma declared_arity: "declared_params c = Some ps \<Longrightarrow> arity_excluded c k = (if is_varargs (ov_meta c) then k + 1 < length ps else length ps \<noteq> k)"
  by (auto simp: declared_params_def arity_excluded_def split: option.splits)

lemma invocable_arity: "declared_params c = Some ps \<Longrightarrow> invocable w args c \<Longrightarrow> \<not> arity_excluded c (length args)"
  by (auto simp: declared_arity invocable_def invocable_fixed_def invocable_varargs_def dest: list_all2_lengthD)

lemma refuted_fixed:
  assumes "world_ok w" "view_of ctx w" "list_all clean args" "proper_candidate c" "declared_params c = Some ps"
    and "\<not> list_ex contains_unknown ps" "judge_values ctx n args c Loose = Some (Some False)"
  shows "\<not> invocable_fixed w args ps"
proof (cases "length ps = length args")
  case True
  then have "all_proved (\<lambda>(p, a). argument_compatible ctx n a p Loose) (zip ps (map ValueArg args)) = Some (Some False)"
    using assms(5-7) by (simp add: applicable_in_def)
  then obtain p a where pa: "(p, a) \<in> set (zip ps args)" "convertible ctx n a p Loose = Some (Some False)"
    by (auto simp: zip_map_value values_compatible dest!: all_proved_False)
  have "clean p" "clean a"
    using pa(1) proper_clean [OF assms(4-6)] assms(3) by (auto simp: list_all_iff dest: set_zip_leftD set_zip_rightD)
  then have "\<not> assigns w a p" using convertible_False [OF assms(1,2) pa(2)] by blast
  then show ?thesis using pa(1) by (auto simp: invocable_fixed_def list_all2_conv_all_nth in_set_zip)
qed (simp add: invocable_fixed_def list_all2_iff)

lemma refuted_varargs:
  assumes "world_ok w" "view_of ctx w" "list_all clean args" "proper_candidate c" "declared_params c = Some ps"
    and "\<not> list_ex contains_unknown ps" "judge_values ctx n args c Varargs = Some (Some False)" "is_varargs (ov_meta c)"
  shows "\<not> invocable_varargs w args ps"
proof
  assume "invocable_varargs w args ps"
  then obtain fixed element where ps: "ps = fixed @ [Array element]" and len: "length fixed \<le> length args"
    and ok: "list_all (\<lambda>(p, a). assigns w a p) (vararg_pairs fixed element args)"
    using vararg_pairs_invocable by (auto simp: invocable_varargs_def)
  have pairs: "vararg_pairs fixed element (map ValueArg args) = map (\<lambda>(p, a). (p, ValueArg a)) (vararg_pairs fixed element args)"
    by (simp add: vararg_pairs_def zip_map_value drop_map)
  have "(case those (map (\<lambda>(p, a). convertible ctx n a p Loose) (vararg_pairs fixed element args)) of
       None \<Rightarrow> None | Some checks \<Rightarrow> all_proved Some checks) = Some (Some False)"
    using assms(7) applicable_varargs [of c fixed element "map ValueArg args" "argument_compatible ctx n"] assms(5,6,8) ps len
    by (simp add: pairs comp_def case_prod_unfold values_compatible)
  then obtain p a where pa: "(p, a) \<in> set (vararg_pairs fixed element args)" "convertible ctx n a p Loose = Some (Some False)"
    by (auto split: option.splits dest!: all_proved_those(2))
  have "list_all clean ps" using proper_clean [OF assms(4-6)] .
  then have "clean p" "clean a"
    using pa(1) assms(3) ps by (auto simp: vararg_pairs_def list_all_iff dest: set_zip_leftD set_zip_rightD in_set_dropD)
  then show False using convertible_False [OF assms(1,2) pa(2)] ok pa(1) by (auto simp: list_all_iff)
qed

lemma no_applicable_real:
  assumes "world_ok w" "view_of ctx w" "list_all clean args" "proper_candidate c"
    and "\<forall>ph \<in> {Loose, Varargs}. judge_values ctx n args c ph = Some (Some False)"
  shows "\<not> invocable w args c"
proof
  assume inv: "invocable w args c"
  then obtain ps where ps: "declared_params c = Some ps" by (auto simp: invocable_def)
  show False
  proof (cases "list_ex contains_unknown ps")
    case True
    moreover have "judge_values ctx n args c Loose = Some (Some False)" using assms(5) by simp
    ultimately show ?thesis using ps invocable_arity [OF ps inv] by (simp add: applicable_in_def split: if_splits)
  next
    case False
    then show ?thesis
      using inv ps refuted_fixed [OF assms(1-4) ps False] refuted_varargs [OF assms(1-4) ps False] assms(5)
      by (auto simp: invocable_def)
  qed
qed

lemma selected_real:
  assumes "view_of ctx w" "judge_values ctx n args c ph = Some (Some True)"
    and "\<And>ps. declared_params c = Some ps \<Longrightarrow> list_all (\<lambda>p. clean p \<and> lower_free p) ps"
  shows "invocable w args c"
proof -
  obtain ps where ps: "declared_params c = Some ps" and known: "\<not> list_ex contains_unknown ps"
    using assms(2) by (auto simp: applicable_in_def split: option.splits if_splits)
  have ok: "list_all (\<lambda>p. clean p \<and> lower_free p) ps" using assms(3) ps by blast
  show ?thesis
  proof (cases "ph = Varargs")
    case False
    then have len: "length ps = length args" and "all_proved (\<lambda>(p, a). argument_compatible ctx n a p ph) (zip ps (map ValueArg args)) = Some (Some True)"
      using assms(2) ps known by (auto simp: applicable_in_def split: if_splits)
    then have "list_all (\<lambda>(p, a). convertible ctx n a p ph = Some (Some True)) (zip ps args)"
      by (auto simp: all_proved_True zip_map_value values_compatible list_all_iff)
    then have "assigns w (args ! k) (ps ! k)" if "k < length args" for k
      using convertible_True [OF assms(1)] ok len that by (auto simp: list_all_length)
    then have "invocable_fixed w args ps" using len by (simp add: invocable_fixed_def list_all2_conv_all_nth)
    then show ?thesis using ps by (auto simp: invocable_def)
  next
    case True
    have va: "is_varargs (ov_meta c)" and l: "length ps \<le> length args + 1" "ps \<noteq> []"
      using assms(2) ps known True by (auto simp: applicable_in_def split: if_splits)
    obtain element where el: "last ps = Array element"
      using assms(2) ps known True va l by (cases "last ps") (auto simp: applicable_in_def split: if_splits)
    then have split: "ps = butlast ps @ [Array element]" using l(2) by (metis append_butlast_last_id)
    define fixed where "fixed = butlast ps"
    have len: "length fixed \<le> length args" using l by (simp add: fixed_def)
    have pairs: "vararg_pairs fixed element (map ValueArg args) = map (\<lambda>(p, a). (p, ValueArg a)) (vararg_pairs fixed element args)"
      by (simp add: vararg_pairs_def zip_map_value drop_map)
    have "(case those (map (\<lambda>(p, a). convertible ctx n a p Loose) (vararg_pairs fixed element args)) of
         None \<Rightarrow> None | Some checks \<Rightarrow> all_proved Some checks) = Some (Some True)"
      using assms(2) applicable_varargs [of c fixed element "map ValueArg args" "argument_compatible ctx n"] ps known va len split True
      unfolding fixed_def [symmetric] by (simp add: pairs comp_def case_prod_unfold values_compatible)
    then have conv: "list_all (\<lambda>(p, a). convertible ctx n a p Loose = Some (Some True)) (vararg_pairs fixed element args)"
      by (auto split: option.splits dest!: all_proved_those(1) simp: case_prod_unfold)
    have cl: "list_all (\<lambda>p. clean p \<and> lower_free p) (element # fixed)"
      using ok split unfolding fixed_def [symmetric] by (metis (mono_tags, lifting) clean.simps(3) list.pred_inject(2) list_all_append lower_free.simps(2))
    have "assigns w a p" if pa: "(p, a) \<in> set (vararg_pairs fixed element args)" for p a
    proof -
      have "p \<in> set (element # fixed)" using pa by (auto simp: vararg_pairs_def dest: set_zip_leftD)
      then show ?thesis using convertible_True [OF assms(1)] conv cl pa by (auto simp: list_all_iff)
    qed
    then have "list_all (\<lambda>(p, a). assigns w a p) (vararg_pairs fixed element args)" by (auto simp: list_all_iff)
    then have "invocable_varargs w args ps"
      using vararg_pairs_invocable [OF len] len split unfolding fixed_def [symmetric] invocable_varargs_def by blast
    then show ?thesis using ps va by (auto simp: invocable_def)
  qed
qed

section \<open>Samples\<close>

definition sample_method :: "type_id \<Rightarrow> type_ref list \<Rightarrow> bool \<Rightarrow> type_ref \<Rightarrow> member_metadata" where
  "sample_method i ps varargs res =
     \<lparr>declaring_class = i, mm_access = Public, mm_is_static = False, mm_is_abstract = False, parameters = Some ps,
      result = res, mm_type_parameters = [], is_varargs = varargs\<rparr>"

definition sample_overload :: "type_ref list \<Rightarrow> bool \<Rightarrow> overload" where
  "sample_overload ps varargs =
     \<lparr>ov_meta = sample_method (NamedId ''A'') ps varargs Void, ov_env = [], ov_inferred = [], ov_result_display = None,
      ov_declared_signature = None\<rparr>"

lemma substitute_nothing [simp]: "Java_Types.substitute [] t = t"
  by (rule substitute_closed) simp

lemma sample_params: "declared_params (sample_overload ps varargs) = Some ps" "is_varargs (ov_meta (sample_overload ps varargs)) = varargs"
  by (simp_all add: declared_params_def sample_overload_def sample_method_def map_idI)

text \<open>Two overloads, \<open>m(boolean)\<close> and \<open>m(long)\<close>.\<close>

definition two_overloads :: "overload list" where
  "two_overloads = [sample_overload [Primitive PBoolean] False, sample_overload [Primitive PLong] False]"

lemma two_overloads_judge:
  "applicable_in (argument_compatible ctx n) (sample_overload [Primitive p] False) [ValueArg (Primitive a)] ph =
     Some (Some (ph \<noteq> Varargs \<and> (a = p \<or> widens_to a p)))"
  by (auto simp: applicable_in_def sample_params all_proved_def argument_compatible_def convertible_def split: bool.split)

lemma two_overloads_select:
  "select_candidate ctx n two_overloads [ValueArg (Primitive PInt)] = Some (Selected (sample_overload [Primitive PLong] False) Strict)"
  "select_candidate ctx n (take 1 two_overloads) [ValueArg (Primitive PInt)] = Some (NoApplicable 1)"
  by (simp_all add: select_candidate_def select_with_def two_overloads_def two_overloads_judge most_specific_def)

lemma select_outcome:
  assumes "select_candidate ctx n cs args = Some s" "cs \<noteq> []"
  shows "outcome_ok (\<lambda>c ph. applicable_in (argument_compatible ctx n) c args ph) cs [Strict, Loose, Varargs] s"
  by (rule phase_loop_ok [OF most_specific_sound])
    (use assms in \<open>simp add: select_candidate_def select_with_def del: phase_loop.simps\<close>)

section \<open>Properties\<close>





text \<open>
  Among applicable candidates of one arity the subtyping pass picks the one that is at least as specific as
  every other, provided exactly one is; otherwise it picks none.
\<close>

theorem winner_is_unique_best:
  assumes "subtyping_winner ctx n cs = Some w" "length (remdups (map (length \<circ> params_or_empty \<circ> snd) cs)) \<le> 1"
  shows "w = (case filter (dominating ctx n cs) cs of [m] \<Rightarrow> Some m | _ \<Rightarrow> None)"
proof (rule subtyping_winner_spec [OF assms(1)])
  fix a b
  assume ab: "a \<in> set cs" "b \<in> set cs"
  obtain xs where xs: "xs = remdups (map (length \<circ> params_or_empty \<circ> snd) cs)" by blast
  have "(length \<circ> params_or_empty \<circ> snd) a \<in> set xs" "(length \<circ> params_or_empty \<circ> snd) b \<in> set xs"
    using ab unfolding xs by simp_all
  moreover have "xs = [] \<or> (\<exists>x. xs = [x])" using assms(2) unfolding xs [symmetric] by (cases xs) auto
  ultimately show "length (params_or_empty (snd a)) = length (params_or_empty (snd b))" by auto
qed

lemma single_case: "Some x = (case xs of [m] \<Rightarrow> Some m | _ \<Rightarrow> None) \<Longrightarrow> xs = [x]"
  by (auto split: list.splits)

theorem winner_is_unique_best_witness:
  "dominating (project_ctx sample_decls) 1 [(0, sample_overload [Primitive PInt] False), (1, sample_overload [Primitive PLong] False)]
     (0, sample_overload [Primitive PInt] False)"
proof -
  let ?cs = "[(0 :: nat, sample_overload [Primitive PInt] False), (1, sample_overload [Primitive PLong] False)]"
  have "subtyping_winner (project_ctx sample_decls) 1 ?cs = Some (Some (hd ?cs))"
    by (simp add: subtyping_winner_def params_or_empty_def sample_params all_proved_def assignable_step_def constant_narrowing_def)
  then have "Some (hd ?cs) = (case filter (dominating (project_ctx sample_decls) 1 ?cs) ?cs of [m] \<Rightarrow> Some m | _ \<Rightarrow> None)"
    by (rule winner_is_unique_best) (simp add: params_or_empty_def sample_params)
  then have "filter (dominating (project_ctx sample_decls) 1 ?cs) ?cs = [hd ?cs]" by (rule single_case)
  then have "hd ?cs \<in> set (filter (dominating (project_ctx sample_decls) 1 ?cs) ?cs)" by (simp only: list.set_intros)
  then have "dominating (project_ctx sample_decls) 1 ?cs (hd ?cs)" by (simp only: set_filter mem_Collect_eq)
  then show ?thesis by (simp only: list.sel)
qed

section \<open>Where the engine fails\<close>

text \<open>
  A method marked as varargs without a parameter, which a class file can hold, ends the selection in a panic as soon as
  it is called with an argument.
\<close>

lemma empty_varargs_panics:
  assumes "args \<noteq> []"
  shows "select_candidate ctx n [sample_overload [] True] args = None"
  using assms
  by (simp add: select_candidate_def select_with_def applicable_in_def sample_params)

text \<open>
  The walk for candidates visits the last supertype first. In \<open>class C extends A implements I\<close> the method
  that \<open>A\<close> declares with the result \<open>String\<close> is hidden by the one that \<open>I\<close> declares with the result \<open>Object\<close>.
\<close>

definition shadow_class :: "string \<Rightarrow> type_ref list \<Rightarrow> type_ref option \<Rightarrow> external_class" where
  "shadow_class name sups m =
     \<lparr>ec_supers = [], ec_type_params = [],
      ec_members = (case m of None \<Rightarrow> [] | Some res \<Rightarrow>
        [\<lparr>em_name = ''m'', em_kind = MethodKind, em_signature = ''m()'', em_template = None, em_is_static = False, em_ret_fqn = None,
          em_ret_display = None, em_metadata = Some (sample_method (NamedId name) [] False res)\<rparr>]),
      ec_metadata = Some (sample_meta name [] sups)\<rparr>"

definition shadow_ctx :: "external_class sem_ctx" where
  "shadow_ctx =
     \<lparr>is_duplicate = (\<lambda>_. False),
      get_named = [''C'' \<mapsto> shadow_class ''C'' [named ''A'', named ''I''] None, ''A'' \<mapsto> shadow_class ''A'' [] (Some (named ''java.lang.String'')),
        ''I'' \<mapsto> shadow_class ''I'' [] (Some (named OBJECT))],
      by_node = (\<lambda>_ _. None), decl_class = Some, ctx_symbols = NoSymbols\<rparr>"

lemma interface_shadows_superclass:
  "map_option (map (declaring_class \<circ> ov_meta)) (method_candidates shadow_ctx (named ''C'') ''m'' False) = Some [NamedId ''I'']"
  by (simp add: method_candidates_def walk.simps(2) candidate_class_def named_def compute_class_facts_def source_decl_def facts_of_def
      shadow_ctx_def shadow_class_def sample_meta_def sample_method_def env_of_def override_key_def OBJECT_def Let_def)

end
