(* ===== verification/Method_Calls.thy ===== *)
theory Method_Calls
  imports Overloads
begin

text \<open>
  The rest of \<open>crates/syntax/src/call.rs\<close>: the inference of a method's type arguments from the types of the call's
  arguments, the resolution of a method call, and the resolution of an object creation: whether the class can be
  instantiated at the place, which constructor is selected, whether it is accessible, and what a diamond stands for.

  What the parse tree and the resolution of expressions give of a call is a record. Nested resolutions run at the
  next level of the request's nesting counter, so the record is a function of that level.
\<close>

section \<open>Inference of method type arguments\<close>

lemma walk_Inl: "walk body stack visited acc = Inl r \<Longrightarrow> \<exists>ty acc. body ty acc = Inl r"
proof (induction body stack visited acc rule: walk.induct)
  case (2 body ty depth stack visited acc)
  show ?case
  proof (cases "depth > 64 \<or> ty \<in> visited")
    case True
    then show ?thesis using 2 by (simp add: walk.simps(2))
  next
    case False
    show ?thesis
    proof (cases "body ty acc")
      case (Inr p)
      obtain supers acc' where p: "p = (supers, acc')" by fastforce
      have "walk body (rev (map (\<lambda>s. (s, depth + 1)) supers) @ stack) (insert ty visited) acc' = Inl r"
        using 2(3) False Inr p by (simp add: walk.simps(2))
      then show ?thesis using 2(2) [OF False Inr p [symmetric]] by blast
    qed (use 2(3) False in \<open>auto simp: walk.simps(2)\<close>)
  qed
qed simp

lemma type_as_supertype_named:
  assumes "type_as_supertype ctx actual target = Some t"
  shows "\<exists>args. t = Named target args"
proof -
  have "walk (supertype_class ctx target) [(actual, 0)] {} () = Inl t"
    using assms by (simp add: type_as_supertype_def split: sum.splits)
  then obtain ty where "supertype_class ctx target ty () = Inl t" using walk_Inl by fastforce
  then show ?thesis by (cases ty) (auto simp: supertype_class_def split: if_splits option.splits)
qed

type_synonym inferred = "(type_variable_id \<times> type_ref option) list"

definition strip_wildcard :: "type_ref \<Rightarrow> type_ref option" where
  "strip_wildcard actual =
     (case actual of
        Wildcard (Some upper) _ \<Rightarrow> Some upper
      | Wildcard None (Some lower) \<Rightarrow> Some lower
      | Wildcard None None \<Rightarrow> None
      | Unknown \<Rightarrow> None
      | Null \<Rightarrow> None
      | t \<Rightarrow> Some t)"

text \<open>A second, different type for a variable cancels the first.\<close>

fun note_inference :: "type_variable_id \<Rightarrow> type_ref \<Rightarrow> inferred \<Rightarrow> inferred" where
  "note_inference v actual [] = [(v, Some actual)]"
| "note_inference v actual ((k, current) # rest) =
     (if k = v then (k, if current \<noteq> None \<and> current \<noteq> Some actual then None else current) # rest
      else (k, current) # note_inference v actual rest)"

definition boxed :: "type_ref \<Rightarrow> type_ref" where
  "boxed t = (case t of Primitive p \<Rightarrow> named (box_fqn p) | _ \<Rightarrow> t)"

definition is_own :: "type_parameter list \<Rightarrow> type_variable_id \<Rightarrow> bool" where
  "is_own ps v \<longleftrightarrow> v \<in> set (map tp_id ps)"

definition class_mismatch :: "type_ref \<Rightarrow> type_ref \<Rightarrow> nat" where
  "class_mismatch formal actual =
     (case (formal, strip_wildcard actual) of (Named f _, Some (Named a _)) \<Rightarrow> if f = a then 0 else 1 | _ \<Rightarrow> 0)"

lemma class_mismatch_projected:
  "type_as_supertype ctx actual fid = Some projected \<Longrightarrow> class_mismatch (Named fid fargs) projected = 0"
  by (auto simp: class_mismatch_def strip_wildcard_def dest!: type_as_supertype_named)

lemma class_mismatch_distinct:
  "strip_wildcard actual = Some (Named aid aargs) \<Longrightarrow> fid \<noteq> aid \<Longrightarrow> class_mismatch (Named fid fargs) actual = 1"
  by (simp add: class_mismatch_def)

lemma size_zip_left: "(f, a) \<in> set (zip fargs aargs) \<Longrightarrow> size f < Suc (size_list size fargs)"
  using size_list_estimation' [of f fargs "size f" size] by (auto dest!: set_zip_leftD)

function collect_method_inference :: "'d sem_ctx \<Rightarrow> type_parameter list \<Rightarrow> type_ref \<Rightarrow> type_ref \<Rightarrow> inferred \<Rightarrow> inferred" where
  "collect_method_inference ctx ps formal actual inferred =
     (case strip_wildcard actual of
        None \<Rightarrow> inferred
      | Some actual' \<Rightarrow>
          (case formal of
             Variable v \<Rightarrow> if is_own ps v then note_inference v (boxed actual') inferred else inferred
           | Array f \<Rightarrow> (case actual' of Array a \<Rightarrow> collect_method_inference ctx ps f a inferred | _ \<Rightarrow> inferred)
           | Named fid fargs \<Rightarrow>
               (case actual' of
                  Named aid aargs \<Rightarrow>
                    if fid = aid then
                      if length fargs = length aargs
                      then fold (\<lambda>(f, a) acc. collect_method_inference ctx ps f a acc) (zip fargs aargs) inferred
                      else inferred
                    else (case type_as_supertype ctx (Named aid aargs) fid of
                        Some projected \<Rightarrow> collect_method_inference ctx ps formal projected inferred
                      | None \<Rightarrow> inferred)
                | _ \<Rightarrow> inferred)
           | Wildcard (Some f) _ \<Rightarrow> collect_method_inference ctx ps f actual' inferred
           | Wildcard None (Some f) \<Rightarrow> collect_method_inference ctx ps f actual' inferred
           | _ \<Rightarrow> inferred))"
  by pat_completeness auto
termination
  by (relation "(\<lambda>(_, _, formal, _, _). size formal) <*mlex*> measure (\<lambda>(_, _, formal, actual, _). class_mismatch formal actual)")
    (auto simp: wf_mlex mlex_iff class_mismatch_projected class_mismatch_distinct dest: size_zip_left)

declare collect_method_inference.simps [simp del]

text \<open>The formal parameter an argument is matched with, and what the arguments say of the method's variables.\<close>

definition formal_for :: "overload \<Rightarrow> type_ref list \<Rightarrow> nat \<Rightarrow> nat \<Rightarrow> type_ref \<Rightarrow> type_ref option" where
  "formal_for c ps nargs index actual =
     (case (if index < length ps then Some (ps ! index) else if ps = [] then None else Some (last ps)) of
        None \<Rightarrow> None
      | Some formal \<Rightarrow>
          Some (if is_varargs (ov_meta c) \<and> length ps - 1 \<le> index then
              (case formal of
                 Array element \<Rightarrow>
                   if nargs = length ps \<and> (case actual of Array _ \<Rightarrow> True | _ \<Rightarrow> False) then formal else element
               | _ \<Rightarrow> formal)
            else formal))"

definition collect_argument :: "'d sem_ctx \<Rightarrow> overload \<Rightarrow> type_ref list \<Rightarrow> nat \<Rightarrow> nat \<times> argument \<Rightarrow> inferred \<Rightarrow> inferred" where
  "collect_argument ctx c ps nargs ia inferred =
     (case ia of
        (index, ValueArg actual) \<Rightarrow>
          (case formal_for c ps nargs index actual of
             None \<Rightarrow> inferred
           | Some formal \<Rightarrow>
               collect_method_inference ctx (mm_type_parameters (ov_meta c)) (Java_Types.substitute (ov_env c) formal) actual inferred)
      | _ \<Rightarrow> inferred)"

text \<open>All bounds proved; the first that is not ends the loop.\<close>

fun bounds_hold :: "'d sem_ctx \<Rightarrow> nat \<Rightarrow> type_env \<Rightarrow> type_ref \<Rightarrow> type_ref list \<Rightarrow> bool option" where
  "bounds_hold ctx n env actual [] = Some True"
| "bounds_hold ctx n env actual (b # bs) =
     (case assignable_refs ctx n actual (Java_Types.substitute env b) of
        None \<Rightarrow> None
      | Some (Some True) \<Rightarrow> bounds_hold ctx n env actual bs
      | Some _ \<Rightarrow> Some False)"

fun bind_inferred :: "'d sem_ctx \<Rightarrow> nat \<Rightarrow> type_parameter list \<Rightarrow> inferred \<Rightarrow> type_env \<Rightarrow> type_env option" where
  "bind_inferred ctx n ps [] env = Some env"
| "bind_inferred ctx n ps ((v, actual) # rest) env =
     (case (actual, find (\<lambda>p. tp_id p = v) ps) of
        (Some t, Some p) \<Rightarrow>
          (case bounds_hold ctx n env t (bounds p) of
             None \<Rightarrow> None
           | Some True \<Rightarrow> bind_inferred ctx n ps rest (env @ [(v, t)])
           | Some False \<Rightarrow> bind_inferred ctx n ps rest env)
      | _ \<Rightarrow> bind_inferred ctx n ps rest env)"

definition infer_method_type_arguments :: "'d sem_ctx \<Rightarrow> nat \<Rightarrow> argument list \<Rightarrow> overload \<Rightarrow> overload option" where
  "infer_method_type_arguments ctx n args c =
     (if mm_type_parameters (ov_meta c) = [] then Some c
      else case parameters (ov_meta c) of
          None \<Rightarrow> Some c
        | Some ps \<Rightarrow>
            map_option (\<lambda>env. c\<lparr>ov_env := env\<rparr>)
              (bind_inferred ctx n (mm_type_parameters (ov_meta c))
                (fold (collect_argument ctx c ps (length args)) (enumerate 0 args) []) (ov_env c)))"

section \<open>Calls\<close>

text \<open>
  What the parse tree and the resolution of expressions give of a method call: its name, its receiver and
  whether that is a type (the enclosing class when there is none), and its arguments.
\<close>

record method_call =
  mc_name :: "string option"
  mc_receiver :: "(type_ref \<times> bool) option"
  mc_arguments :: "argument list option"

definition MAX_NESTING :: nat where
  "MAX_NESTING = 64"

text \<open>The guard of a request's nested resolutions: the level inside, or \<open>None\<close> at the cap.\<close>

definition enter :: "nat \<Rightarrow> nat option" where
  "enter nesting = (if nesting \<ge> MAX_NESTING then None else Some (nesting + 1))"

definition method_call_inputs :: "'d sem_ctx \<Rightarrow> nat \<Rightarrow> method_call \<Rightarrow> (overload list \<times> argument list) option option" where
  "method_call_inputs ctx n call =
     (case (mc_name call, mc_receiver call, mc_arguments call) of
        (Some name, Some (receiver, static_only), Some args) \<Rightarrow>
          (case method_candidates ctx receiver name static_only of
             None \<Rightarrow> Some None
           | Some candidates \<Rightarrow>
               map_option (\<lambda>cs. Some (cs, args)) (those (map (infer_method_type_arguments ctx n args) candidates)))
      | _ \<Rightarrow> Some None)"

definition resolve_method_call :: "'d sem_ctx \<Rightarrow> nat \<Rightarrow> nat \<Rightarrow> (nat \<Rightarrow> method_call) \<Rightarrow> call_resolution option" where
  "resolve_method_call ctx n nesting call =
     (case enter nesting of
        None \<Rightarrow> Some UnknownCall
      | Some level \<Rightarrow>
          (case method_call_inputs ctx n (call level) of
             None \<Rightarrow> None
           | Some None \<Rightarrow> Some UnknownCall
           | Some (Some (candidates, args)) \<Rightarrow>
               if candidates = [] then Some UnknownCall else select ctx n candidates args))"

section \<open>Constructors\<close>

datatype instantiation_error = AbstractError class_kind | Inaccessible | NeedsEnclosingInstance

text \<open>
  What is known of an object creation: the created type, the class body and the qualifier, the binary names of
  the enclosing classes, the package, the arguments, whether it is a diamond, the target type of its position
  and the type of the variable it initialises.
\<close>

record creation =
  cr_created :: "type_ref option"
  cr_anonymous :: bool
  cr_qualified :: bool
  cr_enclosing :: "string list"
  cr_package :: "string option"
  cr_arguments :: "argument list option"
  cr_diamond :: bool
  cr_target :: "type_ref option"
  cr_declared :: "type_ref option"

definition infer_env_from_args :: "type_parameter list \<Rightarrow> argument list \<Rightarrow> member_metadata \<Rightarrow> type_env" where
  "infer_env_from_args class_params args meta =
     (case parameters meta of
        None \<Rightarrow> []
      | Some ps \<Rightarrow>
          List.map_filter
            (\<lambda>tp. map_option (\<lambda>pa. (tp_id tp, case snd pa of ValueArg t \<Rightarrow> t | _ \<Rightarrow> Unknown))
              (find (\<lambda>(p, a). (case a of ValueArg _ \<Rightarrow> True | _ \<Rightarrow> False) \<and> p = Variable (tp_id tp)) (zip ps args)))
            class_params)"

definition diamond_env_from_target :: "class_metadata \<Rightarrow> type_ref \<Rightarrow> type_env option" where
  "diamond_env_from_target meta target =
     (case target of
        Named i args \<Rightarrow>
          if i \<noteq> cm_id meta \<or> args = [] \<or> length args \<noteq> length (cm_type_parameters meta) \<or> Unknown \<in> set args
          then None else Some (env_of (cm_type_parameters meta) args)
      | _ \<Rightarrow> None)"

definition infer_diamond :: "class_metadata \<Rightarrow> overload \<Rightarrow> type_ref option \<Rightarrow> type_ref" where
  "infer_diamond meta selected declared =
     (let i = cm_id meta in
      if cm_type_parameters meta \<noteq> [] \<and> length (ov_env selected) = length (cm_type_parameters meta) then
        Named i (map (\<lambda>tp. case find (\<lambda>(k, _). k = tp_id tp) (ov_env selected) of Some (_, t) \<Rightarrow> t | None \<Rightarrow> Unknown)
          (cm_type_parameters meta))
      else case declared of
          Some (Named declared_id args) \<Rightarrow> if declared_id = i \<and> args \<noteq> [] then Named i args else Named i []
        | _ \<Rightarrow> Named i [])"

text \<open>The top-level nest of a binary name is the part before the first \<open>$\<close>.\<close>

definition nest_of :: "string \<Rightarrow> string" where
  "nest_of b = takeWhile (\<lambda>c. c \<noteq> CHR ''$'') b"

definition before_last :: "char \<Rightarrow> string \<Rightarrow> string option" where
  "before_last sep s = (if sep \<in> set s then Some (rev (tl (dropWhile (\<lambda>c. c \<noteq> sep) (rev s)))) else None)"

definition declaring_package :: "string \<Rightarrow> string" where
  "declaring_package name =
     (let outer = (case before_last (CHR ''$'') name of Some o_ \<Rightarrow> o_ | None \<Rightarrow> name) in
      case before_last (CHR ''.'') outer of Some pkg \<Rightarrow> pkg | None \<Rightarrow> [])"

definition constructor_accessible :: "access \<Rightarrow> type_id \<Rightarrow> creation \<Rightarrow> verdict" where
  "constructor_accessible access declaring call =
     (case access of
        Public \<Rightarrow> Some True
      | Private \<Rightarrow>
          (case as_named declaring of
             None \<Rightarrow> None
           | Some name \<Rightarrow> Some (case cr_enclosing call of b # _ \<Rightarrow> nest_of b = nest_of name | [] \<Rightarrow> False))
      | _ \<Rightarrow>
          (case as_named declaring of
             None \<Rightarrow> None
           | Some name \<Rightarrow>
               if (case cr_package call of Some p \<Rightarrow> p | None \<Rightarrow> []) = declaring_package name then Some True
               else if access = Protected then None else Some False))"

definition instantiability :: "class_metadata \<Rightarrow> creation \<Rightarrow> instantiation_error option" where
  "instantiability meta call =
     (if cm_kind meta \<in> {Interface, Annotation} \<and> \<not> cr_anonymous call then Some (AbstractError (cm_kind meta))
      else if cm_kind meta \<in> {Interface, Annotation} then None
      else if cm_kind meta = Enum then Some (AbstractError Enum)
      else if cm_kind meta = Class \<and> cm_is_abstract meta \<and> \<not> cr_anonymous call then Some (AbstractError Class)
      else if \<not> cm_is_static meta \<and> enclosing_class meta \<noteq> None
          \<and> \<not> (cr_qualified call \<or> list_ex (\<lambda>b. Some b = Option.bind (enclosing_class meta) as_named) (cr_enclosing call))
        then Some NeedsEnclosingInstance
      else None)"

definition creation_env :: "class_metadata \<Rightarrow> type_ref list \<Rightarrow> argument list \<Rightarrow> creation \<Rightarrow> member_metadata \<Rightarrow> type_env" where
  "creation_env meta args call_args call ctor =
     (if \<not> cr_diamond call then env_of (cm_type_parameters meta) args
      else case Option.bind (cr_target call) (diamond_env_from_target meta) of
          Some from_target \<Rightarrow> from_target
        | None \<Rightarrow> infer_env_from_args (cm_type_parameters meta) call_args ctor)"

definition resolve_constructor :: "'d sem_ctx \<Rightarrow> nat \<Rightarrow> class_facts \<Rightarrow> type_ref list \<Rightarrow> type_ref \<Rightarrow> creation
    \<Rightarrow> (instantiation_error + call_resolution) option" where
  "resolve_constructor ctx n facts args created call =
     (if \<not> constructors_complete (facts_meta facts) then Some (Inr UnknownCall)
      else case cr_arguments call of
          None \<Rightarrow> Some (Inr UnknownCall)
        | Some call_args \<Rightarrow>
            (let candidates = constructor_overloads facts (creation_env (facts_meta facts) args call_args call)
                   (if cr_diamond call then map tp_id (cm_type_parameters (facts_meta facts)) else []) in
             if candidates = [] then Some (Inr UnknownCall)
             else case select_candidate ctx n candidates call_args of
                 None \<Rightarrow> None
               | Some (Selected c _) \<Rightarrow>
                   Some (case constructor_accessible (mm_access (ov_meta c)) (declaring_class (ov_meta c)) call of
                       Some True \<Rightarrow>
                         Inr (SelectedCall (if cr_diamond call then infer_diamond (facts_meta facts) c (cr_declared call) else created)
                           (declaring_class (ov_meta c)) (mm_access (ov_meta c)))
                     | Some False \<Rightarrow> Inl Inaccessible
                     | None \<Rightarrow> Inr UnknownCall)
               | Some other \<Rightarrow> Some (Inr (to_resolution other))))"

definition resolve_constructor_call :: "'d sem_ctx \<Rightarrow> nat \<Rightarrow> nat \<Rightarrow> (nat \<Rightarrow> creation) \<Rightarrow> (instantiation_error + call_resolution) option" where
  "resolve_constructor_call ctx n nesting call_at =
     (case enter nesting of
        None \<Rightarrow> Some (Inr UnknownCall)
      | Some level \<Rightarrow>
          (let call = call_at level in
           case cr_created call of
             Some (Named i args) \<Rightarrow>
               (case compute_class_facts ctx i of
                  None \<Rightarrow> Some (Inr UnknownCall)
                | Some facts \<Rightarrow>
                    (case instantiability (facts_meta facts) call of
                       Some e \<Rightarrow> Some (Inl e)
                     | None \<Rightarrow>
                         if cm_kind (facts_meta facts) \<in> {Interface, Annotation}
                         then Some (Inr (SelectedCall (Named i args) i Public))
                         else resolve_constructor ctx n facts args (Named i args) call))
           | _ \<Rightarrow> Some (Inr UnknownCall)))"

section \<open>Inference undoes substitution\<close>

text \<open>A formal parameter type without wildcards and placeholders.\<close>

fun plain :: "type_ref \<Rightarrow> bool" where
  "plain (Named i args) = list_all plain args"
| "plain (Array e) = plain e"
| "plain (Variable v) = True"
| "plain (Primitive p) = True"
| "plain t = False"

definition reference_type :: "type_ref \<Rightarrow> bool" where
  "reference_type t \<longleftrightarrow> (case t of Named _ _ \<Rightarrow> True | Array _ \<Rightarrow> True | Variable _ \<Rightarrow> True | _ \<Rightarrow> False)"

text \<open>What has been inferred so far agrees with a substitution, and covers a set of variables.\<close>

definition agrees :: "type_env \<Rightarrow> inferred \<Rightarrow> bool" where
  "agrees \<sigma> inferred \<longleftrightarrow> (\<forall>(v, t) \<in> set inferred. t \<noteq> None \<and> t = map_of \<sigma> v)"

definition covers :: "inferred \<Rightarrow> type_variable_id set \<Rightarrow> bool" where
  "covers inferred vs \<longleftrightarrow> vs \<subseteq> fst ` set inferred"

text \<open>A variable of the method that the substitution gives a reference type.\<close>

definition own_instance :: "type_parameter list \<Rightarrow> type_env \<Rightarrow> type_variable_id \<Rightarrow> bool" where
  "own_instance ps \<sigma> v \<longleftrightarrow> is_own ps v \<and> (\<exists>t. map_of \<sigma> v = Some t \<and> reference_type t)"

lemma note_inference_keys: "fst ` set (note_inference v t inferred) = insert v (fst ` set inferred)"
  by (induction v t inferred rule: note_inference.induct) auto

lemma note_inference_agrees:
  assumes "agrees \<sigma> inferred" "map_of \<sigma> v = Some t"
  shows "agrees \<sigma> (note_inference v t inferred)"
  using assms by (induction v t inferred rule: note_inference.induct) (auto simp: agrees_def)

lemma strip_substituted:
  assumes "plain f" "\<forall>v \<in> type_vars f. own_instance ps \<sigma> v"
  shows "strip_wildcard (Java_Types.substitute \<sigma> f) = Some (Java_Types.substitute \<sigma> f)"
proof (cases f)
  case (Variable v)
  then obtain t where "map_of \<sigma> v = Some t" "reference_type t" using assms(2) by (auto simp: own_instance_def)
  then show ?thesis using Variable by (cases t) (auto simp: strip_wildcard_def reference_type_def)
qed (use assms in \<open>auto simp: strip_wildcard_def\<close>)

definition inverts :: "'d sem_ctx \<Rightarrow> type_parameter list \<Rightarrow> type_env \<Rightarrow> type_ref \<Rightarrow> bool" where
  "inverts ctx ps \<sigma> f \<longleftrightarrow> (\<forall>inferred. agrees \<sigma> inferred \<longrightarrow>
     agrees \<sigma> (collect_method_inference ctx ps f (Java_Types.substitute \<sigma> f) inferred)
     \<and> fst ` set (collect_method_inference ctx ps f (Java_Types.substitute \<sigma> f) inferred) = fst ` set inferred \<union> type_vars f)"

lemma fold_inverts:
  assumes "\<And>f. f \<in> set fs \<Longrightarrow> inverts ctx ps \<sigma> f" "agrees \<sigma> inferred"
  shows "agrees \<sigma> (fold (\<lambda>(f, a) acc. collect_method_inference ctx ps f a acc) (zip fs (map (Java_Types.substitute \<sigma>) fs)) inferred)
    \<and> fst ` set (fold (\<lambda>(f, a) acc. collect_method_inference ctx ps f a acc) (zip fs (map (Java_Types.substitute \<sigma>) fs)) inferred)
        = fst ` set inferred \<union> (\<Union>f \<in> set fs. type_vars f)"
  using assms
proof (induction fs arbitrary: inferred)
  case (Cons f fs)
  let ?next = "collect_method_inference ctx ps f (Java_Types.substitute \<sigma> f) inferred"
  have "agrees \<sigma> ?next" "fst ` set ?next = fst ` set inferred \<union> type_vars f"
    using Cons.prems(1) [of f] Cons.prems(2) by (auto simp: inverts_def)
  then show ?case using Cons.IH [of ?next] Cons.prems(1) by auto
qed simp

lemma collect_inverts:
  "plain f \<Longrightarrow> \<forall>v \<in> type_vars f. own_instance ps \<sigma> v \<Longrightarrow> inverts ctx ps \<sigma> f"
proof (induction f rule: plain.induct)
  case (1 i args)
  have strip: "strip_wildcard (Java_Types.substitute \<sigma> (Named i args)) = Some (Java_Types.substitute \<sigma> (Named i args))"
    using strip_substituted 1 by blast
  have each: "inverts ctx ps \<sigma> f" if "f \<in> set args" for f
    using 1 that by (auto simp: list_all_iff)
  show ?case
    unfolding inverts_def
    using fold_inverts [of args ctx ps \<sigma>, OF each] strip
    by (simp add: collect_method_inference.simps [of ctx ps "Named i args"])
next
  case (2 e)
  have strip: "strip_wildcard (Java_Types.substitute \<sigma> (Array e)) = Some (Java_Types.substitute \<sigma> (Array e))"
    using strip_substituted 2 by blast
  have "inverts ctx ps \<sigma> e" using 2 by auto
  then show ?case using strip by (simp add: inverts_def collect_method_inference.simps [of ctx ps "Array e"])
next
  case (3 v)
  then obtain t where t: "map_of \<sigma> v = Some t" "reference_type t" "is_own ps v" by (auto simp: own_instance_def)
  then have "strip_wildcard t = Some t" "boxed t = t"
    by (cases t; auto simp: strip_wildcard_def reference_type_def boxed_def)+
  then show ?case using t note_inference_agrees note_inference_keys
    by (auto simp: inverts_def collect_method_inference.simps [of ctx ps "Variable v"])
next
  case (4 p)
  then show ?case by (simp add: inverts_def collect_method_inference.simps [of ctx ps "Primitive p"] strip_wildcard_def)
qed simp_all

text \<open>
  C9. Inference undoes substitution: when the type of an argument is the formal parameter type at some
  instance of the method's variables, what is collected from it is that instance, for exactly the
  variables that occur.
\<close>

theorem inference_inverts_substitution:
  assumes "plain f" "\<forall>v \<in> type_vars f. own_instance ps \<sigma> v"
  shows "fst ` set (collect_method_inference ctx ps f (Java_Types.substitute \<sigma> f) []) = type_vars f
    \<and> list_all (\<lambda>(v, t). t = map_of \<sigma> v) (collect_method_inference ctx ps f (Java_Types.substitute \<sigma> f) [])"
proof -
  let ?r = "collect_method_inference ctx ps f (Java_Types.substitute \<sigma> f) []"
  have "agrees \<sigma> []" by (simp add: agrees_def)
  then have "agrees \<sigma> ?r" "fst ` set ?r = type_vars f"
    using collect_inverts [OF assms, of ctx] by (auto simp: inverts_def)
  then show ?thesis by (auto simp: agrees_def list_all_iff)
qed

definition sample_var :: type_variable_id where
  "sample_var = TypeVariableId ''A#m'' 0"

theorem inference_inverts_substitution_witness:
  "list_all (\<lambda>(v, t). t = map_of [(sample_var, named ''Dog'')] v)
     (collect_method_inference (project_ctx sample_decls) [TypeParameter sample_var []]
       (Named (NamedId ''List'') [Array (Variable sample_var)])
       (Java_Types.substitute [(sample_var, named ''Dog'')] (Named (NamedId ''List'') [Array (Variable sample_var)])) [])"
  using inference_inverts_substitution [of "Named (NamedId ''List'') [Array (Variable sample_var)]" "[TypeParameter sample_var []]"
      "[(sample_var, named ''Dog'')]" "project_ctx sample_decls"]
  by (simp add: own_instance_def is_own_def reference_type_def named_def)

section \<open>Selected constructors are legal\<close>

text \<open>What the language asks of an instantiation and of an access, independent of the resolver.\<close>

definition instantiable :: "class_metadata \<Rightarrow> creation \<Rightarrow> bool" where
  "instantiable m call \<longleftrightarrow>
     (cm_kind m \<in> {Interface, Annotation} \<longrightarrow> cr_anonymous call)
     \<and> cm_kind m \<noteq> Enum
     \<and> (cm_kind m = Class \<and> cm_is_abstract m \<longrightarrow> cr_anonymous call)
     \<and> (cm_kind m \<notin> {Interface, Annotation} \<and> \<not> cm_is_static m \<and> enclosing_class m \<noteq> None \<longrightarrow>
          cr_qualified call \<or> (\<exists>b. Option.bind (enclosing_class m) as_named = Some b \<and> b \<in> set (cr_enclosing call)))"

definition accessible_here :: "access \<Rightarrow> type_id \<Rightarrow> creation \<Rightarrow> bool" where
  "accessible_here a declaring call \<longleftrightarrow>
     (a = Private \<longrightarrow> (\<exists>name b rest. declaring = NamedId name \<and> cr_enclosing call = b # rest \<and> nest_of b = nest_of name))
     \<and> (a \<in> {Package, Protected} \<longrightarrow> (\<exists>name. declaring = NamedId name
          \<and> declaring_package name = (case cr_package call of Some p \<Rightarrow> p | None \<Rightarrow> [])))"

lemma instantiability_None: "instantiability m call = None \<Longrightarrow> instantiable m call"
  by (auto simp: instantiability_def instantiable_def list_ex_iff split: if_splits)

lemma constructor_accessible_True: "constructor_accessible a declaring call = Some True \<Longrightarrow> accessible_here a declaring call"
  by (cases a; cases declaring)
    (auto simp: constructor_accessible_def accessible_here_def split: option.splits if_splits list.splits)


definition sample_creation :: creation where
  "sample_creation =
     \<lparr>cr_created = Some (named ''I''), cr_anonymous = True, cr_qualified = False, cr_enclosing = [], cr_package = None,
      cr_arguments = Some [], cr_diamond = False, cr_target = None, cr_declared = None\<rparr>"

definition interface_ctx :: "class_metadata sem_ctx" where
  "interface_ctx = project_ctx [''I'' \<mapsto> (sample_meta ''I'' [] [])\<lparr>cm_kind := Interface\<rparr>]"


end
