(* ===== verification/Text_Positions.thy ===== *)
theory Text_Positions
  imports Rust_Strings
begin

text \<open>
  Positions in documents: the line index, incremental edits and the delta encoding of semantic tokens of
  \<open>crates/syntax/src/lib.rs\<close>.

  A document is the list of its Unicode scalar values; its length and all offsets count the bytes of its
  UTF-8 form, which is written out, since the code mixes the two freely. A slice of a document at an offset
  that is not a character boundary panics, here \<open>None\<close>.
\<close>

section \<open>UTF-8\<close>

type_synonym document = "nat list"

definition len_utf8 :: "nat \<Rightarrow> nat" where
  "len_utf8 c = (if c < 128 then 1 else if c < 2048 then 2 else if c < 65536 then 3 else 4)"

definition len_utf16 :: "nat \<Rightarrow> nat" where
  "len_utf16 c = (if c < 65536 then 1 else 2)"

definition encode_utf8 :: "nat \<Rightarrow> nat list" where
  "encode_utf8 c =
     (if c < 128 then [c]
      else if c < 2048 then [192 + c div 64, 128 + c mod 64]
      else if c < 65536 then [224 + c div 4096, 128 + (c div 64) mod 64, 128 + c mod 64]
      else [240 + c div 262144, 128 + (c div 4096) mod 64, 128 + (c div 64) mod 64, 128 + c mod 64])"

definition utf8_of :: "document \<Rightarrow> nat list" where
  "utf8_of text = concat (map encode_utf8 text)"

definition byte_len :: "document \<Rightarrow> nat" where
  "byte_len text = length (utf8_of text)"

definition is_char_boundary :: "document \<Rightarrow> nat \<Rightarrow> bool" where
  "is_char_boundary text b \<longleftrightarrow>
     b = 0 \<or> b = byte_len text \<or> (b < byte_len text \<and> \<not> (128 \<le> utf8_of text ! b \<and> utf8_of text ! b < 192))"

text \<open>\<open>&text[..b]\<close>, \<open>&text[b..]\<close> and \<open>&text[a..b]\<close>.\<close>

fun split_bytes :: "nat \<Rightarrow> document \<Rightarrow> (document \<times> document) option" where
  "split_bytes b [] = (if b = 0 then Some ([], []) else None)"
| "split_bytes b (c # cs) =
     (if b = 0 then Some ([], c # cs)
      else if len_utf8 c \<le> b then map_option (\<lambda>(xs, ys). (c # xs, ys)) (split_bytes (b - len_utf8 c) cs)
      else None)"

definition slice_doc :: "document \<Rightarrow> nat \<Rightarrow> nat \<Rightarrow> document option" where
  "slice_doc text a b =
     (if a \<le> b then Option.bind (split_bytes b text) (\<lambda>(xs, _). map_option snd (split_bytes a xs)) else None)"

section \<open>The line index\<close>

datatype encoding = Utf8 | Utf16

definition units :: "encoding \<Rightarrow> nat \<Rightarrow> nat" where
  "units enc c = (case enc of Utf8 \<Rightarrow> len_utf8 c | Utf16 \<Rightarrow> len_utf16 c)"

record position =
  line :: nat
  character :: nat

record line_index =
  li_text :: document
  li_starts :: "nat list"
  li_encoding :: encoding

definition new_index :: "document \<Rightarrow> encoding \<Rightarrow> line_index" where
  "new_index text enc =
     \<lparr>li_text = text,
      li_starts = 0 # map (\<lambda>i. i + 1) (filter (\<lambda>i. utf8_of text ! i = 10) [0..<byte_len text]),
      li_encoding = enc\<rparr>"

function floor_from :: "document \<Rightarrow> nat \<Rightarrow> nat" where
  "floor_from text b = (if b > 0 \<and> \<not> is_char_boundary text b then floor_from text (b - 1) else b)"
  by pat_completeness auto
termination by (relation "measure snd") auto

declare floor_from.simps [simp del]

definition floor_char_boundary :: "document \<Rightarrow> nat \<Rightarrow> nat" where
  "floor_char_boundary text b = (if b \<ge> byte_len text then byte_len text else floor_from text b)"

text \<open>The binary search of the standard library on a list without duplicates in ascending order.\<close>

definition binary_search :: "nat list \<Rightarrow> nat \<Rightarrow> nat + nat" where
  "binary_search xs x =
     (let p = length (takeWhile (\<lambda>y. y < x) xs) in if p < length xs \<and> xs ! p = x then Inr p else Inl p)"

text \<open>Lines and characters are 32-bit numbers.\<close>

definition as_u32 :: "nat \<Rightarrow> nat" where
  "as_u32 n = n mod 2 ^ 32"

definition position_of :: "line_index \<Rightarrow> nat \<Rightarrow> position option" where
  "position_of ix byte =
     (let byte = floor_char_boundary (li_text ix) byte;
          line = (case binary_search (li_starts ix) byte of Inr l \<Rightarrow> l | Inl next_line \<Rightarrow> next_line - 1);
          line_start = li_starts ix ! line
      in map_option (\<lambda>prefix. \<lparr>line = as_u32 line, character = as_u32 (sum_list (map (units (li_encoding ix)) prefix))\<rparr>)
           (slice_doc (li_text ix) line_start byte))"

fun offset_loop :: "encoding \<Rightarrow> nat \<Rightarrow> document \<Rightarrow> nat \<Rightarrow> nat \<Rightarrow> nat" where
  "offset_loop enc target [] n byte = byte"
| "offset_loop enc target (c # cs) n byte =
     (if n \<ge> target then byte else offset_loop enc target cs (n + units enc c) (byte + len_utf8 c))"

definition offset_of :: "line_index \<Rightarrow> position \<Rightarrow> nat option" where
  "offset_of ix p =
     (if line p < length (li_starts ix) then
        let line_start = li_starts ix ! line p;
            line_end = (if line p + 1 < length (li_starts ix) then li_starts ix ! (line p + 1) else byte_len (li_text ix))
        in map_option (\<lambda>cs. offset_loop (li_encoding ix) (character p) cs 0 line_start) (slice_doc (li_text ix) line_start line_end)
      else Some (byte_len (li_text ix)))"

section \<open>Edits\<close>

text \<open>A point of a tree: a row and a column in bytes.\<close>

datatype point = Point (row: nat) (column: nat)

record input_edit =
  start_byte :: nat
  old_end_byte :: nat
  new_end_byte :: nat
  start_position :: point
  old_end_position :: point
  new_end_position :: point

text \<open>\<open>rfind('\n')\<close>: the offset of the last newline.\<close>

definition rfind_newline :: "document \<Rightarrow> nat option" where
  "rfind_newline text =
     (if 10 \<in> set text then Some (byte_len text - byte_len (rev (takeWhile (\<lambda>c. c \<noteq> 10) (rev text))) - 1) else None)"

definition line_start_of :: "document \<Rightarrow> nat" where
  "line_start_of prefix = (case rfind_newline prefix of Some nl \<Rightarrow> nl + 1 | None \<Rightarrow> 0)"

definition apply_content_change :: "document \<Rightarrow> encoding \<Rightarrow> position \<Rightarrow> position \<Rightarrow> document \<Rightarrow> (document \<times> input_edit) option" where
  "apply_content_change text enc from_pos to_pos inserted =
     (let ix = new_index text enc in
      case (offset_of ix from_pos, offset_of ix to_pos) of
        (Some start, Some to_byte) \<Rightarrow>
          let old_end = max to_byte start in
          (case (split_bytes start text, split_bytes old_end text) of
             (Some (before, _), Some (until_end, after)) \<Rightarrow>
               let start_pos = Point (line from_pos) (start - line_start_of before);
                   old_end_pos = Point (line to_pos) (old_end - line_start_of until_end);
                   new_end_pos = (case rfind_newline inserted of
                       None \<Rightarrow> Point (row start_pos) (column start_pos + byte_len inserted)
                     | Some last_nl \<Rightarrow> Point (row start_pos + count_list inserted 10) (byte_len inserted - last_nl - 1))
               in Some (before @ inserted @ after,
                    \<lparr>start_byte = start, old_end_byte = old_end, new_end_byte = start + byte_len inserted,
                     start_position = start_pos, old_end_position = old_end_pos, new_end_position = new_end_pos\<rparr>)
           | _ \<Rightarrow> None)
      | _ \<Rightarrow> None)"

section \<open>Semantic tokens\<close>

record raw_token =
  rt_line :: nat
  rt_start :: nat
  rt_len :: nat
  rt_type :: nat

record semantic_token =
  delta_line :: nat
  delta_start :: nat
  st_length :: nat
  st_type :: nat

text \<open>The differences are unsigned; one that would be negative panics.\<close>

fun delta_loop :: "nat \<Rightarrow> nat \<Rightarrow> raw_token list \<Rightarrow> semantic_token list option" where
  "delta_loop prev_line prev_start [] = Some []"
| "delta_loop prev_line prev_start (t # ts) =
     (if rt_line t < prev_line \<or> (rt_line t = prev_line \<and> rt_start t < prev_start) then None
      else let dl = rt_line t - prev_line;
               ds = (if dl = 0 then rt_start t - prev_start else rt_start t)
           in map_option (Cons \<lparr>delta_line = dl, delta_start = ds, st_length = rt_len t, st_type = rt_type t\<rparr>)
                (delta_loop (rt_line t) (rt_start t) ts))"

definition delta_encode :: "raw_token list \<Rightarrow> semantic_token list option" where
  "delta_encode ts = delta_loop 0 0 ts"

section \<open>Boundaries\<close>

lemma encode_length: "length (encode_utf8 c) = len_utf8 c"
  by (simp add: encode_utf8_def len_utf8_def)

lemma len_utf8_pos: "0 < len_utf8 c"
  by (simp add: len_utf8_def)

lemma byte_len_simps [simp]: "byte_len [] = 0" "byte_len (c # cs) = len_utf8 c + byte_len cs"
  "byte_len (xs @ ys) = byte_len xs + byte_len ys"
  by (simp_all add: byte_len_def utf8_of_def encode_length)

lemma byte_len_eq_0 [simp]: "byte_len xs = 0 \<longleftrightarrow> xs = []"
  using len_utf8_pos by (cases xs) auto

lemma encode_newline: "10 \<in> set (encode_utf8 c) \<longleftrightarrow> c = 10"
  by (auto simp: encode_utf8_def)

lemma len_newline [simp]: "len_utf8 10 = 1"
  by (simp add: len_utf8_def)

lemma split_bytes_iff: "split_bytes b text = Some (xs, ys) \<longleftrightarrow> text = xs @ ys \<and> b = byte_len xs"
proof (induction b "text" arbitrary: xs rule: split_bytes.induct)
  case (2 b c cs)
  show ?case
  proof (cases "b = 0")
    case False
    show ?thesis
    proof (cases xs)
      case (Cons d ds)
      show ?thesis
      proof (cases "len_utf8 c \<le> b")
        case True
        then have "(split_bytes (b - len_utf8 c) cs = Some (ds, ys)) = (cs = ds @ ys \<and> b - len_utf8 c = byte_len ds)"
          using 2 False by blast
        then show ?thesis using True False Cons by auto
      qed (use False Cons in auto)
    qed (use False in \<open>auto split: if_splits\<close>)
  qed auto
qed auto

lemma split_bytes_len [simp]: "split_bytes (byte_len xs) (xs @ ys) = Some (xs, ys)"
  by (simp add: split_bytes_iff)

lemma slice_between: "slice_doc (xs @ ys @ zs) (byte_len xs) (byte_len xs + byte_len ys) = Some ys"
proof -
  have "split_bytes (byte_len (xs @ ys)) ((xs @ ys) @ zs) = Some (xs @ ys, zs)" by (rule split_bytes_len)
  then show ?thesis by (simp add: slice_doc_def)
qed

text \<open>The bytes of a document at a boundary and inside a character.\<close>

lemma utf8_append: "utf8_of (xs @ ys) = utf8_of xs @ utf8_of ys"
  by (simp add: utf8_of_def)

lemma encode_first: "\<not> (128 \<le> encode_utf8 c ! 0 \<and> encode_utf8 c ! 0 < 192)"
  by (simp add: encode_utf8_def)

lemma encode_rest: "0 < k \<Longrightarrow> k < len_utf8 c \<Longrightarrow> 128 \<le> encode_utf8 c ! k \<and> encode_utf8 c ! k < 192"
proof -
  assume k: "0 < k" "k < len_utf8 c"
  have "m mod 64 < (64 :: nat)" for m by simp
  then have bound: "128 + m mod 64 < (192 :: nat)" for m using mod_less_divisor [of 64 m] by linarith
  have "k = 1 \<or> k = 2 \<or> k = 3" using k by (auto simp: len_utf8_def split: if_splits)
  then show ?thesis using k bound by (auto simp: encode_utf8_def len_utf8_def nth_Cons' split: if_splits)
qed

lemma char_boundary_iff: "is_char_boundary text b \<longleftrightarrow> (\<exists>xs ys. text = xs @ ys \<and> b = byte_len xs)"
proof (induction "text" arbitrary: b)
  case Nil
  then show ?case by (auto simp: is_char_boundary_def)
next
  case (Cons c cs)
  have shift: "is_char_boundary (c # cs) b = is_char_boundary cs (b - len_utf8 c)" if "len_utf8 c \<le> b" "b \<noteq> len_utf8 c"
    using that by (auto simp: is_char_boundary_def utf8_of_def nth_append encode_length)
  consider "b = 0" | "0 < b" "b < len_utf8 c" | "b = len_utf8 c" | "len_utf8 c < b" by linarith
  then show ?case
  proof cases
    case 1
    then show ?thesis by (auto simp: is_char_boundary_def intro: exI [of _ "[]"])
  next
    case 2
    then have "\<not> is_char_boundary (c # cs) b"
      using encode_rest [of b c] by (auto simp: is_char_boundary_def utf8_of_def nth_append encode_length)
    moreover have "\<not> (\<exists>xs ys. c # cs = xs @ ys \<and> b = byte_len xs)"
      using 2 by (auto simp: Cons_eq_append_conv)
    ultimately show ?thesis by blast
  next
    case 3
    have "is_char_boundary (c # cs) b"
    proof (cases cs)
      case Nil
      then show ?thesis using 3 by (simp add: is_char_boundary_def)
    next
      case (Cons d ds)
      have "utf8_of (c # cs) ! b = encode_utf8 d ! 0"
        using 3 Cons encode_length [of d] len_utf8_pos [of d] by (simp add: utf8_of_def nth_append encode_length)
      then show ?thesis using 3 encode_first [of d] Cons len_utf8_pos [of d] by (simp add: is_char_boundary_def)
    qed
    moreover have "\<exists>xs ys. c # cs = xs @ ys \<and> b = byte_len xs" using 3 by (intro exI [of _ "[c]"] exI [of _ cs]) simp
    ultimately show ?thesis by blast
  next
    case 4
    then have "is_char_boundary (c # cs) b = (\<exists>xs ys. cs = xs @ ys \<and> b - len_utf8 c = byte_len xs)"
      using shift Cons.IH by simp
    also have "\<dots> = (\<exists>xs ys. c # cs = xs @ ys \<and> b = byte_len xs)"
    proof
      assume "\<exists>xs ys. cs = xs @ ys \<and> b - len_utf8 c = byte_len xs"
      then obtain xs ys where "cs = xs @ ys" "b - len_utf8 c = byte_len xs" by blast
      then show "\<exists>xs ys. c # cs = xs @ ys \<and> b = byte_len xs" using 4 by (intro exI [of _ "c # xs"] exI [of _ ys]) simp
    next
      assume "\<exists>xs ys. c # cs = xs @ ys \<and> b = byte_len xs"
      then obtain xs ys where "c # cs = xs @ ys" "b = byte_len xs" by blast
      then show "\<exists>xs ys. cs = xs @ ys \<and> b - len_utf8 c = byte_len xs" using 4 by (cases xs) auto
    qed
    finally show ?thesis .
  qed
qed

lemma floor_from_boundary: "is_char_boundary text (floor_from text b) \<and> floor_from text b \<le> b"
proof (induction "text" b rule: floor_from.induct)
  case (1 "text" b)
  then show ?case by (cases "b > 0 \<and> \<not> is_char_boundary text b") (auto simp: floor_from.simps [of "text" b] is_char_boundary_def)
qed

lemma floor_char_boundary_split:
  obtains xs ys where "text = xs @ ys" "floor_char_boundary text b = byte_len xs"
proof -
  have "is_char_boundary text (floor_char_boundary text b)"
    using floor_from_boundary [of "text" b] by (auto simp: floor_char_boundary_def is_char_boundary_def [of "text" "byte_len text"])
  then show thesis using that char_boundary_iff by blast
qed

lemma floor_of_boundary: "floor_char_boundary (xs @ ys) (byte_len xs) = byte_len xs"
proof -
  have "is_char_boundary (xs @ ys) (byte_len xs)" using char_boundary_iff by blast
  then show ?thesis by (simp add: floor_char_boundary_def floor_from.simps [of "xs @ ys" "byte_len xs"])
qed

section \<open>Lines\<close>

text \<open>The offsets after the newlines, character by character.\<close>

fun line_ends :: "nat \<Rightarrow> document \<Rightarrow> nat list" where
  "line_ends k [] = []"
| "line_ends k (c # cs) = (if c = 10 then [k + 1] else []) @ line_ends (k + len_utf8 c) cs"

lemma encode_newlines:
  "map (\<lambda>i. k + i + 1) (filter (\<lambda>i. encode_utf8 c ! i = 10) [0..<len_utf8 c]) = (if c = 10 then [k + 1] else [])"
proof (cases "c = 10")
  case True
  then show ?thesis by (simp add: encode_utf8_def len_utf8_def)
next
  case False
  then have "encode_utf8 c ! i \<noteq> 10" if "i < len_utf8 c" for i
    using encode_newline [of c] that nth_mem [of i "encode_utf8 c"] by (metis encode_length)
  then show ?thesis using False by (simp add: filter_empty_conv)
qed

lemma upt_add_map: "[m..<m + n] = map (\<lambda>i. m + i) [0..<n]"
  by (simp add: map_add_upt add.commute)

lemma starts_line_ends:
  "map (\<lambda>i. k + i + 1) (filter (\<lambda>i. utf8_of xs ! i = 10) [0..<byte_len xs]) = line_ends k xs"
proof (induction xs arbitrary: k)
  case (Cons c cs)
  let ?n = "len_utf8 c"
  have "[0..<byte_len (c # cs)] = [0..<?n] @ map (\<lambda>i. ?n + i) [0..<byte_len cs]"
    using upt_add_eq_append [of 0 ?n "byte_len cs"] by (simp add: upt_add_map)
  moreover have "filter (\<lambda>i. utf8_of (c # cs) ! i = 10) [0..<?n] = filter (\<lambda>i. encode_utf8 c ! i = 10) [0..<?n]"
    by (intro filter_cong) (auto simp: utf8_of_def nth_append encode_length)
  moreover have "filter (\<lambda>i. utf8_of (c # cs) ! i = 10) (map (\<lambda>i. ?n + i) [0..<byte_len cs])
      = map (\<lambda>i. ?n + i) (filter (\<lambda>i. utf8_of cs ! i = 10) [0..<byte_len cs])"
    by (simp add: filter_map comp_def utf8_of_def nth_append encode_length)
  ultimately show ?case
    using Cons [of "k + ?n"] encode_newlines [of k c] by (simp add: comp_def add.assoc)
qed simp

lemma starts_of_index: "li_starts (new_index xs enc) = 0 # line_ends 0 xs"
  using starts_line_ends [of 0 xs] by (simp add: new_index_def)

lemma line_ends_append: "line_ends k (xs @ ys) = line_ends k xs @ line_ends (k + byte_len xs) ys"
  by (induction xs arbitrary: k) (auto simp: add.assoc)

lemma line_ends_bounds: "e \<in> set (line_ends k xs) \<Longrightarrow> k < e \<and> e \<le> k + byte_len xs"
  by (induction xs arbitrary: k) (force split: if_splits)+

lemma line_ends_none: "10 \<notin> set xs \<Longrightarrow> line_ends k xs = []"
  by (induction xs arbitrary: k) auto

lemma length_line_ends: "length (line_ends k xs) = count_list xs 10"
  by (induction xs arbitrary: k) auto

text \<open>A prefix of a document is whole lines and the beginning of a line.\<close>

lemma split_last_line:
  obtains us ps where "xs = us @ ps" "10 \<notin> set ps" "us = [] \<or> (\<exists>vs. us = vs @ [10])"
proof
  let ?ps = "rev (takeWhile (\<lambda>c. c \<noteq> 10) (rev xs))" and ?us = "rev (dropWhile (\<lambda>c. c \<noteq> 10) (rev xs))"
  show "xs = ?us @ ?ps" by (metis rev_append rev_rev_ident takeWhile_dropWhile_id)
  show "10 \<notin> set ?ps" by (auto dest: set_takeWhileD)
  show "?us = [] \<or> (\<exists>vs. ?us = vs @ [10])"
  proof (cases "dropWhile (\<lambda>c. c \<noteq> 10) (rev xs)")
    case (Cons d ds)
    then have "d = 10" using hd_dropWhile [of "\<lambda>c. c \<noteq> 10" "rev xs"] by simp
    then show ?thesis using Cons by simp
  qed simp
qed

lemma binary_search_between:
  assumes "\<forall>e \<in> set as. e < m" "m \<le> x" "\<forall>e \<in> set bs. x < e"
  shows "(case binary_search (as @ m # bs) x of Inr l \<Rightarrow> l | Inl n \<Rightarrow> n - 1) = length as"
proof (cases "m = x")
  case True
  then have "takeWhile (\<lambda>e. e < x) (as @ m # bs) = as" using assms(1) by (simp add: takeWhile_tail)
  then show ?thesis using True by (simp add: binary_search_def Let_def)
next
  case False
  then have "takeWhile (\<lambda>e. e < x) ((as @ [m]) @ bs) = (as @ [m]) @ takeWhile (\<lambda>e. e < x) bs"
    using assms(1,2) by (intro takeWhile_append2) auto
  moreover have "takeWhile (\<lambda>e. e < x) bs = []" using assms(3) by (cases bs) auto
  ultimately have p: "length (takeWhile (\<lambda>e. e < x) (as @ m # bs)) = Suc (length as)" by simp
  have "(as @ m # bs) ! Suc (length as) \<noteq> x" if "Suc (length as) < length (as @ m # bs)"
    using assms(3) that by (cases bs) (auto simp: nth_append)
  then show ?thesis unfolding binary_search_def Let_def p by auto
qed

text \<open>
  In a document \<open>us @ ps @ ys\<close>, where \<open>us\<close> is whole lines and \<open>ps\<close> has no newline, the offset after
  \<open>ps\<close> is on the line that starts after \<open>us\<close>.
\<close>

lemma starts_split:
  assumes "10 \<notin> set ps" "us = [] \<or> (\<exists>vs. us = vs @ [10])"
  shows "\<exists>as. 0 # line_ends 0 (us @ ps @ ys) = as @ byte_len us # line_ends (byte_len (us @ ps)) ys
    \<and> length as = count_list us 10 \<and> (\<forall>e \<in> set as. e < byte_len us)"
  using assms(2)
proof (elim disjE exE)
  assume "us = []"
  then show ?thesis using line_ends_none [OF assms(1)] by (intro exI [of _ "[]"]) (simp add: line_ends_append)
next
  fix vs
  assume us: "us = vs @ [10]"
  have "0 # line_ends 0 (us @ ps @ ys) = (0 # line_ends 0 vs) @ byte_len us # line_ends (byte_len (us @ ps)) ys"
    using line_ends_none [OF assms(1)] us by (simp add: line_ends_append add.assoc)
  moreover have "\<forall>e \<in> set (0 # line_ends 0 vs). e < byte_len us" using line_ends_bounds [of _ 0 vs] us by fastforce
  moreover have "length (0 # line_ends 0 vs) = count_list us 10" using us by (simp add: length_line_ends)
  ultimately show ?thesis by blast
qed

lemma line_of_offset:
  assumes "10 \<notin> set ps" "us = [] \<or> (\<exists>vs. us = vs @ [10])"
  shows "(0 # line_ends 0 (us @ ps @ ys)) ! count_list us 10 = byte_len us"
    and "(case binary_search (0 # line_ends 0 (us @ ps @ ys)) (byte_len (us @ ps)) of Inr l \<Rightarrow> l | Inl n \<Rightarrow> n - 1) = count_list us 10"
proof -
  obtain as where as: "0 # line_ends 0 (us @ ps @ ys) = as @ byte_len us # line_ends (byte_len (us @ ps)) ys"
    "length as = count_list us 10" "\<forall>e \<in> set as. e < byte_len us" using starts_split [OF assms] by blast
  show "(0 # line_ends 0 (us @ ps @ ys)) ! count_list us 10 = byte_len us"
    unfolding as(1) using as(2) by (metis nth_append_length)
  show "(case binary_search (0 # line_ends 0 (us @ ps @ ys)) (byte_len (us @ ps)) of Inr l \<Rightarrow> l | Inl n \<Rightarrow> n - 1) = count_list us 10"
    unfolding as(1) as(2) [symmetric] by (rule binary_search_between) (use as(3) line_ends_bounds in auto)
qed

text \<open>The end of that line.\<close>

definition first_line :: "document \<Rightarrow> document" where
  "first_line ys = (case dropWhile (\<lambda>c. c \<noteq> 10) ys of [] \<Rightarrow> ys | _ \<Rightarrow> takeWhile (\<lambda>c. c \<noteq> 10) ys @ [10])"

lemma first_line_cases:
  "(10 \<notin> set ys \<and> first_line ys = ys \<and> line_ends k ys = [])
   \<or> (\<exists>rest. ys = first_line ys @ rest \<and> line_ends k ys = (k + byte_len (first_line ys)) # line_ends (k + byte_len (first_line ys)) rest)"
proof (cases "dropWhile (\<lambda>c. c \<noteq> 10) ys")
  case Nil
  then have "10 \<notin> set ys" by auto
  moreover have "first_line ys = ys" unfolding first_line_def Nil by simp
  ultimately show ?thesis by (simp add: line_ends_none)
next
  case (Cons d rest)
  then have "d = 10" using hd_dropWhile [of "\<lambda>c. c \<noteq> 10" ys] by simp
  define zs where "zs = takeWhile (\<lambda>c. c \<noteq> 10) ys"
  have ys: "ys = zs @ 10 # rest" using Cons \<open>d = 10\<close> takeWhile_dropWhile_id unfolding zs_def by metis
  have "10 \<notin> set zs" by (auto simp: zs_def dest: set_takeWhileD)
  moreover have fl: "first_line ys = zs @ [10]" unfolding first_line_def Cons zs_def by simp
  ultimately have "line_ends k ys = (k + byte_len (first_line ys)) # line_ends (k + byte_len (first_line ys)) rest"
    unfolding fl by (simp add: ys line_ends_append line_ends_none add.assoc)
  then show ?thesis using ys fl by (intro disjI2 exI [of _ rest]) simp
qed

lemma line_end_of:
  assumes "10 \<notin> set ps" "us = [] \<or> (\<exists>vs. us = vs @ [10])"
  shows "(if count_list us 10 + 1 < length (0 # line_ends 0 (us @ ps @ ys))
      then (0 # line_ends 0 (us @ ps @ ys)) ! (count_list us 10 + 1) else byte_len (us @ ps @ ys))
    = byte_len (us @ ps @ first_line ys)"
proof -
  obtain as where as: "0 # line_ends 0 (us @ ps @ ys) = as @ byte_len us # line_ends (byte_len (us @ ps)) ys"
    "length as = count_list us 10" using starts_split [OF assms] by blast
  show ?thesis
    unfolding as(1) as(2) [symmetric] using first_line_cases [of ys "byte_len (us @ ps)"]
    by (auto simp: nth_append add.assoc)
qed

lemma split_first_line: "\<exists>rest. ys = first_line ys @ rest"
  using first_line_cases [of ys 0] by auto

section \<open>Positions and offsets\<close>

definition line_and_start :: "document \<Rightarrow> document \<Rightarrow> document \<Rightarrow> bool" where
  "line_and_start xs us ps \<longleftrightarrow> xs = us @ ps \<and> 10 \<notin> set ps \<and> (us = [] \<or> (\<exists>vs. us = vs @ [10]))"

lemma position_at:
  assumes "line_and_start xs us ps"
  shows "position_of (new_index (xs @ ys) enc) (byte_len xs)
    = Some \<lparr>line = as_u32 (count_list us 10), character = as_u32 (sum_list (map (units enc) ps))\<rparr>"
proof -
  have xs: "xs = us @ ps" and c: "10 \<notin> set ps" "us = [] \<or> (\<exists>vs. us = vs @ [10])" using assms by (auto simp: line_and_start_def)
  have "slice_doc (us @ ps @ ys) (byte_len us) (byte_len us + byte_len ps) = Some ps" by (rule slice_between)
  then show ?thesis
    using line_of_offset [OF c, of ys] floor_of_boundary [of "us @ ps" ys] starts_of_index [of "us @ ps @ ys" enc]
    unfolding position_of_def Let_def xs by (simp add: new_index_def)
qed

lemma offset_loop_prefix:
  assumes "\<forall>c \<in> set ps. 0 < units enc c"
  shows "offset_loop enc (n + sum_list (map (units enc) ps)) (ps @ rest) n byte = byte + byte_len ps"
  using assms
proof (induction ps arbitrary: n byte)
  case Nil
  then show ?case by (cases rest) auto
next
  case (Cons c ps)
  then show ?case using Cons.IH [of "n + units enc c" "byte + len_utf8 c"] by (simp add: add.assoc)
qed

lemma units_pos: "0 < units enc c"
  by (cases enc) (auto simp: units_def len_utf8_def len_utf16_def)

lemma index_fields: "li_text (new_index doc enc) = doc" "li_encoding (new_index doc enc) = enc"
  by (simp_all add: new_index_def)

lemma offset_at:
  assumes "line_and_start xs us ps"
  shows "offset_of (new_index (xs @ ys) enc) \<lparr>line = count_list us 10, character = sum_list (map (units enc) ps)\<rparr> = Some (byte_len xs)"
proof -
  have xs: "xs = us @ ps" and c: "10 \<notin> set ps" "us = [] \<or> (\<exists>vs. us = vs @ [10])" using assms by (auto simp: line_and_start_def)
  obtain rest where rest: "ys = first_line ys @ rest" using split_first_line by blast
  have "slice_doc (us @ (ps @ first_line ys) @ rest) (byte_len us) (byte_len us + byte_len (ps @ first_line ys)) = Some (ps @ first_line ys)"
    by (rule slice_between)
  then have slice: "slice_doc (us @ ps @ ys) (byte_len us) (byte_len (us @ ps @ first_line ys)) = Some (ps @ first_line ys)"
    using rest by (simp add: add.assoc)
  have lt: "count_list us 10 < length (0 # line_ends 0 (us @ ps @ ys))"
    by (simp add: line_ends_append length_line_ends)
  have "offset_of (new_index (us @ ps @ ys) enc) \<lparr>line = count_list us 10, character = sum_list (map (units enc) ps)\<rparr>
      = map_option (\<lambda>cs. offset_loop enc (sum_list (map (units enc) ps)) cs 0 (byte_len us)) (Some (ps @ first_line ys))"
    unfolding offset_of_def Let_def starts_of_index index_fields position.select_convs if_P [OF lt] line_of_offset(1) [OF c]
      line_end_of [OF c] slice ..
  then show ?thesis using offset_loop_prefix [of ps enc 0 "first_line ys" "byte_len us"] units_pos by (simp add: xs)
qed

lemma units_le: "units enc c \<le> len_utf8 c"
  by (cases enc) (auto simp: units_def len_utf8_def len_utf16_def)

lemma sum_units_le: "sum_list (map (units enc) ps) \<le> byte_len ps"
  by (induction ps) (auto intro: add_mono units_le)

lemma count_le: "count_list us 10 \<le> byte_len us"
  by (induction us) (auto simp: len_utf8_def)

lemma as_u32_small: "n < 2 ^ 32 \<Longrightarrow> as_u32 n = n"
  by (simp add: as_u32_def)

lemma position_small:
  assumes "line_and_start xs us ps" "byte_len (xs @ ys) < 2 ^ 32"
  shows "position_of (new_index (xs @ ys) enc) (byte_len xs)
    = Some \<lparr>line = count_list us 10, character = sum_list (map (units enc) ps)\<rparr>"
proof -
  have "byte_len us < 2 ^ 32" "byte_len ps < 2 ^ 32" using assms by (auto simp: line_and_start_def)
  then show ?thesis
    using position_at [OF assms(1)] sum_units_le [of enc ps] count_le [of us] by (simp add: as_u32_small)
qed

lemma line_and_start_ex: "\<exists>us ps. line_and_start xs us ps"
  unfolding line_and_start_def using split_last_line [of xs] by metis

text \<open>The point of an offset: the number of newlines before it and the bytes since the last.\<close>

definition point_of :: "document \<Rightarrow> point" where
  "point_of prefix = Point (count_list prefix 10) (byte_len (rev (takeWhile (\<lambda>c. c \<noteq> 10) (rev prefix))))"

lemma count_list_none: "10 \<notin> set ps \<Longrightarrow> count_list ps 10 = 0"
  by (induction ps) auto

lemma rev_takeWhile_last:
  "10 \<notin> set ps \<Longrightarrow> us = [] \<or> (\<exists>vs. us = vs @ [10]) \<Longrightarrow> rev (takeWhile (\<lambda>c. c \<noteq> 10) (rev (us @ ps))) = ps"
proof -
  assume ps: "10 \<notin> set ps" and us: "us = [] \<or> (\<exists>vs. us = vs @ [10])"
  have "takeWhile (\<lambda>c. c \<noteq> 10) (rev ps @ rev us) = rev ps @ takeWhile (\<lambda>c. c \<noteq> 10) (rev us)"
    using ps by (intro takeWhile_append2) auto
  moreover have "takeWhile (\<lambda>c. c \<noteq> 10) (rev us) = []" using us by auto
  ultimately show ?thesis by simp
qed

lemma point_of_split: "line_and_start xs us ps \<Longrightarrow> point_of xs = Point (count_list us 10) (byte_len ps)"
  by (auto simp: line_and_start_def point_of_def count_list_none rev_takeWhile_last simp del: rev_append)

lemma line_start_split: "line_and_start xs us ps \<Longrightarrow> line_start_of xs = byte_len us"
proof -
  assume a: "line_and_start xs us ps"
  then have xs: "xs = us @ ps" and c: "10 \<notin> set ps" "us = [] \<or> (\<exists>vs. us = vs @ [10])" by (auto simp: line_and_start_def)
  show ?thesis
    using c(2)
  proof (elim disjE exE)
    fix vs
    assume us: "us = vs @ [10]"
    then show ?thesis
      using rev_takeWhile_last [OF c] unfolding xs line_start_of_def rfind_newline_def by simp
  qed (use xs c in \<open>simp add: line_start_of_def rfind_newline_def\<close>)
qed

section \<open>Any position\<close>

lemma whole_lines:
  fixes xs :: document
  shows "l \<le> count_list xs 10 \<Longrightarrow> \<exists>us ys. xs = us @ ys \<and> count_list us 10 = l \<and> (us = [] \<or> (\<exists>vs. us = vs @ [10]))"
proof (induction xs arbitrary: l)
  case (Cons c cs)
  show ?case
  proof (cases "l = 0")
    case False
    then have "(if c = 10 then l - 1 else l) \<le> count_list cs 10" using Cons.prems by (simp split: if_splits)
    then obtain us ys where us: "cs = us @ ys" "count_list us 10 = (if c = 10 then l - 1 else l)" "us = [] \<or> (\<exists>vs. us = vs @ [10])"
      using Cons.IH by blast
    have "c # us = [] \<or> (\<exists>vs. c # us = vs @ [10])"
    proof (cases us rule: rev_cases)
      case Nil
      then show ?thesis using us(2) False by (cases "c = 10") auto
    next
      case (snoc vs d)
      then show ?thesis using us(3) by (metis append_Cons append1_eq_conv snoc_eq_iff_butlast)
    qed
    then show ?thesis using us False by (intro exI [of _ "c # us"] exI [of _ ys]) auto
  qed (rule exI [of _ "[]"], simp)
qed auto

lemma offset_loop_boundary: "\<exists>xs ys. cs = xs @ ys \<and> offset_loop enc target cs n byte = byte + byte_len xs"
proof (induction cs arbitrary: n byte)
  case (Cons c cs)
  show ?case
  proof (cases "n \<ge> target")
    case False
    obtain xs ys where "cs = xs @ ys" "offset_loop enc target cs (n + units enc c) (byte + len_utf8 c) = byte + len_utf8 c + byte_len xs"
      using Cons by blast
    then show ?thesis using False by (intro exI [of _ "c # xs"] exI [of _ ys]) simp
  qed (auto intro: exI [of _ "[]"])
qed simp

lemma offset_total: "\<exists>xs ys. doc = xs @ ys \<and> offset_of (new_index doc enc) p = Some (byte_len xs)"
proof (cases "line p < length (0 # line_ends 0 doc)")
  case True
  then have "line p \<le> count_list doc 10" by (simp add: length_line_ends)
  then obtain us ys where doc: "doc = us @ ys" "count_list us 10 = line p" "us = [] \<or> (\<exists>vs. us = vs @ [10])"
    using whole_lines by blast
  have none: "10 \<notin> set []" by simp
  obtain rest where rest: "ys = first_line ys @ rest" using split_first_line by blast
  have slice: "slice_doc (us @ ys) (byte_len us) (byte_len (us @ [] @ first_line ys)) = Some (first_line ys)"
    using slice_between [of us "first_line ys" rest] rest by simp
  have "offset_of (new_index (us @ ys) enc) p = Some (offset_loop enc (character p) (first_line ys) 0 (byte_len us))"
    using True line_of_offset(1) [OF none doc(3), of ys] line_end_of [OF none doc(3), of ys]
    unfolding offset_of_def Let_def starts_of_index index_fields doc(1) append_Nil doc(2) slice [simplified append_Nil]
    by (simp add: slice [simplified])
  then show ?thesis
    using offset_loop_boundary [of "first_line ys" enc "character p" 0 "byte_len us"] doc rest by (metis append_assoc byte_len_simps(3))
next
  case False
  then show ?thesis by (intro exI [of _ doc] exI [of _ "[]"]) (simp add: offset_of_def starts_of_index index_fields)
qed

section \<open>Properties\<close>

text \<open>
  C37. Offsets and positions are inverse. For every offset, in range or not, on a character boundary or not, the
  position exists and leads back to the offset, moved to the boundary before it; in UTF-8 and in UTF-16 columns.
\<close>

theorem position_roundtrip:
  assumes "byte_len doc < 2 ^ 32"
  shows "\<exists>p. position_of (new_index doc enc) b = Some p \<and> offset_of (new_index doc enc) p = Some (floor_char_boundary doc b)"
proof -
  obtain xs ys where xs: "doc = xs @ ys" "floor_char_boundary doc b = byte_len xs" using floor_char_boundary_split .
  obtain us ps where split: "line_and_start xs us ps" using line_and_start_ex by blast
  have "position_of (new_index doc enc) b = position_of (new_index doc enc) (byte_len xs)"
    using xs floor_of_boundary [of xs ys] by (simp add: position_of_def index_fields)
  then show ?thesis
    using position_small [OF split, of ys enc] offset_at [OF split, of ys enc] assms xs by simp
qed

theorem position_roundtrip_witness:
  "\<exists>p. position_of (new_index [97, 10, 128512, 98] Utf16) 4 = Some p \<and> offset_of (new_index [97, 10, 128512, 98] Utf16) p = Some 2"
proof -
  have "byte_len [97, 10, 128512, 98] < 2 ^ 32" by (simp add: len_utf8_def)
  moreover have "floor_char_boundary [97, 10, 128512, 98] 4 = 2"
  proof -
    have bytes: "utf8_of [97, 10, 128512, 98] = [97, 10, 240, 159, 152, 128, 98]" by (simp add: utf8_of_def encode_utf8_def)
    show ?thesis
      by (simp add: floor_char_boundary_def floor_from.simps is_char_boundary_def bytes len_utf8_def)
  qed
  ultimately show ?thesis using position_roundtrip [of "[97, 10, 128512, 98]" Utf16 4] by simp
qed

text \<open>
  C38. An incremental edit between two positions of the document replaces exactly the text between them, and what it
  tells the parser is true: the three offsets and the three points are those of the old and of the new text.
\<close>

theorem edit_consistent:
  assumes "byte_len (xs @ ys @ zs) < 2 ^ 32"
    and "position_of (new_index (xs @ ys @ zs) enc) (byte_len xs) = Some p"
    and "position_of (new_index (xs @ ys @ zs) enc) (byte_len (xs @ ys)) = Some q"
  shows "apply_content_change (xs @ ys @ zs) enc p q ins =
    Some (xs @ ins @ zs,
      \<lparr>start_byte = byte_len xs, old_end_byte = byte_len (xs @ ys), new_end_byte = byte_len (xs @ ins),
       start_position = point_of xs, old_end_position = point_of (xs @ ys), new_end_position = point_of (xs @ ins)\<rparr>)"
proof -
  obtain us ps where s1: "line_and_start xs us ps" using line_and_start_ex by blast
  obtain us' ps' where s2: "line_and_start (xs @ ys) us' ps'" using line_and_start_ex by blast
  have p: "p = \<lparr>line = count_list us 10, character = sum_list (map (units enc) ps)\<rparr>"
    using position_small [OF s1, of "ys @ zs" enc] assms(1,2) by simp
  have q: "q = \<lparr>line = count_list us' 10, character = sum_list (map (units enc) ps')\<rparr>"
    using position_small [OF s2, of zs enc] assms(1,3) by simp
  have offs: "offset_of (new_index (xs @ ys @ zs) enc) p = Some (byte_len xs)"
    "offset_of (new_index (xs @ ys @ zs) enc) q = Some (byte_len (xs @ ys))"
    using offset_at [OF s1, of "ys @ zs" enc] offset_at [OF s2, of zs enc] p q by simp_all
  have points: "Point (line p) (byte_len xs - line_start_of xs) = point_of xs"
    "Point (line q) (byte_len (xs @ ys) - line_start_of (xs @ ys)) = point_of (xs @ ys)"
    using line_start_split [OF s1] line_start_split [OF s2] point_of_split [OF s1] point_of_split [OF s2] p q s1 s2
    by (auto simp: line_and_start_def)
  have splits: "split_bytes (byte_len xs) (xs @ ys @ zs) = Some (xs, ys @ zs)"
    "split_bytes (byte_len (xs @ ys)) (xs @ ys @ zs) = Some (xs @ ys, zs)"
    using split_bytes_len [of "xs @ ys" zs] by simp_all
  have new_end: "(case rfind_newline ins of
        None \<Rightarrow> Point (row (point_of xs)) (column (point_of xs) + byte_len ins)
      | Some last_nl \<Rightarrow> Point (row (point_of xs) + count_list ins 10) (byte_len ins - last_nl - 1)) = point_of (xs @ ins)"
  proof -
    obtain vs rs where s3: "line_and_start ins vs rs" using line_and_start_ex by blast
    then have ins: "ins = vs @ rs" "10 \<notin> set rs" "vs = [] \<or> (\<exists>ws. vs = ws @ [10])" by (auto simp: line_and_start_def)
    show ?thesis
      using ins(3)
    proof (elim disjE exE)
      assume vs: "vs = []"
      then have "line_and_start (xs @ ins) us (ps @ rs)" using s1 ins by (auto simp: line_and_start_def)
      from point_of_split [OF this] show ?thesis
        using point_of_split [OF s1] vs ins by (simp add: rfind_newline_def)
    next
      fix ws
      assume vs: "vs = ws @ [10]"
      have "line_and_start (xs @ ins) (xs @ vs) rs" using vs ins by (auto simp: line_and_start_def)
      from point_of_split [OF this] show ?thesis
        using point_of_split [OF s1] vs ins rev_takeWhile_last [OF ins(2,3)] s1
        by (simp add: rfind_newline_def line_and_start_def count_list_none)
    qed
  qed
  have mx: "max (byte_len (xs @ ys)) (byte_len xs) = byte_len (xs @ ys)" by simp
  show ?thesis
    unfolding apply_content_change_def Let_def offs prod.case option.case mx splits points new_end by simp
qed

theorem edit_consistent_witness:
  "map_option fst (apply_content_change [97, 10, 98, 99] Utf16 \<lparr>line = 0, character = 1\<rparr> \<lparr>line = 1, character = 1\<rparr> [120])
     = Some [97, 120, 99]"
proof -
  have a: "line_and_start [97] [] [97]" "line_and_start [97, 10, 98] [97, 10] [98]" by (auto simp: line_and_start_def)
  have len: "byte_len [97, 10, 98, 99] < 2 ^ 32" by (simp add: len_utf8_def)
  have "position_of (new_index ([97] @ [10, 98] @ [99]) Utf16) (byte_len [97]) = Some \<lparr>line = 0, character = 1\<rparr>"
    "position_of (new_index ([97] @ [10, 98] @ [99]) Utf16) (byte_len ([97] @ [10, 98])) = Some \<lparr>line = 1, character = 1\<rparr>"
    using position_small [OF a(1), of "[10, 98, 99]" Utf16] position_small [OF a(2), of "[99]" Utf16] len
    by (simp_all add: units_def len_utf16_def)
  then show ?thesis using edit_consistent [of "[97]" "[10, 98]" "[99]" Utf16 _ _ "[120]"] len by simp
qed


text \<open>The delta encoding of tokens in document order loses nothing.\<close>

fun delta_decode :: "nat \<Rightarrow> nat \<Rightarrow> semantic_token list \<Rightarrow> raw_token list" where
  "delta_decode prev_line prev_start [] = []"
| "delta_decode prev_line prev_start (d # ds) =
     (let l = prev_line + delta_line d; s = (if delta_line d = 0 then prev_start + delta_start d else delta_start d)
      in \<lparr>rt_line = l, rt_start = s, rt_len = st_length d, rt_type = st_type d\<rparr> # delta_decode l s ds)"

definition before :: "raw_token \<Rightarrow> raw_token \<Rightarrow> bool" where
  "before t u \<longleftrightarrow> rt_line t < rt_line u \<or> (rt_line t = rt_line u \<and> rt_start t \<le> rt_start u)"

lemma delta_loop_decode:
  "sorted_wrt before ts \<Longrightarrow> (\<And>t. t \<in> set ts \<Longrightarrow> l < rt_line t \<or> (l = rt_line t \<and> s \<le> rt_start t))
     \<Longrightarrow> \<exists>ds. delta_loop l s ts = Some ds \<and> delta_decode l s ds = ts"
proof (induction ts arbitrary: l s)
  case (Cons t ts)
  obtain ds where "delta_loop (rt_line t) (rt_start t) ts = Some ds" "delta_decode (rt_line t) (rt_start t) ds = ts"
    using Cons.IH [of "rt_line t" "rt_start t"] Cons.prems(1) by (auto simp: before_def)
  then show ?case using Cons.prems(2) [of t] by (auto simp: Let_def)
qed simp

theorem delta_roundtrip:
  assumes "sorted_wrt before ts"
  shows "\<exists>ds. delta_encode ts = Some ds \<and> delta_decode 0 0 ds = ts"
  unfolding delta_encode_def by (rule delta_loop_decode [OF assms]) auto

theorem delta_roundtrip_witness:
  "\<exists>ds. delta_encode [\<lparr>rt_line = 1, rt_start = 4, rt_len = 2, rt_type = 0\<rparr>, \<lparr>rt_line = 1, rt_start = 9, rt_len = 1, rt_type = 4\<rparr>] = Some ds
     \<and> delta_decode 0 0 ds = [\<lparr>rt_line = 1, rt_start = 4, rt_len = 2, rt_type = 0\<rparr>, \<lparr>rt_line = 1, rt_start = 9, rt_len = 1, rt_type = 4\<rparr>]"
  by (rule delta_roundtrip) (simp add: before_def)

section \<open>Past the end of a line\<close>

text \<open>
  A column past the end of a line leads to the start of the next line, and an edit there tells the
  parser an offset and a point that do not belong together.
\<close>

lemma past_line_end:
  "offset_of (new_index [97, 98, 10, 99] Utf16) \<lparr>line = 0, character = 9\<rparr> = Some 3
   \<and> map_option (\<lambda>(_, e). (start_byte e, start_position e))
       (apply_content_change [97, 98, 10, 99] Utf16 \<lparr>line = 0, character = 9\<rparr> \<lparr>line = 0, character = 9\<rparr> []) = Some (3, Point 0 0)
   \<and> point_of [97, 98, 10] = Point 1 0"
  by (simp add: offset_of_def starts_of_index index_fields slice_doc_def len_utf8_def units_def len_utf16_def apply_content_change_def
      line_start_of_def rfind_newline_def point_of_def Let_def numeral_3_eq_3)

end
