(* ===== verification/Syntax_Tree.thy ===== *)
theory Syntax_Tree
  imports Text_Positions "HOL-Library.Product_Lexorder" "HOL-Library.Char_ord" "HOL-Library.Multiset"
begin

text \<open>
  The features of \<open>crates/syntax/src/lib.rs\<close> that read a parse tree alone: syntax diagnostics, the document outline,
  folding, selection ranges and semantic tokens.

  A parse tree is the data that the tree-sitter interface shows of it: a node has its identity, kind and flags, the field
  of its parent it fills, its byte offsets and rows, its text in the source, and its children. Which tree belongs to a
  source is the parser's affair. The code walks trees with a stack and follows parent links; here a walk
  carries the parent along.
\<close>

section \<open>Parse trees\<close>

record node_data =
  nd_id :: nat
  nd_kind :: string
  nd_named :: bool
  nd_missing :: bool
  nd_error :: bool
  nd_has_error :: bool
  nd_field :: "string option"
  nd_start :: nat
  nd_end :: nat
  nd_start_row :: nat
  nd_end_row :: nat
  nd_text :: string

datatype node = Node (data_of: node_data) (children: "node list")

definition kind :: "node \<Rightarrow> string" where
  "kind n = nd_kind (data_of n)"

definition named_children :: "node \<Rightarrow> node list" where
  "named_children n = filter (\<lambda>c. nd_named (data_of c)) (children n)"

definition child_by_field :: "string \<Rightarrow> node \<Rightarrow> node option" where
  "child_by_field f n = find (\<lambda>c. nd_field (data_of c) = Some f) (children n)"

definition child_of_kind :: "string \<Rightarrow> node \<Rightarrow> node option" where
  "child_of_kind k n = find (\<lambda>c. kind c = k) (named_children n)"

definition has_child_kind :: "string \<Rightarrow> node \<Rightarrow> bool" where
  "has_child_kind k n = list_ex (\<lambda>c. kind c = k) (children n)"

definition node_text :: "node \<Rightarrow> string" where
  "node_text n = nd_text (data_of n)"

lemma node_size_pos [simp]: "0 < size (n :: node)"
  by (cases n) simp

lemma size_child [simp]: "c \<in> set (children n) \<Longrightarrow> size c < size n"
  by (cases n) (auto dest: size_list_estimation' [where f = size, OF _ order_refl])

lemma size_named_child [simp]: "c \<in> set (named_children n) \<Longrightarrow> size c < size n"
  by (auto simp: named_children_def)

lemma size_field_child: "child_by_field f n = Some c \<Longrightarrow> size c < size n"
  by (auto simp: child_by_field_def find_Some_iff)

lemma size_kind_child: "child_of_kind k n = Some c \<Longrightarrow> size c < size n"
  by (auto simp: child_of_kind_def find_Some_iff)

lemma sum_size_children: "sum_list (map size (children n)) < size n"
  by (cases n) (simp add: size_list_conv_sum_list)

text \<open>
  The nodes in the order a stack walk visits them, each with its parent. All children go on the stack and the
  last one is popped first.
\<close>

function visit :: "(node option \<times> node) list \<Rightarrow> (node option \<times> node) list" where
  "visit [] = []"
| "visit ((p, n) # stack) = (p, n) # visit (rev (map (Pair (Some n)) (children n)) @ stack)"
  by pat_completeness auto
termination
  by (relation "measure (\<lambda>stack. sum_list (map (size \<circ> snd) stack))")
    (auto simp: comp_def rev_map [symmetric] sum_size_children)

section \<open>Syntax diagnostics\<close>

type_synonym range = "position \<times> position"

text \<open>The position of an offset always exists (theory \<open>Text_Positions\<close>).\<close>

definition position_at_byte :: "line_index \<Rightarrow> nat \<Rightarrow> position" where
  "position_at_byte ix b = (case position_of ix b of Some p \<Rightarrow> p | None \<Rightarrow> \<lparr>line = 0, character = 0\<rparr>)"

definition range_of :: "line_index \<Rightarrow> node \<Rightarrow> range" where
  "range_of ix n = (position_at_byte ix (nd_start (data_of n)), position_at_byte ix (nd_end (data_of n)))"

definition MAX_DIAGNOSTICS :: nat where
  "MAX_DIAGNOSTICS = 100"

definition missing_message :: "node \<Rightarrow> string" where
  "missing_message n = ''Syntax error: missing `'' @ kind n @ ''`''"

definition damaged_child :: "node \<Rightarrow> bool" where
  "damaged_child c \<longleftrightarrow> nd_has_error (data_of c) \<or> nd_missing (data_of c)"

lemma sum_size_filter: "sum_list (map size (filter P xs)) \<le> sum_list (map size (xs :: node list))"
  by (induction xs) auto

function diagnostics_loop :: "line_index \<Rightarrow> node list \<Rightarrow> (range \<times> string) list \<Rightarrow> (range \<times> string) list" where
  "diagnostics_loop ix [] found = found"
| "diagnostics_loop ix (n # stack) found =
     (if length found \<ge> MAX_DIAGNOSTICS then found
      else if nd_missing (data_of n) then diagnostics_loop ix stack (found @ [(range_of ix n, missing_message n)])
      else if nd_error (data_of n) then diagnostics_loop ix stack (found @ [(range_of ix n, ''Syntax error: unexpected input'')])
      else diagnostics_loop ix (rev (filter damaged_child (children n)) @ stack) found)"
  by pat_completeness auto
termination
proof (relation "measure (\<lambda>(_, stack, _). sum_list (map size stack))", goal_cases)
  case (4 ix n stack found)
  have "sum_list (map size (filter damaged_child (children n))) < size n"
    using sum_size_filter [of damaged_child "children n"] sum_size_children [of n] by linarith
  then show ?case by (simp add: rev_map [symmetric])
qed (auto simp: node.size)

definition syntax_diagnostics :: "line_index \<Rightarrow> node \<Rightarrow> (range \<times> string) list" where
  "syntax_diagnostics ix root = (if \<not> nd_has_error (data_of root) then [] else diagnostics_loop ix [root] [])"

section \<open>The outline\<close>

datatype symbol_kind = SymClass | SymInterface | SymEnum | SymMethod | SymConstructor | SymEnumMember | SymField

datatype document_symbol = DocumentSymbol (sym_name: string) (sym_kind: symbol_kind) (sym_range: range) (sym_selection: range)
  (sym_children: "document_symbol list")

definition symbol_shape :: "string \<Rightarrow> (symbol_kind \<times> string option) option" where
  "symbol_shape k =
     (if k = ''class_declaration'' \<or> k = ''record_declaration'' then Some (SymClass, Some ''class_body'')
      else if k = ''interface_declaration'' then Some (SymInterface, Some ''interface_body'')
      else if k = ''annotation_type_declaration'' then Some (SymInterface, Some ''annotation_type_body'')
      else if k = ''enum_declaration'' then Some (SymEnum, Some ''enum_body'')
      else if k = ''method_declaration'' then Some (SymMethod, None)
      else if k = ''constructor_declaration'' then Some (SymConstructor, None)
      else if k = ''enum_constant'' then Some (SymEnumMember, None)
      else None)"

definition field_symbols :: "line_index \<Rightarrow> node \<Rightarrow> document_symbol list" where
  "field_symbols ix n =
     List.map_filter (\<lambda>c. map_option (\<lambda>name. DocumentSymbol (node_text name) SymField (range_of ix c) (range_of ix name) [])
         (child_by_field ''name'' c))
       (filter (\<lambda>c. kind c = ''variable_declarator'') (named_children n))"

function container_children :: "line_index \<Rightarrow> node \<Rightarrow> document_symbol list"
  and symbol_for :: "line_index \<Rightarrow> node \<Rightarrow> document_symbol option" where
  "container_children ix n =
     concat (map (\<lambda>c.
       if kind c = ''field_declaration'' then field_symbols ix c
       else if kind c = ''enum_body_declarations'' then container_children ix c
       else case symbol_for ix c of Some s \<Rightarrow> [s] | None \<Rightarrow> []) (named_children n))"
| "symbol_for ix n =
     (case symbol_shape (kind n) of
        None \<Rightarrow> None
      | Some (k, body_kind) \<Rightarrow>
          (case child_by_field ''name'' n of
             None \<Rightarrow> None
           | Some name \<Rightarrow>
               Some (DocumentSymbol (node_text name) k (range_of ix n) (range_of ix name)
                 (case body_kind of
                    None \<Rightarrow> []
                  | Some bk \<Rightarrow> (case child_of_kind bk n of None \<Rightarrow> [] | Some body \<Rightarrow> container_children ix body)))))"
  by pat_completeness auto
termination
  by (relation "measure (\<lambda>x. case x of Inl (_, n) \<Rightarrow> size n | Inr (_, n) \<Rightarrow> size n)") (auto simp: size_kind_child)

declare container_children.simps [simp del] symbol_for.simps [simp del]

definition document_symbols :: "line_index \<Rightarrow> node \<Rightarrow> document_symbol list" where
  "document_symbols ix root = container_children ix root"

section \<open>Folding\<close>

datatype fold_kind = FoldComment | FoldImports

type_synonym folding_range = "nat \<times> nat \<times> fold_kind option"

definition foldable :: "string \<Rightarrow> fold_kind option option" where
  "foldable k =
     (if k \<in> {''class_body'', ''interface_body'', ''enum_body'', ''annotation_type_body'', ''block'', ''constructor_body'',
              ''switch_block'', ''array_initializer''} then Some None
      else if k = ''block_comment'' then Some (Some FoldComment)
      else None)"

definition rows :: "node \<Rightarrow> nat \<times> nat" where
  "rows n = (as_u32 (nd_start_row (data_of n)), as_u32 (nd_end_row (data_of n)))"

definition push_fold :: "node \<Rightarrow> fold_kind option \<Rightarrow> folding_range list" where
  "push_fold n k = (case rows n of (s, e) \<Rightarrow> if e > s then [(s, e, k)] else [])"

definition fold_import_group :: "node \<Rightarrow> folding_range list" where
  "fold_import_group root =
     (let imports = filter (\<lambda>c. kind c = ''import_declaration'') (children root) in
      if imports = [] then []
      else let s = fst (rows (hd imports)); e = snd (rows (last imports)) in
        if e > s then [(s, e, Some FoldImports)] else [])"

definition fold_of :: "node \<Rightarrow> folding_range list" where
  "fold_of n = (case foldable (kind n) of Some k \<Rightarrow> push_fold n k | None \<Rightarrow> [])"

definition folding_ranges :: "node \<Rightarrow> folding_range list" where
  "folding_ranges root = fold_import_group root @ concat (map (fold_of \<circ> snd) (visit [(None, root)]))"

section \<open>Selection ranges\<close>

text \<open>A chain of nodes from the innermost to the root; each range points to the larger one.\<close>

datatype selection_range = SelectionRange (sel_range: range) (sel_parent: "selection_range option")

definition selection_chain :: "line_index \<Rightarrow> node list \<Rightarrow> selection_range option" where
  "selection_chain ix chain = foldl (\<lambda>current n. Some (SelectionRange (range_of ix n) current)) None (rev chain)"

section \<open>Semantic tokens\<close>

definition TT_TYPE :: nat where "TT_TYPE = 0"
definition TT_METHOD :: nat where "TT_METHOD = 1"
definition TT_PROPERTY :: nat where "TT_PROPERTY = 3"
definition TT_VARIABLE :: nat where "TT_VARIABLE = 4"
definition TT_ENUM_MEMBER :: nat where "TT_ENUM_MEMBER = 5"
definition TT_DECORATOR :: nat where "TT_DECORATOR = 6"
definition TT_NAMESPACE :: nat where "TT_NAMESPACE = 7"

text \<open>A token may not span lines and is not empty.\<close>

definition emit :: "line_index \<Rightarrow> nat \<Rightarrow> node \<Rightarrow> raw_token list" where
  "emit ix token_type n =
     (case range_of ix n of (s, e) \<Rightarrow>
        if line e \<noteq> line s \<or> character e \<le> character s then []
        else [\<lparr>rt_line = line s, rt_start = character s, rt_len = character e - character s, rt_type = token_type\<rparr>])"

definition emit_named :: "line_index \<Rightarrow> string \<Rightarrow> nat \<Rightarrow> node \<Rightarrow> raw_token list" where
  "emit_named ix f token_type n = (case child_by_field f n of Some name \<Rightarrow> emit ix token_type name | None \<Rightarrow> [])"

definition pattern_binding_identifier :: "node \<Rightarrow> node option" where
  "pattern_binding_identifier n = find (\<lambda>c. kind c = ''identifier'') (named_children n)"

definition method_reference_method :: "node \<Rightarrow> node option" where
  "method_reference_method n =
     (let named = named_children n in
      if length named < 2 then None else if kind (last named) = ''identifier'' then Some (last named) else None)"

definition spread_param_name :: "node \<Rightarrow> node option" where
  "spread_param_name n =
     Option.bind (find (\<lambda>c. kind c = ''variable_declarator'') (named_children n)) (child_by_field ''name'')"

definition is_field :: "node option \<Rightarrow> bool" where
  "is_field p = (case p of Some q \<Rightarrow> kind q = ''field_declaration'' | None \<Rightarrow> False)"

definition declares :: "node option \<times> node \<Rightarrow> (string \<times> nat) option" where
  "declares pn =
     (case pn of (p, n) \<Rightarrow>
        if kind n = ''variable_declarator'' then
          map_option (\<lambda>name. (node_text name, if is_field p then TT_PROPERTY else TT_VARIABLE)) (child_by_field ''name'' n)
        else if kind n \<in> {''formal_parameter'', ''catch_formal_parameter'', ''enhanced_for_statement'', ''instanceof_expression''} then
          map_option (\<lambda>name. (node_text name, TT_VARIABLE)) (child_by_field ''name'' n)
        else if kind n = ''spread_parameter'' then map_option (\<lambda>name. (node_text name, TT_VARIABLE)) (spread_param_name n)
        else if kind n \<in> {''type_pattern'', ''record_pattern_component''} then
          map_option (\<lambda>name. (node_text name, TT_VARIABLE)) (pattern_binding_identifier n)
        else None)"

text \<open>A later declaration overwrites an earlier one of the same name.\<close>

definition declared_roles :: "node \<Rightarrow> string \<rightharpoonup> nat" where
  "declared_roles root = map_of (rev (List.map_filter declares (visit [(None, root)])))"

definition same_node :: "node option \<Rightarrow> node \<Rightarrow> bool" where
  "same_node m n = (case m of Some c \<Rightarrow> nd_id (data_of c) = nd_id (data_of n) | None \<Rightarrow> False)"

definition is_classified_elsewhere :: "node option \<Rightarrow> node \<Rightarrow> bool" where
  "is_classified_elsewhere p n =
     (case p of
        None \<Rightarrow> False
      | Some q \<Rightarrow>
          if kind q \<in> {''variable_declarator'', ''formal_parameter'', ''spread_parameter'', ''catch_formal_parameter'',
              ''enhanced_for_statement'', ''method_declaration'', ''constructor_declaration'', ''class_declaration'',
              ''interface_declaration'', ''enum_declaration'', ''record_declaration'', ''annotation_type_declaration'',
              ''enum_constant'', ''method_invocation'', ''marker_annotation'', ''annotation''}
          then same_node (child_by_field ''name'' q) n
          else if kind q = ''field_access'' then same_node (child_by_field ''field'' q) n
          else if kind q \<in> {''type_pattern'', ''record_pattern_component''} then same_node (pattern_binding_identifier q) n
          else if kind q = ''instanceof_expression'' then same_node (child_by_field ''name'' q) n
          else if kind q = ''method_reference'' then same_node (method_reference_method q) n
          else False)"

definition is_ascii_uppercase :: "char \<Rightarrow> bool" where
  "is_ascii_uppercase c \<longleftrightarrow> CHR ''A'' \<le> c \<and> c \<le> CHR ''Z''"

definition is_ascii_lowercase :: "char \<Rightarrow> bool" where
  "is_ascii_lowercase c \<longleftrightarrow> CHR ''a'' \<le> c \<and> c \<le> CHR ''z''"

definition looks_like_type_name :: "string \<Rightarrow> bool" where
  "looks_like_type_name s \<longleftrightarrow> s \<noteq> [] \<and> is_ascii_uppercase (hd s) \<and> list_ex is_ascii_lowercase s"

fun collect_identifiers :: "node \<Rightarrow> node list" where
  "collect_identifiers (Node d cs) =
     (if nd_kind d = ''identifier'' then [Node d cs] else concat (map collect_identifiers cs))"

definition emit_namespace_path :: "line_index \<Rightarrow> bool \<Rightarrow> node \<Rightarrow> raw_token list" where
  "emit_namespace_path ix is_import n =
     (let ids = collect_identifiers n in
      if \<not> is_import then concat (map (emit ix TT_NAMESPACE) ids)
      else let is_static = has_child_kind ''static'' n; last_index = length ids - 1 in
        concat (map (\<lambda>(i, d). emit ix
          (if is_static \<and> i = last_index \<and> node_text d \<noteq> [] \<and> is_ascii_lowercase (hd (node_text d)) then TT_METHOD else TT_TYPE) d)
          (enumerate 0 ids)))"

definition node_tokens :: "line_index \<Rightarrow> (string \<rightharpoonup> nat) \<Rightarrow> node option \<times> node \<Rightarrow> raw_token list" where
  "node_tokens ix roles pn =
     (case pn of (p, n) \<Rightarrow>
        if kind n \<in> {''class_declaration'', ''interface_declaration'', ''enum_declaration'', ''record_declaration'',
            ''annotation_type_declaration''} then emit_named ix ''name'' TT_TYPE n
        else if kind n = ''type_identifier'' then emit ix TT_TYPE n
        else if kind n \<in> {''method_declaration'', ''method_invocation''} then emit_named ix ''name'' TT_METHOD n
        else if kind n \<in> {''formal_parameter'', ''spread_parameter'', ''catch_formal_parameter'', ''enhanced_for_statement''}
          then emit_named ix ''name'' TT_VARIABLE n
        else if kind n \<in> {''type_pattern'', ''record_pattern_component''} then
          (case pattern_binding_identifier n of Some d \<Rightarrow> emit ix TT_VARIABLE d | None \<Rightarrow> [])
        else if kind n = ''instanceof_expression'' then emit_named ix ''name'' TT_VARIABLE n
        else if kind n = ''method_reference'' then
          (case method_reference_method n of Some d \<Rightarrow> emit ix TT_METHOD d | None \<Rightarrow> [])
        else if kind n = ''variable_declarator'' then emit_named ix ''name'' (if is_field p then TT_PROPERTY else TT_VARIABLE) n
        else if kind n = ''field_access'' then emit_named ix ''field'' TT_PROPERTY n
        else if kind n = ''enum_constant'' then emit_named ix ''name'' TT_ENUM_MEMBER n
        else if kind n \<in> {''marker_annotation'', ''annotation''} then
          (case child_by_field ''name'' n of
             Some name \<Rightarrow> if kind name = ''identifier'' then emit ix TT_DECORATOR name else []
           | None \<Rightarrow> [])
        else if kind n = ''package_declaration'' then emit_namespace_path ix False n
        else if kind n = ''import_declaration'' then emit_namespace_path ix True n
        else if kind n = ''identifier'' \<and> \<not> is_classified_elsewhere p n then
          (case roles (node_text n) of
             Some token_type \<Rightarrow> emit ix token_type n
           | None \<Rightarrow> if looks_like_type_name (node_text n) then emit ix TT_TYPE n else [])
        else [])"

definition token_key :: "raw_token \<Rightarrow> nat \<times> nat" where
  "token_key t = (rt_line t, rt_start t)"

text \<open>\<open>dedup_by_key\<close>: of neighbours with the same key the first stays.\<close>

fun dedup_key :: "('a \<Rightarrow> 'b) \<Rightarrow> 'a list \<Rightarrow> 'a list" where
  "dedup_key f (x # y # ys) = (if f x = f y then dedup_key f (x # ys) else x # dedup_key f (y # ys))"
| "dedup_key f xs = xs"

definition raw_tokens :: "line_index \<Rightarrow> node \<Rightarrow> raw_token list" where
  "raw_tokens ix root = concat (map (node_tokens ix (declared_roles root)) (visit [(None, root)]))"

definition semantic_tokens :: "line_index \<Rightarrow> node \<Rightarrow> semantic_token list option" where
  "semantic_tokens ix root = delta_encode (dedup_key token_key (sort_key token_key (raw_tokens ix root)))"

section \<open>Walks visit every node once\<close>

fun all_nodes :: "node \<Rightarrow> node list" where
  "all_nodes (Node d cs) = Node d cs # concat (map all_nodes cs)"

lemma all_nodes_children: "all_nodes n = n # concat (map all_nodes (children n))"
  by (cases n) simp

lemma mset_concat_map: "mset (concat (map f xs)) = (\<Sum>x \<in># mset xs. mset (f x))"
  by (induction xs) auto

lemma visit_all: "mset (map snd (visit stack)) = mset (concat (map (all_nodes \<circ> snd) stack))"
proof (induction stack rule: visit.induct)
  case (2 p n stack)
  have "mset (concat (map (all_nodes \<circ> snd) (rev (map (Pair (Some n)) (children n))))) = mset (concat (map all_nodes (children n)))"
    by (simp only: mset_concat_map comp_apply mset_rev mset_map) (simp add: comp_def multiset.map_comp)
  then show ?case using 2 by (simp add: all_nodes_children [of n] comp_def del: mset_map)
qed simp

lemma visit_root: "mset (map snd (visit [(None, root)])) = mset (all_nodes root)"
  using visit_all [of "[(None, root)]"] by simp

section \<open>Properties\<close>

text \<open>
  Folding is exact: apart from the import group, the ranges are those of the foldable nodes of the whole
  tree that span more than one row, each node counted once; and every range spans more than one row.
\<close>

theorem folding_ranges_exact:
  "mset (folding_ranges root) = mset (fold_import_group root) + mset (concat (map fold_of (all_nodes root)))
   \<and> list_all (\<lambda>(s, e, _). s < e) (folding_ranges root)"
proof
  have "mset (concat (map fold_of (map snd (visit [(None, root)])))) = (\<Sum>n \<in># mset (map snd (visit [(None, root)])). mset (fold_of n))"
    by (rule mset_concat_map)
  also have "\<dots> = (\<Sum>n \<in># mset (all_nodes root). mset (fold_of n))" by (simp only: visit_root)
  also have "\<dots> = mset (concat (map fold_of (all_nodes root)))" by (rule mset_concat_map [symmetric])
  finally show "mset (folding_ranges root) = mset (fold_import_group root) + mset (concat (map fold_of (all_nodes root)))"
    by (simp add: folding_ranges_def comp_def)
  have "\<forall>(s, e, k) \<in> set (fold_of n). s < e" for n
    by (auto simp: fold_of_def push_fold_def split: option.splits prod.splits if_splits)
  moreover have "\<forall>(s, e, k) \<in> set (fold_import_group root). s < e"
    by (auto simp: fold_import_group_def Let_def)
  ultimately show "list_all (\<lambda>(s, e, _). s < e) (folding_ranges root)"
    by (fastforce simp: folding_ranges_def list_all_iff)
qed

text \<open>The damaged regions of a tree from the outside in, the last child first.\<close>

function damage :: "node \<Rightarrow> node list" where
  "damage n =
     (if nd_missing (data_of n) \<or> nd_error (data_of n) then [n]
      else concat (map damage (rev (filter damaged_child (children n)))))"
  by pat_completeness auto
termination by (relation "measure size") auto

declare damage.simps [simp del]

definition damage_report :: "line_index \<Rightarrow> node \<Rightarrow> range \<times> string" where
  "damage_report ix n = (range_of ix n, if nd_missing (data_of n) then missing_message n else ''Syntax error: unexpected input'')"

lemma diagnostics_loop_exact:
  "length found \<le> MAX_DIAGNOSTICS \<Longrightarrow>
     diagnostics_loop ix stack found = found @ take (MAX_DIAGNOSTICS - length found) (map (damage_report ix) (concat (map damage stack)))"
proof (induction ix stack found rule: diagnostics_loop.induct)
  case (2 ix n stack found)
  consider "length found \<ge> MAX_DIAGNOSTICS" | "length found < MAX_DIAGNOSTICS" "nd_missing (data_of n) \<or> nd_error (data_of n)"
    | "length found < MAX_DIAGNOSTICS" "\<not> nd_missing (data_of n)" "\<not> nd_error (data_of n)" by linarith
  then show ?case
  proof cases
    case 2
    then have "MAX_DIAGNOSTICS - length found = Suc (MAX_DIAGNOSTICS - Suc (length found))" by simp
    then show ?thesis using 2 "2.IH"(1,2) by (auto simp: damage.simps [of n] damage_report_def)
  next
    case 3
    then show ?thesis using "2.IH"(3) "2.prems" by (simp add: damage.simps [of n])
  qed (use 2 in auto)
qed simp

text \<open>
  The syntax diagnostics are the first hundred damaged regions of the tree: of nested ones only the outermost is
  reported, and nothing that is reachable through damaged nodes is left out below the cap.
\<close>

theorem syntax_diagnostics_exact:
  "syntax_diagnostics ix root = (if nd_has_error (data_of root) then map (damage_report ix) (take 100 (damage root)) else [])"
  using diagnostics_loop_exact [of "[]" ix "[root]"] by (simp add: syntax_diagnostics_def MAX_DIAGNOSTICS_def take_map)

lemma dedup_hd: "xs \<noteq> [] \<Longrightarrow> dedup_key f xs \<noteq> [] \<and> hd (dedup_key f xs) = hd xs"
  by (induction f xs rule: dedup_key.induct) auto

lemma dedup_subset: "set (dedup_key f xs) \<subseteq> set xs"
  by (induction f xs rule: dedup_key.induct) auto

lemma dedup_keys: "f ` set (dedup_key f xs) = f ` set xs"
  by (induction f xs rule: dedup_key.induct) auto

lemma dedup_sorted: "sorted (map f xs) \<Longrightarrow> sorted_wrt (<) (map f (dedup_key f xs))"
proof (induction f xs rule: dedup_key.induct)
  case (1 f x y ys)
  show ?case
  proof (cases "f x = f y")
    case False
    then have "f x < f y" using 1(3) by (simp add: order_less_le)
    moreover have "\<forall>z \<in> set (dedup_key f (y # ys)). f y \<le> f z" using 1(3) dedup_subset [of f "y # ys"] by auto
    ultimately show ?thesis using 1 False by auto
  qed (use 1 in auto)
qed auto

text \<open>
  C40. Semantic tokens never underflow and decode to a list that is strictly ordered by position: the raw tokens of
  the tree, one for every position that has any.
\<close>

theorem semantic_tokens_decode:
  "\<exists>ds. semantic_tokens ix root = Some ds
     \<and> sorted_wrt (<) (map token_key (delta_decode 0 0 ds))
     \<and> set (delta_decode 0 0 ds) \<subseteq> set (raw_tokens ix root)
     \<and> token_key ` set (delta_decode 0 0 ds) = token_key ` set (raw_tokens ix root)"
proof -
  let ?ts = "dedup_key token_key (sort_key token_key (raw_tokens ix root))"
  have strict: "sorted_wrt (<) (map token_key ?ts)" by (rule dedup_sorted) simp
  then have "sorted_wrt before ?ts"
    unfolding sorted_wrt_map by (rule sorted_wrt_mono_rel [rotated]) (auto simp: before_def token_key_def)
  then obtain ds where ds: "delta_loop 0 0 ?ts = Some ds" "delta_decode 0 0 ds = ?ts"
    using delta_loop_decode [of ?ts 0 0] by auto
  moreover have "set ?ts \<subseteq> set (raw_tokens ix root)" using dedup_subset [of token_key "sort_key token_key (raw_tokens ix root)"] by simp
  moreover have "token_key ` set ?ts = token_key ` set (raw_tokens ix root)" by (simp add: dedup_keys)
  ultimately show ?thesis using strict by (auto simp: semantic_tokens_def delta_encode_def)
qed

end
