(* ===== verification/Source_Decls.thy ===== *)
theory Source_Decls
  imports Syntax_Tree Java_Types
begin

text \<open>
  Declarations read off parse trees: import contexts (\<open>crates/syntax/src/imports.rs\<close>), type declarations with their
  members, constructors and binary names (\<open>model.rs\<close>, all but the table), and the rendering of signatures
  (\<open>signature.rs\<close>, all but Javadoc). The source text that the code passes along is the text of the nodes.
\<close>

section \<open>Nodes with their ancestors\<close>

text \<open>\<open>node.parent()\<close> is a lookup in the tree; a node that is asked for its parent carries its ancestors, innermost first.\<close>

type_synonym located = "node \<times> node list"

definition up :: "located \<Rightarrow> located option" where
  "up l = (case snd l of [] \<Rightarrow> None | p # ps \<Rightarrow> Some (p, ps))"

definition below :: "located \<Rightarrow> node \<Rightarrow> located" where
  "below l c = (c, fst l # snd l)"

definition kids :: "located \<Rightarrow> located list" where
  "kids l = map (below l) (children (fst l))"

definition named_kids :: "located \<Rightarrow> located list" where
  "named_kids l = map (below l) (named_children (fst l))"

definition root_of :: "located \<Rightarrow> node" where
  "root_of l = last (fst l # snd l)"

lemma up_below [simp]: "up (below l c) = Some l"
  by (simp add: up_def below_def)

lemma fst_below [simp]: "fst (below l c) = c"
  by (simp add: below_def)

lemma fst_kids [simp]: "map fst (kids l) = children (fst l)"
  by (simp add: kids_def comp_def)

lemma size_kid [simp]: "k \<in> set (kids l) \<Longrightarrow> size (fst k) < size (fst l)"
  by (auto simp: kids_def)

lemma size_named_kid [simp]: "k \<in> set (named_kids l) \<Longrightarrow> size (fst k) < size (fst l)"
  by (auto simp: named_kids_def)

text \<open>\<open>Iterator::find_map\<close> and the text of an optional node.\<close>

fun find_map :: "('a \<Rightarrow> 'b option) \<Rightarrow> 'a list \<Rightarrow> 'b option" where
  "find_map f [] = None"
| "find_map f (x # xs) = (case f x of Some y \<Rightarrow> Some y | None \<Rightarrow> find_map f xs)"

lemma find_map_cong [fundef_cong]: "xs = ys \<Longrightarrow> (\<And>x. x \<in> set ys \<Longrightarrow> f x = g x) \<Longrightarrow> find_map f xs = find_map g ys"
  by (induction ys arbitrary: xs) (auto split: option.splits)

lemma find_map_Some: "find_map f xs = Some y \<Longrightarrow> \<exists>x \<in> set xs. f x = Some y"
  by (induction xs) (auto split: option.splits)

lemma in_map_filter: "y \<in> set (List.map_filter f xs) \<longleftrightarrow> (\<exists>x \<in> set xs. f x = Some y)"
  by (induction xs) (auto simp: map_filter_simps split: option.splits)

definition text_or :: "string \<Rightarrow> node option \<Rightarrow> string" where
  "text_or d m = (case m of Some n \<Rightarrow> node_text n | None \<Rightarrow> d)"

text \<open>\<open>str::split_whitespace\<close>.\<close>

function ws_split :: "string \<Rightarrow> string \<Rightarrow> string list" where
  "ws_split word s =
     (if s = [] then (if word = [] then [] else [word])
      else case find (\<lambda>w. starts_with w s) white_space of
          Some w \<Rightarrow> (if word = [] then [] else [word]) @ ws_split [] (drop (length w) s)
        | None \<Rightarrow> ws_split (word @ [hd s]) (tl s))"
  by pat_completeness auto
termination
  by (relation "measure (\<lambda>(_, s). length s)") (auto simp: find_Some_iff dest!: nth_mem white_space_nonempty)

declare ws_split.simps [simp del]

definition split_whitespace :: "string \<Rightarrow> string list" where
  "split_whitespace s = ws_split [] s"

section \<open>Imports (imports.rs)\<close>

record import_context =
  im_package :: "string option"
  im_single :: "string \<rightharpoonup> string"
  im_wildcards :: "string list"

definition trim_semicolons :: "string \<Rightarrow> string" where
  "trim_semicolons s = rev (dropWhile (\<lambda>c. c = CHR '';'') (rev s))"

definition dotted_path :: "string \<Rightarrow> string \<Rightarrow> string option" where
  "dotted_path doc keyword =
     (case strip_prefix keyword (trim doc) of
        None \<Rightarrow> None
      | Some rest \<Rightarrow> (let path = concat (split_whitespace (trim_semicolons (trim rest))) in if path = [] then None else Some path))"

definition import_line :: "import_context \<Rightarrow> node \<Rightarrow> import_context" where
  "import_line im n =
     (if kind n = ''package_declaration'' then im\<lparr>im_package := dotted_path (node_text n) ''package''\<rparr>
      else if kind n = ''import_declaration'' then
        if starts_with ''import static'' (trim_start (node_text n)) then im
        else (case dotted_path (node_text n) ''import'' of
            None \<Rightarrow> im
          | Some path \<Rightarrow>
              (case strip_suffix ''.*'' path of
                 Some pkg \<Rightarrow> im\<lparr>im_wildcards := im_wildcards im @ [pkg]\<rparr>
               | None \<Rightarrow> im\<lparr>im_single := (im_single im)(last (split_char (CHR ''.'') path) \<mapsto> path)\<rparr>))
      else im)"

definition parse_imports :: "node \<Rightarrow> import_context" where
  "parse_imports root = foldl import_line \<lparr>im_package = None, im_single = Map.empty, im_wildcards = []\<rparr> (named_children root)"

definition has_wildcard :: "import_context \<Rightarrow> string \<Rightarrow> bool" where
  "has_wildcard im pkg = list_ex (\<lambda>w. w = pkg) (im_wildcards im)"

definition import_candidates :: "import_context \<Rightarrow> string \<Rightarrow> string list" where
  "import_candidates im simple =
     (case im_single im simple of Some fqn \<Rightarrow> [fqn] | None \<Rightarrow> [])
     @ [case im_package im of Some pkg \<Rightarrow> pkg @ ''.'' @ simple | None \<Rightarrow> simple]
     @ map (\<lambda>w. w @ ''.'' @ simple) (im_wildcards im)
     @ [''java.lang.'' @ simple]"

section \<open>Declarations (model.rs)\<close>

datatype type_kind = ClassType | InterfaceType | EnumType | RecordType | AnnotationType

fun keyword :: "type_kind \<Rightarrow> string" where
  "keyword ClassType = ''class''"
| "keyword InterfaceType = ''interface''"
| "keyword EnumType = ''enum''"
| "keyword RecordType = ''record''"
| "keyword AnnotationType = ''@interface''"

definition from_kind :: "string \<Rightarrow> type_kind option" where
  "from_kind k =
     (if k = ''class_declaration'' then Some ClassType
      else if k = ''interface_declaration'' then Some InterfaceType
      else if k = ''enum_declaration'' then Some EnumType
      else if k = ''record_declaration'' then Some RecordType
      else if k = ''annotation_type_declaration'' then Some AnnotationType
      else None)"

fun body_kind :: "type_kind \<Rightarrow> string" where
  "body_kind ClassType = ''class_body''"
| "body_kind RecordType = ''class_body''"
| "body_kind InterfaceType = ''interface_body''"
| "body_kind EnumType = ''enum_body''"
| "body_kind AnnotationType = ''annotation_type_body''"

datatype source_member_kind = MethodMember | FieldMember | EnumConstantMember | NestedTypeMember type_kind

record source_member =
  sm_name :: string
  sm_kind :: source_member_kind
  sm_node :: located
  sm_is_static :: bool
  sm_doc :: nat

record decl_site =
  ds_doc :: nat
  ds_name_range :: "nat \<times> nat"
  ds_full_range :: "nat \<times> nat"

definition byte_range :: "node \<Rightarrow> nat \<times> nat" where
  "byte_range n = (nd_start (data_of n), nd_end (data_of n))"

definition new_site :: "nat \<Rightarrow> node \<Rightarrow> node \<Rightarrow> decl_site" where
  "new_site doc name full = \<lparr>ds_doc = doc, ds_name_range = byte_range name, ds_full_range = byte_range full\<rparr>"

definition member_site :: "source_member \<Rightarrow> decl_site option" where
  "member_site m = map_option (\<lambda>name. new_site (sm_doc m) name (fst (sm_node m))) (child_by_field ''name'' (fst (sm_node m)))"

definition modifiers_node :: "node \<Rightarrow> node option" where
  "modifiers_node decl = find (\<lambda>c. kind c = ''modifiers'') (named_children decl)"

definition has_modifier :: "string \<Rightarrow> node \<Rightarrow> bool" where
  "has_modifier kw decl = (case modifiers_node decl of Some m \<Rightarrow> list_ex (\<lambda>c. node_text c = kw) (children m) | None \<Rightarrow> False)"

function base_type_name :: "node \<Rightarrow> string option" where
  "base_type_name ty =
     (if kind ty = ''type_identifier'' then Some (node_text ty)
      else if kind ty = ''generic_type'' then (case named_children ty of n # _ \<Rightarrow> base_type_name n | [] \<Rightarrow> None)
      else if kind ty = ''scoped_type_identifier'' then
        map_option node_text (find (\<lambda>n. kind n = ''type_identifier'') (rev (named_children ty)))
      else if kind ty = ''array_type'' then (case child_by_field ''element'' ty of Some el \<Rightarrow> base_type_name el | None \<Rightarrow> None)
      else if kind ty = ''annotated_type'' then find_map base_type_name (named_children ty)
      else None)"
  by pat_completeness auto
termination
  by (relation "measure size") (auto intro: size_named_child dest: size_field_child)

declare base_type_name.simps [simp del]

definition type_ref_simple_name :: "node \<Rightarrow> string option" where
  "type_ref_simple_name n = (if kind n = ''identifier'' then Some (node_text n) else base_type_name n)"

definition super_type_nodes :: "located \<Rightarrow> located list" where
  "super_type_nodes l =
     concat (map (\<lambda>c.
       if kind (fst c) \<in> {''superclass'', ''extends_interfaces'', ''super_interfaces''}
       then concat (map (\<lambda>ty. if kind (fst ty) = ''type_list'' then named_kids ty else [ty]) (named_kids c))
       else []) (named_kids l))"
definition declarator_members :: "nat \<Rightarrow> located \<Rightarrow> source_member list" where
  "declarator_members doc c =
     (let is_static = (kind (fst c) = ''constant_declaration'' \<or> has_modifier ''static'' (fst c)) in
      List.map_filter (\<lambda>d.
        if kind (fst d) = ''variable_declarator'' then
          map_option (\<lambda>name. \<lparr>sm_name = node_text name, sm_kind = FieldMember, sm_node = d, sm_is_static = is_static, sm_doc = doc\<rparr>)
            (child_by_field ''name'' (fst d))
        else None) (named_kids c))"

definition named_member :: "nat \<Rightarrow> source_member_kind \<Rightarrow> bool \<Rightarrow> located \<Rightarrow> source_member list" where
  "named_member doc k is_static c =
     (case child_by_field ''name'' (fst c) of
        Some name \<Rightarrow> [\<lparr>sm_name = node_text name, sm_kind = k, sm_node = c, sm_is_static = is_static, sm_doc = doc\<rparr>]
      | None \<Rightarrow> [])"

function collect_body_members :: "nat \<Rightarrow> located \<Rightarrow> source_member list" where
  "collect_body_members doc body =
     concat (map (\<lambda>c.
       if kind (fst c) \<in> {''field_declaration'', ''constant_declaration''} then declarator_members doc c
       else if kind (fst c) \<in> {''method_declaration'', ''annotation_type_element_declaration''}
         then named_member doc MethodMember (has_modifier ''static'' (fst c)) c
       else if kind (fst c) = ''enum_constant'' then named_member doc EnumConstantMember True c
       else if kind (fst c) = ''enum_body_declarations'' then collect_body_members doc c
       else case from_kind (kind (fst c)) of
           Some k \<Rightarrow> named_member doc (NestedTypeMember k) (has_modifier ''static'' (fst c)) c
         | None \<Rightarrow> []) (named_kids body))"
  by pat_completeness auto
termination by (relation "measure (\<lambda>(_, body). size (fst body))") (simp_all add: size_named_kid [unfolded split_def])

declare collect_body_members.simps [simp del]

function collect_constructors :: "located \<Rightarrow> located list" where
  "collect_constructors body =
     concat (map (\<lambda>c.
       if kind (fst c) = ''constructor_declaration'' then [c]
       else if kind (fst c) = ''enum_body_declarations'' then collect_constructors c
       else []) (named_kids body))"
  by pat_completeness auto
termination by (relation "measure (\<lambda>body. size (fst body))") simp_all

declare collect_constructors.simps [simp del]

fun identity_loop :: "string list \<Rightarrow> node list \<Rightarrow> string list option" where
  "identity_loop names [] = Some names"
| "identity_loop names (a # anc) =
     (if kind a = ''program'' then Some names
      else if kind a \<in> {''block'', ''method_declaration'', ''constructor_declaration'', ''lambda_expression''} then None
      else if kind a = ''object_creation_expression'' \<and> list_ex (\<lambda>c. kind c = ''class_body'') (named_children a) then None
      else identity_loop
        (if from_kind (kind a) \<noteq> None
         then (case child_by_field ''name'' a of Some n \<Rightarrow> names @ [node_text n] | None \<Rightarrow> names) else names) anc)"

definition binary_identity :: "located \<Rightarrow> string \<Rightarrow> nat \<Rightarrow> string option \<Rightarrow> string option \<times> type_id" where
  "binary_identity l name doc package =
     (case identity_loop [name] (snd l) of
        None \<Rightarrow> (None, LocalId doc (nd_id (data_of (fst l))))
      | Some names \<Rightarrow>
          let qualified = join_with ''$'' (rev names);
              binary = (case package of Some p \<Rightarrow> if p = [] then qualified else p @ ''.'' @ qualified | None \<Rightarrow> qualified)
          in (Some binary, NamedId binary))"

record type_decl =
  td_name :: string
  td_kind :: type_kind
  td_super_nodes :: "located list"
  td_node :: located
  td_doc :: nat
  td_binary_name :: "string option"
  td_type_id :: type_id

definition from_node :: "nat \<Rightarrow> string option \<Rightarrow> located \<Rightarrow> type_decl option" where
  "from_node doc package l =
     (case (from_kind (kind (fst l)), child_by_field ''name'' (fst l)) of
        (Some k, Some n) \<Rightarrow>
          (case binary_identity l (node_text n) doc package of (binary, i) \<Rightarrow>
             Some \<lparr>td_name = node_text n, td_kind = k, td_super_nodes = super_type_nodes l, td_node = l, td_doc = doc,
                   td_binary_name = binary, td_type_id = i\<rparr>)
      | _ \<Rightarrow> None)"

definition decl_site_of :: "type_decl \<Rightarrow> decl_site option" where
  "decl_site_of td = map_option (\<lambda>name. new_site (td_doc td) name (fst (td_node td))) (child_by_field ''name'' (fst (td_node td)))"

definition body_of :: "type_decl \<Rightarrow> located option" where
  "body_of td = find (\<lambda>c. kind (fst c) = body_kind (td_kind td)) (named_kids (td_node td))"

definition record_members :: "type_decl \<Rightarrow> source_member list" where
  "record_members td =
     (case child_by_field ''parameters'' (fst (td_node td)) of
        None \<Rightarrow> []
      | Some ps \<Rightarrow>
          concat (map (\<lambda>p. if kind (fst p) = ''formal_parameter'' then named_member (td_doc td) FieldMember False p else [])
            (named_kids (below (td_node td) ps))))"

definition own_members :: "type_decl \<Rightarrow> source_member list" where
  "own_members td =
     (if td_kind td = RecordType then record_members td else [])
     @ (case body_of td of Some body \<Rightarrow> collect_body_members (td_doc td) body | None \<Rightarrow> [])"

definition constructors :: "type_decl \<Rightarrow> located list" where
  "constructors td = (case body_of td of Some body \<Rightarrow> collect_constructors body | None \<Rightarrow> [])"

definition compact_constructor :: "type_decl \<Rightarrow> located option" where
  "compact_constructor td =
     Option.bind (body_of td) (\<lambda>body. find (\<lambda>c. kind (fst c) = ''compact_constructor_declaration'') (named_kids body))"

definition super_simple_names :: "type_decl \<Rightarrow> string list" where
  "super_simple_names td = List.map_filter (base_type_name \<circ> fst) (td_super_nodes td)"

section \<open>Signatures (signature.rs)\<close>

definition collapse_ws :: "string \<Rightarrow> string" where
  "collapse_ws s = join_with '' '' (split_whitespace s)"

definition modifier_keywords :: "node \<Rightarrow> string option" where
  "modifier_keywords decl =
     (case modifiers_node decl of
        None \<Rightarrow> None
      | Some m \<Rightarrow>
          (let kws = filter (\<lambda>s. s \<noteq> []) (map node_text (filter (\<lambda>c. kind c \<notin> {''marker_annotation'', ''annotation''}) (children m))) in
           if kws = [] then None else Some (join_with '' '' kws)))"

definition opt_list :: "'a option \<Rightarrow> 'a list" where
  "opt_list x = (case x of Some y \<Rightarrow> [y] | None \<Rightarrow> [])"

definition type_text :: "node option \<Rightarrow> string" where
  "type_text m = (case m of Some n \<Rightarrow> collapse_ws (node_text n) | None \<Rightarrow> [])"

definition param_signature :: "node \<Rightarrow> string" where
  "param_signature n =
     (if kind n = ''spread_parameter'' then
        trim (type_text (find (\<lambda>c. kind c \<notin> {''modifiers'', ''variable_declarator''}) (named_children n)) @ ''... ''
          @ text_or [] (spread_param_name n))
      else trim (type_text (child_by_field ''type'' n) @ '' '' @ text_or [] (child_by_field ''name'' n)))"

definition param_labels :: "node \<Rightarrow> string list" where
  "param_labels n =
     (case child_by_field ''parameters'' n of
        None \<Rightarrow> []
      | Some ps \<Rightarrow> map param_signature
          (filter (\<lambda>p. kind p \<in> {''formal_parameter'', ''spread_parameter'', ''receiver_parameter''}) (named_children ps)))"

definition parameters_text :: "node \<Rightarrow> string" where
  "parameters_text n = join_with '', '' (param_labels n)"

definition throws_clause :: "node \<Rightarrow> string option" where
  "throws_clause n =
     map_option (\<lambda>t. ''throws '' @ join_with '', '' (map (\<lambda>ty. collapse_ws (node_text ty)) (named_children t)))
       (find (\<lambda>c. kind c = ''throws'') (named_children n))"

definition method_signature :: "node \<Rightarrow> string" where
  "method_signature n =
     (let parts = opt_list (modifier_keywords n) @ map (\<lambda>r. collapse_ws (node_text r)) (opt_list (child_by_field ''type'' n));
          sig = trim_start (join_with '' '' parts @ '' '' @ text_or [] (child_by_field ''name'' n) @ ''('' @ parameters_text n @ '')'')
      in case throws_clause n of Some t \<Rightarrow> sig @ '' '' @ t | None \<Rightarrow> sig)"

definition constructor_signature :: "node \<Rightarrow> string" where
  "constructor_signature n =
     trim_start (join_with '' '' (opt_list (modifier_keywords n)) @ '' '' @ text_or [] (child_by_field ''name'' n)
       @ ''('' @ parameters_text n @ '')'')"

definition field_signature :: "located \<Rightarrow> string" where
  "field_signature l =
     trim_start (join_with '' ''
       ((case up l of
           None \<Rightarrow> []
         | Some p \<Rightarrow> opt_list (modifier_keywords (fst p))
             @ map (\<lambda>ty. collapse_ws (node_text ty)) (opt_list (child_by_field ''type'' (fst p))))
        @ [text_or [] (child_by_field ''name'' (fst l))]))"

definition for_var_signature :: "node \<Rightarrow> string" where
  "for_var_signature n = trim (type_text (child_by_field ''type'' n) @ '' '' @ text_or [] (child_by_field ''name'' n))"

definition clause_types :: "node \<Rightarrow> string" where
  "clause_types c =
     join_with '', '' (concat (map (\<lambda>k. if kind k = ''type_list'' then map (\<lambda>t. collapse_ws (node_text t)) (named_children k)
       else [collapse_ws (node_text k)]) (named_children c)))"

definition type_signature :: "node \<Rightarrow> string" where
  "type_signature n =
     (let k = (if kind n = ''interface_declaration'' then ''interface'' else if kind n = ''enum_declaration'' then ''enum''
               else if kind n = ''record_declaration'' then ''record''
               else if kind n = ''annotation_type_declaration'' then ''@interface'' else ''class'')
      in k @ '' '' @ text_or [] (child_by_field ''name'' n)
         @ concat (map (\<lambda>c.
             if kind c \<in> {''superclass'', ''extends_interfaces''} then '' extends '' @ clause_types c
             else if kind c = ''super_interfaces'' then '' implements '' @ clause_types c
             else []) (named_children n)))"

definition signature :: "located \<Rightarrow> string option" where
  "signature l =
     (let n = fst l in
      if kind n \<in> {''method_declaration'', ''annotation_type_element_declaration''} then Some (method_signature n)
      else if kind n = ''constructor_declaration'' then Some (constructor_signature n)
      else if kind n = ''variable_declarator'' then Some (field_signature l)
      else if kind n \<in> {''formal_parameter'', ''spread_parameter'', ''catch_formal_parameter''} then Some (param_signature n)
      else if kind n = ''enhanced_for_statement'' then Some (for_var_signature n)
      else if kind n = ''enum_constant'' then map_option node_text (child_by_field ''name'' n)
      else if from_kind (kind n) \<noteq> None then Some (type_signature n)
      else None)"

definition erased_signature :: "located \<Rightarrow> string option" where
  "erased_signature l =
     (let n = fst l; name = text_or [] (child_by_field ''name'' n) in
      if kind n \<in> {''method_declaration'', ''annotation_type_element_declaration''} then
        Some ((case child_by_field ''type'' n of Some t \<Rightarrow> collapse_ws (node_text t) | None \<Rightarrow> ''void'') @ '' '' @ name
          @ ''('' @ parameters_text n @ '')'')
      else if kind n = ''constructor_declaration'' then Some (name @ ''('' @ parameters_text n @ '')'')
      else if kind n = ''variable_declarator'' then
        Some (trim (type_text (Option.bind (up l) (\<lambda>p. child_by_field ''type'' (fst p))) @ '' '' @ name))
      else signature l)"
fun close_paren :: "int \<Rightarrow> nat \<Rightarrow> string \<Rightarrow> nat option" where
  "close_paren depth i [] = None"
| "close_paren depth i (b # bs) =
     (if b = CHR ''('' then close_paren (depth + 1) (i + 1) bs
      else if b = CHR '')'' then (if depth - 1 = 0 then Some i else close_paren (depth - 1) (i + 1) bs)
      else close_paren depth (i + 1) bs)"

definition param_list_span :: "string \<Rightarrow> (nat \<times> nat) option" where
  "param_list_span label =
     (case find_sub ''('' label of
        None \<Rightarrow> None
      | Some open \<Rightarrow> map_option (Pair open) (close_paren 0 open (drop open label)))"

fun param_offsets :: "string \<Rightarrow> nat \<Rightarrow> nat \<Rightarrow> string list \<Rightarrow> (nat \<times> nat) list option" where
  "param_offsets label close search_from [] = Some []"
| "param_offsets label close search_from (p # ps) =
     (case find_sub p (drop search_from (take close label)) of
        None \<Rightarrow> None
      | Some i \<Rightarrow>
          (let start = search_from + i; stop = start + length p in
           map_option (Cons (as_u32 start, as_u32 stop)) (param_offsets label close stop ps)))"

definition signature_with_param_offsets :: "located \<Rightarrow> (string \<times> (nat \<times> nat) list) option" where
  "signature_with_param_offsets l =
     (case signature l of
        None \<Rightarrow> None
      | Some label \<Rightarrow>
          (let ps = param_labels (fst l) in
           if ps = [] then Some (label, [])
           else case param_list_span label of
               None \<Rightarrow> None
             | Some (open, close) \<Rightarrow> map_option (Pair label) (param_offsets label close (open + 1) ps)))"

fun count_commas :: "int \<Rightarrow> string \<Rightarrow> nat" where
  "count_commas depth [] = 0"
| "count_commas depth (b # bs) =
     (if b \<in> {CHR ''('', CHR ''['', CHR ''<''} then count_commas (depth + 1) bs
      else if b \<in> {CHR '')'', CHR '']'', CHR ''>''} then count_commas (depth - 1) bs
      else if b = CHR '','' \<and> depth = 0 then Suc (count_commas depth bs)
      else count_commas depth bs)"

definition param_count_in_label :: "string \<Rightarrow> nat" where
  "param_count_in_label label =
     (case param_list_span label of
        None \<Rightarrow> 0
      | Some (open, close) \<Rightarrow>
          (let inner = drop (open + 1) (take close label) in
           if trim inner = [] then 0 else Suc (count_commas 0 inner)))"

section \<open>Parameter spans\<close>

definition spelled :: "string \<Rightarrow> nat \<times> nat \<Rightarrow> string" where
  "spelled label r = drop (fst r) (take (snd r) label)"

lemma close_paren_bounds: "close_paren d i bs = Some c \<Longrightarrow> i \<le> c \<and> c < i + length bs \<and> bs ! (c - i) = CHR '')''"
proof (induction bs arbitrary: d i)
  case (Cons b bs)
  have step: "i + 1 \<le> c \<and> c < i + 1 + length bs \<and> bs ! (c - (i + 1)) = CHR '')'' \<Longrightarrow> ?case"
    by (auto simp: nth_Cons')
  show ?case
  proof (cases "b = CHR '')'' \<and> d - 1 = 0")
    case True
    then show ?thesis using Cons.prems by simp
  next
    case False
    then obtain d' where "close_paren d' (i + 1) bs = Some c" using Cons.prems by (simp split: if_splits)
    then show ?thesis using Cons.IH step by blast
  qed
qed simp

lemma find_sub_at: "find_sub p s = Some i \<Longrightarrow> i + length p \<le> length s \<and> take (length p) (drop i s) = p"
proof (induction s arbitrary: i)
  case (Cons c s)
  show ?case
  proof (cases "starts_with p (c # s)")
    case True
    then have i: "i = 0" using Cons.prems by simp
    have t: "take (length p) (c # s) = p" using True by (simp add: starts_with_def)
    then have "length p \<le> length (c # s)" by (metis length_take min.cobounded1)
    then show ?thesis using i t by simp
  next
    case False
    then obtain j where "i = Suc j" "find_sub p s = Some j" using Cons.prems by auto
    then show ?thesis using Cons.IH by auto
  qed
qed (auto split: if_splits)

lemma param_offsets_spelled:
  "param_offsets label close k ps = Some rs \<Longrightarrow> close \<le> length label \<Longrightarrow> length label < 2 ^ 32 \<Longrightarrow> k \<le> close \<Longrightarrow>
   map (spelled label) rs = ps \<and> sorted_wrt (\<lambda>r r'. snd r \<le> fst r') rs \<and> list_all (\<lambda>r. k \<le> fst r \<and> fst r \<le> snd r \<and> snd r \<le> close) rs"
proof (induction ps arbitrary: k rs)
  case (Cons p ps)
  obtain i where i: "find_sub p (drop k (take close label)) = Some i" using Cons.prems(1) by (auto split: option.splits)
  define st where "st = k + i"
  define sp where "sp = st + length p"
  have at: "i + length p \<le> length (drop k (take close label))" "take (length p) (drop i (drop k (take close label))) = p"
    using find_sub_at [OF i] by auto
  have le: "sp \<le> close" using at(1) Cons.prems(2,4) by (simp add: sp_def st_def)
  obtain rest where rest: "param_offsets label close sp ps = Some rest" "rs = (as_u32 st, as_u32 sp) # rest"
    using Cons.prems(1) i by (auto simp: Let_def st_def sp_def)
  have small: "as_u32 st = st" "as_u32 sp = sp" using le Cons.prems(2,3) by (simp_all add: as_u32_small sp_def)
  have "spelled label (st, sp) = p"
    using at(2) le by (simp add: spelled_def take_drop st_def sp_def add.commute add.left_commute min_absorb1)
  moreover have "k \<le> st" "st \<le> sp" by (simp_all add: st_def sp_def)
  ultimately show ?case
    using Cons.IH [OF rest(1) Cons.prems(2,3) le] rest(2) small le
    by (auto simp: list_all_iff intro: order_trans)
qed simp

lemma param_list_spanD:
  assumes "param_list_span label = Some (a, b)"
  shows "a < b \<and> b < length label \<and> label ! a = CHR ''('' \<and> label ! b = CHR '')''"
proof -
  have f: "find_sub ''('' label = Some a" and c: "close_paren 0 a (drop a label) = Some b"
    using assms by (auto simp: param_list_span_def split: option.splits)
  have a: "a < length label" "label ! a = CHR ''(''"
    using find_sub_at [OF f] by (auto simp: take_Suc hd_drop_conv_nth split: if_splits dest: arg_cong [where f = hd])
  have b: "a \<le> b" "b < length label" "label ! b = CHR '')''"
    using close_paren_bounds [OF c] a(1) by auto
  then have "a \<noteq> b" using a by auto
  then show ?thesis using a b by auto
qed

text \<open>
  The spans handed to signature help are right: each spells the label of its parameter inside the rendered signature,
  they are in order and do not overlap, and they lie between the parentheses of the parameter list.
\<close>

theorem param_spans_exact:
  assumes "signature_with_param_offsets l = Some (label, rs)" "length label < 2 ^ 32" "rs \<noteq> []"
  shows "signature l = Some label \<and> map (spelled label) rs = param_labels (fst l) \<and> sorted_wrt (\<lambda>r r'. snd r \<le> fst r') rs
    \<and> (\<exists>a b. param_list_span label = Some (a, b) \<and> label ! a = CHR ''('' \<and> label ! b = CHR '')''
        \<and> list_all (\<lambda>r. a < fst r \<and> snd r \<le> b) rs)"
proof -
  have sig: "signature l = Some label" using assms(1)
    by (auto simp: signature_with_param_offsets_def Let_def split: option.splits if_splits prod.splits)
  obtain a b where span: "param_list_span label = Some (a, b)" and offs: "param_offsets label b (a + 1) (param_labels (fst l)) = Some rs"
    using assms(1,3) sig
    by (auto simp: signature_with_param_offsets_def Let_def split: option.splits if_splits)
  note ab = param_list_spanD [OF span]
  show ?thesis
    using param_offsets_spelled [OF offs _ assms(2)] ab sig span by (auto simp: list_all_iff Suc_le_eq)
qed
lemma ws_split_solid: "list_all solid s \<Longrightarrow> ws_split word s = (if word @ s = [] then [] else [word @ s])"
proof (induction s arbitrary: word)
  case (Cons c s)
  have "find (\<lambda>w. starts_with w (c # s)) white_space = None"
    using Cons.prems by (auto simp: find_None_iff solid_def dest!: starts_with_hd [OF _ white_space_nonempty])
      (metis hd_in_set white_space_nonempty)
  then show ?case using Cons by (simp add: ws_split.simps [of word "c # s"])
qed (simp add: ws_split.simps)

lemma split_whitespace_solid: "list_all solid s \<Longrightarrow> split_whitespace s = (if s = [] then [] else [s])"
  by (simp add: split_whitespace_def ws_split_solid)

lemma collapse_solid: "list_all solid s \<Longrightarrow> collapse_ws s = s"
  by (simp add: collapse_ws_def split_whitespace_solid)
definition sample_node :: "string \<Rightarrow> string option \<Rightarrow> string \<Rightarrow> node list \<Rightarrow> node" where
  "sample_node k f t cs =
     Node \<lparr>nd_id = 0, nd_kind = k, nd_named = True, nd_missing = False, nd_error = False, nd_has_error = False, nd_field = f,
       nd_start = 0, nd_end = 0, nd_start_row = 0, nd_end_row = 0, nd_text = t\<rparr> cs"

definition sample_parameters :: "string \<Rightarrow> string list \<Rightarrow> node" where
  "sample_parameters ty names =
     sample_node ''formal_parameters'' (Some ''parameters'') [] (map (\<lambda>a. sample_node ''formal_parameter'' None []
       [sample_node ''type_identifier'' (Some ''type'') ty [], sample_node ''identifier'' (Some ''name'') a []]) names)"

definition sample_method_node :: "string \<Rightarrow> string list \<Rightarrow> node" where
  "sample_method_node ret names =
     sample_node ''method_declaration'' None []
       [sample_node ''type_identifier'' (Some ''type'') ret [], sample_node ''identifier'' (Some ''name'') ''f'' [],
        sample_parameters ''A'' names]"

lemma sample_node_simps [simp]:
  "kind (sample_node k f t cs) = k" "node_text (sample_node k f t cs) = t" "children (sample_node k f t cs) = cs"
  "nd_named (data_of (sample_node k f t cs))" "nd_field (data_of (sample_node k f t cs)) = f"
  "child_by_field g (sample_node k f t cs) = find (\<lambda>c. nd_field (data_of c) = Some g) cs"
  "named_children (sample_node k f t cs) = filter (\<lambda>c. nd_named (data_of c)) cs"
  by (simp_all add: sample_node_def kind_def node_text_def child_by_field_def named_children_def)

lemma sample_parameters_simps [simp]:
  "kind (sample_parameters ty names) = ''formal_parameters''" "nd_named (data_of (sample_parameters ty names))"
  "nd_field (data_of (sample_parameters ty names)) = Some ''parameters''"
  by (simp_all add: sample_parameters_def)

lemma sample_method_node_simps [simp]:
  "kind (sample_method_node ret names) = ''method_declaration''"
  "child_by_field ''type'' (sample_method_node ret names) = Some (sample_node ''type_identifier'' (Some ''type'') ret [])"
  "child_by_field ''name'' (sample_method_node ret names) = Some (sample_node ''identifier'' (Some ''name'') ''f'' [])"
  "child_by_field ''parameters'' (sample_method_node ret names) = Some (sample_parameters ''A'' names)"
  "modifiers_node (sample_method_node ret names) = None" "throws_clause (sample_method_node ret names) = None"
  by (simp_all add: sample_method_node_def modifiers_node_def throws_clause_def)

lemma solid_letters: "solid CHR ''A''" "solid CHR ''R''" "solid CHR ''a''" "solid CHR ''b''"
  by (simp_all add: solid_def white_space_def)

lemma sample_labels: "param_labels (sample_method_node ret names) = map (\<lambda>a. trim (''A '' @ a)) names"
  by (simp add: param_labels_def sample_parameters_def param_signature_def type_text_def text_or_def
      collapse_solid solid_letters filter_map comp_def)

lemma trim_solid: "s \<noteq> [] \<Longrightarrow> solid (hd s) \<Longrightarrow> solid (last s) \<Longrightarrow> trim s = s"
  by (simp add: trim_def trim_start_solid trim_end_solid)

lemma sample_signature:
  assumes "list_all solid ret" "ret \<noteq> []"
  shows "signature (sample_method_node ret names, anc) = Some (ret @ '' f('' @ join_with '', '' (map (\<lambda>a. trim (''A '' @ a)) names) @ '')'')"
proof -
  have "solid (hd ret)" using assms by (simp add: list.pred_set)
  then have "trim_start (ret @ s) = ret @ s" for s using assms(2) by (simp add: trim_start_solid)
  then show ?thesis
    using assms
    by (simp add: signature_def method_signature_def parameters_text_def sample_labels modifier_keywords_def opt_list_def text_or_def
        collapse_solid)
qed

lemma sample_trim: "trim ''A a'' = ''A a''" "trim ''A b'' = ''A b''"
  by (simp_all add: trim_solid solid_letters)

lemma sample_spans:
  "signature_with_param_offsets (sample_method_node ''R'' [''a'', ''b''], []) = Some (''R f(A a, A b)'', [(4, 7), (9, 12)])"
proof -
  have "signature (sample_method_node ''R'' [''a'', ''b''], []) = Some ''R f(A a, A b)''"
    using sample_signature [of "''R''" "[''a'', ''b'']" "[]"] by (simp add: solid_letters sample_trim)
  moreover have "param_list_span ''R f(A a, A b)'' = Some (3, 12)"
    by (simp add: param_list_span_def starts_with_def)
  moreover have "param_offsets ''R f(A a, A b)'' 12 4 [''A a'', ''A b''] = Some [(4, 7), (9, 12)]"
    by (simp add: starts_with_def as_u32_def)
  ultimately show ?thesis by (simp add: signature_with_param_offsets_def sample_labels sample_trim del: param_offsets.simps)
qed

theorem param_spans_exact_witness:
  "map (spelled ''R f(A a, A b)'') [(4, 7), (9, 12)] = param_labels (sample_method_node ''R'' [''a'', ''b''])"
  using param_spans_exact [OF sample_spans] by simp

text \<open>
  The list is looked for at the first parenthesis of the label. The text of a return type may hold one, in an annotation
  of a type argument; then the spans are lost.
\<close>

lemma annotated_return_hides_parameters:
  "signature_with_param_offsets (sample_method_node ''L<@S(m)R>'' [''a''], []) = None"
proof -
  have "list_all solid ''L<@S(m)R>''" by (simp add: solid_def white_space_def)
  then have "signature (sample_method_node ''L<@S(m)R>'' [''a''], []) = Some ''L<@S(m)R> f(A a)''"
    using sample_signature [of "''L<@S(m)R>''" "[''a'']" "[]"] by (simp add: sample_trim)
  moreover have "param_list_span ''L<@S(m)R> f(A a)'' = Some (4, 6)"
    by (simp add: param_list_span_def starts_with_def)
  ultimately show ?thesis by (simp add: signature_with_param_offsets_def sample_labels sample_trim starts_with_def)
qed

end
