(* ===== verification/Type_Table.thy ===== *)
theory Type_Table
  imports Source_Decls
begin

text \<open>
  The table of all type declarations of the open documents (\<open>TypeTable\<close> of \<open>crates/syntax/src/model.rs\<close>) and what it
  answers: lookups by binary name, simple name and node, the resolution of type names in the order of the
  language, and the members of a type along its hierarchy; with the helpers \<open>import_path_to_binary\<close>, \<open>flatten_scoped\<close> and
  \<open>dotted_type_name\<close> of \<open>resolve.rs\<close>.
\<close>

section \<open>The table\<close>

record doc_context =
  dc_imports :: import_context
  dc_package :: "string option"

record type_table =
  tt_decls :: "type_decl list"
  tt_by_binary :: "string \<rightharpoonup> nat list"
  tt_by_simple :: "string \<rightharpoonup> nat list"
  tt_by_node :: "nat \<times> nat \<rightharpoonup> nat"
  tt_docs :: "doc_context list"

text \<open>The scan of one document: depth first with a stack, every node with its ancestors.\<close>

function preorder :: "located list \<Rightarrow> located list" where
  "preorder [] = []"
| "preorder (l # stack) = l # preorder (rev (kids l) @ stack)"
  by pat_completeness auto
termination
proof (relation "measure (\<lambda>stack. sum_list (map (size \<circ> fst) stack))", goal_cases)
  case (2 l stack)
  have "sum_list (map (size \<circ> fst) (rev (kids l))) < size (fst l)"
    using sum_size_children [of "fst l"] by (simp add: kids_def comp_def rev_map [symmetric])
  then show ?case by simp
qed simp

definition push_index :: "nat \<Rightarrow> nat list option \<Rightarrow> nat list option" where
  "push_index i known = Some (case known of Some is \<Rightarrow> is @ [i] | None \<Rightarrow> [i])"

definition add_decl :: "type_table \<Rightarrow> type_decl \<Rightarrow> type_table" where
  "add_decl t d =
     (let i = length (tt_decls t) in
      t\<lparr>tt_decls := tt_decls t @ [d],
        tt_by_binary := (case td_binary_name d of
          Some b \<Rightarrow> (tt_by_binary t)(b := push_index i (tt_by_binary t b)) | None \<Rightarrow> tt_by_binary t),
        tt_by_simple := (tt_by_simple t)(td_name d := push_index i (tt_by_simple t (td_name d))),
        tt_by_node := (tt_by_node t)((td_doc d, nd_id (data_of (fst (td_node d)))) \<mapsto> i)\<rparr>)"

definition doc_context_of :: "node \<Rightarrow> doc_context" where
  "doc_context_of root = (let im = parse_imports root in \<lparr>dc_imports = im, dc_package = im_package im\<rparr>)"

definition doc_decls :: "node list \<Rightarrow> nat \<Rightarrow> type_decl list" where
  "doc_decls docs i =
     (if i < length docs then List.map_filter (from_node i (dc_package (doc_context_of (docs ! i)))) (preorder [(docs ! i, [])]) else [])"

definition scan_order :: "nat \<Rightarrow> nat \<Rightarrow> nat list" where
  "scan_order n current = current # filter (\<lambda>i. i \<noteq> current) [0..<n]"

definition build_table :: "node list \<Rightarrow> nat \<Rightarrow> type_table" where
  "build_table docs current =
     foldl (\<lambda>t i. foldl add_decl t (doc_decls docs i))
       \<lparr>tt_decls = [], tt_by_binary = Map.empty, tt_by_simple = Map.empty, tt_by_node = Map.empty, tt_docs = map doc_context_of docs\<rparr>
       (scan_order (length docs) current)"

definition table_get_named :: "type_table \<Rightarrow> string \<Rightarrow> type_decl option" where
  "table_get_named t binary = (case tt_by_binary t binary of Some [i] \<Rightarrow> Some (tt_decls t ! i) | _ \<Rightarrow> None)"

definition table_is_duplicate :: "type_table \<Rightarrow> string \<Rightarrow> bool" where
  "table_is_duplicate t binary = (case tt_by_binary t binary of Some is \<Rightarrow> length is > 1 | None \<Rightarrow> False)"

definition table_candidates :: "type_table \<Rightarrow> string \<Rightarrow> type_decl list" where
  "table_candidates t simple = (case tt_by_simple t simple of Some is \<Rightarrow> map (\<lambda>i. tt_decls t ! i) is | None \<Rightarrow> [])"

definition table_by_node :: "type_table \<Rightarrow> nat \<Rightarrow> nat \<Rightarrow> type_decl option" where
  "table_by_node t doc node_id = map_option (\<lambda>i. tt_decls t ! i) (tt_by_node t (doc, node_id))"

definition table_context :: "type_table \<Rightarrow> nat \<Rightarrow> doc_context option" where
  "table_context t doc = (if doc < length (tt_docs t) then Some (tt_docs t ! doc) else None)"

section \<open>Names\<close>

text \<open>Trailing dots are turned into \<open>$\<close> one by one, at most eight times, until the candidate exists.\<close>

definition dollar_last_dot :: "string \<Rightarrow> string option" where
  "dollar_last_dot s = map_option (\<lambda>(a, b). a @ ''$'' @ b) (rsplit_once (CHR ''.'') s)"

fun dollar_loop :: "(string \<Rightarrow> bool) \<Rightarrow> nat \<Rightarrow> string \<Rightarrow> string option" where
  "dollar_loop exists 0 c = None"
| "dollar_loop exists (Suc n) c =
     (if exists c then Some c else case dollar_last_dot c of None \<Rightarrow> None | Some c' \<Rightarrow> dollar_loop exists n c')"

definition import_path_to_binary :: "(string \<Rightarrow> bool) \<Rightarrow> string \<Rightarrow> string option" where
  "import_path_to_binary exists path = (if path = [] then None else dollar_loop exists 8 path)"

definition MAX_RESOLVE_DEPTH :: nat where
  "MAX_RESOLVE_DEPTH = 64"

function flatten_rec :: "nat \<Rightarrow> node \<Rightarrow> string list \<Rightarrow> string list" where
  "flatten_rec depth n out =
     (if depth > MAX_RESOLVE_DEPTH \<or> length out > MAX_RESOLVE_DEPTH then out
      else if kind n \<in> {''type_identifier'', ''identifier''} then out @ [node_text n]
      else foldl (\<lambda>acc c. flatten_rec (depth + 1) c acc) out (named_children n))"
  by pat_completeness auto
termination by (relation "measure (\<lambda>(_, n, _). size n)") auto

declare flatten_rec.simps [simp del]

definition flatten_scoped :: "node \<Rightarrow> string list" where
  "flatten_scoped n = flatten_rec 0 n []"

function dotted_type_name :: "node \<Rightarrow> string option" where
  "dotted_type_name ty =
     (if kind ty = ''scoped_type_identifier'' then
        (let parts = flatten_scoped ty in if length parts \<ge> 2 then Some (join_with ''.'' parts) else None)
      else if kind ty = ''generic_type'' then (case named_children ty of n # _ \<Rightarrow> dotted_type_name n | [] \<Rightarrow> None)
      else if kind ty = ''annotated_type'' then find_map dotted_type_name (named_children ty)
      else if kind ty = ''array_type'' then (case child_by_field ''element'' ty of Some e \<Rightarrow> dotted_type_name e | None \<Rightarrow> None)
      else None)"
  by pat_completeness auto
termination
  by (relation "measure size") (auto intro: size_named_child dest: size_field_child)

declare dotted_type_name.simps [simp del]

fun lexical_type :: "type_table \<Rightarrow> nat \<Rightarrow> string \<Rightarrow> bool \<Rightarrow> node list \<Rightarrow> type_decl option" where
  "lexical_type t doc simple is_dotted [] = None"
| "lexical_type t doc simple is_dotted (a # anc) =
     (case (if from_kind (kind a) = None then None else table_by_node t doc (nd_id (data_of a))) of
        None \<Rightarrow> lexical_type t doc simple is_dotted anc
      | Some d \<Rightarrow>
          if \<not> is_dotted \<and> td_name d = simple then Some d
          else (case Option.bind (td_binary_name d) (\<lambda>b. table_get_named t (b @ ''$'' @ simple)) of
              Some m \<Rightarrow> if \<not> is_dotted then Some m else lexical_type t doc simple is_dotted anc
            | None \<Rightarrow> lexical_type t doc simple is_dotted anc))"

definition on_demand_type :: "type_table \<Rightarrow> import_context \<Rightarrow> string \<Rightarrow> type_decl option" where
  "on_demand_type t im simple =
     (case filter (\<lambda>c. tt_by_binary t c \<noteq> None) (map (\<lambda>w. w @ ''.'' @ simple) (im_wildcards im) @ [''java.lang.'' @ simple]) of
        [hit] \<Rightarrow> table_get_named t hit
      | _ \<Rightarrow> None)"

definition resolve_type_name_at :: "type_table \<Rightarrow> located \<Rightarrow> string \<Rightarrow> string option \<Rightarrow> nat \<Rightarrow> import_context \<Rightarrow> type_decl option" where
  "resolve_type_name_at t anchor simple dotted doc im =
     (case lexical_type t doc simple (dotted \<noteq> None) (snd anchor) of
        Some d \<Rightarrow> Some d
      | None \<Rightarrow>
          (case dotted of
             Some name \<Rightarrow> Option.bind (dollar_loop (\<lambda>c. table_get_named t c \<noteq> None) 8 name) (table_get_named t)
           | None \<Rightarrow>
               (case im_single im simple of
                  Some path \<Rightarrow> Option.bind (import_path_to_binary (\<lambda>b. tt_by_binary t b \<noteq> None) path) (table_get_named t)
                | None \<Rightarrow>
                    (let same_pkg = (case im_package im of Some p \<Rightarrow> p @ ''.'' @ simple | None \<Rightarrow> simple) in
                     if tt_by_binary t same_pkg \<noteq> None then table_get_named t same_pkg
                     else on_demand_type t im simple))))"

definition resolve_type_name_node :: "type_table \<Rightarrow> located \<Rightarrow> nat \<Rightarrow> import_context \<Rightarrow> type_decl option" where
  "resolve_type_name_node t l doc im =
     (case type_ref_simple_name (fst l) of
        None \<Rightarrow> None
      | Some simple \<Rightarrow> resolve_type_name_at t l simple (dotted_type_name (fst l)) doc im)"

definition source_supers :: "type_table \<Rightarrow> type_decl \<Rightarrow> type_decl list" where
  "source_supers t d =
     (case table_context t (td_doc d) of
        None \<Rightarrow> []
      | Some c \<Rightarrow> List.map_filter (\<lambda>n. resolve_type_name_node t n (td_doc d) (dc_imports c)) (td_super_nodes d))"
section \<open>Inherited members\<close>

definition MAX_SUPER_DEPTH :: nat where
  "MAX_SUPER_DEPTH = 64"

definition decl_key :: "type_decl \<Rightarrow> nat" where
  "decl_key d = nd_id (data_of (fst (td_node d)))"

text \<open>
  The walk both searches share: depth first along the supertypes, guarded by the set of visited declarations and the
  depth; the flag says that the search has ended.
\<close>

function super_walk :: "(type_decl \<Rightarrow> 's \<Rightarrow> bool \<times> 's) \<Rightarrow> (type_decl \<Rightarrow> type_decl list) \<Rightarrow> nat \<Rightarrow> type_decl
      \<Rightarrow> 's \<times> nat set \<Rightarrow> bool \<times> 's \<times> nat set"
  and super_walks :: "(type_decl \<Rightarrow> 's \<Rightarrow> bool \<times> 's) \<Rightarrow> (type_decl \<Rightarrow> type_decl list) \<Rightarrow> nat \<Rightarrow> type_decl list
      \<Rightarrow> 's \<times> nat set \<Rightarrow> bool \<times> 's \<times> nat set" where
  "super_walk own supers depth d (s, visited) =
     (if depth > MAX_SUPER_DEPTH \<or> decl_key d \<in> visited then (False, s, visited)
      else case own d s of
          (True, s') \<Rightarrow> (True, s', insert (decl_key d) visited)
        | (False, s') \<Rightarrow> super_walks own supers (depth + 1) (supers d) (s', insert (decl_key d) visited))"
| "super_walks own supers depth [] sv = (False, fst sv, snd sv)"
| "super_walks own supers depth (d # ds) sv =
     (case super_walk own supers depth d sv of
        (True, sv') \<Rightarrow> (True, sv')
      | (False, sv') \<Rightarrow> super_walks own supers depth ds sv')"
  by pat_completeness auto
termination
  by (relation "measures [\<lambda>x. case x of Inl (_, _, depth, _, _) \<Rightarrow> 66 - depth | Inr (_, _, depth, _, _) \<Rightarrow> 66 - depth,
       \<lambda>x. case x of Inl _ \<Rightarrow> 0 | Inr (_, _, _, ds, _) \<Rightarrow> Suc (length ds)]") (auto simp: MAX_SUPER_DEPTH_def)

definition own_named :: "string \<Rightarrow> type_decl \<Rightarrow> source_member option \<Rightarrow> bool \<times> source_member option" where
  "own_named name d s = (case find (\<lambda>m. sm_name m = name) (own_members d) of Some m \<Rightarrow> (True, Some m) | None \<Rightarrow> (False, s))"

definition find_member :: "type_table \<Rightarrow> type_decl \<Rightarrow> string \<Rightarrow> source_member option" where
  "find_member t d name = fst (snd (super_walk (own_named name) (source_supers t) 0 d (None, {})))"

definition member_signature :: "source_member \<Rightarrow> string" where
  "member_signature m = (case signature (sm_node m) of Some s \<Rightarrow> s | None \<Rightarrow> sm_name m)"

fun add_own :: "source_member list \<Rightarrow> source_member list \<times> string set \<Rightarrow> source_member list \<times> string set" where
  "add_own [] acc = acc"
| "add_own (m # ms) (out, seen_sig) =
     add_own ms (if member_signature m \<in> seen_sig then (out, seen_sig) else (out @ [m], insert (member_signature m) seen_sig))"

definition collect_inherited :: "type_table \<Rightarrow> type_decl \<Rightarrow> source_member list \<times> string set" where
  "collect_inherited t d = fst (snd (super_walk (\<lambda>d acc. (False, add_own (own_members d) acc)) (source_supers t) 0 d (([], {}), {})))"

definition all_members :: "type_table \<Rightarrow> type_decl \<Rightarrow> bool \<Rightarrow> source_member list" where
  "all_members t d static_only =
     (let out = fst (collect_inherited t d) in
      if static_only then filter (\<lambda>m. sm_is_static m \<or> (case sm_kind m of NestedTypeMember _ \<Rightarrow> True | _ \<Rightarrow> False)) out else out)"
section \<open>What the table holds\<close>

definition empty_table :: "doc_context list \<Rightarrow> type_table" where
  "empty_table docs = \<lparr>tt_decls = [], tt_by_binary = Map.empty, tt_by_simple = Map.empty, tt_by_node = Map.empty, tt_docs = docs\<rparr>"

lemma foldl_concat: "foldl (\<lambda>t i. foldl f t (g i)) t is = foldl f t (concat (map g is))"
  by (induction "is" arbitrary: t) auto

definition scanned :: "node list \<Rightarrow> nat \<Rightarrow> type_decl list" where
  "scanned docs current = concat (map (doc_decls docs) (scan_order (length docs) current))"

lemma build_table_foldl: "build_table docs current = foldl add_decl (empty_table (map doc_context_of docs)) (scanned docs current)"
  by (simp add: build_table_def foldl_concat scanned_def empty_table_def)

definition positions :: "('a \<Rightarrow> bool) \<Rightarrow> 'a list \<Rightarrow> nat list" where
  "positions P xs = filter (\<lambda>i. P (xs ! i)) [0..<length xs]"

lemma positions_snoc: "positions P (xs @ [x]) = positions P xs @ (if P x then [length xs] else [])"
proof -
  have "filter (\<lambda>i. P ((xs @ [x]) ! i)) [0..<length xs] = filter (\<lambda>i. P (xs ! i)) [0..<length xs]"
    by (rule filter_cong) (auto simp: nth_append)
  then show ?thesis by (simp add: positions_def)
qed

lemma positions_nth: "map ((!) xs) (positions P xs) = filter P xs"
proof (induction xs rule: rev_induct)
  case (snoc x xs)
  have "map ((!) (xs @ [x])) (positions P xs) = map ((!) xs) (positions P xs)"
    by (rule map_cong) (auto simp: positions_def nth_append)
  then show ?case using snoc by (simp add: positions_snoc)
qed (simp add: positions_def)

lemma positions_Nil: "positions P xs = [] \<longleftrightarrow> filter P xs = []"
  using positions_nth [of xs P] by (metis map_is_Nil_conv)

lemma length_positions: "length (positions P xs) = length (filter P xs)"
  using positions_nth [of xs P] by (metis length_map)

definition nonempty :: "'a list \<Rightarrow> 'a list option" where
  "nonempty xs = (if xs = [] then None else Some xs)"

lemma push_index_nonempty: "push_index i (nonempty is) = nonempty (is @ [i])"
  by (simp add: push_index_def nonempty_def)

lemma foldl_add_decl:
  "tt_decls (foldl add_decl (empty_table docs) ds) = ds \<and> tt_docs (foldl add_decl (empty_table docs) ds) = docs
   \<and> tt_by_binary (foldl add_decl (empty_table docs) ds) = (\<lambda>b. nonempty (positions (\<lambda>d. td_binary_name d = Some b) ds))
   \<and> tt_by_simple (foldl add_decl (empty_table docs) ds) = (\<lambda>s. nonempty (positions (\<lambda>d. td_name d = s) ds))
   \<and> tt_by_node (foldl add_decl (empty_table docs) ds) = (\<lambda>k. map_option last (nonempty (positions (\<lambda>d. (td_doc d, decl_key d) = k) ds)))"
proof (induction ds rule: rev_induct)
  case Nil
  then show ?case by (simp add: empty_table_def positions_def nonempty_def fun_eq_iff)
next
  case (snoc d ds)
  then show ?case
    by (simp add: add_decl_def Let_def fun_eq_iff positions_snoc push_index_nonempty decl_key_def split: option.splits)
      (auto simp: nonempty_def)
qed

lemmas table_fields =
  foldl_add_decl [of "map doc_context_of docs" "scanned docs current", folded build_table_foldl, THEN conjunct1]
  foldl_add_decl [of "map doc_context_of docs" "scanned docs current", folded build_table_foldl, THEN conjunct2, THEN conjunct1]
  foldl_add_decl [of "map doc_context_of docs" "scanned docs current", folded build_table_foldl, THEN conjunct2, THEN conjunct2, THEN conjunct1]
  foldl_add_decl [of "map doc_context_of docs" "scanned docs current", folded build_table_foldl, THEN conjunct2, THEN conjunct2, THEN conjunct2,
    THEN conjunct1]
  foldl_add_decl [of "map doc_context_of docs" "scanned docs current", folded build_table_foldl, THEN conjunct2, THEN conjunct2, THEN conjunct2,
    THEN conjunct2]
  for docs current

definition all_decls :: "node list \<Rightarrow> type_decl list" where
  "all_decls docs = concat (map (doc_decls docs) [0..<length docs])"

definition only_one :: "'a list \<Rightarrow> 'a option" where
  "only_one xs = (case xs of [x] \<Rightarrow> Some x | _ \<Rightarrow> None)"

lemma only_one_mset: "mset xs = mset ys \<Longrightarrow> only_one xs = only_one ys"
  by (cases xs rule: remdups_adj.cases; cases ys rule: remdups_adj.cases) (auto simp: only_one_def dest: arg_cong [where f = size])

lemma scan_order_mset: "current < n \<Longrightarrow> mset (scan_order n current) = mset [0..<n]"
proof -
  assume "current < n"
  then have "set (scan_order n current) = set [0..<n]" "distinct (scan_order n current)" by (auto simp: scan_order_def)
  then show ?thesis using set_eq_iff_mset_eq_distinct [of "scan_order n current" "[0..<n]"] by simp
qed

lemma mset_concat_cong: "mset is = mset js \<Longrightarrow> mset (concat (map f is)) = mset (concat (map f js))"
  by (metis mset_concat_map)

lemma scanned_mset: "current < length docs \<Longrightarrow> mset (scanned docs current) = mset (all_decls docs)"
  unfolding scanned_def all_decls_def by (intro mset_concat_cong scan_order_mset)

lemma get_named_scanned: "table_get_named (build_table docs current) b = only_one (filter (\<lambda>d. td_binary_name d = Some b) (scanned docs current))"
proof -
  let ?P = "\<lambda>d. td_binary_name d = Some b" and ?ds = "scanned docs current"
  have len: "length (positions ?P ?ds) = length (filter ?P ?ds)" by (rule length_positions)
  show ?thesis
  proof (cases "\<exists>i. positions ?P ?ds = [i]")
    case True
    then obtain i where i: "positions ?P ?ds = [i]" by blast
    then have "filter ?P ?ds = [?ds ! i]" using positions_nth [of ?ds ?P] by simp
    then show ?thesis using i by (simp add: table_get_named_def table_fields nonempty_def only_one_def)
  next
    case False
    then have "only_one (filter ?P ?ds) = None" using len by (auto simp: only_one_def length_Suc_conv split: list.splits)
    moreover have "table_get_named (build_table docs current) b = None"
      using False by (auto simp: table_get_named_def table_fields nonempty_def split: option.splits list.splits)
    ultimately show ?thesis by simp
  qed
qed

section \<open>Properties\<close>

text \<open>
  A binary name is answered from the documents alone: with the declaration that has it when exactly one has, and as
  ambiguous exactly when several have. Which document is current, and is scanned first, makes no difference.
\<close>

theorem named_lookup_exact:
  assumes "current < length docs"
  shows "table_get_named (build_table docs current) b = only_one (filter (\<lambda>d. td_binary_name d = Some b) (all_decls docs))
    \<and> table_is_duplicate (build_table docs current) b = (length (filter (\<lambda>d. td_binary_name d = Some b) (all_decls docs)) > 1)"
proof
  have m: "mset (filter (\<lambda>d. td_binary_name d = Some b) (scanned docs current)) = mset (filter (\<lambda>d. td_binary_name d = Some b) (all_decls docs))"
    using scanned_mset [OF assms] by (simp add: mset_filter)
  show "table_get_named (build_table docs current) b = only_one (filter (\<lambda>d. td_binary_name d = Some b) (all_decls docs))"
    unfolding get_named_scanned by (rule only_one_mset [OF m])
  show "table_is_duplicate (build_table docs current) b = (length (filter (\<lambda>d. td_binary_name d = Some b) (all_decls docs)) > 1)"
    using mset_eq_length [OF m]
    by (auto simp: table_is_duplicate_def table_fields nonempty_def length_positions positions_Nil)
qed
section \<open>Walking the hierarchy\<close>

definition ancestry :: "type_table \<Rightarrow> type_decl \<Rightarrow> type_decl set" where
  "ancestry t d = {e. (d, e) \<in> {(x, y). y \<in> set (source_supers t x)}\<^sup>*}"

lemma ancestry_self [simp]: "d \<in> ancestry t d"
  by (simp add: ancestry_def)

lemma ancestry_step: "x \<in> ancestry t d \<Longrightarrow> y \<in> set (source_supers t x) \<Longrightarrow> y \<in> ancestry t d"
  unfolding ancestry_def by (auto intro: rtrancl_into_rtrancl)

lemma ancestry_least:
  assumes "x \<in> ancestry t d" "d \<in> W" "\<And>y. y \<in> W \<Longrightarrow> set (source_supers t y) \<subseteq> W"
  shows "x \<in> W"
proof -
  have "(d, x) \<in> {(x, y). y \<in> set (source_supers t x)}\<^sup>*" using assms(1) by (simp add: ancestry_def)
  then show ?thesis by (induction rule: rtrancl_induct) (use assms(2,3) in auto)
qed

text \<open>
  A walk that is not ended early visits everything reachable that was not visited before, as long as there is
  less of it than the depth limit: what it does at a declaration (\<open>P\<close>) is done for all of them.
\<close>

definition walk_ok :: "type_decl set \<Rightarrow> (type_decl \<Rightarrow> type_decl list) \<Rightarrow> (type_decl \<Rightarrow> 's \<Rightarrow> bool \<times> 's) \<Rightarrow> (type_decl \<Rightarrow> 's \<Rightarrow> bool) \<Rightarrow> bool" where
  "walk_ok R supers own P \<longleftrightarrow>
     (\<forall>x \<in> R. set (supers x) \<subseteq> R) \<and> inj_on decl_key R \<and> finite R \<and> card R \<le> 65
     \<and> (\<forall>x s s'. own x s = (False, s') \<longrightarrow> P x s')
     \<and> (\<forall>x y s s'. P x s \<and> own y s = (False, s') \<longrightarrow> P x s')"

definition covered :: "type_decl set \<Rightarrow> (type_decl \<Rightarrow> type_decl list) \<Rightarrow> (type_decl \<Rightarrow> 's \<Rightarrow> bool) \<Rightarrow> nat set
    \<Rightarrow> 's \<times> nat set \<Rightarrow> 's \<times> nat set \<Rightarrow> bool" where
  "covered R supers P ks sv sv' \<longleftrightarrow>
     snd sv \<subseteq> snd sv' \<and> snd sv' \<subseteq> decl_key ` R \<and> ks \<subseteq> snd sv' \<and> (\<forall>x. P x (fst sv) \<longrightarrow> P x (fst sv'))
     \<and> (\<forall>x \<in> R. decl_key x \<in> snd sv' - snd sv \<longrightarrow> P x (fst sv') \<and> decl_key ` set (supers x) \<subseteq> snd sv')"

lemma covered_trans:
  assumes "covered R supers P ks sv sv'" "covered R supers P ks' sv' sv''"
  shows "covered R supers P (ks \<union> ks') sv sv''"
proof -
  have "P x (fst sv'') \<and> decl_key ` set (supers x) \<subseteq> snd sv''" if x: "x \<in> R" "decl_key x \<in> snd sv'' - snd sv" for x
  proof (cases "decl_key x \<in> snd sv'")
    case True
    then have "P x (fst sv') \<and> decl_key ` set (supers x) \<subseteq> snd sv'" using assms(1) x by (auto simp: covered_def)
    then show ?thesis using assms(2) by (auto simp: covered_def)
  next
    case False
    then show ?thesis using assms(2) x by (auto simp: covered_def)
  qed
  then show ?thesis using assms by (auto simp: covered_def)
qed

lemma covered_visit:
  assumes ok: "walk_ok R supers own P" and d: "d \<in> R" "decl_key d \<notin> V" and V: "V \<subseteq> decl_key ` R" and own: "own d s = (False, s')"
    and rest: "covered R supers P (decl_key ` set (supers d)) (s', insert (decl_key d) V) sv'"
  shows "covered R supers P {decl_key d} (s, V) sv'"
proof -
  have inj: "x = d" if "x \<in> R" "decl_key x = decl_key d" for x
    using ok d(1) that by (auto simp: walk_ok_def dest: inj_onD)
  have "P d s'" "\<And>x. P x s \<Longrightarrow> P x s'" using ok own unfolding walk_ok_def by blast+
  note P = this
  have "P x (fst sv') \<and> decl_key ` set (supers x) \<subseteq> snd sv'" if x: "x \<in> R" "decl_key x \<in> snd sv' - V" for x
  proof (cases "decl_key x = decl_key d")
    case True
    then have "x = d" using inj x(1) by blast
    then show ?thesis using rest P(1) by (auto simp: covered_def)
  next
    case False
    then show ?thesis using rest x by (auto simp: covered_def)
  qed
  then show ?thesis using rest P(2) by (auto simp: covered_def)
qed

lemma super_walk_visits:
  "walk_ok R supers own P \<Longrightarrow> d \<in> R \<Longrightarrow> super_walk own supers depth d sv = (False, sv') \<Longrightarrow> snd sv \<subseteq> decl_key ` R
     \<Longrightarrow> depth \<le> card (snd sv) \<Longrightarrow> covered R supers P {decl_key d} sv sv'"
  "walk_ok R supers own P \<Longrightarrow> set ds \<subseteq> R \<Longrightarrow> super_walks own supers depth ds sv = (False, sv') \<Longrightarrow> snd sv \<subseteq> decl_key ` R
     \<Longrightarrow> depth \<le> card (snd sv) \<Longrightarrow> covered R supers P (decl_key ` set ds) sv sv'"
proof (induction own supers depth d sv and own supers depth ds sv arbitrary: sv' and sv' rule: super_walk_super_walks.induct)
  case (1 own supers depth d s V)
  have R: "finite R" "card R \<le> 65" "set (supers d) \<subseteq> R" using "1.prems"(1,2) by (auto simp: walk_ok_def)
  have V: "V \<subseteq> decl_key ` R" "depth \<le> card V" using "1.prems"(4,5) by simp_all
  have fin: "finite V" using V(1) R(1) by (meson finite_imageI finite_subset)
  show ?case
  proof (cases "decl_key d \<in> V")
    case True
    then have "sv' = (s, V)" using "1.prems"(3) by simp
    then show ?thesis using True V by (simp add: covered_def)
  next
    case False
    then have "V \<subset> decl_key ` R" using V(1) "1.prems"(2) by blast
    then have "card V < card (decl_key ` R)" using R(1) by (intro psubset_card_mono) auto
    then have depth: "\<not> depth > MAX_SUPER_DEPTH"
      using V(2) R(2) card_image_le [OF R(1), of decl_key] by (simp add: MAX_SUPER_DEPTH_def)
    obtain stop s' where own: "own d s = (stop, s')" by (cases "own d s") auto
    have stop: "\<not> stop" using "1.prems"(3) False depth own by (auto split: if_splits)
    have run: "super_walks own supers (depth + 1) (supers d) (s', insert (decl_key d) V) = (False, sv')"
      using "1.prems"(3) False depth own stop by simp
    have "covered R supers P (decl_key ` set (supers d)) (s', insert (decl_key d) V) sv'"
      using "1.IH" [OF _ own [symmetric] _ "1.prems"(1) R(3) run] False depth stop V fin "1.prems"(2) by simp
    then show ?thesis
      using covered_visit [OF "1.prems"(1,2) False V(1), of s s' sv'] own stop by simp
  qed
next
  case (2 own supers depth sv)
  then show ?case by (auto simp: covered_def)
next
  case (3 own supers depth d ds sv)
  obtain stop sv1 where one: "super_walk own supers depth d sv = (stop, sv1)" by (cases "super_walk own supers depth d sv") auto
  have stop: "\<not> stop" using "3.prems"(3) one by (auto split: if_splits)
  have rest: "super_walks own supers depth ds sv1 = (False, sv')" using "3.prems"(3) one stop by simp
  have c1: "covered R supers P {decl_key d} sv sv1"
    using "3.IH"(1) "3.prems" one stop by simp
  then have "snd sv \<subseteq> snd sv1" "snd sv1 \<subseteq> decl_key ` R" by (auto simp: covered_def)
  moreover have "finite (snd sv1)"
    using calculation(2) "3.prems"(1) by (meson finite_imageI finite_subset walk_ok_def)
  ultimately have "depth \<le> card (snd sv1)" using "3.prems"(5) card_mono [of "snd sv1" "snd sv"] by linarith
  then have c2: "covered R supers P (decl_key ` set ds) sv1 sv'"
    using "3.IH"(2) [OF one [symmetric]] stop rest "3.prems"(1,2) \<open>snd sv1 \<subseteq> decl_key ` R\<close> by simp
  show ?case using covered_trans [OF c1 c2] by simp
qed

text \<open>What the walk carries keeps every property that visiting a reachable declaration keeps, and it ends early only at one.\<close>

definition keep_ok :: "type_decl set \<Rightarrow> (type_decl \<Rightarrow> type_decl list) \<Rightarrow> (type_decl \<Rightarrow> 's \<Rightarrow> bool \<times> 's) \<Rightarrow> ('s \<Rightarrow> bool) \<Rightarrow> bool" where
  "keep_ok R supers own Q \<longleftrightarrow>
     (\<forall>x \<in> R. set (supers x) \<subseteq> R) \<and> (\<forall>x s s' c. x \<in> R \<and> Q s \<and> own x s = (c, s') \<longrightarrow> Q s')"

lemma super_walk_keeps:
  "keep_ok R supers own Q \<Longrightarrow> d \<in> R \<Longrightarrow> super_walk own supers depth d sv = (b, sv') \<Longrightarrow> Q (fst sv) \<Longrightarrow>
   Q (fst sv') \<and> (b \<longrightarrow> (\<exists>x \<in> R. \<exists>s. own x s = (True, fst sv')))"
  "keep_ok R supers own Q \<Longrightarrow> set ds \<subseteq> R \<Longrightarrow> super_walks own supers depth ds sv = (b, sv') \<Longrightarrow> Q (fst sv) \<Longrightarrow>
   Q (fst sv') \<and> (b \<longrightarrow> (\<exists>x \<in> R. \<exists>s. own x s = (True, fst sv')))"
proof (induction own supers depth d sv and own supers depth ds sv arbitrary: b sv' and b sv' rule: super_walk_super_walks.induct)
  case (1 own supers depth d s V)
  show ?case
  proof (cases "depth > MAX_SUPER_DEPTH \<or> decl_key d \<in> V")
    case True
    then have "(b, sv') = (False, s, V)" using "1.prems"(3) by simp
    then show ?thesis using "1.prems"(4) by simp
  next
    case False
    obtain stop s' where own: "own d s = (stop, s')" by (cases "own d s") auto
    then have Q: "Q s'" using "1.prems"(1,2,4) unfolding keep_ok_def by (metis fst_conv)
    show ?thesis
    proof (cases stop)
      case True
      then have "(b, sv') = (True, s', insert (decl_key d) V)" using "1.prems"(3) False own by auto
      then show ?thesis using Q own True "1.prems"(2) by auto
    next
      case nonstop: False
      then have "super_walks own supers (depth + 1) (supers d) (s', insert (decl_key d) V) = (b, sv')"
        using "1.prems"(3) False own by auto
      moreover have "set (supers d) \<subseteq> R" using "1.prems"(1,2) by (auto simp: keep_ok_def)
      ultimately show ?thesis
        using "1.IH" [OF False own [symmetric] _ "1.prems"(1)] nonstop Q by simp
    qed
  qed
next
  case (2 own supers depth sv)
  then have "(b, sv') = (False, sv)" by simp
  then show ?case using "2.prems"(4) by simp
next
  case (3 own supers depth d ds sv)
  obtain stop sv1 where one: "super_walk own supers depth d sv = (stop, sv1)" by (cases "super_walk own supers depth d sv") auto
  have c: "Q (fst sv1) \<and> (stop \<longrightarrow> (\<exists>x \<in> R. \<exists>s. own x s = (True, fst sv1)))"
    using "3.IH"(1) [OF "3.prems"(1) _ one "3.prems"(4)] "3.prems"(2) by simp
  show ?case
  proof (cases stop)
    case True
    then have "(b, sv') = (True, sv1)" using "3.prems"(3) one by simp
    then show ?thesis using c True by simp
  next
    case False
    then have "super_walks own supers depth ds sv1 = (b, sv')" using "3.prems"(3) one by simp
    then show ?thesis
      using "3.IH"(2) [OF one [symmetric] _ "3.prems"(1)] False c "3.prems"(2) by simp
  qed
qed
section \<open>Members along the hierarchy\<close>

lemma only_one_Some: "only_one xs = Some x \<longleftrightarrow> xs = [x]"
  by (auto simp: only_one_def split: list.splits)

lemma get_named_in: "table_get_named (build_table docs cur) b = Some d \<Longrightarrow> d \<in> set (scanned docs cur) \<and> td_binary_name d = Some b"
proof -
  assume "table_get_named (build_table docs cur) b = Some d"
  then have "d \<in> set (filter (\<lambda>d. td_binary_name d = Some b) (scanned docs cur))"
    unfolding get_named_scanned only_one_Some by simp
  then show ?thesis by simp
qed

lemma by_node_in:
  assumes "table_by_node (build_table docs cur) doc k = Some d"
  shows "d \<in> set (scanned docs cur) \<and> td_doc d = doc \<and> decl_key d = k"
proof -
  let ?ps = "positions (\<lambda>d. (td_doc d, decl_key d) = (doc, k)) (scanned docs cur)"
  have "?ps \<noteq> []" "d = scanned docs cur ! last ?ps"
    using assms by (auto simp: table_by_node_def table_fields nonempty_def split: if_splits)
  moreover then have "last ?ps \<in> set ?ps" by simp
  ultimately show ?thesis unfolding positions_def by auto
qed

lemma lexical_type_in: "lexical_type (build_table docs cur) doc simple dt anc = Some d \<Longrightarrow> d \<in> set (scanned docs cur)"
  by (induction anc) (auto simp: Option.bind_eq_Some_conv split: option.splits if_splits dest: by_node_in get_named_in)

lemma resolve_in:
  "resolve_type_name_at (build_table docs cur) l simple dt doc im = Some d \<Longrightarrow> d \<in> set (scanned docs cur)"
  by (auto simp: resolve_type_name_at_def on_demand_type_def Let_def Option.bind_eq_Some_conv
      split: option.splits if_splits list.splits dest: lexical_type_in get_named_in)

lemma source_supers_in: "e \<in> set (source_supers (build_table docs cur) d) \<Longrightarrow> e \<in> set (scanned docs cur)"
  by (auto simp: source_supers_def resolve_type_name_node_def in_map_filter split: option.splits dest: resolve_in)

lemma ancestry_in:
  assumes "d \<in> set (scanned docs cur)"
  shows "ancestry (build_table docs cur) d \<subseteq> set (scanned docs cur)"
proof
  fix x
  assume "x \<in> ancestry (build_table docs cur) d"
  then show "x \<in> set (scanned docs cur)" by (rule ancestry_least [OF _ assms]) (auto dest: source_supers_in)
qed

lemma walk_ok_ancestry:
  assumes "d \<in> set (scanned docs cur)" "inj_on decl_key (set (scanned docs cur))" "card (ancestry (build_table docs cur) d) \<le> 65"
    and "\<And>x s s'. own x s = (False, s') \<Longrightarrow> P x s'" "\<And>x y s s'. P x s \<Longrightarrow> own y s = (False, s') \<Longrightarrow> P x s'"
  shows "walk_ok (ancestry (build_table docs cur) d) (source_supers (build_table docs cur)) own P"
  unfolding walk_ok_def
  using assms(3-) ancestry_step inj_on_subset [OF assms(2) ancestry_in [OF assms(1)]]
    finite_subset [OF ancestry_in [OF assms(1)] finite_set] by blast

lemma walk_from_root:
  assumes ok: "walk_ok (ancestry t d) (source_supers t) own P"
    and run: "super_walk own (source_supers t) 0 d (s, {}) = (False, sv')" and x: "x \<in> ancestry t d"
  shows "P x (fst sv')"
proof -
  have c: "covered (ancestry t d) (source_supers t) P {decl_key d} (s, {}) sv'"
    by (rule super_walk_visits(1) [OF ok _ run]) simp_all
  have "x \<in> {y \<in> ancestry t d. decl_key y \<in> snd sv'}"
  proof (rule ancestry_least [OF x])
    show "d \<in> {y \<in> ancestry t d. decl_key y \<in> snd sv'}" using c by (simp add: covered_def)
    show "set (source_supers t y) \<subseteq> {y \<in> ancestry t d. decl_key y \<in> snd sv'}" if "y \<in> {y \<in> ancestry t d. decl_key y \<in> snd sv'}" for y
      using c that ancestry_step by (fastforce simp: covered_def)
  qed
  then show ?thesis using c x by (auto simp: covered_def)
qed

lemma add_own_spec:
  "add_own ms (out, seen) = (out', seen') \<Longrightarrow> seen = member_signature ` set out \<Longrightarrow> distinct (map member_signature out) \<Longrightarrow>
   seen' = member_signature ` set out' \<and> distinct (map member_signature out')
   \<and> member_signature ` set out' = member_signature ` set out \<union> member_signature ` set ms"
proof (induction ms arbitrary: out seen)
  case (Cons m ms)
  show ?case
  proof (cases "member_signature m \<in> seen")
    case True
    then show ?thesis using Cons.IH [of out seen] Cons.prems by auto
  next
    case False
    then have "add_own ms (out @ [m], insert (member_signature m) seen) = (out', seen')" using Cons.prems(1) by simp
    from Cons.IH [OF this] show ?thesis using Cons.prems(2,3) False by auto
  qed
qed simp

lemma add_own_seen: "snd (add_own ms acc) = snd acc \<union> member_signature ` set ms"
  by (induction ms acc rule: add_own.induct) auto
lemma find_member_exact:
  assumes d: "d \<in> set (scanned docs cur)" and inj: "inj_on decl_key (set (scanned docs cur))"
    and small: "card (ancestry (build_table docs cur) d) \<le> 65"
  shows "case find_member (build_table docs cur) d name of
      Some m \<Rightarrow> sm_name m = name \<and> (\<exists>e \<in> ancestry (build_table docs cur) d. m \<in> set (own_members e))
    | None \<Rightarrow> \<forall>e \<in> ancestry (build_table docs cur) d. name \<notin> sm_name ` set (own_members e)"
proof -
  let ?t = "build_table docs cur"
  let ?own = "own_named name"
  let ?P = "\<lambda>x (_ :: source_member option). name \<notin> sm_name ` set (own_members x)"
  obtain b sv where run: "super_walk ?own (source_supers ?t) 0 d (None, {}) = (b, sv)" by (metis surj_pair)
  have own_False: "?own x s = (False, s') \<Longrightarrow> name \<notin> sm_name ` set (own_members x) \<and> s' = s" for x s s'
    by (auto simp: own_named_def find_None_iff split: option.splits)
  have own_True: "?own x s = (True, s') \<Longrightarrow> \<exists>m \<in> set (own_members x). sm_name m = name \<and> s' = Some m" for x s s'
    by (auto simp: own_named_def find_Some_iff split: option.splits)
  show ?thesis
  proof (cases b)
    case False
    have ok: "walk_ok (ancestry ?t d) (source_supers ?t) ?own ?P"
      by (rule walk_ok_ancestry [OF d inj small]) (use own_False in blast)+
    have none: "name \<notin> sm_name ` set (own_members e)" if "e \<in> ancestry ?t d" for e
      using walk_from_root [OF ok _ that, of None sv] run False by simp
    have "keep_ok (ancestry ?t d) (source_supers ?t) ?own (\<lambda>s. s = None)"
    proof (unfold keep_ok_def, intro conjI ballI allI impI)
      show "set (source_supers ?t x) \<subseteq> ancestry ?t d" if "x \<in> ancestry ?t d" for x using ancestry_step [OF that] by blast
      fix x s s' c
      assume a: "x \<in> ancestry ?t d \<and> s = None \<and> ?own x s = (c, s')"
      then have "find (\<lambda>m. sm_name m = name) (own_members x) = None" using none [of x] by (auto simp: find_None_iff)
      then show "s' = None" using a by (auto simp: own_named_def)
    qed
    then have "fst sv = None" using super_walk_keeps(1) [where Q = "\<lambda>s. s = None", OF _ ancestry_self run] by simp
    then show ?thesis using none run by (simp add: find_member_def)
  next
    case True
    have keep: "keep_ok (ancestry ?t d) (source_supers ?t) ?own (\<lambda>_. True)" unfolding keep_ok_def using ancestry_step by blast
    obtain x s where "x \<in> ancestry ?t d" "?own x s = (True, fst sv)"
      using super_walk_keeps(1) [OF keep ancestry_self run] True by auto
    then show ?thesis using own_True [of x s "fst sv"] run by (auto simp: find_member_def)
  qed
qed

lemma all_members_exact:
  assumes d: "d \<in> set (scanned docs cur)" and inj: "inj_on decl_key (set (scanned docs cur))"
    and small: "card (ancestry (build_table docs cur) d) \<le> 65"
  shows "distinct (map member_signature (all_members (build_table docs cur) d False))
    \<and> member_signature ` set (all_members (build_table docs cur) d False)
      = (\<Union>e \<in> ancestry (build_table docs cur) d. member_signature ` set (own_members e))"
proof -
  let ?t = "build_table docs cur"
  let ?own = "\<lambda>d acc. (False, add_own (own_members d) acc)"
  let ?Q = "\<lambda>(out, seen). seen = member_signature ` set out \<and> distinct (map member_signature out)
     \<and> member_signature ` set out \<subseteq> (\<Union>e \<in> ancestry ?t d. member_signature ` set (own_members e))"
  let ?P = "\<lambda>x s. member_signature ` set (own_members x) \<subseteq> snd s"
  obtain b sv where run: "super_walk ?own (source_supers ?t) 0 d (([], {}), {}) = (b, sv)" by (metis surj_pair)
  have keep: "keep_ok (ancestry ?t d) (source_supers ?t) ?own ?Q"
    unfolding keep_ok_def
  proof (intro conjI ballI allI impI)
    show "set (source_supers ?t x) \<subseteq> ancestry ?t d" if "x \<in> ancestry ?t d" for x using ancestry_step [OF that] by blast
    fix x s s' c
    assume a: "x \<in> ancestry ?t d \<and> ?Q s \<and> ?own x s = (c, s')"
    obtain out seen out' seen' where s: "s = (out, seen)" "s' = (out', seen')" by (cases s, cases s')
    have spec: "seen' = member_signature ` set out'" "distinct (map member_signature out')"
      "member_signature ` set out' = member_signature ` set out \<union> member_signature ` set (own_members x)"
      using add_own_spec [of "own_members x" out seen out' seen'] a unfolding s by auto
    have "member_signature ` set out' \<subseteq> (\<Union>e \<in> ancestry ?t d. member_signature ` set (own_members e))"
      using a unfolding s spec(3) by auto
    then show "?Q s'" using spec(1,2) unfolding s by simp
  qed
  have notb: "\<not> b" using super_walk_keeps(1) [OF keep ancestry_self run] by auto
  have Q: "?Q (fst sv)" using super_walk_keeps(1) [OF keep ancestry_self run] by simp
  have "walk_ok (ancestry ?t d) (source_supers ?t) ?own ?P"
  proof (rule walk_ok_ancestry [OF d inj small])
    show "member_signature ` set (own_members x) \<subseteq> snd s'" if "?own x s = (False, s')" for x s s'
      using that add_own_seen [of "own_members x" s] by auto
    show "member_signature ` set (own_members x) \<subseteq> snd s'" if "member_signature ` set (own_members x) \<subseteq> snd s" "?own y s = (False, s')" for x y s s'
      using that add_own_seen [of "own_members y" s] by auto
  qed
  then have "member_signature ` set (own_members e) \<subseteq> snd (fst sv)" if "e \<in> ancestry ?t d" for e
    using walk_from_root [OF _ _ that, of ?own ?P "([], {})" sv] run notb by simp
  then show ?thesis using Q run by (auto simp: all_members_def collect_inherited_def Let_def split: prod.splits)
qed

text \<open>
  Member lookup along the source hierarchy: as long as the declaration has at most 65 ancestors (itself included), a
  member is found if and only if an ancestor declares one of that name, and the list of all members has each
  signature of an ancestor's member exactly once. Cyclic hierarchies are covered.
\<close>

theorem inherited_members_exact:
  assumes "d \<in> set (scanned docs cur)" "inj_on decl_key (set (scanned docs cur))" "card (ancestry (build_table docs cur) d) \<le> 65"
  shows "(case find_member (build_table docs cur) d name of
      Some m \<Rightarrow> sm_name m = name \<and> (\<exists>e \<in> ancestry (build_table docs cur) d. m \<in> set (own_members e))
    | None \<Rightarrow> \<forall>e \<in> ancestry (build_table docs cur) d. name \<notin> sm_name ` set (own_members e))
    \<and> distinct (map member_signature (all_members (build_table docs cur) d False))
    \<and> member_signature ` set (all_members (build_table docs cur) d False)
      = (\<Union>e \<in> ancestry (build_table docs cur) d. member_signature ` set (own_members e))"
  using find_member_exact [OF assms] all_members_exact [OF assms] by blast

section \<open>A sample document\<close>

definition sample_class_node :: node where
  "sample_class_node = sample_node ''class_declaration'' None []
     [sample_node ''identifier'' (Some ''name'') ''A'' [],
      sample_node ''class_body'' None [] [sample_node ''method_declaration'' None [] [sample_node ''identifier'' (Some ''name'') ''f'' []]]]"

definition sample_program :: node where
  "sample_program = sample_node ''program'' None [] [sample_class_node]"

definition sample_decl :: type_decl where
  "sample_decl = \<lparr>td_name = ''A'', td_kind = ClassType, td_super_nodes = [], td_node = (sample_class_node, [sample_program]), td_doc = 0,
     td_binary_name = Some ''A'', td_type_id = NamedId ''A''\<rparr>"

lemma sample_class_simps [simp]:
  "kind sample_class_node = ''class_declaration''"
  "child_by_field ''name'' sample_class_node = Some (sample_node ''identifier'' (Some ''name'') ''A'' [])"
  "child_by_field ''type_parameters'' sample_class_node = None" "kind sample_program = ''program''"
  by (simp_all add: sample_class_node_def sample_program_def)

lemma sample_class_named [simp]: "nd_named (data_of sample_class_node)"
  by (simp add: sample_class_node_def)

lemma sample_from_node: "from_node 0 None (sample_class_node, [sample_program]) = Some sample_decl"
proof -
  have "super_type_nodes (sample_class_node, [sample_program]) = []"
    by (simp add: super_type_nodes_def named_kids_def) (simp add: sample_class_node_def)
  then show ?thesis by (simp add: from_node_def from_kind_def binary_identity_def sample_decl_def Let_def)
qed

lemma other_from_node: "from_kind (kind (fst l)) = None \<Longrightarrow> from_node doc package l = None"
  by (simp add: from_node_def)

lemma sample_scanned: "scanned [sample_program] 0 = [sample_decl]"
proof -
  have "parse_imports sample_program = \<lparr>im_package = None, im_single = Map.empty, im_wildcards = []\<rparr>"
    by (simp add: parse_imports_def sample_program_def import_line_def sample_class_named)
  moreover have "kids (sample_program, []) = [(sample_class_node, [sample_program])]"
    by (simp add: kids_def below_def sample_program_def)
  moreover have "List.map_filter (from_node 0 None) (preorder (rev (kids (sample_class_node, anc)))) = []" for anc
    by (simp add: sample_class_node_def kids_def below_def map_filter_simps other_from_node from_kind_def)
  ultimately show ?thesis
    by (simp add: scanned_def scan_order_def doc_decls_def doc_context_of_def map_filter_simps other_from_node from_kind_def sample_from_node)
qed

lemma sample_supers: "source_supers t sample_decl = []"
  by (simp add: source_supers_def sample_decl_def map_filter_simps split: option.splits)

lemma sample_ancestry: "ancestry t sample_decl = {sample_decl}"
proof
  show "ancestry t sample_decl \<subseteq> {sample_decl}"
    by (auto simp: sample_supers dest: ancestry_least [where W = "{sample_decl}"])
qed simp

theorem named_lookup_exact_witness:
  "table_get_named (build_table [sample_program] 0) ''A'' = only_one (filter (\<lambda>d. td_binary_name d = Some ''A'') (all_decls [sample_program]))"
  using named_lookup_exact [of 0 "[sample_program]" "''A''"] by simp

lemma sample_own: "map sm_name (own_members sample_decl) = [''f'']"
  by (simp add: own_members_def body_of_def sample_decl_def named_kids_def below_def)
    (simp add: sample_class_node_def collect_body_members.simps named_kids_def below_def named_member_def)

theorem inherited_members_exact_witness:
  "find_member (build_table [sample_program] 0) sample_decl ''g'' = None
   \<and> distinct (map member_signature (all_members (build_table [sample_program] 0) sample_decl False))"
proof -
  have "''g'' \<notin> sm_name ` set (own_members sample_decl)"
    using arg_cong [OF sample_own, of set] by simp
  moreover have "(case find_member (build_table [sample_program] 0) sample_decl ''g'' of
      Some m \<Rightarrow> sm_name m = ''g'' \<and> m \<in> set (own_members sample_decl) | None \<Rightarrow> True)
    \<and> distinct (map member_signature (all_members (build_table [sample_program] 0) sample_decl False))"
    using inherited_members_exact [of sample_decl "[sample_program]" 0 "''g''"]
    by (simp add: sample_scanned sample_ancestry split: option.splits)
  ultimately show ?thesis by (cases "find_member (build_table [sample_program] 0) sample_decl ''g''") (force simp: image_iff)+
qed
section \<open>Names resolve in scope\<close>

inductive_set spellings :: "string \<Rightarrow> string set" for path where
  written: "path \<in> spellings path"
| dollar: "s \<in> spellings path \<Longrightarrow> dollar_last_dot s = Some s' \<Longrightarrow> s' \<in> spellings path"

lemma dollar_loop_spelling: "dollar_loop exists n c = Some b \<Longrightarrow> c \<in> spellings path \<Longrightarrow> b \<in> spellings path \<and> exists b"
  by (induction exists n c rule: dollar_loop.induct) (auto split: if_splits option.splits intro: spellings.dollar)

definition names_in_scope :: "type_table \<Rightarrow> located \<Rightarrow> nat \<Rightarrow> import_context \<Rightarrow> string \<Rightarrow> string set" where
  "names_in_scope t l doc im simple =
     {b @ ''$'' @ simple |a e b. a \<in> set (snd l) \<and> table_by_node t doc (nd_id (data_of a)) = Some e \<and> td_binary_name e = Some b}
     \<union> (case im_single im simple of
          Some path \<Rightarrow> spellings path
        | None \<Rightarrow> {case im_package im of Some p \<Rightarrow> p @ ''.'' @ simple | None \<Rightarrow> simple}
            \<union> (\<lambda>w. w @ ''.'' @ simple) ` set (im_wildcards im) \<union> {''java.lang.'' @ simple})"

definition encloses :: "located \<Rightarrow> nat \<Rightarrow> type_decl \<Rightarrow> bool" where
  "encloses l doc d \<longleftrightarrow> td_doc d = doc \<and> (\<exists>a \<in> set (snd l). nd_id (data_of a) = decl_key d)"

lemma lexical_type_scope:
  assumes "lexical_type (build_table docs cur) doc simple False anc = Some d" "set anc \<subseteq> set (snd l)"
  shows "(td_name d = simple \<and> encloses l doc d)
    \<or> (\<exists>b \<in> names_in_scope (build_table docs cur) l doc im simple. table_get_named (build_table docs cur) b = Some d)"
  using assms
proof (induction anc)
  case (Cons a anc)
  let ?t = "build_table docs cur"
  consider (skip) "lexical_type ?t doc simple False anc = Some d"
    | (self) "table_by_node ?t doc (nd_id (data_of a)) = Some d" "td_name d = simple"
    | (member) e b where "table_by_node ?t doc (nd_id (data_of a)) = Some e" "td_binary_name e = Some b"
        "table_get_named ?t (b @ ''$'' @ simple) = Some d"
    using Cons.prems(1) by (auto simp: Option.bind_eq_Some_conv split: option.splits if_splits)
  then show ?case
  proof cases
    case skip
    then show ?thesis using Cons by simp
  next
    case self
    then have "encloses l doc d" using by_node_in [OF self(1)] Cons.prems(2) by (auto simp: encloses_def)
    then show ?thesis using self by simp
  next
    case member
    then have "b @ ''$'' @ simple \<in> names_in_scope ?t l doc im simple" using Cons.prems(2) by (auto simp: names_in_scope_def)
    then show ?thesis using member(3) by blast
  qed
qed simp



end
