(* ===== verification/Source_Classes.thy ===== *)
theory Source_Classes
  imports Type_Table Method_Calls
begin

text \<open>
  From declarations in source to the class data the engines work on: the lowering of type nodes and type parameters
  (\<open>crates/syntax/src/typeref.rs\<close>), the members Lombok generates (\<open>lombok.rs\<close>), the class a declaration stands for
  (\<open>srcclass.rs\<close>), and from \<open>resolve.rs\<close> the semantic context of the open documents, the resolution of names
  against documents and classpath, and the type variables in scope at a place.

  \<open>pick\<close> chooses the first known of a list of candidate names, \<open>upper\<close> is the upper-case form of one non-ASCII character.
\<close>

section \<open>Declared types (typeref.rs)\<close>

type_synonym var_scope = "(string \<times> type_variable_id) list"

definition is_annotation :: "node \<Rightarrow> bool" where
  "is_annotation n \<longleftrightarrow> kind n \<in> {''annotation'', ''marker_annotation''}"

lemma size_found: "find P (named_children n) = Some c \<Longrightarrow> size c < size n"
  by (metis find_Some_iff nth_mem size_named_child)

lemma size_found_child: "find P (named_children n) = Some t \<Longrightarrow> c \<in> set (named_children t) \<Longrightarrow> size c < size n"
  using size_found size_named_child by (metis order_less_trans)

function lower_type_node :: "(string \<Rightarrow> bool \<Rightarrow> string option) \<Rightarrow> var_scope \<Rightarrow> node \<Rightarrow> type_ref" where
  "lower_type_node resolve_named vars n =
     (if nd_error (data_of n) \<or> nd_missing (data_of n) \<or> nd_has_error (data_of n) then Unknown
      else if trim (node_text n) = ''void'' then Void
      else case from_name (trim (node_text n)) of
        Some p \<Rightarrow> Primitive p
      | None \<Rightarrow>
          if kind n = ''array_type'' then
            (Array ^^ (case child_by_field ''dimensions'' n of Some d \<Rightarrow> count_list (node_text d) (CHR ''['') | None \<Rightarrow> 1))
              (case child_by_field ''element'' n of Some e \<Rightarrow> lower_type_node resolve_named vars e | None \<Rightarrow> Unknown)
          else if kind n = ''annotated_type'' then
            (case find (\<lambda>c. \<not> is_annotation c) (named_children n) of Some c \<Rightarrow> lower_type_node resolve_named vars c | None \<Rightarrow> Unknown)
          else if kind n = ''generic_type'' then
            (case find (\<lambda>c. kind c \<noteq> ''type_arguments'') (named_children n) of
               None \<Rightarrow> Unknown
             | Some b \<Rightarrow>
                 (case lower_type_node resolve_named vars b of
                    Named i _ \<Rightarrow>
                      Named i (case find (\<lambda>c. kind c = ''type_arguments'') (named_children n) of
                        Some ta \<Rightarrow> map (lower_type_node resolve_named vars) (filter (\<lambda>a. \<not> is_annotation a) (named_children ta))
                      | None \<Rightarrow> [])
                  | _ \<Rightarrow> Unknown))
          else if kind n = ''wildcard'' then
            (let bound = (case find (\<lambda>c. \<not> is_annotation c \<and> kind c \<noteq> ''super'') (named_children n) of
                   Some b \<Rightarrow> Some (lower_type_node resolve_named vars b) | None \<Rightarrow> None)
             in if list_ex (\<lambda>c. kind c = ''super'') (named_children n) then Wildcard None bound else Wildcard bound None)
          else if kind n = ''type_identifier'' \<or> kind n = ''scoped_type_identifier'' then
            (case (if kind n = ''type_identifier'' then find (\<lambda>(name, _). name = trim (node_text n)) (rev vars) else None) of
               Some (_, v) \<Rightarrow> Variable v
             | None \<Rightarrow>
                 (case resolve_named (trim (node_text n)) (kind n = ''scoped_type_identifier'') of
                    Some b \<Rightarrow> Named (NamedId b) []
                  | None \<Rightarrow> Unknown))
          else Unknown)"
  by pat_completeness auto
termination
  by (relation "measure (\<lambda>(_, _, n). size n)") (auto intro: size_found size_found_child dest: size_field_child)

declare lower_type_node.simps [simp del]

definition type_bounds :: "(string \<Rightarrow> bool \<Rightarrow> string option) \<Rightarrow> var_scope \<Rightarrow> node \<Rightarrow> type_ref list" where
  "type_bounds resolve_named names tp =
     (case find (\<lambda>c. kind c = ''type_bound'') (named_children tp) of
        Some b \<Rightarrow> map (lower_type_node resolve_named names) (named_children b)
      | None \<Rightarrow> [])"

fun lower_params_loop :: "(string \<Rightarrow> bool \<Rightarrow> string option) \<Rightarrow> string \<Rightarrow> nat \<Rightarrow> node list \<Rightarrow> var_scope \<times> type_parameter list
    \<Rightarrow> var_scope \<times> type_parameter list" where
  "lower_params_loop resolve_named own index [] acc = acc"
| "lower_params_loop resolve_named own index (tp # tps) (names, ps) =
     (let name = text_or [] (find (\<lambda>c. kind c = ''type_identifier'') (named_children tp));
          v = TypeVariableId own index;
          names' = names @ [(name, v)]
      in lower_params_loop resolve_named own (index + 1) tps (names', ps @ [TypeParameter v (type_bounds resolve_named names' tp)]))"

definition lower_type_parameters :: "(string \<Rightarrow> bool \<Rightarrow> string option) \<Rightarrow> node option \<Rightarrow> string \<Rightarrow> var_scope \<Rightarrow> var_scope \<times> type_parameter list" where
  "lower_type_parameters resolve_named m own outer_vars =
     (case m of
        None \<Rightarrow> (outer_vars, [])
      | Some n \<Rightarrow> lower_params_loop resolve_named own 0 (filter (\<lambda>c. kind c = ''type_parameter'') (named_children n)) (outer_vars, []))"

definition access_of :: "node \<Rightarrow> access \<Rightarrow> access" where
  "access_of decl fallback =
     (if has_modifier ''public'' decl then Public else if has_modifier ''protected'' decl then Protected
      else if has_modifier ''private'' decl then Private else fallback)"

section \<open>Lombok (lombok.rs)\<close>

record synthetic_member =
  syn_name :: string
  syn_signature :: string
  syn_is_static :: bool
  syn_ret_display :: "string option"
  syn_ret_fqn :: "string option"

definition into_external :: "synthetic_member \<Rightarrow> external_member" where
  "into_external m =
     \<lparr>em_name = syn_name m, em_kind = MethodKind, em_signature = syn_signature m, em_template = None, em_is_static = syn_is_static m,
      em_ret_fqn = syn_ret_fqn m, em_ret_display = syn_ret_display m, em_metadata = None\<rparr>"

definition file_uses_lombok :: "located \<Rightarrow> bool" where
  "file_uses_lombok l =
     list_ex (\<lambda>c. kind c = ''import_declaration''
         \<and> (case dotted_path (node_text c) ''import'' of
              None \<Rightarrow> False
            | Some p \<Rightarrow>
                (let q = (case strip_prefix ''static'' p of Some r \<Rightarrow> r | None \<Rightarrow> p) in q = ''lombok'' \<or> starts_with ''lombok.'' q)))
       (named_children (root_of l))"

definition file_package :: "located \<Rightarrow> string option" where
  "file_package l =
     Option.bind (find (\<lambda>c. kind c = ''package_declaration'') (named_children (root_of l))) (\<lambda>c. dotted_path (node_text c) ''package'')"

fun fqn_names :: "node list \<Rightarrow> string list option" where
  "fqn_names [] = Some []"
| "fqn_names (n # ns) =
     (if from_kind (kind n) = None then fqn_names ns
      else case child_by_field ''name'' n of
          None \<Rightarrow> None
        | Some name \<Rightarrow> map_option (Cons (node_text name)) (fqn_names ns))"

definition binary_fqn_of :: "located \<Rightarrow> string option" where
  "binary_fqn_of l =
     (case fqn_names (fst l # snd l) of
        None \<Rightarrow> None
      | Some names \<Rightarrow>
          (let path = join_with ''$'' (rev names) in
           if path = [] then None else Some (case file_package l of Some pkg \<Rightarrow> pkg @ ''.'' @ path | None \<Rightarrow> path)))"

record marks =
  mk_getter :: bool
  mk_setter :: bool
  mk_data :: bool
  mk_value :: bool
  mk_builder :: bool
  mk_with :: bool

definition mark_annotation :: "marks \<Rightarrow> node \<Rightarrow> marks" where
  "mark_annotation m c =
     (if \<not> is_annotation c then m
      else case child_by_field ''name'' c of
        None \<Rightarrow> m
      | Some name_node \<Rightarrow>
          (let simple = last (split_char (CHR ''.'') (node_text name_node)) in
           if (case child_by_field ''arguments'' c of
                 Some args \<Rightarrow> list_ex (\<lambda>lvl. contains_sub lvl (node_text args)) [''NONE'', ''PRIVATE'', ''PROTECTED'', ''PACKAGE'', ''MODULE'']
               | None \<Rightarrow> False) then m
           else if simple = ''Getter'' then m\<lparr>mk_getter := True\<rparr>
           else if simple = ''Setter'' then m\<lparr>mk_setter := True\<rparr>
           else if simple = ''Data'' then m\<lparr>mk_data := True\<rparr>
           else if simple = ''Value'' then m\<lparr>mk_value := True\<rparr>
           else if simple = ''Builder'' then m\<lparr>mk_builder := True\<rparr>
           else if simple = ''With'' \<or> simple = ''Wither'' then m\<lparr>mk_with := True\<rparr>
           else m))"

definition no_marks :: marks where
  "no_marks = \<lparr>mk_getter = False, mk_setter = False, mk_data = False, mk_value = False, mk_builder = False, mk_with = False\<rparr>"

definition marks_on :: "node \<Rightarrow> marks" where
  "marks_on decl = (case modifiers_node decl of Some mods \<Rightarrow> foldl mark_annotation no_marks (named_children mods) | None \<Rightarrow> no_marks)"

record lombok_field =
  lf_name :: string
  lf_type_text :: string
  lf_is_final :: bool
  lf_marks :: marks

definition instance_fields :: "type_decl \<Rightarrow> lombok_field list" where
  "instance_fields td =
     List.map_filter (\<lambda>m.
         Option.bind (up (sm_node m)) (\<lambda>decl.
           map_option (\<lambda>ty. \<lparr>lf_name = sm_name m, lf_type_text = node_text ty, lf_is_final = has_modifier ''final'' (fst decl),
                             lf_marks = marks_on (fst decl)\<rparr>) (child_by_field ''type'' (fst decl))))
       (filter (\<lambda>m. sm_kind m = FieldMember \<and> \<not> sm_is_static m \<and> kind (fst (sm_node m)) = ''variable_declarator'') (own_members td))"

text \<open>\<open>char::to_uppercase\<close>: the letters of ASCII, and the Unicode table, an argument, for the rest.\<close>

definition capitalized :: "(string \<Rightarrow> string) \<Rightarrow> string \<Rightarrow> string" where
  "capitalized upper name =
     (case name of
        [] \<Rightarrow> []
      | c # cs \<Rightarrow>
          if (of_char c :: nat) < 128 then (if 97 \<le> (of_char c :: nat) \<and> (of_char c :: nat) \<le> 122 then char_of (of_char c - 32 :: nat) else c) # cs
          else (let n = snd (utf8_seq (as_bytes name)) in upper (take n name) @ drop n name))"

definition getter_name :: "(string \<Rightarrow> string) \<Rightarrow> lombok_field \<Rightarrow> string" where
  "getter_name upper f =
     (if lf_type_text f = ''boolean'' then
        if (case strip_prefix ''is'' (lf_name f) of Some (c # _) \<Rightarrow> is_ascii_uppercase c | _ \<Rightarrow> False) then lf_name f
        else ''is'' @ capitalized upper (lf_name f)
      else ''get'' @ capitalized upper (lf_name f))"

definition accessors :: "(string \<Rightarrow> string) \<Rightarrow> string \<Rightarrow> marks \<Rightarrow> lombok_field \<Rightarrow> synthetic_member list" where
  "accessors upper class_name m f =
     (if mk_getter m \<or> mk_data m \<or> mk_value m \<or> mk_getter (lf_marks f) then
        [\<lparr>syn_name = getter_name upper f, syn_signature = lf_type_text f @ '' '' @ getter_name upper f @ ''()'', syn_is_static = False,
          syn_ret_display = Some (lf_type_text f), syn_ret_fqn = None\<rparr>] else [])
     @ (if (mk_setter m \<or> mk_data m \<or> mk_setter (lf_marks f)) \<and> \<not> lf_is_final f \<and> \<not> mk_value m then
        (let name = ''set'' @ capitalized upper (lf_name f) in
         [\<lparr>syn_name = name, syn_signature = ''void '' @ name @ ''('' @ lf_type_text f @ '' '' @ lf_name f @ '')'', syn_is_static = False,
           syn_ret_display = Some ''void'', syn_ret_fqn = None\<rparr>]) else [])
     @ (if mk_with m \<or> mk_with (lf_marks f) then
        (let name = ''with'' @ capitalized upper (lf_name f) in
         [\<lparr>syn_name = name, syn_signature = class_name @ '' '' @ name @ ''('' @ lf_type_text f @ '' '' @ lf_name f @ '')'', syn_is_static = False,
           syn_ret_display = Some class_name, syn_ret_fqn = None\<rparr>]) else [])"

definition synthesize :: "(string \<Rightarrow> string) \<Rightarrow> located \<Rightarrow> synthetic_member list" where
  "synthesize upper l =
     (case from_node 0 None l of
        None \<Rightarrow> []
      | Some td \<Rightarrow>
          if td_kind td \<noteq> ClassType then []
          else (let m = marks_on (fst l);
                    existing = sm_name ` set (filter (\<lambda>x. sm_kind x = MethodMember) (own_members td));
                    builder_simple = td_name td @ ''Builder''
                in filter (\<lambda>x. syn_name x \<notin> existing)
                     (concat (map (accessors upper (td_name td) m) (instance_fields td))
                      @ (if mk_builder m then
                          [\<lparr>syn_name = ''builder'', syn_signature = td_name td @ ''.'' @ builder_simple @ '' builder()'', syn_is_static = True,
                            syn_ret_display = Some builder_simple,
                            syn_ret_fqn = map_option (\<lambda>f. f @ ''$'' @ builder_simple) (binary_fqn_of l)\<rparr>] else []))))"

definition builder_class :: "type_decl \<Rightarrow> external_class option" where
  "builder_class outer =
     (if \<not> mk_builder (marks_on (fst (td_node outer))) then None
      else case binary_fqn_of (td_node outer) of
        None \<Rightarrow> None
      | Some outer_fqn \<Rightarrow>
          (let builder_simple = td_name outer @ ''Builder''; builder_fqn = outer_fqn @ ''$'' @ builder_simple in
           Some \<lparr>ec_supers = [''java.lang.Object''], ec_type_params = [],
             ec_members =
               map (\<lambda>f. \<lparr>em_name = lf_name f, em_kind = MethodKind,
                   em_signature = builder_simple @ '' '' @ lf_name f @ ''('' @ lf_type_text f @ '' '' @ lf_name f @ '')'', em_template = None,
                   em_is_static = False, em_ret_fqn = Some builder_fqn, em_ret_display = Some builder_simple, em_metadata = None\<rparr>)
                 (instance_fields outer)
               @ [\<lparr>em_name = ''build'', em_kind = MethodKind, em_signature = td_name outer @ '' build()'', em_template = None,
                   em_is_static = False, em_ret_fqn = Some outer_fqn, em_ret_display = Some (td_name outer), em_metadata = None\<rparr>],
             ec_metadata = None\<rparr>))"

section \<open>Classes from source (srcclass.rs)\<close>

definition split_once :: "char \<Rightarrow> string \<Rightarrow> (string \<times> string) option" where
  "split_once c s = (if c \<in> set s then Some (takeWhile (\<lambda>x. x \<noteq> c) s, tl (dropWhile (\<lambda>x. x \<noteq> c) s)) else None)"

definition signature_has_error :: "node \<Rightarrow> bool" where
  "signature_has_error n \<longleftrightarrow>
     nd_error (data_of n) \<or> nd_missing (data_of n)
     \<or> list_ex (\<lambda>c. kind c \<notin> {''block'', ''constructor_body''} \<and> nd_has_error (data_of c)) (children n)"

definition body_nodes :: "node \<Rightarrow> node list" where
  "body_nodes n = concat (map named_children (filter (\<lambda>c. ends_with ''_body'' (kind c)) (named_children n)))"

definition body_has_unclassified_member :: "node \<Rightarrow> bool" where
  "body_has_unclassified_member n =
     list_ex (\<lambda>m. nd_error (data_of m))
       (concat (map (\<lambda>m. if kind m = ''enum_body_declarations'' then named_children m else [m]) (body_nodes n)))"

definition nested_types_here :: "string \<Rightarrow> node \<Rightarrow> (string \<times> string) list" where
  "nested_types_here scope_binary n =
     List.map_filter (\<lambda>m.
       if from_kind (kind m) = None then None
       else map_option (\<lambda>name. (node_text name, scope_binary @ ''$'' @ node_text name)) (child_by_field ''name'' m)) (body_nodes n)"

fun nested_types_in_scope :: "node \<Rightarrow> node list \<Rightarrow> string \<Rightarrow> (string \<times> string) list" where
  "nested_types_in_scope n (p # g # anc) scope_binary =
     nested_types_here scope_binary n
     @ (case rsplit_once (CHR ''$'') scope_binary of
          None \<Rightarrow> []
        | Some (outer, _) \<Rightarrow> if from_kind (kind g) \<noteq> None then nested_types_in_scope g anc outer else [])"
| "nested_types_in_scope n anc scope_binary = nested_types_here scope_binary n"

type_synonym pick_fqn = "string list \<Rightarrow> string option"

definition source_resolver :: "pick_fqn \<Rightarrow> import_context \<Rightarrow> (string \<times> string) list \<Rightarrow> string \<Rightarrow> bool \<Rightarrow> string option" where
  "source_resolver pick im nested_scope name is_dotted =
     (if is_dotted then
        (case import_path_to_binary (\<lambda>c. pick [c] \<noteq> None) name of
           Some b \<Rightarrow> Some b
         | None \<Rightarrow>
             (case split_once (CHR ''.'') name of
                None \<Rightarrow> None
              | Some (head, rest) \<Rightarrow>
                  (case pick (import_candidates im head) of
                     None \<Rightarrow> None
                   | Some outer \<Rightarrow> pick [outer @ ''$'' @ replace_char (CHR ''.'') ''$'' rest])))
      else case find (\<lambda>(simple, _). simple = name) nested_scope of
          Some (_, binary) \<Rightarrow> Some binary
        | None \<Rightarrow> pick (import_candidates im name))"

definition array_dims :: "node option \<Rightarrow> type_ref \<Rightarrow> type_ref" where
  "array_dims d t = (case d of Some n \<Rightarrow> (Array ^^ count_list (node_text n) (CHR ''['')) t | None \<Rightarrow> t)"

definition lower_parameter :: "(string \<Rightarrow> bool \<Rightarrow> string option) \<Rightarrow> var_scope \<Rightarrow> node \<Rightarrow> type_ref list" where
  "lower_parameter resolve_named vars p =
     (if kind p = ''formal_parameter'' then
        (case child_by_field ''type'' p of
           None \<Rightarrow> []
         | Some ty \<Rightarrow> [array_dims (child_by_field ''dimensions'' p) (lower_type_node resolve_named vars ty)])
      else if kind p = ''spread_parameter'' then
        [Array (case find (\<lambda>c. kind c \<notin> {''modifiers'', ''variable_declarator''}) (named_children p) of
            Some n \<Rightarrow> lower_type_node resolve_named vars n | None \<Rightarrow> Unknown)]
      else [])"

definition lower_parameters :: "(string \<Rightarrow> bool \<Rightarrow> string option) \<Rightarrow> node option \<Rightarrow> var_scope \<Rightarrow> type_ref list \<times> bool" where
  "lower_parameters resolve_named m vars =
     (case m of
        None \<Rightarrow> ([], False)
      | Some ps \<Rightarrow> (concat (map (lower_parameter resolve_named vars) (named_children ps)),
                    list_ex (\<lambda>p. kind p = ''spread_parameter'') (named_children ps)))"

record member_ctx =
  mc_imports :: import_context
  mc_pick :: pick_fqn
  mc_binary :: string
  mc_kind :: type_kind
  mc_names :: var_scope
  mc_resolve :: "string \<Rightarrow> bool \<Rightarrow> string option"

definition owner_key :: "string \<Rightarrow> string \<Rightarrow> node \<Rightarrow> string" where
  "owner_key binary name n = binary @ ''#'' @ name @ (case child_by_field ''parameters'' n of Some p \<Rightarrow> node_text p | None \<Rightarrow> ''()'')"

definition field_type_node :: "located \<Rightarrow> node option" where
  "field_type_node l =
     (if kind (fst l) = ''formal_parameter'' then child_by_field ''type'' (fst l)
      else Option.bind (up l) (\<lambda>p. child_by_field ''type'' (fst p)))"

definition modifiers_owner :: "located \<Rightarrow> node" where
  "modifiers_owner l = (if kind (fst l) = ''variable_declarator'' then (case up l of Some p \<Rightarrow> fst p | None \<Rightarrow> fst l) else fst l)"

definition resolve_ret_fqn :: "pick_fqn \<Rightarrow> import_context \<Rightarrow> node \<Rightarrow> string option" where
  "resolve_ret_fqn pick im ty = Option.bind (base_type_name ty) (\<lambda>simple. pick (import_candidates im simple))"

definition constant_metadata :: "string \<Rightarrow> bool \<Rightarrow> member_metadata" where
  "constant_metadata binary is_static =
     \<lparr>declaring_class = NamedId binary, mm_access = Public, mm_is_static = is_static, mm_is_abstract = False, parameters = None,
      result = named binary, mm_type_parameters = [], is_varargs = False\<rparr>"

definition method_metadata :: "member_ctx \<Rightarrow> string \<Rightarrow> bool \<Rightarrow> access \<Rightarrow> node \<Rightarrow> member_metadata" where
  "method_metadata c name is_static acc n =
     (case lower_type_parameters (mc_resolve c) (child_by_field ''type_parameters'' n) (owner_key (mc_binary c) name n) (mc_names c) of
        (names, tps) \<Rightarrow>
      case lower_parameters (mc_resolve c) (child_by_field ''parameters'' n) names of
        (ps, varargs) \<Rightarrow>
      \<lparr>declaring_class = NamedId (mc_binary c), mm_access = acc, mm_is_static = is_static,
       mm_is_abstract = (has_modifier ''abstract'' n
         \<or> (mc_kind c = InterfaceType \<and> \<not> is_static \<and> \<not> has_modifier ''private'' n \<and> \<not> has_modifier ''default'' n
            \<and> child_by_field ''body'' n = None)),
       parameters = (if signature_has_error n then None else Some ps),
       result = (case child_by_field ''type'' n of Some ty \<Rightarrow> lower_type_node (mc_resolve c) names ty | None \<Rightarrow> Unknown),
       mm_type_parameters = tps, is_varargs = varargs\<rparr>)"

definition field_metadata :: "member_ctx \<Rightarrow> bool \<Rightarrow> access \<Rightarrow> located \<Rightarrow> member_metadata" where
  "field_metadata c is_static acc l =
     \<lparr>declaring_class = NamedId (mc_binary c), mm_access = acc, mm_is_static = is_static, mm_is_abstract = False, parameters = None,
      result = array_dims (child_by_field ''dimensions'' (fst l))
        (case field_type_node l of Some ty \<Rightarrow> lower_type_node (mc_resolve c) (mc_names c) ty | None \<Rightarrow> Unknown),
      mm_type_parameters = [], is_varargs = False\<rparr>"

definition typed_member :: "member_ctx \<Rightarrow> member_kind \<Rightarrow> node option \<Rightarrow> bool \<Rightarrow> located \<Rightarrow> (string \<Rightarrow> member_metadata) \<Rightarrow> external_member option" where
  "typed_member c k ty is_static l meta =
     (case (erased_signature l, child_by_field ''name'' (fst l)) of
        (Some sig, Some n) \<Rightarrow>
          Some \<lparr>em_name = node_text n, em_kind = k, em_signature = sig, em_template = None, em_is_static = is_static,
                em_ret_fqn = Option.bind ty (resolve_ret_fqn (mc_pick c) (mc_imports c)),
                em_ret_display = map_option node_text ty, em_metadata = Some (meta (node_text n))\<rparr>
      | _ \<Rightarrow> None)"

definition member_from_node :: "member_ctx \<Rightarrow> source_member \<Rightarrow> external_member option" where
  "member_from_node c m =
     (let l = sm_node m;
          acc = access_of (modifiers_owner l) (if mc_kind c = InterfaceType then Public else Package)
      in case sm_kind m of
        EnumConstantMember \<Rightarrow>
          map_option (\<lambda>n. \<lparr>em_name = node_text n, em_kind = FieldKind, em_signature = node_text n, em_template = None,
              em_is_static = sm_is_static m, em_ret_fqn = None, em_ret_display = None,
              em_metadata = Some (constant_metadata (mc_binary c) (sm_is_static m))\<rparr>) (child_by_field ''name'' (fst l))
      | NestedTypeMember _ \<Rightarrow> None
      | MethodMember \<Rightarrow>
          typed_member c MethodKind (child_by_field ''type'' (fst l)) (sm_is_static m) l
            (\<lambda>name. method_metadata c name (sm_is_static m) acc (fst l))
      | FieldMember \<Rightarrow>
          typed_member c FieldKind (field_type_node l) (sm_is_static m) l (\<lambda>_. field_metadata c (sm_is_static m) acc l))"

definition ctor_metadata :: "string \<Rightarrow> access \<Rightarrow> type_ref list option \<Rightarrow> type_parameter list \<Rightarrow> bool \<Rightarrow> member_metadata" where
  "ctor_metadata binary acc ps tps varargs =
     \<lparr>declaring_class = NamedId binary, mm_access = acc, mm_is_static = False, mm_is_abstract = False, parameters = ps, result = Void,
      mm_type_parameters = tps, is_varargs = varargs\<rparr>"

definition ctor_member :: "string \<Rightarrow> string \<Rightarrow> member_metadata \<Rightarrow> external_member" where
  "ctor_member name sig meta =
     \<lparr>em_name = name, em_kind = ConstructorKind, em_signature = sig, em_template = None, em_is_static = False, em_ret_fqn = None,
      em_ret_display = None, em_metadata = Some meta\<rparr>"

definition constructor_member_from_node :: "(string \<Rightarrow> bool \<Rightarrow> string option) \<Rightarrow> string \<Rightarrow> var_scope \<Rightarrow> located \<Rightarrow> external_member option" where
  "constructor_member_from_node resolve_named binary class_names l =
     (case (erased_signature l, child_by_field ''name'' (fst l)) of
        (Some sig, Some n) \<Rightarrow>
          (case lower_type_parameters resolve_named (child_by_field ''type_parameters'' (fst l)) (owner_key binary ''<init>'' (fst l)) class_names of
             (names, tps) \<Rightarrow>
           case lower_parameters resolve_named (child_by_field ''parameters'' (fst l)) names of
             (ps, varargs) \<Rightarrow>
           Some (ctor_member (node_text n) sig
             (ctor_metadata binary (access_of (fst l) Package) (if signature_has_error (fst l) then None else Some ps) tps varargs)))
      | _ \<Rightarrow> None)"

definition default_constructor :: "string \<Rightarrow> string \<Rightarrow> access \<Rightarrow> external_member" where
  "default_constructor name binary class_access = ctor_member name (name @ ''()'') (ctor_metadata binary class_access (Some []) [] False)"

definition record_canonical_constructor :: "(string \<Rightarrow> bool \<Rightarrow> string option) \<Rightarrow> type_decl \<Rightarrow> string \<Rightarrow> access \<Rightarrow> var_scope \<Rightarrow> external_member" where
  "record_canonical_constructor resolve_named td binary class_access class_names =
     (case lower_parameters resolve_named (child_by_field ''parameters'' (fst (td_node td))) class_names of
        (ps, varargs) \<Rightarrow>
      ctor_member (td_name td) (td_name td @ ''('' @ join_with '', '' (param_labels (fst (td_node td))) @ '')'')
        (ctor_metadata binary (case compact_constructor td of Some cc \<Rightarrow> access_of (fst cc) class_access | None \<Rightarrow> class_access)
          (Some ps) [] varargs))"

definition constructor_members :: "(string \<Rightarrow> bool \<Rightarrow> string option) \<Rightarrow> type_decl \<Rightarrow> string \<Rightarrow> access \<Rightarrow> var_scope \<Rightarrow> external_member list" where
  "constructor_members resolve_named td binary class_access class_names =
     (if td_kind td = InterfaceType \<or> td_kind td = AnnotationType then []
      else if constructors td = [] then
        [if td_kind td = RecordType then record_canonical_constructor resolve_named td binary class_access class_names
         else default_constructor (td_name td) binary class_access]
      else List.map_filter (constructor_member_from_node resolve_named binary class_names) (constructors td))"

definition externally_visible :: "located \<Rightarrow> bool" where
  "externally_visible l \<longleftrightarrow> kind (fst l) \<in> {''formal_parameter'', ''enum_constant''} \<or> \<not> has_modifier ''private'' (modifiers_owner l)"

definition enum_synthetic_members :: "string \<Rightarrow> string option \<Rightarrow> external_member list" where
  "enum_synthetic_members own_name own_fqn =
     [\<lparr>em_name = ''values'', em_kind = MethodKind, em_signature = own_name @ ''[] values()'', em_template = None, em_is_static = True,
       em_ret_fqn = None, em_ret_display = Some (own_name @ ''[]''), em_metadata = None\<rparr>,
      \<lparr>em_name = ''valueOf'', em_kind = MethodKind, em_signature = own_name @ '' valueOf(String)'', em_template = None, em_is_static = True,
       em_ret_fqn = own_fqn, em_ret_display = Some own_name, em_metadata = None\<rparr>]"

definition display_base_simple :: "string \<Rightarrow> string option" where
  "display_base_simple display =
     (let base = trim (hd (split_char (CHR ''<'') display)) in
      if ends_with ''[]'' base then None
      else let simple = last (split_char (CHR ''.'') base) in
        if simple \<noteq> [] \<and> is_ascii_uppercase (hd simple) then Some simple else None)"

definition lombok_member :: "pick_fqn \<Rightarrow> import_context \<Rightarrow> synthetic_member \<Rightarrow> external_member" where
  "lombok_member pick im sm =
     (let m = into_external sm in
      if em_ret_fqn m = None
      then m\<lparr>em_ret_fqn := Option.bind (Option.bind (em_ret_display m) display_base_simple) (\<lambda>simple. pick (import_candidates im simple))\<rparr>
      else m)"

fun class_kind_of :: "type_kind \<Rightarrow> class_kind" where
  "class_kind_of ClassType = Class"
| "class_kind_of InterfaceType = Interface"
| "class_kind_of EnumType = Enum"
| "class_kind_of RecordType = Record"
| "class_kind_of AnnotationType = Annotation"

definition implicit_supertypes :: "type_decl \<Rightarrow> string \<Rightarrow> type_ref list" where
  "implicit_supertypes td binary =
     (case td_kind td of
        EnumType \<Rightarrow> [Named (NamedId ''java.lang.Enum'') [named binary]]
      | RecordType \<Rightarrow> [named ''java.lang.Record'']
      | ClassType \<Rightarrow>
          if child_by_field ''superclass'' (fst (td_node td)) = None
             \<and> \<not> list_ex (\<lambda>n. case up n of Some p \<Rightarrow> kind (fst p) = ''superclass'' | None \<Rightarrow> False) (super_type_nodes (td_node td))
          then [named ''java.lang.Object''] else []
      | _ \<Rightarrow> [])"

definition header_broken :: "node \<Rightarrow> bool" where
  "header_broken n \<longleftrightarrow>
     nd_error (data_of n) \<or> list_ex (\<lambda>c. \<not> ends_with ''_body'' (kind c) \<and> nd_has_error (data_of c)) (named_children n)"

definition decl_binary :: "type_decl \<Rightarrow> string" where
  "decl_binary td = (case td_binary_name td of Some b \<Rightarrow> b | None \<Rightarrow> td_name td)"

definition decl_resolver :: "pick_fqn \<Rightarrow> import_context \<Rightarrow> type_decl \<Rightarrow> string \<Rightarrow> bool \<Rightarrow> string option" where
  "decl_resolver pick im td =
     source_resolver pick im (nested_types_in_scope (fst (td_node td)) (snd (td_node td)) (decl_binary td))"

definition class_vars :: "pick_fqn \<Rightarrow> import_context \<Rightarrow> type_decl \<Rightarrow> var_scope \<times> type_parameter list" where
  "class_vars pick im td =
     lower_type_parameters (decl_resolver pick im td) (child_by_field ''type_parameters'' (fst (td_node td))) (decl_binary td) []"

definition source_metadata :: "pick_fqn \<Rightarrow> import_context \<Rightarrow> type_decl \<Rightarrow> class_metadata" where
  "source_metadata pick im td =
     (let binary = decl_binary td;
          resolve_named = decl_resolver pick im td;
          enclosing = map_option fst (rsplit_once (CHR ''$'') binary);
          class_names = fst (class_vars pick im td);
          sups = implicit_supertypes td binary
                 @ map (\<lambda>n. lower_type_node resolve_named class_names (fst n)) (super_type_nodes (td_node td));
          k = class_kind_of (td_kind td)
      in \<lparr>cm_id = NamedId binary, cm_kind = k, cm_access = access_of (fst (td_node td)) Package,
          cm_is_abstract = (has_modifier ''abstract'' (fst (td_node td)) \<or> k \<in> {Interface, Annotation}),
          cm_is_static = (enclosing = None \<or> has_modifier ''static'' (fst (td_node td)) \<or> k \<noteq> Class),
          enclosing_class = map_option NamedId enclosing,
          cm_type_parameters = snd (class_vars pick im td),
          supertypes = sups,
          hierarchy_complete = (\<not> header_broken (fst (td_node td)) \<and> \<not> list_ex contains_unknown sups),
          constructors_complete =
            (list_all (\<lambda>c. \<not> signature_has_error (fst c)) (constructors td)
             \<and> (case compact_constructor td of Some c \<Rightarrow> \<not> signature_has_error (fst c) | None \<Rightarrow> True)
             \<and> \<not> body_has_unclassified_member (fst (td_node td)))\<rparr>)"

definition class_member_ctx :: "pick_fqn \<Rightarrow> import_context \<Rightarrow> type_decl \<Rightarrow> member_ctx" where
  "class_member_ctx pick im td =
     \<lparr>mc_imports = im, mc_pick = pick, mc_binary = decl_binary td, mc_kind = td_kind td, mc_names = fst (class_vars pick im td),
      mc_resolve = decl_resolver pick im td\<rparr>"

definition source_class_members :: "(string \<Rightarrow> string) \<Rightarrow> pick_fqn \<Rightarrow> import_context \<Rightarrow> type_decl \<Rightarrow> external_member list" where
  "source_class_members upper pick im td =
     List.map_filter (member_from_node (class_member_ctx pick im td)) (filter (\<lambda>m. externally_visible (sm_node m)) (own_members td))
     @ constructor_members (decl_resolver pick im td) td (decl_binary td) (access_of (fst (td_node td)) Package) (fst (class_vars pick im td))
     @ (if td_kind td = EnumType then enum_synthetic_members (td_name td) (pick (import_candidates im (td_name td))) else [])
     @ (if file_uses_lombok (td_node td) then map (lombok_member pick im) (synthesize upper (td_node td)) else [])"

definition source_supers_of :: "pick_fqn \<Rightarrow> import_context \<Rightarrow> type_decl \<Rightarrow> string list" where
  "source_supers_of pick im td =
     (let supers = List.map_filter (\<lambda>s. pick (import_candidates im s)) (super_simple_names td) in
      if td_kind td = EnumType then ''java.lang.Enum'' # supers
      else if supers = [] then [''java.lang.Object''] else supers)"

definition to_external_class :: "(string \<Rightarrow> string) \<Rightarrow> pick_fqn \<Rightarrow> import_context \<Rightarrow> type_decl \<Rightarrow> external_class" where
  "to_external_class upper pick im td =
     \<lparr>ec_supers = source_supers_of pick im td, ec_type_params = map fst (fst (class_vars pick im td)),
      ec_members = source_class_members upper pick im td, ec_metadata = Some (source_metadata pick im td)\<rparr>"

fun nested_path :: "string option \<Rightarrow> type_decl \<Rightarrow> string list \<Rightarrow> type_decl option" where
  "nested_path package current [] = Some current"
| "nested_path package current (seg # segs) =
     (case find (\<lambda>m. sm_name m = seg \<and> (case sm_kind m of NestedTypeMember _ \<Rightarrow> True | _ \<Rightarrow> False)) (own_members current) of
        None \<Rightarrow> None
      | Some m \<Rightarrow> (case from_node 0 package (sm_node m) of None \<Rightarrow> None | Some td \<Rightarrow> nested_path package td segs))"

definition find_type_by_path :: "node \<Rightarrow> string \<Rightarrow> string option \<Rightarrow> type_decl option" where
  "find_type_by_path root type_path package =
     (let segments = split_char (CHR ''.'') type_path in
      case find_map (\<lambda>n. case from_node 0 package n of Some td \<Rightarrow> if td_name td = hd segments then Some td else None | None \<Rightarrow> None)
             (named_kids (root, [])) of
        None \<Rightarrow> None
      | Some td \<Rightarrow> nested_path package td (tl segments))"

definition class_from_doc :: "(string \<Rightarrow> string) \<Rightarrow> pick_fqn \<Rightarrow> node \<Rightarrow> string \<Rightarrow> external_class option" where
  "class_from_doc upper pick root type_path =
     (let im = parse_imports root in
      case find_type_by_path root type_path (im_package im) of
        Some td \<Rightarrow> Some (to_external_class upper pick im td)
      | None \<Rightarrow>
          (case rsplit_once (CHR ''.'') type_path of
             None \<Rightarrow> None
           | Some (outer_path, l) \<Rightarrow>
               (case find_type_by_path root outer_path (im_package im) of
                  None \<Rightarrow> None
                | Some outer \<Rightarrow>
                    if l \<noteq> td_name outer @ ''Builder'' \<or> \<not> file_uses_lombok (td_node outer) then None
                    else builder_class outer)))"

section \<open>The open documents as a semantic context (resolve.rs)\<close>

definition project_pick :: "type_table \<Rightarrow> symbol_source \<Rightarrow> pick_fqn" where
  "project_pick t symbols cands = find (\<lambda>c. table_get_named t c \<noteq> None \<or> ss_class symbols c \<noteq> None) cands"

definition source_ctx :: "(string \<Rightarrow> string) \<Rightarrow> type_table \<Rightarrow> symbol_source \<Rightarrow> type_decl sem_ctx" where
  "source_ctx upper t symbols =
     \<lparr>is_duplicate = table_is_duplicate t, get_named = table_get_named t, by_node = table_by_node t,
      decl_class = (\<lambda>d. map_option (\<lambda>c. to_external_class upper (project_pick t symbols) (dc_imports c) d) (table_context t (td_doc d))),
      ctx_symbols = symbols\<rparr>"

definition resolve_simple_to_fqn :: "symbol_source \<Rightarrow> import_context \<Rightarrow> string \<Rightarrow> string option" where
  "resolve_simple_to_fqn symbols im s = find (\<lambda>fqn. ss_class symbols fqn \<noteq> None) (import_candidates im s)"

definition import_path_to_fqn :: "symbol_source \<Rightarrow> string \<Rightarrow> string option" where
  "import_path_to_fqn symbols path = import_path_to_binary (\<lambda>b. ss_class symbols b \<noteq> None) path"

definition resolve_simple_in_project :: "type_table \<Rightarrow> nat \<Rightarrow> import_context \<Rightarrow> string \<Rightarrow> type_decl option" where
  "resolve_simple_in_project t doc im s =
     (case find (\<lambda>td. td_doc td = doc) (table_candidates t s) of
        Some td \<Rightarrow> Some td
      | None \<Rightarrow>
          find (\<lambda>td. case td_binary_name td of Some b \<Rightarrow> list_ex (\<lambda>c. c = b) (import_candidates im s) | None \<Rightarrow> False)
            (table_candidates t s))"

definition named_resolver :: "type_table \<Rightarrow> symbol_source \<Rightarrow> nat \<Rightarrow> import_context \<Rightarrow> located \<Rightarrow> string \<Rightarrow> bool \<Rightarrow> string option" where
  "named_resolver t symbols doc im type_node name is_dotted =
     (let s = (if is_dotted then last (split_char (CHR ''.'') name) else name) in
      case resolve_type_name_at t type_node s (if is_dotted then Some name else None) doc im of
        Some td \<Rightarrow> td_binary_name td
      | None \<Rightarrow>
          if is_dotted then (if ss_class symbols name \<noteq> None then Some name else None)
          else resolve_simple_to_fqn symbols im s)"

definition enclosing_type_node :: "located \<Rightarrow> node option" where
  "enclosing_type_node l = find (\<lambda>n. from_kind (kind n) \<noteq> None) (fst l # snd l)"

definition enclosing_typedecl :: "type_table \<Rightarrow> nat \<Rightarrow> located \<Rightarrow> type_decl option" where
  "enclosing_typedecl t doc l = Option.bind (enclosing_type_node l) (\<lambda>n. table_by_node t doc (nd_id (data_of n)))"

text \<open>The type variables one enclosing declaration adds, and those in scope at a type, innermost last.\<close>

definition level_vars :: "type_table \<Rightarrow> nat \<Rightarrow> (string \<Rightarrow> bool \<Rightarrow> string option) \<Rightarrow> located \<Rightarrow> var_scope" where
  "level_vars t doc resolve_named l =
     (if from_kind (kind (fst l)) \<noteq> None then
        (case Option.bind (table_by_node t doc (nd_id (data_of (fst l)))) td_binary_name of
           None \<Rightarrow> []
         | Some binary \<Rightarrow> fst (lower_type_parameters resolve_named (child_by_field ''type_parameters'' (fst l)) binary []))
      else case (Option.bind (enclosing_typedecl t doc l) td_binary_name, child_by_field ''name'' (fst l)) of
          (Some binary, Some n) \<Rightarrow>
            fst (lower_type_parameters resolve_named (child_by_field ''type_parameters'' (fst l)) (owner_key binary (node_text n) (fst l)) [])
        | _ \<Rightarrow> [])"

fun scope_levels :: "node list \<Rightarrow> located list" where
  "scope_levels [] = []"
| "scope_levels (a # anc) =
     scope_levels anc
     @ (if from_kind (kind a) \<noteq> None \<or> kind a \<in> {''method_declaration'', ''constructor_declaration''} then [(a, anc)] else [])"

definition vars_in_scope :: "type_table \<Rightarrow> symbol_source \<Rightarrow> nat \<Rightarrow> import_context \<Rightarrow> located \<Rightarrow> var_scope" where
  "vars_in_scope t symbols doc im type_node =
     concat (map (level_vars t doc (named_resolver t symbols doc im type_node)) (scope_levels (snd type_node)))"

end
