(* ===== verification/Source_Class_Laws.thy ===== *)
theory Source_Class_Laws
  imports Source_Classes
begin

text \<open>
  Classes lowered from source satisfy the contract of class data: types mention declared variables only, type
  parameters are numbered under their owners, members name their class. Type variables have one identity in resolution and in
  class data, lookups over the open documents are exact, and the class a closed file gives is the class asked for.
\<close>

section \<open>Lowered types are closed\<close>

lemma funpow_Array_vars [simp]: "type_vars ((Array ^^ k) t) = type_vars t"
  by (induction k) auto

lemma found_in: "find P xs = Some x \<Longrightarrow> x \<in> set xs"
  by (auto simp: find_Some_iff)

lemma find_var: "find P (rev vars) = Some (x, v) \<Longrightarrow> v \<in> snd ` set vars"
  using found_in by force

lemma type_vars_if: "(b \<Longrightarrow> type_vars x \<subseteq> V) \<Longrightarrow> (\<not> b \<Longrightarrow> type_vars y \<subseteq> V) \<Longrightarrow> type_vars (if b then x else y) \<subseteq> V"
  by simp

lemma type_vars_option:
  "(m = None \<Longrightarrow> type_vars x \<subseteq> V) \<Longrightarrow> (\<And>a. m = Some a \<Longrightarrow> type_vars (f a) \<subseteq> V)
   \<Longrightarrow> type_vars (case m of None \<Rightarrow> x | Some a \<Rightarrow> f a) \<subseteq> V"
  by (cases m) auto

lemma type_vars_named: "(\<And>i as. t = Named i as \<Longrightarrow> type_vars (f i as) \<subseteq> V) \<Longrightarrow> type_vars (case t of Named i as \<Rightarrow> f i as | _ \<Rightarrow> Unknown) \<subseteq> V"
  by (cases t) auto

lemma lower_type_node_vars: "type_vars (lower_type_node r vars n) \<subseteq> snd ` set vars"
proof (induction n rule: measure_induct_rule [where f = size])
  case (less n)
  let ?L = "lower_type_node r vars" and ?V = "snd ` set vars"
  have child: "v \<in> ?V" if "v \<in> type_vars (?L c)" "find P (named_children n) = Some c" for P c v
    using less [OF size_found [OF that(2)]] that(1) by blast
  have elem: "v \<in> ?V" if "v \<in> type_vars (?L c)" "child_by_field f n = Some c" for f c v
    using less [OF size_field_child [OF that(2)]] that(1) by blast
  have grand: "v \<in> ?V" if "v \<in> type_vars (?L c)" "c \<in> set (named_children t)" "find P (named_children n) = Some t" for P t c v
    using less [OF size_found_child [OF that(3,2)]] that(1) by blast
  show ?case
    by (subst lower_type_node.simps, unfold Let_def funpow_Array_vars, intro type_vars_if type_vars_option type_vars_named)
      (auto split: option.splits if_splits dest: child elem grand find_var)
qed

section \<open>Type parameters\<close>

text \<open>The variables a list of type parameters declares: numbered under the owner, whatever the resolver of names.\<close>

definition declared_vars :: "string \<Rightarrow> node option \<Rightarrow> var_scope" where
  "declared_vars own m =
     (case m of
        None \<Rightarrow> []
      | Some n \<Rightarrow>
          (let tps = filter (\<lambda>c. kind c = ''type_parameter'') (named_children n) in
           zip (map (\<lambda>tp. text_or [] (find (\<lambda>c. kind c = ''type_identifier'') (named_children tp))) tps)
             (map (TypeVariableId own) [0..<length tps])))"

definition params_scoped :: "string \<Rightarrow> type_variable_id set \<Rightarrow> type_parameter list \<Rightarrow> bool" where
  "params_scoped own outer tps \<longleftrightarrow>
     map tp_id tps = map (TypeVariableId own) [0..<length tps]
     \<and> list_all (\<lambda>tp. list_all (\<lambda>b. type_vars b \<subseteq> outer \<union> set (map tp_id tps)) (bounds tp)) tps"

lemma params_scoped_ok: "params_scoped own {} tps \<longleftrightarrow> params_ok own tps"
  by (simp add: params_scoped_def params_ok_def)

lemma type_bounds_vars: "b \<in> set (type_bounds r names tp) \<Longrightarrow> type_vars b \<subseteq> snd ` set names"
  using lower_type_node_vars [of r names] by (auto simp del: Union_iff simp: type_bounds_def subset_iff split: option.splits)

lemma lower_params_loop_spec:
  "lower_params_loop r own i tps (names, ps) = (names', ps') \<Longrightarrow>
   names' = names @ zip (map (\<lambda>tp. text_or [] (find (\<lambda>c. kind c = ''type_identifier'') (named_children tp))) tps)
       (map (TypeVariableId own) [i..<i + length tps])
   \<and> (\<exists>new. ps' = ps @ new \<and> map tp_id new = map (TypeVariableId own) [i..<i + length tps]
        \<and> (\<forall>tp \<in> set new. \<forall>b \<in> set (bounds tp). type_vars b \<subseteq> snd ` set names'))"
proof (induction tps arbitrary: i names ps)
  case (Cons tp tps)
  define name where "name = text_or [] (find (\<lambda>c. kind c = ''type_identifier'') (named_children tp))"
  define v where "v = TypeVariableId own i"
  define bs where "bs = type_bounds r (names @ [(name, v)]) tp"
  have step: "lower_params_loop r own (i + 1) tps (names @ [(name, v)], ps @ [TypeParameter v bs]) = (names', ps')"
    using Cons.prems by (simp add: Let_def name_def v_def bs_def)
  note IH = Cons.IH [OF step]
  have up: "[i..<i + length (tp # tps)] = i # [i + 1..<i + 1 + length tps]" using upt_conv_Cons [of i "i + length (tp # tps)"] by simp
  have names': "names' = names @ zip (map (\<lambda>tp. text_or [] (find (\<lambda>c. kind c = ''type_identifier'') (named_children tp))) (tp # tps))
       (map (TypeVariableId own) [i..<i + length (tp # tps)])"
    unfolding up using IH by (simp add: name_def v_def)
  obtain new where new: "ps' = (ps @ [TypeParameter v bs]) @ new" "map tp_id new = map (TypeVariableId own) [i + 1..<i + 1 + length tps]"
    "\<forall>tp \<in> set new. \<forall>b \<in> set (bounds tp). type_vars b \<subseteq> snd ` set names'" using IH by blast
  have "set (names @ [(name, v)]) \<subseteq> set names'" using IH by auto
  then have "type_vars b \<subseteq> snd ` set names'" if "b \<in> set bs" for b
    using type_bounds_vars [of b r "names @ [(name, v)]" tp] that unfolding bs_def by (meson dual_order.trans image_mono)
  then have "ps' = ps @ (TypeParameter v bs # new) \<and> map tp_id (TypeParameter v bs # new) = map (TypeVariableId own) [i..<i + length (tp # tps)]
        \<and> (\<forall>tp \<in> set (TypeParameter v bs # new). \<forall>b \<in> set (bounds tp). type_vars b \<subseteq> snd ` set names')"
    unfolding up using new by (simp add: v_def)
  then show ?case using names' by blast
qed simp

lemma lower_type_parameters_spec:
  assumes "lower_type_parameters r m own outer = (names, tps)"
  shows "names = outer @ declared_vars own m" "map tp_id tps = map snd (declared_vars own m)"
    "params_scoped own (snd ` set outer) tps"
proof -
  have *: "names = outer @ declared_vars own m \<and> map tp_id tps = map snd (declared_vars own m)
      \<and> params_scoped own (snd ` set outer) tps"
  proof (cases m)
    case (Some n)
    let ?tps = "filter (\<lambda>c. kind c = ''type_parameter'') (named_children n)"
    from assms Some have "lower_params_loop r own 0 ?tps (outer, []) = (names, tps)" by (simp add: lower_type_parameters_def)
    from lower_params_loop_spec [OF this]
    have bnds: "\<forall>tp \<in> set tps. \<forall>b \<in> set (bounds tp). type_vars b \<subseteq> snd ` set names" by (metis append_Nil)
    from lower_params_loop_spec [OF \<open>lower_params_loop r own 0 ?tps (outer, []) = (names, tps)\<close>]
    have names: "names = outer @ declared_vars own m" and ids: "map tp_id tps = map (TypeVariableId own) [0..<length ?tps]"
      by (simp_all add: declared_vars_def Some Let_def)
    have snds: "map snd (declared_vars own m) = map (TypeVariableId own) [0..<length ?tps]"
      by (simp add: declared_vars_def Some Let_def)
    have len: "length tps = length ?tps" using arg_cong [OF ids, of length] by simp
    have set: "snd ` set names = snd ` set outer \<union> set (map tp_id tps)"
      unfolding names ids snds [symmetric] by (simp add: image_Un)
    show ?thesis using names ids snds bnds unfolding set params_scoped_def by (simp add: len list_all_iff)
  qed (use assms in \<open>auto simp: lower_type_parameters_def declared_vars_def params_scoped_def\<close>)
  then show "names = outer @ declared_vars own m" "map tp_id tps = map snd (declared_vars own m)"
    "params_scoped own (snd ` set outer) tps" by simp_all
qed

lemma array_dims_vars [simp]: "type_vars (array_dims d t) = type_vars t"
  by (simp add: array_dims_def split: option.splits)

lemma lower_parameter_vars: "list_all (\<lambda>t. type_vars t \<subseteq> snd ` set vars) (lower_parameter r vars p)"
  using lower_type_node_vars [of r vars] by (simp add: lower_parameter_def split: option.splits)

lemma lower_parameters_vars: "lower_parameters r m vars = (ps, varargs) \<Longrightarrow> list_all (\<lambda>t. type_vars t \<subseteq> snd ` set vars) ps"
  using lower_parameter_vars [of vars r] by (auto simp: lower_parameters_def list_all_iff subset_iff split: option.splits)

lemma lower_parameters_varargs: "lower_parameters r m vars = (ps, True) \<Longrightarrow> \<exists>e. Array e \<in> set ps"
proof -
  assume "lower_parameters r m vars = (ps, True)"
  then obtain n p where "m = Some n" "p \<in> set (named_children n)" "kind p = ''spread_parameter''"
    and ps: "ps = concat (map (lower_parameter r vars) (named_children n))"
    by (auto simp: lower_parameters_def list_ex_iff split: option.splits)
  then have "set (lower_parameter r vars p) \<subseteq> set ps" "\<exists>e. Array e \<in> set (lower_parameter r vars p)"
    by (auto simp: lower_parameter_def)
  then show ?thesis by blast
qed

section \<open>Source classes are well formed\<close>

definition param_ids :: "class_metadata \<Rightarrow> type_variable_id set" where
  "param_ids cm = set (map tp_id (cm_type_parameters cm))"

text \<open>
  The contract of a member built from source: its metadata names the class and says the same of \<open>static\<close>, its type
  parameters are numbered under an owner of the class, its types mention only variables of the class and its own, a
  variable-arity member has an array parameter, fields have no parameters, constructors return nothing, and no listed
  method is private. Only generated methods have no metadata.
\<close>

definition source_member_ok :: "class_metadata \<Rightarrow> string \<Rightarrow> external_member \<Rightarrow> bool" where
  "source_member_ok cm binary m \<longleftrightarrow>
     (case em_metadata m of
        None \<Rightarrow> em_kind m = MethodKind
      | Some mm \<Rightarrow>
          declaring_class mm = cm_id cm \<and> em_is_static m = mm_is_static mm
          \<and> (\<exists>x. params_scoped (binary @ ''#'' @ x) (param_ids cm) (mm_type_parameters mm))
          \<and> type_vars (result mm) \<subseteq> param_ids cm \<union> set (map tp_id (mm_type_parameters mm))
          \<and> list_all (\<lambda>t. type_vars t \<subseteq> param_ids cm \<union> set (map tp_id (mm_type_parameters mm)))
              (case parameters mm of Some ps \<Rightarrow> ps | None \<Rightarrow> [])
          \<and> (is_varargs mm \<longrightarrow> (case parameters mm of Some ps \<Rightarrow> \<exists>e. Array e \<in> set ps | None \<Rightarrow> True))
          \<and> (em_kind m = FieldKind \<longrightarrow> parameters mm = None)
          \<and> (em_kind m = ConstructorKind \<longrightarrow> result mm = Void \<and> \<not> mm_is_static mm)
          \<and> (em_kind m = MethodKind \<longrightarrow> mm_access mm \<noteq> Private))"

definition external_class_ok :: "string \<Rightarrow> external_class \<Rightarrow> bool" where
  "external_class_ok binary c \<longleftrightarrow>
     (\<exists>cm. ec_metadata c = Some cm \<and> cm_id cm = NamedId binary \<and> params_ok binary (cm_type_parameters cm)
        \<and> length (ec_type_params c) = length (cm_type_parameters cm)
        \<and> list_all (\<lambda>t. type_vars t \<subseteq> param_ids cm) (supertypes cm)
        \<and> (hierarchy_complete cm \<longrightarrow> \<not> list_ex contains_unknown (supertypes cm))
        \<and> list_all (source_member_ok cm binary) (ec_members c))
     \<and> ec_supers c \<noteq> []"

lemma params_scoped_Nil [simp]: "params_scoped own ids []"
  by (simp add: params_scoped_def)

lemma class_vars_spec:
  assumes "class_vars pick im td = (names, tps)"
  shows "names = declared_vars (decl_binary td) (child_by_field ''type_parameters'' (fst (td_node td)))"
    "params_ok (decl_binary td) tps" "snd ` set names = set (map tp_id tps)" "length names = length tps"
proof -
  note spec = lower_type_parameters_spec [OF assms [unfolded class_vars_def]]
  show names: "names = declared_vars (decl_binary td) (child_by_field ''type_parameters'' (fst (td_node td)))" using spec(1) by simp
  have ids: "map tp_id tps = map snd names" using spec(2) names by simp
  show "params_ok (decl_binary td) tps" using spec(3) by (simp add: params_scoped_ok)
  show "snd ` set names = set (map tp_id tps)" unfolding ids by simp
  show "length names = length tps" using arg_cong [OF ids, of length] by simp
qed

lemma collected_method:
  assumes "m \<in> set (collect_body_members doc l)" "sm_kind m = MethodMember"
  obtains c where "c \<in> set (named_kids l)" "kind (fst c) \<in> {''method_declaration'', ''annotation_type_element_declaration''}" "sm_node m = c"
  | c where "c \<in> set (named_kids l)" "kind (fst c) = ''enum_body_declarations''" "m \<in> set (collect_body_members doc c)"
  using assms unfolding collect_body_members.simps [of doc l]
  by (auto simp: declarator_members_def named_member_def in_map_filter split: if_splits option.splits)

lemma enclosing_below: "c \<in> set (named_kids l) \<Longrightarrow> from_kind (kind (fst c)) = None \<Longrightarrow> enclosing_type_node c = enclosing_type_node l"
  by (auto simp: enclosing_type_node_def named_kids_def below_def)

lemma method_nodes:
  "m \<in> set (collect_body_members doc l) \<Longrightarrow> sm_kind m = MethodMember \<Longrightarrow>
   kind (fst (sm_node m)) \<in> {''method_declaration'', ''annotation_type_element_declaration''}
   \<and> enclosing_type_node (sm_node m) = enclosing_type_node l"
proof (induction "size (fst l)" arbitrary: l rule: less_induct)
  case (less l)
  from less(2,3) show ?case
  proof (cases rule: collected_method)
    case (1 c)
    then show ?thesis using enclosing_below [of c l] by (auto simp: from_kind_def)
  next
    case (2 c)
    then show ?thesis using less(1) [OF size_named_kid [OF 2(1)] 2(3) less(3)] enclosing_below [of c l] by (simp add: from_kind_def)
  qed
qed

lemma metadata_fields:
  "cm_id (source_metadata pick im td) = NamedId (decl_binary td)"
  "cm_type_parameters (source_metadata pick im td) = snd (class_vars pick im td)"
  by (simp_all add: source_metadata_def Let_def)

lemma param_ids_names: "param_ids (source_metadata pick im td) = snd ` set (fst (class_vars pick im td))"
  using class_vars_spec(3) [of pick im td] by (simp add: param_ids_def metadata_fields prod_eq_iff)

text \<open>What lowering the parameters and the type parameters of one declaration gives.\<close>

lemma executable_scoped:
  assumes "lower_type_parameters r tp own names = (names', tps)" "lower_parameters r ps names' = (pts, va)"
  shows "params_scoped own (snd ` set names) tps"
    "list_all (\<lambda>t. type_vars t \<subseteq> snd ` set names \<union> set (map tp_id tps)) pts"
    "type_vars (lower_type_node r names' ty) \<subseteq> snd ` set names \<union> set (map tp_id tps)"
proof -
  note spec = lower_type_parameters_spec [OF assms(1)]
  have "snd ` set names' = snd ` set names \<union> set (map tp_id tps)" using spec(1,2) by (simp add: image_Un)
  then show "list_all (\<lambda>t. type_vars t \<subseteq> snd ` set names \<union> set (map tp_id tps)) pts"
    "type_vars (lower_type_node r names' ty) \<subseteq> snd ` set names \<union> set (map tp_id tps)"
    using lower_parameters_vars [OF assms(2)] lower_type_node_vars [of r names' ty] by metis+
qed (rule lower_type_parameters_spec(3) [OF assms(1)])

lemma method_metadata_ok:
  assumes "param_ids cm = snd ` set (mc_names c)" "cm_id cm = NamedId (mc_binary c)"
  shows "declaring_class (method_metadata c name st acc n) = cm_id cm \<and> mm_is_static (method_metadata c name st acc n) = st
    \<and> mm_access (method_metadata c name st acc n) = acc
    \<and> (\<exists>x. params_scoped (mc_binary c @ ''#'' @ x) (param_ids cm) (mm_type_parameters (method_metadata c name st acc n)))
    \<and> type_vars (result (method_metadata c name st acc n)) \<subseteq> param_ids cm \<union> set (map tp_id (mm_type_parameters (method_metadata c name st acc n)))
    \<and> list_all (\<lambda>t. type_vars t \<subseteq> param_ids cm \<union> set (map tp_id (mm_type_parameters (method_metadata c name st acc n))))
        (case parameters (method_metadata c name st acc n) of Some ps \<Rightarrow> ps | None \<Rightarrow> [])
    \<and> (is_varargs (method_metadata c name st acc n)
       \<longrightarrow> (case parameters (method_metadata c name st acc n) of Some ps \<Rightarrow> \<exists>e. Array e \<in> set ps | None \<Rightarrow> True))"
proof -
  obtain names tps where tp: "lower_type_parameters (mc_resolve c) (child_by_field ''type_parameters'' n)
      (owner_key (mc_binary c) name n) (mc_names c) = (names, tps)" by fastforce
  obtain ps va where ps: "lower_parameters (mc_resolve c) (child_by_field ''parameters'' n) names = (ps, va)" by fastforce
  note scoped = executable_scoped [OF tp ps]
  have "\<exists>x. owner_key (mc_binary c) name n = mc_binary c @ ''#'' @ x" by (simp add: owner_key_def)
  then show ?thesis
    using scoped assms lower_parameters_varargs [of "mc_resolve c" _ names ps] ps
    by (auto simp: method_metadata_def tp split: option.splits)
qed

lemma field_metadata_ok:
  assumes "param_ids cm = snd ` set (mc_names c)"
  shows "type_vars (result (field_metadata c st acc l)) \<subseteq> param_ids cm"
  using lower_type_node_vars [of "mc_resolve c" "mc_names c"] by (simp add: field_metadata_def assms split: option.splits)

lemma visible_not_private:
  "externally_visible l \<Longrightarrow> kind (fst l) \<in> {''method_declaration'', ''annotation_type_element_declaration''} \<Longrightarrow>
   access_of (modifiers_owner l) (if b then Public else Package) \<noteq> Private"
  by (auto simp: externally_visible_def access_of_def)

lemma member_from_node_ok:
  assumes "param_ids cm = snd ` set (mc_names c)" "cm_id cm = NamedId (mc_binary c)" "member_from_node c m = Some em"
    "externally_visible (sm_node m)"
    "sm_kind m = MethodMember \<Longrightarrow> kind (fst (sm_node m)) \<in> {''method_declaration'', ''annotation_type_element_declaration''}"
  shows "source_member_ok cm (mc_binary c) em"
proof (cases "sm_kind m")
  case MethodMember
  let ?acc = "access_of (modifiers_owner (sm_node m)) (if mc_kind c = InterfaceType then Public else Package)"
  have acc: "?acc \<noteq> Private" using visible_not_private [OF assms(4) assms(5) [OF MethodMember]] .
  from assms(3) MethodMember obtain name where "em_kind em = MethodKind" "em_is_static em = sm_is_static m"
    "em_metadata em = Some (method_metadata c name (sm_is_static m) ?acc (fst (sm_node m)))"
    by (auto simp: member_from_node_def Let_def typed_member_def split: option.splits)
  then show ?thesis
    using method_metadata_ok [OF assms(1,2), of name "sm_is_static m" ?acc "fst (sm_node m)"] acc
    by (simp add: source_member_ok_def)
next
  case FieldMember
  with assms(3) obtain acc where "em_kind em = FieldKind" "em_is_static em = sm_is_static m"
    "em_metadata em = Some (field_metadata c (sm_is_static m) acc (sm_node m))"
    by (auto simp: member_from_node_def Let_def typed_member_def split: option.splits)
  then show ?thesis
    using field_metadata_ok [OF assms(1), of "sm_is_static m" acc "sm_node m"] assms(2)
    by (simp add: source_member_ok_def) (simp add: field_metadata_def)
next
  case EnumConstantMember
  with assms(2,3) show ?thesis
    by (auto simp: member_from_node_def Let_def constant_metadata_def source_member_ok_def named_def)
qed (use assms(3) in \<open>simp add: member_from_node_def\<close>)

lemma ctor_ok:
  assumes "cm_id cm = NamedId binary" "params_scoped (binary @ ''#'' @ x) (param_ids cm) tps"
    "list_all (\<lambda>t. type_vars t \<subseteq> param_ids cm \<union> set (map tp_id tps)) (case ps of Some ts \<Rightarrow> ts | None \<Rightarrow> [])"
    "va \<longrightarrow> (case ps of Some ts \<Rightarrow> \<exists>e. Array e \<in> set ts | None \<Rightarrow> True)"
  shows "source_member_ok cm binary (ctor_member name sig (ctor_metadata binary acc ps tps va))"
  using assms by (auto simp: source_member_ok_def ctor_member_def ctor_metadata_def)

lemma constructor_member_ok:
  assumes "param_ids cm = snd ` set names" "cm_id cm = NamedId binary" "constructor_member_from_node r binary names l = Some em"
  shows "source_member_ok cm binary em"
proof -
  obtain names' tps where tp: "lower_type_parameters r (child_by_field ''type_parameters'' (fst l)) (owner_key binary ''<init>'' (fst l)) names
      = (names', tps)" by fastforce
  obtain ps va where ps: "lower_parameters r (child_by_field ''parameters'' (fst l)) names' = (ps, va)" by fastforce
  let ?ps = "if signature_has_error (fst l) then None else Some ps"
  from assms(3) obtain name sig acc where em: "em = ctor_member name sig (ctor_metadata binary acc ?ps tps va)"
    by (auto simp: constructor_member_from_node_def tp ps split: option.splits prod.splits)
  show ?thesis unfolding em
  proof (rule ctor_ok [OF assms(2)])
    show "params_scoped (binary @ ''#'' @ (''<init>'' @ (case child_by_field ''parameters'' (fst l) of Some p \<Rightarrow> node_text p | None \<Rightarrow> ''()'')))
        (param_ids cm) tps"
      using executable_scoped(1) [OF tp ps] assms(1) by (simp add: owner_key_def)
  qed (use executable_scoped(2) [OF tp ps] lower_parameters_varargs [of r _ names' ps] ps assms(1) in auto)
qed

lemma record_constructor_ok:
  assumes "param_ids cm = snd ` set names" "cm_id cm = NamedId binary"
  shows "source_member_ok cm binary (record_canonical_constructor r td binary acc names)"
proof -
  obtain ps va where ps: "lower_parameters r (child_by_field ''parameters'' (fst (td_node td))) names = (ps, va)" by fastforce
  show ?thesis unfolding record_canonical_constructor_def ps prod.case
    by (rule ctor_ok [OF assms(2)])
      (use lower_parameters_vars [OF ps] lower_parameters_varargs [of r _ names ps] ps assms(1) in auto)
qed

lemma constructor_members_ok:
  assumes "param_ids cm = snd ` set names" "cm_id cm = NamedId binary"
  shows "list_all (source_member_ok cm binary) (constructor_members r td binary acc names)"
  using assms constructor_member_ok [OF assms] record_constructor_ok [OF assms, of r td acc]
  by (auto simp: constructor_members_def list_all_iff in_map_filter default_constructor_def intro: ctor_ok)

lemma own_method_nodes:
  "m \<in> set (own_members td) \<Longrightarrow> sm_kind m = MethodMember \<Longrightarrow>
   kind (fst (sm_node m)) \<in> {''method_declaration'', ''annotation_type_element_declaration''}"
  using method_nodes [of m "td_doc td"]
  by (fastforce simp: own_members_def record_members_def named_member_def split: option.splits if_splits)

lemma generated_member_ok:
  "em_metadata m = None \<Longrightarrow> em_kind m = MethodKind \<Longrightarrow> source_member_ok cm binary m"
  by (simp add: source_member_ok_def)

lemma source_members_ok:
  "list_all (source_member_ok (source_metadata pick im td) (decl_binary td)) (source_class_members upper pick im td)"
proof -
  let ?cm = "source_metadata pick im td" and ?c = "class_member_ctx pick im td"
  have "source_member_ok ?cm (mc_binary ?c) em"
    if "m \<in> set (own_members td)" "externally_visible (sm_node m)" "member_from_node ?c m = Some em" for m em
    by (rule member_from_node_ok [OF _ _ that(3,2) own_method_nodes [OF that(1)]]) (simp_all add: class_member_ctx_def param_ids_names metadata_fields)
  then have own: "list_all (source_member_ok ?cm (decl_binary td))
      (List.map_filter (member_from_node ?c) (filter (\<lambda>m. externally_visible (sm_node m)) (own_members td)))"
    by (auto simp: list_all_iff in_map_filter class_member_ctx_def)
  have enum: "list_all (source_member_ok ?cm (decl_binary td)) (enum_synthetic_members name fqn)" for name fqn
    by (simp add: enum_synthetic_members_def generated_member_ok)
  have lombok: "list_all (source_member_ok ?cm (decl_binary td)) (map (lombok_member pick im) sms)" for sms
    by (auto simp: list_all_iff lombok_member_def into_external_def Let_def intro: generated_member_ok)
  show ?thesis
    unfolding source_class_members_def
    using own enum lombok constructor_members_ok [OF param_ids_names metadata_fields(1)] by simp
qed

lemma supertypes_lowered:
  "supertypes (source_metadata pick im td) = implicit_supertypes td (decl_binary td)
     @ map (\<lambda>n. lower_type_node (decl_resolver pick im td) (fst (class_vars pick im td)) (fst n)) (super_type_nodes (td_node td))"
  by (simp add: source_metadata_def Let_def)

lemma implicit_closed: "t \<in> set (implicit_supertypes td binary) \<Longrightarrow> type_vars t = {}"
  by (auto simp: implicit_supertypes_def named_def split: type_kind.splits if_splits)

lemma to_external_class_ok: "external_class_ok (decl_binary td) (to_external_class upper pick im td)"
proof -
  let ?cm = "source_metadata pick im td"
  obtain names tps where v: "class_vars pick im td = (names, tps)" by fastforce
  have "list_all (\<lambda>t. type_vars t \<subseteq> param_ids ?cm) (supertypes ?cm)"
    using lower_type_node_vars [of "decl_resolver pick im td" "fst (class_vars pick im td)"]
    by (simp add: param_ids_names supertypes_lowered list_all_iff ball_Un implicit_closed)
  moreover have "hierarchy_complete ?cm \<longrightarrow> \<not> list_ex contains_unknown (supertypes ?cm)"
    by (simp add: source_metadata_def Let_def)
  moreover have "length (map fst (fst (class_vars pick im td))) = length (cm_type_parameters ?cm)"
    using class_vars_spec(4) [OF v] by (simp add: metadata_fields v)
  moreover have "params_ok (decl_binary td) (cm_type_parameters ?cm)"
    using class_vars_spec(2) [OF v] by (simp add: metadata_fields v)
  moreover have "source_supers_of pick im td \<noteq> []" by (simp add: source_supers_of_def Let_def)
  ultimately show ?thesis
    using source_members_ok [of pick im td upper] by (simp add: external_class_ok_def to_external_class_def metadata_fields)
qed

section \<open>One identity for every type variable\<close>

lemma from_node_kind: "from_node doc package l = Some td \<Longrightarrow> td_node td = l \<and> td_doc td = doc \<and> from_kind (kind (fst l)) = Some (td_kind td)"
  by (auto simp: from_node_def split: option.splits prod.splits)

lemma scanned_kind: "d \<in> set (scanned docs cur) \<Longrightarrow> from_kind (kind (fst (td_node d))) = Some (td_kind d)"
  by (auto simp: scanned_def doc_decls_def in_map_filter simp del: preorder.simps split: if_splits dest: from_node_kind)

lemma own_method_enclosing:
  assumes "m \<in> set (own_members td)" "sm_kind m = MethodMember" "from_kind (kind (fst (td_node td))) \<noteq> None"
  shows "enclosing_type_node (sm_node m) = Some (fst (td_node td))"
proof -
  from assms(1,2) obtain body where body: "body_of td = Some body" "m \<in> set (collect_body_members (td_doc td) body)"
    by (cases "body_of td") (auto simp: own_members_def record_members_def named_member_def split: option.splits if_splits)
  have "body \<in> set (named_kids (td_node td))" "kind (fst body) = body_kind (td_kind td)"
    using body(1) by (auto simp: body_of_def find_Some_iff)
  then have "enclosing_type_node body = enclosing_type_node (td_node td)"
    using enclosing_below [of body "td_node td"] by (cases "td_kind td") (auto simp: from_kind_def)
  then show ?thesis using method_nodes [OF body(2) assms(2)] assms(3) by (simp add: enclosing_type_node_def)
qed

lemma lower_type_parameters_vars: "fst (lower_type_parameters r m own outer) = outer @ declared_vars own m"
  "map tp_id (snd (lower_type_parameters r m own outer)) = map snd (declared_vars own m)"
  using lower_type_parameters_spec(1,2) [of r m own outer] by (simp_all add: prod_eq_iff)

lemma method_metadata_params:
  "map tp_id (mm_type_parameters (method_metadata c name st acc n))
   = map snd (declared_vars (owner_key (mc_binary c) name n) (child_by_field ''type_parameters'' n))"
proof -
  obtain names tps where "lower_type_parameters (mc_resolve c) (child_by_field ''type_parameters'' n)
      (owner_key (mc_binary c) name n) (mc_names c) = (names, tps)" by fastforce
  from this lower_type_parameters_spec(2) [OF this] show ?thesis by (simp add: method_metadata_def split: prod.splits)
qed

lemma level_vars_method:
  assumes "from_kind (kind (fst l)) = None" "enclosing_typedecl t doc l = Some td" "td_binary_name td = Some b"
    "child_by_field ''name'' (fst l) = Some n"
  shows "level_vars t doc r l = declared_vars (owner_key b (node_text n) (fst l)) (child_by_field ''type_parameters'' (fst l))"
  using assms by (simp add: level_vars_def lower_type_parameters_vars)

text \<open>
  C6. Type variables have one identity. For a type that is declared in an open document and is not local, the variables
  that resolution finds in the scope of the declaration are those of the class lowered from source, under the same names and
  identities, and so for each of its methods: a type resolved inside a body and the signature another file sees name the same variables.
\<close>

theorem type_variables_agree:
  assumes "table_by_node (build_table docs cur) doc (nd_id (data_of (fst (td_node td)))) = Some td" "td_binary_name td = Some b"
  shows "level_vars (build_table docs cur) doc r (td_node td)
      = zip (ec_type_params (to_external_class upper pick im td)) (map tp_id (cm_type_parameters (source_metadata pick im td)))
    \<and> list_all (\<lambda>m. case member_from_node (class_member_ctx pick im td) m of
          Some em \<Rightarrow> map snd (level_vars (build_table docs cur) doc r (sm_node m)) = map tp_id (mm_type_parameters (the (em_metadata em)))
        | None \<Rightarrow> True) (filter (\<lambda>m. sm_kind m = MethodMember) (own_members td))"
proof
  let ?t = "build_table docs cur"
  have kind: "from_kind (kind (fst (td_node td))) \<noteq> None" using by_node_in [OF assms(1)] scanned_kind by fastforce
  obtain names tps where v: "class_vars pick im td = (names, tps)" by fastforce
  have "level_vars ?t doc r (td_node td) = names"
    using kind assms class_vars_spec(1) [OF v] by (simp add: level_vars_def lower_type_parameters_vars decl_binary_def)
  moreover have "map snd names = map tp_id tps"
    using lower_type_parameters_vars [of "decl_resolver pick im td" "child_by_field ''type_parameters'' (fst (td_node td))" "decl_binary td" "[]"] v
    by (simp add: class_vars_def)
  then have "zip (map fst names) (map tp_id tps) = names" by (metis zip_map_fst_snd)
  ultimately show "level_vars ?t doc r (td_node td)
      = zip (ec_type_params (to_external_class upper pick im td)) (map tp_id (cm_type_parameters (source_metadata pick im td)))"
    by (simp add: to_external_class_def metadata_fields v)
  show "list_all (\<lambda>m. case member_from_node (class_member_ctx pick im td) m of
          Some em \<Rightarrow> map snd (level_vars ?t doc r (sm_node m)) = map tp_id (mm_type_parameters (the (em_metadata em)))
        | None \<Rightarrow> True) (filter (\<lambda>m. sm_kind m = MethodMember) (own_members td))"
  proof (clarsimp simp: list_all_iff split: option.split)
    fix m em assume m: "m \<in> set (own_members td)" "sm_kind m = MethodMember" "member_from_node (class_member_ctx pick im td) m = Some em"
    then obtain n st acc where n: "child_by_field ''name'' (fst (sm_node m)) = Some n"
      and em: "em_metadata em = Some (method_metadata (class_member_ctx pick im td) (node_text n) st acc (fst (sm_node m)))"
      by (auto simp: member_from_node_def Let_def typed_member_def split: option.splits)
    have "enclosing_typedecl ?t doc (sm_node m) = Some td"
      using own_method_enclosing [OF m(1,2) kind] assms(1) by (simp add: enclosing_typedecl_def)
    moreover have "from_kind (kind (fst (sm_node m))) = None" using own_method_nodes [OF m(1,2)] by (auto simp: from_kind_def)
    ultimately show "map snd (level_vars ?t doc r (sm_node m)) = map tp_id (mm_type_parameters (the (em_metadata em)))"
      using n em assms(2) by (simp add: level_vars_method method_metadata_params class_member_ctx_def decl_binary_def)
  qed
qed

text \<open>A generic constructor is the exception: the two sides number its variables under different owners.\<close>

lemma constructor_variables_differ:
  assumes "kind (fst l) = ''constructor_declaration''" "enclosing_typedecl t doc l = Some td" "td_binary_name td = Some b"
    "child_by_field ''name'' (fst l) = Some n" "node_text n \<noteq> ''<init>''"
    "constructor_member_from_node r' b names l = Some em" "em_metadata em = Some mm"
  shows "set (map snd (level_vars t doc r l)) \<inter> set (map tp_id (mm_type_parameters mm)) = {}"
proof -
  let ?m = "child_by_field ''type_parameters'' (fst l)"
  have "from_kind (kind (fst l)) = None" using assms(1) by (simp add: from_kind_def)
  then have left: "level_vars t doc r l = declared_vars (owner_key b (node_text n) (fst l)) ?m"
    using assms(2-4) by (rule level_vars_method)
  obtain names' tps where tp: "lower_type_parameters r' ?m (owner_key b ''<init>'' (fst l)) names = (names', tps)" by fastforce
  then have "mm_type_parameters mm = tps"
    using assms(6,7) by (auto simp: constructor_member_from_node_def ctor_member_def ctor_metadata_def split: option.splits prod.splits)
  then have right: "map tp_id (mm_type_parameters mm) = map snd (declared_vars (owner_key b ''<init>'' (fst l)) ?m)"
    using lower_type_parameters_spec(2) [OF tp] by simp
  have owned: "\<exists>i. v = TypeVariableId own i" if "v \<in> set (map snd (declared_vars own ?m))" for v own
    using that by (cases ?m) (simp_all add: declared_vars_def Let_def del: set_map, auto)
  have "owner_key b (node_text n) (fst l) \<noteq> owner_key b ''<init>'' (fst l)" using assms(5) by (simp add: owner_key_def)
  then show ?thesis unfolding left right by (auto simp del: set_map dest!: owned)
qed

section \<open>Lookups across the open documents\<close>

lemma table_duplicate: "table_is_duplicate (build_table docs cur) b \<longleftrightarrow> length (filter (\<lambda>d. td_binary_name d = Some b) (scanned docs cur)) > 1"
  using length_positions [of "\<lambda>d. td_binary_name d = Some b" "scanned docs cur"]
  by (auto simp: table_is_duplicate_def table_fields nonempty_def)

lemma scanned_doc: "d \<in> set (scanned docs cur) \<Longrightarrow> td_doc d < length docs"
  by (auto simp: scanned_def doc_decls_def in_map_filter simp del: preorder.simps split: if_splits dest: from_node_kind)

lemma decl_class_source:
  "d \<in> set (scanned docs cur) \<Longrightarrow> decl_class (source_ctx upper (build_table docs cur) symbols) d
     = Some (to_external_class upper (project_pick (build_table docs cur) symbols) (parse_imports (docs ! td_doc d)) d)"
  using scanned_doc [of d docs cur] by (simp add: source_ctx_def table_context_def table_fields doc_context_of_def Let_def)

text \<open>
  C5. What the engines learn of a class name: a name that exactly one open declaration has is that declaration, lowered with
  the imports of its own document to a well-formed class of that very name, whatever the classpath has; a name declared twice is unknown;
  only a name no open document declares is asked of the classpath.
\<close>

theorem project_facts_exact:
  fixes upper :: "string \<Rightarrow> string" and symbols :: symbol_source
  assumes "cur < length docs"
  defines "ctx \<equiv> source_ctx upper (build_table docs cur) symbols"
  shows "case filter (\<lambda>d. td_binary_name d = Some b) (all_decls docs) of
      [] \<Rightarrow> compute_class_facts ctx (NamedId b) = external_facts ctx b
    | [d] \<Rightarrow> \<exists>c. c = to_external_class upper (project_pick (build_table docs cur) symbols) (parse_imports (docs ! td_doc d)) d
        \<and> external_class_ok b c \<and> compute_class_facts ctx (NamedId b) = facts_of c \<and> facts_of c \<noteq> None
    | _ \<Rightarrow> compute_class_facts ctx (NamedId b) = None"
proof -
  let ?P = "\<lambda>d. td_binary_name d = Some b" and ?t = "build_table docs cur"
  have same: "mset (filter ?P (scanned docs cur)) = mset (filter ?P (all_decls docs))"
    using scanned_mset [OF assms(1)] by (simp add: mset_filter)
  then have dup: "table_is_duplicate ?t b \<longleftrightarrow> length (filter ?P (all_decls docs)) > 1"
    using table_duplicate by (metis size_mset)
  have named: "table_get_named ?t b = only_one (filter ?P (all_decls docs))"
    using only_one_mset [OF same] by (simp add: get_named_scanned)
  have facts: "compute_class_facts ctx (NamedId b) = (if length (filter ?P (all_decls docs)) > 1 then None
      else case only_one (filter ?P (all_decls docs)) of Some d \<Rightarrow> Option.bind (decl_class ctx d) facts_of | None \<Rightarrow> external_facts ctx b)"
    by (simp add: compute_class_facts_def source_decl_def ctx_def source_ctx_def dup named split: option.split)
  show ?thesis
  proof (cases "filter ?P (all_decls docs)" rule: remdups_adj.cases)
    case (2 d)
    then have "table_get_named ?t b = Some d" using named by (simp add: only_one_def)
    then have d: "d \<in> set (scanned docs cur)" "td_binary_name d = Some b" using get_named_in by blast+
    then have "external_class_ok b (to_external_class upper (project_pick ?t symbols) (parse_imports (docs ! td_doc d)) d)"
      using to_external_class_ok [of d] by (simp add: decl_binary_def)
    then show ?thesis using 2 facts decl_class_source [OF d(1)]
      by (simp add: only_one_def ctx_def facts_of_def to_external_class_def)
  qed (use facts in \<open>simp_all add: only_one_def\<close>)
qed

section \<open>Types of closed files\<close>

definition qualified_binary :: "string option \<Rightarrow> string list \<Rightarrow> string" where
  "qualified_binary package names =
     (case package of Some p \<Rightarrow> if p = [] then join_with ''$'' names else p @ ''.'' @ join_with ''$'' names
      | None \<Rightarrow> join_with ''$'' names)"

lemma identity_loop_append: "identity_loop ns anc = map_option ((@) ns) (identity_loop [] anc)"
proof (induction anc arbitrary: ns)
  case (Cons a anc)
  have "identity_loop (ns @ [x]) anc = map_option ((@) ns) (identity_loop [x] anc)" for x
    using Cons [of "ns @ [x]"] Cons [of "[x]"] by (simp add: option.map_comp comp_def)
  then show ?case using Cons [of ns] by (simp split: option.split)
qed simp

text \<open>A declaration reached by a path of names: its own name, its place in the tree and its binary name follow the path.\<close>

definition at_path :: "string option \<Rightarrow> string list \<Rightarrow> type_decl \<Rightarrow> bool" where
  "at_path package path td \<longleftrightarrow>
     path \<noteq> [] \<and> from_kind (kind (fst (td_node td))) = Some (td_kind td)
     \<and> (\<exists>n. child_by_field ''name'' (fst (td_node td)) = Some n \<and> node_text n = td_name td)
     \<and> identity_loop [td_name td] (snd (td_node td)) = Some (rev path)
     \<and> td_binary_name td = Some (qualified_binary package path)"

lemma from_node_at_path:
  assumes "from_node doc package l = Some td" "identity_loop [td_name td] (snd l) = Some (rev path)" "path \<noteq> []"
  shows "at_path package path td"
  using assms
  by (auto simp: from_node_def at_path_def binary_identity_def qualified_binary_def Let_def split: option.splits prod.splits)

lemma identity_skip:
  "from_kind (kind a) = None \<Longrightarrow>
   kind a \<notin> {''program'', ''block'', ''method_declaration'', ''constructor_declaration'', ''lambda_expression'', ''object_creation_expression''} \<Longrightarrow>
   identity_loop ns (a # anc) = identity_loop ns anc"
  by simp

lemma nested_nodes:
  "m \<in> set (collect_body_members doc l) \<Longrightarrow> sm_kind m = NestedTypeMember k \<Longrightarrow> from_kind (kind (fst l)) = None \<Longrightarrow>
   kind (fst l) \<notin> {''program'', ''block'', ''method_declaration'', ''constructor_declaration'', ''lambda_expression'', ''object_creation_expression''} \<Longrightarrow>
   identity_loop ns (snd (sm_node m)) = identity_loop ns (snd l)
   \<and> (\<exists>n. child_by_field ''name'' (fst (sm_node m)) = Some n \<and> node_text n = sm_name m)"
proof (induction "size (fst l)" arbitrary: l rule: less_induct)
  case (less l)
  from less(2,3) obtain c where c: "c \<in> set (named_kids l)"
    and "sm_node m = c \<and> (\<exists>n. child_by_field ''name'' (fst c) = Some n \<and> node_text n = sm_name m)
      \<or> kind (fst c) = ''enum_body_declarations'' \<and> m \<in> set (collect_body_members doc c)"
    unfolding collect_body_members.simps [of doc l]
    by (auto simp: declarator_members_def named_member_def in_map_filter split: if_splits option.splits) metis
  then consider "sm_node m = c" "\<exists>n. child_by_field ''name'' (fst c) = Some n \<and> node_text n = sm_name m"
    | "kind (fst c) = ''enum_body_declarations''" "m \<in> set (collect_body_members doc c)" by blast
  moreover have "snd c = fst l # snd l" using c by (auto simp: named_kids_def below_def)
  ultimately show ?case
  proof cases
    case 1
    then show ?thesis using \<open>snd c = _\<close> less(4,5) identity_skip [of "fst l" ns "snd l"] by simp
  next
    case 2
    then show ?thesis
      using less(1) [OF size_named_kid [OF c] 2(2) less(3)] \<open>snd c = _\<close> less(4,5) identity_skip [of "fst l" ns "snd l"]
      by (simp add: from_kind_def)
  qed
qed

lemma nested_member_path:
  assumes "at_path package path td" "m \<in> set (own_members td)" "sm_kind m = NestedTypeMember k" "from_node doc package (sm_node m) = Some td'"
  shows "at_path package (path @ [sm_name m]) td'"
proof -
  from assms(2,3) obtain body where body: "body_of td = Some body" "m \<in> set (collect_body_members (td_doc td) body)"
    by (cases "body_of td") (auto simp: own_members_def record_members_def named_member_def split: option.splits if_splits)
  have b: "body \<in> set (named_kids (td_node td))" "kind (fst body) = body_kind (td_kind td)"
    using body(1) by (auto simp: body_of_def find_Some_iff)
  then have snd_body: "snd body = fst (td_node td) # snd (td_node td)" by (auto simp: named_kids_def below_def)
  have kinds: "from_kind (kind (fst body)) = None"
    "kind (fst body) \<notin> {''program'', ''block'', ''method_declaration'', ''constructor_declaration'', ''lambda_expression'', ''object_creation_expression''}"
    using b(2) by (cases "td_kind td"; simp add: from_kind_def)+
  note at = nested_nodes [OF body(2) assms(3) kinds]
  obtain n where n: "child_by_field ''name'' (fst (sm_node m)) = Some n" "node_text n = sm_name m" using at by blast
  have name: "td_name td' = sm_name m" using assms(4) n by (auto simp: from_node_def split: option.splits prod.splits)
  obtain n' where n': "child_by_field ''name'' (fst (td_node td)) = Some n'" "node_text n' = td_name td"
    and fk: "from_kind (kind (fst (td_node td))) = Some (td_kind td)" and il: "identity_loop [td_name td] (snd (td_node td)) = Some (rev path)"
    using assms(1) by (auto simp: at_path_def)
  have "kind (fst (td_node td)) \<notin> {''program'', ''block'', ''method_declaration'', ''constructor_declaration'', ''lambda_expression'', ''object_creation_expression''}"
    using fk by (auto simp: from_kind_def)
  then have "identity_loop [x] (fst (td_node td) # snd (td_node td)) = identity_loop [x, td_name td] (snd (td_node td))" for x
    using n' fk by simp
  also have "identity_loop [x, td_name td] (snd (td_node td)) = Some (x # rev path)" for x
    using il identity_loop_append [of "[x, td_name td]" "snd (td_node td)"] identity_loop_append [of "[td_name td]" "snd (td_node td)"]
    by (auto simp: option.map_comp comp_def)
  finally have "identity_loop [td_name td'] (snd (sm_node m)) = Some (rev (path @ [sm_name m]))"
    using at snd_body name by simp
  then show ?thesis using from_node_at_path [OF assms(4)] by simp
qed

lemma nested_path_at: "nested_path package td segs = Some td' \<Longrightarrow> at_path package path td \<Longrightarrow> at_path package (path @ segs) td'"
proof (induction segs arbitrary: td path)
  case (Cons seg segs)
  let ?P = "\<lambda>m. sm_name m = seg \<and> (case sm_kind m of NestedTypeMember _ \<Rightarrow> True | _ \<Rightarrow> False)"
  from Cons.prems(1) obtain m td1 where found: "find ?P (own_members td) = Some m"
    and td1: "from_node 0 package (sm_node m) = Some td1" and rest: "nested_path package td1 segs = Some td'"
    by (auto split: option.splits)
  have "?P m" using found by (auto simp: find_Some_iff)
  then obtain k where m: "m \<in> set (own_members td)" "sm_name m = seg" "sm_kind m = NestedTypeMember k"
    using found_in [OF found] by (auto split: source_member_kind.splits)
  show ?case
    using Cons.IH [OF rest nested_member_path [OF Cons.prems(2) m(1,3) td1]] m(2) by simp
qed simp

lemma find_type_at_path:
  assumes "kind root = ''program''" "find_type_by_path root path package = Some td"
  shows "at_path package (split_char (CHR ''.'') path) td"
proof -
  have ne: "split_char (CHR ''.'') path \<noteq> []" by simp
  from assms(2) obtain l td0 where l: "l \<in> set (named_kids (root, []))" "from_node 0 package l = Some td0"
    "td_name td0 = hd (split_char (CHR ''.'') path)" and rest: "nested_path package td0 (tl (split_char (CHR ''.'') path)) = Some td"
    by (auto simp: find_type_by_path_def Let_def split: option.splits if_splits dest!: find_map_Some)
  have "snd l = [root]" using l(1) by (auto simp: named_kids_def below_def)
  then have "at_path package [hd (split_char (CHR ''.'') path)] td0" using from_node_at_path [OF l(2)] l(3) assms(1) by simp
  from nested_path_at [OF rest this] show ?thesis using ne by (metis append_Cons append_Nil list.collapse)
qed

text \<open>
  C7. A class taken from a closed file is the class asked for: whatever the path of names, the class the file gives has as its
  identity the package of the file and the path with \<open>$\<close> between nested names, and is well formed.
\<close>

theorem closed_file_identity:
  assumes "kind root = ''program''" "class_from_doc upper pick root path = Some c" "ec_metadata c = Some cm"
  shows "cm_id cm = NamedId (qualified_binary (im_package (parse_imports root)) (split_char (CHR ''.'') path))
    \<and> external_class_ok (qualified_binary (im_package (parse_imports root)) (split_char (CHR ''.'') path)) c"
proof -
  let ?im = "parse_imports root"
  have "ec_metadata c = None" if "find_type_by_path root path (im_package ?im) = None"
    using assms(2) that by (auto simp: class_from_doc_def Let_def builder_class_def split: option.splits prod.splits if_splits)
  then obtain td where td: "find_type_by_path root path (im_package ?im) = Some td" using assms(3) by fastforce
  then have c: "c = to_external_class upper pick ?im td" using assms(2) by (simp add: class_from_doc_def Let_def)
  have "decl_binary td = qualified_binary (im_package ?im) (split_char (CHR ''.'') path)"
    using find_type_at_path [OF assms(1) td] by (simp add: at_path_def decl_binary_def)
  then show ?thesis using to_external_class_ok [of td upper pick ?im] assms(3) c by (auto simp: external_class_ok_def)
qed

section \<open>A generic class\<close>

definition sample_type_params :: "string \<Rightarrow> node" where
  "sample_type_params v = sample_node ''type_parameters'' (Some ''type_parameters'') []
     [sample_node ''type_parameter'' None [] [sample_node ''type_identifier'' None v []]]"

definition generic_class_node :: node where
  "generic_class_node = sample_node ''class_declaration'' None []
     [sample_node ''identifier'' (Some ''name'') ''A'' [], sample_type_params ''T'',
      sample_node ''class_body'' None [] [sample_node ''method_declaration'' None [] [sample_type_params ''U'', sample_node ''identifier'' (Some ''name'') ''f'' []]]]"

definition generic_program :: node where
  "generic_program = sample_node ''program'' None [] [generic_class_node]"

definition generic_decl :: type_decl where
  "generic_decl = \<lparr>td_name = ''A'', td_kind = ClassType, td_super_nodes = [], td_node = (generic_class_node, [generic_program]), td_doc = 0,
     td_binary_name = Some ''A'', td_type_id = NamedId ''A''\<rparr>"

lemma sample_type_params_simps [simp]:
  "kind (sample_type_params v) = ''type_parameters''" "nd_named (data_of (sample_type_params v))"
  "nd_field (data_of (sample_type_params v)) = Some ''type_parameters''"
  "children (sample_type_params v) = [sample_node ''type_parameter'' None [] [sample_node ''type_identifier'' None v []]]"
  by (simp_all add: sample_type_params_def)

lemma generic_class_simps [simp]:
  "kind generic_class_node = ''class_declaration''" "nd_named (data_of generic_class_node)" "kind generic_program = ''program''"
  "child_by_field ''name'' generic_class_node = Some (sample_node ''identifier'' (Some ''name'') ''A'' [])"
  "child_by_field ''type_parameters'' generic_class_node = Some (sample_type_params ''T'')"
  by (simp_all add: generic_class_node_def generic_program_def)

lemma generic_from_node: "from_node 0 None (generic_class_node, [generic_program]) = Some generic_decl"
proof -
  have "super_type_nodes (generic_class_node, [generic_program]) = []"
    by (simp add: super_type_nodes_def named_kids_def) (simp add: generic_class_node_def)
  then show ?thesis by (simp add: from_node_def from_kind_def binary_identity_def generic_decl_def Let_def)
qed

lemma generic_scanned: "scanned [generic_program] 0 = [generic_decl]"
proof -
  have "parse_imports generic_program = \<lparr>im_package = None, im_single = Map.empty, im_wildcards = []\<rparr>"
    by (simp add: parse_imports_def generic_program_def import_line_def)
  moreover have "kids (generic_program, []) = [(generic_class_node, [generic_program])]"
    by (simp add: kids_def below_def generic_program_def)
  moreover have "List.map_filter (from_node 0 None) (preorder (rev (kids (generic_class_node, anc)))) = []" for anc
    by (simp add: generic_class_node_def kids_def below_def map_filter_simps other_from_node from_kind_def)
  ultimately show ?thesis
    by (simp add: scanned_def scan_order_def doc_decls_def doc_context_of_def map_filter_simps other_from_node from_kind_def generic_from_node)
qed

lemma generic_by_node: "table_by_node (build_table [generic_program] 0) 0 (nd_id (data_of (fst (td_node generic_decl)))) = Some generic_decl"
  by (simp add: table_by_node_def table_fields generic_scanned positions_def nonempty_def decl_key_def) (simp add: generic_decl_def)

lemma generic_vars: "map tp_id (cm_type_parameters (source_metadata pick im generic_decl)) = [TypeVariableId ''A'' 0]"
  "ec_type_params (to_external_class upper pick im generic_decl) = [''T'']"
  by (simp_all add: metadata_fields class_vars_def lower_type_parameters_vars to_external_class_def)
    (simp_all add: generic_decl_def declared_vars_def sample_type_params_def decl_binary_def text_or_def)

theorem type_variables_agree_witness:
  "level_vars (build_table [generic_program] 0) 0 (\<lambda>_ _. None) (td_node generic_decl) = [(''T'', TypeVariableId ''A'' 0)]"
  using type_variables_agree [OF generic_by_node, of "''A''" "\<lambda>_ _. None" "\<lambda>s. s" "\<lambda>_. None" "parse_imports generic_program", THEN conjunct1]
  by (simp add: generic_vars) (simp add: generic_decl_def)

theorem project_facts_exact_witness:
  "\<exists>f. compute_class_facts (source_ctx (\<lambda>s. s) (build_table [generic_program] 0) NoSymbols) (NamedId ''A'') = Some f
     \<and> cm_id (facts_meta f) = NamedId ''A''"
proof -
  have "all_decls [generic_program] = [generic_decl]"
    using generic_scanned by (simp add: scanned_def all_decls_def scan_order_def)
  moreover have "td_binary_name generic_decl = Some ''A''" by (simp add: generic_decl_def)
  ultimately show ?thesis
    using project_facts_exact [of 0 "[generic_program]" "\<lambda>s. s" NoSymbols "''A''"] by (auto simp: external_class_ok_def facts_of_def)
qed

lemma generic_found: "find_type_by_path generic_program ''A'' None = Some generic_decl"
  by (simp add: find_type_by_path_def Let_def named_kids_def generic_program_def below_def)
    (simp add: generic_from_node [unfolded generic_program_def] generic_decl_def)

theorem closed_file_identity_witness:
  "\<exists>c cm. class_from_doc (\<lambda>s. s) (\<lambda>_. None) generic_program ''A'' = Some c \<and> ec_metadata c = Some cm \<and> cm_id cm = NamedId ''A''"
proof -
  have im: "im_package (parse_imports generic_program) = None"
    by (simp add: parse_imports_def generic_program_def import_line_def)
  let ?c = "to_external_class (\<lambda>s. s) (\<lambda>_. None) (parse_imports generic_program) generic_decl"
  have c: "class_from_doc (\<lambda>s. s) (\<lambda>_. None) generic_program ''A'' = Some ?c"
    by (simp add: class_from_doc_def Let_def im generic_found)
  obtain cm where cm: "ec_metadata ?c = Some cm" by (simp add: to_external_class_def)
  have "cm_id cm = NamedId ''A''"
    using closed_file_identity [OF generic_class_simps(3) c cm] im by (simp add: qualified_binary_def)
  then show ?thesis using c cm by blast
qed

section \<open>Two remarks\<close>

text \<open>The result of an array-typed member resolves to the element's class.\<close>

lemma array_result_named:
  "kind ty = ''array_type'' \<Longrightarrow> child_by_field ''element'' ty = Some e \<Longrightarrow> resolve_ret_fqn pick im ty = resolve_ret_fqn pick im e"
  by (simp add: resolve_ret_fqn_def base_type_name.simps [of ty])

text \<open>A class declared in another type counts as an inner class unless it says \<open>static\<close>, also in an interface.\<close>

lemma nested_class_inner:
  "td_kind td = ClassType \<Longrightarrow> \<not> has_modifier ''static'' (fst (td_node td)) \<Longrightarrow> rsplit_once (CHR ''$'') (decl_binary td) \<noteq> None
   \<Longrightarrow> \<not> cm_is_static (source_metadata pick im td)"
  by (simp add: source_metadata_def Let_def)

end
