(* ===== verification/Classpath_Rebuild.thy ===== *)
theory Classpath_Rebuild
  imports Rust_Paths
begin

text \<open>
  How changes of build files lead to rebuilds of the class path: the coalescer and its driver task
  (\<open>crates/server/src/backend.rs\<close>), the watched-files notification and its filter (\<open>main.rs\<close>), and the rebuild
  command, as steps of one machine whose interleavings are arbitrary. A class path is represented by the number of
  changes that had happened when its build read the build files.
\<close>

section \<open>The coalescer (backend.rs)\<close>

record coalescer =
  co_driving :: bool
  co_dirty :: bool
  co_in_flight :: bool

definition coalescer_new :: coalescer where
  "coalescer_new = \<lparr>co_driving = False, co_dirty = False, co_in_flight = False\<rparr>"

definition on_event :: "coalescer \<Rightarrow> bool \<times> coalescer" where
  "on_event c = (if co_driving c then (False, c\<lparr>co_dirty := True\<rparr>) else (True, c\<lparr>co_driving := True\<rparr>))"

definition on_debounce_elapsed :: "coalescer \<Rightarrow> bool \<times> coalescer" where
  "on_debounce_elapsed c = (if co_dirty c then (False, c\<lparr>co_dirty := False\<rparr>) else (True, c\<lparr>co_in_flight := True\<rparr>))"

definition on_rebuild_finished :: "coalescer \<Rightarrow> bool \<times> coalescer" where
  "on_rebuild_finished c =
     (if co_dirty c then (True, c\<lparr>co_in_flight := False, co_dirty := False\<rparr>)
      else (False, c\<lparr>co_in_flight := False, co_driving := False\<rparr>))"

section \<open>Notifications, drivers and the rebuild command\<close>

definition is_classpath_build_file :: "string option \<Rightarrow> bool" where
  "is_classpath_build_file path =
     (case Option.bind path file_name of
        None \<Rightarrow> False
      | Some name \<Rightarrow>
          name \<in> {''pom.xml'', ''build.gradle'', ''build.gradle.kts''}
          \<or> name = ''libs.versions.toml'' \<and> Option.bind (Option.bind path parent) file_name = Some ''gradle'')"

text \<open>
  A driver waits out the debounce window or rebuilds; every rebuild, a driver's or the command's, remembers how
  many build-file changes had been announced when it started. \<open>rb_classpath\<close> is that number for the class path in use,
  \<open>rb_driven\<close> for the last one a driver finished; \<open>rb_issued\<close> counts the commands. The last two only record history.
  The flags of the client's notifications, the file paths of their URIs, are what \<open>did_change_watched_files\<close> looks at.
\<close>

datatype driver = Sleeping | Rebuilding nat

record rebuilds =
  rb_coalescer :: coalescer
  rb_drivers :: "driver list"
  rb_commands :: "nat list"
  rb_changes :: nat
  rb_classpath :: "nat option"
  rb_driven :: nat
  rb_issued :: nat

definition rebuilds_new :: rebuilds where
  "rebuilds_new = \<lparr>rb_coalescer = coalescer_new, rb_drivers = [], rb_commands = [], rb_changes = 0, rb_classpath = None,
     rb_driven = 0, rb_issued = 0\<rparr>"

definition did_change_watched_files :: "string option list \<Rightarrow> rebuilds \<Rightarrow> rebuilds" where
  "did_change_watched_files build s =
     (if \<not> list_ex is_classpath_build_file build then s
      else case on_event (rb_coalescer s) of (become_driver, c) \<Rightarrow>
        s\<lparr>rb_coalescer := c, rb_changes := rb_changes s + 1,
          rb_drivers := (if become_driver then rb_drivers s @ [Sleeping] else rb_drivers s)\<rparr>)"

text \<open>One step of driver \<open>i\<close> in \<open>drive_classpath_rebuild\<close>: the window elapses, or its rebuild finishes and is swapped in.\<close>

definition drive_step :: "nat \<Rightarrow> rebuilds \<Rightarrow> rebuilds" where
  "drive_step i s =
     (case rb_drivers s ! i of
        Sleeping \<Rightarrow>
          (case on_debounce_elapsed (rb_coalescer s) of (proceed, c) \<Rightarrow>
             s\<lparr>rb_coalescer := c, rb_drivers := (rb_drivers s)[i := if proceed then Rebuilding (rb_changes s) else Sleeping]\<rparr>)
      | Rebuilding seen \<Rightarrow>
          (case on_rebuild_finished (rb_coalescer s) of (again, c) \<Rightarrow>
             s\<lparr>rb_coalescer := c, rb_classpath := Some seen, rb_driven := seen,
               rb_drivers := (if again then (rb_drivers s)[i := Sleeping] else take i (rb_drivers s) @ drop (Suc i) (rb_drivers s))\<rparr>))"

definition command_start :: "rebuilds \<Rightarrow> rebuilds" where
  "command_start s = s\<lparr>rb_commands := rb_commands s @ [rb_changes s], rb_issued := rb_issued s + 1\<rparr>"

definition command_finish :: "nat \<Rightarrow> rebuilds \<Rightarrow> rebuilds" where
  "command_finish i s =
     s\<lparr>rb_classpath := Some (rb_commands s ! i), rb_commands := take i (rb_commands s) @ drop (Suc i) (rb_commands s)\<rparr>"

inductive rebuild_step :: "rebuilds \<Rightarrow> rebuilds \<Rightarrow> bool" where
  change: "rebuild_step s (did_change_watched_files build s)"
| drive: "i < length (rb_drivers s) \<Longrightarrow> rebuild_step s (drive_step i s)"
| commanded: "rebuild_step s (command_start s)"
| command_done: "i < length (rb_commands s) \<Longrightarrow> rebuild_step s (command_finish i s)"

inductive rebuild_reachable :: "rebuilds \<Rightarrow> bool" where
  init: "rebuild_reachable rebuilds_new"
| step: "rebuild_reachable s \<Longrightarrow> rebuild_step s s' \<Longrightarrow> rebuild_reachable s'"

section \<open>No change is lost\<close>

text \<open>
  There is a driver exactly when the coalescer says so, never two, and its state mirrors the flags. A change not
  seen by the rebuild in progress has set \<open>dirty\<close>; without a driver the last driver's rebuild saw every change.
\<close>

definition rebuild_inv :: "rebuilds \<Rightarrow> bool" where
  "rebuild_inv s \<longleftrightarrow>
     (case rb_drivers s of
        [] \<Rightarrow> rb_coalescer s = coalescer_new \<and> rb_driven s = rb_changes s
      | [Sleeping] \<Rightarrow> co_driving (rb_coalescer s) \<and> \<not> co_in_flight (rb_coalescer s)
      | [Rebuilding seen] \<Rightarrow> co_driving (rb_coalescer s) \<and> co_in_flight (rb_coalescer s)
          \<and> (\<not> co_dirty (rb_coalescer s) \<longrightarrow> seen = rb_changes s)
      | _ \<Rightarrow> False)
     \<and> (rb_issued s = 0 \<longrightarrow> rb_commands s = [] \<and> (rb_classpath s = None \<and> rb_driven s = 0 \<or> rb_classpath s = Some (rb_driven s)))"

lemmas coalescer_defs = on_event_def on_debounce_elapsed_def on_rebuild_finished_def coalescer_new_def

lemma rebuild_inv_change: "rebuild_inv s \<Longrightarrow> rebuild_inv (did_change_watched_files build s)"
  by (auto simp: rebuild_inv_def did_change_watched_files_def coalescer_defs split: list.splits driver.splits)

lemma rebuild_inv_drive: "rebuild_inv s \<Longrightarrow> i < length (rb_drivers s) \<Longrightarrow> rebuild_inv (drive_step i s)"
  by (auto simp: rebuild_inv_def drive_step_def coalescer_defs split: list.splits driver.splits)

lemma rebuild_inv_command: "rebuild_inv s \<Longrightarrow> rebuild_inv (command_start s)"
  "rebuild_inv s \<Longrightarrow> i < length (rb_commands s) \<Longrightarrow> rebuild_inv (command_finish i s)"
  by (auto simp: rebuild_inv_def command_start_def command_finish_def split: list.splits driver.splits)

lemma reachable_inv: "rebuild_reachable s \<Longrightarrow> rebuild_inv s"
proof (induction rule: rebuild_reachable.induct)
  case init
  show ?case by (simp add: rebuild_inv_def rebuilds_new_def)
next
  case (step s s')
  from step(2,3) show ?case
    by (cases rule: rebuild_step.cases) (simp_all add: rebuild_inv_change rebuild_inv_drive rebuild_inv_command)
qed

lemma idle_fresh: "rebuild_inv s \<Longrightarrow> rb_drivers s = [] \<Longrightarrow> rb_driven s = rb_changes s"
  by (simp add: rebuild_inv_def)

lemma drive_sleeping:
  assumes "rebuild_inv s" "rb_drivers s = [Sleeping]"
  shows "\<exists>k \<le> 3. rb_drivers ((drive_step 0 ^^ k) s) = [] \<and> rb_driven ((drive_step 0 ^^ k) s) = rb_changes s"
proof (cases "co_dirty (rb_coalescer s)")
  case True
  then show ?thesis using assms by (intro exI [of _ 3]) (simp add: numeral_3_eq_3 rebuild_inv_def drive_step_def coalescer_defs)
next
  case False
  then show ?thesis using assms by (intro exI [of _ 2]) (simp add: numeral_2_eq_2 rebuild_inv_def drive_step_def coalescer_defs)
qed

lemma drive_rebuilding:
  assumes "rebuild_inv s" "rb_drivers s = [Rebuilding seen]"
  shows "\<exists>k \<le> 3. rb_drivers ((drive_step 0 ^^ k) s) = [] \<and> rb_driven ((drive_step 0 ^^ k) s) = rb_changes s"
proof (cases "co_dirty (rb_coalescer s)")
  case True
  then show ?thesis using assms by (intro exI [of _ 3]) (simp add: numeral_3_eq_3 rebuild_inv_def drive_step_def coalescer_defs)
next
  case False
  then show ?thesis using assms by (intro exI [of _ 1]) (simp add: rebuild_inv_def drive_step_def coalescer_defs)
qed

text \<open>
  C15. Changes of build files reach the class path. At every moment at most one driver exists; when none does, the last
  driven rebuild started after the last change, and it is the one in use unless the rebuild command was issued; and from any moment the
  driver's next three steps at most, if no change comes between, end with a rebuild that saw every change.
\<close>

theorem changes_reach_the_classpath:
  assumes "rebuild_reachable s"
  shows "length (rb_drivers s) \<le> 1
    \<and> (rb_drivers s = [] \<longrightarrow> rb_driven s = rb_changes s
         \<and> (rb_issued s = 0 \<and> rb_changes s > 0 \<longrightarrow> rb_classpath s = Some (rb_changes s)))
    \<and> (\<exists>k \<le> 3. rb_drivers ((drive_step 0 ^^ k) s) = [] \<and> rb_driven ((drive_step 0 ^^ k) s) = rb_changes s)"
proof -
  have inv: "rebuild_inv s" using reachable_inv [OF assms] .
  consider "rb_drivers s = []" | "rb_drivers s = [Sleeping]" | seen where "rb_drivers s = [Rebuilding seen]"
    using inv by (auto simp: rebuild_inv_def split: list.splits driver.splits)
  then show ?thesis
  proof cases
    case 1
    then show ?thesis using inv by (auto simp: rebuild_inv_def intro: exI [of _ 0])
  next
    case 2
    then show ?thesis using drive_sleeping [OF inv] by simp
  next
    case 3
    then show ?thesis using drive_rebuilding [OF inv] by simp
  qed
qed

definition pom_changed :: rebuilds where
  "pom_changed = did_change_watched_files [Some ''/p/pom.xml''] rebuilds_new"

lemma pom_is_build_file: "is_classpath_build_file (Some ''/p/pom.xml'')"
  by code_simp

theorem changes_reach_the_classpath_witness:
  "rebuild_reachable pom_changed \<and> rb_changes pom_changed = 1
   \<and> (\<exists>k \<le> 3. rb_drivers ((drive_step 0 ^^ k) pom_changed) = [] \<and> rb_driven ((drive_step 0 ^^ k) pom_changed) = 1)"
proof -
  have reach: "rebuild_reachable pom_changed"
    unfolding pom_changed_def by (rule rebuild_reachable.step [OF rebuild_reachable.init rebuild_step.change])
  have one: "rb_changes pom_changed = 1"
    by (simp add: pom_changed_def did_change_watched_files_def pom_is_build_file rebuilds_new_def split: prod.split)
  show ?thesis using reach one changes_reach_the_classpath [OF reach] by metis
qed

text \<open>A rebuild by command that began before a change and ends after the driver's rebuild puts the older class path back.\<close>

lemma command_restores_stale_classpath:
  "\<exists>s. rebuild_reachable s \<and> rb_drivers s = [] \<and> rb_commands s = [] \<and> rb_changes s = 1 \<and> rb_classpath s = Some 0"
proof -
  define s1 where "s1 = command_start rebuilds_new"
  define s2 where "s2 = did_change_watched_files [Some ''/p/pom.xml''] s1"
  define s3 where "s3 = drive_step 0 s2"
  define s4 where "s4 = drive_step 0 s3"
  define s5 where "s5 = command_finish 0 s4"
  note defs = s1_def s2_def s3_def s4_def command_start_def rebuilds_new_def did_change_watched_files_def pom_is_build_file
    drive_step_def coalescer_defs
  have s4: "rb_drivers s2 = [Sleeping]" "rb_drivers s3 = [Rebuilding 1]" "rb_drivers s4 = []" "rb_commands s4 = [0]" "rb_changes s4 = 1"
    by (simp_all add: defs)
  have "rebuild_reachable s1" unfolding s1_def by (rule rebuild_reachable.step [OF rebuild_reachable.init rebuild_step.commanded])
  then have "rebuild_reachable s2" unfolding s2_def by (rule rebuild_reachable.step [OF _ rebuild_step.change])
  then have "rebuild_reachable s3" unfolding s3_def by (rule rebuild_reachable.step [OF _ rebuild_step.drive]) (simp add: s4)
  then have "rebuild_reachable s4" unfolding s4_def by (rule rebuild_reachable.step [OF _ rebuild_step.drive]) (simp add: s4)
  then have "rebuild_reachable s5" unfolding s5_def by (rule rebuild_reachable.step [OF _ rebuild_step.command_done]) (simp add: s4)
  moreover have "rb_drivers s5 = []" "rb_commands s5 = []" "rb_changes s5 = 1" "rb_classpath s5 = Some 0"
    by (simp_all add: s5_def command_finish_def s4)
  ultimately show ?thesis by blast
qed

end
