(* ===== verification/Javac_Output.thy ===== *)
theory Javac_Output
  imports Jdk_Locator Text_Positions
begin

text \<open>
  The compiler's report: reading \<open>javac\<close>'s standard error and grouping the diagnostics by file
  (\<open>crates/server/src/javac.rs\<close>), and merging them with the native diagnostics of a file so that none is shown
  twice (\<open>crates/server/src/diagnostics.rs\<close>). Strings are sequences of UTF-8 bytes.
\<close>

section \<open>The output of the compiler (javac.rs)\<close>

datatype severity = Error | Warning | Information | Hint

record raw_diagnostic =
  rd_path :: string
  rd_line :: nat
  rd_severity :: severity
  rd_message :: string
  rd_column :: "nat option"
  rd_end_character :: "nat option"

text \<open>The numbers of characters and of UTF-16 units of a string: by the first bytes of its characters.\<close>

definition char_count :: "string \<Rightarrow> nat" where
  "char_count s = length (filter (\<lambda>c. \<not> (0x80 \<le> (of_char c :: nat) \<and> (of_char c :: nat) < 0xC0)) s)"

definition utf16_len :: "string \<Rightarrow> nat" where
  "utf16_len s = as_u32 (char_count s + length (filter (\<lambda>c. 0xF0 \<le> (of_char c :: nat)) s))"

definition parse_header :: "string \<Rightarrow> (string \<times> nat \<times> severity \<times> string) option" where
  "parse_header l =
     (case (case find_sub '': error: '' l of
              Some p \<Rightarrow> Some (p, length '': error: '', Error)
            | None \<Rightarrow> map_option (\<lambda>p. (p, length '': warning: '', Warning)) (find_sub '': warning: '' l)) of
        None \<Rightarrow> None
      | Some (marker_pos, marker_len, sev) \<Rightarrow>
          (case rsplit_once (CHR '':'') (take marker_pos l) of
             None \<Rightarrow> None
           | Some (path, number) \<Rightarrow>
               (case parse_uint (2 ^ 32 - 1) number of
                  None \<Rightarrow> None
                | Some line_no \<Rightarrow> if path = [] then None else Some (path, line_no, sev, drop (marker_pos + marker_len) l))))"

definition is_caret_line :: "string \<Rightarrow> bool" where
  "is_caret_line l \<longleftrightarrow> trim l \<noteq> [] \<and> list_all (\<lambda>c. c = CHR ''^'') (trim l)"

definition caret_column :: "string \<Rightarrow> nat" where
  "caret_column l = as_u32 (char_count (take (length l - length (trim_start l)) l))"

definition is_note_line :: "string \<Rightarrow> bool" where
  "is_note_line l = starts_with ''Note:'' (trim_start l)"

definition is_summary_line :: "string \<Rightarrow> bool" where
  "is_summary_line l =
     (let t = trim l in
      CHR '' '' \<in> set t \<and> parse_uint (2 ^ 64 - 1) (takeWhile (\<lambda>c. c \<noteq> CHR '' '') t) \<noteq> None
      \<and> tl (dropWhile (\<lambda>c. c \<noteq> CHR '' '') t) \<in> {''error'', ''errors'', ''warning'', ''warnings''})"

definition is_maxerrs_notice :: "string \<Rightarrow> bool" where
  "is_maxerrs_notice l = contains_sub ''Xmaxerrs'' l"

definition ends_message :: "string \<Rightarrow> bool" where
  "ends_message l \<longleftrightarrow>
     trim l = [] \<or> parse_header l \<noteq> None \<or> is_note_line l \<or> is_summary_line l \<or> is_maxerrs_notice l"

fun message_lines :: "string \<Rightarrow> string list \<Rightarrow> string \<times> string list" where
  "message_lines msg [] = (msg, [])"
| "message_lines msg (l # ls) =
     (if ends_message l then (msg, l # ls) else message_lines (msg @ [CHR 0x0A] @ trim_end l) ls)"

definition caret_lines :: "string list \<Rightarrow> nat option \<times> nat option \<times> string list" where
  "caret_lines ls =
     (case ls of
        [] \<Rightarrow> (None, None, [])
      | l # rest \<Rightarrow>
          if is_caret_line l then (Some (caret_column l), None, rest)
          else (case rest of
              [] \<Rightarrow> (None, None, ls)
            | c # rest' \<Rightarrow>
                if is_caret_line c \<and> parse_header l = None then (Some (caret_column c), Some (utf16_len l), rest') else (None, None, ls)))"

lemma message_lines_length: "message_lines msg ls = (msg', ls') \<Longrightarrow> length ls' \<le> length ls"
  by (induction msg ls rule: message_lines.induct) (auto split: if_splits)

lemma caret_lines_length: "caret_lines ls = (col, end_char, ls') \<Longrightarrow> length ls' \<le> length ls"
  by (auto simp: caret_lines_def split: list.splits if_splits)

function parse_lines :: "string list \<Rightarrow> raw_diagnostic list" where
  "parse_lines [] = []"
| "parse_lines (l # ls) =
     (case parse_header l of
        None \<Rightarrow> parse_lines ls
      | Some (path, line_no, sev, msg) \<Rightarrow>
          (case caret_lines ls of (col, end_char, ls1) \<Rightarrow>
           case message_lines msg ls1 of (message, ls2) \<Rightarrow>
             \<lparr>rd_path = path, rd_line = line_no, rd_severity = sev, rd_message = message, rd_column = col, rd_end_character = end_char\<rparr>
             # parse_lines ls2))"
  by pat_completeness auto
termination
  by (relation "measure length") (auto dest!: sym [THEN caret_lines_length] sym [THEN message_lines_length])

definition parse_stderr :: "string \<Rightarrow> raw_diagnostic list" where
  "parse_stderr stderr = parse_lines (str_lines stderr)"

definition count_severities :: "raw_diagnostic list \<Rightarrow> nat \<times> nat" where
  "count_severities raw =
     (length (filter (\<lambda>d. rd_severity d = Error) raw), length (filter (\<lambda>d. rd_severity d = Warning) raw))"

datatype diagnostic_code = CodeNumber int | CodeString string

record diagnostic =
  dg_start :: position
  dg_end :: position
  dg_severity :: "severity option"
  dg_code :: "diagnostic_code option"
  dg_source :: "string option"
  dg_message :: string

definition javac_diagnostic :: "raw_diagnostic \<Rightarrow> diagnostic" where
  "javac_diagnostic d =
     \<lparr>dg_start = \<lparr>line = rd_line d - 1, character = (case rd_column d of Some c \<Rightarrow> c | None \<Rightarrow> 0)\<rparr>,
      dg_end = \<lparr>line = rd_line d - 1, character = (case rd_end_character d of Some c \<Rightarrow> c | None \<Rightarrow> 2 ^ 32 - 1)\<rparr>,
      dg_severity = Some (rd_severity d), dg_code = None, dg_source = Some ''javac'', dg_message = rd_message d\<rparr>"

fun push_entry :: "string \<Rightarrow> 'a \<Rightarrow> (string \<times> 'a list) list \<Rightarrow> (string \<times> 'a list) list" where
  "push_entry k v [] = [(k, [v])]"
| "push_entry k v ((k', vs) # es) = (if k' = k then (k', vs @ [v]) # es else (k', vs) # push_entry k v es)"

definition group_diagnostics :: "raw_diagnostic list \<Rightarrow> (string \<times> diagnostic list) list" where
  "group_diagnostics raw = foldl (\<lambda>out d. push_entry (rd_path d) (javac_diagnostic d) out) [] raw"

datatype source_level = NoLevel | JdkDefault nat | Release nat bool

fun source_level_args :: "source_level \<Rightarrow> string list" where
  "source_level_args NoLevel = []"
| "source_level_args (JdkDefault n) = [''-source'', show_nat n, ''-target'', show_nat n, ''--enable-preview'']"
| "source_level_args (Release release preview) =
     [''--release'', show_nat release] @ (if preview then [''--enable-preview''] else [])"

definition clamp_timeout_secs :: "nat option \<Rightarrow> nat" where
  "clamp_timeout_secs raw = max 10 (min 600 (case raw of Some n \<Rightarrow> n | None \<Rightarrow> 120))"

section \<open>Merging with the native diagnostics (diagnostics.rs)\<close>

definition JAVAC_CONFIRMABLE_CODES :: "string list" where
  "JAVAC_CONFIRMABLE_CODES =
     [''jvl.incompatibleReturn'', ''jvl.incompatibleAssignment'', ''jvl.unreachable'', ''jvl.cannotFindSymbol'',
      ''jvl.invalidInvocation'', ''jvl.invalidInstantiation'']"

definition message_line :: "string \<Rightarrow> string" where
  "message_line s = (case str_lines s of l # _ \<Rightarrow> l | [] \<Rightarrow> [])"

definition native_family :: "string \<Rightarrow> string option" where
  "native_family native =
     (if starts_with ''no applicable method'' native \<or> starts_with ''ambiguous method call'' native then Some ''method''
      else if starts_with ''no applicable constructor'' native \<or> starts_with ''ambiguous constructor call'' native
        \<or> starts_with ''cannot instantiate'' native \<or> contains_sub ''is not accessible'' native
        \<or> contains_sub ''enclosing instance required'' native then Some ''constructor''
      else None)"

definition javac_family :: "string \<Rightarrow> string option" where
  "javac_family javac =
     (if starts_with ''no suitable method found'' javac
        \<or> (contains_sub ''reference to'' javac \<and> contains_sub ''is ambiguous'' javac)
        \<or> (starts_with ''method '' javac \<and> contains_sub ''cannot be applied'' javac) then Some ''method''
      else if starts_with ''no suitable constructor found'' javac \<or> contains_sub ''cannot be instantiated'' javac
        \<or> contains_sub ''has private access'' javac \<or> (starts_with ''constructor '' javac \<and> contains_sub ''cannot be applied'' javac)
        \<or> contains_sub ''an enclosing instance that contains'' javac then Some ''constructor''
      else None)"

definition equivalent_payload :: "string \<Rightarrow> string \<Rightarrow> bool" where
  "equivalent_payload native_message javac_message =
     (let native = message_line native_message; javac = message_line javac_message in
      if starts_with ''cannot find symbol'' native \<and> starts_with ''cannot find symbol'' javac then True
      else case (native_family native, javac_family javac) of
          (Some n, Some j) \<Rightarrow> n = j
        | _ \<Rightarrow>
            (case (strip_prefix ''incompatible types: '' native, strip_prefix ''incompatible types: '' javac) of
               (Some n, Some j) \<Rightarrow> n = j
             | _ \<Rightarrow> native = javac))"

definition javac_confirms_native :: "diagnostic \<Rightarrow> diagnostic \<Rightarrow> bool" where
  "javac_confirms_native native javac \<longleftrightarrow>
     (case dg_code native of Some (CodeString code) \<Rightarrow> code \<in> set JAVAC_CONFIRMABLE_CODES | _ \<Rightarrow> False)
     \<and> dg_severity native = Some Error \<and> dg_severity javac = Some Error
     \<and> line (dg_start native) = line (dg_start javac)
     \<and> character (dg_start native) < character (dg_end javac) \<and> character (dg_start javac) < character (dg_end native)
     \<and> equivalent_payload (dg_message native) (dg_message javac)"

definition merge_javac_diagnostics :: "diagnostic list \<Rightarrow> diagnostic list \<Rightarrow> diagnostic list" where
  "merge_javac_diagnostics diagnostics javac =
     diagnostics @ filter (\<lambda>j. \<not> list_ex (\<lambda>native. javac_confirms_native native j) diagnostics) javac"

section \<open>Every report is found once\<close>

lemma trim_start_chars: "set s \<subseteq> set (trim_start s) \<union> set (concat white_space)"
proof (induction s rule: trim_start.induct)
  case (1 s)
  show ?case
  proof (cases "find (\<lambda>w. starts_with w s) white_space")
    case None
    then show ?thesis by (simp add: trim_start.simps [of s])
  next
    case (Some w)
    then have w: "w \<in> set white_space" "starts_with w s" by (auto simp: find_Some_iff)
    then obtain r where s: "s = w @ r" using starts_withE by blast
    have "w \<noteq> []" using white_space_nonempty w(1) by blast
    then have "s \<noteq> []" using s by simp
    have "set (drop (length w) s) \<subseteq> set (trim_start (drop (length w) s)) \<union> set (concat white_space)" using 1 [OF Some \<open>s \<noteq> []\<close>] .
    moreover have "set w \<subseteq> set (concat white_space)" using w(1) by auto
    ultimately show ?thesis using Some \<open>s \<noteq> []\<close> s by (subst trim_start.simps) auto
  qed
qed

lemma trim_end_chars: "set s \<subseteq> set (trim_end s) \<union> set (concat white_space)"
proof (induction s rule: trim_end.induct)
  case (1 s)
  show ?case
  proof (cases "find (\<lambda>w. ends_with w s) white_space")
    case None
    then show ?thesis by (simp add: trim_end.simps [of s])
  next
    case (Some w)
    then have w: "w \<in> set white_space" "ends_with w s" by (auto simp: find_Some_iff)
    then obtain r where s: "s = r @ w" by (auto simp: ends_with_def) (metis append_take_drop_id)
    have "w \<noteq> []" using white_space_nonempty w(1) by blast
    then have "s \<noteq> []" using s by simp
    have "set (take (length s - length w) s) \<subseteq> set (trim_end (take (length s - length w) s)) \<union> set (concat white_space)"
      using 1 [OF Some \<open>s \<noteq> []\<close>] .
    moreover have "set w \<subseteq> set (concat white_space)" using w(1) by auto
    ultimately show ?thesis using Some \<open>s \<noteq> []\<close> s by (subst trim_end.simps) auto
  qed
qed

lemma colon_not_space: "CHR '':'' \<notin> set (concat white_space)"
  by (simp add: white_space_def)

lemma in_left: "S \<subseteq> A \<union> B \<Longrightarrow> x \<in> S \<Longrightarrow> x \<notin> B \<Longrightarrow> x \<in> A"
  by blast

lemma caret_line_no_colon: "is_caret_line l \<Longrightarrow> CHR '':'' \<notin> set l"
proof
  assume caret: "is_caret_line l" and "CHR '':'' \<in> set l"
  from in_left [OF trim_end_chars in_left [OF trim_start_chars this(2) colon_not_space] colon_not_space]
  have "CHR '':'' \<in> set (trim l)" unfolding trim_def .
  moreover have "\<forall>c \<in> set (trim l). c = CHR ''^''" using caret unfolding is_caret_line_def list_all_iff by (rule conjunct2)
  ultimately have "CHR '':'' = CHR ''^''" by (rule bspec [rotated])
  then show False by simp
qed

lemma find_sub_colon: "find_sub (CHR '':'' # p) l = Some i \<Longrightarrow> CHR '':'' \<in> set l"
  by (induction "CHR '':'' # p" l arbitrary: i rule: find_sub.induct) (auto simp: starts_with_def split: if_splits)

lemma caret_line_no_header: "is_caret_line l \<Longrightarrow> parse_header l = None"
  using caret_line_no_colon [of l] find_sub_colon [of _ l] by (auto simp: parse_header_def split: option.splits)

definition header_fields :: "string list \<Rightarrow> (string \<times> nat \<times> severity) list" where
  "header_fields ls = map (\<lambda>(path, n, sev, _). (path, n, sev)) (List.map_filter parse_header ls)"

lemma header_fields_Cons: "header_fields (l # ls) = (case parse_header l of Some (path, n, sev, _) \<Rightarrow> (path, n, sev) # header_fields ls | None \<Rightarrow> header_fields ls)"
  by (simp add: header_fields_def map_filter_simps split: option.split)

lemma header_fields_Nil [simp]: "header_fields [] = []"
  by (simp add: header_fields_def map_filter_simps)

lemma message_lines_headers: "message_lines msg ls = (msg', ls') \<Longrightarrow> header_fields ls' = header_fields ls \<and> starts_with msg msg'"
proof (induction msg ls rule: message_lines.induct)
  case (2 msg l ls)
  show ?case
  proof (cases "ends_message l")
    case False
    then have "message_lines (msg @ [CHR 0x0A] @ trim_end l) ls = (msg', ls')" using 2(2) by simp
    from 2(1) [OF False this] False show ?thesis
      by (auto simp: header_fields_Cons ends_message_def starts_with_append dest: starts_withE split: option.split)
  qed (use 2(2) in \<open>simp add: starts_with_def\<close>)
qed (simp add: starts_with_def)

lemma caret_lines_headers: "caret_lines ls = (col, end_char, ls') \<Longrightarrow> header_fields ls' = header_fields ls"
  by (auto simp: caret_lines_def header_fields_Cons caret_line_no_header split: list.splits if_splits)

lemma parse_lines_headers: "map (\<lambda>d. (rd_path d, rd_line d, rd_severity d)) (parse_lines ls) = header_fields ls"
proof (induction ls rule: parse_lines.induct)
  case (2 l ls)
  show ?case
  proof (cases "parse_header l")
    case None
    then show ?thesis using 2(1) by (simp add: header_fields_Cons)
  next
    case (Some h)
    obtain path n sev msg where h: "h = (path, n, sev, msg)" by (cases h)
    obtain col end_char ls1 where c: "caret_lines ls = (col, end_char, ls1)" by (cases "caret_lines ls")
    obtain message ls2 where m: "message_lines msg ls1 = (message, ls2)" by fastforce
    have "map (\<lambda>d. (rd_path d, rd_line d, rd_severity d)) (parse_lines ls2) = header_fields ls2"
      using 2(2) Some h c m by simp
    then show ?thesis
      using Some h c m caret_lines_headers [OF c] message_lines_headers [OF m] by (simp add: header_fields_Cons)
  qed
qed simp

lemma push_entry_dom: "fst ` set (push_entry k v es) = insert k (fst ` set es)"
proof (induction es)
  case (Cons e es)
  then show ?case by (cases e) (simp add: insert_commute)
qed simp

lemma push_entry_keys: "map fst (push_entry k v es) = (if k \<in> fst ` set es then map fst es else map fst es @ [k])"
  by (induction es) (auto simp: image_iff Bex_def split: prod.splits)

lemma push_entry_lookup: "map_of (push_entry k v es) k' = (if k' = k then Some ((case map_of es k of Some vs \<Rightarrow> vs | None \<Rightarrow> []) @ [v]) else map_of es k')"
  by (induction es) auto

lemma group_lookup:
  "map_of (group_diagnostics raw) path
     = (if path \<in> rd_path ` set raw then Some (map javac_diagnostic (filter (\<lambda>d. rd_path d = path) raw)) else None)
   \<and> distinct (map fst (group_diagnostics raw)) \<and> fst ` set (group_diagnostics raw) = rd_path ` set raw"
proof (induction raw rule: rev_induct)
  case (snoc d raw)
  have filt: "filter (\<lambda>d. rd_path d = path) raw = []" if "path \<notin> rd_path ` set raw"
    using that by (auto simp: filter_empty_conv)
  have keys: "fst ` set (group_diagnostics raw) = rd_path ` set raw" using snoc by blast
  have "fst ` set (push_entry (rd_path d) (javac_diagnostic d) (group_diagnostics raw)) = rd_path ` set (raw @ [d])"
    using keys by (simp add: push_entry_dom)
  moreover have "distinct (map fst (push_entry (rd_path d) (javac_diagnostic d) (group_diagnostics raw)))"
    using snoc by (auto simp: push_entry_keys)
  moreover have "map_of (push_entry (rd_path d) (javac_diagnostic d) (group_diagnostics raw)) path
     = (if path \<in> rd_path ` set (raw @ [d]) then Some (map javac_diagnostic (filter (\<lambda>d. rd_path d = path) (raw @ [d]))) else None)"
    using snoc filt by (auto simp: push_entry_lookup)
  ultimately show ?case by (simp add: group_diagnostics_def)
qed (simp add: group_diagnostics_def)


text \<open>A warning whose text contains the marker of an error is not recognised, and so not reported.\<close>

lemma warning_with_error_text_lost: "parse_stderr ''A.java:3: warning: x: error: y'' = []"
  by (simp add: parse_stderr_def str_lines_def parse_header_def starts_with_def parse_uint_def is_digit_def)

end
