(* ===== verification/Server_Documents.thy ===== *)
theory Server_Documents
  imports Javac_Output
begin

text \<open>
  The open documents of the language server and the diagnostics it sends: the document notifications (\<open>main.rs\<close>,
  \<open>backend.rs\<close>), refreshes and the life of a compiler check (\<open>crates/server/src/diagnostics.rs\<close>). The native diagnostics are
  a function of the open documents: class path and files on disk are taken as they are.
\<close>

section \<open>The state of the server\<close>

type_synonym uri = string

record server_document =
  od_text :: document
  od_version :: int

text \<open>A run of the compiler: the versions and the provider generation at its start, and its modules (none: the whole project).\<close>

record check_run =
  ru_versions :: "uri \<rightharpoonup> int"
  ru_generation :: nat
  ru_modules :: "string list option"

text \<open>A loop that sends diagnostics to the client; with a generation it stops when that is no longer current.\<close>

record publication =
  pb_generation :: "nat option"
  pb_items :: "(uri \<times> diagnostic list \<times> int option) list"

datatype refresh_request = RefreshAll bool | RefreshOne uri int

text \<open>
  The two generations are 64-bit counters; the model counts their increments and compares them as the code does.
  \<open>sv_origin\<close> and \<open>sv_kept\<close> record history only: of which version of the document a stored result is (none: the file
  was not open), and which stored results are older than the opening of their document.
\<close>

record server =
  sv_docs :: "uri \<rightharpoonup> server_document"
  sv_javac :: "uri \<rightharpoonup> diagnostic list"
  sv_semantic :: nat
  sv_provider :: nat
  sv_requests :: "refresh_request list"
  sv_publications :: "publication list"
  sv_runs :: "check_run list"
  sv_results :: "(check_run \<times> (string \<times> diagnostic list) list) list"
  sv_client :: "uri \<rightharpoonup> diagnostic list \<times> int option"
  sv_origin :: "uri \<rightharpoonup> int option"
  sv_kept :: "uri set"

definition generation :: "nat \<Rightarrow> u64" where
  "generation n = of_nat n"

text \<open>
  What the handlers rely on: the native diagnostics of a document among the open ones, the declaration fingerprint of a text,
  URIs and paths (a third-party library), the position encoding and the file system.
\<close>

record server_env =
  se_native :: "(uri \<rightharpoonup> server_document) \<Rightarrow> uri \<Rightarrow> diagnostic list"
  se_fingerprint :: "document \<Rightarrow> u64"
  se_uri_of_path :: "string \<Rightarrow> uri option"
  se_path_of_uri :: "uri \<Rightarrow> string option"
  se_encoding :: encoding
  se_fs :: fs

definition server_new :: server where
  "server_new =
     \<lparr>sv_docs = Map.empty, sv_javac = Map.empty, sv_semantic = 0, sv_provider = 0, sv_requests = [], sv_publications = [],
      sv_runs = [], sv_results = [], sv_client = Map.empty, sv_origin = Map.empty, sv_kept = {}\<rparr>"

section \<open>Documents (main.rs, backend.rs)\<close>

definition open_document :: "uri \<Rightarrow> int \<Rightarrow> document \<Rightarrow> server \<Rightarrow> server" where
  "open_document u version text s =
     s\<lparr>sv_docs := (sv_docs s)(u \<mapsto> \<lparr>od_text = text, od_version = version\<rparr>), sv_semantic := sv_semantic s + 1,
       sv_requests := sv_requests s @ [RefreshAll False],
       sv_kept := (if sv_javac s u = None then sv_kept s else insert u (sv_kept s))\<rparr>"

fun content_changes :: "encoding \<Rightarrow> document \<Rightarrow> ((position \<times> position) option \<times> document) list \<Rightarrow> document option" where
  "content_changes enc text [] = Some text"
| "content_changes enc text ((Some (a, b), inserted) # cs) =
     (case apply_content_change text enc a b inserted of Some (text', _) \<Rightarrow> content_changes enc text' cs | None \<Rightarrow> None)"
| "content_changes enc text ((None, replaced) # cs) = content_changes enc replaced cs"

definition did_change :: "server_env \<Rightarrow> uri \<Rightarrow> int \<Rightarrow> ((position \<times> position) option \<times> document) list \<Rightarrow> server \<Rightarrow> server option" where
  "did_change env u version changes s =
     (case sv_docs s u of
        None \<Rightarrow> Some s
      | Some d \<Rightarrow>
          (case content_changes (se_encoding env) (od_text d) changes of
             None \<Rightarrow> None
           | Some text \<Rightarrow>
               (let full_refresh = (se_fingerprint env (od_text d) \<noteq> se_fingerprint env text) in
                Some (s\<lparr>sv_docs := (sv_docs s)(u \<mapsto> \<lparr>od_text = text, od_version = version\<rparr>), sv_semantic := sv_semantic s + 1,
                  sv_javac := (sv_javac s)(u := None), sv_provider := (if full_refresh then sv_provider s + 1 else sv_provider s),
                  sv_requests := sv_requests s @ [if full_refresh then RefreshAll True else RefreshOne u version],
                  sv_origin := (sv_origin s)(u := None), sv_kept := sv_kept s - {u}\<rparr>))))"

definition did_close :: "uri \<Rightarrow> server \<Rightarrow> server" where
  "did_close u s =
     s\<lparr>sv_docs := (sv_docs s)(u := None), sv_semantic := sv_semantic s + 1, sv_provider := sv_provider s + 1,
       sv_client := (sv_client s)(u \<mapsto> ([], None)), sv_requests := sv_requests s @ [RefreshAll True]\<rparr>"

definition did_save :: "server \<Rightarrow> server" where
  "did_save s = s\<lparr>sv_semantic := sv_semantic s + 1\<rparr>"

text \<open>The end of \<open>on_java_source_events\<close> when some event was accepted.\<close>

definition source_events_accepted :: "server \<Rightarrow> server" where
  "source_events_accepted s =
     s\<lparr>sv_semantic := sv_semantic s + 1, sv_provider := sv_provider s + 1, sv_requests := sv_requests s @ [RefreshAll True]\<rparr>"

definition republish_all_diagnostics :: "server \<Rightarrow> server" where
  "republish_all_diagnostics s = s\<lparr>sv_requests := sv_requests s @ [RefreshAll False]\<rparr>"

section \<open>Diagnostics (diagnostics.rs)\<close>

definition compute_diagnostics :: "server_env \<Rightarrow> (uri \<rightharpoonup> server_document) \<Rightarrow> (uri \<rightharpoonup> diagnostic list) \<Rightarrow> uri \<Rightarrow> diagnostic list" where
  "compute_diagnostics env docs javac u =
     (let diagnostics = (case docs u of Some _ \<Rightarrow> se_native env docs u | None \<Rightarrow> []) in
      case javac u of Some j \<Rightarrow> merge_javac_diagnostics diagnostics j | None \<Rightarrow> diagnostics)"

definition snapshot_item :: "server_env \<Rightarrow> (uri \<rightharpoonup> server_document) \<Rightarrow> (uri \<rightharpoonup> diagnostic list) \<Rightarrow> uri \<Rightarrow> uri \<times> diagnostic list \<times> int option" where
  "snapshot_item env docs javac u = (u, compute_diagnostics env docs javac u, map_option od_version (docs u))"

text \<open>The snapshot of a refresh, in the order \<open>uris\<close> in which the table of documents happens to be listed.\<close>

definition refresh_open_diagnostics :: "server_env \<Rightarrow> refresh_request \<Rightarrow> uri list \<Rightarrow> server \<Rightarrow> server" where
  "refresh_open_diagnostics env request uris s =
     (case request of
        RefreshAll stale \<Rightarrow>
          (let javac = (if stale then sv_javac s |` (- dom (sv_docs s)) else sv_javac s) in
           s\<lparr>sv_javac := javac,
             sv_publications := sv_publications s @ [\<lparr>pb_generation = Some (sv_semantic s), pb_items = map (snapshot_item env (sv_docs s) javac) uris\<rparr>],
             sv_origin := (if stale then sv_origin s |` (- dom (sv_docs s)) else sv_origin s),
             sv_kept := (if stale then sv_kept s - dom (sv_docs s) else sv_kept s)\<rparr>)
      | RefreshOne u version \<Rightarrow>
          s\<lparr>sv_publications := sv_publications s
              @ [\<lparr>pb_generation = None, pb_items = [(u, compute_diagnostics env (sv_docs s) (sv_javac s) u, Some version)]\<rparr>]\<rparr>)"

definition publish_next :: "nat \<Rightarrow> server \<Rightarrow> server" where
  "publish_next i s =
     (let p = sv_publications s ! i;
          others = take i (sv_publications s) @ drop (Suc i) (sv_publications s)
      in case pb_items p of
          [] \<Rightarrow> s\<lparr>sv_publications := others\<rparr>
        | (u, diagnostics, version) # items \<Rightarrow>
            if (case pb_generation p of Some g \<Rightarrow> generation g \<noteq> generation (sv_semantic s) | None \<Rightarrow> False)
            then s\<lparr>sv_publications := others\<rparr>
            else s\<lparr>sv_client := (sv_client s)(u \<mapsto> (diagnostics, version)),
                   sv_publications := (sv_publications s)[i := p\<lparr>pb_items := items\<rparr>]\<rparr>)"

definition path_under_any_module :: "fs \<Rightarrow> string list \<Rightarrow> string \<Rightarrow> bool" where
  "path_under_any_module fs module_roots path \<longleftrightarrow>
     list_ex (\<lambda>m. path_starts_with m path) module_roots
     \<or> (case fs_canonicalize fs path of Some canon \<Rightarrow> list_ex (\<lambda>m. path_starts_with m canon) module_roots | None \<Rightarrow> False)"

definition uri_is_under_module :: "server_env \<Rightarrow> string list \<Rightarrow> uri \<Rightarrow> bool" where
  "uri_is_under_module env module_roots u =
     (case se_path_of_uri env u of Some path \<Rightarrow> path_under_any_module (se_fs env) module_roots path | None \<Rightarrow> False)"

definition check_start :: "string list option \<Rightarrow> server \<Rightarrow> server" where
  "check_start modules s =
     s\<lparr>sv_runs := sv_runs s @ [\<lparr>ru_versions = map_option od_version \<circ> sv_docs s, ru_generation = sv_provider s, ru_modules = modules\<rparr>]\<rparr>"

text \<open>
  The compiler has completed: results of a run that a provider change overtook are dropped; when a run over modules reports on
  other files the whole project is checked instead; otherwise the results go on to publication.
\<close>

definition check_completed :: "server_env \<Rightarrow> nat \<Rightarrow> (string \<times> diagnostic list) list \<Rightarrow> server \<Rightarrow> server" where
  "check_completed env i grouped s =
     (let run = sv_runs s ! i;
          s1 = s\<lparr>sv_runs := take i (sv_runs s) @ drop (Suc i) (sv_runs s)\<rparr>
      in if generation (sv_provider s) \<noteq> generation (ru_generation run) then s1
         else case ru_modules run of
             Some modules \<Rightarrow>
               if list_ex (\<lambda>(path, _). \<not> path_under_any_module (se_fs env) modules path) grouped then check_start None s1
               else s1\<lparr>sv_results := sv_results s @ [(run, grouped)]\<rparr>
           | None \<Rightarrow> s1\<lparr>sv_results := sv_results s @ [(run, grouped)]\<rparr>)"

definition by_uri :: "server_env \<Rightarrow> (string \<times> diagnostic list) list \<Rightarrow> uri \<rightharpoonup> diagnostic list" where
  "by_uri env grouped =
     foldl (\<lambda>m (path, diags). case se_uri_of_path env path of Some u \<Rightarrow> m(u \<mapsto> diags) | None \<Rightarrow> m) Map.empty grouped"

text \<open>Results for an open document count only when it is at the version it had when the run started.\<close>

definition current_results :: "server_env \<Rightarrow> check_run \<Rightarrow> (string \<times> diagnostic list) list \<Rightarrow> server \<Rightarrow> uri \<rightharpoonup> diagnostic list" where
  "current_results env run grouped s =
     by_uri env grouped |` {u. case sv_docs s u of Some d \<Rightarrow> ru_versions run u = Some (od_version d) | None \<Rightarrow> True}"

text \<open>The stored results after publication, and the URIs to publish: for the whole project, and for modules.\<close>

definition stored_after :: "server_env \<Rightarrow> check_run \<Rightarrow> (uri \<rightharpoonup> diagnostic list) \<Rightarrow> server \<Rightarrow> uri \<rightharpoonup> diagnostic list" where
  "stored_after env run new s =
     (case ru_modules run of
        None \<Rightarrow> new
      | Some modules \<Rightarrow> (sv_javac s |` {u. \<not> uri_is_under_module env modules u}) ++ new)"

definition affected_uris :: "server_env \<Rightarrow> check_run \<Rightarrow> (uri \<rightharpoonup> diagnostic list) \<Rightarrow> server \<Rightarrow> uri set" where
  "affected_uris env run new s =
     (case ru_modules run of
        None \<Rightarrow> dom (sv_javac s)
      | Some modules \<Rightarrow> {u \<in> dom (sv_javac s). uri_is_under_module env modules u}) \<union> dom new"

definition publish_javac_diagnostics :: "server_env \<Rightarrow> check_run \<Rightarrow> (string \<times> diagnostic list) list \<Rightarrow> uri list \<Rightarrow> server \<Rightarrow> server" where
  "publish_javac_diagnostics env run grouped uris s =
     (let new = current_results env run grouped s;
          javac = stored_after env run new s
      in s\<lparr>sv_javac := javac,
           sv_publications := sv_publications s @ [\<lparr>pb_generation = None, pb_items = map (snapshot_item env (sv_docs s) javac) uris\<rparr>],
           sv_origin := (\<lambda>u. if u \<in> dom new then Some (ru_versions run u) else if u \<in> dom javac then sv_origin s u else None),
           sv_kept := (sv_kept s \<inter> dom javac) - dom new\<rparr>)"

text \<open>The one diagnostic on the build file when the JDK is too old for the project.\<close>

definition jdk_too_old_diagnostic :: "nat \<Rightarrow> nat \<Rightarrow> diagnostic" where
  "jdk_too_old_diagnostic project jdk =
     \<lparr>dg_start = \<lparr>line = 0, character = 0\<rparr>, dg_end = \<lparr>line = 0, character = 0\<rparr>, dg_severity = Some Warning, dg_code = None,
      dg_source = Some ''java-vsix-lite'',
      dg_message = ''This project targets Java '' @ show_nat project @ '', but the newest detected JDK is '' @ show_nat jdk
        @ ''. The javac check was skipped (it cannot compile Java '' @ show_nat project @ '' sources). Install a JDK '' @ show_nat project
        @ '' or newer, or set `java-vsix-lite.jdk.home` to one. Highlighting, completion, and navigation work regardless.''\<rparr>"

definition publish_jdk_too_old :: "server_env \<Rightarrow> string \<Rightarrow> nat \<Rightarrow> nat \<Rightarrow> uri list \<Rightarrow> server \<Rightarrow> server" where
  "publish_jdk_too_old env project_root project jdk uris s =
     (case find (fs_is_file (se_fs env)) (map (path_join project_root) [''pom.xml'', ''build.gradle'', ''build.gradle.kts'']) of
        None \<Rightarrow> s
      | Some build_file \<Rightarrow>
          publish_javac_diagnostics env
            \<lparr>ru_versions = map_option od_version \<circ> sv_docs s, ru_generation = sv_provider s, ru_modules = None\<rparr>
            [(build_file, [jdk_too_old_diagnostic project jdk])] uris s)"

section \<open>Interleavings\<close>

text \<open>Handlers run concurrently; each step below is what they do between two points where they wait, under the lock of the documents.\<close>

inductive server_step :: "server_env \<Rightarrow> server \<Rightarrow> server \<Rightarrow> bool" for env where
  opened: "server_step env s (open_document u version text s)"
| changed: "did_change env u version changes s = Some s' \<Longrightarrow> server_step env s s'"
| closed: "server_step env s (did_close u s)"
| saved: "server_step env s (did_save s)"
| sources: "server_step env s (source_events_accepted s)"
| swapped: "server_step env s (republish_all_diagnostics s)"
| snapshot: "i < length (sv_requests s) \<Longrightarrow> set uris = dom (sv_docs s) \<Longrightarrow>
    server_step env s (refresh_open_diagnostics env (sv_requests s ! i) uris
      (s\<lparr>sv_requests := take i (sv_requests s) @ drop (Suc i) (sv_requests s)\<rparr>))"
| published: "i < length (sv_publications s) \<Longrightarrow> server_step env s (publish_next i s)"
| check_begins: "server_step env s (check_start modules s)"
| check_ends: "i < length (sv_runs s) \<Longrightarrow> server_step env s (check_completed env i grouped s)"
| check_dropped: "i < length (sv_runs s) \<Longrightarrow> server_step env s (s\<lparr>sv_runs := take i (sv_runs s) @ drop (Suc i) (sv_runs s)\<rparr>)"
| results: "i < length (sv_results s) \<Longrightarrow> sv_results s ! i = (run, grouped) \<Longrightarrow>
    set uris = affected_uris env run (current_results env run grouped s) s \<Longrightarrow>
    server_step env s (publish_javac_diagnostics env run grouped uris
      (s\<lparr>sv_results := take i (sv_results s) @ drop (Suc i) (sv_results s)\<rparr>))"
| too_old: "server_step env s (publish_jdk_too_old env project_root project jdk uris s)"

inductive server_reachable :: "server_env \<Rightarrow> server \<Rightarrow> bool" for env where
  init: "server_reachable env server_new"
| step: "server_reachable env s \<Longrightarrow> server_step env s s' \<Longrightarrow> server_reachable env s'"

section \<open>Stored results belong to the current version\<close>

definition results_current :: "server \<Rightarrow> bool" where
  "results_current s \<longleftrightarrow>
     (\<forall>u d. sv_docs s u = Some d \<and> sv_javac s u \<noteq> None \<and> u \<notin> sv_kept s \<longrightarrow> sv_origin s u = Some (Some (od_version d)))"

lemma results_currentI:
  "(\<And>u d. sv_docs s u = Some d \<Longrightarrow> sv_javac s u \<noteq> None \<Longrightarrow> u \<notin> sv_kept s \<Longrightarrow> sv_origin s u = Some (Some (od_version d))) \<Longrightarrow> results_current s"
  by (auto simp: results_current_def)

lemma results_currentD:
  "results_current s \<Longrightarrow> sv_docs s u = Some d \<Longrightarrow> sv_javac s u \<noteq> None \<Longrightarrow> u \<notin> sv_kept s \<Longrightarrow> sv_origin s u = Some (Some (od_version d))"
  by (simp add: results_current_def)

lemma results_current_same:
  "results_current s \<Longrightarrow> sv_docs s' = sv_docs s \<Longrightarrow> sv_javac s' = sv_javac s \<Longrightarrow> sv_origin s' = sv_origin s \<Longrightarrow> sv_kept s' = sv_kept s
   \<Longrightarrow> results_current s'"
  by (simp add: results_current_def)

lemma open_document_current: "results_current s \<Longrightarrow> results_current (open_document u version text s)"
  by (auto simp: results_current_def open_document_def)

lemma did_change_current: "results_current s \<Longrightarrow> did_change env u version changes s = Some s' \<Longrightarrow> results_current s'"
  by (auto simp: results_current_def did_change_def Let_def split: option.splits)

lemma did_close_current: "results_current s \<Longrightarrow> results_current (did_close u s)"
  by (auto simp: results_current_def did_close_def)

lemma refresh_current: "results_current s \<Longrightarrow> results_current (refresh_open_diagnostics env request uris s)"
  by (cases request) (auto simp: results_current_def refresh_open_diagnostics_def Let_def restrict_map_def)

lemma publish_next_same:
  "sv_docs (publish_next i s) = sv_docs s" "sv_javac (publish_next i s) = sv_javac s"
  "sv_origin (publish_next i s) = sv_origin s" "sv_kept (publish_next i s) = sv_kept s" "sv_semantic (publish_next i s) = sv_semantic s"
  by (simp_all add: publish_next_def Let_def split: list.splits prod.splits)

lemma check_completed_same:
  "sv_docs (check_completed env i grouped s) = sv_docs s" "sv_javac (check_completed env i grouped s) = sv_javac s"
  "sv_origin (check_completed env i grouped s) = sv_origin s" "sv_kept (check_completed env i grouped s) = sv_kept s"
  "sv_semantic (check_completed env i grouped s) = sv_semantic s" "sv_publications (check_completed env i grouped s) = sv_publications s"
  by (simp_all add: check_completed_def check_start_def Let_def split: option.splits)

lemma current_results_version:
  "current_results env run grouped s u = Some ds \<Longrightarrow> sv_docs s u = Some d \<Longrightarrow> ru_versions run u = Some (od_version d)"
  by (auto simp: current_results_def restrict_map_def split: if_splits)

lemma publish_javac_current:
  assumes "results_current s"
  shows "results_current (publish_javac_diagnostics env run grouped uris s)"
proof (rule results_currentI)
  fix u d
  let ?new = "current_results env run grouped s" and ?s' = "publish_javac_diagnostics env run grouped uris s"
  assume a: "sv_docs ?s' u = Some d" "sv_javac ?s' u \<noteq> None" "u \<notin> sv_kept ?s'"
  then have d: "sv_docs s u = Some d" by (simp add: publish_javac_diagnostics_def Let_def)
  show "sv_origin ?s' u = Some (Some (od_version d))"
  proof (cases "?new u")
    case None
    then have "sv_javac s u \<noteq> None" using a(2)
      by (auto simp: publish_javac_diagnostics_def Let_def stored_after_def map_add_def restrict_map_def split: option.splits if_splits)
    moreover have "u \<notin> sv_kept s" using a(2,3) None by (auto simp: publish_javac_diagnostics_def Let_def dom_def)
    ultimately show ?thesis
      using results_currentD [OF assms d] a(2) None by (auto simp: publish_javac_diagnostics_def Let_def dom_def)
  next
    case (Some ds)
    then show ?thesis using current_results_version [OF Some d] by (simp add: publish_javac_diagnostics_def Let_def dom_def)
  qed
qed

lemma server_step_current: "server_step env s s' \<Longrightarrow> results_current s \<Longrightarrow> results_current s'"
proof (induction rule: server_step.induct)
  case (snapshot i s uris)
  show ?case by (rule refresh_current, rule results_current_same [OF snapshot(3)]) simp_all
next
  case (published i s)
  show ?case by (rule results_current_same [OF published(2)]) (simp_all add: publish_next_same)
next
  case (check_ends i s grouped)
  show ?case by (rule results_current_same [OF check_ends(2)]) (simp_all add: check_completed_same)
next
  case (results i s run grouped uris)
  show ?case by (rule publish_javac_current, rule results_current_same [OF results(4)]) simp_all
next
  case (too_old s project_root project jdk uris)
  then show ?case by (simp add: publish_jdk_too_old_def publish_javac_current split: option.split)
next
  case (saved s)
  show ?case by (rule results_current_same [OF saved]) (simp_all add: did_save_def)
next
  case (sources s)
  show ?case by (rule results_current_same [OF sources]) (simp_all add: source_events_accepted_def)
next
  case (swapped s)
  show ?case by (rule results_current_same [OF swapped]) (simp_all add: republish_all_diagnostics_def)
next
  case (check_begins s modules)
  show ?case by (rule results_current_same [OF check_begins]) (simp_all add: check_start_def)
next
  case (check_dropped i s)
  show ?case by (rule results_current_same [OF check_dropped(2)]) simp_all
qed (simp_all add: open_document_current did_change_current did_close_current)

section \<open>A refresh sends what is current\<close>

definition item_current :: "server_env \<Rightarrow> (uri \<rightharpoonup> server_document) \<Rightarrow> uri \<times> diagnostic list \<times> int option \<Rightarrow> bool" where
  "item_current env docs item \<longleftrightarrow>
     (case item of (u, ds, version) \<Rightarrow>
        \<exists>d j. docs u = Some d \<and> version = Some (od_version d) \<and> ds = merge_javac_diagnostics (se_native env docs u) j)"

definition publication_current :: "server_env \<Rightarrow> nat \<Rightarrow> (uri \<rightharpoonup> server_document) \<Rightarrow> publication \<Rightarrow> bool" where
  "publication_current env semantic docs p \<longleftrightarrow>
     (case pb_generation p of
        None \<Rightarrow> True
      | Some g \<Rightarrow> g \<le> semantic \<and> (g = semantic \<longrightarrow> list_all (item_current env docs) (pb_items p)))"

definition publications_current :: "server_env \<Rightarrow> server \<Rightarrow> bool" where
  "publications_current env s \<longleftrightarrow> list_all (publication_current env (sv_semantic s) (sv_docs s)) (sv_publications s)"

lemma merge_none: "merge_javac_diagnostics ds [] = ds"
  by (simp add: merge_javac_diagnostics_def)

lemma snapshot_item_current: "u \<in> dom docs \<Longrightarrow> item_current env docs (snapshot_item env docs javac u)"
  by (auto simp: item_current_def snapshot_item_def compute_diagnostics_def Let_def split: option.splits intro: exI [of _ "[]"] simp: merge_none)

lemma publications_advance:
  "publications_current env s \<Longrightarrow> sv_publications s' = sv_publications s \<Longrightarrow> sv_semantic s' > sv_semantic s \<Longrightarrow> publications_current env s'"
  by (auto simp: publications_current_def publication_current_def list_all_iff split: option.splits)

lemma publications_same:
  "publications_current env s \<Longrightarrow> sv_publications s' = sv_publications s \<Longrightarrow> sv_semantic s' = sv_semantic s \<Longrightarrow> sv_docs s' = sv_docs s
   \<Longrightarrow> publications_current env s'"
  by (simp add: publications_current_def)

lemma publications_added:
  "publications_current env s \<Longrightarrow> sv_publications s' = sv_publications s @ [p] \<Longrightarrow> publication_current env (sv_semantic s) (sv_docs s) p \<Longrightarrow>
   sv_semantic s' = sv_semantic s \<Longrightarrow> sv_docs s' = sv_docs s \<Longrightarrow> publications_current env s'"
  by (simp add: publications_current_def)

lemma refresh_publications:
  assumes "publications_current env s" "set uris = dom (sv_docs s)"
  shows "publications_current env (refresh_open_diagnostics env request uris s)"
proof (cases request)
  case (RefreshAll stale)
  let ?javac = "if stale then sv_javac s |` (- dom (sv_docs s)) else sv_javac s"
  have "list_all (item_current env (sv_docs s)) (map (snapshot_item env (sv_docs s) ?javac) uris)"
    using assms(2) snapshot_item_current by (auto simp: list_all_iff)
  then show ?thesis
    by (intro publications_added [OF assms(1), where p = "\<lparr>pb_generation = Some (sv_semantic s), pb_items = map (snapshot_item env (sv_docs s) ?javac) uris\<rparr>"])
      (simp_all add: RefreshAll refresh_open_diagnostics_def Let_def publication_current_def)
next
  case (RefreshOne u version)
  let ?p = "\<lparr>pb_generation = None, pb_items = [(u, compute_diagnostics env (sv_docs s) (sv_javac s) u, Some version)]\<rparr>"
  show ?thesis
    by (rule publications_added [OF assms(1), where p = ?p])
      (simp_all add: RefreshOne refresh_open_diagnostics_def publication_current_def)
qed

lemma publish_next_publications:
  assumes "publications_current env s" "i < length (sv_publications s)"
  shows "publications_current env (publish_next i s)"
proof -
  have "set (take i ps) \<union> set (drop (Suc i) ps) \<subseteq> set ps" for ps :: "publication list"
    using set_take_subset set_drop_subset by (metis Un_least)
  then have others: "list_all P (take i ps @ drop (Suc i) ps)" if "list_all P ps" for P and ps :: "publication list"
    using that by (auto simp: list_all_iff)
  let ?p = "sv_publications s ! i"
  have "publication_current env (sv_semantic s) (sv_docs s) ?p"
    using assms by (simp add: publications_current_def list_all_length)
  then have "publication_current env (sv_semantic s) (sv_docs s) (?p\<lparr>pb_items := items\<rparr>)" if "pb_items ?p = item # items" for item items
    using that by (auto simp: publication_current_def split: option.splits)
  moreover have "list_all P (ps[i := x])" if "list_all P ps" "P x" for P x and ps :: "publication list"
    using that by (auto simp: list_all_iff dest!: set_update_subset_insert [THEN subsetD])
  ultimately show ?thesis
    using assms(1) others by (auto simp: publications_current_def publish_next_def Let_def split: list.splits prod.splits)
qed

lemma publish_javac_publications:
  assumes "publications_current env s"
  shows "publications_current env (publish_javac_diagnostics env run grouped uris s)"
proof -
  let ?items = "map (snapshot_item env (sv_docs s) (stored_after env run (current_results env run grouped s) s)) uris"
  show ?thesis
    by (rule publications_added [OF assms, where p = "\<lparr>pb_generation = None, pb_items = ?items\<rparr>"])
      (simp_all add: publish_javac_diagnostics_def Let_def publication_current_def)
qed

lemma server_step_publications: "server_step env s s' \<Longrightarrow> publications_current env s \<Longrightarrow> publications_current env s'"
proof (induction rule: server_step.induct)
  case (opened s u version contents)
  show ?case by (rule publications_advance [OF opened]) (simp_all add: open_document_def)
next
  case (changed u version changes s s')
  have "s' = s \<or> sv_publications s' = sv_publications s \<and> sv_semantic s' = sv_semantic s + 1"
    using changed(1) by (auto simp: did_change_def Let_def split: option.splits)
  then show ?case using publications_advance [OF changed(2)] changed(2) by auto
next
  case (closed s u)
  show ?case by (rule publications_advance [OF closed]) (simp_all add: did_close_def)
next
  case (saved s)
  show ?case by (rule publications_advance [OF saved]) (simp_all add: did_save_def)
next
  case (sources s)
  show ?case by (rule publications_advance [OF sources]) (simp_all add: source_events_accepted_def)
next
  case (swapped s)
  show ?case by (rule publications_same [OF swapped]) (simp_all add: republish_all_diagnostics_def)
next
  case (snapshot i s uris)
  show ?case by (rule refresh_publications, rule publications_same [OF snapshot(3)]) (use snapshot(2) in simp_all)
next
  case (published i s)
  then show ?case using publish_next_publications by blast
next
  case (check_begins s modules)
  show ?case by (rule publications_same [OF check_begins]) (simp_all add: check_start_def)
next
  case (check_ends i s grouped)
  show ?case by (rule publications_same [OF check_ends(2)]) (simp_all add: check_completed_same)
next
  case (check_dropped i s)
  show ?case by (rule publications_same [OF check_dropped(2)]) simp_all
next
  case (results i s run grouped uris)
  show ?case by (rule publish_javac_publications, rule publications_same [OF results(4)]) simp_all
next
  case (too_old s project_root project jdk uris)
  then show ?case by (simp add: publish_jdk_too_old_def publish_javac_publications split: option.split)
qed

lemma server_invariants: "server_reachable env s \<Longrightarrow> results_current s \<and> publications_current env s"
proof (induction rule: server_reachable.induct)
  case init
  show ?case by (simp add: server_new_def results_current_def publications_current_def)
next
  case (step s s')
  then show ?case using server_step_current server_step_publications by blast
qed


text \<open>
  C12. A refresh never sends outdated diagnostics: the next item it sends, if its generation check lets it, is for an open
  document, carries the current version, and begins with the native diagnostics of the documents as they are now. This holds
  as long as fewer than \<open>2\<^sup>6\<^sup>4\<close> changes have been made.
\<close>

theorem refresh_sends_current:
  assumes "server_reachable env s" "sv_semantic s < 2 ^ 64" "i < length (sv_publications s)"
    "pb_generation (sv_publications s ! i) = Some g" "pb_items (sv_publications s ! i) = (u, ds, version) # items"
  shows "sv_client (publish_next i s) u = Some (ds, version) \<and> item_current env (sv_docs s) (u, ds, version)
    \<or> sv_client (publish_next i s) = sv_client s"
proof (cases "generation g = generation (sv_semantic s)")
  case True
  have p: "publication_current env (sv_semantic s) (sv_docs s) (sv_publications s ! i)"
    using server_invariants [OF assms(1)] assms(3) by (simp add: publications_current_def list_all_length)
  then have "g \<le> sv_semantic s" using assms(4) by (simp add: publication_current_def)
  moreover from this have "unat (generation g) = g" "unat (generation (sv_semantic s)) = sv_semantic s"
    using assms(2) by (simp_all add: generation_def unat_of_nat)
  ultimately have "g = sv_semantic s" using True by metis
  then show ?thesis using p True assms(3-5) by (simp add: publication_current_def publish_next_def Let_def)
next
  case False
  then show ?thesis using assms(4,5) by (simp add: publish_next_def Let_def)
qed

section \<open>A run of the server\<close>

definition sample_env :: server_env where
  "sample_env =
     \<lparr>se_native = \<lambda>_ _. [], se_fingerprint = \<lambda>_. 0, se_uri_of_path = Some, se_path_of_uri = Some, se_encoding = Utf16,
      se_fs = sample_jdk_fs\<rparr>"

definition sample_report :: diagnostic where
  "sample_report =
     \<lparr>dg_start = \<lparr>line = 0, character = 0\<rparr>, dg_end = \<lparr>line = 0, character = 0\<rparr>, dg_severity = Some Error, dg_code = None,
      dg_source = Some ''javac'', dg_message = ''broken''\<rparr>"

text \<open>A document is opened and checked; the refresh of its opening has its snapshot, the result of the check is stored.\<close>

definition sample_run :: check_run where
  "sample_run = \<lparr>ru_versions = [''A'' \<mapsto> 1], ru_generation = 0, ru_modules = None\<rparr>"

definition opened_state :: server where
  "opened_state = server_new\<lparr>sv_docs := [''A'' \<mapsto> \<lparr>od_text = [], od_version = 1\<rparr>], sv_semantic := 1, sv_requests := [RefreshAll False]\<rparr>"

definition snapshot_state :: server where
  "snapshot_state = opened_state\<lparr>sv_requests := [], sv_publications := [\<lparr>pb_generation = Some 1, pb_items = [(''A'', [], Some 1)]\<rparr>]\<rparr>"

definition checked_state :: server where
  "checked_state =
     snapshot_state\<lparr>sv_javac := [''A'' \<mapsto> [sample_report]], sv_origin := [''A'' \<mapsto> Some 1],
       sv_publications := [\<lparr>pb_generation = Some 1, pb_items = [(''A'', [], Some 1)]\<rparr>, \<lparr>pb_generation = None, pb_items = [(''A'', [sample_report], Some 1)]\<rparr>]\<rparr>"

lemmas sample_states = sample_env_def sample_run_def opened_state_def snapshot_state_def checked_state_def server_new_def

lemma opened_reachable: "server_reachable sample_env opened_state"
proof -
  have "opened_state = open_document ''A'' 1 [] server_new" by (simp add: sample_states open_document_def)
  then show ?thesis using server_reachable.step [OF server_reachable.init server_step.opened] by metis
qed

lemma snapshot_reachable: "server_reachable sample_env snapshot_state"
proof -
  have "snapshot_state = refresh_open_diagnostics sample_env (sv_requests opened_state ! 0) [''A'']
      (opened_state\<lparr>sv_requests := take 0 (sv_requests opened_state) @ drop (Suc 0) (sv_requests opened_state)\<rparr>)"
    by (simp add: sample_states refresh_open_diagnostics_def snapshot_item_def compute_diagnostics_def)
  moreover have "0 < length (sv_requests opened_state)" "set [''A''] = dom (sv_docs opened_state)" by (simp_all add: sample_states)
  ultimately show ?thesis using server_reachable.step [OF opened_reachable server_step.snapshot] by metis
qed

lemma checked_reachable: "server_reachable sample_env checked_state"
proof -
  let ?grouped = "[(''A'', [sample_report])]"
  define s1 where "s1 = check_start None snapshot_state"
  define s2 where "s2 = check_completed sample_env 0 ?grouped s1"
  have s1: "sv_runs s1 = [sample_run]" by (auto simp: s1_def check_start_def sample_states fun_eq_iff)
  have s2: "s2 = snapshot_state\<lparr>sv_results := [(sample_run, ?grouped)]\<rparr>"
    using s1 by (simp add: s2_def check_completed_def Let_def) (simp add: s1_def check_start_def sample_states)
  have "server_reachable sample_env s1" unfolding s1_def by (rule server_reachable.step [OF snapshot_reachable server_step.check_begins])
  then have reach: "server_reachable sample_env s2" unfolding s2_def by (rule server_reachable.step [OF _ server_step.check_ends]) (simp add: s1)
  have new: "current_results sample_env sample_run ?grouped s2 = [''A'' \<mapsto> [sample_report]]"
    by (auto simp: s2 current_results_def by_uri_def sample_states restrict_map_def fun_eq_iff)
  have "set [''A''] = affected_uris sample_env sample_run (current_results sample_env sample_run ?grouped s2) s2"
    by (simp add: new affected_uris_def) (simp add: s2 sample_states)
  moreover have "0 < length (sv_results s2)" "sv_results s2 ! 0 = (sample_run, ?grouped)" by (simp_all add: s2)
  moreover have "checked_state = publish_javac_diagnostics sample_env sample_run ?grouped [''A'']
      (s2\<lparr>sv_results := take 0 (sv_results s2) @ drop (Suc 0) (sv_results s2)\<rparr>)"
  proof -
    have "current_results sample_env sample_run ?grouped (s2\<lparr>sv_results := []\<rparr>) = [''A'' \<mapsto> [sample_report]]"
      using new by (simp add: current_results_def)
    then show ?thesis
      by (simp add: publish_javac_diagnostics_def s2 Let_def stored_after_def)
        (auto simp: sample_states snapshot_item_def compute_diagnostics_def merge_javac_diagnostics_def fun_eq_iff)
  qed
  ultimately show ?thesis using server_reachable.step [OF reach server_step.results] by metis
qed


theorem refresh_sends_current_witness:
  "sv_client (publish_next 0 checked_state) ''A'' = Some ([], Some 1) \<and> item_current sample_env (sv_docs checked_state) (''A'', [], Some 1)"
  using refresh_sends_current [OF checked_reachable, of 0 1 "''A''" "[]" "Some 1" "[]"]
  by (auto simp: sample_states publish_next_def fun_eq_iff split: if_splits)

text \<open>
  A refresh whose snapshot is older than the storing of a compiler result still passes its generation check; when it sends
  last, the client is left without the result, at the current version, and nothing is pending that would send it.
\<close>

lemma refresh_hides_compiler_result:
  "\<exists>s. server_reachable sample_env s \<and> sv_requests s = [] \<and> sv_publications s = [] \<and> sv_runs s = [] \<and> sv_results s = []
     \<and> sv_docs s ''A'' = Some \<lparr>od_text = [], od_version = 1\<rparr> \<and> sv_javac s ''A'' = Some [sample_report] \<and> sv_client s ''A'' = Some ([], Some 1)"
proof -
  define s1 where "s1 = publish_next 1 checked_state"
  define s2 where "s2 = publish_next 0 s1"
  define s3 where "s3 = publish_next 0 s2"
  define s4 where "s4 = publish_next 0 s3"
  have s1: "s1 = checked_state\<lparr>sv_client := [''A'' \<mapsto> ([sample_report], Some 1)],
      sv_publications := [\<lparr>pb_generation = Some 1, pb_items = [(''A'', [], Some 1)]\<rparr>, \<lparr>pb_generation = None, pb_items = []\<rparr>]\<rparr>"
    by (simp add: s1_def publish_next_def sample_states)
  have s2: "s2 = checked_state\<lparr>sv_client := [''A'' \<mapsto> ([], Some 1)],
      sv_publications := [\<lparr>pb_generation = Some 1, pb_items = []\<rparr>, \<lparr>pb_generation = None, pb_items = []\<rparr>]\<rparr>"
    by (simp add: s2_def s1 publish_next_def sample_states)
  have s3: "s3 = s2\<lparr>sv_publications := [\<lparr>pb_generation = None, pb_items = []\<rparr>]\<rparr>" by (simp add: s3_def s2 publish_next_def)
  have s4: "s4 = s2\<lparr>sv_publications := []\<rparr>" by (simp add: s4_def s3 publish_next_def)
  have "server_reachable sample_env s1"
    unfolding s1_def by (rule server_reachable.step [OF checked_reachable server_step.published]) (simp add: sample_states)
  then have "server_reachable sample_env s2"
    unfolding s2_def by (rule server_reachable.step [OF _ server_step.published]) (simp add: s1)
  then have "server_reachable sample_env s3"
    unfolding s3_def by (rule server_reachable.step [OF _ server_step.published]) (simp add: s2)
  then have "server_reachable sample_env s4"
    unfolding s4_def by (rule server_reachable.step [OF _ server_step.published]) (simp add: s3)
  then show ?thesis by (intro exI [of _ s4]) (simp add: s4 s2 sample_states)
qed

end
