(* ===== verification/Javac_Run.thy ===== *)
theory Javac_Run
  imports Launch Javac_Output Dap_Protocol
begin

text \<open>
  The check of a project by the compiler: the scope of the command (\<open>crates/server/src/main.rs\<close>), the modules and source roots it covers
  (\<open>diagnostics.rs\<close>), and running \<open>javac\<close> with a timeout and limits (\<open>crates/server/src/javac.rs\<close>). The operating
  system is that of \<open>Launch\<close>, with the slot of the running child.
\<close>

section \<open>Which files are compiled (javac.rs)\<close>

definition CHECK_MAX_SOURCE_FILES :: nat where
  "CHECK_MAX_SOURCE_FILES = 2000"

text \<open>The entries of one directory; \<open>Inl\<close>: the limit is reached and the walk returns.\<close>

fun check_entries :: "string \<Rightarrow> dir_entry list \<Rightarrow> string list \<Rightarrow> string list \<Rightarrow> string list + string list \<times> string list" where
  "check_entries dir [] stack out = Inr (stack, out)"
| "check_entries dir (e # es) stack out =
     (if CHECK_MAX_SOURCE_FILES \<le> length out then Inl out
      else if de_type e = None \<or> de_type e = Some FtSymlink \<or> skipped_name (de_name e) then check_entries dir es stack out
      else if de_type e = Some FtDir then check_entries dir es (entry_path dir e # stack) out
      else if de_type e = Some FtFile \<and> extension (entry_path dir e) = Some ''java'' then check_entries dir es stack (out @ [entry_path dir e])
      else check_entries dir es stack out)"

partial_function (option) walk_for_java_files :: "fs \<Rightarrow> string list \<Rightarrow> string list \<Rightarrow> string list option" where
  "walk_for_java_files fs stack out =
     (case stack of
        [] \<Rightarrow> Some out
      | dir # rest \<Rightarrow>
          if CHECK_MAX_SOURCE_FILES \<le> length out then Some out
          else case fs_read_dir fs dir of
              None \<Rightarrow> walk_for_java_files fs rest out
            | Some es \<Rightarrow> (case check_entries dir es rest out of Inl out' \<Rightarrow> Some out' | Inr (stack', out') \<Rightarrow> walk_for_java_files fs stack' out'))"

fun check_roots :: "fs \<Rightarrow> string list \<Rightarrow> string list \<Rightarrow> string list \<Rightarrow> string list option" where
  "check_roots fs [] seen out = Some out"
| "check_roots fs (root # roots) seen out =
     (if list_ex (same_path root) seen then check_roots fs roots seen out
      else if CHECK_MAX_SOURCE_FILES \<le> length out then Some out
      else case walk_for_java_files fs [root] out of None \<Rightarrow> None | Some out' \<Rightarrow> check_roots fs roots (root # seen) out')"

definition check_source_files :: "fs \<Rightarrow> string list \<Rightarrow> string list option" where
  "check_source_files fs roots = check_roots fs roots [] []"

definition canonical_within_workspace :: "fs \<Rightarrow> string \<Rightarrow> string \<Rightarrow> string option" where
  "canonical_within_workspace fs file root_canonical =
     (case fs_canonicalize fs file of Some c \<Rightarrow> if path_starts_with root_canonical c then Some c else None | None \<Rightarrow> None)"

definition has_module_marker :: "fs \<Rightarrow> string \<Rightarrow> bool" where
  "has_module_marker fs d \<longleftrightarrow> list_ex (\<lambda>m. fs_is_file fs (path_join d m)) MODULE_MARKERS"

text \<open>The loop over the ancestors, on the components of the path.\<close>

function module_root_loop :: "fs \<Rightarrow> string \<Rightarrow> component list \<Rightarrow> string option" where
  "module_root_loop fs root cs =
     (if has_module_marker fs (show_path cs) then Some (show_path cs)
      else if cs = components root \<or> cs = [] \<or> last cs = RootDir then None
      else module_root_loop fs root (butlast cs))"
  by pat_completeness auto
termination
  by (relation "measure (\<lambda>(_, _, cs). length cs)") auto

declare module_root_loop.simps [simp del]

definition nearest_module_root :: "fs \<Rightarrow> string \<Rightarrow> string \<Rightarrow> string option" where
  "nearest_module_root fs file root =
     (case parent file of None \<Rightarrow> None | Some _ \<Rightarrow> module_root_loop fs root (butlast (components file)))"

definition conventional_source_roots :: "fs \<Rightarrow> string \<Rightarrow> string list" where
  "conventional_source_roots fs module_root = filter (fs_is_dir fs) (map (path_join module_root) CONVENTIONAL_SOURCE_SUBDIRS)"

definition discover_workspace_source_roots :: "fs \<Rightarrow> string \<Rightarrow> string list" where
  "discover_workspace_source_roots fs root = discover_loop fs root [root] 0 []"

section \<open>The scope of a check (main.rs, diagnostics.rs)\<close>

datatype check_scope = Project | Modules "string list"

fun uri_strings :: "json list \<Rightarrow> string + string list" where
  "uri_strings [] = Inr []"
| "uri_strings (v # vs) =
     (case as_str v of
        None \<Rightarrow> Inl ''documentUris entries must be strings''
      | Some s \<Rightarrow> map_sum id ((#) s) (uri_strings vs))"

definition parse_check_scope :: "json list \<Rightarrow> string + check_scope" where
  "parse_check_scope arguments =
     (case arguments of
        [] \<Rightarrow> Inr Project
      | JNull # _ \<Rightarrow> Inr Project
      | JObj obj # _ \<Rightarrow>
          if obj = [] then Inr Project
          else (case Option.bind (map_of obj ''scope'') as_str of
                  None \<Rightarrow> Inr Project
                | Some s \<Rightarrow>
                    if s = ''project'' then Inr Project
                    else if s = ''modules'' then
                      (case map_of obj ''documentUris'' of
                         Some (JArr vs) \<Rightarrow>
                           (case uri_strings vs of
                              Inl e \<Rightarrow> Inl e
                            | Inr [] \<Rightarrow> Inl ''modules scope requires at least one document URI''
                            | Inr uris \<Rightarrow> Inr (Modules uris))
                       | _ \<Rightarrow> Inl ''modules scope requires a documentUris array'')
                    else Inl (''unknown checkProject scope: '' @ s))
      | _ \<Rightarrow> Inl ''checkProject argument must be a JSON object'')"

text \<open>
  The documents of a check over modules, in order. URIs are those of a third-party library, \<open>file_path\<close>; \<open>infer\<close> is the source
  root that the package of an open document implies.
\<close>

definition parse_java_file_uri :: "(string \<Rightarrow> string option) \<Rightarrow> string \<Rightarrow> string option" where
  "parse_java_file_uri file_path u = (case file_path u of Some p \<Rightarrow> if extension p = Some ''java'' then Some p else None | None \<Rightarrow> None)"

record check_plan =
  cp_modules :: "string list"
  cp_explicit :: "string list"
  cp_unsupported :: "string option"

definition module_of :: "fs \<Rightarrow> string \<Rightarrow> string \<Rightarrow> string option" where
  "module_of fs root file =
     (case nearest_module_root fs file root of
        Some m \<Rightarrow> Some m
      | None \<Rightarrow> if list_ex (\<lambda>r. path_starts_with r file) (conventional_source_roots fs root) then Some root else None)"

definition add_module :: "fs \<Rightarrow> string option \<Rightarrow> string \<Rightarrow> check_plan \<Rightarrow> check_plan" where
  "add_module fs inferred m plan =
     (let plan = (if list_ex (same_path m) (cp_modules plan) then plan
                  else plan\<lparr>cp_modules := cp_modules plan @ [m], cp_explicit := cp_explicit plan @ conventional_source_roots fs m\<rparr>)
      in case inferred of
          Some r \<Rightarrow>
            if path_starts_with m r \<and> \<not> list_ex (same_path r) (cp_explicit plan) then plan\<lparr>cp_explicit := cp_explicit plan @ [r]\<rparr> else plan
        | None \<Rightarrow> plan)"

fun resolve_documents :: "fs \<Rightarrow> (string \<Rightarrow> string option) \<Rightarrow> (string \<Rightarrow> string option) \<Rightarrow> string \<Rightarrow> string \<Rightarrow> string list \<Rightarrow> check_plan
    \<Rightarrow> string + check_plan" where
  "resolve_documents fs file_path infer root canon [] plan = Inr plan"
| "resolve_documents fs file_path infer root canon (u # us) plan =
     (case parse_java_file_uri file_path u of
        None \<Rightarrow> Inl (''not a file: .java URI: '' @ u)
      | Some file \<Rightarrow>
          if canonical_within_workspace fs file canon = None
          then Inl (''document is outside the workspace or unreadable: '' @ u)
          else case module_of fs root file of
              None \<Rightarrow>
                resolve_documents fs file_path infer root canon us
                  (if cp_unsupported plan = None then plan\<lparr>cp_unsupported := Some u\<rparr> else plan)
            | Some m \<Rightarrow> resolve_documents fs file_path infer root canon us (add_module fs (infer u) m plan))"

text \<open>\<open>Inl\<close>: the status and the message the command returns at once.\<close>

definition scoped_plan :: "fs \<Rightarrow> (string \<Rightarrow> string option) \<Rightarrow> (string \<Rightarrow> string option) \<Rightarrow> string option \<Rightarrow> string list
    \<Rightarrow> string \<times> string + check_plan" where
  "scoped_plan fs file_path infer project_root uris =
     (if uris = [] then Inl (''error'', ''scoped check requires at least one document URI'')
      else case project_root of
          None \<Rightarrow> Inl (''error'', ''no project root (open a workspace folder or a file under a Maven/Gradle project)'')
        | Some root \<Rightarrow>
            (case fs_canonicalize fs root of
               None \<Rightarrow> Inl (''error'', ''could not canonicalize the workspace root'')
             | Some canon \<Rightarrow>
                 (case resolve_documents fs file_path infer root canon uris \<lparr>cp_modules = [], cp_explicit = [], cp_unsupported = None\<rparr> of
                    Inl e \<Rightarrow> Inl (''error'', e)
                  | Inr plan \<Rightarrow>
                      if cp_modules plan = [] then
                        Inl (''unsupported-layout'', the (cp_unsupported plan)
                          @ '' is not inside a Maven/Gradle module or a conventional source root; use Check Project (javac) instead'')
                      else Inr plan)))"


section \<open>Running the compiler (javac.rs)\<close>

record run_config =
  rc_javac_path :: string
  rc_source_files :: "string list"
  rc_classpath_entries :: "string list"
  rc_sourcepath_entries :: "string list"
  rc_timeout :: nat
  rc_source_level :: source_level

datatype run_outcome = Completed string | TimedOut | Cancelled | SpawnError string

text \<open>
  Besides what a launch needs of the operating system: the slot of the running child (whether it is filled, filling and
  clearing it), which a shutdown may empty at any time, and the clock of the scratch names.
\<close>

record 'w check_os =
  ck_os :: "'w os"
  ck_slot :: "'w \<Rightarrow> bool"
  ck_fill :: "'w \<Rightarrow> 'w"
  ck_clear :: "'w \<Rightarrow> 'w"
  ck_nanos :: "'w \<Rightarrow> nat"

definition OUTPUT_CAP :: nat where
  "OUTPUT_CAP = 2 * 1024 * 1024"

fun drain_capped :: "bytes option list \<Rightarrow> bytes \<Rightarrow> bytes" where
  "drain_capped [] buf = buf"
| "drain_capped (None # rs) buf = buf"
| "drain_capped (Some chunk # rs) buf =
     (if chunk = [] then buf
      else drain_capped rs (if length buf < OUTPUT_CAP then buf @ take (min (OUTPUT_CAP - length buf) (length chunk)) chunk else buf))"

datatype poll_result = PollExited | PollTimedOut | PollCancelled

definition CHECK_POLL_INTERVAL :: nat where
  "CHECK_POLL_INTERVAL = 50"

definition kill_running_child :: "'w check_os \<Rightarrow> 'w \<Rightarrow> 'w" where
  "kill_running_child os w = (if ck_slot os w then ck_clear os (os_kill_and_wait (ck_os os) w) else w)"

text \<open>\<open>None\<close>: the loop does not end.\<close>

partial_function (option) poll_until_exit_or_timeout :: "'w check_os \<Rightarrow> nat \<Rightarrow> nat \<Rightarrow> 'w \<Rightarrow> (poll_result \<times> 'w) option" where
  "poll_until_exit_or_timeout os start timeout w =
     (if \<not> ck_slot os w then Some (PollCancelled, w)
      else case os_try_wait (ck_os os) w of
          (StillRunning, w) \<Rightarrow>
            if timeout \<le> os_now (ck_os os) w - start
            then Some (PollTimedOut, ck_clear os (if ck_slot os w then os_kill_and_wait (ck_os os) w else w))
            else poll_until_exit_or_timeout os start timeout (os_sleep (ck_os os) CHECK_POLL_INTERVAL w)
        | (_, w) \<Rightarrow> Some (PollExited, w))"

definition check_scratch_name :: "'w check_os \<Rightarrow> nat \<Rightarrow> 'w \<Rightarrow> string" where
  "check_scratch_name os k w =
     path_join (os_temp_dir (ck_os os) w)
       (''jvl-javac-'' @ show_nat (os_pid (ck_os os)) @ ''-'' @ show_nat (ck_nanos os w) @ ''-'' @ show_nat k)"

fun check_try_scratch :: "'w check_os \<Rightarrow> nat list \<Rightarrow> 'w \<Rightarrow> string option \<times> 'w" where
  "check_try_scratch os [] w = (None, w)"
| "check_try_scratch os (k # ks) w =
     (let dir = check_scratch_name os k w in
      case os_create_dir (ck_os os) dir w of
        (True, w) \<Rightarrow> (Some dir, w)
      | (False, w) \<Rightarrow> check_try_scratch os ks w)"

definition check_fresh_scratch_dir :: "'w check_os \<Rightarrow> 'w \<Rightarrow> string option \<times> 'w" where
  "check_fresh_scratch_dir os w = check_try_scratch os [0..<8] w"

text \<open>A list of paths as one argument; the message names the path that cannot be joined.\<close>

definition joined_option :: "'w os \<Rightarrow> string \<Rightarrow> string \<Rightarrow> string \<Rightarrow> string list \<Rightarrow> string + string list" where
  "joined_option os flag what whats entries =
     (if entries = [] then Inr []
      else case os_join_paths os entries of
          Inr joined \<Rightarrow> Inr [flag, joined]
        | Inl _ \<Rightarrow>
            Inl (case find (\<lambda>p. isl (os_join_paths os [p])) entries of
                   Some p \<Rightarrow> what @ '' contains the platform path-list separator and cannot be passed to javac '' @ flag @ '': '' @ p
                 | None \<Rightarrow> whats @ '' cannot be joined for javac '' @ flag))"

definition check_args :: "'w os \<Rightarrow> run_config \<Rightarrow> string \<Rightarrow> string + string list" where
  "check_args os config scratch =
     (case joined_option os ''-cp'' ''classpath entry'' ''classpath entries'' (rc_classpath_entries config) of
        Inl e \<Rightarrow> Inl e
      | Inr cp \<Rightarrow>
          (case joined_option os ''-sourcepath'' ''source-root entry'' ''source-root entries'' (rc_sourcepath_entries config) of
             Inl e \<Rightarrow> Inl e
           | Inr sp \<Rightarrow>
               Inr ([''-proc:none'', ''-Xmaxerrs'', ''200'', ''-d'', scratch] @ source_level_args (rc_source_level config) @ cp @ sp
                    @ [''@'' @ path_join scratch ''sources.argfile''])))"

text \<open>The outcome with the number of reader threads left behind: those of standard output and standard error.\<close>

definition run_in_scratch :: "'w check_os \<Rightarrow> run_config \<Rightarrow> string \<Rightarrow> 'w \<Rightarrow> (run_outcome \<times> nat \<times> 'w) option" where
  "run_in_scratch os config scratch w =
     (case write_argfile (ck_os os) (path_join scratch ''sources.argfile'') (rc_source_files config) w of
        (Inl e, w) \<Rightarrow> Some (SpawnError (''failed to write argfile: '' @ e), 0, w)
      | (Inr _, w) \<Rightarrow>
          (case check_args (ck_os os) config scratch of
             Inl e \<Rightarrow> Some (SpawnError e, 0, w)
           | Inr args \<Rightarrow>
               (case os_spawn (ck_os os) (rc_javac_path config) args w of
                  (Inl e, w) \<Rightarrow> Some (SpawnError (''failed to spawn javac: '' @ e), 0, w)
                | (Inr _, w) \<Rightarrow>
                    (let w = ck_fill os w in
                     case poll_until_exit_or_timeout os (os_now (ck_os os) w) (rc_timeout config) w of
                       None \<Rightarrow> None
                     | Some (PollExited, w) \<Rightarrow>
                         (case os_stderr_reads (ck_os os) w of
                            (reads, w) \<Rightarrow> Some (Completed (from_utf8_lossy (drain_capped reads [])), 0, w))
                     | Some (PollTimedOut, w) \<Rightarrow> Some (TimedOut, 2, w)
                     | Some (PollCancelled, w) \<Rightarrow> Some (Cancelled, 2, w)))))"

section \<open>Reader threads left behind\<close>

definition MAX_LEAKED_READERS :: nat where
  "MAX_LEAKED_READERS = 8"

text \<open>One completion flag per thread; the sweep drops those that are set.\<close>

definition swept :: "bool list \<Rightarrow> bool list" where
  "swept flags = filter (\<lambda>done. \<not> done) flags"

definition live_count :: "bool list \<Rightarrow> nat" where
  "live_count flags = length (swept flags)"

definition leaking :: "nat \<Rightarrow> string" where
  "leaking n = ''javac runs are leaking resources ('' @ show_nat n @ '' output-reader threads still blocked by earlier timed-out runs) ''
     @ [CHR 0xE2, CHR 0x80, CHR 0x94] @ '' check that java-vsix-lite.jdk.home / $JAVA_HOME points at a real JDK; restart the server to reset''"

definition run_check :: "'w check_os \<Rightarrow> nat \<Rightarrow> run_config \<Rightarrow> bool list \<Rightarrow> 'w \<Rightarrow> (run_outcome \<times> bool list \<times> 'w) option" where
  "run_check os cap config flags w =
     (if cap \<le> live_count flags then Some (SpawnError (leaking (live_count flags)), swept flags, w)
      else case check_fresh_scratch_dir os w of
          (None, w) \<Rightarrow> Some (SpawnError ''failed to create scratch directory'', swept flags, w)
        | (Some scratch, w) \<Rightarrow>
            (case run_in_scratch os config scratch w of
               None \<Rightarrow> None
             | Some (result, leaked, w) \<Rightarrow> Some (result, swept flags @ replicate leaked False, os_remove_dir_all (ck_os os) scratch w)))"

section \<open>A check from the command to its results (diagnostics.rs)\<close>

definition check_level :: "nat option \<Rightarrow> nat option \<Rightarrow> source_level" where
  "check_level project_release jdk_release =
     (case jdk_release of
        None \<Rightarrow> NoLevel
      | Some jdk \<Rightarrow> (case project_release of Some release \<Rightarrow> Release release (release = jdk) | None \<Rightarrow> JdkDefault jdk))"

datatype check_execution = Terminal string string | JdkTooOld nat nat | Checked "(string \<times> diagnostic list) list" nat nat

definition run_to_results :: "'w check_os \<Rightarrow> nat \<Rightarrow> string list \<Rightarrow> string \<Rightarrow> nat \<Rightarrow> string list \<Rightarrow> string list \<Rightarrow> source_level \<Rightarrow> bool list
    \<Rightarrow> 'w \<Rightarrow> (check_execution \<times> bool list \<times> 'w) option" where
  "run_to_results os cap files javac timeout_secs classpath_entries sourcepath_roots level flags w =
     (case run_check os cap
         \<lparr>rc_javac_path = javac, rc_source_files = files, rc_classpath_entries = classpath_entries,
          rc_sourcepath_entries = sourcepath_roots, rc_timeout = timeout_secs * 1000, rc_source_level = level\<rparr> flags w of
        None \<Rightarrow> None
      | Some (TimedOut, flags, w) \<Rightarrow>
          Some (Terminal ''timeout'' (''javac timed out after '' @ show_nat timeout_secs @ ''s and was killed''), flags, w)
      | Some (Cancelled, flags, w) \<Rightarrow> Some (Terminal ''cancelled'' ''javac was killed by server shutdown'', flags, w)
      | Some (SpawnError message, flags, w) \<Rightarrow> Some (Terminal ''spawn-error'' message, flags, w)
      | Some (Completed stderr, flags, w) \<Rightarrow>
          (let raw = parse_stderr stderr; (errors, warnings) = count_severities raw in
           Some (Checked (group_diagnostics raw) errors warnings, flags, w)))"

definition execute_javac_check :: "'w check_os \<Rightarrow> nat \<Rightarrow> string option \<Rightarrow> nat \<Rightarrow> string list \<Rightarrow> string \<Rightarrow> string list \<Rightarrow> string list \<Rightarrow> bool list
    \<Rightarrow> 'w \<Rightarrow> (check_execution \<times> bool list \<times> 'w) option" where
  "execute_javac_check os cap jdk_home timeout_secs classpath_entries release_root explicit_roots sourcepath_roots flags w =
     (let fs = os_fs (ck_os os) w in
      case locate_javac fs jdk_home of
        None \<Rightarrow> Some (Terminal ''javac-not-found''
            ''could not locate javac: set $JAVA_HOME or the java-vsix-lite.jdk.home setting (never downloaded)'', flags, w)
      | Some javac \<Rightarrow>
          (case check_source_files fs explicit_roots of
             None \<Rightarrow> None
           | Some [] \<Rightarrow> Some (Terminal ''error'' ''no .java source files found under the discovered source roots'', flags, w)
           | Some files \<Rightarrow>
               (let jdk = map_option unat (Option.bind (Option.bind (parent javac) parent) (jdk_feature_version fs));
                    project = map_option unat (project_java_release (os_resolver (ck_os os) w) release_root)
                in case (project, jdk) of
                    (Some p, Some j) \<Rightarrow> if j < p then Some (JdkTooOld p j, flags, w) else
                      run_to_results os cap files javac timeout_secs classpath_entries sourcepath_roots (check_level project jdk) flags w
                  | _ \<Rightarrow> run_to_results os cap files javac timeout_secs classpath_entries sourcepath_roots (check_level project jdk) flags w)))"


section \<open>Source files and modules\<close>

lemma check_entries_cases:
  "length out \<le> 2000 \<Longrightarrow>
   (case check_entries dir es stack out of
      Inl out' \<Rightarrow> length out' \<le> 2000
    | Inr (stack', out') \<Rightarrow> length out' \<le> 2000 \<and> (\<exists>subs. stack' = subs @ stack \<and> set subs \<subseteq> entry_path dir ` {e \<in> set es. de_type e = Some FtDir}))"
proof (induction dir es stack out rule: check_entries.induct)
  case (2 dir e es stack out)
  have more: "\<exists>subs. stack' = subs @ st \<and> set subs \<subseteq> entry_path dir ` {x \<in> set (e # es). de_type x = Some FtDir}"
    if "\<exists>subs. stack' = subs @ st \<and> set subs \<subseteq> entry_path dir ` {x \<in> set es. de_type x = Some FtDir}" for stack' st
    using that by auto
  have push: "\<exists>subs. stack' = subs @ stack \<and> set subs \<subseteq> entry_path dir ` {x \<in> set (e # es). de_type x = Some FtDir}"
    if h: "\<exists>subs. stack' = subs @ entry_path dir e # stack \<and> set subs \<subseteq> entry_path dir ` {x \<in> set es. de_type x = Some FtDir}"
      "de_type e = Some FtDir" for stack'
  proof -
    obtain subs where "stack' = subs @ entry_path dir e # stack" "set subs \<subseteq> entry_path dir ` {x \<in> set es. de_type x = Some FtDir}"
      using h by blast
    then show ?thesis using h by (intro exI [of _ "subs @ [entry_path dir e]"]) auto
  qed
  show ?case
    using 2 more push by (auto simp: CHECK_MAX_SOURCE_FILES_def split: sum.splits)
qed simp

definition check_returns :: "fs \<Rightarrow> string list \<Rightarrow> bool" where
  "check_returns fs stack \<longleftrightarrow> (\<forall>out. length out \<le> 2000 \<longrightarrow> (\<exists>r. walk_for_java_files fs stack out = Some r \<and> length r \<le> 2000))"

lemma check_returns_Nil: "check_returns fs []"
  by (simp add: check_returns_def walk_for_java_files.simps)

lemma check_returns_Cons: "finite_tree fs dir \<Longrightarrow> check_returns fs rest \<Longrightarrow> check_returns fs (dir # rest)"
proof (induction arbitrary: rest rule: finite_tree.induct)
  case (1 dir)
  have subs: "check_returns fs (subs @ rest)" if "fs_read_dir fs dir = Some es" "set subs \<subseteq> entry_path dir ` {e \<in> set es. de_type e = Some FtDir}" for subs es
    using that(2)
  proof (induction subs)
    case (Cons d subs)
    then show ?case using "1.IH" [OF that(1)] by auto
  qed (use "1.prems" in simp)
  show ?case unfolding check_returns_def
  proof (intro allI impI)
    fix out :: "string list" assume out: "length out \<le> 2000"
    show "\<exists>r. walk_for_java_files fs (dir # rest) out = Some r \<and> length r \<le> 2000"
    proof (cases "fs_read_dir fs dir")
      case None
      then show ?thesis using "1.prems" out by (simp add: walk_for_java_files.simps [of fs "dir # rest"] check_returns_def)
    next
      case (Some es)
      then show ?thesis using check_entries_cases [OF out, where dir = dir and es = es and stack = rest] subs [OF Some] out
        by (auto simp: walk_for_java_files.simps [of fs "dir # rest"] check_returns_def split: sum.splits)
    qed
  qed
qed

lemma check_source_files_returns:
  assumes "list_all (finite_tree fs) roots"
  shows "\<exists>files. check_source_files fs roots = Some files \<and> length files \<le> 2000"
proof -
  have "\<exists>files. check_roots fs roots seen out = Some files \<and> length files \<le> 2000" if "length out \<le> 2000" for seen out
    using assms that
  proof (induction roots arbitrary: seen out)
    case (Cons root roots)
    have "check_returns fs [root]" using Cons.prems by (intro check_returns_Cons check_returns_Nil) simp
    then obtain r where "walk_for_java_files fs [root] out = Some r" "length r \<le> 2000" using Cons.prems by (auto simp: check_returns_def)
    then show ?case using Cons by simp
  qed simp
  then show ?thesis by (simp add: check_source_files_def)
qed

lemma RootDir_first: "RootDir \<notin> set (tl (components p))"
proof -
  have "RootDir \<notin> set (segments_of p)" by (auto simp: segments_of_def component_def)
  then show ?thesis by (cases "segments_of p") (auto simp: components_def)
qed

lemma module_root_loop_find:
  "RootDir \<notin> set mid \<Longrightarrow>
   module_root_loop fs root (components root @ mid) =
     map_option show_path (find (\<lambda>cs. has_module_marker fs (show_path cs)) (map (\<lambda>n. components root @ take n mid) (rev [0..<Suc (length mid)])))"
proof (induction mid rule: rev_induct)
  case Nil
  then show ?case by (simp add: module_root_loop.simps)
next
  case (snoc x xs)
  have "map (\<lambda>n. components root @ take n (xs @ [x])) (rev [0..<Suc (length xs)]) = map (\<lambda>n. components root @ take n xs) (rev [0..<Suc (length xs)])"
    by simp
  then have cands: "map (\<lambda>n. components root @ take n (xs @ [x])) (rev [0..<Suc (length (xs @ [x]))])
      = (components root @ xs @ [x]) # map (\<lambda>n. components root @ take n xs) (rev [0..<Suc (length xs)])"
    by simp
  have "module_root_loop fs root (components root @ xs @ [x]) =
      (if has_module_marker fs (show_path (components root @ xs @ [x])) then Some (show_path (components root @ xs @ [x]))
       else module_root_loop fs root (components root @ xs))"
    using snoc.prems by (subst module_root_loop.simps) (auto simp: butlast_append)
  then show ?case unfolding cands using snoc by (simp del: upt_Suc)
qed

text \<open>
  The module of a saved file inside the workspace is its nearest ancestor with a build file, the workspace root included
  and nothing above it considered.
\<close>

theorem module_root_nearest:
  assumes "components path = components root @ rest" "rest \<noteq> []" "components root \<noteq> []"
  shows "nearest_module_root fs path root =
    map_option show_path (find (\<lambda>cs. has_module_marker fs (show_path cs))
      (map (\<lambda>n. components root @ take n rest) (rev [0..<length rest])))"
proof -
  have last: "last (components path) \<noteq> RootDir" and mid: "RootDir \<notin> set rest"
    using RootDir_first [of path] assms by (auto simp: tl_append split: list.splits dest: last_in_set)
  then have "nearest_module_root fs path root = module_root_loop fs root (components root @ butlast rest)"
    using assms by (cases "components root") (auto simp: nearest_module_root_def parent_def butlast_append)
  moreover have "Suc (length (butlast rest)) = length rest" using assms(2) by simp
  moreover have "map (\<lambda>n. components root @ take n (butlast rest)) (rev [0..<length rest]) = map (\<lambda>n. components root @ take n rest) (rev [0..<length rest])"
    using assms(2) by (auto simp: take_butlast)
  ultimately show ?thesis using module_root_loop_find [of "butlast rest" fs root] mid by (metis in_set_butlastD)
qed

text \<open>For a file reached through a link from outside, the walk passes the workspace by, although the file is inside it.\<close>

definition linked_fs :: fs where
  "linked_fs = sample_tree\<lparr>fs_canonicalize := (\<lambda>p. if p = ''/link/A.java'' then Some ''/ws/A.java'' else None), fs_is_file := (\<lambda>p. p = ''/pom.xml'')\<rparr>"

lemma module_root_outside_workspace:
  "canonical_within_workspace linked_fs ''/link/A.java'' ''/ws'' = Some ''/ws/A.java'' \<and> nearest_module_root linked_fs ''/link/A.java'' ''/ws'' = Some ''/''"
  by (simp add: canonical_within_workspace_def nearest_module_root_def linked_fs_def parent_def components_def is_absolute_def segments_of_def
    starts_with_def component_def path_starts_with_def module_root_loop.simps has_module_marker_def MODULE_MARKERS_def show_path_def path_join_def)


lemma canonical_within_workspace_Some:
  "canonical_within_workspace fs f canon = Some c \<longleftrightarrow> fs_canonicalize fs f = Some c \<and> path_starts_with canon c"
  by (auto simp: canonical_within_workspace_def split: option.splits)

section \<open>The plan of a check over modules\<close>

definition plan_ok :: "fs \<Rightarrow> (string \<Rightarrow> string option) \<Rightarrow> string \<Rightarrow> string set \<Rightarrow> check_plan \<Rightarrow> bool" where
  "plan_ok fs file_path root uris plan \<longleftrightarrow>
     (\<forall>m \<in> set (cp_modules plan). \<exists>u \<in> uris. \<exists>f. parse_java_file_uri file_path u = Some f \<and> module_of fs root f = Some m)
     \<and> (\<forall>r \<in> set (cp_explicit plan). \<exists>m \<in> set (cp_modules plan). path_starts_with m r \<or> r \<in> set (conventional_source_roots fs m))"

lemma plan_ok_mono: "plan_ok fs file_path root us plan \<Longrightarrow> us \<subseteq> us' \<Longrightarrow> plan_ok fs file_path root us' plan"
  unfolding plan_ok_def by blast

lemma add_module_ok:
  assumes "plan_ok fs file_path root us plan" "u \<in> us" "parse_java_file_uri file_path u = Some f" "module_of fs root f = Some m"
  shows "plan_ok fs file_path root us (add_module fs inferred m plan)"
proof -
  have "\<exists>m' \<in> set (cp_modules plan). \<forall>r. path_starts_with m r \<longrightarrow> path_starts_with m' r" if "list_ex (same_path m) (cp_modules plan)"
    using that by (auto simp: list_ex_iff path_starts_with_def same_path_def)
  then show ?thesis
    using assms by (cases "list_ex (same_path m) (cp_modules plan)"; cases inferred) (auto simp: plan_ok_def add_module_def Let_def)
qed

lemma resolve_documents_ok:
  "resolve_documents fs file_path infer root canon us plan = Inr plan' \<Longrightarrow> plan_ok fs file_path root done plan \<Longrightarrow>
   plan_ok fs file_path root (done \<union> set us) plan'
   \<and> (\<forall>u \<in> set us. \<exists>f c. parse_java_file_uri file_path u = Some f \<and> canonical_within_workspace fs f canon = Some c)"
proof (induction us arbitrary: plan "done")
  case (Cons u us)
  then obtain f c where f: "parse_java_file_uri file_path u = Some f" "canonical_within_workspace fs f canon = Some c"
    by (auto split: option.splits if_splits)
  define plan1 where "plan1 = (case module_of fs root f of
      None \<Rightarrow> if cp_unsupported plan = None then plan\<lparr>cp_unsupported := Some u\<rparr> else plan
    | Some m \<Rightarrow> add_module fs (infer u) m plan)"
  have "resolve_documents fs file_path infer root canon us plan1 = Inr plan'"
    using Cons.prems(1) f by (auto simp: plan1_def split: option.splits)
  moreover have ok: "plan_ok fs file_path root (insert u done) plan" using plan_ok_mono [OF Cons.prems(2)] by blast
  have "plan_ok fs file_path root (insert u done) plan1"
  proof (cases "module_of fs root f")
    case None
    then show ?thesis using ok by (simp add: plan1_def plan_ok_def)
  next
    case (Some m)
    then show ?thesis using add_module_ok [OF ok _ f(1) Some] by (simp add: plan1_def)
  qed
  ultimately have "plan_ok fs file_path root (insert u done \<union> set us) plan'
    \<and> (\<forall>u \<in> set us. \<exists>f c. parse_java_file_uri file_path u = Some f \<and> canonical_within_workspace fs f canon = Some c)"
    by (rule Cons.IH)
  then show ?case using f by auto
qed simp


section \<open>A run ends\<close>

lemma poll_returns:
  assumes "clock_ok (ck_os os)"
  shows "start \<le> os_now (ck_os os) w \<Longrightarrow> \<exists>r. poll_until_exit_or_timeout os start timeout w = Some r"
proof (induction "start + timeout - os_now (ck_os os) w" arbitrary: w rule: less_induct)
  case less
  obtain r w1 where t: "os_try_wait (ck_os os) w = (r, w1)" by (cases "os_try_wait (ck_os os) w")
  then have now1: "os_now (ck_os os) w \<le> os_now (ck_os os) w1" using assms by (metis clock_ok_def snd_conv)
  let ?w2 = "os_sleep (ck_os os) CHECK_POLL_INTERVAL w1"
  have now2: "os_now (ck_os os) w1 + 50 \<le> os_now (ck_os os) ?w2" using assms unfolding clock_ok_def CHECK_POLL_INTERVAL_def by blast
  have "\<exists>r. poll_until_exit_or_timeout os start timeout ?w2 = Some r" if "\<not> timeout \<le> os_now (ck_os os) w1 - start"
    using that less.prems now1 now2 by (intro less.hyps) auto
  then show ?case using t by (subst poll_until_exit_or_timeout.simps) (cases r; auto)
qed

lemma drain_capped_bounded: "length buf \<le> OUTPUT_CAP \<Longrightarrow> length (drain_capped rs buf) \<le> OUTPUT_CAP"
  by (induction rs buf rule: drain_capped.induct) auto

lemma run_in_scratch_returns:
  assumes "clock_ok (ck_os os)"
  shows "\<exists>result leaked w'. run_in_scratch os config scratch w = Some (result, leaked, w') \<and> leaked \<le> 2
    \<and> (0 < leaked \<longrightarrow> result = TimedOut \<or> result = Cancelled)
    \<and> (\<forall>stderr. result = Completed stderr \<longrightarrow> (\<exists>bytes. stderr = from_utf8_lossy bytes \<and> length bytes \<le> OUTPUT_CAP))"
proof -
  have "\<exists>p w'. poll_until_exit_or_timeout os (os_now (ck_os os) w) timeout w = Some (p, w')" for w timeout
    using poll_returns [OF assms, of "os_now (ck_os os) w" w timeout] by auto
  moreover have "\<exists>bytes. from_utf8_lossy (drain_capped reads []) = from_utf8_lossy bytes \<and> length bytes \<le> OUTPUT_CAP" for reads
    using drain_capped_bounded [of "[]" reads] by auto
  ultimately show ?thesis
    by (auto simp: run_in_scratch_def Let_def split: prod.splits sum.splits option.splits poll_result.splits) (metis option.distinct(1))+
qed



section \<open>Leaks are bounded\<close>

text \<open>Runs do not overlap (the command refuses a second one); a thread left behind may finish at any time.\<close>

inductive leak_step :: "'w check_os \<Rightarrow> nat \<Rightarrow> bool list \<Rightarrow> bool list \<Rightarrow> bool" for os cap where
  ran: "run_check os cap config flags w = Some (result, flags', w') \<Longrightarrow> leak_step os cap flags flags'"
| finished: "i < length flags \<Longrightarrow> leak_step os cap flags (flags[i := True])"

inductive leak_reachable :: "'w check_os \<Rightarrow> nat \<Rightarrow> bool list \<Rightarrow> bool" for os cap where
  init: "leak_reachable os cap []"
| step: "leak_reachable os cap flags \<Longrightarrow> leak_step os cap flags flags' \<Longrightarrow> leak_reachable os cap flags'"

lemma live_count_finished: "live_count (flags[i := True]) \<le> live_count flags"
proof (induction flags arbitrary: i)
  case (Cons x xs)
  then show ?case by (cases i) (auto simp: live_count_def swept_def le_SucI)
qed simp

lemma run_in_scratch_leaks: "run_in_scratch os config scratch w = Some (result, leaked, w') \<Longrightarrow> leaked \<le> 2"
  by (auto simp: run_in_scratch_def Let_def split: prod.splits sum.splits option.splits poll_result.splits)

lemma run_check_leaks:
  assumes "run_check os cap config flags w = Some (result, flags', w')"
  shows "live_count flags' \<le> live_count flags \<or> live_count flags < cap \<and> live_count flags' \<le> live_count flags + 2"
  using assms
  by (auto simp: run_check_def live_count_def swept_def split: if_splits prod.splits option.splits dest!: run_in_scratch_leaks)

text \<open>
  C20. However many runs time out, the threads still blocked are never more than the limit plus one: a run is refused at the
  limit, and leaves at most two behind.
\<close>

theorem leaked_readers_bounded:
  assumes "leak_reachable os MAX_LEAKED_READERS flags"
  shows "live_count flags \<le> 9"
  using assms
proof (induction rule: leak_reachable.induct)
  case init
  show ?case by (simp add: live_count_def swept_def)
next
  case (step flags flags')
  from step.hyps(2) show ?case
  proof cases
    case ran
    then show ?thesis using run_check_leaks step.IH by (fastforce simp: MAX_LEAKED_READERS_def)
  next
    case (finished i)
    then show ?thesis using live_count_finished [of flags i] step.IH by simp
  qed
qed

section \<open>The command line\<close>

lemma check_args_shape:
  "check_args os config scratch = Inr args \<Longrightarrow>
   \<exists>options. args = [''-proc:none'', ''-Xmaxerrs'', ''200'', ''-d'', scratch] @ options @ [''@'' @ path_join scratch ''sources.argfile'']"
  by (auto simp: check_args_def split: sum.splits)

lemma joined_option_spawn: "joined_option (os\<lparr>os_spawn := f\<rparr>) = joined_option os"
  by (simp add: joined_option_def fun_eq_iff split: sum.split)

lemma check_args_spawn: "check_args (os\<lparr>os_spawn := f\<rparr>) config scratch = check_args os config scratch"
  by (simp add: check_args_def joined_option_spawn split: sum.split)

lemma poll_spawn_Some:
  assumes "poll_until_exit_or_timeout os1 start timeout w = Some r"
    "os1 = os\<lparr>ck_os := (ck_os os)\<lparr>os_spawn := spawn1\<rparr>\<rparr>" "os2 = os\<lparr>ck_os := (ck_os os)\<lparr>os_spawn := spawn2\<rparr>\<rparr>"
  shows "poll_until_exit_or_timeout os2 start timeout w = Some r"
proof -
  let ?P = "\<lambda>os' start timeout w r. os' = os1 \<longrightarrow> poll_until_exit_or_timeout os2 start timeout w = Some r"
  have same: "ck_slot os2 = ck_slot os1" "ck_clear os2 = ck_clear os1" "os_try_wait (ck_os os2) = os_try_wait (ck_os os1)"
    "os_now (ck_os os2) = os_now (ck_os os1)" "os_kill_and_wait (ck_os os2) = os_kill_and_wait (ck_os os1)"
    "os_sleep (ck_os os2) = os_sleep (ck_os os1)"
    by (simp_all add: assms(2,3))
  have "?P os1 start timeout w r"
  proof (rule poll_until_exit_or_timeout.raw_induct [where P = ?P, OF _ assms(1)])
    fix poll os' start timeout w r
    assume IH: "\<And>os' start timeout w r. poll os' start timeout w = Some r \<Longrightarrow> ?P os' start timeout w r"
    assume run: "(if \<not> ck_slot os' w then Some (PollCancelled, w)
      else case os_try_wait (ck_os os') w of
          (StillRunning, w) \<Rightarrow>
            if timeout \<le> os_now (ck_os os') w - start
            then Some (PollTimedOut, ck_clear os' (if ck_slot os' w then os_kill_and_wait (ck_os os') w else w))
            else poll os' start timeout (os_sleep (ck_os os') CHECK_POLL_INTERVAL w)
        | (_, w) \<Rightarrow> Some (PollExited, w)) = Some r"
    have again: "poll os1 start timeout w = Some r \<Longrightarrow> poll_until_exit_or_timeout os2 start timeout w = Some r" for start timeout w r
      using IH by blast
    show "?P os' start timeout w r"
    proof
      assume "os' = os1"
      note run = run [unfolded this]
      show "poll_until_exit_or_timeout os2 start timeout w = Some r"
        using run by (subst poll_until_exit_or_timeout.simps) (auto simp: same intro: again split: if_splits prod.splits wait_result.splits)
    qed
  qed
  then show ?thesis by simp
qed

lemma poll_spawn:
  "poll_until_exit_or_timeout (os\<lparr>ck_os := (ck_os os)\<lparr>os_spawn := spawn\<rparr>\<rparr>) start timeout w = poll_until_exit_or_timeout os start timeout w"
proof -
  have os: "os = os\<lparr>ck_os := (ck_os os)\<lparr>os_spawn := os_spawn (ck_os os)\<rparr>\<rparr>" by simp
  let ?os = "os\<lparr>ck_os := (ck_os os)\<lparr>os_spawn := spawn\<rparr>\<rparr>"
  show ?thesis
  proof (cases "poll_until_exit_or_timeout os start timeout w")
    case None
    then show ?thesis using poll_spawn_Some [OF _ refl os, of spawn start timeout w]
      by (cases "poll_until_exit_or_timeout ?os start timeout w") auto
  next
    case (Some r)
    then show ?thesis using poll_spawn_Some [OF Some os refl] by simp
  qed
qed

text \<open>
  C18. Annotation processing is off in every process a check starts: what starting a process with any other command line would do
  has no influence on a run.
\<close>

theorem annotation_processing_off:
  assumes "\<And>prog args w. args \<noteq> [] \<Longrightarrow> hd args = ''-proc:none'' \<Longrightarrow> spawn prog args w = os_spawn (ck_os os) prog args w"
  shows "run_check (os\<lparr>ck_os := (ck_os os)\<lparr>os_spawn := spawn\<rparr>\<rparr>) cap config flags w = run_check os cap config flags w"
proof -
  let ?os = "os\<lparr>ck_os := (ck_os os)\<lparr>os_spawn := spawn\<rparr>\<rparr>"
  have scratch: "check_try_scratch ?os ks w = check_try_scratch os ks w" for ks w
    by (induction ks arbitrary: w) (simp_all add: check_scratch_name_def Let_def split: prod.split bool.split)
  have "spawn prog args w = os_spawn (ck_os os) prog args w" if "check_args (ck_os os) config dir = Inr args" for prog args w dir
    using check_args_shape [OF that] assms by auto
  then have "run_in_scratch ?os config dir w = run_in_scratch os config dir w" for dir w
    by (auto simp: run_in_scratch_def check_args_spawn write_argfile_def poll_spawn Let_def split: prod.split sum.split option.split poll_result.split)
  then show ?thesis by (simp add: run_check_def check_fresh_scratch_dir_def scratch split: prod.split option.split)
qed


section \<open>Inputs on which the theorems are applied\<close>

definition sample_check_os :: "nat check_os" where
  "sample_check_os = \<lparr>ck_os = sample_os, ck_slot = (\<lambda>_. True), ck_fill = (\<lambda>w. w), ck_clear = (\<lambda>w. w), ck_nanos = (\<lambda>_. 0)\<rparr>"

definition sample_config :: run_config where
  "sample_config =
     \<lparr>rc_javac_path = ''/j/bin/javac'', rc_source_files = [''/s/p/A.java''], rc_classpath_entries = [], rc_sourcepath_entries = [],
      rc_timeout = 10000, rc_source_level = NoLevel\<rparr>"

lemma sample_clock: "clock_ok (ck_os sample_check_os)"
  by (simp add: clock_ok_def sample_check_os_def sample_os_def)


lemma timed_out_run: "run_check sample_check_os MAX_LEAKED_READERS (sample_config\<lparr>rc_timeout := 0\<rparr>) [] 7 = Some (TimedOut, [False, False], 7)"
proof -
  have "poll_until_exit_or_timeout sample_check_os 7 0 7 = Some (PollTimedOut, 7)"
    by (subst poll_until_exit_or_timeout.simps) (simp add: sample_check_os_def sample_os_def)
  moreover have "check_fresh_scratch_dir sample_check_os 7 = (Some (check_scratch_name sample_check_os 0 7), 7)"
    by (simp add: check_fresh_scratch_dir_def upt_conv_Cons sample_check_os_def sample_os_def)
  moreover have "os_write (ck_os sample_check_os) p c w = (Inr (), w)" "os_spawn (ck_os sample_check_os) p a w = (Inr (), w)"
    "ck_fill sample_check_os w = w" "os_now (ck_os sample_check_os) w = w" "os_remove_dir_all (ck_os sample_check_os) p w = w" for p c a w
    by (simp_all add: sample_check_os_def sample_os_def)
  ultimately show ?thesis
    by (simp add: run_check_def live_count_def swept_def MAX_LEAKED_READERS_def run_in_scratch_def write_argfile_def check_args_def
      joined_option_def sample_config_def numeral_2_eq_2)
qed

theorem leaked_readers_bounded_witness:
  "leak_reachable sample_check_os MAX_LEAKED_READERS [False, False] \<and> live_count [False, False] \<le> 9"
proof -
  have reach: "leak_reachable sample_check_os MAX_LEAKED_READERS [False, False]"
    by (rule leak_reachable.step [OF leak_reachable.init leak_step.ran [OF timed_out_run]])
  then show ?thesis using leaked_readers_bounded [OF reach] by blast
qed

theorem annotation_processing_off_witness:
  "run_check (sample_check_os\<lparr>ck_os := (ck_os sample_check_os)\<lparr>os_spawn := (\<lambda>prog args w. if args \<noteq> [] \<and> hd args = ''-proc:none'' then (Inr (), w) else (Inl ''refused'', w))\<rparr>\<rparr>)
     8 sample_config [] 7 = run_check sample_check_os 8 sample_config [] 7"
  by (rule annotation_processing_off) (simp add: sample_check_os_def sample_os_def)

definition module_fs :: fs where
  "module_fs = sample_tree\<lparr>fs_canonicalize := Some, fs_is_file := (\<lambda>p. p = ''/w/m/pom.xml''), fs_is_dir := (\<lambda>p. p = ''/w/m/src/main/java'')\<rparr>"

lemmas module_fs_eval = module_fs_def components_def is_absolute_def segments_of_def starts_with_def component_def has_module_marker_def
  MODULE_MARKERS_def show_path_def path_join_def

theorem module_root_nearest_witness: "nearest_module_root module_fs ''/w/m/A.java'' ''/w'' = Some ''/w/m''"
  using module_root_nearest [of "''/w/m/A.java''" "''/w''" "[Normal ''m'', Normal ''A.java'']" module_fs]
  by (simp add: module_fs_eval)


end
