(* ===== verification/Structural_Checks.thy ===== *)
theory Structural_Checks
  imports Source_Decls
begin

text \<open>
  \<open>crates/syntax/src/structural.rs\<close>: the purely syntactic checks of a file (file name, package, duplicate types, members and
  parameters, modifiers) and the one pass over the parse tree that makes them, up to a limit.
\<close>

section \<open>The checks\<close>

type_synonym report = "range \<times> string"

text \<open>The nodes a stack walk from the root visits, in its order, each with its ancestors.\<close>

function visit_located :: "located list \<Rightarrow> located list" where
  "visit_located [] = []"
| "visit_located (l # stack) = l # visit_located (rev (kids l) @ stack)"
  by pat_completeness auto
termination
proof (relation "measure (\<lambda>stack. sum_list (map (size \<circ> fst) stack))", goal_cases)
  case (2 l stack)
  have "map (size \<circ> fst) (kids l) = map size (children (fst l))" by (simp add: kids_def)
  then show ?case using sum_size_children [of "fst l"] by (simp add: rev_map [symmetric])
qed simp

definition damaged :: "node \<Rightarrow> bool" where
  "damaged n = nd_has_error (data_of n)"

text \<open>The loop over \<open>HashSet::insert\<close> that every check for repetitions has: the elements whose key was there before.\<close>

fun repeats :: "('a \<Rightarrow> 'k option) \<Rightarrow> 'k set \<Rightarrow> 'a list \<Rightarrow> ('a \<times> 'k) list" where
  "repeats key seen [] = []"
| "repeats key seen (x # xs) =
     (case key x of
        None \<Rightarrow> repeats key seen xs
      | Some k \<Rightarrow> if k \<in> seen then (x, k) # repeats key seen xs else repeats key (insert k seen) xs)"

definition named_report :: "line_index \<Rightarrow> node \<Rightarrow> string \<Rightarrow> report list" where
  "named_report ix decl message = (case child_by_field ''name'' decl of Some name \<Rightarrow> [(range_of ix name, message)] | None \<Rightarrow> [])"

fun enclosing_type_loop :: "node list \<Rightarrow> (node \<times> type_kind) option" where
  "enclosing_type_loop [] = None"
| "enclosing_type_loop (p # ps) =
     (if kind p = ''class_body'' \<and> (case ps of g # _ \<Rightarrow> kind g = ''object_creation_expression'' | [] \<Rightarrow> False) then Some (p, ClassType)
      else case from_kind (kind p) of Some k \<Rightarrow> Some (p, k) | None \<Rightarrow> enclosing_type_loop ps)"

definition enclosing_type :: "located \<Rightarrow> (node \<times> type_kind) option" where
  "enclosing_type l = enclosing_type_loop (snd l)"

definition check_repeated_modifiers :: "line_index \<Rightarrow> node \<Rightarrow> report list" where
  "check_repeated_modifiers ix decl =
     (if damaged decl then []
      else case modifiers_node decl of
          None \<Rightarrow> []
        | Some mods \<Rightarrow>
            map (\<lambda>(tok, _). (range_of ix tok, ''repeated modifier''))
              (repeats (\<lambda>tok. if nd_named (data_of tok) then None else Some (kind tok)) {} (children mods)))"

fun position_in :: "string \<Rightarrow> string list \<Rightarrow> nat option" where
  "position_in k [] = None"
| "position_in k (x # xs) = (if x = k then Some 0 else map_option Suc (position_in k xs))"

definition modifier_tokens :: "node \<Rightarrow> string list" where
  "modifier_tokens mods = map kind (filter (\<lambda>c. \<not> nd_named (data_of c)) (children mods))"

definition check_modifier_combo :: "line_index \<Rightarrow> node \<Rightarrow> string \<Rightarrow> string \<Rightarrow> report list" where
  "check_modifier_combo ix decl a b =
     (if damaged decl then []
      else case modifiers_node decl of
          None \<Rightarrow> []
        | Some mods \<Rightarrow>
            (let keywords = modifier_tokens mods in
             case (position_in a keywords, position_in b keywords) of
               (Some pa, Some pb) \<Rightarrow>
                 (let (first, second) = (if pa < pb then (a, b) else (b, a)) in
                  named_report ix decl (''illegal combination of modifiers: '' @ first @ '' and '' @ second))
             | _ \<Rightarrow> []))"

definition check_method_body_shape :: "line_index \<Rightarrow> located \<Rightarrow> report list" where
  "check_method_body_shape ix l =
     (let method = fst l in
      if damaged method then []
      else case child_by_field ''body'' method of
          None \<Rightarrow> []
        | Some body \<Rightarrow>
            (case enclosing_type l of
               None \<Rightarrow> []
             | Some (enclosing, k) \<Rightarrow>
                 if damaged enclosing then []
                 else if k = InterfaceType then
                   (if has_modifier ''default'' method \<or> has_modifier ''static'' method \<or> has_modifier ''private'' method then []
                    else [(range_of ix body, ''interface abstract methods cannot have body'')])
                 else if has_modifier ''abstract'' method then named_report ix method ''abstract methods cannot have a body''
                 else []))"

fun member_owner_keyword :: "type_kind \<Rightarrow> string" where
  "member_owner_keyword ClassType = ''class''"
| "member_owner_keyword AnnotationType = ''class''"
| "member_owner_keyword InterfaceType = ''interface''"
| "member_owner_keyword EnumType = ''enum''"
| "member_owner_keyword RecordType = ''record''"

fun plain_types :: "node list \<Rightarrow> string list option" where
  "plain_types [] = Some []"
| "plain_types (p # ps) =
     (if kind p \<noteq> ''formal_parameter'' then None
      else case child_by_field ''type'' p of None \<Rightarrow> None | Some ty \<Rightarrow> map_option ((#) (node_text ty)) (plain_types ps))"

definition param_types_text :: "node \<Rightarrow> string list option" where
  "param_types_text decl =
     (case child_by_field ''parameters'' decl of
        None \<Rightarrow> None
      | Some params \<Rightarrow> if damaged params then None else plain_types (named_children params))"

definition is_declared_field :: "source_member \<Rightarrow> bool" where
  "is_declared_field m \<longleftrightarrow> sm_kind m = FieldMember \<and> kind (fst (sm_node m)) = ''variable_declarator''"

definition field_key :: "source_member \<Rightarrow> string option" where
  "field_key m =
     (let n = fst (sm_node m); field_ok = (case up (sm_node m) of Some p \<Rightarrow> \<not> damaged (fst p) | None \<Rightarrow> True) in
      if damaged n \<or> \<not> field_ok \<or> child_by_field ''name'' n = None then None else Some (sm_name m))"

definition is_declared_method :: "source_member \<Rightarrow> bool" where
  "is_declared_method m \<longleftrightarrow> sm_kind m = MethodMember \<and> kind (fst (sm_node m)) = ''method_declaration''"

definition method_key :: "source_member \<Rightarrow> (string \<times> string list) option" where
  "method_key m =
     (let n = fst (sm_node m) in if damaged n then None else map_option (Pair (sm_name m)) (param_types_text n))"

definition check_duplicate_members :: "line_index \<Rightarrow> located \<Rightarrow> report list" where
  "check_duplicate_members ix l =
     (case from_node 0 None l of
        None \<Rightarrow> []
      | Some decl \<Rightarrow>
          (let owner = '' is already defined in '' @ member_owner_keyword (td_kind decl) @ '' '' @ td_name decl;
               members = own_members decl
           in concat (map (\<lambda>(m, name). named_report ix (fst (sm_node m)) (''variable '' @ name @ owner))
                (repeats field_key {} (filter is_declared_field members)))
              @ concat (map (\<lambda>(m, name, types). named_report ix (fst (sm_node m)) (''method '' @ name @ ''('' @ join_with '','' types @ '')'' @ owner))
                (repeats method_key {} (filter is_declared_method members)))))"

definition param_key :: "node \<Rightarrow> string option" where
  "param_key p =
     (if damaged p \<or> kind p \<noteq> ''formal_parameter'' \<and> kind p \<noteq> ''spread_parameter'' then None
      else map_option node_text (child_by_field ''name'' p))"

definition check_duplicate_params :: "line_index \<Rightarrow> node \<Rightarrow> string \<Rightarrow> report list" where
  "check_duplicate_params ix decl owner_label =
     (case child_by_field ''parameters'' decl of
        None \<Rightarrow> []
      | Some params \<Rightarrow>
          if damaged params then []
          else concat (map (\<lambda>(p, name). named_report ix p (''variable '' @ name @ '' is already defined in '' @ owner_label))
            (repeats param_key {} (named_children params))))"

fun filename_keyword :: "type_kind \<Rightarrow> string" where
  "filename_keyword ClassType = ''class''"
| "filename_keyword RecordType = ''class''"
| "filename_keyword InterfaceType = ''interface''"
| "filename_keyword AnnotationType = ''interface''"
| "filename_keyword EnumType = ''enum''"

definition check_filename_of :: "line_index \<Rightarrow> string \<Rightarrow> node \<Rightarrow> report list" where
  "check_filename_of ix stem ty =
     (if damaged ty then []
      else case from_kind (kind ty) of
          None \<Rightarrow> []
        | Some k \<Rightarrow>
            if \<not> has_modifier ''public'' ty then []
            else case child_by_field ''name'' ty of
                None \<Rightarrow> []
              | Some name_node \<Rightarrow>
                  (let name = node_text name_node in
                   if name = stem then []
                   else [(range_of ix name_node, filename_keyword k @ '' '' @ name @ '' is public, should be declared in a file named '' @ name @ ''.java'')]))"

definition check_filename :: "line_index \<Rightarrow> node list \<Rightarrow> string option \<Rightarrow> report list" where
  "check_filename ix top_level filename =
     (case Option.bind filename (strip_suffix ''.java'') of
        None \<Rightarrow> []
      | Some stem \<Rightarrow> concat (map (check_filename_of ix stem) top_level))"

definition top_level_key :: "node \<Rightarrow> string option" where
  "top_level_key ty = (if damaged ty then None else map_option node_text (child_by_field ''name'' ty))"

definition check_duplicate_top_level :: "line_index \<Rightarrow> node list \<Rightarrow> report list" where
  "check_duplicate_top_level ix top_level =
     concat (map (\<lambda>(ty, name). named_report ix ty (''duplicate class: '' @ name)) (repeats top_level_key {} top_level))"

definition package_path :: "node \<Rightarrow> string option" where
  "package_path decl = map_option node_text (find (\<lambda>c. kind c = ''identifier'' \<or> kind c = ''scoped_identifier'') (children decl))"

definition package_message :: "string \<Rightarrow> string \<Rightarrow> string" where
  "package_message actual expected =
     ''The declared package '' @ [CHR 0x22] @ actual @ [CHR 0x22] @ '' does not match the expected package '' @ [CHR 0x22] @ expected @ [CHR 0x22]"

definition check_package :: "line_index \<Rightarrow> node \<Rightarrow> string option \<Rightarrow> report list" where
  "check_package ix root expected_package =
     (case expected_package of
        None \<Rightarrow> []
      | Some expected \<Rightarrow>
          (case filter (\<lambda>c. kind c = ''package_declaration'') (children root) of
             [] \<Rightarrow>
               if list_ex (\<lambda>c. from_kind (kind c) \<noteq> None) (named_children root) \<and> expected \<noteq> [] \<and> \<not> damaged root
               then [(range_of ix (case children root of c # _ \<Rightarrow> c | [] \<Rightarrow> root), package_message [] expected)] else []
           | [decl] \<Rightarrow>
               if damaged decl then []
               else (case package_path decl of
                       None \<Rightarrow> []
                     | Some actual \<Rightarrow> if actual \<noteq> expected then [(range_of ix decl, package_message actual expected)] else [])
           | _ \<Rightarrow> []))"

section \<open>The pass\<close>

definition check_node :: "line_index \<Rightarrow> located \<Rightarrow> report list" where
  "check_node ix l =
     (let node = fst l; k = kind node in
      if from_kind k \<noteq> None then
        check_repeated_modifiers ix node
        @ (if k = ''class_declaration'' then check_modifier_combo ix node ''abstract'' ''final'' else [])
        @ (if k = ''class_declaration'' \<or> k = ''interface_declaration'' then check_modifier_combo ix node ''sealed'' ''non-sealed'' else [])
        @ check_duplicate_members ix l
      else if k = ''method_declaration'' then
        check_repeated_modifiers ix node @ check_modifier_combo ix node ''abstract'' ''final''
        @ check_modifier_combo ix node ''abstract'' ''private'' @ check_method_body_shape ix l
        @ (if damaged node then []
           else case child_by_field ''name'' node of
               Some name \<Rightarrow> check_duplicate_params ix node (''method '' @ node_text name)
             | None \<Rightarrow> [])
      else if k = ''constructor_declaration'' then
        check_repeated_modifiers ix node
        @ (if damaged node then []
           else case enclosing_type l of
               Some (enclosing, _) \<Rightarrow>
                 if damaged enclosing then []
                 else (case child_by_field ''name'' enclosing of
                         Some name \<Rightarrow> check_duplicate_params ix node (''constructor '' @ node_text name)
                       | None \<Rightarrow> [])
             | None \<Rightarrow> [])
      else if k = ''field_declaration'' \<or> k = ''constant_declaration'' then check_repeated_modifiers ix node
      else [])"

function structural_loop :: "line_index \<Rightarrow> located list \<Rightarrow> report list \<Rightarrow> report list" where
  "structural_loop ix [] out = out"
| "structural_loop ix (l # stack) out =
     (if MAX_DIAGNOSTICS \<le> length out then out else structural_loop ix (rev (kids l) @ stack) (out @ check_node ix l))"
  by pat_completeness auto
termination
proof (relation "measure (\<lambda>(_, stack, _). sum_list (map (size \<circ> fst) stack))", goal_cases)
  case (2 ix l stack out)
  have "map (size \<circ> fst) (kids l) = map size (children (fst l))" by (simp add: kids_def)
  then show ?case using sum_size_children [of "fst l"] by (simp add: rev_map [symmetric])
qed simp

definition structural_diagnostics :: "line_index \<Rightarrow> node \<Rightarrow> string option \<Rightarrow> string option \<Rightarrow> report list" where
  "structural_diagnostics ix root filename expected_package =
     (let top_level = filter (\<lambda>n. from_kind (kind n) \<noteq> None) (named_children root);
          out = check_filename ix top_level filename @ check_duplicate_top_level ix top_level @ check_package ix root expected_package
      in take MAX_DIAGNOSTICS (structural_loop ix [(root, [])] out))"

section \<open>The pass is exact\<close>

lemma structural_loop_take:
  "take MAX_DIAGNOSTICS (structural_loop ix stack out) = take MAX_DIAGNOSTICS (out @ concat (map (check_node ix) (visit_located stack)))"
  by (induction ix stack out rule: structural_loop.induct) (simp_all add: )

text \<open>
  One pass with a limit reports what the checks say: the result is the first hundred reports of the file checks followed
  by those of every node of the tree, in the order of the walk.
\<close>

theorem structural_diagnostics_exact:
  "structural_diagnostics ix root filename expected =
     (let top_level = filter (\<lambda>n. from_kind (kind n) \<noteq> None) (named_children root) in
      take 100 (check_filename ix top_level filename @ check_duplicate_top_level ix top_level @ check_package ix root expected
        @ concat (map (check_node ix) (visit_located [(root, [])]))))"
  by (simp add: structural_diagnostics_def Let_def structural_loop_take) (simp add: MAX_DIAGNOSTICS_def)

section \<open>Repetitions\<close>

lemma repeats_iff:
  "(x, k) \<in> set (repeats key seen xs) \<longleftrightarrow>
     (\<exists>i < length xs. xs ! i = x \<and> key x = Some k \<and> (k \<in> seen \<or> (\<exists>j < i. key (xs ! j) = Some k)))"
proof (induction xs arbitrary: seen)
  case (Cons y ys)
  show ?case
  proof (cases "key y")
    case None
    then show ?thesis using Cons.IH [of seen] by (auto simp: Ex_less_Suc2)
  next
    case (Some k')
    then show ?thesis using Cons.IH [of seen] Cons.IH [of "insert k' seen"] by (auto simp: Ex_less_Suc2)
  qed
qed simp

lemma named_report_iff: "r \<in> set (named_report ix decl message) \<longleftrightarrow> (\<exists>name. child_by_field ''name'' decl = Some name \<and> r = (range_of ix name, message))"
  by (cases "child_by_field ''name'' decl") (auto simp: named_report_def)

text \<open>Element \<open>i\<close> repeats the key \<open>k\<close> of an earlier one.\<close>

definition repeated_at :: "('a \<Rightarrow> 'k option) \<Rightarrow> 'a list \<Rightarrow> nat \<Rightarrow> 'k \<Rightarrow> bool" where
  "repeated_at key xs i k \<longleftrightarrow> i < length xs \<and> key (xs ! i) = Some k \<and> (\<exists>j < i. key (xs ! j) = Some k)"

lemma in_repeats: "(x, k) \<in> set (repeats key {} xs) \<longleftrightarrow> (\<exists>i. repeated_at key xs i k \<and> xs ! i = x)"
  by (auto simp: repeats_iff repeated_at_def)


lemma undamaged_sample [simp]: "\<not> damaged (sample_node k f t cs)"
  by (simp add: damaged_def sample_node_def)

definition spread_method :: node where
  "spread_method =
     sample_node ''method_declaration'' None []
       [sample_node ''identifier'' (Some ''name'') ''m'' [],
        sample_node ''formal_parameters'' (Some ''parameters'') []
          [sample_node ''formal_parameter'' None [] [sample_node ''integral_type'' (Some ''type'') ''int'' [], sample_node ''identifier'' (Some ''name'') ''a'' []],
           sample_node ''spread_parameter'' None []
             [sample_node ''integral_type'' None ''int'' [], sample_node ''variable_declarator'' None [] [sample_node ''identifier'' (Some ''name'') ''a'' []]]]]"

text \<open>The name of a variable-arity parameter is on its declarator, where this check does not look.\<close>

lemma spread_parameter_not_compared: "check_duplicate_params ix spread_method label = []"
  by (simp add: check_duplicate_params_def spread_method_def param_key_def)

definition twice_declared :: located where
  "twice_declared =
     (sample_node ''class_declaration'' None []
       [sample_node ''identifier'' (Some ''name'') ''C'' [],
        sample_node ''class_body'' None [] (replicate 2 (sample_node ''field_declaration'' None []
          [sample_node ''variable_declarator'' None [] [sample_node ''identifier'' (Some ''name'') ''x'' []]]))], [])"


end
