(* ===== verification/Workspace_Index.thy ===== *)
theory Workspace_Index
  imports Source_Decls Type_Index Jdk_Locator "HOL-Library.Sublist"
begin

text \<open>
  The index of the types in files of the workspace that are not open: the bounded walk for source files
  (\<open>crates/server/src/fs_scan.rs\<close>), and the entries, rebuilding and queries of \<open>crates/server/src/workspace_index.rs\<close>.
  The walk and its callback meet in the locale \<open>file_visitor\<close>, interpreted on the callback of the index.
\<close>

section \<open>Walking for source files (fs\_scan.rs)\<close>

datatype io_error = NotFound | OtherError

text \<open>The file system as the walk reads it; entries of a directory are file names.\<close>

record scan_fs =
  sc_canonicalize :: "string \<Rightarrow> io_error + string"
  sc_read_dir :: "string \<Rightarrow> io_error + (io_error + string) list"
  sc_is_dir :: "string \<Rightarrow> bool"
  sc_read_header :: "string \<Rightarrow> io_error + bytes"
  sc_mtime :: "string \<Rightarrow> nat option"

definition SKIPPED_DIR_NAMES :: "string list" where
  "SKIPPED_DIR_NAMES = [''target'', ''build'', ''.git'']"

definition is_excluded_component :: "string \<Rightarrow> bool" where
  "is_excluded_component name \<longleftrightarrow> starts_with ''.'' name \<or> name \<in> set SKIPPED_DIR_NAMES"

text \<open>The walk's variables, with the state of the closure \<open>on_file\<close>; the top of the stack is its head.\<close>

record 's file_walk =
  wk_stack :: "string list"
  wk_visited :: "string set"
  wk_io_errors :: bool
  wk_stopped_early :: bool
  wk_state :: 's

definition note_error :: "io_error \<Rightarrow> 's file_walk \<Rightarrow> 's file_walk" where
  "note_error e w = (case e of NotFound \<Rightarrow> w | OtherError \<Rightarrow> w\<lparr>wk_io_errors := True\<rparr>)"

definition in_boundary :: "string option \<Rightarrow> string \<Rightarrow> bool" where
  "in_boundary boundary canon = (case boundary of Some b \<Rightarrow> path_starts_with b canon | None \<Rightarrow> True)"

fun walk_entries :: "scan_fs \<Rightarrow> string option \<Rightarrow> (string \<Rightarrow> 's \<Rightarrow> bool \<times> 's) \<Rightarrow> string \<Rightarrow> (io_error + string) list \<Rightarrow> 's file_walk \<Rightarrow> 's file_walk" where
  "walk_entries fs boundary on_file dir [] w = w"
| "walk_entries fs boundary on_file dir (Inl e # es) w = walk_entries fs boundary on_file dir es (note_error e w)"
| "walk_entries fs boundary on_file dir (Inr name # es) w =
     (let path = path_join dir name in
      if is_excluded_component name then walk_entries fs boundary on_file dir es w
      else case sc_canonicalize fs path of
          Inl e \<Rightarrow> walk_entries fs boundary on_file dir es (note_error e w)
        | Inr canon \<Rightarrow>
            if \<not> in_boundary boundary canon then walk_entries fs boundary on_file dir es w
            else if sc_is_dir fs canon then
              walk_entries fs boundary on_file dir es
                (if canon \<in> wk_visited w then w else w\<lparr>wk_visited := insert canon (wk_visited w), wk_stack := path # wk_stack w\<rparr>)
            else if ends_with ''.java'' name then
              (case on_file path (wk_state w) of
                 (True, st) \<Rightarrow> walk_entries fs boundary on_file dir es (w\<lparr>wk_state := st\<rparr>)
               | (False, st) \<Rightarrow> w\<lparr>wk_state := st, wk_stopped_early := True\<rparr>)
            else walk_entries fs boundary on_file dir es w)"

text \<open>\<open>None\<close>: the walk does not end.\<close>

partial_function (option) file_walk_loop :: "scan_fs \<Rightarrow> string option \<Rightarrow> (string \<Rightarrow> 's \<Rightarrow> bool \<times> 's) \<Rightarrow> 's file_walk \<Rightarrow> 's file_walk option" where
  "file_walk_loop fs boundary on_file w =
     (case wk_stack w of
        [] \<Rightarrow> Some w
      | dir # rest \<Rightarrow>
          (case sc_read_dir fs dir of
             Inl e \<Rightarrow> file_walk_loop fs boundary on_file (note_error e (w\<lparr>wk_stack := rest\<rparr>))
           | Inr es \<Rightarrow>
               (let w' = walk_entries fs boundary on_file dir es (w\<lparr>wk_stack := rest\<rparr>) in
                if wk_stopped_early w' then Some w' else file_walk_loop fs boundary on_file w')))"

definition walk_start :: "scan_fs \<Rightarrow> string \<Rightarrow> 's \<Rightarrow> 's file_walk" where
  "walk_start fs root st =
     \<lparr>wk_stack = [root], wk_visited = (case sc_canonicalize fs root of Inr c \<Rightarrow> {c} | Inl _ \<Rightarrow> {}),
      wk_io_errors = (sc_canonicalize fs root = Inl OtherError), wk_stopped_early = False, wk_state = st\<rparr>"

definition walk_java_files :: "scan_fs \<Rightarrow> string \<Rightarrow> string option \<Rightarrow> (string \<Rightarrow> 's \<Rightarrow> bool \<times> 's) \<Rightarrow> 's \<Rightarrow> 's file_walk option" where
  "walk_java_files fs root boundary on_file st = file_walk_loop fs boundary on_file (walk_start fs root st)"

section \<open>Entries (workspace\_index.rs)\<close>

record symbol_entry =
  sy_simple_name :: string
  sy_package :: string
  sy_path :: string
  sy_kind :: symbol_kind

definition package_of_line :: "string \<Rightarrow> string option" where
  "package_of_line l =
     (case strip_prefix ''package'' (trim_start l) of
        None \<Rightarrow> None
      | Some rest \<Rightarrow>
          if \<not> list_ex (\<lambda>w. starts_with w rest) white_space then None
          else case find_sub '';'' (trim_start rest) of
              None \<Rightarrow> None
            | Some i \<Rightarrow> (let name = concat (split_whitespace (take i (trim_start rest))) in if name = [] then None else Some name))"

fun first_package :: "string list \<Rightarrow> string option" where
  "first_package [] = None"
| "first_package (l # ls) = (case package_of_line l of Some p \<Rightarrow> Some p | None \<Rightarrow> first_package ls)"

definition extract_package :: "string \<Rightarrow> string option" where
  "extract_package header = first_package (str_lines header)"

definition KIND_KEYWORDS :: "(string \<times> symbol_kind) list" where
  "KIND_KEYWORDS = [(''class'', SymClass), (''interface'', SymInterface), (''enum'', SymEnum), (''record'', SymClass), (''@interface'', SymInterface)]"

definition better_kind :: "string \<Rightarrow> string \<Rightarrow> (nat \<times> symbol_kind) option \<Rightarrow> string \<times> symbol_kind \<Rightarrow> (nat \<times> symbol_kind) option" where
  "better_kind header simple_name best k =
     (case find_sub (fst k @ '' '' @ simple_name) header of
        None \<Rightarrow> best
      | Some pos \<Rightarrow> (case best of Some (best_pos, _) \<Rightarrow> if pos < best_pos then Some (pos, snd k) else best | None \<Rightarrow> Some (pos, snd k)))"

definition detect_kind :: "string \<Rightarrow> string \<Rightarrow> symbol_kind" where
  "detect_kind header simple_name =
     (case foldl (better_kind header simple_name) None KIND_KEYWORDS of Some (_, k) \<Rightarrow> k | None \<Rightarrow> SymClass)"

text \<open>\<open>sc_read_header\<close> opens the file and reads into a buffer of 4096 bytes.\<close>

definition HEADER_BYTES :: nat where
  "HEADER_BYTES = 4096"

definition index_file :: "scan_fs \<Rightarrow> string \<Rightarrow> io_error + symbol_entry option" where
  "index_file fs path =
     (case file_stem path of
        None \<Rightarrow> Inr None
      | Some name \<Rightarrow>
          if \<not> valid_str name \<or> name = [] then Inr None
          else case sc_read_header fs path of
              Inl e \<Rightarrow> Inl e
            | Inr bytes \<Rightarrow>
                (let header = from_utf8_lossy (take HEADER_BYTES bytes) in
                 Inr (Some \<lparr>sy_simple_name = name, sy_package = (case extract_package header of Some p \<Rightarrow> p | None \<Rightarrow> []),
                            sy_path = path, sy_kind = detect_kind header name\<rparr>)))"

section \<open>Building the index\<close>

record inner =
  in_entries :: "symbol_entry list"
  in_root_mtimes :: "(string \<times> nat option) list"
  in_built :: bool
  in_truncated :: bool
  in_generation :: u64
  in_dirty :: bool
  in_dirty_epoch :: u64

definition inner_new :: inner where
  "inner_new = \<lparr>in_entries = [], in_root_mtimes = [], in_built = False, in_truncated = False, in_generation = 0, in_dirty = False, in_dirty_epoch = 0\<rparr>"

definition invalidate :: "inner \<Rightarrow> inner" where
  "invalidate ix = ix\<lparr>in_dirty := True, in_dirty_epoch := in_dirty_epoch ix + 1\<rparr>"

definition needs_rebuild :: "scan_fs \<Rightarrow> inner \<Rightarrow> string list \<Rightarrow> bool" where
  "needs_rebuild fs ix roots =
     (if \<not> in_built ix \<or> in_dirty ix then True
      else if length (in_root_mtimes ix) \<noteq> length roots then True
      else list_ex (\<lambda>root. map_of (in_root_mtimes ix) root \<noteq> Some (sc_mtime fs root)) roots)"

text \<open>The closure passed to the walk; its state is \<open>entries\<close> and \<open>incomplete\<close>.\<close>

definition index_visit :: "scan_fs \<Rightarrow> nat \<Rightarrow> string \<Rightarrow> symbol_entry list \<times> bool \<Rightarrow> bool \<times> symbol_entry list \<times> bool" where
  "index_visit fs cap path st =
     (case st of (entries, incomplete) \<Rightarrow>
        if cap \<le> length entries then (False, entries, incomplete)
        else case index_file fs path of
            Inr (Some e) \<Rightarrow> (True, entries @ [e], incomplete)
          | Inr None \<Rightarrow> (True, entries, incomplete)
          | Inl NotFound \<Rightarrow> (True, entries, incomplete)
          | Inl OtherError \<Rightarrow> (True, entries, True))"

record index_build =
  bd_entries :: "symbol_entry list"
  bd_truncated :: bool
  bd_incomplete :: bool
  bd_root_mtimes :: "(string \<times> nat option) list"

fun scan_roots :: "scan_fs \<Rightarrow> nat \<Rightarrow> string option \<Rightarrow> string list \<Rightarrow> index_build \<Rightarrow> index_build option" where
  "scan_roots fs cap boundary [] b = Some b"
| "scan_roots fs cap boundary (root # roots) b =
     (let b = b\<lparr>bd_root_mtimes := AList.update root (sc_mtime fs root) (bd_root_mtimes b)\<rparr> in
      if cap \<le> length (bd_entries b) then scan_roots fs cap boundary roots (b\<lparr>bd_truncated := True\<rparr>)
      else case walk_java_files fs root boundary (index_visit fs cap) (bd_entries b, bd_incomplete b) of
          None \<Rightarrow> None
        | Some w \<Rightarrow>
            scan_roots fs cap boundary roots
              (b\<lparr>bd_entries := fst (wk_state w), bd_truncated := (bd_truncated b \<or> wk_stopped_early w),
                 bd_incomplete := (snd (wk_state w) \<or> wk_io_errors w)\<rparr>))"

definition build_start :: index_build where
  "build_start = \<lparr>bd_entries = [], bd_truncated = False, bd_incomplete = False, bd_root_mtimes = []\<rparr>"

text \<open>The end of \<open>ensure_built\<close>, under the lock again.\<close>

definition install_build :: "u64 \<Rightarrow> index_build \<Rightarrow> inner \<Rightarrow> inner" where
  "install_build epoch_before b ix =
     ix\<lparr>in_entries := bd_entries b, in_root_mtimes := bd_root_mtimes b, in_truncated := bd_truncated b, in_built := True,
        in_generation := in_generation ix + 1, in_dirty := (in_dirty_epoch ix \<noteq> epoch_before \<or> bd_incomplete b)\<rparr>"

text \<open>\<open>Inl\<close>: the boundary cannot be resolved and the index stays as it is.\<close>

definition run_build :: "scan_fs \<Rightarrow> nat \<Rightarrow> string list \<Rightarrow> string option \<Rightarrow> (unit + index_build) option" where
  "run_build fs cap roots boundary =
     (case boundary of
        None \<Rightarrow> map_option Inr (scan_roots fs cap None roots build_start)
      | Some b \<Rightarrow>
          (case sc_canonicalize fs b of
             Inl _ \<Rightarrow> Some (Inl ())
           | Inr canon \<Rightarrow> map_option Inr (scan_roots fs cap (Some canon) roots build_start)))"

definition ensure_built :: "scan_fs \<Rightarrow> nat \<Rightarrow> string list \<Rightarrow> string option \<Rightarrow> inner \<Rightarrow> inner option" where
  "ensure_built fs cap roots boundary ix =
     (if \<not> needs_rebuild fs ix roots then Some ix
      else case run_build fs cap roots boundary of
          None \<Rightarrow> None
        | Some (Inl _) \<Rightarrow> Some ix
        | Some (Inr b) \<Rightarrow> Some (install_build (in_dirty_epoch ix) b ix))"

section \<open>Queries\<close>

text \<open>Lower case and upper case of the standard library, over the characters of a string.\<close>

record unicode =
  un_lower :: "string \<Rightarrow> string"
  un_is_upper :: "string \<Rightarrow> bool"

definition continuation :: "char \<Rightarrow> bool" where
  "continuation c \<longleftrightarrow> 0x80 \<le> (of_char c :: nat) \<and> (of_char c :: nat) < 0xC0"

function str_chars :: "string \<Rightarrow> string list" where
  "str_chars [] = []"
| "str_chars (c # cs) = (c # takeWhile continuation cs) # str_chars (dropWhile continuation cs)"
  by pat_completeness auto
termination
  by (relation "measure length") (auto simp: le_imp_less_Suc length_dropWhile_le)

fun humps_loop :: "unicode \<Rightarrow> string option \<Rightarrow> string list \<Rightarrow> string list" where
  "humps_loop un None [] = []"
| "humps_loop un (Some h) [] = [h]"
| "humps_loop un None (c # cs) = humps_loop un (Some c) cs"
| "humps_loop un (Some h) (c # cs) = (if un_is_upper un c then h # humps_loop un (Some c) cs else humps_loop un (Some (h @ c)) cs)"

definition split_humps :: "unicode \<Rightarrow> string \<Rightarrow> string list" where
  "split_humps un s = humps_loop un None (str_chars s)"

definition hump_matches :: "unicode \<Rightarrow> string \<Rightarrow> string \<Rightarrow> bool" where
  "hump_matches un query_hump candidate_hump \<longleftrightarrow> starts_with (un_lower un query_hump) (un_lower un candidate_hump)"

fun match_humps :: "unicode \<Rightarrow> string list \<Rightarrow> string list \<Rightarrow> bool" where
  "match_humps un [] cs = True"
| "match_humps un (q # qs) [] = False"
| "match_humps un (q # qs) (c # cs) = (if hump_matches un q c then match_humps un qs cs else match_humps un (q # qs) cs)"

definition camel_hump_matches :: "unicode \<Rightarrow> string \<Rightarrow> string \<Rightarrow> bool" where
  "camel_hump_matches un query name = match_humps un (split_humps un query) (split_humps un name)"

definition matches_query :: "unicode \<Rightarrow> string \<Rightarrow> string \<Rightarrow> bool" where
  "matches_query un query name \<longleftrightarrow>
     query = [] \<or> contains_sub (un_lower un query) (un_lower un name) \<or> camel_hump_matches un query name"

definition matching :: "unicode \<Rightarrow> inner \<Rightarrow> string \<Rightarrow> symbol_entry list" where
  "matching un ix query = filter (\<lambda>e. matches_query un query (sy_simple_name e)) (in_entries ix)"

definition paths_for_simple_name :: "inner \<Rightarrow> string \<Rightarrow> string list" where
  "paths_for_simple_name ix name = map sy_path (filter (\<lambda>e. sy_simple_name e = name) (in_entries ix))"

definition find_type :: "inner \<Rightarrow> string \<Rightarrow> string \<Rightarrow> string option" where
  "find_type ix package name =
     (case filter (\<lambda>e. sy_package e = package \<and> sy_simple_name e = name) (in_entries ix) of
        [e] \<Rightarrow> Some (sy_path e)
      | _ \<Rightarrow> None)"

text \<open>A slice of a string panics (\<open>None\<close>) when it would cut a character.\<close>

definition slice_to :: "string \<Rightarrow> nat \<Rightarrow> string option" where
  "slice_to s n = (if n \<le> length s \<and> (n = length s \<or> \<not> continuation (s ! n)) then Some (take n s) else None)"

fun prefix_hits :: "string \<Rightarrow> symbol_entry list \<Rightarrow> symbol_entry list option" where
  "prefix_hits needle [] = Some []"
| "prefix_hits needle (e # es) =
     (if length (sy_simple_name e) < length needle then prefix_hits needle es
      else case slice_to (sy_simple_name e) (length needle) of
          None \<Rightarrow> None
        | Some s \<Rightarrow>
            if to_ascii_lowercase s = to_ascii_lowercase needle then map_option ((#) e) (prefix_hits needle es) else prefix_hits needle es)"

definition index_types_with_prefix :: "inner \<Rightarrow> string \<Rightarrow> nat \<Rightarrow> (symbol_entry list \<times> bool) option" where
  "index_types_with_prefix ix typed limit =
     (if typed = [] \<or> limit = 0 then Some ([], False)
      else case prefix_hits (to_ascii_lowercase typed) (in_entries ix) of
          None \<Rightarrow> None
        | Some hits \<Rightarrow>
            (let hits = sort_key (\<lambda>e. (length (sy_simple_name e), sy_simple_name e)) hits in Some (take limit hits, limit < length hits)))"

fun children_loop :: "string \<Rightarrow> symbol_entry list \<Rightarrow> string list \<times> symbol_entry list \<Rightarrow> string list \<times> symbol_entry list" where
  "children_loop package [] acc = acc"
| "children_loop package (e # es) (subpackages, types) =
     (if sy_package e = package then children_loop package es (subpackages, types @ [e])
      else case strip_prefix (if package = [] then [] else package @ ''.'') (sy_package e) of
          Some rest \<Rightarrow>
            if rest = [] then children_loop package es (subpackages, types)
            else (let segment = hd (split_char (CHR ''.'') rest) in
                  children_loop package es (if segment \<in> set subpackages then subpackages else subpackages @ [segment], types))
        | None \<Rightarrow> children_loop package es (subpackages, types))"

definition index_package_children :: "inner \<Rightarrow> string \<Rightarrow> string list \<times> symbol_entry list" where
  "index_package_children ix package =
     (case children_loop package (in_entries ix) ([], []) of
        (subpackages, types) \<Rightarrow> (sort subpackages, sort_key sy_simple_name types))"


section \<open>What a walk reaches\<close>

text \<open>An entry the walk looks at: the named child of a directory, not excluded, whose canonical path is inside the boundary.\<close>

definition child_of :: "scan_fs \<Rightarrow> string option \<Rightarrow> string \<Rightarrow> string \<Rightarrow> string \<Rightarrow> bool" where
  "child_of fs boundary dir name canon \<longleftrightarrow>
     (\<exists>es. sc_read_dir fs dir = Inr es \<and> Inr name \<in> set es) \<and> \<not> is_excluded_component name
     \<and> sc_canonicalize fs (path_join dir name) = Inr canon \<and> in_boundary boundary canon"

inductive reached_dir :: "scan_fs \<Rightarrow> string option \<Rightarrow> string \<Rightarrow> string \<Rightarrow> bool" for fs boundary root where
  root: "reached_dir fs boundary root root"
| sub: "reached_dir fs boundary root dir \<Longrightarrow> child_of fs boundary dir name canon \<Longrightarrow> sc_is_dir fs canon
    \<Longrightarrow> reached_dir fs boundary root (path_join dir name)"

definition source_file :: "scan_fs \<Rightarrow> string option \<Rightarrow> string \<Rightarrow> string \<Rightarrow> string \<Rightarrow> bool" where
  "source_file fs boundary root path canon \<longleftrightarrow>
     (\<exists>dir name. path = path_join dir name \<and> reached_dir fs boundary root dir \<and> child_of fs boundary dir name canon
        \<and> \<not> sc_is_dir fs canon \<and> ends_with ''.java'' name)"

text \<open>
  What the walk relies on of the file system while it runs: a directory lists the same under each of its paths, a path that cannot
  be resolved cannot be listed, and there are finitely many directories.
\<close>

definition scan_fs_ok :: "scan_fs \<Rightarrow> bool" where
  "scan_fs_ok fs \<longleftrightarrow>
     (\<forall>d d' c. sc_canonicalize fs d = Inr c \<and> sc_canonicalize fs d' = Inr c \<longrightarrow>
        sc_read_dir fs d = sc_read_dir fs d' \<and> (\<forall>n. sc_canonicalize fs (path_join d n) = sc_canonicalize fs (path_join d' n)))
     \<and> (\<forall>d e. sc_canonicalize fs d = Inl e \<longrightarrow> (\<exists>e'. sc_read_dir fs d = Inl e'))
     \<and> finite {c. sc_is_dir fs c}"

lemma scan_fs_same:
  assumes "scan_fs_ok fs" "sc_canonicalize fs d = Inr c" "sc_canonicalize fs d' = Inr c"
  shows "sc_read_dir fs d = sc_read_dir fs d'" "sc_canonicalize fs (path_join d n) = sc_canonicalize fs (path_join d' n)"
  using assms unfolding scan_fs_ok_def by blast+

lemma scan_fs_listed: "scan_fs_ok fs \<Longrightarrow> sc_read_dir fs d = Inr es \<Longrightarrow> \<exists>c. sc_canonicalize fs d = Inr c"
  unfolding scan_fs_ok_def by (metis sum.exhaust sum.distinct(1))

text \<open>
  The interface between the walk and its callback: what counts as taking note of a file, which states are good, that the
  callback notes the file when it goes on and forgets none, and that it keeps states good over source files.
\<close>

locale file_visitor =
  fixes fs :: scan_fs and boundary :: "string option" and root :: string and on_file :: "string \<Rightarrow> 's \<Rightarrow> bool \<times> 's"
    and noted :: "'s \<Rightarrow> string \<Rightarrow> bool" and good :: "'s \<Rightarrow> bool"
  assumes marks: "on_file p st = (True, st') \<Longrightarrow> noted st' p"
    and keeps: "on_file p st = (b, st') \<Longrightarrow> noted st q \<Longrightarrow> noted st' q"
    and stays_good: "on_file p st = (b, st') \<Longrightarrow> good st \<Longrightarrow> source_file fs boundary root p c \<Longrightarrow> good st'"
begin

text \<open>An entry is handled when its directory is known or its file noted.\<close>

definition handled :: "'s file_walk \<Rightarrow> string \<Rightarrow> string \<Rightarrow> bool" where
  "handled w dir name \<longleftrightarrow>
     is_excluded_component name
     \<or> (\<forall>c. sc_canonicalize fs (path_join dir name) = Inr c \<and> in_boundary boundary c \<longrightarrow>
          (if sc_is_dir fs c then c \<in> wk_visited w else ends_with ''.java'' name \<longrightarrow> noted (wk_state w) (path_join dir name)))"

definition dirs_left :: "'s file_walk \<Rightarrow> nat" where
  "dirs_left w = card ({c. sc_is_dir fs c} - wk_visited w) + length (wk_stack w)"

text \<open>What steps within one directory do to the walk: nothing is forgotten, new directories are on the stack.\<close>

definition advances :: "'s file_walk \<Rightarrow> 's file_walk \<Rightarrow> bool" where
  "advances w w' \<longleftrightarrow>
     wk_visited w \<subseteq> wk_visited w' \<and> (\<forall>q. noted (wk_state w) q \<longrightarrow> noted (wk_state w') q) \<and> set (wk_stack w) \<subseteq> set (wk_stack w')
     \<and> (\<forall>c \<in> wk_visited w' - wk_visited w. \<exists>p \<in> set (wk_stack w'). sc_canonicalize fs p = Inr c)
     \<and> (\<forall>p \<in> set (wk_stack w') - set (wk_stack w). reached_dir fs boundary root p)
     \<and> dirs_left w' \<le> dirs_left w \<and> (good (wk_state w) \<longrightarrow> good (wk_state w'))"

lemma advances_refl: "advances w w"
  by (simp add: advances_def)

lemma advances_trans: "advances w w' \<Longrightarrow> advances w' w'' \<Longrightarrow> advances w w''"
  unfolding advances_def by (intro conjI) (blast | linarith)+

lemma handled_mono: "handled w dir name \<Longrightarrow> advances w w' \<Longrightarrow> handled w' dir name"
  by (auto simp: handled_def advances_def split: if_splits)

lemma handled_stack: "handled (w\<lparr>wk_stack := stack\<rparr>) = handled w"
  by (simp add: handled_def fun_eq_iff)

lemma note_error_same [simp]:
  "wk_stack (note_error e w) = wk_stack w" "wk_visited (note_error e w) = wk_visited w" "wk_state (note_error e w) = wk_state w"
  "wk_stopped_early (note_error e w) = wk_stopped_early w"
  by (simp_all add: note_error_def split: io_error.splits)

lemma advances_note_error: "advances (note_error e w) w' = advances w w'"
  by (simp add: advances_def dirs_left_def)

lemma advances_file:
  assumes "on_file p (wk_state w) = (b, st)" "source_file fs boundary root p c"
  shows "advances w (w\<lparr>wk_state := st\<rparr>)" "advances w (w\<lparr>wk_state := st, wk_stopped_early := s\<rparr>)"
  using keeps [OF assms(1)] stays_good [OF assms(1) _ assms(2)] by (auto simp: advances_def dirs_left_def)

lemma advances_dir:
  assumes "finite {c. sc_is_dir fs c}" "sc_is_dir fs c" "c \<notin> wk_visited w" "sc_canonicalize fs p = Inr c" "reached_dir fs boundary root p"
  shows "advances w (w\<lparr>wk_visited := insert c (wk_visited w), wk_stack := p # wk_stack w\<rparr>)"
proof -
  have "card ({c. sc_is_dir fs c} - insert c (wk_visited w)) < card ({c. sc_is_dir fs c} - wk_visited w)"
    using assms(1-3) by (intro psubset_card_mono) auto
  then show ?thesis using assms(3-5) by (auto simp: advances_def dirs_left_def)
qed

lemma walk_entries_advances:
  assumes "finite {c. sc_is_dir fs c}" "reached_dir fs boundary root dir" "sc_read_dir fs dir = Inr all" "set es \<subseteq> set all"
  shows "advances w (walk_entries fs boundary on_file dir es w)"
  using assms(4)
proof (induction es arbitrary: w)
  case (Cons x es)
  note IH = Cons.IH [OF subset_trans [OF set_subset_Cons Cons.prems]]
  show ?case
  proof (cases x)
    case (Inl e)
    then show ?thesis using IH [of "note_error e w"] by (simp add: advances_note_error)
  next
    case (Inr name)
    let ?p = "path_join dir name"
    have child: "child_of fs boundary dir name c" if "\<not> is_excluded_component name" "sc_canonicalize fs ?p = Inr c" "in_boundary boundary c" for c
      using that Cons.prems assms(3) Inr by (auto simp: child_of_def)
    show ?thesis
    proof (cases "is_excluded_component name \<or> (\<forall>c. sc_canonicalize fs ?p = Inr c \<longrightarrow> \<not> in_boundary boundary c)")
      case True
      then show ?thesis using IH [of w] IH [of "note_error _ w"] Inr by (auto simp: Let_def advances_note_error split: sum.splits)
    next
      case False
      then obtain c where c: "sc_canonicalize fs ?p = Inr c" "in_boundary boundary c" and name: "\<not> is_excluded_component name" by blast
      note child = child [OF name c]
      show ?thesis
      proof (cases "sc_is_dir fs c")
        case True
        then show ?thesis
          using advances_trans [OF advances_dir [OF assms(1) True _ c(1) reached_dir.sub [OF assms(2) child True]] IH] IH [of w] Inr c name
          by (simp add: Let_def)
      next
        case plain: False
        then have "ends_with ''.java'' name \<Longrightarrow> source_file fs boundary root ?p c"
          using assms(2) child by (auto simp: source_file_def)
        then show ?thesis
          using advances_trans [OF advances_file(1) IH] advances_file(2) IH [of w] Inr c name plain
          by (auto simp: Let_def split: prod.splits bool.splits)
      qed
    qed
  qed
qed (simp add: advances_refl)


lemma walk_entries_step:
  "wk_stopped_early (walk_entries fs boundary on_file dir (x # es) w)
   \<or> (\<exists>w1. walk_entries fs boundary on_file dir (x # es) w = walk_entries fs boundary on_file dir es w1
        \<and> (\<forall>name. x = Inr name \<longrightarrow> handled w1 dir name))"
proof (cases x)
  case (Inr name)
  let ?p = "path_join dir name" and ?walk = "\<lambda>es w. walk_entries fs boundary on_file dir es w"
  consider "is_excluded_component name" | e where "\<not> is_excluded_component name" "sc_canonicalize fs ?p = Inl e"
    | c where "\<not> is_excluded_component name" "sc_canonicalize fs ?p = Inr c" by (cases "sc_canonicalize fs ?p") auto
  then show ?thesis
  proof cases
    case (3 c)
    obtain b st where f: "on_file ?p (wk_state w) = (b, st)" by (cases "on_file ?p (wk_state w)")
    let ?dir = "if c \<in> wk_visited w then w else w\<lparr>wk_visited := insert c (wk_visited w), wk_stack := ?p # wk_stack w\<rparr>"
    have "?walk (x # es) w = ?walk es ?dir \<and> handled ?dir dir name" if "in_boundary boundary c" "sc_is_dir fs c"
      using that 3 Inr by (simp add: Let_def handled_def)
    moreover have "?walk (x # es) w = ?walk es w \<and> handled w dir name" if "\<not> in_boundary boundary c \<or> \<not> sc_is_dir fs c \<and> \<not> ends_with ''.java'' name"
      using that 3 Inr by (auto simp: Let_def handled_def)
    moreover have "?walk (x # es) w = ?walk es (w\<lparr>wk_state := st\<rparr>) \<and> handled (w\<lparr>wk_state := st\<rparr>) dir name"
      if "in_boundary boundary c" "\<not> sc_is_dir fs c" "ends_with ''.java'' name" b
      using that 3 Inr f marks [of ?p "wk_state w" st] by (simp add: Let_def handled_def)
    moreover have "wk_stopped_early (?walk (x # es) w)" if "in_boundary boundary c" "\<not> sc_is_dir fs c" "ends_with ''.java'' name" "\<not> b"
      using that 3 Inr f by (simp add: Let_def)
    ultimately show ?thesis using Inr by (metis sum.inject(2))
  qed (auto simp: Inr Let_def handled_def)
qed auto

lemma walk_entries_handles:
  assumes "finite {c. sc_is_dir fs c}" "reached_dir fs boundary root dir" "sc_read_dir fs dir = Inr all" "set es \<subseteq> set all"
    "\<not> wk_stopped_early (walk_entries fs boundary on_file dir es w)" "Inr name \<in> set es"
  shows "handled (walk_entries fs boundary on_file dir es w) dir name"
  using assms(4-6)
proof (induction es arbitrary: w)
  case (Cons x es)
  obtain w1 where w1: "walk_entries fs boundary on_file dir (x # es) w = walk_entries fs boundary on_file dir es w1"
    "x = Inr name \<Longrightarrow> handled w1 dir name"
    using walk_entries_step [of dir x es w] Cons.prems(2) by blast
  have "advances w1 (walk_entries fs boundary on_file dir es w1)" using walk_entries_advances [OF assms(1-3)] Cons.prems(1) by simp
  then show ?case using w1 handled_mono Cons by (cases "x = Inr name") auto
qed simp

text \<open>Every directory known is still on the stack, or all its entries are handled.\<close>

definition covered :: "'s file_walk \<Rightarrow> bool" where
  "covered w \<longleftrightarrow>
     (\<forall>c \<in> wk_visited w. (\<exists>p \<in> set (wk_stack w). sc_canonicalize fs p = Inr c)
        \<or> (\<exists>p. sc_canonicalize fs p = Inr c \<and> (\<forall>es name. sc_read_dir fs p = Inr es \<and> Inr name \<in> set es \<longrightarrow> handled w p name)))"

lemma covered_advances:
  assumes "covered w" "wk_stack w = dir # rest" "advances (w\<lparr>wk_stack := rest\<rparr>) w'"
    "\<And>es name. sc_read_dir fs dir = Inr es \<Longrightarrow> Inr name \<in> set es \<Longrightarrow> handled w' dir name"
  shows "covered w'"
  unfolding covered_def
proof
  fix c assume c: "c \<in> wk_visited w'"
  have sub: "set rest \<subseteq> set (wk_stack w')" using assms(3) by (simp add: advances_def)
  have mono: "handled w p name \<Longrightarrow> handled w' p name" for p name
    using handled_mono [OF _ assms(3), of p name] by (simp add: handled_stack)
  show "(\<exists>p \<in> set (wk_stack w'). sc_canonicalize fs p = Inr c)
    \<or> (\<exists>p. sc_canonicalize fs p = Inr c \<and> (\<forall>es name. sc_read_dir fs p = Inr es \<and> Inr name \<in> set es \<longrightarrow> handled w' p name))"
  proof (cases "c \<in> wk_visited w")
    case False
    then show ?thesis using c assms(3) by (auto simp: advances_def)
  next
    case True
    then consider p where "p \<in> set (dir # rest)" "sc_canonicalize fs p = Inr c"
      | p where "sc_canonicalize fs p = Inr c" "\<forall>es name. sc_read_dir fs p = Inr es \<and> Inr name \<in> set es \<longrightarrow> handled w p name"
      using assms(1,2) unfolding covered_def by metis
    then show ?thesis
    proof cases
      case 1
      then show ?thesis using assms(4) sub by (cases "p = dir") auto
    next
      case 2
      then show ?thesis using mono by blast
    qed
  qed
qed

text \<open>With finitely many directories the walk ends, and unless the callback stopped it everything known is handled.\<close>

lemma file_walk_returns:
  assumes "finite {c. sc_is_dir fs c}" "covered w" "\<forall>p \<in> set (wk_stack w). reached_dir fs boundary root p" "good (wk_state w)"
    "\<not> wk_stopped_early w"
  shows "\<exists>w'. file_walk_loop fs boundary on_file w = Some w' \<and> good (wk_state w') \<and> wk_visited w \<subseteq> wk_visited w'
    \<and> (\<not> wk_stopped_early w' \<longrightarrow> wk_stack w' = [] \<and> covered w')"
  using assms(2-5)
proof (induction "dirs_left w" arbitrary: w rule: less_induct)
  case less
  show ?case
  proof (cases "wk_stack w")
    case Nil
    then show ?thesis using less.prems by (subst file_walk_loop.simps) simp
  next
    case (Cons dir rest)
    let ?w0 = "w\<lparr>wk_stack := rest\<rparr>"
    have left: "dirs_left ?w0 < dirs_left w" using Cons by (simp add: dirs_left_def)
    have dir: "reached_dir fs boundary root dir" using less.prems(2) Cons by simp
    show ?thesis
    proof (cases "sc_read_dir fs dir")
      case (Inl e)
      let ?w1 = "note_error e ?w0"
      have "covered ?w1" by (rule covered_advances [OF less.prems(1) Cons]) (simp_all add: Inl advances_def dirs_left_def)
      moreover have "dirs_left ?w1 < dirs_left w" using left by (simp add: dirs_left_def)
      ultimately show ?thesis
        using less.hyps [of ?w1] less.prems Cons Inl by (subst file_walk_loop.simps) simp
    next
      case (Inr es)
      let ?w2 = "walk_entries fs boundary on_file dir es ?w0"
      have adv: "advances ?w0 ?w2" using walk_entries_advances [OF assms(1) dir Inr] by blast
      then have sub: "wk_visited w \<subseteq> wk_visited ?w2" and good: "good (wk_state ?w2)" and small: "dirs_left ?w2 < dirs_left w"
        and reached: "\<forall>p \<in> set (wk_stack ?w2). reached_dir fs boundary root p"
        using left less.prems(2,3) Cons by (auto simp: advances_def)
      show ?thesis
      proof (cases "wk_stopped_early ?w2")
        case True
        then show ?thesis using Cons Inr sub good by (subst file_walk_loop.simps) (simp add: Let_def)
      next
        case False
        have "covered ?w2"
          by (rule covered_advances [OF less.prems(1) Cons adv]) (use walk_entries_handles [OF assms(1) dir Inr _ False] Inr in auto)
        then obtain w' where "file_walk_loop fs boundary on_file ?w2 = Some w'" "good (wk_state w')" "wk_visited ?w2 \<subseteq> wk_visited w'"
          "\<not> wk_stopped_early w' \<longrightarrow> wk_stack w' = [] \<and> covered w'"
          using less.hyps [OF small _ reached good False] by blast
        then show ?thesis using sub Cons Inr False by (subst file_walk_loop.simps) (auto simp: Let_def)
      qed
    qed
  qed
qed

text \<open>The outcome: the walk returns, its state is good, and if it was not stopped every source file is noted under one of its paths.\<close>

lemma walk_complete:
  assumes "scan_fs_ok fs" "good st"
  shows "\<exists>w. walk_java_files fs root boundary on_file st = Some w \<and> good (wk_state w)
    \<and> (\<not> wk_stopped_early w \<longrightarrow>
         (\<forall>p c. source_file fs boundary root p c \<longrightarrow> (\<exists>q. sc_canonicalize fs q = Inr c \<and> noted (wk_state w) q)))"
proof -
  let ?w0 = "walk_start fs root st"
  have fin: "finite {c. sc_is_dir fs c}" using assms(1) by (simp add: scan_fs_ok_def)
  have "covered ?w0" by (auto simp: covered_def walk_start_def split: sum.splits)
  then obtain w where w: "walk_java_files fs root boundary on_file st = Some w" "good (wk_state w)" "wk_visited ?w0 \<subseteq> wk_visited w"
    "\<not> wk_stopped_early w \<Longrightarrow> wk_stack w = [] \<and> covered w"
    using file_walk_returns [OF fin, of ?w0] assms(2) by (auto simp: walk_java_files_def walk_start_def reached_dir.root)
  have "\<exists>q. sc_canonicalize fs q = Inr c \<and> noted (wk_state w) q" if run: "\<not> wk_stopped_early w" and p: "source_file fs boundary root p c" for p c
  proof -
    have handled: "\<exists>q. sc_canonicalize fs q = Inr c \<and> handled w q name"
      if "c \<in> wk_visited w" "sc_canonicalize fs d = Inr c" "child_of fs boundary d name c'" for c d name c'
    proof -
      obtain q where q: "sc_canonicalize fs q = Inr c" "\<forall>es name. sc_read_dir fs q = Inr es \<and> Inr name \<in> set es \<longrightarrow> handled w q name"
        using w(4) [OF run] \<open>c \<in> wk_visited w\<close> by (auto simp: covered_def)
      moreover note scan_fs_same(1) [OF assms(1) q(1) that(2)]
      ultimately show ?thesis using that(3) by (auto simp: child_of_def)
    qed
    note same = scan_fs_same(2) [OF assms(1)]
    have known: "\<exists>c. sc_canonicalize fs d = Inr c \<and> c \<in> wk_visited w" if "reached_dir fs boundary root d" "\<exists>es. sc_read_dir fs d = Inr es" for d
      using that
    proof (induction rule: reached_dir.induct)
      case root
      then obtain c where "sc_canonicalize fs root = Inr c" using scan_fs_listed [OF assms(1)] by blast
      then show ?case using w(3) by (auto simp: walk_start_def)
    next
      case (sub dir name canon)
      then obtain c where c: "sc_canonicalize fs dir = Inr c" "c \<in> wk_visited w" by (auto simp: child_of_def)
      then obtain q where "sc_canonicalize fs q = Inr c" "handled w q name" using handled [OF c(2,1) sub.hyps(2)] by blast
      then show ?case using same [OF _ c(1), of q name] sub.hyps(2,3) by (auto simp: handled_def child_of_def)
    qed
    obtain d name where d: "p = path_join d name" "reached_dir fs boundary root d" "child_of fs boundary d name c" "\<not> sc_is_dir fs c"
      "ends_with ''.java'' name" using p by (auto simp: source_file_def)
    then obtain c' where c': "sc_canonicalize fs d = Inr c'" "c' \<in> wk_visited w" using known [OF d(2)] by (auto simp: child_of_def)
    then obtain q where q: "sc_canonicalize fs q = Inr c'" "handled w q name" using handled [OF c'(2,1) d(3)] by blast
    then have "sc_canonicalize fs (path_join q name) = Inr c" using same [OF q(1) c'(1)] d(3) by (simp add: child_of_def)
    then show ?thesis using q(2) d by (auto simp: handled_def child_of_def)
  qed
  then show ?thesis using w(1,2) by blast
qed

end


section \<open>The index is exact\<close>

definition index_noted :: "scan_fs \<Rightarrow> symbol_entry list \<times> bool \<Rightarrow> string \<Rightarrow> bool" where
  "index_noted fs st p \<longleftrightarrow> snd st \<or> (\<forall>e. index_file fs p = Inr (Some e) \<longrightarrow> e \<in> set (fst st))"

text \<open>Entries within the limit, each for a source file under one of the roots, and none of the earlier state \<open>st0\<close> lost.\<close>

definition index_sound :: "scan_fs \<Rightarrow> string option \<Rightarrow> nat \<Rightarrow> string set \<Rightarrow> symbol_entry list \<Rightarrow> bool" where
  "index_sound fs boundary cap roots entries \<longleftrightarrow>
     length entries \<le> cap
     \<and> (\<forall>e \<in> set entries. \<exists>root \<in> roots. \<exists>p c. source_file fs boundary root p c \<and> index_file fs p = Inr (Some e))"

definition index_good :: "scan_fs \<Rightarrow> string option \<Rightarrow> nat \<Rightarrow> string set \<Rightarrow> symbol_entry list \<times> bool \<Rightarrow> symbol_entry list \<times> bool \<Rightarrow> bool" where
  "index_good fs boundary cap roots st0 st \<longleftrightarrow>
     index_sound fs boundary cap roots (fst st) \<and> set (fst st0) \<subseteq> set (fst st) \<and> (snd st0 \<longrightarrow> snd st)"

lemma index_visit_cases:
  assumes "index_visit fs cap p st = (b, st')"
  obtains "st' = st" "\<not> b" | "st' = st" b "\<And>e. index_file fs p \<noteq> Inr (Some e)" | "st' = (fst st, True)" b
    | e where "st' = (fst st @ [e], snd st)" b "index_file fs p = Inr (Some e)" "length (fst st) < cap"
  using assms by (auto simp: index_visit_def split: prod.splits if_splits sum.splits option.splits io_error.splits)

lemma index_visit_marks: "index_visit fs cap p st = (True, st') \<Longrightarrow> index_noted fs st' p"
  by (erule index_visit_cases) (auto simp: index_noted_def)

lemma index_visit_keeps: "index_visit fs cap p st = (b, st') \<Longrightarrow> index_noted fs st q \<Longrightarrow> index_noted fs st' q"
  by (erule index_visit_cases) (auto simp: index_noted_def)

lemma index_visit_good:
  "index_visit fs cap p st = (b, st') \<Longrightarrow> index_good fs boundary cap (insert root roots) st0 st \<Longrightarrow> source_file fs boundary root p c
   \<Longrightarrow> index_good fs boundary cap (insert root roots) st0 st'"
  by (erule index_visit_cases) (auto simp: index_good_def index_sound_def)

interpretation index_walk: file_visitor fs boundary root "index_visit fs cap" "index_noted fs" "index_good fs boundary cap (insert root roots) st0"
  for fs boundary root cap roots st0
  by unfold_locales (rule index_visit_marks index_visit_keeps index_visit_good; assumption)+

text \<open>Every source file under a root has an entry, under one of its paths, if it has one at all.\<close>

definition root_listed :: "scan_fs \<Rightarrow> string option \<Rightarrow> symbol_entry list \<Rightarrow> string \<Rightarrow> bool" where
  "root_listed fs boundary entries root \<longleftrightarrow>
     (\<forall>p c. source_file fs boundary root p c \<longrightarrow>
        (\<exists>q. sc_canonicalize fs q = Inr c \<and> (\<forall>e. index_file fs q = Inr (Some e) \<longrightarrow> e \<in> set entries)))"

lemma root_listed_mono: "root_listed fs boundary entries root \<Longrightarrow> set entries \<subseteq> set entries' \<Longrightarrow> root_listed fs boundary entries' root"
  unfolding root_listed_def by blast

definition scanned :: "scan_fs \<Rightarrow> nat \<Rightarrow> string option \<Rightarrow> string set \<Rightarrow> string set \<Rightarrow> index_build \<Rightarrow> index_build \<Rightarrow> bool" where
  "scanned fs cap boundary roots done b b' \<longleftrightarrow>
     index_good fs boundary cap roots (bd_entries b, bd_incomplete b) (bd_entries b', bd_incomplete b')
     \<and> (bd_truncated b \<longrightarrow> bd_truncated b')
     \<and> (\<not> bd_truncated b' \<and> \<not> bd_incomplete b' \<longrightarrow> Ball done (root_listed fs boundary (bd_entries b')))"

lemma scanned_trans:
  "scanned fs cap boundary roots R b b' \<Longrightarrow> scanned fs cap boundary roots R' b' b'' \<Longrightarrow> scanned fs cap boundary roots (R \<union> R') b b''"
  unfolding scanned_def index_good_def fst_conv snd_conv by (blast intro: root_listed_mono)

lemma scan_roots_exact:
  assumes "scan_fs_ok fs" "set roots \<subseteq> R" "index_sound fs boundary cap R (bd_entries b)"
  shows "\<exists>b'. scan_roots fs cap boundary roots b = Some b' \<and> scanned fs cap boundary R (set roots) b b'
    \<and> bd_root_mtimes b' = foldl (\<lambda>ms root. AList.update root (sc_mtime fs root) ms) (bd_root_mtimes b) roots"
  using assms(2,3)
proof (induction roots arbitrary: b)
  case Nil
  then show ?case by (simp add: scanned_def index_good_def)
next
  case (Cons root roots)
  let ?b1 = "b\<lparr>bd_root_mtimes := AList.update root (sc_mtime fs root) (bd_root_mtimes b)\<rparr>"
  have R: "insert root R = R" using Cons.prems(1) by auto
  have go: ?case if "scanned fs cap boundary R {root} b b2" "bd_root_mtimes b2 = bd_root_mtimes ?b1"
    "scan_roots fs cap boundary (root # roots) b = scan_roots fs cap boundary roots b2" for b2
  proof -
    have "index_sound fs boundary cap R (bd_entries b2)" using that(1) by (simp add: scanned_def index_good_def)
    then obtain b' where "scan_roots fs cap boundary roots b2 = Some b'" "scanned fs cap boundary R (set roots) b2 b'"
      "bd_root_mtimes b' = foldl (\<lambda>ms root. AList.update root (sc_mtime fs root) ms) (bd_root_mtimes b2) roots"
      using Cons.IH Cons.prems(1) by auto
    then show ?thesis using scanned_trans [OF that(1)] that(2,3) by auto
  qed
  show ?case
  proof (cases "cap \<le> length (bd_entries b)")
    case True
    show ?thesis
      by (rule go [of "?b1\<lparr>bd_truncated := True\<rparr>"]) (use True Cons.prems(2) in \<open>simp_all add: scanned_def index_good_def Let_def\<close>)
  next
    case False
    let ?st = "(bd_entries b, bd_incomplete b)"
    have "index_good fs boundary cap (insert root R) ?st ?st" using Cons.prems(2) R by (simp add: index_good_def)
    from index_walk.walk_complete [OF assms(1) this] obtain w where
      w: "walk_java_files fs root boundary (index_visit fs cap) ?st = Some w" "index_good fs boundary cap R ?st (wk_state w)"
        "\<not> wk_stopped_early w \<Longrightarrow> source_file fs boundary root p c \<Longrightarrow> \<exists>q. sc_canonicalize fs q = Inr c \<and> index_noted fs (wk_state w) q" for p c
      using R by auto
    let ?b2 = "?b1\<lparr>bd_entries := fst (wk_state w), bd_truncated := (bd_truncated b \<or> wk_stopped_early w),
      bd_incomplete := (snd (wk_state w) \<or> wk_io_errors w)\<rparr>"
    have "root_listed fs boundary (fst (wk_state w)) root" if "\<not> wk_stopped_early w" "\<not> snd (wk_state w)"
      using w(3) [OF that(1)] that(2) by (simp add: root_listed_def index_noted_def)
    then have "scanned fs cap boundary R {root} b ?b2" using w(2) by (auto simp: scanned_def index_good_def)
    then show ?thesis by (rule go) (use False w(1) in \<open>simp_all add: Let_def\<close>)
  qed
qed


text \<open>A boundary the build can use: none, or one that resolves.\<close>

definition boundary_of :: "scan_fs \<Rightarrow> string option \<Rightarrow> string option option" where
  "boundary_of fs boundary =
     (case boundary of None \<Rightarrow> Some None | Some b \<Rightarrow> (case sc_canonicalize fs b of Inr canon \<Rightarrow> Some (Some canon) | Inl _ \<Rightarrow> None))"

lemma run_build_boundary:
  "run_build fs cap roots boundary =
     (case boundary_of fs boundary of None \<Rightarrow> Some (Inl ()) | Some bd \<Rightarrow> map_option Inr (scan_roots fs cap bd roots build_start))"
  by (simp add: run_build_def boundary_of_def split: option.splits sum.splits)

text \<open>
  C13. Building the index ends, however the directories are linked, and what it holds is right: at most \<open>cap\<close> entries, each for
  a source file reached from a root without leaving the boundary or entering an excluded directory; and when the index is
  neither truncated nor marked for another try, every such file is in it, under one of its paths.
\<close>

theorem workspace_index_exact:
  assumes "scan_fs_ok fs" "boundary_of fs boundary = Some bd" "needs_rebuild fs ix roots"
  shows "\<exists>ix'. ensure_built fs cap roots boundary ix = Some ix' \<and> index_sound fs bd cap (set roots) (in_entries ix')
    \<and> (\<not> in_truncated ix' \<and> \<not> in_dirty ix' \<longrightarrow> Ball (set roots) (root_listed fs bd (in_entries ix')))"
proof -
  have "index_sound fs bd cap (set roots) (bd_entries build_start)" by (simp add: build_start_def index_sound_def)
  then obtain b where b: "scan_roots fs cap bd roots build_start = Some b" "scanned fs cap bd (set roots) (set roots) build_start b"
    using scan_roots_exact [OF assms(1) subset_refl] by blast
  then have "ensure_built fs cap roots boundary ix = Some (install_build (in_dirty_epoch ix) b ix)"
    using assms(2,3) by (simp add: ensure_built_def run_build_boundary)
  then show ?thesis using b(2) by (simp add: install_build_def scanned_def index_good_def)
qed

definition sample_scan_fs :: scan_fs where
  "sample_scan_fs =
     \<lparr>sc_canonicalize = (\<lambda>p. if p \<in> {''/p'', ''/p/A.java''} then Inr p else Inl NotFound),
      sc_read_dir = (\<lambda>p. if p = ''/p'' then Inr [Inr ''A.java''] else Inl NotFound),
      sc_is_dir = (\<lambda>p. p = ''/p''), sc_read_header = (\<lambda>_. Inr []), sc_mtime = (\<lambda>_. None)\<rparr>"

theorem workspace_index_exact_witness:
  "\<exists>ix'. ensure_built sample_scan_fs 5000 [''/p''] (Some ''/p'') inner_new = Some ix' \<and> length (in_entries ix') \<le> 5000"
proof -
  have "scan_fs_ok sample_scan_fs" by (simp add: scan_fs_ok_def sample_scan_fs_def)
  moreover have "boundary_of sample_scan_fs (Some ''/p'') = Some (Some ''/p'')" by (simp add: boundary_of_def sample_scan_fs_def)
  moreover have "needs_rebuild sample_scan_fs inner_new [''/p'']" by (simp add: needs_rebuild_def inner_new_def)
  ultimately show ?thesis using workspace_index_exact [of sample_scan_fs "Some ''/p''" "Some ''/p''" inner_new "[''/p'']" 5000]
    by (auto simp: index_sound_def)
qed

section \<open>Builds that race with changes\<close>

text \<open>
  Builds run while the lock is free, so changes are announced and other builds finish in between. The number of
  announcements, and how many of them preceded the build that made the entries, record history only.
\<close>

record index_run =
  ir_epoch :: u64
  ir_begun :: nat

record shared_index =
  si_inner :: inner
  si_runs :: "index_run list"
  si_announced :: nat
  si_seen :: nat

definition shared_new :: shared_index where
  "shared_new = \<lparr>si_inner = inner_new, si_runs = [], si_announced = 0, si_seen = 0\<rparr>"

definition announce :: "shared_index \<Rightarrow> shared_index" where
  "announce s = s\<lparr>si_inner := invalidate (si_inner s), si_announced := si_announced s + 1\<rparr>"

definition build_begins :: "shared_index \<Rightarrow> shared_index" where
  "build_begins s = s\<lparr>si_runs := si_runs s @ [\<lparr>ir_epoch = in_dirty_epoch (si_inner s), ir_begun = si_announced s\<rparr>]\<rparr>"

definition build_ends :: "nat \<Rightarrow> index_build \<Rightarrow> shared_index \<Rightarrow> shared_index" where
  "build_ends i b s =
     s\<lparr>si_inner := install_build (ir_epoch (si_runs s ! i)) b (si_inner s), si_runs := take i (si_runs s) @ drop (Suc i) (si_runs s),
       si_seen := ir_begun (si_runs s ! i)\<rparr>"

inductive index_step :: "shared_index \<Rightarrow> shared_index \<Rightarrow> bool" where
  announced: "index_step s (announce s)"
| begins: "needs_rebuild fs (si_inner s) roots \<Longrightarrow> index_step s (build_begins s)"
| ends: "i < length (si_runs s) \<Longrightarrow> run_build fs cap roots boundary = Some (Inr b) \<Longrightarrow> index_step s (build_ends i b s)"
| gives_up: "i < length (si_runs s) \<Longrightarrow> index_step s (s\<lparr>si_runs := take i (si_runs s) @ drop (Suc i) (si_runs s)\<rparr>)"

inductive index_reachable :: "shared_index \<Rightarrow> bool" where
  init: "index_reachable shared_new"
| step: "index_reachable s \<Longrightarrow> index_step s s' \<Longrightarrow> index_reachable s'"

definition run_ok :: "nat \<Rightarrow> index_run \<Rightarrow> bool" where
  "run_ok n r \<longleftrightarrow> ir_begun r \<le> n \<and> ir_epoch r = of_nat (ir_begun r)"

definition index_inv :: "shared_index \<Rightarrow> bool" where
  "index_inv s \<longleftrightarrow>
     in_dirty_epoch (si_inner s) = of_nat (si_announced s) \<and> list_all (run_ok (si_announced s)) (si_runs s) \<and> si_seen s \<le> si_announced s
     \<and> (in_built (si_inner s) \<and> \<not> in_dirty (si_inner s) \<longrightarrow> of_nat (si_seen s) = (of_nat (si_announced s) :: u64))"

lemma run_ok_Suc: "run_ok n r \<Longrightarrow> run_ok (Suc n) r"
  by (simp add: run_ok_def)

lemma list_all_parts: "list_all P xs \<Longrightarrow> list_all P (take i xs)" "list_all P xs \<Longrightarrow> list_all P (drop i xs)"
  by (auto simp: list_all_iff dest: in_set_takeD in_set_dropD)

lemma index_step_inv: "index_step s s' \<Longrightarrow> index_inv s \<Longrightarrow> index_inv s'"
proof (induction rule: index_step.induct)
  case (announced s)
  then show ?case using list.pred_mono_strong [of "run_ok (si_announced s)" "si_runs s" "run_ok (Suc (si_announced s))"]
    by (auto simp: index_inv_def announce_def invalidate_def run_ok_Suc)
next
  case (begins fs s roots)
  then show ?case by (auto simp: index_inv_def build_begins_def run_ok_def)
next
  case (ends i s fs cap roots boundary b)
  then have "run_ok (si_announced s) (si_runs s ! i)" by (simp add: index_inv_def list_all_length)
  then show ?case using ends by (auto simp: index_inv_def build_ends_def install_build_def run_ok_def list_all_parts)
next
  case (gives_up i s)
  then show ?case using list_all_parts by (auto simp: index_inv_def)
qed

lemma index_reachable_inv: "index_reachable s \<Longrightarrow> index_inv s"
proof (induction rule: index_reachable.induct)
  case init
  show ?case by (simp add: index_inv_def shared_new_def inner_new_def)
next
  case (step s s')
  then show ?case using index_step_inv by blast
qed

text \<open>
  C14. No announced change is lost: whenever the index counts as up to date, its entries come from a build that began after
  the last announcement, even when builds overlap (for fewer than \<open>2\<^sup>6\<^sup>4\<close> announcements).
\<close>

theorem index_never_stale:
  assumes "index_reachable s" "si_announced s < 2 ^ 64" "\<not> needs_rebuild fs (si_inner s) roots"
  shows "si_seen s = si_announced s"
proof -
  have inv: "index_inv s" using index_reachable_inv [OF assms(1)] .
  have "in_built (si_inner s)" "\<not> in_dirty (si_inner s)" using assms(3) by (auto simp: needs_rebuild_def split: if_splits)
  then have "of_nat (si_seen s) = (of_nat (si_announced s) :: u64)" using inv by (simp add: index_inv_def)
  moreover have "unat (of_nat (si_seen s) :: u64) = si_seen s" "unat (of_nat (si_announced s) :: u64) = si_announced s"
    using inv assms(2) by (simp_all add: index_inv_def unat_of_nat)
  ultimately show ?thesis by metis
qed

definition refreshed_index :: shared_index where
  "refreshed_index = build_ends 0 build_start (build_begins (announce shared_new))"

theorem index_never_stale_witness: "si_announced refreshed_index = 1 \<and> si_seen refreshed_index = 1"
proof -
  have "index_reachable (announce shared_new)" by (rule index_reachable.step [OF index_reachable.init index_step.announced])
  moreover have "needs_rebuild sample_scan_fs (si_inner (announce shared_new)) []"
    by (simp add: needs_rebuild_def announce_def invalidate_def shared_new_def inner_new_def)
  ultimately have "index_reachable (build_begins (announce shared_new))" by (rule index_reachable.step [OF _ index_step.begins])
  moreover have "run_build sample_scan_fs 5000 [] None = Some (Inr build_start)" by (simp add: run_build_def)
  ultimately have reach: "index_reachable refreshed_index"
    unfolding refreshed_index_def by (intro index_reachable.step [OF _ index_step.ends]) (simp_all add: build_begins_def)
  moreover have "si_announced refreshed_index = 1" "\<not> needs_rebuild sample_scan_fs (si_inner refreshed_index) []"
    by (simp_all add: refreshed_index_def build_ends_def build_begins_def announce_def shared_new_def inner_new_def needs_rebuild_def
      install_build_def invalidate_def build_start_def)
  ultimately show ?thesis using index_never_stale [OF reach, of sample_scan_fs "[]"] by simp
qed

section \<open>Queries\<close>

lemma match_humps_emb: "match_humps un qs cs \<longleftrightarrow> list_emb (hump_matches un) qs cs"
  by (induction un qs cs rule: match_humps.induct) (auto simp: list_emb_Cons_iff1 list_emb_Cons_iff2)

lemma str_chars_concat: "concat (str_chars s) = s"
  by (induction s rule: str_chars.induct) (auto simp: takeWhile_dropWhile_id)

lemma humps_concat: "concat (humps_loop un h cs) = (case h of Some s \<Rightarrow> s | None \<Rightarrow> []) @ concat cs"
  by (induction un h cs rule: humps_loop.induct) auto

text \<open>
  A query is answered completely: it selects exactly the entries whose name contains it or whose humps it abbreviates,
  that is, the humps of the query begin a subsequence of the humps of the name, in order. The humps are the whole name.
\<close>

theorem matching_exact:
  "(e \<in> set (matching un ix query) \<longleftrightarrow>
      e \<in> set (in_entries ix)
      \<and> (query = [] \<or> contains_sub (un_lower un query) (un_lower un (sy_simple_name e))
         \<or> list_emb (hump_matches un) (split_humps un query) (split_humps un (sy_simple_name e))))
   \<and> concat (split_humps un (sy_simple_name e)) = sy_simple_name e"
  by (auto simp: matching_def matches_query_def camel_hump_matches_def match_humps_emb split_humps_def humps_concat str_chars_concat)

text \<open>A file name with a character of several bytes makes the completion of a shorter prefix panic.\<close>

lemma prefix_inside_character_panics:
  "index_types_with_prefix (inner_new\<lparr>in_entries := [\<lparr>sy_simple_name = [CHR 0xC3, CHR 0x89], sy_package = [], sy_path = p, sy_kind = SymClass\<rparr>]\<rparr>) ''a'' 5 = None"
  by (simp add: index_types_with_prefix_def slice_to_def continuation_def to_ascii_lowercase_def)

end
