(* ===== verification/Source_Actions.thy ===== *)
theory Source_Actions
  imports Source_Classes Workspace_Index
begin

text \<open>
  Actions on a source file: organizing its imports (\<open>crates/syntax/src/codeaction.rs\<close>) and discovering its test classes
  (\<open>crates/syntax/src/junit.rs\<close>). Source text is a sequence of UTF-8 bytes; slicing it inside a character panics.
\<close>

section \<open>Organizing imports (codeaction.rs)\<close>

record import_decl =
  id_is_static :: bool
  id_path :: string
  id_start :: nat
  id_end :: nat

definition import_text :: "import_decl \<Rightarrow> string" where
  "import_text d = (if id_is_static d then ''import static '' @ id_path d @ '';'' else ''import '' @ id_path d @ '';'')"

definition starts_with_space :: "string \<Rightarrow> bool" where
  "starts_with_space s = list_ex (\<lambda>w. starts_with w s) white_space"

definition parse_import :: "string \<Rightarrow> nat \<Rightarrow> nat \<Rightarrow> import_decl option" where
  "parse_import doc start stop =
     (case strip_prefix ''import'' (trim doc) of
        None \<Rightarrow> None
      | Some r \<Rightarrow>
          (let rest = trim_start r;
               is_static = (case strip_prefix ''static'' rest of Some t \<Rightarrow> starts_with_space t | None \<Rightarrow> False);
               rest = (if is_static then trim_start (drop 6 rest) else rest);
               path = concat (split_whitespace (trim_semicolons (trim_end rest)))
           in if path = [] then None else Some \<lparr>id_is_static = is_static, id_path = path, id_start = start, id_end = stop\<rparr>))"

definition is_ident_byte :: "char \<Rightarrow> bool" where
  "is_ident_byte c \<longleftrightarrow> is_ascii_alphabetic c \<or> is_digit c \<or> c = CHR ''_'' \<or> c = CHR ''$''"

text \<open>An occurrence of a word at \<open>i\<close> with no identifier character on either side.\<close>

definition word_at :: "string \<Rightarrow> string \<Rightarrow> nat \<Rightarrow> bool" where
  "word_at hay word i \<longleftrightarrow>
     starts_with word (drop i hay) \<and> (i = 0 \<or> \<not> is_ident_byte (hay ! (i - 1)))
     \<and> (length hay \<le> i + length word \<or> \<not> is_ident_byte (hay ! (i + length word)))"

text \<open>The search loop; \<open>None\<close>: slicing the text inside a character panics.\<close>

function word_search :: "string \<Rightarrow> string \<Rightarrow> nat \<Rightarrow> bool option" where
  "word_search hay word i =
     (if word = [] \<or> slice_to hay i = None then None
      else case find_sub word (drop i hay) of
          None \<Rightarrow> Some False
        | Some rel \<Rightarrow> if word_at hay word (i + rel) then Some True else word_search hay word (i + rel + 1))"
  by pat_completeness auto
termination
proof (relation "measure (\<lambda>(hay, _, i). length hay - i)", goal_cases)
  case (2 hay word i rel)
  then have "starts_with word (drop rel (drop i hay))" using find_sub_SomeD by blast
  then have "drop (i + rel) hay \<noteq> []" using 2 by (auto simp: starts_with_def add.commute)
  then show ?case by simp
qed simp

declare word_search.simps [simp del]

definition contains_word :: "string \<Rightarrow> string \<Rightarrow> bool option" where
  "contains_word hay word = (if word = [] then Some False else word_search hay word 0)"

fun parse_import_nodes :: "node list \<Rightarrow> import_decl list option" where
  "parse_import_nodes [] = Some []"
| "parse_import_nodes (n # ns) =
     (if kind n \<noteq> ''import_declaration'' then parse_import_nodes ns
      else case parse_import (node_text n) (nd_start (data_of n)) (nd_end (data_of n)) of
          None \<Rightarrow> None
        | Some d \<Rightarrow> map_option ((#) d) (parse_import_nodes ns))"

definition slice :: "string \<Rightarrow> nat \<Rightarrow> nat \<Rightarrow> string" where
  "slice s a b = take (b - a) (drop a s)"

text \<open>A slice between two bytes of the source; nodes begin and end at characters.\<close>

definition blank :: "string \<Rightarrow> bool" where
  "blank s \<longleftrightarrow> trim_start s = []"

fun only_blank_between :: "string \<Rightarrow> nat \<Rightarrow> import_decl list \<Rightarrow> bool" where
  "only_blank_between source cursor [] = True"
| "only_blank_between source cursor (d # ds) \<longleftrightarrow> blank (slice source cursor (id_start d)) \<and> only_blank_between source (id_end d) ds"

definition import_simple :: "import_decl \<Rightarrow> string" where
  "import_simple d = last (split_char (CHR ''.'') (id_path d))"

fun kept_imports :: "string \<Rightarrow> (bool \<times> string) set \<Rightarrow> import_decl list \<Rightarrow> import_decl list option" where
  "kept_imports outside seen [] = Some []"
| "kept_imports outside seen (d # ds) =
     (if (id_is_static d, id_path d) \<in> seen then kept_imports outside seen ds
      else let seen = insert (id_is_static d, id_path d) seen in
        if ends_with ''.*'' (id_path d) then map_option ((#) d) (kept_imports outside seen ds)
        else case contains_word outside (import_simple d) of
            None \<Rightarrow> None
          | Some used \<Rightarrow> if used then map_option ((#) d) (kept_imports outside seen ds) else kept_imports outside seen ds)"

definition import_block :: "import_decl list \<Rightarrow> string" where
  "import_block kept =
     (let statics = sort (map import_text (filter id_is_static kept)); plain = sort (map import_text (filter (\<lambda>d. \<not> id_is_static d) kept));
          blocks = (if statics = [] then [] else [join_with [CHR 0x0A] statics]) @ (if plain = [] then [] else [join_with [CHR 0x0A] plain])
      in join_with [CHR 0x0A, CHR 0x0A] blocks)"

text \<open>The outer \<open>None\<close> is a panic, the inner one is no edit; an edit is its byte region and the new text.\<close>

definition organize_imports_edit :: "string \<Rightarrow> node \<Rightarrow> ((nat \<times> nat) \<times> string) option option" where
  "organize_imports_edit source root =
     (case parse_import_nodes (named_children root) of
        None \<Rightarrow> Some None
      | Some [] \<Rightarrow> Some None
      | Some (d # ds) \<Rightarrow>
          (let region_start = id_start d; region_end = id_end (last (d # ds)) in
           if \<not> only_blank_between source region_start (d # ds) then Some None
           else case kept_imports (take region_start source @ drop region_end source) {} (d # ds) of
               None \<Rightarrow> None
             | Some kept \<Rightarrow>
                 (let new_text = import_block kept in
                  Some (if new_text = slice source region_start region_end then None else Some ((region_start, region_end), new_text)))))"

section \<open>What is kept\<close>

lemma find_sub_None: "find_sub p s = None \<Longrightarrow> i \<le> length s \<Longrightarrow> \<not> starts_with p (drop i s)"
proof (induction s arbitrary: i)
  case (Cons c s)
  then show ?case by (cases i) (auto split: if_splits)
qed (auto simp: starts_with_def split: if_splits)

lemma find_sub_earlier: "find_sub p s = Some i \<Longrightarrow> j < i \<Longrightarrow> \<not> starts_with p (drop j s)"
proof (induction s arbitrary: i j)
  case (Cons c s)
  then show ?case by (cases j) (auto split: if_splits)
qed (auto split: if_splits)

lemma word_search_iff: "word_search hay word i = Some b \<Longrightarrow> b \<longleftrightarrow> (\<exists>j \<ge> i. word_at hay word j)"
proof (induction hay word i rule: word_search.induct)
  case (1 hay word i)
  have ne: "word \<noteq> []" "slice_to hay i \<noteq> None" using 1(2) by (auto simp: word_search.simps [of hay word i] split: if_splits)
  show ?case
  proof (cases "find_sub word (drop i hay)")
    case None
    have "\<not> word_at hay word j" if "i \<le> j" for j
    proof (cases "j \<le> length hay")
      case True
      then show ?thesis using find_sub_None [OF None, of "j - i"] that by (auto simp: word_at_def)
    next
      case False
      then show ?thesis using ne by (cases word) (auto simp: word_at_def starts_with_def)
    qed
    then show ?thesis using 1(2) ne None by (auto simp: word_search.simps [of hay word i])
  next
    case (Some rel)
    have before: "\<not> word_at hay word j" if "i \<le> j" "j < i + rel" for j
      using find_sub_earlier [OF Some, of "j - i"] that by (auto simp: word_at_def)
    show ?thesis
    proof (cases "word_at hay word (i + rel)")
      case True
      then show ?thesis using 1(2) ne Some by (auto simp: word_search.simps [of hay word i] intro: exI [of _ "i + rel"])
    next
      case False
      have "word_search hay word (i + rel + 1) = Some b" using 1(2) ne Some False by (simp add: word_search.simps [of hay word i])
      then have "b \<longleftrightarrow> (\<exists>j \<ge> i + rel + 1. word_at hay word j)" using 1(1) [OF _ Some False] ne by blast
      then show ?thesis using before False by (metis Suc_eq_plus1 Suc_leI le_add1 le_trans linorder_not_less nat_less_le)
    qed
  qed
qed

lemma contains_word_iff: "contains_word hay word = Some b \<Longrightarrow> b \<longleftrightarrow> word \<noteq> [] \<and> (\<exists>i. word_at hay word i)"
  using word_search_iff [of hay word 0] by (auto simp: contains_word_def split: if_splits)

definition import_key :: "import_decl \<Rightarrow> bool \<times> string" where
  "import_key d = (id_is_static d, id_path d)"

definition import_used :: "string \<Rightarrow> import_decl \<Rightarrow> bool" where
  "import_used outside d \<longleftrightarrow> ends_with ''.*'' (id_path d) \<or> import_simple d \<noteq> [] \<and> (\<exists>i. word_at outside (import_simple d) i)"

lemma import_used_key: "import_key d = import_key e \<Longrightarrow> import_used outside d = import_used outside e"
  by (simp add: import_key_def import_used_def import_simple_def)

lemma kept_imports_exact:
  "kept_imports outside seen ds = Some kept \<Longrightarrow>
   set kept \<subseteq> set ds \<and> distinct (map import_key kept) \<and> import_key ` set kept = import_key ` {d \<in> set ds. import_used outside d} - seen"
proof (induction ds arbitrary: seen kept)
  case (Cons d ds)
  have key: "(id_is_static d, id_path d) = import_key d" by (simp add: import_key_def)
  let ?used = "\<lambda>ds. import_key ` {d \<in> set ds. import_used outside d}"
  consider (seen) "import_key d \<in> seen" "kept_imports outside seen ds = Some kept"
    | (kept) k where "import_key d \<notin> seen" "import_used outside d" "kept_imports outside (insert (import_key d) seen) ds = Some k" "kept = d # k"
    | (unused) "import_key d \<notin> seen" "\<not> import_used outside d" "kept_imports outside (insert (import_key d) seen) ds = Some kept"
    using Cons.prems contains_word_iff [of outside "import_simple d"]
    by (auto simp: Let_def key import_used_def split: if_splits option.splits)
  then show ?case
  proof cases
    case seen
    then show ?thesis using Cons.IH [OF seen(2)] by auto
  next
    case kept
    then show ?thesis using Cons.IH [OF kept(3)] by auto
  next
    case unused
    then have "import_key d \<notin> ?used ds" using import_used_key by (metis (mono_tags, lifting) imageE mem_Collect_eq)
    then show ?thesis using Cons.IH [OF unused(3)] unused(2) by auto
  qed
qed simp


text \<open>Searching on after a partial match slices the text inside its first character when that has several bytes.\<close>

lemma word_search_inside_character: "contains_word ([CHR ''x'', CHR 0xC3, CHR 0x89]) [CHR 0xC3, CHR 0x89] = None"
  by (simp add: contains_word_def word_search.simps slice_to_def word_at_def starts_with_def is_ident_byte_def is_ascii_alphabetic_def continuation_def)

lemma ws_split_space: "list_all solid u \<Longrightarrow> ws_split word (u @ CHR 0x20 # v) = (if word @ u = [] then [] else [word @ u]) @ ws_split [] v"
proof (induction u arbitrary: word)
  case Nil
  show ?case by (simp add: ws_split.simps [of word "CHR 0x20 # v"] white_space_def starts_with_def)
next
  case (Cons c u)
  have "find (\<lambda>w. starts_with w (c # u @ CHR 0x20 # v)) white_space = None"
    using Cons.prems by (auto simp: find_None_iff solid_def dest!: starts_with_hd [OF _ white_space_nonempty])
      (metis hd_in_set white_space_nonempty)
  then show ?case using Cons by (simp add: ws_split.simps [of word "c # u @ CHR 0x20 # v"])
qed

lemma solid_source: "c \<in> set ''import static abcB./*;'' \<Longrightarrow> c \<noteq> CHR 0x20 \<Longrightarrow> solid c"
  by (auto simp: solid_def white_space_def)

lemmas space_eval = trim_solid trim_start_solid trim_end_solid trim_start_space solid_source strip_prefix_def starts_with_def trim_semicolons_def
  split_whitespace_solid

text \<open>A comment inside an import makes it look unused.\<close>

lemma commented_import_dropped:
  "\<exists>d. parse_import ''import a./*c*/B;'' 0 17 = Some d \<and> kept_imports ''B b;'' {} [d] = Some []"
proof -
  have "parse_import ''import a./*c*/B;'' 0 17 = Some \<lparr>id_is_static = False, id_path = ''a./*c*/B'', id_start = 0, id_end = 17\<rparr>"
    by (simp add: parse_import_def space_eval)
  moreover have "contains_word ''B b;'' ''/*c*/B'' = Some False"
    by (simp add: contains_word_def word_search.simps slice_to_def continuation_def starts_with_def)
  ultimately show ?thesis by (simp add: import_simple_def ends_with_def)
qed

text \<open>A static import with more than one space reads as the import of a type.\<close>

lemma static_import_misread: "dotted_path ''import  static a.B.c;'' ''import'' = Some ''statica.B.c''"
proof -
  have "split_whitespace ''static a.B.c'' = [''static'', ''a.B.c'']"
    using ws_split_space [of "''static''" "[]" "''a.B.c''"] by (simp add: split_whitespace_def ws_split_solid solid_source)
  then show ?thesis by (simp add: dotted_path_def trim_space trim_solid solid_source strip_prefix_def starts_with_def trim_semicolons_def)
qed


definition unused_import_root :: node where
  "unused_import_root =
     sample_node ''program'' None [] [Node \<lparr>nd_id = 1, nd_kind = ''import_declaration'', nd_named = True, nd_missing = False, nd_error = False,
       nd_has_error = False, nd_field = None, nd_start = 0, nd_end = 11, nd_start_row = 0, nd_end_row = 0, nd_text = ''import a.B;''\<rparr> []]"


section \<open>Test classes (junit.rs)\<close>

datatype test_kind = JUnit5 | JUnit4

record test_method =
  tm_name :: string
  tm_range :: range
  tm_kind :: test_kind

record test_class =
  tc_binary_fqn :: string
  tc_name :: string
  tc_range :: range
  tc_methods :: "test_method list"

definition TEST_ANNOTATIONS :: "string list" where
  "TEST_ANNOTATIONS = [''Test'', ''ParameterizedTest'', ''RepeatedTest'', ''TestFactory'', ''TestTemplate'']"

definition classify_fqn :: "string \<Rightarrow> test_kind option" where
  "classify_fqn fqn =
     (if last (split_char (CHR ''.'') fqn) \<notin> set TEST_ANNOTATIONS then None
      else if starts_with ''org.junit.jupiter.'' fqn then Some JUnit5
      else if fqn = ''org.junit.Test'' then Some JUnit4
      else None)"

definition classify_annotation :: "import_context \<Rightarrow> string \<Rightarrow> test_kind option" where
  "classify_annotation im name =
     (if contains_sub ''.'' name then classify_fqn name
      else if name \<notin> set TEST_ANNOTATIONS then None
      else case im_single im name of
          Some fqn \<Rightarrow> classify_fqn fqn
        | None \<Rightarrow> find_map classify_fqn (import_candidates im name))"

definition annotation_names :: "node \<Rightarrow> node list" where
  "annotation_names modifiers =
     List.map_filter (child_by_field ''name'')
       (filter (\<lambda>c. kind c = ''annotation'' \<or> kind c = ''marker_annotation'') (named_children modifiers))"

definition test_method_of :: "line_index \<Rightarrow> import_context \<Rightarrow> node \<Rightarrow> test_method option" where
  "test_method_of ix im method =
     (if nd_has_error (data_of method) \<or> has_modifier ''static'' method \<or> has_modifier ''abstract'' method then None
      else case modifiers_node method of
          None \<Rightarrow> None
        | Some modifiers \<Rightarrow>
            (case find_map (\<lambda>name. classify_annotation im (node_text name)) (annotation_names modifiers) of
               None \<Rightarrow> None
             | Some k \<Rightarrow>
                 map_option (\<lambda>name. \<lparr>tm_name = node_text name, tm_range = range_of ix name, tm_kind = k\<rparr>) (child_by_field ''name'' method)))"

definition test_class_of :: "line_index \<Rightarrow> import_context \<Rightarrow> located \<Rightarrow> test_class option" where
  "test_class_of ix im l =
     (case (child_by_field ''name'' (fst l), child_by_field ''body'' (fst l)) of
        (Some name, Some body) \<Rightarrow>
          (let methods = List.map_filter (test_method_of ix im) (filter (\<lambda>m. kind m = ''method_declaration'') (named_children body)) in
           if methods = [] then None
           else map_option (\<lambda>fqn. \<lparr>tc_binary_fqn = fqn, tc_name = node_text name, tc_range = range_of ix name, tc_methods = methods\<rparr>)
             (binary_fqn_of l))
      | _ \<Rightarrow> None)"

function collect_classes :: "line_index \<Rightarrow> import_context \<Rightarrow> located \<Rightarrow> test_class list" where
  "collect_classes ix im l =
     (if kind (fst l) = ''class_declaration'' then opt_list (test_class_of ix im l) else [])
     @ concat (map (collect_classes ix im) (named_kids l))"
  by pat_completeness auto
termination by (relation "measure (\<lambda>(_, _, l). size (fst l))") (simp_all add: size_named_kid [unfolded split_def])

declare collect_classes.simps [simp del]

definition discover_tests :: "line_index \<Rightarrow> node \<Rightarrow> test_class list" where
  "discover_tests ix root = collect_classes ix (parse_imports root) (root, [])"

text \<open>The nodes below a node through named children, with their ancestors.\<close>

inductive named_below :: "located \<Rightarrow> located \<Rightarrow> bool" where
  here: "named_below l l"
| kid: "k \<in> set (named_kids l) \<Longrightarrow> named_below k m \<Longrightarrow> named_below l m"

lemma set_opt_list: "set (opt_list x) = set_option x"
  by (cases x) (simp_all add: opt_list_def)

lemma collect_classes_iff:
  "c \<in> set (collect_classes ix im l) \<longleftrightarrow> (\<exists>m. named_below l m \<and> kind (fst m) = ''class_declaration'' \<and> test_class_of ix im m = Some c)"
proof (induction ix im l rule: collect_classes.induct)
  case (1 ix im l)
  have below: "(\<exists>m. named_below l m \<and> P m) \<longleftrightarrow> P l \<or> (\<exists>k \<in> set (named_kids l). \<exists>m. named_below k m \<and> P m)" for P
    by (metis named_below.cases named_below.here named_below.kid)
  have "c \<in> set (collect_classes ix im l) \<longleftrightarrow>
      kind (fst l) = ''class_declaration'' \<and> test_class_of ix im l = Some c \<or> (\<exists>k \<in> set (named_kids l). c \<in> set (collect_classes ix im k))"
    by (simp add: collect_classes.simps [of ix im l] set_opt_list)
  then show ?case using 1 below [of "\<lambda>m. kind (fst m) = ''class_declaration'' \<and> test_class_of ix im m = Some c"] by blast
qed

text \<open>The name the imports of a file give an annotation decides: a dotted name itself, the single import of a simple name alone.\<close>

definition junit_name :: "import_context \<Rightarrow> string \<Rightarrow> string \<Rightarrow> bool" where
  "junit_name im name fqn \<longleftrightarrow>
     (if CHR ''.'' \<in> set name then fqn = name
      else case im_single im name of Some f \<Rightarrow> fqn = f | None \<Rightarrow> fqn \<in> set (import_candidates im name))"

lemma contains_dot: "contains_sub ''.'' s \<longleftrightarrow> CHR ''.'' \<in> set s"
proof (induction s)
  case (Cons c s)
  then show ?case by (auto simp: contains_sub_def starts_with_def)
qed (simp add: contains_sub_def)

lemma classify_annotation_sound: "classify_annotation im name = Some k \<Longrightarrow> \<exists>fqn. junit_name im name fqn \<and> classify_fqn fqn = Some k"
  by (auto simp: classify_annotation_def junit_name_def contains_dot split: if_splits option.splits dest!: find_map_Some)

lemma test_method_sound:
  assumes "test_method_of ix im m = Some t"
  shows "\<not> nd_has_error (data_of m) \<and> \<not> has_modifier ''static'' m \<and> \<not> has_modifier ''abstract'' m
    \<and> (\<exists>mods a fqn. modifiers_node m = Some mods \<and> a \<in> set (annotation_names mods) \<and> junit_name im (node_text a) fqn
         \<and> classify_fqn fqn = Some (tm_kind t))"
proof -
  obtain mods k where k: "modifiers_node m = Some mods" "find_map (\<lambda>name. classify_annotation im (node_text name)) (annotation_names mods) = Some k"
    "tm_kind t = k" using assms by (auto simp: test_method_of_def split: if_splits option.splits)
  then show ?thesis
    using assms find_map_Some [OF k(2)] classify_annotation_sound by (fastforce simp: test_method_of_def split: if_splits)
qed

text \<open>
  Test discovery lists exactly the classes with a test: a class declaration anywhere in the file is listed, under its binary name,
  when it has a method that is one, and every method listed is an instance method free of syntax errors with an
  annotation that names a JUnit annotation through the imports of the file.
\<close>

theorem discovered_tests_exact:
  "(c \<in> set (discover_tests ix root) \<longleftrightarrow>
      (\<exists>m. named_below (root, []) m \<and> kind (fst m) = ''class_declaration'' \<and> test_class_of ix (parse_imports root) m = Some c))
   \<and> (c \<in> set (discover_tests ix root) \<longrightarrow> tc_methods c \<noteq> [] \<and>
      (\<forall>t \<in> set (tc_methods c). \<exists>n mods a fqn. \<not> nd_has_error (data_of n) \<and> \<not> has_modifier ''static'' n \<and> \<not> has_modifier ''abstract'' n
         \<and> modifiers_node n = Some mods \<and> a \<in> set (annotation_names mods) \<and> junit_name (parse_imports root) (node_text a) fqn
         \<and> classify_fqn fqn = Some (tm_kind t)))"
proof (intro conjI impI)
  assume "c \<in> set (discover_tests ix root)"
  then obtain m where m: "test_class_of ix (parse_imports root) m = Some c" by (auto simp: discover_tests_def collect_classes_iff)
  obtain body where body: "tc_methods c = List.map_filter (test_method_of ix (parse_imports root)) (filter (\<lambda>m. kind m = ''method_declaration'') (named_children body))"
    "tc_methods c \<noteq> []" using m by (auto simp: test_class_of_def Let_def split: option.splits if_splits)
  then show "tc_methods c \<noteq> []" by blast
  show "\<forall>t \<in> set (tc_methods c). \<exists>n mods a fqn. \<not> nd_has_error (data_of n) \<and> \<not> has_modifier ''static'' n \<and> \<not> has_modifier ''abstract'' n
      \<and> modifiers_node n = Some mods \<and> a \<in> set (annotation_names mods) \<and> junit_name (parse_imports root) (node_text a) fqn
      \<and> classify_fqn fqn = Some (tm_kind t)"
  proof
    fix t assume "t \<in> set (tc_methods c)"
    then obtain n where "test_method_of ix (parse_imports root) n = Some t" by (auto simp: body(1) in_map_filter)
    from test_method_sound [OF this] show "\<exists>n mods a fqn. \<not> nd_has_error (data_of n) \<and> \<not> has_modifier ''static'' n \<and> \<not> has_modifier ''abstract'' n
      \<and> modifiers_node n = Some mods \<and> a \<in> set (annotation_names mods) \<and> junit_name (parse_imports root) (node_text a) fqn
      \<and> classify_fqn fqn = Some (tm_kind t)" by blast
  qed
qed (auto simp: discover_tests_def collect_classes_iff)


definition sample_test_class :: node where
  "sample_test_class =
     sample_node ''class_declaration'' None []
       [sample_node ''identifier'' (Some ''name'') ''C'' [],
        sample_node ''class_body'' (Some ''body'') []
          [sample_node ''method_declaration'' None []
             [sample_node ''modifiers'' None [] [sample_node ''marker_annotation'' None [] [sample_node ''identifier'' (Some ''name'') ''org.junit.Test'' []]],
              sample_node ''identifier'' (Some ''name'') ''t'' []]]]"

definition sample_test_file :: node where
  "sample_test_file = sample_node ''program'' None [] [sample_test_class]"

definition sample_test_index :: line_index where
  "sample_test_index = new_index [] Utf16"

theorem discovered_tests_exact_witness:
  "\<exists>c. c \<in> set (discover_tests sample_test_index sample_test_file) \<and> tc_binary_fqn c = ''C'' \<and> tc_methods c \<noteq> []"
proof -
  let ?l = "(sample_test_class, [sample_test_file])" and ?im = "parse_imports sample_test_file"
  have "classify_annotation ?im ''org.junit.Test'' = Some JUnit4"
    by (simp add: classify_annotation_def contains_dot classify_fqn_def TEST_ANNOTATIONS_def starts_with_def)
  then have "\<exists>t. test_method_of sample_test_index ?im (sample_node ''method_declaration'' None []
     [sample_node ''modifiers'' None [] [sample_node ''marker_annotation'' None [] [sample_node ''identifier'' (Some ''name'') ''org.junit.Test'' []]],
      sample_node ''identifier'' (Some ''name'') ''t'' []]) = Some t"
    by (simp add: test_method_of_def has_modifier_def modifiers_node_def annotation_names_def map_filter_simps) (simp add: sample_node_def)
  moreover have "binary_fqn_of ?l = Some ''C''"
    by (simp add: binary_fqn_of_def sample_test_class_def sample_test_file_def from_kind_def file_package_def root_of_def)
  ultimately obtain c where c: "test_class_of sample_test_index ?im ?l = Some c" "tc_binary_fqn c = ''C''"
    by (auto simp: test_class_of_def sample_test_class_def map_filter_simps)
  have "named_below (sample_test_file, []) ?l"
    by (rule named_below.kid [of ?l]) (auto simp: named_kids_def sample_test_file_def sample_test_class_def below_def intro: named_below.here)
  moreover have "kind (fst ?l) = ''class_declaration''" by (simp add: sample_test_class_def)
  ultimately have "c \<in> set (discover_tests sample_test_index sample_test_file)" using c(1) discovered_tests_exact by blast
  then show ?thesis using c(2) discovered_tests_exact by blast
qed

end
